(* ===== verification/Prelude.thy ===== *)
theory Prelude
  imports Main "HOL-Library.AList" "HOL-Library.List_Lexorder" "HOL-Library.Char_ord"
    "HOL-Library.Multiset"
begin

section \<open>Prelude: strings, ordered maps, machines\<close>

text \<open>
  What every component of the development shares.

  \<^item> JavaScript strings are lists of code units; a \<^typ>\<open>char\<close> is one code unit in the range
    0 to 255, so a \<^typ>\<open>string\<close> is a JavaScript string over Latin-1. Length, comparison by
    code unit, \<open>trim\<close> and \<open>JSON.stringify\<close> are exact on these strings.
  \<^item> A JavaScript \<open>Map\<close> (and an object used as a map) keeps insertion order: an association
    list. \<open>map.set\<close> is \<^const>\<open>AList.update\<close> (in place for a known key, at the end for a new
    one), \<open>map.delete\<close> is \<^const>\<open>AList.delete\<close>, \<open>map.get\<close> is \<^const>\<open>map_of\<close>.
  \<^item> The locale \<open>invariant_machine\<close> is the contract of a component that handles a sequence of
    operations: an invariant every operation keeps. Each stateful component interprets it.
\<close>

named_theorems omap_simps "rewriting of ordered maps"

subsection \<open>Strings\<close>

text \<open>White space in the sense of \<open>String.prototype.trim\<close>, within Latin-1.\<close>

definition js_space :: "char \<Rightarrow> bool" where
  "js_space c \<longleftrightarrow> c \<in> {CHR 0x09, CHR 0x0A, CHR 0x0B, CHR 0x0C, CHR 0x0D, CHR 0x20, CHR 0xA0}"

definition js_trim :: "string \<Rightarrow> string" where
  "js_trim s = rev (dropWhile js_space (rev (dropWhile js_space s)))"

text \<open>The test \<open>s.trim().length > 0\<close> (also written \<open>s.trim()\<close> as a condition).\<close>

definition nonblank :: "string \<Rightarrow> bool" where
  "nonblank s \<longleftrightarrow> js_trim s \<noteq> []"

lemma js_trim_Nil_iff: "js_trim s = [] \<longleftrightarrow> (\<forall>c \<in> set s. js_space c)"
proof
  assume "js_trim s = []"
  then have all: "\<forall>c \<in> set (dropWhile js_space s). js_space c"
    by (simp add: js_trim_def dropWhile_eq_Nil_conv)
  have "dropWhile js_space s = []"
  proof (rule ccontr)
    assume ne: "dropWhile js_space s \<noteq> []"
    then have "\<not> js_space (hd (dropWhile js_space s))" by (rule hd_dropWhile)
    with all ne show False by simp
  qed
  then show "\<forall>c \<in> set s. js_space c" by (simp add: dropWhile_eq_Nil_conv)
next
  assume "\<forall>c \<in> set s. js_space c"
  then have "dropWhile js_space s = []" by (simp only: dropWhile_eq_Nil_conv)
  then show "js_trim s = []" unfolding js_trim_def by (simp only: dropWhile.simps rev.simps)
qed

lemma nonblank_iff: "nonblank s \<longleftrightarrow> (\<exists>c \<in> set s. \<not> js_space c)"
  by (simp add: nonblank_def js_trim_Nil_iff)

lemma nonblank_nonempty: "nonblank s \<Longrightarrow> s \<noteq> []"
  by (auto simp: nonblank_iff)

lemma dropWhile_hd: "(s \<noteq> [] \<Longrightarrow> \<not> P (hd s)) \<Longrightarrow> dropWhile P s = s"
  by (cases s) auto

lemma js_trim_idem: "js_trim (js_trim s) = js_trim s"
proof -
  let ?d = "dropWhile js_space s"
  let ?t = "dropWhile js_space (rev ?d)"
  have suf: "\<exists>p. rev ?d = p @ ?t"
    by (metis takeWhile_dropWhile_id)
  have last: "?t \<noteq> [] \<Longrightarrow> \<not> js_space (hd (rev ?t))"
  proof -
    assume ne: "?t \<noteq> []"
    from suf obtain p where "rev ?d = p @ ?t" by blast
    then have "?d = rev ?t @ rev p" by (metis rev_append rev_rev_ident)
    with ne have "hd (rev ?t) = hd ?d" by (metis hd_append2 rev_is_Nil_conv)
    moreover from ne have "?d \<noteq> []" by (metis dropWhile.simps(1) rev.simps(1))
    then have "\<not> js_space (hd ?d)" by (rule hd_dropWhile)
    ultimately show ?thesis by simp
  qed
  have "dropWhile js_space (rev ?t) = rev ?t"
    by (rule dropWhile_hd) (use last in auto)
  moreover have "dropWhile js_space ?t = ?t"
    by (rule dropWhile_hd) (use hd_dropWhile in blast)
  ultimately show ?thesis by (simp add: js_trim_def)
qed

subsection \<open>Decimal text of integers\<close>

definition digit_char :: "nat \<Rightarrow> char" where
  "digit_char d = ''0123456789'' ! d"

definition is_digit :: "char \<Rightarrow> bool" where
  "is_digit c \<longleftrightarrow> CHR ''0'' \<le> c \<and> c \<le> CHR ''9''"

definition digit_val :: "char \<Rightarrow> nat" where
  "digit_val c = of_char c - 48"

fun decimal :: "nat \<Rightarrow> string" where
  "decimal n = (if n < 10 then [digit_char n] else decimal (n div 10) @ [digit_char (n mod 10)])"

declare decimal.simps [simp del]

text \<open>\<open>String(n)\<close> of an integer below \<open>10^21\<close> in absolute value.\<close>

definition int_text :: "int \<Rightarrow> string" where
  "int_text i = (if i < 0 then ''-'' @ decimal (nat (- i)) else decimal (nat i))"

text \<open>\<open>Number(s)\<close> of a string of decimal digits.\<close>

definition undecimal :: "string \<Rightarrow> nat" where
  "undecimal s = foldl (\<lambda>n c. 10 * n + digit_val c) 0 s"

lemma digit_cases: "d < 10 \<Longrightarrow> d \<in> {0, 1, 2, 3, 4, 5, 6, 7, 8, 9 :: nat}"
  by auto

lemma digit_char_digit: "d < 10 \<Longrightarrow> is_digit (digit_char d) \<and> digit_val (digit_char d) = d"
  using digit_cases [of d]
  by (auto simp: digit_char_def is_digit_def digit_val_def less_eq_char_def)

lemma decimal_few: "n < 10 \<Longrightarrow> decimal n = [digit_char n]"
  and decimal_many: "10 \<le> n \<Longrightarrow> decimal n = decimal (n div 10) @ [digit_char (n mod 10)]"
  by (subst decimal.simps, simp)+

lemma decimal_digits: "list_all is_digit (decimal n)"
  by (induction n rule: decimal.induct)
    (subst decimal.simps, auto simp: digit_char_digit)

lemma decimal_nonempty: "decimal n \<noteq> []"
  by (subst decimal.simps) simp

lemma undecimal_decimal: "undecimal (decimal n) = n"
proof (induction n rule: less_induct)
  case (less n)
  consider (few) "n < 10" | (many) "10 \<le> n" "n div 10 < n" by force
  then show ?case
  proof cases
    case few
    then show ?thesis by (simp add: decimal_few undecimal_def digit_char_digit)
  next
    case many
    have "undecimal (decimal n) = 10 * undecimal (decimal (n div 10)) + n mod 10"
      by (simp add: decimal_many [OF many(1)] undecimal_def digit_char_digit)
    with less.IH [OF many(2)] show ?thesis by simp
  qed
qed

lemma decimal_inject: "decimal m = decimal n \<longleftrightarrow> m = n"
  by (metis undecimal_decimal)

lemma decimal_no_leading_zero: "0 < n \<Longrightarrow> hd (decimal n) \<noteq> CHR ''0''"
proof (induction n rule: less_induct)
  case (less n)
  consider (few) "n < 10" | (many) "10 \<le> n" "n div 10 < n" "0 < n div 10" by force
  then show ?case
  proof cases
    case few
    with less.prems digit_cases [of n] show ?thesis by (auto simp: decimal_few digit_char_def)
  next
    case many
    with less.IH [OF many(2,3)] show ?thesis by (simp add: decimal_many decimal_nonempty)
  qed
qed

lemma digit_not_minus: "list_all is_digit s \<Longrightarrow> CHR ''-'' \<notin> set s"
  by (auto simp: list_all_iff is_digit_def less_eq_char_def)

lemma int_text_inject: "int_text i = int_text j \<longleftrightarrow> i = j"
proof
  have neg: "decimal m \<noteq> CHR ''-'' # s" for m s
    using digit_not_minus [OF decimal_digits [of m]] by (metis list.set_intros(1))
  assume "int_text i = int_text j"
  then show "i = j"
    by (auto simp: int_text_def neg neg [symmetric] decimal_inject eq_nat_nat_iff split: if_splits)
qed simp

subsection \<open>Joining strings\<close>

fun join :: "string \<Rightarrow> string list \<Rightarrow> string" where
  "join sep [] = []"
| "join sep [s] = s"
| "join sep (s # t # ts) = s @ sep @ join sep (t # ts)"

subsection \<open>Splitting and affixes\<close>

text \<open>\<open>s.split(d)\<close> for a separator of one code unit.\<close>

fun split_on :: "char \<Rightarrow> string \<Rightarrow> string list" where
  "split_on d [] = [[]]"
| "split_on d (c # s) =
     (if c = d then [] # split_on d s
      else case split_on d s of p # ps \<Rightarrow> (c # p) # ps | [] \<Rightarrow> [[c]])"

lemma split_on_nonempty [simp]: "split_on d s \<noteq> []"
  by (induction s) (auto split: list.split)

lemma split_on_plain: "d \<notin> set s \<Longrightarrow> split_on d s = [s]"
  by (induction s) auto

lemma split_on_append: "d \<notin> set s \<Longrightarrow> split_on d (s @ d # t) = s # split_on d t"
  by (induction s) auto

definition starts_with :: "string \<Rightarrow> string \<Rightarrow> bool" where
  "starts_with p s \<longleftrightarrow> take (length p) s = p"

lemma starts_with_append [simp]: "starts_with p (p @ s)"
  by (simp add: starts_with_def)

text \<open>\<open>s.replace(/^p/, "")\<close> of a literal prefix.\<close>

definition strip_prefix :: "string \<Rightarrow> string \<Rightarrow> string" where
  "strip_prefix p s = (if starts_with p s then drop (length p) s else s)"

subsection \<open>Ordered maps\<close>

type_synonym ('k, 'v) omap = "('k \<times> 'v) list"

abbreviation oget :: "('k, 'v) omap \<Rightarrow> 'k \<Rightarrow> 'v option" where
  "oget m k \<equiv> map_of m k"

abbreviation oset :: "'k \<Rightarrow> 'v \<Rightarrow> ('k, 'v) omap \<Rightarrow> ('k, 'v) omap" where
  "oset k v m \<equiv> AList.update k v m"

abbreviation odel :: "'k \<Rightarrow> ('k, 'v) omap \<Rightarrow> ('k, 'v) omap" where
  "odel k m \<equiv> AList.delete k m"

abbreviation okeys :: "('k, 'v) omap \<Rightarrow> 'k list" where
  "okeys m \<equiv> map fst m"

abbreviation ovals :: "('k, 'v) omap \<Rightarrow> 'v list" where
  "ovals m \<equiv> map snd m"

definition omap_wf :: "('k, 'v) omap \<Rightarrow> bool" where
  "omap_wf m \<longleftrightarrow> distinct (okeys m)"

lemma omap_wf_Nil [simp]: "omap_wf []"
  by (simp add: omap_wf_def)

lemma omap_wf_update [simp]: "omap_wf m \<Longrightarrow> omap_wf (oset k v m)"
  by (simp add: omap_wf_def distinct_update)

lemma omap_wf_delete [simp]: "omap_wf m \<Longrightarrow> omap_wf (odel k m)"
  by (simp add: omap_wf_def distinct_delete)

lemma omap_wf_filter [simp]: "omap_wf m \<Longrightarrow> omap_wf (filter P m)"
  by (simp add: omap_wf_def distinct_map_filter)

lemma oget_update [omap_simps, simp]:
  "oget (oset k v m) k' = (if k' = k then Some v else oget m k')"
  by (simp add: update_conv')

lemma oget_delete [omap_simps, simp]:
  "oget (odel k m) k' = (if k' = k then None else oget m k')"
  by (simp add: delete_conv')

lemma oget_filter:
  assumes "omap_wf m"
  shows "oget (filter P m) k = (case oget m k of Some v \<Rightarrow> (if P (k, v) then Some v else None) | None \<Rightarrow> None)"
  using assms
proof (induction m)
  case Nil
  then show ?case by simp
next
  case (Cons p m)
  obtain k' v' where p: "p = (k', v')" by (cases p)
  from Cons.prems p have wf: "omap_wf m" and fresh: "k' \<notin> set (okeys m)"
    by (auto simp: omap_wf_def)
  from fresh have "oget m k' = None" by (simp add: map_of_eq_None_iff)
  with Cons.IH [OF wf] p show ?case by (auto split: option.splits)
qed

lemma oget_Some_in: "oget m k = Some v \<Longrightarrow> (k, v) \<in> set m"
  by (rule map_of_SomeD)

lemma oget_iff: "omap_wf m \<Longrightarrow> oget m k = Some v \<longleftrightarrow> (k, v) \<in> set m"
  by (simp add: omap_wf_def map_of_eq_Some_iff)

lemma set_update_subset: "set (oset k v m) \<subseteq> insert (k, v) (set m)"
  by (induction m) auto

lemma set_delete_subset: "set (odel k m) \<subseteq> set m"
  by (auto simp: AList.delete_eq)

lemma set_oset: "omap_wf m \<Longrightarrow> set (oset k v m) = insert (k, v) {p \<in> set m. fst p \<noteq> k}"
proof (induction m)
  case Nil
  then show ?case by simp
next
  case (Cons p m)
  then show ?case by (cases p) (auto simp: omap_wf_def image_iff)
qed

lemma set_odel: "set (odel k m) = {p \<in> set m. fst p \<noteq> k}"
  by (auto simp: AList.delete_eq)

text \<open>A property of every entry of a map, under its key.\<close>

definition okeep :: "('k \<Rightarrow> 'v \<Rightarrow> bool) \<Rightarrow> ('k, 'v) omap \<Rightarrow> bool" where
  "okeep P m \<longleftrightarrow> (\<forall>k v. oget m k = Some v \<longrightarrow> P k v)"

lemma okeep_Nil [simp]: "okeep P []"
  by (simp add: okeep_def)

lemma okeep_get: "okeep P m \<Longrightarrow> oget m k = Some v \<Longrightarrow> P k v"
  by (simp add: okeep_def)

lemma okeep_set: "okeep P m \<Longrightarrow> P k v \<Longrightarrow> okeep P (oset k v m)"
  by (simp add: okeep_def)

lemma okeep_del: "okeep P m \<Longrightarrow> okeep P (odel k m)"
  by (simp add: okeep_def)

lemma okeep_mono: "okeep P m \<Longrightarrow> (\<And>k v. P k v \<Longrightarrow> Q k v) \<Longrightarrow> okeep Q m"
  by (simp add: okeep_def)

lemma okeep_fold:
  assumes "\<And>c m. okeep P m \<Longrightarrow> okeep P (f c m)" and "okeep P m"
  shows "okeep P (fold f cs m)"
  using assms(2) by (induction cs arbitrary: m) (simp_all add: assms(1))

lemma omap_wf_fold:
  assumes "\<And>c m. omap_wf m \<Longrightarrow> omap_wf (f c m)" and "omap_wf m"
  shows "omap_wf (fold f cs m)"
  using assms(2) by (induction cs arbitrary: m) (simp_all add: assms(1))

subsection \<open>Errors\<close>

text \<open>A fallible computation returns \<^const>\<open>Inl\<close> the error it throws; \<open>seq\<close> goes on with the result.\<close>

definition seq :: "'err + 'x \<Rightarrow> ('x \<Rightarrow> 'err + 'y) \<Rightarrow> 'err + 'y" where
  "seq r f = (case r of Inl e \<Rightarrow> Inl e | Inr a \<Rightarrow> f a)"

lemma seq_simps [simp]: "seq (Inl e) f = Inl e" "seq (Inr a) f = f a"
  by (simp_all add: seq_def)

lemma seq_Inr: "seq r f = Inr b \<longleftrightarrow> (\<exists>a. r = Inr a \<and> f a = Inr b)"
  by (cases r) simp_all

lemma seq_Inl: "seq r f = Inl e \<longleftrightarrow> r = Inl e \<or> (\<exists>a. r = Inr a \<and> f a = Inl e)"
  by (cases r) simp_all

subsection \<open>Machines that keep an invariant\<close>

text \<open>
  A component that handles operations one after another: \<open>step\<close> is one operation, \<open>inv\<close> what
  its state always satisfies. A client that runs any sequence of operations relies on the
  invariant only.
\<close>

locale invariant_machine =
  fixes step :: "'e \<Rightarrow> 's \<Rightarrow> 's" and inv :: "'s \<Rightarrow> bool"
  assumes step_inv: "inv s \<Longrightarrow> inv (step e s)"
begin

lemma run_inv: "inv s \<Longrightarrow> inv (fold step es s)"
  by (induction es arbitrary: s) (simp_all add: step_inv)

end

text \<open>A machine that also only moves up in a reflexive and transitive order of its states.\<close>

locale monotone_machine = invariant_machine +
  fixes le :: "'b \<Rightarrow> 'b \<Rightarrow> bool"
  assumes le_refl: "inv s \<Longrightarrow> le s s"
    and le_trans: "le s t \<Longrightarrow> le t u \<Longrightarrow> le s u"
    and step_le: "inv s \<Longrightarrow> le s (step e s)"
begin

lemma run_le: "inv s \<Longrightarrow> le s (fold step es s)"
proof (induction es arbitrary: s)
  case Nil
  then show ?case by (simp add: le_refl)
next
  case (Cons e es)
  have "le s (step e s)" using Cons.prems by (rule step_le)
  moreover have "le (step e s) (fold step es (step e s))"
    by (rule Cons.IH) (rule step_inv [OF Cons.prems])
  ultimately show ?case by (simp add: le_trans)
qed

end

subsection \<open>Codecs\<close>

text \<open>
  A text form that reads back: \<open>enc\<close> prints the values of \<open>ok\<close>, \<open>dec\<close> parses and accepts only
  what \<open>enc\<close> prints. Clients may compare the texts instead of the values.
\<close>

locale codec =
  fixes enc :: "'a \<Rightarrow> 'w" and dec :: "'w \<Rightarrow> 'a option" and ok :: "'a \<Rightarrow> bool"
  assumes dec_enc: "ok a \<Longrightarrow> dec (enc a) = Some a"
    and dec_sound: "dec w = Some a \<Longrightarrow> ok a \<and> enc a = w"
begin

lemma enc_inject: "ok a \<Longrightarrow> ok b \<Longrightarrow> enc a = enc b \<longleftrightarrow> a = b"
  by (metis dec_enc option.inject)

lemma dec_inject: "dec v = Some a \<Longrightarrow> dec w = Some a \<Longrightarrow> v = w"
  using dec_sound by blast

lemma dec_iff: "dec w = Some a \<longleftrightarrow> ok a \<and> enc a = w"
  using dec_enc dec_sound by blast

end

subsection \<open>Evaluation\<close>

text \<open>Code equations for the bounded quantifiers over options that the models use.\<close>

lemma Bex_set_option [code_unfold]: "(\<exists>x \<in> set_option o'. P x) = (case o' of None \<Rightarrow> False | Some x \<Rightarrow> P x)"
  by (cases o') simp_all

lemma pred_option_case [code_unfold]: "pred_option P o' = (case o' of None \<Rightarrow> True | Some x \<Rightarrow> P x)"
  by (cases o') simp_all

end
