(* ===== verification/Json.thy ===== *)
theory Json
  imports Prelude
begin

section \<open>Wire values and their canonical text\<close>

text \<open>
  The values that cross the extension's runtime boundaries and the canonical text by which the
  agent runtime compares them (\<open>packages/extension/src/agent/runtime-identity.ts\<close>, the wire
  check of \<open>runtime-protocol.ts\<close>).

  A JavaScript value of unknown type is a \<open>jval\<close>: arrays may have holes (\<open>JHole\<close>), \<open>JOpaque\<close>
  stands for functions, symbols, bigints and objects that are not plain records. An object is the
  list of its own enumerable properties in their order; keys of real objects are distinct
  (\<open>jwf\<close>). Cyclic object graphs are not values of this type. A finite number is
  \<open>Fin m k\<close>, the decimal \<open>m * 10^-k\<close> with the digits JavaScript prints (\<open>k = 0\<close> for whole
  numbers; magnitudes that print with an exponent are outside the model).
\<close>

datatype jnum = Fin int nat | NaN | Infinite bool

datatype jval =
    JUndef
  | JNull
  | JBool bool
  | JNum jnum
  | JStr string
  | JArr "jval list"
  | JObj "(string \<times> jval) list"
  | JHole
  | JOpaque

abbreviation jint :: "int \<Rightarrow> jval" where
  "jint n \<equiv> JNum (Fin n 0)"

subsection \<open>Reading values\<close>

text \<open>\<open>value.key\<close> of an object with these properties, and \<open>"key" in value\<close>.\<close>

definition jget :: "string \<Rightarrow> (string \<times> jval) list \<Rightarrow> jval" where
  "jget k fs = (case map_of fs k of Some v \<Rightarrow> v | None \<Rightarrow> JUndef)"

definition jhas :: "string \<Rightarrow> (string \<times> jval) list \<Rightarrow> bool" where
  "jhas k fs = (map_of fs k \<noteq> None)"

lemma jget_simps [simp]:
  "jget k [] = JUndef"
  "jget k ((k', v) # fs) = (if k = k' then v else jget k fs)"
  by (auto simp: jget_def)

lemma jhas_simps [simp]:
  "jhas k [] = False"
  "jhas k ((k', v) # fs) = (if k = k' then True else jhas k fs)"
  by (auto simp: jhas_def)

fun is_finite_num :: "jnum \<Rightarrow> bool" where
  "is_finite_num (Fin m k) = True"
| "is_finite_num _ = False"

text \<open>\<open>Number.isInteger(v) && v >= minimum\<close>.\<close>

fun num_integer_ge :: "int \<Rightarrow> jnum \<Rightarrow> bool" where
  "num_integer_ge b (Fin m k) = (m mod 10 ^ k = 0 \<and> b * 10 ^ k \<le> m)"
| "num_integer_ge b _ = False"

text \<open>\<open>Number.isFinite(v) && v >= minimum\<close>.\<close>

fun num_finite_ge :: "int \<Rightarrow> jnum \<Rightarrow> bool" where
  "num_finite_ge b (Fin m k) = (b * 10 ^ k \<le> m)"
| "num_finite_ge b _ = False"

subsection \<open>Text of numbers and strings\<close>

text \<open>The last \<open>k\<close> decimal digits of \<open>n\<close>, most significant first.\<close>

fun pad_digits :: "nat \<Rightarrow> nat \<Rightarrow> string" where
  "pad_digits 0 n = []"
| "pad_digits (Suc k) n = pad_digits k (n div 10) @ [digit_char (n mod 10)]"

fun num_text :: "jnum \<Rightarrow> string" where
  "num_text (Fin m k) =
     (if k = 0 then int_text m
      else (if m < 0 then ''-'' else '''') @ decimal (nat \<bar>m\<bar> div 10 ^ k) @ ''.''
        @ pad_digits k (nat \<bar>m\<bar>))"
| "num_text NaN = ''null''"
| "num_text (Infinite _) = ''null''"

text \<open>\<open>JSON.stringify\<close> of one code unit of a string.\<close>

definition hex_char :: "nat \<Rightarrow> char" where
  "hex_char d = ''0123456789abcdef'' ! d"

definition quote_char :: "char \<Rightarrow> string" where
  "quote_char c =
     (if c = CHR 0x22 then [CHR 0x5C, CHR 0x22]
      else if c = CHR 0x5C then [CHR 0x5C, CHR 0x5C]
      else if c = CHR 0x08 then CHR 0x5C # ''b''
      else if c = CHR 0x09 then CHR 0x5C # ''t''
      else if c = CHR 0x0A then CHR 0x5C # ''n''
      else if c = CHR 0x0C then CHR 0x5C # ''f''
      else if c = CHR 0x0D then CHR 0x5C # ''r''
      else if of_char c < (32 :: nat)
        then CHR 0x5C # ''u00'' @ [hex_char (of_char c div 16), hex_char (of_char c mod 16)]
      else [c])"

definition quote :: "string \<Rightarrow> string" where
  "quote s = CHR 0x22 # concat (map quote_char s) @ [CHR 0x22]"

subsection \<open>canonicalRuntimeValue and sameRuntimeTarget\<close>

text \<open>
  Objects are printed with their keys sorted by code unit. On values that are not wire values
  the source's type does not apply; the model prints them like \<open>null\<close>.
\<close>

fun canonicalRuntimeValue :: "jval \<Rightarrow> string" where
  "canonicalRuntimeValue JNull = ''null''"
| "canonicalRuntimeValue (JBool b) = (if b then ''true'' else ''false'')"
| "canonicalRuntimeValue (JNum n) = num_text n"
| "canonicalRuntimeValue (JStr s) = quote s"
| "canonicalRuntimeValue (JArr xs) =
     ''['' @ join '','' (map canonicalRuntimeValue xs) @ '']''"
| "canonicalRuntimeValue (JObj fs) =
     ''{'' @ join '',''
        (map (\<lambda>(k, s). quote k @ '':'' @ s)
          (sort_key fst (map (\<lambda>(k, v). (k, canonicalRuntimeValue v)) fs))) @ ''}''"
| "canonicalRuntimeValue _ = ''null''"

definition sameRuntimeTarget :: "jval \<Rightarrow> jval \<Rightarrow> bool" where
  "sameRuntimeTarget l r \<longleftrightarrow> canonicalRuntimeValue l = canonicalRuntimeValue r"

definition runtimeClientRouteKey :: "string \<Rightarrow> int \<Rightarrow> string" where
  "runtimeClientRouteKey clientId windowId = ''['' @ quote clientId @ '','' @ int_text windowId @ '']''"

subsection \<open>isRuntimeWireValue\<close>

fun isRuntimeWireValue :: "jval \<Rightarrow> bool" where
  "isRuntimeWireValue JNull = True"
| "isRuntimeWireValue (JStr _) = True"
| "isRuntimeWireValue (JBool _) = True"
| "isRuntimeWireValue (JNum n) = is_finite_num n"
| "isRuntimeWireValue (JArr xs) = list_all isRuntimeWireValue xs"
| "isRuntimeWireValue (JObj fs) = list_all (\<lambda>(k, v). isRuntimeWireValue v) fs"
| "isRuntimeWireValue _ = False"

text \<open>Property keys are distinct, at every depth.\<close>

fun jwf :: "jval \<Rightarrow> bool" where
  "jwf (JArr xs) = list_all jwf xs"
| "jwf (JObj fs) = (distinct (map fst fs) \<and> list_all (\<lambda>(k, v). jwf v) fs)"
| "jwf _ = True"

subsection \<open>Strings read back\<close>

text \<open>One escaped code unit read back: the code unit and the rest of the input.\<close>

definition hex_val :: "char \<Rightarrow> nat" where
  "hex_val c = (if is_digit c then of_char c - 48 else of_char c - 87)"

fun unquote_one :: "string \<Rightarrow> (char \<times> string) option" where
  "unquote_one [] = None"
| "unquote_one (c # r) =
     (if c \<noteq> CHR 0x5C then Some (c, r)
      else case r of [] \<Rightarrow> None
      | e # r' \<Rightarrow>
         (if e = CHR ''u'' then Some (char_of (16 * hex_val (r' ! 2) + hex_val (r' ! 3)), drop 4 r')
          else if e = CHR ''b'' then Some (CHR 0x08, r')
          else if e = CHR ''t'' then Some (CHR 0x09, r')
          else if e = CHR ''n'' then Some (CHR 0x0A, r')
          else if e = CHR ''f'' then Some (CHR 0x0C, r')
          else if e = CHR ''r'' then Some (CHR 0x0D, r')
          else Some (e, r')))"

lemma hex_digit_cases: "d < 16 \<Longrightarrow> d \<in> {0, 1, 2, 3, 4, 5, 6, 7, 8, 9, 10, 11, 12, 13, 14, 15 :: nat}"
  by (simp only: insert_iff empty_iff) presburger

lemma hex_val_char: "d < 16 \<Longrightarrow> hex_val (hex_char d) = d"
  using hex_digit_cases [of d]
  by (auto simp: hex_val_def hex_char_def is_digit_def less_eq_char_def)

lemma unquote_quote_char: "unquote_one (quote_char c @ r) = Some (c, r)"
proof (cases "of_char c < (32 :: nat)")
  case True
  then have "of_char c div 16 < (16 :: nat)" by simp
  then have "16 * hex_val (hex_char (of_char c div 16)) + hex_val (hex_char (of_char c mod 16))
      = (of_char c :: nat)"
    by (simp add: hex_val_char)
  then show ?thesis by (auto simp: quote_char_def)
next
  case False
  then show ?thesis by (auto simp: quote_char_def)
qed

declare unquote_one.simps [simp del]

lemma quote_char_nonempty: "quote_char c \<noteq> []"
  by (auto simp: quote_char_def)

lemma quote_char_hd: "hd (quote_char c @ r) \<noteq> CHR 0x22"
  by (auto simp: quote_char_def)

lemma quote_body_inject:
  "concat (map quote_char s) @ CHR 0x22 # r = concat (map quote_char t) @ CHR 0x22 # r'
   \<Longrightarrow> s = t \<and> r = r'"
proof (induction s arbitrary: t)
  case Nil
  show ?case
  proof (cases t)
    case Nil
    with Nil.prems show ?thesis by simp
  next
    case (Cons c t')
    with Nil.prems have "hd (quote_char c @ concat (map quote_char t') @ CHR 0x22 # r') = CHR 0x22"
      by (metis append.assoc append_Nil concat.simps(1,2) list.sel(1) list.simps(8,9))
    with quote_char_hd show ?thesis by blast
  qed
next
  case (Cons c s)
  show ?case
  proof (cases t)
    case Nil
    with Cons.prems have "hd (quote_char c @ concat (map quote_char s) @ CHR 0x22 # r) = CHR 0x22"
      by simp
    with quote_char_hd show ?thesis by blast
  next
    case (Cons d t')
    with Cons.prems have eq: "quote_char c @ concat (map quote_char s) @ CHR 0x22 # r
        = quote_char d @ concat (map quote_char t') @ CHR 0x22 # r'"
      by simp
    from arg_cong [OF eq, of unquote_one] have "c = d"
      and "concat (map quote_char s) @ CHR 0x22 # r = concat (map quote_char t') @ CHR 0x22 # r'"
      by (simp_all only: unquote_quote_char option.inject prod.inject)
    with Cons.IH Cons show ?thesis by blast
  qed
qed

lemma quote_inject_rest: "quote s @ r = quote t @ r' \<longleftrightarrow> s = t \<and> r = r'"
  using quote_body_inject [of s r t r'] by (auto simp: quote_def)

lemma quote_inject [simp]: "quote s = quote t \<longleftrightarrow> s = t"
  using quote_inject_rest [of s "[]" t "[]"] by simp

subsection \<open>Numbers read back\<close>

lemma pad_digits_length [simp]: "length (pad_digits k n) = k"
  by (induction k arbitrary: n) auto

lemma pad_digits_digits: "list_all is_digit (pad_digits k n)"
  by (induction k arbitrary: n) (auto simp: digit_char_digit)

lemma undecimal_snoc: "undecimal (s @ [c]) = 10 * undecimal s + digit_val c"
  by (simp add: undecimal_def)

lemma undecimal_pad: "undecimal (pad_digits k n) = n mod 10 ^ k"
proof (induction k arbitrary: n)
  case 0
  then show ?case by (simp add: undecimal_def)
next
  case (Suc k)
  have "undecimal (pad_digits (Suc k) n) = 10 * (n div 10 mod 10 ^ k) + n mod 10"
    by (simp add: undecimal_snoc Suc.IH digit_char_digit)
  also have "\<dots> = n mod 10 ^ Suc k"
    by (simp add: mod_mult2_eq)
  finally show ?case .
qed

lemma digit_not_dot: "list_all is_digit s \<Longrightarrow> CHR ''.'' \<notin> set s"
  by (auto simp: list_all_iff is_digit_def less_eq_char_def)

lemma append_dot_inject:
  assumes "c \<notin> set a" and "c \<notin> set b"
  shows "a @ c # x = b @ c # y \<longleftrightarrow> a = b \<and> x = y"
  using assms
proof (induction a arbitrary: b)
  case Nil
  then show ?case by (cases b) auto
next
  case (Cons d a)
  then show ?case by (cases b) auto
qed

lemma int_text_no_dot: "CHR ''.'' \<notin> set (int_text m)"
  using digit_not_dot [OF decimal_digits] by (auto simp: int_text_def)

lemma decimal_no_minus: "decimal n = CHR ''-'' # s \<Longrightarrow> False" "decimal n @ t = CHR ''-'' # s \<Longrightarrow> False"
  using digit_not_minus [OF decimal_digits [of n]] decimal_nonempty [of n]
  by (cases "decimal n"; simp)+

lemma sign_inject:
  assumes "c \<notin> set x" and "c \<notin> set y"
    and "(if a then c # x else x) = (if b then c # y else y)"
  shows "a = b \<and> x = y"
  using assms by (cases a; cases b) auto

lemma abs_parts_inject:
  assumes "nat \<bar>m\<bar> div 10 ^ k = nat \<bar>m'\<bar> div 10 ^ k" and "nat \<bar>m\<bar> mod 10 ^ k = nat \<bar>m'\<bar> mod 10 ^ k"
    and "(m < 0) = (m' < 0)"
  shows "m = m'"
proof -
  from assms(1,2) have "nat \<bar>m\<bar> = nat \<bar>m'\<bar>"
    by (metis div_mult_mod_eq)
  with assms(3) show ?thesis by linarith
qed

lemma fin_text_inject: "num_text (Fin m k) = num_text (Fin m' k') \<longleftrightarrow> m = m' \<and> k = k'"
proof
  have dot: "CHR ''.'' \<in> set (num_text (Fin n j)) \<longleftrightarrow> j \<noteq> 0" for n j
    using int_text_no_dot by auto
  assume eq: "num_text (Fin m k) = num_text (Fin m' k')"
  show "m = m' \<and> k = k'"
  proof (cases "k = 0")
    case True
    with eq dot have "k' = 0" by metis
    with eq True show ?thesis by (simp add: int_text_inject)
  next
    case False
    with eq dot have k': "k' \<noteq> 0" by metis
    let ?body = "\<lambda>n j. decimal (nat \<bar>n\<bar> div 10 ^ j) @ CHR ''.'' # pad_digits j (nat \<bar>n\<bar>)"
    have shape: "num_text (Fin n j) = (if n < 0 then CHR ''-'' # ?body n j else ?body n j)"
      if "j \<noteq> 0" for n j
      using that by simp
    have plain: "CHR ''-'' \<notin> set (?body n j)" for n j
      using digit_not_minus [OF decimal_digits] digit_not_minus [OF pad_digits_digits] by simp
    from eq have "(if m < 0 then CHR ''-'' # ?body m k else ?body m k)
        = (if m' < 0 then CHR ''-'' # ?body m' k' else ?body m' k')"
      by (simp only: shape [OF False] shape [OF k'])
    from sign_inject [OF plain plain this]
    have signs: "(m < 0) = (m' < 0)" and body: "?body m k = ?body m' k'"
      by (rule conjunct1, rule conjunct2)
    from append_dot_inject [OF digit_not_dot [OF decimal_digits] digit_not_dot [OF decimal_digits], THEN iffD1, OF body]
    have "decimal (nat \<bar>m\<bar> div 10 ^ k) = decimal (nat \<bar>m'\<bar> div 10 ^ k')"
      and pads: "pad_digits k (nat \<bar>m\<bar>) = pad_digits k' (nat \<bar>m'\<bar>)"
      by (rule conjunct1, rule conjunct2)
    then have quot: "nat \<bar>m\<bar> div 10 ^ k = nat \<bar>m'\<bar> div 10 ^ k'" by (simp only: decimal_inject)
    from arg_cong [OF pads, of length] have kk: "k = k'" by simp
    from arg_cong [OF pads, of undecimal] kk have "nat \<bar>m\<bar> mod 10 ^ k = nat \<bar>m'\<bar> mod 10 ^ k"
      by (simp only: undecimal_pad)
    with quot kk signs show ?thesis using abs_parts_inject by blast
  qed
qed simp

end
