(* ===== verification/JsonCanonical.thy ===== *)
theory JsonCanonical
  imports Json
begin

section \<open>The canonical text identifies wire values\<close>

text \<open>
  \<^const>\<open>canonicalRuntimeValue\<close> is the fingerprint by which the runtime recognises a replayed
  request, a repeated stream event and an unchanged target. Here: two wire values have the same
  text exactly when they are equal up to the order of object properties. The text is that of the
  value with sorted keys (\<open>norm\<close>), printed by \<open>render\<close>; printing is injective because every
  printed value can be told from what follows it (\<open>render_inject_rest\<close>).
\<close>

fun norm :: "jval \<Rightarrow> jval" where
  "norm (JArr xs) = JArr (map norm xs)"
| "norm (JObj fs) = JObj (sort_key fst (map (\<lambda>(k, v). (k, norm v)) fs))"
| "norm v = v"

fun render :: "jval \<Rightarrow> string" where
  "render JNull = ''null''"
| "render (JBool b) = (if b then ''true'' else ''false'')"
| "render (JNum n) = num_text n"
| "render (JStr s) = quote s"
| "render (JArr xs) = ''['' @ join '','' (map render xs) @ '']''"
| "render (JObj fs) = ''{'' @ join '','' (map (\<lambda>(k, v). quote k @ '':'' @ render v) fs) @ ''}''"
| "render _ = ''null''"

text \<open>Equality up to property order.\<close>

inductive jeq :: "jval \<Rightarrow> jval \<Rightarrow> bool" where
  jeq_refl: "jeq v v"
| jeq_arr: "list_all2 jeq xs ys \<Longrightarrow> jeq (JArr xs) (JArr ys)"
| jeq_obj: "list_all2 (rel_prod (=) jeq) fs gs \<Longrightarrow> mset gs = mset hs \<Longrightarrow> jeq (JObj fs) (JObj hs)"

subsection \<open>Sorting by key\<close>

lemma insort_key_map_snd:
  "insort_key fst (k, f v) (map (\<lambda>(k, v). (k, f v)) fs) = map (\<lambda>(k, v). (k, f v)) (insort_key fst (k, v) fs)"
  by (induction fs) auto

lemma sort_key_map_snd:
  "sort_key fst (map (\<lambda>(k, v). (k, f v)) fs) = map (\<lambda>(k, v). (k, f v)) (sort_key fst fs)"
proof (induction fs)
  case Nil
  then show ?case by simp
next
  case (Cons p fs)
  then show ?case by (cases p) (simp add: insort_key_map_snd)
qed

lemma canonical_render: "canonicalRuntimeValue v = render (norm v)"
proof (induction v)
  case (JArr xs)
  then show ?case by (simp add: comp_def cong: map_cong)
next
  case (JObj fs)
  have "map (\<lambda>(k, v). (k, canonicalRuntimeValue v)) fs
      = map (\<lambda>(k, v). (k, render v)) (map (\<lambda>(k, v). (k, norm v)) fs)"
    using JObj by fastforce
  then have "sort_key fst (map (\<lambda>(k, v). (k, canonicalRuntimeValue v)) fs)
      = map (\<lambda>(k, v). (k, render v)) (sort_key fst (map (\<lambda>(k, v). (k, norm v)) fs))"
    by (simp only: sort_key_map_snd)
  then show ?case by (simp only: canonicalRuntimeValue.simps norm.simps render.simps map_map)
    (simp add: comp_def case_prod_unfold)
qed simp_all

subsection \<open>Printing is injective\<close>

definition delim :: "string \<Rightarrow> bool" where
  "delim r \<longleftrightarrow> r = [] \<or> hd r \<in> {CHR '','', CHR '']'', CHR ''}''}"

lemma delim_simps [simp]: "delim []" "delim (CHR '','' # r)" "delim (CHR '']'' # r)" "delim (CHR ''}'' # r)"
  by (simp_all add: delim_def)

lemma join_Cons: "join sep (s # ts) = s @ concat (map (\<lambda>t. sep @ t) ts)"
proof (induction ts arbitrary: s)
  case (Cons t ts)
  show ?case using Cons [of t] by simp
qed simp

lemma tail_inject:
  assumes inj: "\<And>x y r r'. \<lbrakk>x \<in> set xs; y \<in> set ys; delim r; delim r'; print x @ r = print y @ r'\<rbrakk>
      \<Longrightarrow> x = y \<and> r = r'"
    and c: "c \<in> {CHR '']'', CHR ''}''}"
    and eq: "concat (map (\<lambda>t. '','' @ print t) xs) @ c # r = concat (map (\<lambda>t. '','' @ print t) ys) @ c # r'"
  shows "xs = ys \<and> r = r'"
  using inj eq
proof (induction xs arbitrary: ys)
  case Nil
  with c show ?case by (cases ys) auto
next
  case (Cons x xs)
  from Cons.prems(2) c obtain y ys' where ys: "ys = y # ys'" by (cases ys) auto
  let ?t = "\<lambda>zs r. concat (map (\<lambda>t. '','' @ print t) zs) @ c # r"
  have d: "delim (?t zs r)" for zs r using c by (cases zs) (auto simp: delim_def)
  from Cons.prems(2) ys have "print x @ ?t xs r = print y @ ?t ys' r'" by simp
  with Cons.prems(1) ys d have xy: "x = y" and rest: "?t xs r = ?t ys' r'"
    by (metis list.set_intros(1))+
  have "xs = ys' \<and> r = r'"
    by (rule Cons.IH [OF _ rest]) (use Cons.prems(1) ys in auto)
  with xy ys show ?case by simp
qed

lemma join_inject:
  assumes inj: "\<And>x y r r'. \<lbrakk>x \<in> set xs; y \<in> set ys; delim r; delim r'; print x @ r = print y @ r'\<rbrakk>
      \<Longrightarrow> x = y \<and> r = r'"
    and hd: "\<And>x. x \<in> set xs \<union> set ys \<Longrightarrow> print x \<noteq> [] \<and> hd (print x) \<noteq> c"
    and c: "c \<in> {CHR '']'', CHR ''}''}"
    and eq: "join '','' (map print xs) @ c # r = join '','' (map print ys) @ c # r'"
  shows "xs = ys \<and> r = r'"
proof -
  have start: "join '','' (map print (z # zs)) @ t \<noteq> c # u" if "z \<in> set xs \<union> set ys" for z zs t u
    using hd [OF that] by (cases "print z") (auto simp: join_Cons)
  show ?thesis
  proof (cases xs)
    case Nil
    with eq start [of "hd ys"] have "ys = []" by (cases ys) (auto simp: eq_commute)
    with Nil eq show ?thesis by simp
  next
    case (Cons x xs')
    with eq start [of x] obtain y ys' where ys: "ys = y # ys'" by (cases ys) auto
    let ?t = "\<lambda>zs r. concat (map (\<lambda>t. '','' @ print t) zs) @ c # r"
    have d: "delim (?t zs r)" for zs r using c by (cases zs) (auto simp: delim_def)
    from eq Cons ys have "print x @ ?t xs' r = print y @ ?t ys' r'"
      by (simp add: join_Cons comp_def)
    with inj Cons ys d have xy: "x = y" and rest: "?t xs' r = ?t ys' r'"
      by (metis list.set_intros(1))+
    have "xs' = ys' \<and> r = r'"
      by (rule tail_inject [OF _ c rest]) (use inj Cons ys in auto)
    with xy Cons ys show ?thesis by simp
  qed
qed

definition num_char :: "char \<Rightarrow> bool" where
  "num_char c \<longleftrightarrow> is_digit c \<or> c = CHR ''-'' \<or> c = CHR ''.''"

lemma num_text_chars: "is_finite_num n \<Longrightarrow> list_all num_char (num_text n) \<and> num_text n \<noteq> []"
proof (cases n)
  case (Fin m k)
  have "list_all num_char (decimal j)" "list_all num_char (pad_digits i j)" for i j
    using decimal_digits [of j] pad_digits_digits [of i j] by (auto simp: list_all_iff num_char_def)
  with Fin show ?thesis by (auto simp: int_text_def num_char_def decimal_nonempty)
qed simp_all

lemma delim_num_split: "delim r \<Longrightarrow> list_all num_char s \<Longrightarrow> takeWhile num_char (s @ r) = s"
proof -
  assume d: "delim r" and s: "list_all num_char s"
  have "takeWhile num_char r = []"
    using d by (cases r) (auto simp: delim_def num_char_def is_digit_def less_eq_char_def)
  with s show ?thesis by (simp add: takeWhile_append2 list_all_iff)
qed

lemma num_inject_rest:
  assumes "is_finite_num m" "is_finite_num n" "delim r" "delim r'" "num_text m @ r = num_text n @ r'"
  shows "m = n \<and> r = r'"
proof -
  have "num_text m = num_text n"
    using assms delim_num_split num_text_chars by metis
  moreover from this assms(5) have "r = r'" by simp
  ultimately show ?thesis
    using assms(1,2) fin_text_inject by (cases m; cases n) (auto simp del: num_text.simps)
qed

text \<open>The first code unit of a printed value tells its kind.\<close>

fun first_of :: "jval \<Rightarrow> char \<Rightarrow> bool" where
  "first_of JNull c = (c = CHR ''n'')"
| "first_of (JBool b) c = (c = (if b then CHR ''t'' else CHR ''f''))"
| "first_of (JNum n) c = num_char c"
| "first_of (JStr s) c = (c = CHR 0x22)"
| "first_of (JArr xs) c = (c = CHR ''['')"
| "first_of (JObj fs) c = (c = CHR ''{'')"
| "first_of _ c = False"

lemma render_first: "isRuntimeWireValue v \<Longrightarrow> \<exists>c s. render v = c # s \<and> first_of v c"
proof (cases v)
  case (JNum n)
  assume "isRuntimeWireValue v"
  with JNum num_text_chars [of n] show ?thesis by (cases "num_text n") auto
qed (auto simp: quote_def)

lemma first_of_no_close: "first_of v c \<Longrightarrow> c \<notin> {CHR '']'', CHR ''}''}"
  by (cases v) (auto simp: num_char_def is_digit_def less_eq_char_def split: if_splits)

lemma first_of_kind:
  "first_of v c \<Longrightarrow> first_of w c \<Longrightarrow>
    (case v of JNull \<Rightarrow> w = JNull | JBool b \<Rightarrow> w = JBool b | JNum _ \<Rightarrow> (\<exists>n. w = JNum n)
     | JStr _ \<Rightarrow> (\<exists>s. w = JStr s) | JArr _ \<Rightarrow> (\<exists>xs. w = JArr xs) | JObj _ \<Rightarrow> (\<exists>fs. w = JObj fs)
     | _ \<Rightarrow> False)"
  by (cases v; cases w) (auto simp: num_char_def is_digit_def less_eq_char_def split: if_splits)

lemma same_kind:
  assumes "isRuntimeWireValue v" "isRuntimeWireValue w" "render v @ r = render w @ r'"
  shows "case v of JNull \<Rightarrow> w = JNull | JBool b \<Rightarrow> w = JBool b | JNum _ \<Rightarrow> (\<exists>n. w = JNum n)
     | JStr _ \<Rightarrow> (\<exists>s. w = JStr s) | JArr _ \<Rightarrow> (\<exists>xs. w = JArr xs) | JObj _ \<Rightarrow> (\<exists>fs. w = JObj fs)
     | _ \<Rightarrow> False"
proof -
  from assms(1,2) obtain c s d t where "render v = c # s" "first_of v c" "render w = d # t" "first_of w d"
    using render_first by meson
  with assms(3) show ?thesis by (metis append_Cons first_of_kind list.inject)
qed

lemma render_head: "isRuntimeWireValue v \<Longrightarrow> c \<in> {CHR '']'', CHR ''}''} \<Longrightarrow> render v \<noteq> [] \<and> hd (render v) \<noteq> c"
  using render_first [of v] first_of_no_close by fastforce

lemma render_inject_rest:
  "\<lbrakk>isRuntimeWireValue v; isRuntimeWireValue w; delim r; delim r'; render v @ r = render w @ r'\<rbrakk>
    \<Longrightarrow> v = w \<and> r = r'"
proof (induction v arbitrary: w r r')
  case JNull
  from same_kind [OF JNull(1,2,5)] JNull(5) show ?case by simp
next
  case (JBool b)
  from same_kind [OF JBool(1,2,5)] JBool(5) show ?case by simp
next
  case (JNum n)
  from same_kind [OF JNum(1,2,5)] obtain m where "w = JNum m" by auto
  with JNum num_inject_rest show ?case by auto
next
  case (JStr s)
  from same_kind [OF JStr(1,2,5)] obtain t where "w = JStr t" by auto
  with JStr show ?case by (auto simp: quote_inject_rest)
next
  case (JArr xs)
  from same_kind [OF JArr(2,3,6)] obtain ys where w: "w = JArr ys" by auto
  from JArr(2,3) w have wires: "\<forall>x \<in> set xs \<union> set ys. isRuntimeWireValue x"
    by (auto simp: list_all_iff)
  from JArr(6) w have "join '','' (map render xs) @ CHR '']'' # r = join '','' (map render ys) @ CHR '']'' # r'"
    by simp
  then have "xs = ys \<and> r = r'"
  proof (rule join_inject [rotated -1])
    fix x y u u'
    assume "x \<in> set xs" "y \<in> set ys" "delim u" "delim u'" "render x @ u = render y @ u'"
    with wires show "x = y \<and> u = u'" by (intro JArr.IH) auto
  next
    fix x
    assume "x \<in> set xs \<union> set ys"
    with wires show "render x \<noteq> [] \<and> hd (render x) \<noteq> CHR '']''" by (intro render_head) auto
  qed simp
  with w show ?case by simp
next
  case (JObj fs)
  from same_kind [OF JObj(2,3,6)] obtain gs where w: "w = JObj gs" by auto
  let ?print = "\<lambda>(k, v). quote k @ '':'' @ render v"
  from JObj(2,3) w have wires: "\<forall>(k, x) \<in> set fs \<union> set gs. isRuntimeWireValue x"
    by (auto simp: list_all_iff)
  from JObj(6) w have "join '','' (map ?print fs) @ CHR ''}'' # r = join '','' (map ?print gs) @ CHR ''}'' # r'"
    by simp
  then have "fs = gs \<and> r = r'"
  proof (rule join_inject [rotated -1])
    fix p q u u'
    assume pq: "p \<in> set fs" "q \<in> set gs" "delim u" "delim u'" and eq: "?print p @ u = ?print q @ u'"
    obtain k x l y where p: "p = (k, x)" and q: "q = (l, y)" by (cases p; cases q)
    from eq p q have "k = l" and "render x @ u = render y @ u'"
      by (auto simp: quote_inject_rest)
    moreover from pq p q wires have "isRuntimeWireValue x" "isRuntimeWireValue y" by auto
    ultimately have "x = y \<and> u = u'"
      using JObj.IH [of p x] pq p by (simp add: prod_set_defs)
    with p q \<open>k = l\<close> show "p = q \<and> u = u'" by simp
  qed (auto simp: quote_def)
  with w show ?case by simp
qed simp_all

lemma render_inject: "isRuntimeWireValue v \<Longrightarrow> isRuntimeWireValue w \<Longrightarrow> render v = render w \<longleftrightarrow> v = w"
  using render_inject_rest [of v w "[]" "[]"] by auto

subsection \<open>Sorted values and equality up to property order\<close>

lemma norm_wire [simp]: "isRuntimeWireValue (norm v) = isRuntimeWireValue v"
  by (induction v) (auto simp: list_all_iff)

lemma canonical_norm_iff:
  "isRuntimeWireValue v \<Longrightarrow> isRuntimeWireValue w \<Longrightarrow>
    canonicalRuntimeValue v = canonicalRuntimeValue w \<longleftrightarrow> norm v = norm w"
  by (simp add: canonical_render render_inject)

lemma sort_key_mset_unique:
  assumes "distinct (map fst fs)" and "mset fs = mset gs"
  shows "sort_key fst fs = sort_key fst gs"
proof -
  have "distinct (map fst gs)"
    by (metis assms mset_eq_imp_distinct_iff mset_map)
  moreover from assms(1) have "inj_on fst (set fs)" by (simp add: distinct_map)
  moreover from assms(2) have "set fs = set gs" by (rule mset_eq_setD)
  ultimately show ?thesis using assms
    by (intro map_sorted_distinct_set_unique [where f = fst])
      (auto simp: distinct_map)
qed

lemma mset_map_lift:
  "mset ys = image_mset f (mset xs) \<Longrightarrow> \<exists>zs. mset zs = mset xs \<and> map f zs = ys"
proof (induction ys arbitrary: xs)
  case Nil
  then show ?case by simp
next
  case (Cons y ys)
  then obtain A a where A: "mset xs = add_mset a A" "f a = y" "image_mset f A = mset ys"
    by (metis msed_map_invR mset.simps(2))
  obtain as where "mset as = A" by (metis ex_mset)
  with A Cons.IH [of as] obtain zs where "mset zs = A" "map f zs = ys" by auto
  with A show ?case by (intro exI [of _ "a # zs"]) simp
qed

lemma jeq_norm: "jeq v w \<Longrightarrow> jwf v \<Longrightarrow> norm v = norm w"
proof (induction rule: jeq.induct)
  case (jeq_refl v)
  then show ?case by simp
next
  case (jeq_arr xs ys)
  then show ?case by (auto simp: list_all_iff list_all2_conv_all_nth intro!: nth_equalityI)
next
  case (jeq_obj fs gs hs)
  let ?n = "map (\<lambda>(k, v). (k, norm v))"
  from jeq_obj.prems have dist: "distinct (map fst fs)" and wfs: "\<forall>p \<in> set fs. jwf (snd p)"
    by (auto simp: list_all_iff)
  have fg: "?n fs = ?n gs"
  proof (rule nth_equalityI)
    fix i assume "i < length (?n fs)"
    with jeq_obj.IH(1) wfs show "?n fs ! i = ?n gs ! i"
      by (auto simp: list_all2_conv_all_nth rel_prod_sel case_prod_unfold)
  qed (use jeq_obj.IH(1) in \<open>simp add: list_all2_lengthD\<close>)
  have "distinct (map fst (?n gs))"
    using dist fg [symmetric] by (simp add: comp_def case_prod_unfold)
  moreover have "mset (?n gs) = mset (?n hs)" using jeq_obj.hyps by simp
  ultimately show ?case using fg by (simp add: sort_key_mset_unique)
qed

lemma norm_jeq: "norm v = norm w \<Longrightarrow> jeq v w"
proof (induction v arbitrary: w)
  case (JArr xs)
  from JArr.prems obtain ys where w: "w = JArr ys" and eq: "map norm xs = map norm ys" by (cases w) auto
  have "list_all2 jeq xs ys"
  proof (rule list_all2_all_nthI)
    show "length xs = length ys" using eq by (rule map_eq_imp_length_eq)
    fix i assume "i < length xs"
    with eq \<open>length xs = length ys\<close> have "norm (xs ! i) = norm (ys ! i)"
      by (metis nth_map)
    with \<open>i < length xs\<close> show "jeq (xs ! i) (ys ! i)" by (simp add: JArr.IH)
  qed
  with w show ?case by (simp add: jeq_arr)
next
  case (JObj fs)
  let ?f = "\<lambda>(k, v). (k, norm v)"
  from JObj.prems obtain gs where w: "w = JObj gs"
    and eq: "sort_key fst (map ?f fs) = sort_key fst (map ?f gs)" by (cases w) auto
  from arg_cong [OF eq, of mset] have "mset (map ?f fs) = image_mset ?f (mset gs)" by simp
  from mset_map_lift [OF this] obtain hs where hs: "mset hs = mset gs" and m: "map ?f hs = map ?f fs"
    by blast
  have "list_all2 (rel_prod (=) jeq) fs hs"
  proof (rule list_all2_all_nthI)
    show len: "length fs = length hs" using m by (metis length_map)
    fix i assume i: "i < length fs"
    from arg_cong [OF m, of "\<lambda>l. l ! i"] i len have "?f (fs ! i) = ?f (hs ! i)" by simp
    moreover have "snd (fs ! i) \<in> Basic_BNFs.snds (fs ! i)" by (simp add: prod_set_defs)
    ultimately show "rel_prod (=) jeq (fs ! i) (hs ! i)"
      using JObj.IH [OF nth_mem [OF i]] by (auto simp: rel_prod_sel case_prod_unfold)
  qed
  with w hs show ?case by (simp add: jeq_obj)
qed (case_tac w; simp add: jeq_refl)+

lemma canonical_jeq:
  assumes "isRuntimeWireValue v" "isRuntimeWireValue w" "jwf v" "jwf w"
  shows "canonicalRuntimeValue v = canonicalRuntimeValue w \<longleftrightarrow> jeq v w"
  using canonical_norm_iff [OF assms(1,2)] jeq_norm [OF _ assms(3)] norm_jeq by blast

text \<open>
  C14. The canonical text is a faithful identity of wire data: on finite plain values with distinct
  object keys, two values have the same \<open>canonicalRuntimeValue\<close> exactly when they are equal up to
  the order of the keys of their objects. Fingerprints and target comparisons rest on it.
\<close>

theorem canonical_text_faithful:
  assumes "isRuntimeWireValue v" and "isRuntimeWireValue w" and "jwf v" and "jwf w"
  shows "canonicalRuntimeValue v = canonicalRuntimeValue w \<longleftrightarrow> jeq v w"
  by (rule canonical_jeq [OF assms])

theorem canonical_text_faithful_witness:
  "jeq (JObj [(''b'', jint 1), (''a'', JArr [JNull, JStr ''x''])]) (JObj [(''a'', JArr [JNull, JStr ''x'']), (''b'', jint 1)])"
proof -
  let ?v = "JObj [(''b'', jint 1), (''a'', JArr [JNull, JStr ''x''])]"
  let ?w = "JObj [(''a'', JArr [JNull, JStr ''x'']), (''b'', jint 1)]"
  have "canonicalRuntimeValue ?v = canonicalRuntimeValue ?w" by code_simp
  then show ?thesis using canonical_text_faithful [of ?v ?w] by simp
qed

end
