(* ===== verification/RuntimeProtocol.thy ===== *)
theory RuntimeProtocol
  imports JsonCanonical
begin

section \<open>The runtime wire protocol: envelope validation\<close>

text \<open>
  \<open>packages/extension/src/agent/runtime-protocol.ts\<close>: the checks every envelope between a
  sidepanel, the service worker and the offscreen host passes before it is used. A check returns
  the issues it pushes, in order; the empty list is acceptance. Each function has the name of the
  source's. \<open>recordAt\<close> and \<open>arrayAt\<close> take what the source does with the value they return.
\<close>

type_synonym issue = "string \<times> string"

definition RUNTIME_PROTOCOL_VERSION :: int where
  "RUNTIME_PROTOCOL_VERSION = 1"

definition OPERATION_TYPES :: "string list" where
  "OPERATION_TYPES = [''attach'', ''create'', ''load'', ''prompt'', ''abort'', ''set-model'',
     ''set-thinking'', ''steer'', ''replace-or-append-message'', ''artifacts'', ''release'',
     ''repl-execute'', ''page-operation'', ''resync'']"

definition THINKING_LEVELS :: "string list" where
  "THINKING_LEVELS = [''off'', ''minimal'', ''low'', ''medium'', ''high'', ''xhigh'']"

definition EXECUTION_KINDS :: "string list" where
  "EXECUTION_KINDS = [''prompt'', ''repl'', ''page-operation'']"

definition EXECUTION_STATUSES :: "string list" where
  "EXECUTION_STATUSES =
     [''queued'', ''running'', ''cancel-requested'', ''succeeded'', ''failed'', ''cancelled'']"

text \<open>The operator \<open>===\<close>; two object values at different places of an envelope are different.\<close>

fun strict_eq :: "jval \<Rightarrow> jval \<Rightarrow> bool" where
  "strict_eq (JNum NaN) (JNum NaN) = False"
| "strict_eq (JArr _) _ = False"
| "strict_eq (JObj _) _ = False"
| "strict_eq JOpaque _ = False"
| "strict_eq v w = (v = w)"

subsection \<open>Checks of one value\<close>

definition recordAt :: "jval \<Rightarrow> string \<Rightarrow> ((string \<times> jval) list \<Rightarrow> issue list) \<Rightarrow> issue list" where
  "recordAt v path k = (case v of JObj fs \<Rightarrow> k fs | _ \<Rightarrow> [(path, ''must be a plain object'')])"

definition arrayAt :: "jval \<Rightarrow> string \<Rightarrow> (jval list \<Rightarrow> issue list) \<Rightarrow> issue list" where
  "arrayAt v path k = (case v of JArr xs \<Rightarrow> k xs | _ \<Rightarrow> [(path, ''must be an array'')])"

text \<open>\<open>xs.forEach((x, index) => check(x, path[index]))\<close>.\<close>

definition each_at :: "(jval \<Rightarrow> string \<Rightarrow> issue list) \<Rightarrow> string \<Rightarrow> jval list \<Rightarrow> issue list" where
  "each_at chk path xs =
     concat (map (\<lambda>(x, i). chk x (path @ ''['' @ decimal i @ '']'')) (zip xs [0..<length xs]))"

definition nonEmptyStringAt :: "jval \<Rightarrow> string \<Rightarrow> issue list" where
  "nonEmptyStringAt v path =
     (case v of JStr s \<Rightarrow> (if nonblank s then [] else [(path, ''must be a non-empty string'')])
      | _ \<Rightarrow> [(path, ''must be a non-empty string'')])"

definition optionalNonEmptyStringAt :: "jval \<Rightarrow> string \<Rightarrow> issue list" where
  "optionalNonEmptyStringAt v path = (if v = JUndef then [] else nonEmptyStringAt v path)"

definition integerAt :: "jval \<Rightarrow> string \<Rightarrow> int \<Rightarrow> issue list" where
  "integerAt v path minimum =
     (case v of JNum n \<Rightarrow>
        (if num_integer_ge minimum n then []
         else [(path, ''must be an integer greater than or equal to '' @ int_text minimum)])
      | _ \<Rightarrow> [(path, ''must be an integer greater than or equal to '' @ int_text minimum)])"

definition finiteNumberAt :: "jval \<Rightarrow> string \<Rightarrow> int \<Rightarrow> issue list" where
  "finiteNumberAt v path minimum =
     (case v of JNum n \<Rightarrow>
        (if num_finite_ge minimum n then []
         else [(path, ''must be a finite number greater than or equal to '' @ int_text minimum)])
      | _ \<Rightarrow> [(path, ''must be a finite number greater than or equal to '' @ int_text minimum)])"

definition optionalIntegerAt :: "jval \<Rightarrow> string \<Rightarrow> int \<Rightarrow> issue list" where
  "optionalIntegerAt v path minimum = (if v = JUndef then [] else integerAt v path minimum)"

definition booleanAt :: "jval \<Rightarrow> string \<Rightarrow> issue list" where
  "booleanAt v path = (case v of JBool _ \<Rightarrow> [] | _ \<Rightarrow> [(path, ''must be a boolean'')])"

definition stringAt :: "jval \<Rightarrow> string \<Rightarrow> issue list" where
  "stringAt v path = (case v of JStr _ \<Rightarrow> [] | _ \<Rightarrow> [(path, ''must be a string'')])"

definition oneOfAt :: "jval \<Rightarrow> string list \<Rightarrow> string \<Rightarrow> issue list" where
  "oneOfAt v allowed path =
     (case v of JStr s \<Rightarrow> (if s \<in> set allowed then [] else [(path, ''must be one of: '' @ join '', '' allowed)])
      | _ \<Rightarrow> [(path, ''must be one of: '' @ join '', '' allowed)])"

definition requiredAt :: "string \<Rightarrow> (string \<times> jval) list \<Rightarrow> string \<Rightarrow> issue list" where
  "requiredAt key fs path = (if jhas key fs then [] else [(path @ ''.'' @ key, ''is required'')])"

text \<open>\<open>/^[0-9a-f]{n}$/iu\<close>.\<close>

definition hex_digit_any :: "char \<Rightarrow> bool" where
  "hex_digit_any c \<longleftrightarrow> is_digit c \<or> (CHR ''a'' \<le> c \<and> c \<le> CHR ''f'') \<or> (CHR ''A'' \<le> c \<and> c \<le> CHR ''F'')"

definition hexAt :: "nat \<Rightarrow> jval \<Rightarrow> string \<Rightarrow> string \<Rightarrow> issue list" where
  "hexAt n v path message =
     (case v of JStr s \<Rightarrow> (if length s = n \<and> list_all hex_digit_any s then [] else [(path, message)])
      | _ \<Rightarrow> [(path, message)])"

subsection \<open>Checks of the protocol's structures\<close>

definition validateTrace :: "jval \<Rightarrow> string \<Rightarrow> issue list" where
  "validateTrace v path =
     (if v = JUndef then []
      else recordAt v path (\<lambda>trace.
        hexAt 32 (jget ''traceId'' trace) (path @ ''.traceId'') ''must be a 32-character hexadecimal trace id''
        @ hexAt 16 (jget ''spanId'' trace) (path @ ''.spanId'') ''must be a 16-character hexadecimal span id''
        @ hexAt 2 (jget ''traceFlags'' trace) (path @ ''.traceFlags'') ''must be a two-character hexadecimal trace flag''
        @ optionalNonEmptyStringAt (jget ''tracestate'' trace) (path @ ''.tracestate'')))"

definition validateTarget :: "jval \<Rightarrow> string \<Rightarrow> issue list" where
  "validateTarget v path = recordAt v path (\<lambda>target.
     if jget ''kind'' target = JStr ''chrome-tab'' then
       optionalNonEmptyStringAt (jget ''tabRef'' target) (path @ ''.tabRef'')
       @ optionalIntegerAt (jget ''tabId'' target) (path @ ''.tabId'') 0
       @ optionalIntegerAt (jget ''frameId'' target) (path @ ''.frameId'') 0
     else if jget ''kind'' target = JStr ''electron-window'' then
       optionalNonEmptyStringAt (jget ''appRef'' target) (path @ ''.appRef'')
       @ optionalNonEmptyStringAt (jget ''electronSessionId'' target) (path @ ''.electronSessionId'')
       @ optionalNonEmptyStringAt (jget ''windowRef'' target) (path @ ''.windowRef'')
       @ optionalNonEmptyStringAt (jget ''targetId'' target) (path @ ''.targetId'')
       @ (if jget ''appRef'' target = JUndef \<and> jget ''electronSessionId'' target = JUndef
            \<and> jget ''targetId'' target = JUndef
          then [(path, ''must identify an Electron app, session, or target'')] else [])
     else [(path @ ''.kind'', ''must be chrome-tab or electron-window'')])"

definition validateLevelMap :: "jval \<Rightarrow> string \<Rightarrow> issue list" where
  "validateLevelMap v path = recordAt v path (\<lambda>levels.
     concat (map (\<lambda>(level, mapped).
       if level \<notin> set THINKING_LEVELS
       then [(path @ ''.'' @ level, ''is not a supported thinking level'')]
       else (case mapped of JNull \<Rightarrow> []
             | JStr s \<Rightarrow> (if s = [] then [(path @ ''.'' @ level, ''must be a non-empty string or null'')] else [])
             | _ \<Rightarrow> [(path @ ''.'' @ level, ''must be a non-empty string or null'')])) levels))"

definition validateModel :: "jval \<Rightarrow> string \<Rightarrow> issue list" where
  "validateModel v path = recordAt v path (\<lambda>model.
     nonEmptyStringAt (jget ''provider'' model) (path @ ''.provider'')
     @ nonEmptyStringAt (jget ''id'' model) (path @ ''.id'')
     @ optionalNonEmptyStringAt (jget ''name'' model) (path @ ''.name'')
     @ optionalNonEmptyStringAt (jget ''api'' model) (path @ ''.api'')
     @ (if jget ''baseUrl'' model = JUndef then [] else stringAt (jget ''baseUrl'' model) (path @ ''.baseUrl''))
     @ (if jget ''reasoning'' model = JUndef then [] else booleanAt (jget ''reasoning'' model) (path @ ''.reasoning''))
     @ (if jget ''thinkingLevelMap'' model = JUndef then []
        else validateLevelMap (jget ''thinkingLevelMap'' model) (path @ ''.thinkingLevelMap''))
     @ (if jget ''input'' model = JUndef then []
        else arrayAt (jget ''input'' model) (path @ ''.input'')
          (each_at (\<lambda>x p. oneOfAt x [''text'', ''image''] p) (path @ ''.input'')))
     @ (if jget ''cost'' model = JUndef then []
        else recordAt (jget ''cost'' model) (path @ ''.cost'') (\<lambda>cost.
          finiteNumberAt (jget ''input'' cost) (path @ ''.cost.input'') 0
          @ finiteNumberAt (jget ''output'' cost) (path @ ''.cost.output'') 0
          @ finiteNumberAt (jget ''cacheRead'' cost) (path @ ''.cost.cacheRead'') 0
          @ finiteNumberAt (jget ''cacheWrite'' cost) (path @ ''.cost.cacheWrite'') 0))
     @ optionalIntegerAt (jget ''contextWindow'' model) (path @ ''.contextWindow'') 1
     @ optionalIntegerAt (jget ''maxTokens'' model) (path @ ''.maxTokens'') 1
     @ (if jget ''headers'' model = JUndef then []
        else recordAt (jget ''headers'' model) (path @ ''.headers'') (\<lambda>headers.
          concat (map (\<lambda>(name, value).
            (if nonblank name then [] else [(path @ ''.headers'', ''header names must be non-empty'')])
            @ stringAt value (path @ ''.headers.'' @ name)) headers)))
     @ (if jget ''compat'' model = JUndef then []
        else recordAt (jget ''compat'' model) (path @ ''.compat'') (\<lambda>_. [])))"

definition validateMessage :: "jval \<Rightarrow> string \<Rightarrow> issue list" where
  "validateMessage v path = recordAt v path (\<lambda>message.
     nonEmptyStringAt (jget ''role'' message) (path @ ''.role''))"

definition validateMessageArray :: "jval \<Rightarrow> string \<Rightarrow> issue list" where
  "validateMessageArray v path = arrayAt v path (each_at validateMessage path)"

definition validateTool :: "jval \<Rightarrow> string \<Rightarrow> issue list" where
  "validateTool v path = recordAt v path (\<lambda>tool.
     nonEmptyStringAt (jget ''name'' tool) (path @ ''.name'')
     @ nonEmptyStringAt (jget ''label'' tool) (path @ ''.label'')
     @ optionalNonEmptyStringAt (jget ''description'' tool) (path @ ''.description''))"

definition validateArtifact :: "jval \<Rightarrow> string \<Rightarrow> issue list" where
  "validateArtifact v path = recordAt v path (\<lambda>artifact.
     nonEmptyStringAt (jget ''filename'' artifact) (path @ ''.filename'')
     @ optionalNonEmptyStringAt (jget ''mimeType'' artifact) (path @ ''.mimeType'')
     @ optionalIntegerAt (jget ''size'' artifact) (path @ ''.size'') 0
     @ optionalNonEmptyStringAt (jget ''createdAt'' artifact) (path @ ''.createdAt'')
     @ optionalNonEmptyStringAt (jget ''updatedAt'' artifact) (path @ ''.updatedAt''))"

definition validateError :: "jval \<Rightarrow> string \<Rightarrow> issue list" where
  "validateError v path = recordAt v path (\<lambda>err.
     nonEmptyStringAt (jget ''code'' err) (path @ ''.code'')
     @ nonEmptyStringAt (jget ''message'' err) (path @ ''.message'')
     @ booleanAt (jget ''retryable'' err) (path @ ''.retryable''))"

definition validateExecution :: "jval \<Rightarrow> string \<Rightarrow> issue list" where
  "validateExecution v path = recordAt v path (\<lambda>execution.
     nonEmptyStringAt (jget ''executionId'' execution) (path @ ''.executionId'')
     @ nonEmptyStringAt (jget ''requestId'' execution) (path @ ''.requestId'')
     @ oneOfAt (jget ''kind'' execution) EXECUTION_KINDS (path @ ''.kind'')
     @ oneOfAt (jget ''status'' execution) EXECUTION_STATUSES (path @ ''.status'')
     @ optionalNonEmptyStringAt (jget ''startedAt'' execution) (path @ ''.startedAt'')
     @ optionalNonEmptyStringAt (jget ''finishedAt'' execution) (path @ ''.finishedAt'')
     @ (if jget ''error'' execution = JUndef then []
        else validateError (jget ''error'' execution) (path @ ''.error'')))"

definition validateSnapshot :: "jval \<Rightarrow> string \<Rightarrow> issue list" where
  "validateSnapshot v path = recordAt v path (\<lambda>snapshot.
     nonEmptyStringAt (jget ''sessionId'' snapshot) (path @ ''.sessionId'')
     @ validateTarget (jget ''target'' snapshot) (path @ ''.target'')
     @ integerAt (jget ''revision'' snapshot) (path @ ''.revision'') 0
     @ stringAt (jget ''systemPrompt'' snapshot) (path @ ''.systemPrompt'')
     @ (if jget ''model'' snapshot = JNull then [] else validateModel (jget ''model'' snapshot) (path @ ''.model''))
     @ oneOfAt (jget ''thinkingLevel'' snapshot) THINKING_LEVELS (path @ ''.thinkingLevel'')
     @ validateMessageArray (jget ''messages'' snapshot) (path @ ''.messages'')
     @ arrayAt (jget ''tools'' snapshot) (path @ ''.tools'') (each_at validateTool (path @ ''.tools''))
     @ arrayAt (jget ''pendingToolCallIds'' snapshot) (path @ ''.pendingToolCallIds'')
         (each_at nonEmptyStringAt (path @ ''.pendingToolCallIds''))
     @ booleanAt (jget ''isStreaming'' snapshot) (path @ ''.isStreaming'')
     @ (if jget ''streamingMessage'' snapshot = JUndef then []
        else validateMessage (jget ''streamingMessage'' snapshot) (path @ ''.streamingMessage''))
     @ arrayAt (jget ''activeExecutions'' snapshot) (path @ ''.activeExecutions'')
         (each_at validateExecution (path @ ''.activeExecutions''))
     @ arrayAt (jget ''artifacts'' snapshot) (path @ ''.artifacts'') (each_at validateArtifact (path @ ''.artifacts''))
     @ optionalNonEmptyStringAt (jget ''errorMessage'' snapshot) (path @ ''.errorMessage''))"

text \<open>\<open>if (!check) return; rest\<close>: the rest runs only when the check pushed no issue.\<close>

definition guardAt :: "issue list \<Rightarrow> issue list \<Rightarrow> issue list" where
  "guardAt chk rest = (if chk = [] then rest else chk)"

definition str_of :: "jval \<Rightarrow> string" where
  "str_of v = (case v of JStr s \<Rightarrow> s | _ \<Rightarrow> [])"

definition validateAgentEvent :: "jval \<Rightarrow> string \<Rightarrow> issue list" where
  "validateAgentEvent v path = recordAt v path (\<lambda>event.
     guardAt (nonEmptyStringAt (jget ''type'' event) (path @ ''.type''))
      (let t = str_of (jget ''type'' event) in
       if t = ''agent_start'' \<or> t = ''turn_start'' then []
       else if t = ''agent_end'' then validateMessageArray (jget ''messages'' event) (path @ ''.messages'')
       else if t = ''turn_end'' then
         validateMessage (jget ''message'' event) (path @ ''.message'')
         @ validateMessageArray (jget ''toolResults'' event) (path @ ''.toolResults'')
       else if t = ''message_start'' \<or> t = ''message_end'' then
         validateMessage (jget ''message'' event) (path @ ''.message'')
       else if t = ''message_update'' then
         validateMessage (jget ''message'' event) (path @ ''.message'')
         @ recordAt (jget ''assistantMessageEvent'' event) (path @ ''.assistantMessageEvent'') (\<lambda>_. [])
       else if t = ''tool_execution_start'' then
         nonEmptyStringAt (jget ''toolCallId'' event) (path @ ''.toolCallId'')
         @ nonEmptyStringAt (jget ''toolName'' event) (path @ ''.toolName'')
         @ requiredAt ''args'' event path
       else if t = ''tool_execution_update'' then
         nonEmptyStringAt (jget ''toolCallId'' event) (path @ ''.toolCallId'')
         @ nonEmptyStringAt (jget ''toolName'' event) (path @ ''.toolName'')
         @ requiredAt ''args'' event path
         @ requiredAt ''partialResult'' event path
       else if t = ''tool_execution_end'' then
         nonEmptyStringAt (jget ''toolCallId'' event) (path @ ''.toolCallId'')
         @ nonEmptyStringAt (jget ''toolName'' event) (path @ ''.toolName'')
         @ requiredAt ''result'' event path
         @ booleanAt (jget ''isError'' event) (path @ ''.isError'')
       else [(path @ ''.type'', ''is not a supported agent event'')]))"

definition validateArtifactsPayload :: "jval \<Rightarrow> string \<Rightarrow> issue list" where
  "validateArtifactsPayload v path = recordAt v path (\<lambda>payload.
     guardAt (oneOfAt (jget ''action'' payload) [''list'', ''get'', ''put'', ''delete''] (path @ ''.action''))
      ((if jget ''action'' payload \<noteq> JStr ''list''
        then nonEmptyStringAt (jget ''filename'' payload) (path @ ''.filename'') else [])
       @ (if jget ''action'' payload = JStr ''put''
          then requiredAt ''content'' payload path
            @ optionalNonEmptyStringAt (jget ''mimeType'' payload) (path @ ''.mimeType'')
          else [])))"

definition validateRequestOperation :: "jval \<Rightarrow> string \<Rightarrow> issue list" where
  "validateRequestOperation v path = recordAt v path (\<lambda>operation.
     guardAt (oneOfAt (jget ''type'' operation) OPERATION_TYPES (path @ ''.type''))
      (let t = str_of (jget ''type'' operation) in
       if t = ''attach'' then
         optionalNonEmptyStringAt (jget ''knownRuntimeEpoch'' operation) (path @ ''.knownRuntimeEpoch'')
         @ optionalIntegerAt (jget ''lastRevision'' operation) (path @ ''.lastRevision'') 0
         @ optionalIntegerAt (jget ''lastEventSeq'' operation) (path @ ''.lastEventSeq'') 0
       else if t = ''create'' then
         stringAt (jget ''systemPrompt'' operation) (path @ ''.systemPrompt'')
         @ (if jget ''model'' operation = JUndef then []
            else validateModel (jget ''model'' operation) (path @ ''.model''))
         @ (if jget ''thinkingLevel'' operation = JUndef then []
            else oneOfAt (jget ''thinkingLevel'' operation) THINKING_LEVELS (path @ ''.thinkingLevel''))
         @ (if jget ''initialMessages'' operation = JUndef then []
            else validateMessageArray (jget ''initialMessages'' operation) (path @ ''.initialMessages''))
       else if t = ''load'' then []
       else if t = ''prompt'' then
         nonEmptyStringAt (jget ''executionId'' operation) (path @ ''.executionId'')
         @ validateMessage (jget ''message'' operation) (path @ ''.message'')
       else if t = ''abort'' then
         nonEmptyStringAt (jget ''executionId'' operation) (path @ ''.executionId'')
         @ nonEmptyStringAt (jget ''targetRequestId'' operation) (path @ ''.targetRequestId'')
         @ optionalNonEmptyStringAt (jget ''reason'' operation) (path @ ''.reason'')
       else if t = ''set-model'' then validateModel (jget ''model'' operation) (path @ ''.model'')
       else if t = ''set-thinking'' then
         oneOfAt (jget ''thinkingLevel'' operation) THINKING_LEVELS (path @ ''.thinkingLevel'')
       else if t = ''steer'' then validateMessage (jget ''message'' operation) (path @ ''.message'')
       else if t = ''replace-or-append-message'' then
         validateMessage (jget ''message'' operation) (path @ ''.message'')
         @ optionalIntegerAt (jget ''messageIndex'' operation) (path @ ''.messageIndex'') 0
         @ integerAt (jget ''expectedRevision'' operation) (path @ ''.expectedRevision'') 0
       else if t = ''artifacts'' then
         validateArtifactsPayload (jget ''payload'' operation) (path @ ''.payload'')
       else if t = ''release'' then
         (if jget ''force'' operation = JUndef then [] else booleanAt (jget ''force'' operation) (path @ ''.force''))
         @ optionalNonEmptyStringAt (jget ''reason'' operation) (path @ ''.reason'')
       else if t = ''repl-execute'' then
         nonEmptyStringAt (jget ''executionId'' operation) (path @ ''.executionId'')
         @ stringAt (jget ''code'' operation) (path @ ''.code'')
         @ (if jget ''language'' operation = JUndef \<or> jget ''language'' operation = JStr ''javascript'' then []
            else [(path @ ''.language'', ''must be javascript'')])
       else if t = ''page-operation'' then
         nonEmptyStringAt (jget ''executionId'' operation) (path @ ''.executionId'')
         @ nonEmptyStringAt (jget ''operation'' operation) (path @ ''.operation'')
         @ recordAt (jget ''params'' operation) (path @ ''.params'') (\<lambda>_. [])
       else
         integerAt (jget ''knownRevision'' operation) (path @ ''.knownRevision'') 0
         @ integerAt (jget ''lastEventSeq'' operation) (path @ ''.lastEventSeq'') 0
         @ oneOfAt (jget ''reason'' operation)
             [''gap'', ''runtime-restart'', ''revision-regression'', ''explicit''] (path @ ''.reason'')))"

subsection \<open>Checks of an envelope\<close>

definition validateBase :: "(string \<times> jval) list \<Rightarrow> issue list" where
  "validateBase env =
     (if jget ''protocolVersion'' env = jint RUNTIME_PROTOCOL_VERSION then []
      else [(''$.protocolVersion'', ''must equal '' @ int_text RUNTIME_PROTOCOL_VERSION)])
     @ nonEmptyStringAt (jget ''runtimeEpoch'' env) ''$.runtimeEpoch''
     @ nonEmptyStringAt (jget ''clientId'' env) ''$.clientId''
     @ integerAt (jget ''windowId'' env) ''$.windowId'' 0
     @ validateTrace (jget ''trace'' env) ''$.trace''"

definition validateSessionScope :: "(string \<times> jval) list \<Rightarrow> issue list" where
  "validateSessionScope env =
     nonEmptyStringAt (jget ''sessionId'' env) ''$.sessionId''
     @ validateTarget (jget ''target'' env) ''$.target''"

definition validateRequest :: "(string \<times> jval) list \<Rightarrow> issue list" where
  "validateRequest env =
     validateSessionScope env
     @ nonEmptyStringAt (jget ''requestId'' env) ''$.requestId''
     @ validateRequestOperation (jget ''operation'' env) ''$.operation''"

definition validateResponse :: "(string \<times> jval) list \<Rightarrow> issue list" where
  "validateResponse env =
     validateSessionScope env
     @ nonEmptyStringAt (jget ''requestId'' env) ''$.requestId''
     @ oneOfAt (jget ''operation'' env) OPERATION_TYPES ''$.operation''
     @ guardAt (booleanAt (jget ''ok'' env) ''$.ok'')
        (if jget ''ok'' env = JBool True then
           (if jhas ''result'' env then [] else [(''$.result'', ''is required for a successful response'')])
           @ (if jhas ''error'' env then [(''$.error'', ''must be omitted from a successful response'')] else [])
         else
           validateError (jget ''error'' env) ''$.error''
           @ (if jhas ''result'' env then [(''$.result'', ''must be omitted from an error response'')] else []))"

definition validateRecoveryCursor :: "jval \<Rightarrow> string \<Rightarrow> issue list" where
  "validateRecoveryCursor v path = recordAt v path (\<lambda>cursor.
     nonEmptyStringAt (jget ''sessionId'' cursor) (path @ ''.sessionId'')
     @ validateTarget (jget ''target'' cursor) (path @ ''.target'')
     @ integerAt (jget ''revision'' cursor) (path @ ''.revision'') 0
     @ integerAt (jget ''eventSeq'' cursor) (path @ ''.eventSeq'') 0)"

definition validateHello :: "(string \<times> jval) list \<Rightarrow> issue list" where
  "validateHello env = recordAt (jget ''recovery'' env) ''$.recovery'' (\<lambda>recovery.
     guardAt (oneOfAt (jget ''mode'' recovery) [''fresh'', ''resumed'', ''restarted''] ''$.recovery.mode'')
      (optionalNonEmptyStringAt (jget ''previousRuntimeEpoch'' recovery) ''$.recovery.previousRuntimeEpoch''
       @ (if jget ''mode'' recovery = JStr ''restarted'' \<and> jget ''previousRuntimeEpoch'' recovery = JUndef
          then [(''$.recovery.previousRuntimeEpoch'', ''is required for restarted recovery'')] else [])
       @ arrayAt (jget ''sessions'' recovery) ''$.recovery.sessions''
           (each_at validateRecoveryCursor ''$.recovery.sessions'')))"

definition sameTarget :: "jval \<Rightarrow> jval \<Rightarrow> bool" where
  "sameTarget l r \<longleftrightarrow>
     isRuntimeWireValue l \<and> isRuntimeWireValue r \<and> canonicalRuntimeValue l = canonicalRuntimeValue r"

definition validateSessionStream :: "(string \<times> jval) list \<Rightarrow> issue list" where
  "validateSessionStream env =
     validateSessionScope env
     @ integerAt (jget ''revision'' env) ''$.revision'' 0
     @ integerAt (jget ''eventSeq'' env) ''$.eventSeq'' 1
     @ (if jget ''streamType'' env = JStr ''session-snapshot'' then
          validateSnapshot (jget ''snapshot'' env) ''$.snapshot''
          @ (case jget ''snapshot'' env of
               JObj snapshot \<Rightarrow>
                 (if strict_eq (jget ''sessionId'' snapshot) (jget ''sessionId'' env) then []
                  else [(''$.snapshot.sessionId'', ''must match the envelope sessionId'')])
                 @ (if strict_eq (jget ''revision'' snapshot) (jget ''revision'' env) then []
                    else [(''$.snapshot.revision'', ''must match the envelope revision'')])
                 @ (if sameTarget (jget ''target'' snapshot) (jget ''target'' env) then []
                    else [(''$.snapshot.target'', ''must match the envelope target'')])
             | _ \<Rightarrow> [])
        else if jget ''streamType'' env = JStr ''agent-event'' then
          validateAgentEvent (jget ''agentEvent'' env) ''$.agentEvent''
        else if jget ''streamType'' env = JStr ''execution'' then
          validateExecution (jget ''execution'' env) ''$.execution''
        else if jget ''streamType'' env = JStr ''resync-required'' then
          oneOfAt (jget ''reason'' env)
            [''gap'', ''runtime-restart'', ''revision-regression'', ''unknown-session''] ''$.reason''
          @ integerAt (jget ''expectedEventSeq'' env) ''$.expectedEventSeq'' 1
          @ integerAt (jget ''receivedEventSeq'' env) ''$.receivedEventSeq'' 1
        else [(''$.streamType'', ''is not a supported stream type'')])"

definition validateRuntimeEnvelope :: "jval \<Rightarrow> issue list" where
  "validateRuntimeEnvelope value =
     (if \<not> isRuntimeWireValue value
      then [(''$'', ''must contain only finite, acyclic plain runtime wire values'')]
      else recordAt value ''$'' (\<lambda>env.
        validateBase env
        @ (if jget ''kind'' env = JStr ''request'' then validateRequest env
           else if jget ''kind'' env = JStr ''response'' then validateResponse env
           else if jget ''kind'' env = JStr ''stream'' then
             (if jget ''streamType'' env = JStr ''hello'' then validateHello env else validateSessionStream env)
           else [(''$.kind'', ''must be request, response, or stream'')])))"

definition envelope_kind :: "jval \<Rightarrow> jval" where
  "envelope_kind v = (case v of JObj fs \<Rightarrow> jget ''kind'' fs | _ \<Rightarrow> JUndef)"

definition isRuntimeEnvelope :: "jval \<Rightarrow> bool" where
  "isRuntimeEnvelope v \<longleftrightarrow> validateRuntimeEnvelope v = []"

definition isRuntimeRequestEnvelope :: "jval \<Rightarrow> bool" where
  "isRuntimeRequestEnvelope v \<longleftrightarrow> validateRuntimeEnvelope v = [] \<and> envelope_kind v = JStr ''request''"

definition isRuntimeResponseEnvelope :: "jval \<Rightarrow> bool" where
  "isRuntimeResponseEnvelope v \<longleftrightarrow> validateRuntimeEnvelope v = [] \<and> envelope_kind v = JStr ''response''"

definition isRuntimeStreamEnvelope :: "jval \<Rightarrow> bool" where
  "isRuntimeStreamEnvelope v \<longleftrightarrow> validateRuntimeEnvelope v = [] \<and> envelope_kind v = JStr ''stream''"

end
