(* ===== verification/RuntimeTypes.thy ===== *)
theory RuntimeTypes
  imports RuntimeProtocol
begin

section \<open>Typed envelopes\<close>

text \<open>
  The TypeScript types of \<open>runtime-protocol.ts\<close> (lines 14 to 278) as records and datatypes, and
  the JSON object each typed value is at run time (\<open>..._json\<close>). Fields typed \<open>RuntimeValue\<close>,
  agent messages, models, tools and artifacts stay \<^typ>\<open>jval\<close>. The interfaces extend each other as
  the source's do: every envelope has the base, requests, responses and session streams add the
  session scope.
\<close>

record trace_context =
  traceId :: string
  spanId :: string
  traceFlags :: string
  tracestate :: "string option"

datatype target_identity =
    ChromeTab (tabRef: "string option") (tabId: "int option") (frameId: "int option")
  | ElectronWindow (appRef: "string option") (electronSessionId: "string option")
      (windowRef: "string option") (targetId: "string option")

datatype execution_kind = KPrompt | KRepl | KPageOperation

datatype execution_status = Queued | Running | CancelRequested | Succeeded | Failed | Cancelled

record error_descriptor =
  errorCode :: string
  errorMessage :: string
  retryable :: bool
  errorDetails :: "jval option"

record execution_descriptor =
  executionId :: string
  execRequestId :: string
  execKind :: execution_kind
  execStatus :: execution_status
  startedAt :: "string option"
  finishedAt :: "string option"
  execError :: "error_descriptor option"

datatype operation =
    Attach (knownRuntimeEpoch: "string option") (lastRevision: "int option") (lastEventSeqOpt: "int option")
  | Create (systemPromptOf: string) "jval option" "string option" "jval list option"
  | Load
  | Prompt (promptExecutionId: string) jval
  | Abort (abortExecutionId: string) (targetRequestId: string) "string option"
  | SetModel jval
  | SetThinking string
  | Steer jval
  | ReplaceOrAppendMessage jval "int option" int
  | Artifacts jval
  | Release "bool option" "string option"
  | ReplExecute (replExecutionId: string) string bool
  | PageOperation (pageExecutionId: string) string "(string \<times> jval) list"
  | Resync (knownRevision: int) (resyncEventSeq: int) (resyncReason: string)

record envelope_base =
  protocolVersion :: int
  runtimeEpoch :: string
  clientId :: string
  windowId :: int
  trace :: "trace_context option"

record scoped_envelope = envelope_base +
  sessionId :: string
  target :: target_identity

record request_envelope = scoped_envelope +
  requestId :: string
  operation :: operation

datatype response_body = Success jval | Failure error_descriptor

record response_envelope = scoped_envelope +
  responseRequestId :: string
  responseOperation :: string
  responseBody :: response_body

record recovery_cursor =
  cursorSessionId :: string
  cursorTarget :: target_identity
  cursorRevision :: int
  cursorEventSeq :: int

datatype recovery_mode = Fresh | Resumed | Restarted

record hello_envelope = envelope_base +
  recoveryMode :: recovery_mode
  previousRuntimeEpoch :: "string option"
  recoverySessions :: "recovery_cursor list"

record session_snapshot =
  snapSessionId :: string
  snapTarget :: target_identity
  snapRevision :: int
  systemPrompt :: string
  model :: "jval option"
  thinkingLevel :: string
  messages :: "jval list"
  tools :: "jval list"
  pendingToolCallIds :: "string list"
  isStreaming :: bool
  streamingMessage :: "jval option"
  activeExecutions :: "execution_descriptor list"
  artifacts :: "jval list"
  snapErrorMessage :: "string option"

datatype stream_payload =
    SnapshotPayload session_snapshot
  | AgentEventPayload jval
  | ExecutionPayload execution_descriptor
  | ResyncRequiredPayload (requiredReason: string) (expectedSeq: int) (receivedSeq: int)

record session_stream = scoped_envelope +
  revision :: int
  eventSeq :: int
  payload :: stream_payload

datatype stream_envelope = Hello hello_envelope | SessionStream session_stream

subsection \<open>The JSON form\<close>

definition optf :: "string \<Rightarrow> ('a \<Rightarrow> jval) \<Rightarrow> 'a option \<Rightarrow> (string \<times> jval) list" where
  "optf k f v = (case v of None \<Rightarrow> [] | Some x \<Rightarrow> [(k, f x)])"

definition trace_json :: "trace_context \<Rightarrow> jval" where
  "trace_json t = JObj ([(''traceId'', JStr (traceId t)), (''spanId'', JStr (spanId t)),
     (''traceFlags'', JStr (traceFlags t))] @ optf ''tracestate'' JStr (tracestate t))"

fun target_json :: "target_identity \<Rightarrow> jval" where
  "target_json (ChromeTab r t f) = JObj ((''kind'', JStr ''chrome-tab'')
     # optf ''tabRef'' JStr r @ optf ''tabId'' jint t @ optf ''frameId'' jint f)"
| "target_json (ElectronWindow a e w t) = JObj ((''kind'', JStr ''electron-window'')
     # optf ''appRef'' JStr a @ optf ''electronSessionId'' JStr e @ optf ''windowRef'' JStr w
     @ optf ''targetId'' JStr t)"

fun operation_type :: "operation \<Rightarrow> string" where
  "operation_type (Attach _ _ _) = ''attach''"
| "operation_type (Create _ _ _ _) = ''create''"
| "operation_type Load = ''load''"
| "operation_type (Prompt _ _) = ''prompt''"
| "operation_type (Abort _ _ _) = ''abort''"
| "operation_type (SetModel _) = ''set-model''"
| "operation_type (SetThinking _) = ''set-thinking''"
| "operation_type (Steer _) = ''steer''"
| "operation_type (ReplaceOrAppendMessage _ _ _) = ''replace-or-append-message''"
| "operation_type (Artifacts _) = ''artifacts''"
| "operation_type (Release _ _) = ''release''"
| "operation_type (ReplExecute _ _ _) = ''repl-execute''"
| "operation_type (PageOperation _ _ _) = ''page-operation''"
| "operation_type (Resync _ _ _) = ''resync''"

fun operation_fields :: "operation \<Rightarrow> (string \<times> jval) list" where
  "operation_fields (Attach e r s) =
     optf ''knownRuntimeEpoch'' JStr e @ optf ''lastRevision'' jint r @ optf ''lastEventSeq'' jint s"
| "operation_fields (Create p m t ms) =
     (''systemPrompt'', JStr p) # optf ''model'' id m @ optf ''thinkingLevel'' JStr t
     @ optf ''initialMessages'' JArr ms"
| "operation_fields Load = []"
| "operation_fields (Prompt e m) = [(''executionId'', JStr e), (''message'', m)]"
| "operation_fields (Abort e q r) =
     [(''executionId'', JStr e), (''targetRequestId'', JStr q)] @ optf ''reason'' JStr r"
| "operation_fields (SetModel m) = [(''model'', m)]"
| "operation_fields (SetThinking t) = [(''thinkingLevel'', JStr t)]"
| "operation_fields (Steer m) = [(''message'', m)]"
| "operation_fields (ReplaceOrAppendMessage m i r) =
     (''message'', m) # optf ''messageIndex'' jint i @ [(''expectedRevision'', jint r)]"
| "operation_fields (Artifacts p) = [(''payload'', p)]"
| "operation_fields (Release f r) = optf ''force'' JBool f @ optf ''reason'' JStr r"
| "operation_fields (ReplExecute e c js) =
     [(''executionId'', JStr e), (''code'', JStr c)]
     @ (if js then [(''language'', JStr ''javascript'')] else [])"
| "operation_fields (PageOperation e p ps) =
     [(''executionId'', JStr e), (''operation'', JStr p), (''params'', JObj ps)]"
| "operation_fields (Resync k l r) =
     [(''knownRevision'', jint k), (''lastEventSeq'', jint l), (''reason'', JStr r)]"

definition operation_json :: "operation \<Rightarrow> jval" where
  "operation_json p = JObj ((''type'', JStr (operation_type p)) # operation_fields p)"

definition base_fields :: "string \<Rightarrow> 'a envelope_base_scheme \<Rightarrow> (string \<times> jval) list" where
  "base_fields k e = [(''kind'', JStr k), (''protocolVersion'', jint (protocolVersion e)),
     (''runtimeEpoch'', JStr (runtimeEpoch e)), (''clientId'', JStr (clientId e)),
     (''windowId'', jint (windowId e))] @ optf ''trace'' trace_json (trace e)"

definition scope_fields :: "'a scoped_envelope_scheme \<Rightarrow> (string \<times> jval) list" where
  "scope_fields e = [(''sessionId'', JStr (sessionId e)), (''target'', target_json (target e))]"

definition request_json :: "request_envelope \<Rightarrow> jval" where
  "request_json q = JObj (base_fields ''request'' q @ scope_fields q
     @ [(''requestId'', JStr (requestId q)), (''operation'', operation_json (operation q))])"

fun execution_kind_text :: "execution_kind \<Rightarrow> string" where
  "execution_kind_text KPrompt = ''prompt''"
| "execution_kind_text KRepl = ''repl''"
| "execution_kind_text KPageOperation = ''page-operation''"

fun execution_status_text :: "execution_status \<Rightarrow> string" where
  "execution_status_text Queued = ''queued''"
| "execution_status_text Running = ''running''"
| "execution_status_text CancelRequested = ''cancel-requested''"
| "execution_status_text Succeeded = ''succeeded''"
| "execution_status_text Failed = ''failed''"
| "execution_status_text Cancelled = ''cancelled''"

definition error_json :: "error_descriptor \<Rightarrow> jval" where
  "error_json e = JObj ([(''code'', JStr (errorCode e)), (''message'', JStr (errorMessage e)),
     (''retryable'', JBool (retryable e))] @ optf ''details'' id (errorDetails e))"

definition execution_json :: "execution_descriptor \<Rightarrow> jval" where
  "execution_json x = JObj ([(''executionId'', JStr (executionId x)), (''requestId'', JStr (execRequestId x)),
     (''kind'', JStr (execution_kind_text (execKind x))), (''status'', JStr (execution_status_text (execStatus x)))]
     @ optf ''startedAt'' JStr (startedAt x) @ optf ''finishedAt'' JStr (finishedAt x)
     @ optf ''error'' error_json (execError x))"

definition snapshot_json :: "session_snapshot \<Rightarrow> jval" where
  "snapshot_json s = JObj ([(''sessionId'', JStr (snapSessionId s)), (''target'', target_json (snapTarget s)),
     (''revision'', jint (snapRevision s)), (''systemPrompt'', JStr (systemPrompt s)),
     (''model'', case model s of None \<Rightarrow> JNull | Some m \<Rightarrow> m), (''thinkingLevel'', JStr (thinkingLevel s)),
     (''messages'', JArr (messages s)), (''tools'', JArr (tools s)),
     (''pendingToolCallIds'', JArr (map JStr (pendingToolCallIds s))), (''isStreaming'', JBool (isStreaming s))]
     @ optf ''streamingMessage'' id (streamingMessage s)
     @ [(''activeExecutions'', JArr (map execution_json (activeExecutions s))), (''artifacts'', JArr (artifacts s))]
     @ optf ''errorMessage'' JStr (snapErrorMessage s))"

fun payload_fields :: "stream_payload \<Rightarrow> (string \<times> jval) list" where
  "payload_fields (SnapshotPayload s) = [(''streamType'', JStr ''session-snapshot''), (''snapshot'', snapshot_json s)]"
| "payload_fields (AgentEventPayload v) = [(''streamType'', JStr ''agent-event''), (''agentEvent'', v)]"
| "payload_fields (ExecutionPayload x) = [(''streamType'', JStr ''execution''), (''execution'', execution_json x)]"
| "payload_fields (ResyncRequiredPayload r e g) = [(''streamType'', JStr ''resync-required''),
     (''reason'', JStr r), (''expectedEventSeq'', jint e), (''receivedEventSeq'', jint g)]"

definition session_stream_json :: "session_stream \<Rightarrow> jval" where
  "session_stream_json e = JObj (base_fields ''stream'' e @ scope_fields e
     @ [(''revision'', jint (revision e)), (''eventSeq'', jint (eventSeq e))] @ payload_fields (payload e))"

fun response_fields :: "response_body \<Rightarrow> (string \<times> jval) list" where
  "response_fields (Success v) = [(''ok'', JBool True), (''result'', v)]"
| "response_fields (Failure e) = [(''ok'', JBool False), (''error'', error_json e)]"

definition response_json :: "response_envelope \<Rightarrow> jval" where
  "response_json r = JObj (base_fields ''response'' r @ scope_fields r
     @ [(''requestId'', JStr (responseRequestId r)), (''operation'', JStr (responseOperation r))]
     @ response_fields (responseBody r))"

fun recovery_mode_text :: "recovery_mode \<Rightarrow> string" where
  "recovery_mode_text Fresh = ''fresh''"
| "recovery_mode_text Resumed = ''resumed''"
| "recovery_mode_text Restarted = ''restarted''"

definition cursor_json :: "recovery_cursor \<Rightarrow> jval" where
  "cursor_json c = JObj [(''sessionId'', JStr (cursorSessionId c)), (''target'', target_json (cursorTarget c)),
     (''revision'', jint (cursorRevision c)), (''eventSeq'', jint (cursorEventSeq c))]"

definition recovery_json :: "hello_envelope \<Rightarrow> jval" where
  "recovery_json h = JObj ((''mode'', JStr (recovery_mode_text (recoveryMode h)))
     # optf ''previousRuntimeEpoch'' JStr (previousRuntimeEpoch h)
     @ [(''sessions'', JArr (map cursor_json (recoverySessions h)))])"

definition hello_json :: "hello_envelope \<Rightarrow> jval" where
  "hello_json h = JObj (base_fields ''stream'' h @ [(''streamType'', JStr ''hello''), (''recovery'', recovery_json h)])"

subsection \<open>Comparing targets and trace contexts\<close>

text \<open>\<open>sameTarget\<close> and \<open>sameTrace\<close> of \<open>runtime-channel.ts\<close> on typed values.\<close>

definition same_target :: "target_identity \<Rightarrow> target_identity \<Rightarrow> bool" where
  "same_target l r \<longleftrightarrow> sameRuntimeTarget (target_json l) (target_json r)"

fun sameTrace :: "trace_context option \<Rightarrow> trace_context option \<Rightarrow> bool" where
  "sameTrace (Some l) (Some r) = (canonicalRuntimeValue (trace_json l) = canonicalRuntimeValue (trace_json r))"
| "sameTrace l r = (l = r)"

lemma optf_simps [simp]: "optf k f None = []" "optf k f (Some x) = [(k, f x)]"
  by (simp_all add: optf_def)

lemma target_json_wire [simp]: "isRuntimeWireValue (target_json t)"
  by (cases t) (auto simp: optf_def split: option.splits)

lemma target_json_wf [simp]: "jwf (target_json t)"
  by (cases t) (auto simp: optf_def split: option.splits)

lemma trace_json_wire [simp]: "isRuntimeWireValue (trace_json t)"
  by (auto simp: trace_json_def optf_def split: option.splits)

lemma trace_json_wf [simp]: "jwf (trace_json t)"
  by (auto simp: trace_json_def optf_def split: option.splits)

end
