(* ===== verification/RuntimeTyping.thy ===== *)
theory RuntimeTyping
  imports RuntimeTypes
begin

section \<open>What the envelope checks mean for typed envelopes\<close>

text \<open>
  Two facts tie the typed records of \<open>RuntimeTypes\<close> to the JSON objects the program handles.
  Comparing targets or trace contexts by canonical text is equality of the typed values; and the
  envelope check accepts the JSON form of a typed request exactly when the request satisfies
  \<open>valid_request\<close>, the condition the checks of \<open>runtime-protocol.ts\<close> amount to.
\<close>

subsection \<open>Targets and trace contexts\<close>

inductive_simps jeq_scalar [simp]:
  "jeq JUndef w" "jeq JNull w" "jeq (JBool b) w" "jeq (JNum n) w" "jeq (JStr s) w"

inductive_cases jeq_objE: "jeq (JObj fs) w"

lemma jeq_obj_get:
  assumes "jeq (JObj fs) (JObj hs)" and "distinct (map fst fs)"
  shows "jeq (jget k fs) (jget k hs)"
  using assms(1)
proof (cases rule: jeq.cases)
  case (jeq_obj gs)
  from jeq_obj(1) have keys: "map fst fs = map fst gs"
    by (auto simp: list_all2_conv_all_nth rel_prod_sel intro!: nth_equalityI)
  with assms(2) have "distinct (map fst gs)" by simp
  then have maps: "map_of gs = map_of hs"
    using jeq_obj(2) by (metis mset_eq_setD map_of_inject_set mset_eq_imp_distinct_iff mset_map)
  from jeq_obj(1) have "jeq (jget k fs) (jget k gs)"
    by (induction rule: list_all2_induct) (auto simp: jeq_refl rel_prod_sel jget_def)
  with maps show ?thesis by (simp add: jget_def)
qed (auto intro: jeq_refl)


lemma jget_optf [simp]:
  "jget k (optf k' f v @ fs) = (if k = k' then (case v of None \<Rightarrow> jget k fs | Some x \<Rightarrow> f x) else jget k fs)"
  "jget k (optf k' f v) = (if k = k' then (case v of None \<Rightarrow> JUndef | Some x \<Rightarrow> f x) else JUndef)"
  by (auto simp: optf_def jget_def split: option.splits)

lemma jeq_opt:
  "jeq (case r of None \<Rightarrow> JUndef | Some s \<Rightarrow> JStr s) (case r' of None \<Rightarrow> JUndef | Some s \<Rightarrow> JStr s) \<longleftrightarrow> r = r'"
  "jeq (case i of None \<Rightarrow> JUndef | Some n \<Rightarrow> jint n) (case i' of None \<Rightarrow> JUndef | Some n \<Rightarrow> jint n) \<longleftrightarrow> i = i'"
  by (auto split: option.splits)

fun target_fields :: "target_identity \<Rightarrow> (string \<times> jval) list" where
  "target_fields t = (case target_json t of JObj fs \<Rightarrow> fs | _ \<Rightarrow> [])"

lemma target_json_fields: "target_json t = JObj (target_fields t)"
  by (cases t) simp_all

lemma target_fields_inject:
  assumes get: "\<And>k. jeq (jget k (target_fields a)) (jget k (target_fields b))"
  shows "a = b"
proof (cases a)
  case a: (ChromeTab r t g)
  from get [of "''kind''"] a obtain r' t' g' where b: "b = ChromeTab r' t' g'" by (cases b) auto
  from get [of "''tabRef''"] have "r = r'" unfolding a b by (simp add: jeq_opt cong: option.case_cong)
  moreover from get [of "''tabId''"] have "t = t'" unfolding a b by (simp add: jeq_opt cong: option.case_cong)
  moreover from get [of "''frameId''"] have "g = g'" unfolding a b by (simp add: jeq_opt cong: option.case_cong)
  ultimately show ?thesis using a b by simp
next
  case a: (ElectronWindow p e w t)
  from get [of "''kind''"] a obtain p' e' w' t' where b: "b = ElectronWindow p' e' w' t'" by (cases b) auto
  from get [of "''appRef''"] have "p = p'" unfolding a b by (simp add: jeq_opt cong: option.case_cong)
  moreover from get [of "''electronSessionId''"] have "e = e'" unfolding a b by (simp add: jeq_opt cong: option.case_cong)
  moreover from get [of "''windowRef''"] have "w = w'" unfolding a b by (simp add: jeq_opt cong: option.case_cong)
  moreover from get [of "''targetId''"] have "t = t'" unfolding a b by (simp add: jeq_opt cong: option.case_cong)
  ultimately show ?thesis using a b by simp
qed

lemma same_target_iff: "same_target a b \<longleftrightarrow> a = b"
proof
  assume "same_target a b"
  then have eq: "jeq (target_json a) (target_json b)"
    by (simp only: same_target_def sameRuntimeTarget_def canonical_jeq target_json_wire target_json_wf)
  have d: "distinct (map fst (target_fields a))"
    using target_json_wf [of a] by (simp only: target_json_fields jwf.simps)
  show "a = b"
    by (rule target_fields_inject) (use eq d jeq_obj_get in \<open>simp only: target_json_fields\<close>)
qed (simp add: same_target_def sameRuntimeTarget_def)

lemma sameTrace_iff: "sameTrace l r \<longleftrightarrow> l = r"
proof (cases l; cases r)
  fix a b assume lr: "l = Some a" "r = Some b"
  show ?thesis
  proof
    assume "sameTrace l r"
    with lr have eq: "jeq (trace_json a) (trace_json b)"
      by (simp only: sameTrace.simps canonical_jeq trace_json_wire trace_json_wf)
    have "jwf (trace_json a)" by simp
    then have d: "distinct (map fst ([(''traceId'', JStr (traceId a)), (''spanId'', JStr (spanId a)),
        (''traceFlags'', JStr (traceFlags a))] @ optf ''tracestate'' JStr (tracestate a)))"
      by (simp only: trace_json_def jwf.simps)
    note get = jeq_obj_get [OF eq [unfolded trace_json_def] d]
    have "tracestate a = tracestate b"
      using get [of "''tracestate''"] by (simp add: jeq_opt cong: option.case_cong)
    with get [of "''traceId''"] get [of "''spanId''"] get [of "''traceFlags''"] lr
    show "l = r" by simp
  qed (use lr in simp)
qed simp_all

subsection \<open>Acceptance of typed requests\<close>

lemma guardAt_Nil [simp]: "guardAt c r = [] \<longleftrightarrow> c = [] \<and> r = []"
  by (simp add: guardAt_def)

lemma at_Nil [simp]:
  "nonEmptyStringAt (JStr s) p = [] \<longleftrightarrow> nonblank s"
  "integerAt (jint i) p b = [] \<longleftrightarrow> b \<le> i"
  "booleanAt (JBool x) p = []"
  "stringAt (JStr s) p = []"
  "oneOfAt (JStr s) ss p = [] \<longleftrightarrow> s \<in> set ss"
  "recordAt (JObj fs) p k = k fs"
  "arrayAt (JArr xs) p k' = k' xs"
  "hexAt n (JStr s) p m = [] \<longleftrightarrow> length s = n \<and> list_all hex_digit_any s"
  by (simp_all add: nonEmptyStringAt_def integerAt_def booleanAt_def stringAt_def oneOfAt_def
      recordAt_def arrayAt_def hexAt_def)

lemma optional_at_Nil [simp]:
  "optionalNonEmptyStringAt JUndef p = []"
  "optionalNonEmptyStringAt (JStr s) p = [] \<longleftrightarrow> nonblank s"
  "optionalIntegerAt JUndef p b = []"
  "optionalIntegerAt (jint i) p b = [] \<longleftrightarrow> b \<le> i"
  by (simp_all add: optionalNonEmptyStringAt_def optionalIntegerAt_def)

lemma validateTrace_undef [simp]: "validateTrace JUndef p = []"
  by (simp add: validateTrace_def)

definition valid_trace :: "trace_context \<Rightarrow> bool" where
  "valid_trace t \<longleftrightarrow> length (traceId t) = 32 \<and> list_all hex_digit_any (traceId t)
     \<and> length (spanId t) = 16 \<and> list_all hex_digit_any (spanId t)
     \<and> length (traceFlags t) = 2 \<and> list_all hex_digit_any (traceFlags t)
     \<and> (\<forall>s. tracestate t = Some s \<longrightarrow> nonblank s)"

fun valid_target :: "target_identity \<Rightarrow> bool" where
  "valid_target (ChromeTab r t f) = (pred_option nonblank r \<and> pred_option (\<lambda>i. 0 \<le> i) t \<and> pred_option (\<lambda>i. 0 \<le> i) f)"
| "valid_target (ElectronWindow a e w t) =
     (pred_option nonblank a \<and> pred_option nonblank e \<and> pred_option nonblank w \<and> pred_option nonblank t
      \<and> (a \<noteq> None \<or> e \<noteq> None \<or> t \<noteq> None))"

lemma validateTrace_iff: "validateTrace (trace_json t) p = [] \<longleftrightarrow> valid_trace t"
  by (auto simp: validateTrace_def trace_json_def valid_trace_def split: option.splits cong: option.case_cong)

lemma validateTarget_iff: "validateTarget (target_json t) p = [] \<longleftrightarrow> valid_target t"
proof (cases t)
  case (ChromeTab r t g)
  then show ?thesis
    by (cases r; cases t; cases g) (auto simp: validateTarget_def)
next
  case (ElectronWindow a e w t)
  then show ?thesis
    by (cases a; cases e; cases w; cases t) (auto simp: validateTarget_def)
qed

text \<open>
  The condition on an operation: its identifiers are not blank, its integers not negative, its
  enumerated strings known, and the payloads typed \<^typ>\<open>jval\<close> pass their own check.
\<close>

fun valid_operation :: "operation \<Rightarrow> bool" where
  "valid_operation (Attach e r s) = (pred_option nonblank e \<and> pred_option (\<lambda>i. 0 \<le> i) r \<and> pred_option (\<lambda>i. 0 \<le> i) s)"
| "valid_operation (Create p m t ms) =
     (pred_option (\<lambda>m. isRuntimeWireValue m \<and> validateModel m ''$.operation.model'' = []) m
      \<and> pred_option (\<lambda>t. t \<in> set THINKING_LEVELS) t
      \<and> pred_option (\<lambda>ms. list_all isRuntimeWireValue ms
           \<and> validateMessageArray (JArr ms) ''$.operation.initialMessages'' = []) ms)"
| "valid_operation Load = True"
| "valid_operation (Prompt e m) =
     (nonblank e \<and> isRuntimeWireValue m \<and> validateMessage m ''$.operation.message'' = [])"
| "valid_operation (Abort e q r) = (nonblank e \<and> nonblank q \<and> pred_option nonblank r)"
| "valid_operation (SetModel m) = (isRuntimeWireValue m \<and> validateModel m ''$.operation.model'' = [])"
| "valid_operation (SetThinking t) = (t \<in> set THINKING_LEVELS)"
| "valid_operation (Steer m) = (isRuntimeWireValue m \<and> validateMessage m ''$.operation.message'' = [])"
| "valid_operation (ReplaceOrAppendMessage m i r) =
     (isRuntimeWireValue m \<and> validateMessage m ''$.operation.message'' = [] \<and> pred_option (\<lambda>i. 0 \<le> i) i \<and> 0 \<le> r)"
| "valid_operation (Artifacts p) = (isRuntimeWireValue p \<and> validateArtifactsPayload p ''$.operation.payload'' = [])"
| "valid_operation (Release f r) = pred_option nonblank r"
| "valid_operation (ReplExecute e c js) = nonblank e"
| "valid_operation (PageOperation e p ps) = (nonblank e \<and> nonblank p \<and> isRuntimeWireValue (JObj ps))"
| "valid_operation (Resync k l r) =
     (0 \<le> k \<and> 0 \<le> l \<and> r \<in> set [''gap'', ''runtime-restart'', ''revision-regression'', ''explicit''])"

definition valid_request :: "request_envelope \<Rightarrow> bool" where
  "valid_request q \<longleftrightarrow> protocolVersion q = RUNTIME_PROTOCOL_VERSION \<and> nonblank (runtimeEpoch q)
     \<and> nonblank (clientId q) \<and> 0 \<le> windowId q \<and> pred_option valid_trace (trace q)
     \<and> nonblank (sessionId q) \<and> valid_target (target q) \<and> nonblank (requestId q)
     \<and> valid_operation (operation q)"

lemma operation_json_check:
  "isRuntimeWireValue (operation_json p) \<and> validateRequestOperation (operation_json p) ''$.operation'' = []
    \<longleftrightarrow> valid_operation p"
proof (cases p)
  case (Create s m t ms)
  then show ?thesis
    by (cases m; cases t; cases ms)
      (auto simp: operation_json_def validateRequestOperation_def str_of_def OPERATION_TYPES_def
        validateMessageArray_def)
next
  case (Attach e r s)
  then show ?thesis
    by (cases e; cases r; cases s)
      (auto simp: operation_json_def validateRequestOperation_def str_of_def OPERATION_TYPES_def)
next
  case (Release f r)
  then show ?thesis
    by (cases f; cases r)
      (auto simp: operation_json_def validateRequestOperation_def str_of_def OPERATION_TYPES_def)
qed (auto simp: operation_json_def validateRequestOperation_def str_of_def OPERATION_TYPES_def
    optf_def split: option.splits)

lemma recordAt_Nil_obj: "recordAt v p k = [] \<Longrightarrow> \<exists>fs. v = JObj fs \<and> k fs = []"
  by (cases v) (auto simp: recordAt_def)

lemma base_fields_check:
  "list_all (\<lambda>(k, v). isRuntimeWireValue v) (base_fields k e)"
  by (auto simp: base_fields_def optf_def split: option.splits)

lemma jget_base_fields:
  "k \<noteq> ''trace'' \<Longrightarrow> jget k (base_fields kind e @ fs) =
     (if k = ''kind'' then JStr kind else if k = ''protocolVersion'' then jint (protocolVersion e)
      else if k = ''runtimeEpoch'' then JStr (runtimeEpoch e) else if k = ''clientId'' then JStr (clientId e)
      else if k = ''windowId'' then jint (windowId e) else jget k fs)"
  "jget ''trace'' (base_fields kind e @ fs) = (case trace e of None \<Rightarrow> jget ''trace'' fs | Some t \<Rightarrow> trace_json t)"
  by (auto simp: base_fields_def optf_def split: option.splits)

lemma trace_json_defined [simp]: "trace_json t \<noteq> JUndef"
  by (simp add: trace_json_def)

text \<open>The envelope check accepts exactly the valid typed requests.\<close>

lemma request_json_accepted: "isRuntimeRequestEnvelope (request_json q) \<longleftrightarrow> valid_request q"
proof -
  let ?fs = "base_fields ''request'' q @ scope_fields q
     @ [(''requestId'', JStr (requestId q)), (''operation'', operation_json (operation q))]"
  have fields: "jget ''sessionId'' ?fs = JStr (sessionId q)" "jget ''target'' ?fs = target_json (target q)"
    "jget ''requestId'' ?fs = JStr (requestId q)" "jget ''operation'' ?fs = operation_json (operation q)"
    "jget ''kind'' ?fs = JStr ''request''"
    by (simp_all add: jget_base_fields scope_fields_def)
  have base: "validateBase ?fs = [] \<longleftrightarrow> protocolVersion q = RUNTIME_PROTOCOL_VERSION
      \<and> nonblank (runtimeEpoch q) \<and> nonblank (clientId q) \<and> 0 \<le> windowId q \<and> pred_option valid_trace (trace q)"
    by (cases "trace q") (auto simp: validateBase_def jget_base_fields validateTrace_iff scope_fields_def)
  have wire: "isRuntimeWireValue (request_json q) \<longleftrightarrow> isRuntimeWireValue (operation_json (operation q))"
    using base_fields_check [of "''request''" q]
    by (simp add: request_json_def scope_fields_def)
  have req: "validateRequest ?fs = [] \<longleftrightarrow> nonblank (sessionId q) \<and> valid_target (target q)
      \<and> nonblank (requestId q) \<and> validateRequestOperation (operation_json (operation q)) ''$.operation'' = []"
    by (simp add: validateRequest_def validateSessionScope_def fields validateTarget_iff)
  have "isRuntimeRequestEnvelope (request_json q) \<longleftrightarrow>
      isRuntimeWireValue (operation_json (operation q)) \<and> validateBase ?fs = [] \<and> validateRequest ?fs = []"
    using fields(5) wire
    by (auto simp: isRuntimeRequestEnvelope_def validateRuntimeEnvelope_def envelope_kind_def request_json_def)
  with base req operation_json_check [of "operation q"] show ?thesis
    unfolding valid_request_def by blast
qed

subsection \<open>What acceptance of a typed stream gives\<close>

definition valid_cursor :: "recovery_cursor \<Rightarrow> bool" where
  "valid_cursor c \<longleftrightarrow> nonblank (cursorSessionId c) \<and> valid_target (cursorTarget c)
     \<and> 0 \<le> cursorRevision c \<and> 0 \<le> cursorEventSeq c"

definition valid_hello :: "hello_envelope \<Rightarrow> bool" where
  "valid_hello h \<longleftrightarrow> nonblank (runtimeEpoch h) \<and> list_all valid_cursor (recoverySessions h)"

text \<open>A snapshot's session, revision and target are its envelope's.\<close>

definition snapshot_agrees :: "session_stream \<Rightarrow> session_snapshot \<Rightarrow> bool" where
  "snapshot_agrees e s \<longleftrightarrow> snapSessionId s = sessionId e \<and> snapRevision s = revision e \<and> snapTarget s = target e"

definition valid_stream :: "session_stream \<Rightarrow> bool" where
  "valid_stream e \<longleftrightarrow> nonblank (runtimeEpoch e) \<and> pred_option valid_trace (trace e)
     \<and> nonblank (sessionId e) \<and> valid_target (target e) \<and> 0 \<le> revision e \<and> 1 \<le> eventSeq e
     \<and> (case payload e of SnapshotPayload s \<Rightarrow> snapshot_agrees e s | _ \<Rightarrow> True)"

lemma each_at_Nil: "each_at chk path xs = [] \<Longrightarrow> x \<in> set xs \<Longrightarrow> \<exists>p. chk x p = []"
  by (auto simp: each_at_def in_set_conv_nth set_zip)

lemma base_check:
  assumes "validateBase (base_fields k e @ fs) = []" and "jget ''trace'' fs = JUndef"
  shows "nonblank (runtimeEpoch e) \<and> pred_option valid_trace (trace e)"
  using assms by (cases "trace e") (auto simp: validateBase_def jget_base_fields validateTrace_iff)

lemma strict_eq_scalar [simp]:
  "strict_eq (JStr s) (JStr t) \<longleftrightarrow> s = t" "strict_eq (jint i) (jint j) \<longleftrightarrow> i = j"
  by simp_all

lemma sameTarget_iff: "sameTarget (target_json s) (target_json t) \<longleftrightarrow> s = t"
  using same_target_iff [of s t] by (simp add: sameTarget_def same_target_def sameRuntimeTarget_def)

lemma snapshot_fields:
  obtains fs where "snapshot_json s = JObj fs" "jget ''sessionId'' fs = JStr (snapSessionId s)"
    "jget ''revision'' fs = jint (snapRevision s)" "jget ''target'' fs = target_json (snapTarget s)"
  by (simp add: snapshot_json_def)

lemma stream_accepted:
  assumes "isRuntimeStreamEnvelope (session_stream_json e)"
  shows "valid_stream e"
proof -
  let ?rest = "scope_fields e @ [(''revision'', jint (revision e)), (''eventSeq'', jint (eventSeq e))] @ payload_fields (payload e)"
  define fs where "fs = base_fields ''stream'' e @ ?rest"
  have fields: "jget ''sessionId'' fs = JStr (sessionId e)" "jget ''target'' fs = target_json (target e)"
    "jget ''revision'' fs = jint (revision e)" "jget ''eventSeq'' fs = jint (eventSeq e)"
    "jget ''kind'' fs = JStr ''stream''"
    by (simp_all add: fs_def jget_base_fields scope_fields_def)
  have ty: "jget ''streamType'' fs \<noteq> JStr ''hello''" and tr: "jget ''trace'' ?rest = JUndef"
    and sn: "payload e = SnapshotPayload s \<Longrightarrow> jget ''streamType'' fs = JStr ''session-snapshot''
       \<and> jget ''snapshot'' fs = snapshot_json s" for s
    by (cases "payload e"; simp add: fs_def jget_base_fields scope_fields_def)+
  from assms have "validateRuntimeEnvelope (JObj fs) = []"
    by (simp add: isRuntimeStreamEnvelope_def session_stream_json_def fs_def)
  then have base: "validateBase fs = []" and str: "validateSessionStream fs = []"
    using fields(5) ty by (auto simp: validateRuntimeEnvelope_def split: if_splits)
  from str have "nonblank (sessionId e) \<and> valid_target (target e) \<and> 0 \<le> revision e \<and> 1 \<le> eventSeq e"
    by (simp add: validateSessionStream_def validateSessionScope_def fields validateTarget_iff)
  moreover have "snapshot_agrees e s" if "payload e = SnapshotPayload s" for s
  proof (rule snapshot_fields [of s])
    fix gs assume gs: "snapshot_json s = JObj gs" "jget ''sessionId'' gs = JStr (snapSessionId s)"
      "jget ''revision'' gs = jint (snapRevision s)" "jget ''target'' gs = target_json (snapTarget s)"
    from str show ?thesis
      by (simp add: validateSessionStream_def fields sn [OF that] gs sameTarget_iff snapshot_agrees_def
          split: if_splits)
  qed
  ultimately show ?thesis
    using base_check [OF base [unfolded fs_def] tr] by (simp add: valid_stream_def split: stream_payload.split)
qed

lemma cursor_accepted: "validateRecoveryCursor (cursor_json c) p = [] \<Longrightarrow> valid_cursor c"
  by (simp add: validateRecoveryCursor_def cursor_json_def validateTarget_iff valid_cursor_def)

lemma hello_accepted:
  assumes "isRuntimeStreamEnvelope (hello_json h)"
  shows "valid_hello h"
proof -
  let ?rest = "[(''streamType'', JStr ''hello''), (''recovery'', recovery_json h)]"
  define fs where "fs = base_fields ''stream'' h @ ?rest"
  have fields: "jget ''kind'' fs = JStr ''stream''" "jget ''streamType'' fs = JStr ''hello''"
    "jget ''recovery'' fs = recovery_json h"
    by (simp_all add: fs_def jget_base_fields)
  from assms have "validateRuntimeEnvelope (JObj fs) = []"
    by (simp add: isRuntimeStreamEnvelope_def hello_json_def fs_def)
  then have base: "validateBase fs = []" and hel: "validateHello fs = []"
    using fields by (auto simp: validateRuntimeEnvelope_def split: if_splits)
  from hel have "each_at validateRecoveryCursor ''$.recovery.sessions'' (map cursor_json (recoverySessions h)) = []"
    by (simp add: validateHello_def fields(3) recovery_json_def)
  from each_at_Nil [OF this] have "valid_cursor c" if "c \<in> set (recoverySessions h)" for c
    using that cursor_accepted by force
  with base_check [OF base [unfolded fs_def]] show ?thesis by (simp add: valid_hello_def list_all_iff)
qed

text \<open>
  C15. The envelope check means what the types promise: the JSON form of a typed request passes
  \<open>isRuntimeRequestEnvelope\<close> exactly when it has the protocol's version, identifiers that are not
  blank, non-negative integers, a valid trace context and target, and an operation whose own
  fields are valid.
\<close>

theorem request_check_exact: "isRuntimeRequestEnvelope (request_json q) \<longleftrightarrow> valid_request q"
  by (rule request_json_accepted)

end
