(* ===== verification/RuntimeLedger.thy ===== *)
theory RuntimeLedger
  imports RuntimeTyping
begin

section \<open>The request ledger of the runtime host\<close>

text \<open>
  \<open>RuntimeRequestLedger\<close> of \<open>packages/extension/src/agent/runtime-channel.ts\<close>: the host's record
  of the requests it accepted, by which a replayed request is answered once, an execution
  identity is owned by one request, and an abort reaches exactly the execution it names.

  An entry is a mutable object that two maps share. \<open>requests\<close> and \<open>executions\<close> hold addresses
  into \<open>entries\<close>; an entry that is forgotten leaves the maps, not the store, so a holder of the
  entry still sees it. An operation returns the new ledger and the source's result.
\<close>

subsection \<open>Keys\<close>

text \<open>\<open>JSON.stringify([clientId, windowId, sessionId, id])\<close>.\<close>

definition scope_key :: "string \<Rightarrow> int \<Rightarrow> string \<Rightarrow> string \<Rightarrow> string" where
  "scope_key c w s i =
     ''['' @ quote c @ '','' @ int_text w @ '','' @ quote s @ '','' @ quote i @ '']''"

definition requestKey :: "request_envelope \<Rightarrow> string" where
  "requestKey q = scope_key (clientId q) (windowId q) (sessionId q) (requestId q)"

definition executionKey :: "request_envelope \<Rightarrow> string \<Rightarrow> string" where
  "executionKey q e = scope_key (clientId q) (windowId q) (sessionId q) e"

definition canonicalEnvelope :: "request_envelope \<Rightarrow> string" where
  "canonicalEnvelope q = canonicalRuntimeValue (request_json q)"

fun operationExecution :: "operation \<Rightarrow> (string \<times> execution_kind) option" where
  "operationExecution (Prompt e _) = Some (e, KPrompt)"
| "operationExecution (ReplExecute e _ _) = Some (e, KRepl)"
| "operationExecution (PageOperation e _ _) = Some (e, KPageOperation)"
| "operationExecution _ = None"

subsection \<open>State and results\<close>

record ledger_entry =
  entryRequest :: request_envelope
  fingerprint :: string
  entryExecutionId :: "string option"
  entryExecutionKind :: "execution_kind option"
  entryStatus :: execution_status

record ledger =
  currentRuntimeEpoch :: string
  requests :: "(string, nat) omap"
  executions :: "(string, nat) omap"
  entries :: "nat \<Rightarrow> ledger_entry option"
  nextEntry :: nat

record execution_reference =
  refRuntimeEpoch :: string
  refClientId :: string
  refWindowId :: int
  refSessionId :: string
  refRequestId :: string
  refExecutionId :: string

datatype begin_result =
    Accepted nat
  | Duplicate nat
  | RequestConflict nat
  | ExecutionConflict nat
  | BeginStaleEpoch string string

datatype start_result =
    Started nat
  | AlreadyRunning nat
  | CancelledBeforeStart nat
  | StartTerminal nat
  | StartNotFound
  | StartMismatch nat
  | StartStaleEpoch string string

datatype finish_result =
    Finished nat
  | FinishTerminal nat
  | FinishNotFound
  | FinishMismatch nat
  | FinishStaleEpoch string string

datatype cancel_result =
    CancelBeforeStart nat nat
  | CancelRequest nat nat
  | AlreadyCancelRequested nat nat
  | CancelTerminal nat nat
  | DuplicateAbort nat
  | CancelNotFound nat
  | CancelMismatch nat nat
  | CancelRequestConflict nat
  | CancelExecutionConflict nat
  | CancelStaleEpoch string string

text \<open>\<open>RuntimeTerminalStatus\<close>, the statuses an execution may finish in.\<close>

datatype terminal_status = TSucceeded | TFailed | TCancelled

fun of_terminal :: "terminal_status \<Rightarrow> execution_status" where
  "of_terminal TSucceeded = Succeeded"
| "of_terminal TFailed = Failed"
| "of_terminal TCancelled = Cancelled"

fun isTerminal :: "execution_status \<Rightarrow> bool" where
  "isTerminal Succeeded = True"
| "isTerminal Failed = True"
| "isTerminal Cancelled = True"
| "isTerminal _ = False"

definition entryMatchesReference :: "ledger_entry \<Rightarrow> execution_reference \<Rightarrow> bool" where
  "entryMatchesReference e r \<longleftrightarrow>
     runtimeEpoch (entryRequest e) = refRuntimeEpoch r
     \<and> clientId (entryRequest e) = refClientId r
     \<and> windowId (entryRequest e) = refWindowId r
     \<and> sessionId (entryRequest e) = refSessionId r
     \<and> requestId (entryRequest e) = refRequestId r
     \<and> entryExecutionId e = Some (refExecutionId r)"

definition executionReferenceFor :: "ledger_entry \<Rightarrow> execution_reference option" where
  "executionReferenceFor e =
     (case entryExecutionId e of
        None \<Rightarrow> None
      | Some x \<Rightarrow>
          if x = [] then None
          else Some \<lparr>refRuntimeEpoch = runtimeEpoch (entryRequest e), refClientId = clientId (entryRequest e),
                 refWindowId = windowId (entryRequest e), refSessionId = sessionId (entryRequest e),
                 refRequestId = requestId (entryRequest e), refExecutionId = x\<rparr>)"

subsection \<open>Operations\<close>

definition new_ledger :: "string \<Rightarrow> string + ledger" where
  "new_ledger epoch =
     (if \<not> nonblank epoch then Inl ''runtimeEpoch must be non-empty''
      else Inr \<lparr>currentRuntimeEpoch = epoch, requests = [], executions = [],
             entries = (\<lambda>_. None), nextEntry = 0\<rparr>)"

definition restart :: "string \<Rightarrow> ledger \<Rightarrow> string + ledger" where
  "restart epoch l =
     (if \<not> nonblank epoch then Inl ''runtimeEpoch must be non-empty''
      else if epoch = currentRuntimeEpoch l then Inr l
      else Inr (l\<lparr>currentRuntimeEpoch := epoch, requests := [], executions := []\<rparr>))"

definition begin_request :: "request_envelope \<Rightarrow> ledger \<Rightarrow> ledger \<times> begin_result" where
  "begin_request q l =
     (if runtimeEpoch q \<noteq> currentRuntimeEpoch l
      then (l, BeginStaleEpoch (currentRuntimeEpoch l) (runtimeEpoch q))
      else
        let key = requestKey q; fp = canonicalEnvelope q in
        case oget (requests l) key of
          Some a \<Rightarrow>
            (l, if map_option fingerprint (entries l a) = Some fp then Duplicate a else RequestConflict a)
        | None \<Rightarrow>
            let execution = operationExecution (operation q);
                prior = (case execution of None \<Rightarrow> None
                         | Some (x, _) \<Rightarrow> oget (executions l) (executionKey q x)) in
            case prior of
              Some a \<Rightarrow> (l, ExecutionConflict a)
            | None \<Rightarrow>
                let a = nextEntry l;
                    entry = \<lparr>entryRequest = q, fingerprint = fp,
                      entryExecutionId = map_option fst execution,
                      entryExecutionKind = map_option snd execution, entryStatus = Queued\<rparr> in
                (l\<lparr>requests := oset key a (requests l),
                   executions := (case execution of None \<Rightarrow> executions l
                                  | Some (x, _) \<Rightarrow> oset (executionKey q x) a (executions l)),
                   entries := (entries l)(a \<mapsto> entry), nextEntry := Suc a\<rparr>, Accepted a))"

definition get_entry :: "string \<Rightarrow> int \<Rightarrow> string \<Rightarrow> string \<Rightarrow> ledger \<Rightarrow> nat option" where
  "get_entry c w s i l = oget (requests l) (scope_key c w s i)"

definition forget :: "string \<Rightarrow> int \<Rightarrow> string \<Rightarrow> string \<Rightarrow> ledger \<Rightarrow> ledger \<times> bool" where
  "forget c w s i l =
     (let key = scope_key c w s i in
      case oget (requests l) key of
        None \<Rightarrow> (l, False)
      | Some a \<Rightarrow>
          (l\<lparr>requests := odel key (requests l),
             executions :=
               (case entries l a of
                  Some e \<Rightarrow>
                    (case entryExecutionId e of
                       Some x \<Rightarrow>
                         if x \<noteq> [] \<and> oget (executions l) (executionKey (entryRequest e) x) = Some a
                         then odel (executionKey (entryRequest e) x) (executions l) else executions l
                     | None \<Rightarrow> executions l)
                | None \<Rightarrow> executions l)\<rparr>, True))"

definition set_status :: "nat \<Rightarrow> execution_status \<Rightarrow> ledger \<Rightarrow> ledger" where
  "set_status a st l = l\<lparr>entries := (entries l)(a := map_option (\<lambda>e. e\<lparr>entryStatus := st\<rparr>) (entries l a))\<rparr>"

definition reference_key :: "execution_reference \<Rightarrow> string" where
  "reference_key r = scope_key (refClientId r) (refWindowId r) (refSessionId r) (refRequestId r)"

definition markStarted :: "execution_reference \<Rightarrow> ledger \<Rightarrow> ledger \<times> start_result" where
  "markStarted r l =
     (if refRuntimeEpoch r \<noteq> currentRuntimeEpoch l
      then (l, StartStaleEpoch (currentRuntimeEpoch l) (refRuntimeEpoch r))
      else case oget (requests l) (reference_key r) of
        None \<Rightarrow> (l, StartNotFound)
      | Some a \<Rightarrow>
          (case entries l a of
             None \<Rightarrow> (l, StartNotFound)
           | Some e \<Rightarrow>
               if \<not> entryMatchesReference e r then (l, StartMismatch a)
               else (case entryStatus e of
                   Queued \<Rightarrow> (set_status a Running l, Started a)
                 | Running \<Rightarrow> (l, AlreadyRunning a)
                 | CancelRequested \<Rightarrow> (l, AlreadyRunning a)
                 | Cancelled \<Rightarrow> (l, CancelledBeforeStart a)
                 | _ \<Rightarrow> (l, StartTerminal a))))"

definition markTerminal :: "execution_reference \<Rightarrow> terminal_status \<Rightarrow> ledger \<Rightarrow> ledger \<times> finish_result" where
  "markTerminal r st l =
     (if refRuntimeEpoch r \<noteq> currentRuntimeEpoch l
      then (l, FinishStaleEpoch (currentRuntimeEpoch l) (refRuntimeEpoch r))
      else case oget (requests l) (reference_key r) of
        None \<Rightarrow> (l, FinishNotFound)
      | Some a \<Rightarrow>
          (case entries l a of
             None \<Rightarrow> (l, FinishNotFound)
           | Some e \<Rightarrow>
               if \<not> entryMatchesReference e r then (l, FinishMismatch a)
               else if isTerminal (entryStatus e) then (l, FinishTerminal a)
               else (set_status a (of_terminal st) l, Finished a)))"

text \<open>The identity an abort must match besides the request it names.\<close>

definition exactIdentity :: "ledger_entry \<Rightarrow> request_envelope \<Rightarrow> string \<Rightarrow> bool" where
  "exactIdentity e q x \<longleftrightarrow>
     runtimeEpoch (entryRequest e) = runtimeEpoch q
     \<and> clientId (entryRequest e) = clientId q
     \<and> windowId (entryRequest e) = windowId q
     \<and> sessionId (entryRequest e) = sessionId q
     \<and> entryExecutionId e = Some x
     \<and> same_target (target (entryRequest e)) (target q)"

text \<open>\<open>cancel\<close> of an abort request; \<open>x\<close> and \<open>tr\<close> are its operation's execution and target request.\<close>

definition cancel_with :: "request_envelope \<Rightarrow> string \<Rightarrow> string \<Rightarrow> ledger \<Rightarrow> ledger \<times> cancel_result" where
  "cancel_with q x tr l =
     (case begin_request q l of
        (l1, BeginStaleEpoch e g) \<Rightarrow> (l1, CancelStaleEpoch e g)
      | (l1, RequestConflict a) \<Rightarrow> (l1, CancelRequestConflict a)
      | (l1, ExecutionConflict a) \<Rightarrow> (l1, CancelExecutionConflict a)
      | (l1, Duplicate a) \<Rightarrow> (l1, DuplicateAbort a)
      | (l1, Accepted a) \<Rightarrow>
          (case oget (requests l1) (scope_key (clientId q) (windowId q) (sessionId q) tr) of
             None \<Rightarrow> (set_status a Failed l1, CancelNotFound a)
           | Some t \<Rightarrow>
               (case entries l1 t of
                  None \<Rightarrow> (set_status a Failed l1, CancelNotFound a)
                | Some e \<Rightarrow>
                    if \<not> exactIdentity e q x then (set_status a Failed l1, CancelMismatch a t)
                    else
                      let l2 = set_status a Succeeded l1 in
                      (case entryStatus e of
                         Queued \<Rightarrow> (set_status t Cancelled l2, CancelBeforeStart a t)
                       | Running \<Rightarrow> (set_status t CancelRequested l2, CancelRequest a t)
                       | CancelRequested \<Rightarrow> (l2, AlreadyCancelRequested a t)
                       | _ \<Rightarrow> (l2, CancelTerminal a t)))))"

fun cancel :: "request_envelope \<Rightarrow> ledger \<Rightarrow> (ledger \<times> cancel_result) option" where
  "cancel q l = (case operation q of Abort x tr _ \<Rightarrow> Some (cancel_with q x tr l) | _ \<Rightarrow> None)"

subsection \<open>Keys identify requests\<close>

lemma scope_key_inject [simp]:
  "scope_key c w s i = scope_key c' w' s' i' \<longleftrightarrow> c = c' \<and> w = w' \<and> s = s' \<and> i = i'"
proof
  have comma: "CHR '','' \<notin> set (int_text n)" for n
  proof -
    have "CHR '','' \<notin> set (decimal m)" for m
      using decimal_digits [of m] by (auto simp: list_all_iff is_digit_def less_eq_char_def)
    then show ?thesis by (auto simp: int_text_def)
  qed
  assume "scope_key c w s i = scope_key c' w' s' i'"
  then have cc: "c = c'" and rest: "int_text w @ CHR '','' # (quote s @ '','' @ quote i @ '']'')
      = int_text w' @ CHR '','' # (quote s' @ '','' @ quote i' @ '']'')"
    by (simp_all add: scope_key_def quote_inject_rest)
  from rest have ww: "int_text w = int_text w'" and
    tl: "quote s @ '','' @ quote i @ '']'' = quote s' @ '','' @ quote i' @ '']''"
    by (simp_all only: append_dot_inject [OF comma comma])
  from tl have "s = s' \<and> i = i'" by (simp add: quote_inject_rest)
  with cc ww show "c = c' \<and> w = w' \<and> s = s' \<and> i = i'" by (simp add: int_text_inject)
qed simp

subsection \<open>The machine\<close>

datatype ledger_op =
    OpBegin request_envelope
  | OpForget string int string string
  | OpStarted execution_reference
  | OpTerminal execution_reference terminal_status
  | OpCancel request_envelope
  | OpRestart string

fun ledger_step :: "ledger_op \<Rightarrow> ledger \<Rightarrow> ledger" where
  "ledger_step (OpBegin q) l = fst (begin_request q l)"
| "ledger_step (OpForget c w s i) l = fst (forget c w s i l)"
| "ledger_step (OpStarted r) l = fst (markStarted r l)"
| "ledger_step (OpTerminal r st) l = fst (markTerminal r st l)"
| "ledger_step (OpCancel q) l = (case cancel q l of Some (l', _) \<Rightarrow> l' | None \<Rightarrow> l)"
| "ledger_step (OpRestart e) l = (case restart e l of Inr l' \<Rightarrow> l' | Inl _ \<Rightarrow> l)"

text \<open>
  The well-formed ledger: an address in the request map is an entry of the current epoch under
  its own key; an entry names the execution its operation has; a request in the map owns its
  execution key, and an execution key belongs to a request in the map (an empty execution
  identity, which the envelope check rejects, survives \<open>forget\<close>).
\<close>

definition entry_ok :: "ledger_entry \<Rightarrow> bool" where
  "entry_ok e \<longleftrightarrow> fingerprint e = canonicalEnvelope (entryRequest e)
     \<and> entryExecutionId e = map_option fst (operationExecution (operation (entryRequest e)))
     \<and> entryExecutionKind e = map_option snd (operationExecution (operation (entryRequest e)))"

definition ledger_inv :: "ledger \<Rightarrow> bool" where
  "ledger_inv l \<longleftrightarrow>
     (\<forall>a e. entries l a = Some e \<longrightarrow> a < nextEntry l \<and> entry_ok e)
     \<and> (\<forall>k a. oget (requests l) k = Some a \<longrightarrow>
          (\<exists>e. entries l a = Some e \<and> k = requestKey (entryRequest e)
               \<and> runtimeEpoch (entryRequest e) = currentRuntimeEpoch l
               \<and> (\<forall>x. entryExecutionId e = Some x \<longrightarrow>
                    oget (executions l) (executionKey (entryRequest e) x) = Some a)))
     \<and> (\<forall>k a. oget (executions l) k = Some a \<longrightarrow>
          (\<exists>e x. entries l a = Some e \<and> entryExecutionId e = Some x
               \<and> k = executionKey (entryRequest e) x
               \<and> (x \<noteq> [] \<longrightarrow> oget (requests l) (requestKey (entryRequest e)) = Some a)))"

lemma ledger_invI [intro?]:
  assumes "\<And>a e. entries l a = Some e \<Longrightarrow> a < nextEntry l \<and> entry_ok e"
    and "\<And>k a. oget (requests l) k = Some a \<Longrightarrow>
          \<exists>e. entries l a = Some e \<and> k = requestKey (entryRequest e)
               \<and> runtimeEpoch (entryRequest e) = currentRuntimeEpoch l
               \<and> (\<forall>x. entryExecutionId e = Some x \<longrightarrow>
                    oget (executions l) (executionKey (entryRequest e) x) = Some a)"
    and "\<And>k a. oget (executions l) k = Some a \<Longrightarrow>
          \<exists>e x. entries l a = Some e \<and> entryExecutionId e = Some x
               \<and> k = executionKey (entryRequest e) x
               \<and> (x \<noteq> [] \<longrightarrow> oget (requests l) (requestKey (entryRequest e)) = Some a)"
  shows "ledger_inv l"
  using assms unfolding ledger_inv_def by blast

lemma ledger_inv_entry:
  "ledger_inv l \<Longrightarrow> entries l a = Some e \<Longrightarrow> a < nextEntry l \<and> entry_ok e"
  by (simp add: ledger_inv_def)

lemma ledger_inv_request:
  assumes "ledger_inv l" and "oget (requests l) k = Some a"
  obtains e where "entries l a = Some e" "k = requestKey (entryRequest e)"
    "runtimeEpoch (entryRequest e) = currentRuntimeEpoch l"
    "\<And>x. entryExecutionId e = Some x \<Longrightarrow> oget (executions l) (executionKey (entryRequest e) x) = Some a"
  using assms unfolding ledger_inv_def by blast

lemma ledger_inv_execution:
  assumes "ledger_inv l" and "oget (executions l) k = Some a"
  obtains e x where "entries l a = Some e" "entryExecutionId e = Some x"
    "k = executionKey (entryRequest e) x"
    "x \<noteq> [] \<Longrightarrow> oget (requests l) (requestKey (entryRequest e)) = Some a"
  using assms unfolding ledger_inv_def by blast

lemma new_ledger_inv: "new_ledger ep = Inr l \<Longrightarrow> ledger_inv l"
  by (auto simp: new_ledger_def ledger_inv_def split: if_splits)

lemma set_status_simps [simp]:
  "requests (set_status a st l) = requests l" "executions (set_status a st l) = executions l"
  "currentRuntimeEpoch (set_status a st l) = currentRuntimeEpoch l" "nextEntry (set_status a st l) = nextEntry l"
  "entries (set_status a st l) b =
     (if b = a then map_option (\<lambda>e. e\<lparr>entryStatus := st\<rparr>) (entries l b) else entries l b)"
  by (simp_all add: set_status_def)

lemma set_status_inv:
  assumes "ledger_inv l"
  shows "ledger_inv (set_status a st l)"
proof
  fix b e assume "entries (set_status a st l) b = Some e"
  then show "b < nextEntry (set_status a st l) \<and> entry_ok e"
    using ledger_inv_entry [OF assms] by (auto simp: entry_ok_def split: if_splits)
next
  fix k b assume "oget (requests (set_status a st l)) k = Some b"
  then have "oget (requests l) k = Some b" by simp
  from assms this show "\<exists>e. entries (set_status a st l) b = Some e \<and> k = requestKey (entryRequest e)
      \<and> runtimeEpoch (entryRequest e) = currentRuntimeEpoch (set_status a st l)
      \<and> (\<forall>x. entryExecutionId e = Some x \<longrightarrow>
           oget (executions (set_status a st l)) (executionKey (entryRequest e) x) = Some b)"
    by (rule ledger_inv_request) auto
next
  fix k b assume "oget (executions (set_status a st l)) k = Some b"
  then have "oget (executions l) k = Some b" by simp
  from assms this show "\<exists>e x. entries (set_status a st l) b = Some e \<and> entryExecutionId e = Some x
      \<and> k = executionKey (entryRequest e) x
      \<and> (x \<noteq> [] \<longrightarrow> oget (requests (set_status a st l)) (requestKey (entryRequest e)) = Some b)"
    by (rule ledger_inv_execution) auto
qed

text \<open>What \<open>begin\<close> does when it accepts: a fresh address under both keys, everything else kept.\<close>

definition ledger_accepts :: "request_envelope \<Rightarrow> ledger \<Rightarrow> nat \<Rightarrow> ledger \<Rightarrow> bool" where
  "ledger_accepts q l a l' \<longleftrightarrow>
     runtimeEpoch q = currentRuntimeEpoch l \<and> oget (requests l) (requestKey q) = None
     \<and> (\<forall>x k. operationExecution (operation q) = Some (x, k) \<longrightarrow> oget (executions l) (executionKey q x) = None)
     \<and> a = nextEntry l
     \<and> l' = l\<lparr>requests := oset (requestKey q) a (requests l),
              executions := (case operationExecution (operation q) of None \<Rightarrow> executions l
                 | Some (x, _) \<Rightarrow> oset (executionKey q x) a (executions l)),
              entries := (entries l)(a \<mapsto> \<lparr>entryRequest = q, fingerprint = canonicalEnvelope q,
                 entryExecutionId = map_option fst (operationExecution (operation q)),
                 entryExecutionKind = map_option snd (operationExecution (operation q)),
                 entryStatus = Queued\<rparr>),
              nextEntry := Suc a\<rparr>"

lemma begin_accepted: "begin_request q l = (l', Accepted a) \<longleftrightarrow> ledger_accepts q l a l'"
  by (auto simp: begin_request_def ledger_accepts_def Let_def split: option.splits if_splits)

lemma begin_other: "begin_request q l = (l', r) \<Longrightarrow> (\<And>a. r \<noteq> Accepted a) \<Longrightarrow> l' = l"
  by (auto simp: begin_request_def Let_def split: option.splits if_splits)

lemma begin_cases:
  obtains (accepted) a l' where "begin_request q l = (l', Accepted a)" "ledger_accepts q l a l'"
  | (refused) r where "begin_request q l = (l, r)" "\<And>a. r \<noteq> Accepted a"
proof (cases "begin_request q l")
  case (Pair l' r)
  show ?thesis
  proof (cases "\<exists>a. r = Accepted a")
    case True
    with Pair accepted show ?thesis by (auto simp: begin_accepted)
  next
    case False
    with Pair begin_other [OF Pair] have "begin_request q l = (l, r)" by blast
    with False refused show ?thesis by blast
  qed
qed

lemma accepts_inv:
  assumes inv: "ledger_inv l" and acc: "ledger_accepts q l a l'"
  shows "ledger_inv l'"
proof
  fix b e assume "entries l' b = Some e"
  with acc ledger_inv_entry [OF inv] show "b < nextEntry l' \<and> entry_ok e"
    by (auto simp: ledger_accepts_def entry_ok_def less_Suc_eq split: if_splits)
next
  fix k b assume get: "oget (requests l') k = Some b"
  show "\<exists>e. entries l' b = Some e \<and> k = requestKey (entryRequest e)
      \<and> runtimeEpoch (entryRequest e) = currentRuntimeEpoch l'
      \<and> (\<forall>x. entryExecutionId e = Some x \<longrightarrow> oget (executions l') (executionKey (entryRequest e) x) = Some b)"
  proof (cases "k = requestKey q")
    case True
    with get acc show ?thesis by (auto simp: ledger_accepts_def split: option.splits)
  next
    case False
    with get acc have old: "oget (requests l) k = Some b" by (simp add: ledger_accepts_def)
    from inv old obtain e where e: "entries l b = Some e" "k = requestKey (entryRequest e)"
      "runtimeEpoch (entryRequest e) = currentRuntimeEpoch l"
      "\<And>x. entryExecutionId e = Some x \<Longrightarrow> oget (executions l) (executionKey (entryRequest e) x) = Some b"
      by (rule ledger_inv_request) blast
    have "b \<noteq> a" using e(1) ledger_inv_entry [OF inv] acc by (force simp: ledger_accepts_def)
    with e acc show ?thesis by (auto simp: ledger_accepts_def split: option.splits)
  qed
next
  fix k b assume get: "oget (executions l') k = Some b"
  show "\<exists>e x. entries l' b = Some e \<and> entryExecutionId e = Some x \<and> k = executionKey (entryRequest e) x
      \<and> (x \<noteq> [] \<longrightarrow> oget (requests l') (requestKey (entryRequest e)) = Some b)"
  proof (cases "oget (executions l) k = Some b")
    case True
    from inv True obtain e x where e: "entries l b = Some e" "entryExecutionId e = Some x"
      "k = executionKey (entryRequest e) x" "x \<noteq> [] \<Longrightarrow> oget (requests l) (requestKey (entryRequest e)) = Some b"
      by (rule ledger_inv_execution) blast
    have "b \<noteq> a" using e(1) ledger_inv_entry [OF inv] acc by (force simp: ledger_accepts_def)
    moreover have "x = [] \<or> oget (requests l) (requestKey (entryRequest e)) = Some b" using e(4) by blast
    ultimately show ?thesis using e(1-3) acc by (auto simp: ledger_accepts_def)
  next
    case False
    with get acc show ?thesis
      by (auto simp: ledger_accepts_def split: option.splits if_splits)
  qed
qed

lemma begin_inv: "ledger_inv l \<Longrightarrow> ledger_inv (fst (begin_request q l))"
  by (rule begin_cases [of q l]) (auto intro: accepts_inv)

lemma restart_inv: "ledger_inv l \<Longrightarrow> restart ep l = Inr l' \<Longrightarrow> ledger_inv l'"
  by (auto simp: restart_def ledger_inv_def split: if_splits)

lemma markStarted_inv: "ledger_inv l \<Longrightarrow> ledger_inv (fst (markStarted r l))"
  by (simp add: markStarted_def set_status_inv split: option.split execution_status.split)

lemma markTerminal_inv: "ledger_inv l \<Longrightarrow> ledger_inv (fst (markTerminal r st l))"
  by (simp add: markTerminal_def set_status_inv split: option.split)

lemma forget_inv:
  assumes inv: "ledger_inv l"
  shows "ledger_inv (fst (forget c w s i l))"
proof (cases "oget (requests l) (scope_key c w s i)")
  case None
  with inv show ?thesis by (simp add: forget_def)
next
  case (Some a)
  from inv Some obtain e where e: "entries l a = Some e" "scope_key c w s i = requestKey (entryRequest e)"
    "\<And>x. entryExecutionId e = Some x \<Longrightarrow> oget (executions l) (executionKey (entryRequest e) x) = Some a"
    by (rule ledger_inv_request) blast
  let ?l = "fst (forget c w s i l)"
  have req: "requests ?l = odel (scope_key c w s i) (requests l)" "entries ?l = entries l"
    "nextEntry ?l = nextEntry l" "currentRuntimeEpoch ?l = currentRuntimeEpoch l"
    using Some by (simp_all add: forget_def)
  have exe: "executions ?l = (case entryExecutionId e of
      Some x \<Rightarrow> if x = [] then executions l else odel (executionKey (entryRequest e) x) (executions l)
    | None \<Rightarrow> executions l)"
    using Some e(1) e(3) by (auto simp: forget_def split: option.splits)
  show ?thesis
  proof
    fix b f assume "entries ?l b = Some f"
    then show "b < nextEntry ?l \<and> entry_ok f" using ledger_inv_entry [OF inv] by (simp add: req)
  next
    fix k b assume "oget (requests ?l) k = Some b"
    then have old: "oget (requests l) k = Some b" and other: "k \<noteq> scope_key c w s i"
      by (auto simp: req split: if_splits)
    from inv old obtain f where f: "entries l b = Some f" "k = requestKey (entryRequest f)"
      "runtimeEpoch (entryRequest f) = currentRuntimeEpoch l"
      "\<And>x. entryExecutionId f = Some x \<Longrightarrow> oget (executions l) (executionKey (entryRequest f) x) = Some b"
      by (rule ledger_inv_request) blast
    have "b \<noteq> a" using e(1,2) f(1,2) other by auto
    with e(3) f(4) have "oget (executions ?l) (executionKey (entryRequest f) x) = Some b"
      if "entryExecutionId f = Some x" for x
      using that by (fastforce simp: exe split: option.splits)
    with f req show "\<exists>e. entries ?l b = Some e \<and> k = requestKey (entryRequest e)
      \<and> runtimeEpoch (entryRequest e) = currentRuntimeEpoch ?l
      \<and> (\<forall>x. entryExecutionId e = Some x \<longrightarrow> oget (executions ?l) (executionKey (entryRequest e) x) = Some b)"
      by auto
  next
    fix k b assume "oget (executions ?l) k = Some b"
    then have old: "oget (executions l) k = Some b"
      and other: "\<And>x. entryExecutionId e = Some x \<Longrightarrow> x \<noteq> [] \<Longrightarrow> k \<noteq> executionKey (entryRequest e) x"
      by (auto simp: exe split: option.splits if_splits)
    from inv old obtain f x where f: "entries l b = Some f" "entryExecutionId f = Some x"
      "k = executionKey (entryRequest f) x"
      "x \<noteq> [] \<Longrightarrow> oget (requests l) (requestKey (entryRequest f)) = Some b"
      by (rule ledger_inv_execution) blast
    have "x \<noteq> [] \<longrightarrow> oget (requests ?l) (requestKey (entryRequest f)) = Some b"
    proof
      assume x: "x \<noteq> []"
      have "b \<noteq> a" using e(1) f(1,2,3) other [of x] x by auto
      then have "requestKey (entryRequest f) \<noteq> scope_key c w s i" using Some f(4) x by auto
      with f(4) x show "oget (requests ?l) (requestKey (entryRequest f)) = Some b" by (simp add: req)
    qed
    with f req show "\<exists>e x. entries ?l b = Some e \<and> entryExecutionId e = Some x
      \<and> k = executionKey (entryRequest e) x
      \<and> (x \<noteq> [] \<longrightarrow> oget (requests ?l) (requestKey (entryRequest e)) = Some b)"
      by auto
  qed
qed

lemma cancel_with_inv: "ledger_inv l \<Longrightarrow> ledger_inv (fst (cancel_with q x tr l))"
  by (rule begin_cases [of q l])
    (auto simp: cancel_with_def Let_def set_status_inv accepts_inv
      split: option.split begin_result.split execution_status.split)

lemma ledger_step_inv: "ledger_inv l \<Longrightarrow> ledger_inv (ledger_step op l)"
proof (cases op)
  case (OpCancel q)
  assume "ledger_inv l"
  with OpCancel show ?thesis
    by (cases "operation q") (simp_all add: cancel_with_inv case_prod_beta)
qed (auto simp: begin_inv forget_inv markStarted_inv markTerminal_inv restart_inv split: sum.split)

subsection \<open>Statuses only advance\<close>

fun status_rank :: "execution_status \<Rightarrow> nat" where
  "status_rank Queued = 0"
| "status_rank Running = 1"
| "status_rank CancelRequested = 2"
| "status_rank _ = 3"

lemma rank_terminal [simp]: "status_rank s = 3 \<longleftrightarrow> isTerminal s" "3 < status_rank s \<longleftrightarrow> False"
  "status_rank s < 3 \<longleftrightarrow> \<not> isTerminal s"
  by (cases s; simp)+

lemma rank_of_terminal [simp]: "status_rank (of_terminal st) = 3" "isTerminal (of_terminal st)"
  by (cases st; simp)+

text \<open>An entry keeps its identity; its status stays or moves to one of a higher rank.\<close>

definition entry_le :: "ledger_entry \<Rightarrow> ledger_entry \<Rightarrow> bool" where
  "entry_le e f \<longleftrightarrow> f = e \<or> (\<exists>st. status_rank (entryStatus e) < status_rank st \<and> f = e\<lparr>entryStatus := st\<rparr>)"

definition ledger_le :: "ledger \<Rightarrow> ledger \<Rightarrow> bool" where
  "ledger_le l m \<longleftrightarrow> nextEntry l \<le> nextEntry m
     \<and> (\<forall>a e. entries l a = Some e \<longrightarrow> (\<exists>f. entries m a = Some f \<and> entry_le e f))"

lemma entry_le_refl [simp]: "entry_le e e"
  by (simp add: entry_le_def)

lemma entry_le_trans: "entry_le e f \<Longrightarrow> entry_le f g \<Longrightarrow> entry_le e g"
  unfolding entry_le_def by (elim disjE exE conjE) (auto dest: less_trans)

lemma ledger_le_refl [simp]: "ledger_le l l"
  by (auto simp: ledger_le_def)

lemma ledger_le_trans: "ledger_le l m \<Longrightarrow> ledger_le m n \<Longrightarrow> ledger_le l n"
  by (fastforce simp: ledger_le_def intro: entry_le_trans)

lemma set_status_le:
  "entries l a = Some e \<Longrightarrow> status_rank (entryStatus e) < status_rank st \<Longrightarrow> ledger_le l (set_status a st l)"
  by (auto simp: ledger_le_def entry_le_def)

lemma accepts_le: "ledger_inv l \<Longrightarrow> ledger_accepts q l a l' \<Longrightarrow> ledger_le l l'"
  using ledger_inv_entry [of l a] by (auto simp: ledger_le_def ledger_accepts_def)

lemma begin_le: "ledger_inv l \<Longrightarrow> ledger_le l (fst (begin_request q l))"
  by (rule begin_cases [of q l]) (auto intro: accepts_le)

lemma markStarted_le: "ledger_le l (fst (markStarted r l))"
  by (auto simp: markStarted_def intro: set_status_le split: option.split execution_status.split)

lemma markTerminal_le: "ledger_le l (fst (markTerminal r st l))"
  by (auto simp: markTerminal_def intro!: set_status_le split: option.split)

lemma forget_le: "ledger_le l (fst (forget c w s i l))"
  by (auto simp: forget_def ledger_le_def Let_def split: option.split)

lemma restart_le: "restart ep l = Inr l' \<Longrightarrow> ledger_le l l'"
  by (auto simp: restart_def ledger_le_def split: if_splits)

text \<open>
  An accepted abort first registers its own entry, then sets that entry and, for an exactly
  identified target, the target's.
\<close>

lemma cancel_with_shape:
  assumes "ledger_inv l" and abort: "operation q = Abort x tr why"
  obtains (refused) "fst (cancel_with q x tr l) = l"
  | (fail) a l1 where "ledger_accepts q l a l1" "fst (cancel_with q x tr l) = set_status a Failed l1"
  | (keep) a l1 where "ledger_accepts q l a l1" "fst (cancel_with q x tr l) = set_status a Succeeded l1"
  | (hit) a l1 t e st where "ledger_accepts q l a l1" "t \<noteq> a" "entries l t = Some e"
      "requestKey (entryRequest e) = scope_key (clientId q) (windowId q) (sessionId q) tr"
      "exactIdentity e q x"
      "entryStatus e = Queued \<and> st = Cancelled \<and> snd (cancel_with q x tr l) = CancelBeforeStart a t
       \<or> entryStatus e = Running \<and> st = CancelRequested \<and> snd (cancel_with q x tr l) = CancelRequest a t"
      "fst (cancel_with q x tr l) = set_status t st (set_status a Succeeded l1)"
proof (rule begin_cases [of q l])
  fix r assume "begin_request q l = (l, r)" "\<And>a. r \<noteq> Accepted a"
  then have "fst (cancel_with q x tr l) = l"
    by (cases r) (auto simp: cancel_with_def)
  with refused show ?thesis .
next
  fix a l1 assume beg: "begin_request q l = (l1, Accepted a)" and acc: "ledger_accepts q l a l1"
  let ?key = "scope_key (clientId q) (windowId q) (sessionId q) tr"
  note cancel_eq = cancel_with_def [of q x tr l, unfolded beg, simplified]
  show ?thesis
  proof (cases "oget (requests l1) ?key")
    case None
    with acc fail show ?thesis by (simp add: cancel_eq)
  next
    case (Some t)
    from ledger_inv_request [OF accepts_inv [OF assms(1) acc] Some]
    obtain e where e: "entries l1 t = Some e" "?key = requestKey (entryRequest e)" by blast
    show ?thesis
    proof (cases "exactIdentity e q x")
      case False
      with Some e acc fail show ?thesis by (simp add: cancel_eq)
    next
      case True
      have "t \<noteq> a" using True e(1) acc abort by (auto simp: ledger_accepts_def exactIdentity_def)
      with acc e have old: "entries l t = Some e" by (simp add: ledger_accepts_def)
      note h = hit [OF acc \<open>t \<noteq> a\<close> old e(2) [symmetric] True]
      show ?thesis
        by (cases "entryStatus e") (use h [of Cancelled] h [of CancelRequested] keep [OF acc] Some e(1) True in
            \<open>simp_all add: cancel_eq\<close>)
    qed
  qed
qed

lemma accepts_entry:
  "ledger_accepts q l a l' \<Longrightarrow> entries l' a = Some \<lparr>entryRequest = q, fingerprint = canonicalEnvelope q,
     entryExecutionId = map_option fst (operationExecution (operation q)),
     entryExecutionKind = map_option snd (operationExecution (operation q)), entryStatus = Queued\<rparr>"
  "ledger_accepts q l a l' \<Longrightarrow> b \<noteq> a \<Longrightarrow> entries l' b = entries l b"
  by (simp_all add: ledger_accepts_def)

lemma cancel_with_le:
  assumes inv: "ledger_inv l" and abort: "operation q = Abort x tr why"
  shows "ledger_le l (fst (cancel_with q x tr l))"
proof (rule cancel_with_shape [OF assms])
  fix a l1 assume acc: "ledger_accepts q l a l1"
  have up: "ledger_le l (set_status a st l1)" if "0 < status_rank st" for st
    by (rule ledger_le_trans [OF accepts_le [OF inv acc] set_status_le [OF accepts_entry(1) [OF acc]]])
      (use that in simp)
  show "fst (cancel_with q x tr l) = set_status a Failed l1 \<Longrightarrow> ?thesis"
    and "fst (cancel_with q x tr l) = set_status a Succeeded l1 \<Longrightarrow> ?thesis"
    using up by simp_all
  fix t e st assume h: "t \<noteq> a" "entries l t = Some e"
    "entryStatus e = Queued \<and> st = Cancelled \<and> snd (cancel_with q x tr l) = CancelBeforeStart a t
       \<or> entryStatus e = Running \<and> st = CancelRequested \<and> snd (cancel_with q x tr l) = CancelRequest a t"
    "fst (cancel_with q x tr l) = set_status t st (set_status a Succeeded l1)"
  have "entries (set_status a Succeeded l1) t = Some e" using h(1,2) accepts_entry(2) [OF acc] by simp
  then have "ledger_le (set_status a Succeeded l1) (set_status t st (set_status a Succeeded l1))"
    by (rule set_status_le) (use h(3) in auto)
  with up [of Succeeded] h(4) show ?thesis by (auto intro: ledger_le_trans)
qed simp

lemma cancel_Some:
  "cancel q l = Some (l', r) \<longleftrightarrow>
     (\<exists>x tr why. operation q = Abort x tr why \<and> l' = fst (cancel_with q x tr l) \<and> r = snd (cancel_with q x tr l))"
  by (cases "operation q") (auto simp: prod_eq_iff)

lemma ledger_step_le: "ledger_inv l \<Longrightarrow> ledger_le l (ledger_step op l)"
proof (cases op)
  case (OpCancel q)
  assume "ledger_inv l"
  with OpCancel show ?thesis
    by (cases "operation q") (simp_all add: case_prod_beta cancel_with_le)
qed (auto simp: begin_le forget_le markStarted_le markTerminal_le restart_le split: sum.split)

interpretation ledger_machine: monotone_machine ledger_step ledger_inv ledger_le
  by unfold_locales (auto simp: ledger_step_inv ledger_step_le intro: ledger_le_trans)

subsection \<open>Replay, start, finish and cancellation over whole runs\<close>

lemma ledger_le_entry:
  assumes "ledger_le l m" and "entries l a = Some e"
  obtains f where "entries m a = Some f" "entry_le e f"
  using assms unfolding ledger_le_def by blast

lemma entry_le_same:
  assumes "entry_le e f"
  shows "entryRequest f = entryRequest e" "fingerprint f = fingerprint e" "entryExecutionId f = entryExecutionId e"
    "status_rank (entryStatus e) \<le> status_rank (entryStatus f)"
  using assms by (auto simp: entry_le_def)

lemma entry_le_terminal: "entry_le e f \<Longrightarrow> isTerminal (entryStatus e) \<Longrightarrow> f = e"
  by (auto simp: entry_le_def dest: iffD2 [OF rank_terminal(1)])

text \<open>An operation that neither forgets the request nor replaces the epoch.\<close>

fun keeps_request :: "request_envelope \<Rightarrow> ledger_op \<Rightarrow> bool" where
  "keeps_request q (OpForget c w s i) = (scope_key c w s i \<noteq> requestKey q)"
| "keeps_request q (OpRestart ep) = (\<not> nonblank ep \<or> ep = runtimeEpoch q)"
| "keeps_request q _ = True"

lemma accepts_keeps:
  "ledger_accepts p l b l' \<Longrightarrow> oget (requests l) k = Some a \<Longrightarrow>
     oget (requests l') k = Some a \<and> currentRuntimeEpoch l' = currentRuntimeEpoch l"
  by (auto simp: ledger_accepts_def)

lemma accepts_epoch: "ledger_accepts p l b l' \<Longrightarrow> currentRuntimeEpoch l' = currentRuntimeEpoch l"
  by (simp add: ledger_accepts_def)

lemma begin_keeps:
  "oget (requests l) k = Some a \<Longrightarrow> oget (requests (fst (begin_request p l))) k = Some a
     \<and> currentRuntimeEpoch (fst (begin_request p l)) = currentRuntimeEpoch l"
  by (rule begin_cases [of p l]) (simp_all add: accepts_keeps)

lemma mark_keeps:
  "requests (fst (markStarted r l)) = requests l" "currentRuntimeEpoch (fst (markStarted r l)) = currentRuntimeEpoch l"
  "requests (fst (markTerminal r st l)) = requests l"
  "currentRuntimeEpoch (fst (markTerminal r st l)) = currentRuntimeEpoch l"
  by (auto simp: markStarted_def markTerminal_def split: option.split execution_status.split)

lemma cancel_keeps:
  assumes "ledger_inv l" "operation p = Abort x tr why" "oget (requests l) k = Some a"
  shows "oget (requests (fst (cancel_with p x tr l))) k = Some a
     \<and> currentRuntimeEpoch (fst (cancel_with p x tr l)) = currentRuntimeEpoch l"
  by (rule cancel_with_shape [OF assms(1,2)]) (simp_all add: accepts_keeps [OF _ assms(3)] accepts_epoch assms(3))

lemma step_keeps:
  assumes "ledger_inv l" "oget (requests l) (requestKey q) = Some a" "currentRuntimeEpoch l = runtimeEpoch q"
    and "keeps_request q op"
  shows "oget (requests (ledger_step op l)) (requestKey q) = Some a
     \<and> currentRuntimeEpoch (ledger_step op l) = runtimeEpoch q"
proof (cases op)
  case (OpCancel p)
  with assms show ?thesis
    by (cases "operation p") (simp_all add: case_prod_beta cancel_keeps)
next
  case (OpForget c w s i)
  with assms show ?thesis by (simp add: forget_def Let_def split: option.split)
next
  case (OpRestart ep)
  with assms show ?thesis by (simp add: restart_def split: sum.split)
next
  case (OpBegin p)
  with assms show ?thesis by (simp add: begin_keeps)
qed (simp_all add: mark_keeps assms)

lemma run_keeps:
  assumes "ledger_inv l" "oget (requests l) (requestKey q) = Some a" "currentRuntimeEpoch l = runtimeEpoch q"
    and "list_all (keeps_request q) ops"
  shows "oget (requests (fold ledger_step ops l)) (requestKey q) = Some a
     \<and> currentRuntimeEpoch (fold ledger_step ops l) = runtimeEpoch q"
  using assms
proof (induction ops arbitrary: l)
  case (Cons op ops)
  from Cons.prems have k: "keeps_request q op" "list_all (keeps_request q) ops" by simp_all
  note s = step_keeps [OF Cons.prems(1-3) k(1)]
  have "oget (requests (fold ledger_step ops (ledger_step op l))) (requestKey q) = Some a
     \<and> currentRuntimeEpoch (fold ledger_step ops (ledger_step op l)) = runtimeEpoch q"
    by (rule Cons.IH) (use s k(2) ledger_step_inv [OF Cons.prems(1)] in simp_all)
  then show ?case by simp
qed simp

text \<open>What a sequence of operations after an accepted request leaves of it.\<close>

lemma run_after_accept:
  assumes "ledger_inv l" and "begin_request q l = (l1, Accepted a)" and "list_all (keeps_request q) ops"
  obtains f where "oget (requests (fold ledger_step ops l1)) (requestKey q) = Some a"
    "currentRuntimeEpoch (fold ledger_step ops l1) = runtimeEpoch q"
    "entries (fold ledger_step ops l1) a = Some f" "entryRequest f = q" "fingerprint f = canonicalEnvelope q"
proof -
  from assms(2) have acc: "ledger_accepts q l a l1" by (simp add: begin_accepted)
  have inv: "ledger_inv l1" using accepts_inv [OF assms(1) acc] .
  have "oget (requests l1) (requestKey q) = Some a" "currentRuntimeEpoch l1 = runtimeEpoch q"
    using acc by (simp_all add: ledger_accepts_def)
  note k = run_keeps [OF inv this assms(3)]
  from ledger_le_entry [OF ledger_machine.run_le [OF inv] accepts_entry(1) [OF acc]]
  obtain f where f: "entries (fold ledger_step ops l1) a = Some f"
    "entry_le \<lparr>entryRequest = q, fingerprint = canonicalEnvelope q,
     entryExecutionId = map_option fst (operationExecution (operation q)),
     entryExecutionKind = map_option snd (operationExecution (operation q)), entryStatus = Queued\<rparr> f" .
  show ?thesis by (rule that [OF conjunct1 [OF k] conjunct2 [OF k] f(1)]) (use entry_le_same [OF f(2)] in simp_all)
qed

text \<open>
  C16. A replayed request is answered by its first acceptance. After any operations that neither
  forget the request nor change the epoch, a request with the same identity leaves the ledger as
  it is and gets \<open>Duplicate\<close> of the accepted entry if its envelope has the same canonical text,
  \<open>RequestConflict\<close> if it differs.
\<close>

theorem replay_answered_once:
  assumes "ledger_inv l" and "begin_request q l = (l1, Accepted a)"
    and "list_all (keeps_request q) ops"
    and "requestKey q' = requestKey q" and "runtimeEpoch q' = runtimeEpoch q"
  shows "begin_request q' (fold ledger_step ops l1) =
    (fold ledger_step ops l1, if canonicalEnvelope q' = canonicalEnvelope q then Duplicate a else RequestConflict a)"
  by (rule run_after_accept [OF assms(1-3)]) (use assms(4,5) in \<open>simp add: begin_request_def Let_def\<close>)

text \<open>
  C17. An execution starts at most once: after \<open>markStarted\<close> reported an entry started, no later
  \<open>markStarted\<close>, whatever operations come between, reports it started again.
\<close>

theorem execution_started_once:
  assumes "ledger_inv l" and "markStarted r l = (l1, Started a)"
  shows "snd (markStarted r' (fold ledger_step ops l1)) \<noteq> Started a"
proof -
  from assms(2) obtain e where e: "entries l1 a = Some e" "entryStatus e = Running"
    by (auto simp: markStarted_def split: if_splits option.splits execution_status.splits)
  have "ledger_inv l1" using markStarted_inv [OF assms(1), of r] assms(2) by simp
  from ledger_le_entry [OF ledger_machine.run_le [OF this] e(1)]
  obtain f where f: "entries (fold ledger_step ops l1) a = Some f" "entry_le e f" .
  from entry_le_same(4) [OF f(2)] e(2) have "entryStatus f \<noteq> Queued" by auto
  with f(1) show ?thesis
    by (auto simp: markStarted_def split: if_splits option.splits execution_status.splits)
qed

text \<open>
  A request cancelled before it started stays cancelled and is never reported started, whatever
  operations follow.
\<close>

theorem cancelled_never_starts:
  assumes "ledger_inv l" and "cancel q l = Some (l1, CancelBeforeStart c t)"
  shows "map_option entryStatus (entries (fold ledger_step ops l1) t) = Some Cancelled
    \<and> snd (markStarted r (fold ledger_step ops l1)) \<noteq> Started t"
proof -
  from assms(2) obtain x tr why where op: "operation q = Abort x tr why"
    and l1: "l1 = fst (cancel_with q x tr l)" and res: "snd (cancel_with q x tr l) = CancelBeforeStart c t"
    by (auto simp: cancel_Some simp del: cancel.simps)
  have "\<exists>e. entries l1 t = Some e \<and> entryStatus e = Cancelled"
    using res unfolding l1 by (auto simp: cancel_with_def Let_def
        split: begin_result.splits option.splits if_splits execution_status.splits prod.splits)
  then obtain e where e: "entries l1 t = Some e" "entryStatus e = Cancelled" by blast
  have "ledger_inv l1" using cancel_with_inv [OF assms(1)] l1 by simp
  from ledger_le_entry [OF ledger_machine.run_le [OF this] e(1)]
  obtain f where f: "entries (fold ledger_step ops l1) t = Some f" "entry_le e f" .
  from entry_le_terminal [OF f(2)] e(2) have "entryStatus f = Cancelled" by simp
  with f(1) show ?thesis
    by (auto simp: markStarted_def split: if_splits option.splits execution_status.splits)
qed

text \<open>
  A finished execution stays finished: after \<open>markTerminal\<close> reported an entry finished, the
  entry keeps its request and that final status through any later operations.
\<close>

theorem finished_stays_finished:
  assumes "ledger_inv l" and "markTerminal r st l = (l1, Finished a)"
  shows "\<exists>e. entries (fold ledger_step ops l1) a = Some e \<and> entryMatchesReference e r
    \<and> entryStatus e = of_terminal st"
proof -
  from assms(2) obtain e where e: "entries l1 a = Some e" "entryMatchesReference e r" "entryStatus e = of_terminal st"
    by (auto simp: markTerminal_def entryMatchesReference_def split: if_splits option.splits)
  have "ledger_inv l1" using markTerminal_inv [OF assms(1), of r st] assms(2) by simp
  from ledger_le_entry [OF ledger_machine.run_le [OF this] e(1)]
  obtain f where f: "entries (fold ledger_step ops l1) a = Some f" "entry_le e f" .
  from entry_le_terminal [OF f(2)] e(3) have "f = e" by simp
  with e f(1) show ?thesis by blast
qed

text \<open>
  C18. An abort reaches only the execution it names. If \<open>cancel\<close> changes an entry that existed
  before, the entry's request has the abort's epoch, client, window, session and target, the
  request and execution identities the abort names, and the change is from queued to cancelled or
  from running to cancel-requested.
\<close>

theorem cancel_reaches_only_its_target:
  assumes "ledger_inv l" and "cancel q l = Some (l', res)"
    and "entries l b = Some e" and "entries l' b \<noteq> Some e"
  shows "\<exists>x why. operation q = Abort x (requestId (entryRequest e)) why
    \<and> entryExecutionId e = Some x
    \<and> runtimeEpoch (entryRequest e) = runtimeEpoch q \<and> clientId (entryRequest e) = clientId q
    \<and> windowId (entryRequest e) = windowId q \<and> sessionId (entryRequest e) = sessionId q
    \<and> target (entryRequest e) = target q
    \<and> (entryStatus e = Queued \<and> entries l' b = Some (e\<lparr>entryStatus := Cancelled\<rparr>)
       \<or> entryStatus e = Running \<and> entries l' b = Some (e\<lparr>entryStatus := CancelRequested\<rparr>))"
proof -
  from assms(2) obtain x tr why where op: "operation q = Abort x tr why" and l': "l' = fst (cancel_with q x tr l)"
    by (auto simp: cancel_Some simp del: cancel.simps)
  have fresh: "b \<noteq> a" if "ledger_accepts q l a l1" for a l1
    using that ledger_inv_entry [OF assms(1,3)] by (auto simp: ledger_accepts_def)
  show ?thesis
  proof (rule cancel_with_shape [OF assms(1) op])
    assume "fst (cancel_with q x tr l) = l"
    with l' assms(3,4) show ?thesis by simp
  next
    fix a l1 assume acc: "ledger_accepts q l a l1" and f: "fst (cancel_with q x tr l) = set_status a Failed l1"
    from l' f fresh [OF acc] accepts_entry(2) [OF acc] assms(3,4) show ?thesis by simp
  next
    fix a l1 assume acc: "ledger_accepts q l a l1" and f: "fst (cancel_with q x tr l) = set_status a Succeeded l1"
    from l' f fresh [OF acc] accepts_entry(2) [OF acc] assms(3,4) show ?thesis by simp
  next
    fix a l1 t g st
    assume h: "ledger_accepts q l a l1" "t \<noteq> a" "entries l t = Some g"
      "requestKey (entryRequest g) = scope_key (clientId q) (windowId q) (sessionId q) tr" "exactIdentity g q x"
      "entryStatus g = Queued \<and> st = Cancelled \<and> snd (cancel_with q x tr l) = CancelBeforeStart a t
       \<or> entryStatus g = Running \<and> st = CancelRequested \<and> snd (cancel_with q x tr l) = CancelRequest a t"
      "fst (cancel_with q x tr l) = set_status t st (set_status a Succeeded l1)"
    have "b = t" using l' h(7) fresh [OF h(1)] accepts_entry(2) [OF h(1)] assms(3,4)
      by (auto split: if_splits)
    with h(3) assms(3) have ge: "g = e" by simp
    from l' h(7) \<open>b = t\<close> fresh [OF h(1)] accepts_entry(2) [OF h(1)] assms(3)
    have new: "entries l' b = Some (e\<lparr>entryStatus := st\<rparr>)" by simp
    from h(4) ge have "tr = requestId (entryRequest e)" by (simp add: requestKey_def)
    with h(5,6) ge new op show ?thesis
      by (auto simp: exactIdentity_def same_target_iff)
  qed
qed

text \<open>
  An abort does reach it: when no request has the abort's key yet and the request it names is
  in the ledger with exactly the abort's identity, \<open>cancel\<close> accepts the abort and reports what
  became of the target by its status, cancelled if it was queued, asked to stop if it was running.
\<close>

theorem cancel_reaches_its_target:
  assumes "runtimeEpoch q = currentRuntimeEpoch l" and "operation q = Abort x tr why"
    and "oget (requests l) (requestKey q) = None" and "tr \<noteq> requestId q"
    and "oget (requests l) (scope_key (clientId q) (windowId q) (sessionId q) tr) = Some t"
    and "entries l t = Some e" and "t \<noteq> nextEntry l" and "exactIdentity e q x"
  shows "\<exists>l'. cancel q l = Some (l',
      case entryStatus e of
        Queued \<Rightarrow> CancelBeforeStart (nextEntry l) t
      | Running \<Rightarrow> CancelRequest (nextEntry l) t
      | CancelRequested \<Rightarrow> AlreadyCancelRequested (nextEntry l) t
      | _ \<Rightarrow> CancelTerminal (nextEntry l) t)
    \<and> map_option entryStatus (entries l' t) = Some (case entryStatus e of
        Queued \<Rightarrow> Cancelled | Running \<Rightarrow> CancelRequested | st \<Rightarrow> st)"
proof -
  from assms obtain l1 where beg: "begin_request q l = (l1, Accepted (nextEntry l))"
    and acc: "ledger_accepts q l (nextEntry l) l1"
    by (auto simp: begin_accepted ledger_accepts_def)
  have t: "oget (requests l1) (scope_key (clientId q) (windowId q) (sessionId q) tr) = Some t" "entries l1 t = Some e"
    using acc assms(4-7) by (auto simp: ledger_accepts_def requestKey_def)
  show ?thesis
    by (cases "entryStatus e") (simp_all add: assms(2,7,8) cancel_with_def beg t)
qed

text \<open>
  One request owns an execution identity: two entries the ledger answers for, of the same
  client, window and session and with the same execution identity, are the same entry.
\<close>

theorem execution_owner_unique:
  assumes "ledger_inv l"
    and "oget (requests l) (requestKey (entryRequest e)) = Some a" "entries l a = Some e"
    and "oget (requests l) (requestKey (entryRequest f)) = Some b" "entries l b = Some f"
    and "entryExecutionId e = Some x" "entryExecutionId f = Some x"
    and "clientId (entryRequest e) = clientId (entryRequest f)"
      "windowId (entryRequest e) = windowId (entryRequest f)"
      "sessionId (entryRequest e) = sessionId (entryRequest f)"
  shows "a = b"
proof -
  have "oget (executions l) (executionKey (entryRequest e) x) = Some a"
    by (rule ledger_inv_request [OF assms(1,2)]) (use assms(3,6) in auto)
  moreover have "oget (executions l) (executionKey (entryRequest f) x) = Some b"
    by (rule ledger_inv_request [OF assms(1,4)]) (use assms(5,7) in auto)
  moreover have "executionKey (entryRequest e) x = executionKey (entryRequest f) x"
    using assms(8-10) by (simp add: executionKey_def)
  ultimately show ?thesis by simp
qed

text \<open>
  The ledger is well formed from its creation on: every run of begins, starts, finishes, cancels,
  forgets and restarts keeps fingerprints canonical, request addresses live and of the current
  epoch, and the two indices of one entry in step.
\<close>

theorem ledger_well_formed:
  assumes "new_ledger ep = Inr l"
  shows "ledger_inv (fold ledger_step ops l)"
  by (rule ledger_machine.run_inv) (rule new_ledger_inv [OF assms])

subsection \<open>Concrete runs\<close>

definition sample_ledger :: ledger where
  "sample_ledger = \<lparr>currentRuntimeEpoch = ''epoch'', requests = [], executions = [],
     entries = (\<lambda>_. None), nextEntry = 0\<rparr>"

definition sample_request :: "string \<Rightarrow> operation \<Rightarrow> request_envelope" where
  "sample_request r p = \<lparr>protocolVersion = 1, runtimeEpoch = ''epoch'', clientId = ''client'', windowId = 7,
     trace = None, sessionId = ''session'', target = ChromeTab None (Some 3) None, requestId = r, operation = p\<rparr>"

definition sample_reference :: execution_reference where
  "sample_reference = \<lparr>refRuntimeEpoch = ''epoch'', refClientId = ''client'', refWindowId = 7,
     refSessionId = ''session'', refRequestId = ''r1'', refExecutionId = ''x1''\<rparr>"

lemmas sample_defs = sample_ledger_def sample_request_def sample_reference_def

lemma sample_new: "new_ledger ''epoch'' = Inr sample_ledger"
  by (simp add: new_ledger_def sample_ledger_def nonblank_def js_trim_def js_space_def)

lemma sample_inv: "ledger_inv sample_ledger"
  by (rule new_ledger_inv [OF sample_new])

definition sample_queued :: ledger where
  "sample_queued = fst (begin_request (sample_request ''r1'' (Prompt ''x1'' JNull)) sample_ledger)"

lemma sample_begin:
  "begin_request (sample_request ''r1'' (Prompt ''x1'' JNull)) sample_ledger = (sample_queued, Accepted 0)"
  by (simp add: sample_queued_def begin_request_def sample_defs)

lemma sample_queued_inv: "ledger_inv sample_queued"
  using begin_inv [OF sample_inv] by (simp add: sample_queued_def)

lemma sample_queued_simps:
  "requests sample_queued = [(scope_key ''client'' 7 ''session'' ''r1'', 0)]"
  "executions sample_queued = [(scope_key ''client'' 7 ''session'' ''x1'', 0)]"
  "currentRuntimeEpoch sample_queued = ''epoch''" "nextEntry sample_queued = 1"
  "entries sample_queued 0 = Some \<lparr>entryRequest = sample_request ''r1'' (Prompt ''x1'' JNull),
     fingerprint = canonicalEnvelope (sample_request ''r1'' (Prompt ''x1'' JNull)),
     entryExecutionId = Some ''x1'', entryExecutionKind = Some KPrompt, entryStatus = Queued\<rparr>"
  by (simp_all add: sample_queued_def begin_request_def sample_defs requestKey_def executionKey_def)

theorem replay_answered_once_witness:
  "begin_request (sample_request ''r1'' (Prompt ''x1'' JNull))
     (fold ledger_step [OpStarted sample_reference, OpForget ''other'' 7 ''session'' ''r1''] sample_queued)
   = (fold ledger_step [OpStarted sample_reference, OpForget ''other'' 7 ''session'' ''r1''] sample_queued, Duplicate 0)"
  using replay_answered_once [OF sample_inv sample_begin,
      of "[OpStarted sample_reference, OpForget ''other'' 7 ''session'' ''r1'']"
         "sample_request ''r1'' (Prompt ''x1'' JNull)"]
  by (simp add: requestKey_def sample_request_def del: fold_simps)

lemma sample_started:
  "markStarted sample_reference sample_queued = (set_status 0 Running sample_queued, Started 0)"
  by (simp add: markStarted_def sample_queued_simps entryMatchesReference_def sample_reference_def
      sample_request_def reference_key_def)

theorem execution_started_once_witness:
  "snd (markStarted sample_reference (fold ledger_step [OpCancel (sample_request ''r2'' (Abort ''x1'' ''r1'' None))]
     (set_status 0 Running sample_queued))) \<noteq> Started 0"
  by (rule execution_started_once [OF sample_queued_inv sample_started])

lemma sample_cancel:
  "\<exists>l. cancel (sample_request ''r2'' (Abort ''x1'' ''r1'' None)) sample_queued = Some (l, CancelBeforeStart 1 0)"
  by (simp add: cancel_with_def begin_request_def sample_queued_simps sample_request_def requestKey_def
      exactIdentity_def same_target_iff)

theorem cancelled_never_starts_witness:
  "\<exists>l. cancel (sample_request ''r2'' (Abort ''x1'' ''r1'' None)) sample_queued = Some (l, CancelBeforeStart 1 0)
     \<and> snd (markStarted sample_reference (fold ledger_step [OpStarted sample_reference] l)) \<noteq> Started 0"
  using sample_cancel cancelled_never_starts [OF sample_queued_inv] by blast

theorem finished_stays_finished_witness:
  "\<exists>l1 e. markTerminal sample_reference TFailed sample_queued = (l1, Finished 0)
     \<and> entries (fold ledger_step [OpTerminal sample_reference TSucceeded] l1) 0 = Some e \<and> entryStatus e = Failed"
proof -
  have "markTerminal sample_reference TFailed sample_queued = (set_status 0 Failed sample_queued, Finished 0)"
    by (simp add: markTerminal_def sample_queued_simps entryMatchesReference_def sample_reference_def
        sample_request_def reference_key_def)
  from this finished_stays_finished [OF sample_queued_inv this] show ?thesis by (metis of_terminal.simps(2))
qed

theorem cancel_reaches_only_its_target_witness:
  "\<exists>x why. operation (sample_request ''r2'' (Abort ''x1'' ''r1'' None)) = Abort x ''r1'' why"
proof -
  obtain l where l: "cancel (sample_request ''r2'' (Abort ''x1'' ''r1'' None)) sample_queued
      = Some (l, CancelBeforeStart 1 0)" using sample_cancel by blast
  have "map_option entryStatus (entries l 0) = Some Cancelled"
    using l by (auto simp: cancel_with_def begin_request_def sample_queued_simps sample_request_def requestKey_def
      exactIdentity_def same_target_iff)
  then have "entries l 0 \<noteq> entries sample_queued 0" by (auto simp: sample_queued_simps)
  from cancel_reaches_only_its_target [OF sample_queued_inv l sample_queued_simps(5) this [unfolded sample_queued_simps(5)]]
  show ?thesis by (auto simp: sample_request_def)
qed

theorem cancel_reaches_its_target_witness:
  "\<exists>l. cancel (sample_request ''r2'' (Abort ''x1'' ''r1'' None)) sample_queued = Some (l, CancelBeforeStart 1 0)"
  using cancel_reaches_its_target [of "sample_request ''r2'' (Abort ''x1'' ''r1'' None)" sample_queued "''x1''" "''r1''" None 0]
  by (auto simp: sample_queued_simps exactIdentity_def same_target_iff sample_request_def requestKey_def)

theorem execution_owner_unique_witness:
  "the (oget (requests sample_queued) (scope_key ''client'' 7 ''session'' ''r1'')) = 0"
proof -
  let ?e = "\<lparr>entryRequest = sample_request ''r1'' (Prompt ''x1'' JNull),
     fingerprint = canonicalEnvelope (sample_request ''r1'' (Prompt ''x1'' JNull)),
     entryExecutionId = Some ''x1'', entryExecutionKind = Some KPrompt, entryStatus = Queued\<rparr>"
  have k: "oget (requests sample_queued) (requestKey (entryRequest ?e)) = Some 0"
    by (simp add: sample_queued_simps requestKey_def sample_request_def)
  then have k': "oget (requests sample_queued) (requestKey (entryRequest ?e))
      = Some (the (oget (requests sample_queued) (scope_key ''client'' 7 ''session'' ''r1'')))"
    by (simp add: requestKey_def sample_request_def)
  with k have e: "entries sample_queued (the (oget (requests sample_queued) (scope_key ''client'' 7 ''session'' ''r1''))) = Some ?e"
    by (simp add: sample_queued_simps)
  show ?thesis
    by (rule execution_owner_unique [OF sample_queued_inv k' e k sample_queued_simps(5)]) simp_all
qed

theorem ledger_well_formed_witness:
  "ledger_inv (fold ledger_step [OpBegin (sample_request ''r1'' Load), OpRestart ''next''] sample_ledger)"
  by (rule ledger_well_formed [OF sample_new])

end
