(* ===== verification/RuntimeStream.thy ===== *)
theory RuntimeStream
  imports RuntimeLedger
begin

section \<open>The client's view of the runtime's streams\<close>

text \<open>
  The second half of \<open>packages/extension/src/agent/runtime-channel.ts\<close>: the correlation of a
  response with its request, and the reducer by which a client folds the runtime's stream
  envelopes into its channel state. \<open>reduceRuntimeStream\<close> is a pure function of the source; it
  returns the new state and an effect that says what the envelope was taken for.

  The source's records keyed by session and by execution are ordered maps here. Their key order is
  observed once, where the session identities of a restart are listed sorted.
\<close>

subsection \<open>Correlating responses\<close>

datatype mismatch = MProtocolVersion | MRuntimeEpoch | MClientId | MWindowId | MSessionId | MTarget
  | MRequestId | MOperation | MTrace

definition mismatch_when :: "bool \<Rightarrow> mismatch \<Rightarrow> mismatch list" where
  "mismatch_when b m = (if b then [m] else [])"

text \<open>The mismatches found; the source answers \<open>ok: true\<close> when there are none.\<close>

definition correlateRuntimeResponse :: "request_envelope \<Rightarrow> response_envelope \<Rightarrow> mismatch list" where
  "correlateRuntimeResponse q r =
     mismatch_when (protocolVersion r \<noteq> protocolVersion q) MProtocolVersion
     @ mismatch_when (runtimeEpoch r \<noteq> runtimeEpoch q) MRuntimeEpoch
     @ mismatch_when (clientId r \<noteq> clientId q) MClientId
     @ mismatch_when (windowId r \<noteq> windowId q) MWindowId
     @ mismatch_when (sessionId r \<noteq> sessionId q) MSessionId
     @ mismatch_when (\<not> same_target (target r) (target q)) MTarget
     @ mismatch_when (responseRequestId r \<noteq> requestId q) MRequestId
     @ mismatch_when (responseOperation r \<noteq> operation_type (operation q)) MOperation
     @ mismatch_when (\<not> sameTrace (trace r) (trace q)) MTrace"

subsection \<open>Channel state\<close>

record channel_session =
  chanSessionId :: string
  chanTarget :: target_identity
  chanRevision :: int
  lastEventSeq :: int
  needsResync :: bool
  chanSnapshot :: "session_snapshot option"
  lastAgentEvent :: "jval option"
  chanExecutions :: "(string, execution_descriptor) omap"
  lastTrace :: "trace_context option"
  lastEventFingerprint :: "string option"

record channel =
  chanClientId :: string
  chanWindowId :: int
  chanRuntimeEpoch :: "string option"
  sessions :: "(string, channel_session) omap"

datatype channel_effect =
    EHello recovery_mode string
  | ERuntimeRestarted string string "string list"
  | EIgnoredScope
  | EHelloRequired
  | EStaleEpoch string string
  | ETargetMismatch string
  | EDuplicate string int
  | ESequenceConflict string int
  | EStaleSequence string int
  | ESequenceGap string int int int
  | ERevisionRegression string int int
  | EResyncPending string
  | EResyncRequired string string
  | ESnapshotApplied string
  | EResynced string
  | EEventApplied string

definition createRuntimeChannelState :: "string \<Rightarrow> int \<Rightarrow> string + channel" where
  "createRuntimeChannelState c w =
     (if \<not> nonblank c then Inl ''clientId must be non-empty''
      else if w < 0 then Inl ''windowId must be a non-negative integer''
      else Inr \<lparr>chanClientId = c, chanWindowId = w, chanRuntimeEpoch = None, sessions = []\<rparr>)"

definition emptySessionState :: "string \<Rightarrow> target_identity \<Rightarrow> int \<Rightarrow> bool \<Rightarrow> channel_session" where
  "emptySessionState s t r n =
     \<lparr>chanSessionId = s, chanTarget = t, chanRevision = r, lastEventSeq = 0, needsResync = n,
      chanSnapshot = None, lastAgentEvent = None, chanExecutions = [], lastTrace = None,
      lastEventFingerprint = None\<rparr>"

definition scopeMatches :: "channel \<Rightarrow> 'a envelope_base_scheme \<Rightarrow> bool" where
  "scopeMatches st e \<longleftrightarrow> clientId e = chanClientId st \<and> windowId e = chanWindowId st"

text \<open>\<open>a ?? b\<close>.\<close>

definition orElse :: "'a option \<Rightarrow> 'a option \<Rightarrow> 'a option" where
  "orElse a b = (case a of None \<Rightarrow> b | Some x \<Rightarrow> Some x)"

subsection \<open>Hello\<close>

text \<open>One recovery cursor, when the epoch is the known one and when it is new.\<close>

definition hello_same_cursor ::
  "recovery_cursor \<Rightarrow> (string, channel_session) omap \<Rightarrow> (string, channel_session) omap" where
  "hello_same_cursor c m =
     (case oget m (cursorSessionId c) of
        None \<Rightarrow> oset (cursorSessionId c) (emptySessionState (cursorSessionId c) (cursorTarget c) 0 True) m
      | Some p \<Rightarrow>
          if \<not> same_target (chanTarget p) (cursorTarget c) \<or> chanRevision p \<noteq> cursorRevision c
             \<or> lastEventSeq p \<noteq> cursorEventSeq c
          then oset (cursorSessionId c) (p\<lparr>needsResync := True\<rparr>) m else m)"

definition hello_new_cursor ::
  "recovery_cursor \<Rightarrow> (string, channel_session) omap \<Rightarrow> (string, channel_session) omap" where
  "hello_new_cursor c m =
     oset (cursorSessionId c)
       (case oget m (cursorSessionId c) of
          Some p \<Rightarrow> p\<lparr>chanTarget := cursorTarget c, needsResync := True\<rparr>
        | None \<Rightarrow> emptySessionState (cursorSessionId c) (cursorTarget c) (cursorRevision c) True) m"

definition reset_session :: "channel_session \<Rightarrow> channel_session" where
  "reset_session p = p\<lparr>lastEventSeq := 0, needsResync := True, lastEventFingerprint := None\<rparr>"

definition reduceHello :: "channel \<Rightarrow> hello_envelope \<Rightarrow> channel \<times> channel_effect" where
  "reduceHello st h =
     (if \<not> scopeMatches st h then (st, EIgnoredScope)
      else if chanRuntimeEpoch st = Some (runtimeEpoch h) then
        (st\<lparr>sessions := fold hello_same_cursor (recoverySessions h) (sessions st)\<rparr>,
         EHello (recoveryMode h) (runtimeEpoch h))
      else
        let reset = fold (\<lambda>p m. oset (chanSessionId p) (reset_session p) m) (ovals (sessions st)) [];
            sess = fold hello_new_cursor (recoverySessions h) reset;
            st' = st\<lparr>chanRuntimeEpoch := Some (runtimeEpoch h), sessions := sess\<rparr> in
        (st', case chanRuntimeEpoch st of
            Some previous \<Rightarrow> ERuntimeRestarted previous (runtimeEpoch h) (sort (okeys sess))
          | None \<Rightarrow> EHello (recoveryMode h) (runtimeEpoch h)))"

subsection \<open>Session streams\<close>

definition withSession :: "channel \<Rightarrow> channel_session \<Rightarrow> channel" where
  "withSession st s = st\<lparr>sessions := oset (chanSessionId s) s (sessions st)\<rparr>"

definition executionsFromSnapshot :: "session_snapshot \<Rightarrow> (string, execution_descriptor) omap" where
  "executionsFromSnapshot s = fold (\<lambda>x. oset (executionId x) x) (activeExecutions s) []"

definition markNeedsResync :: "channel \<Rightarrow> channel_session \<Rightarrow> trace_context option \<Rightarrow> channel" where
  "markNeedsResync st s t = withSession st (s\<lparr>needsResync := True, lastTrace := orElse t (lastTrace s)\<rparr>)"

definition stream_fingerprint :: "session_stream \<Rightarrow> string" where
  "stream_fingerprint e = canonicalRuntimeValue (session_stream_json e)"

definition snapshot_session :: "session_stream \<Rightarrow> session_snapshot \<Rightarrow> channel_session option \<Rightarrow> channel_session" where
  "snapshot_session e snap previous =
     \<lparr>chanSessionId = sessionId e, chanTarget = target e, chanRevision = revision e,
      lastEventSeq = eventSeq e, needsResync = False, chanSnapshot = Some snap, lastAgentEvent = None,
      chanExecutions = executionsFromSnapshot snap,
      lastTrace = orElse (trace e) (Option.bind previous lastTrace),
      lastEventFingerprint = Some (stream_fingerprint e)\<rparr>"

definition applySnapshot :: "channel \<Rightarrow> session_stream \<Rightarrow> session_snapshot \<Rightarrow> channel \<times> channel_effect" where
  "applySnapshot st e snap =
     (let apply = \<lambda>previous effect. (withSession st (snapshot_session e snap previous), effect) in
      case oget (sessions st) (sessionId e) of
        None \<Rightarrow> apply None (ESnapshotApplied (sessionId e))
      | Some p \<Rightarrow>
          if \<not> same_target (chanTarget p) (target e)
          then (markNeedsResync st p (trace e), ETargetMismatch (sessionId e))
          else if \<not> needsResync p \<and> eventSeq e = lastEventSeq p then
            (if lastEventFingerprint p = Some (stream_fingerprint e)
             then (st, EDuplicate (sessionId e) (eventSeq e))
             else (markNeedsResync st p (trace e), ESequenceConflict (sessionId e) (eventSeq e)))
          else if eventSeq e < lastEventSeq p then (st, EStaleSequence (sessionId e) (eventSeq e))
          else if revision e < chanRevision p
          then (markNeedsResync st p (trace e), ERevisionRegression (sessionId e) (chanRevision p) (revision e))
          else apply (Some p) (if needsResync p then EResynced (sessionId e) else ESnapshotApplied (sessionId e)))"

definition event_session :: "session_stream \<Rightarrow> channel_session \<Rightarrow> channel_session" where
  "event_session e s =
     (let next = s\<lparr>chanRevision := revision e, lastEventSeq := eventSeq e,
         lastTrace := orElse (trace e) (lastTrace s), lastEventFingerprint := Some (stream_fingerprint e)\<rparr> in
      case payload e of
        AgentEventPayload v \<Rightarrow> next\<lparr>lastAgentEvent := Some v\<rparr>
      | ExecutionPayload x \<Rightarrow> next\<lparr>chanExecutions := oset (executionId x) x (chanExecutions s)\<rparr>
      | _ \<Rightarrow> next)"

definition applyEvent :: "channel \<Rightarrow> session_stream \<Rightarrow> channel \<times> channel_effect" where
  "applyEvent st e =
     (let s = (case oget (sessions st) (sessionId e) of
                 Some s \<Rightarrow> s | None \<Rightarrow> emptySessionState (sessionId e) (target e) 0 False) in
      if \<not> same_target (chanTarget s) (target e)
      then (markNeedsResync st s (trace e), ETargetMismatch (sessionId e))
      else if needsResync s then (st, EResyncPending (sessionId e))
      else if eventSeq e = lastEventSeq s then
        (if lastEventFingerprint s = Some (stream_fingerprint e)
         then (st, EDuplicate (sessionId e) (eventSeq e))
         else (markNeedsResync st s (trace e), ESequenceConflict (sessionId e) (eventSeq e)))
      else if eventSeq e < lastEventSeq s then (st, EStaleSequence (sessionId e) (eventSeq e))
      else if eventSeq e \<noteq> lastEventSeq s + 1
      then (markNeedsResync st s (trace e),
            ESequenceGap (sessionId e) (lastEventSeq s + 1) (eventSeq e) (chanRevision s))
      else if revision e < chanRevision s
      then (markNeedsResync st s (trace e), ERevisionRegression (sessionId e) (chanRevision s) (revision e))
      else case payload e of
        ResyncRequiredPayload r _ _ \<Rightarrow>
          (markNeedsResync st s (trace e), EResyncRequired (sessionId e) r)
      | _ \<Rightarrow> (withSession st (event_session e s), EEventApplied (sessionId e)))"

definition reduceSessionStream :: "channel \<Rightarrow> session_stream \<Rightarrow> channel \<times> channel_effect" where
  "reduceSessionStream st e =
     (if \<not> scopeMatches st e then (st, EIgnoredScope)
      else case chanRuntimeEpoch st of
        None \<Rightarrow> (st, EHelloRequired)
      | Some ep \<Rightarrow>
          if ep = [] then (st, EHelloRequired)
          else if runtimeEpoch e \<noteq> ep then (st, EStaleEpoch ep (runtimeEpoch e))
          else (case payload e of
              SnapshotPayload snap \<Rightarrow> applySnapshot st e snap
            | _ \<Rightarrow> applyEvent st e))"

fun reduceRuntimeStream :: "channel \<Rightarrow> stream_envelope \<Rightarrow> channel \<times> channel_effect" where
  "reduceRuntimeStream st (Hello h) = reduceHello st h"
| "reduceRuntimeStream st (SessionStream e) = reduceSessionStream st e"

subsection \<open>Asking for a resync\<close>

definition createRuntimeResyncRequest ::
  "channel \<Rightarrow> string \<Rightarrow> string \<Rightarrow> string option \<Rightarrow> trace_context option \<Rightarrow> string + request_envelope" where
  "createRuntimeResyncRequest st sid rid why tr =
     (case chanRuntimeEpoch st of
        None \<Rightarrow> Inl ''Cannot resync before a runtime hello''
      | Some ep \<Rightarrow>
          if ep = [] then Inl ''Cannot resync before a runtime hello''
          else case oget (sessions st) sid of
            None \<Rightarrow> Inl (''Cannot resync unknown session '' @ [CHR 0x27] @ sid @ [CHR 0x27])
          | Some s \<Rightarrow>
              if \<not> nonblank rid then Inl ''requestId must be non-empty''
              else Inr \<lparr>protocolVersion = RUNTIME_PROTOCOL_VERSION, runtimeEpoch = ep,
                clientId = chanClientId st, windowId = chanWindowId st,
                trace = orElse tr (lastTrace s), sessionId = chanSessionId s, target = chanTarget s,
                requestId = rid,
                operation = Resync (chanRevision s) (lastEventSeq s) (case why of None \<Rightarrow> ''explicit'' | Some r \<Rightarrow> r)\<rparr>)"

subsection \<open>The shape of a reduction\<close>

definition in_scope :: "channel \<Rightarrow> session_stream \<Rightarrow> bool" where
  "in_scope st e \<longleftrightarrow> scopeMatches st e \<and> runtimeEpoch e \<noteq> [] \<and> chanRuntimeEpoch st = Some (runtimeEpoch e)"

definition session_for :: "channel \<Rightarrow> session_stream \<Rightarrow> channel_session" where
  "session_for st e = (case oget (sessions st) (sessionId e) of
     Some s \<Rightarrow> s | None \<Rightarrow> emptySessionState (sessionId e) (target e) 0 False)"

fun is_event :: "stream_payload \<Rightarrow> bool" where
  "is_event (AgentEventPayload _) = True"
| "is_event (ExecutionPayload _) = True"
| "is_event _ = False"

fun is_snapshot :: "stream_payload \<Rightarrow> bool" where
  "is_snapshot (SnapshotPayload _) = True"
| "is_snapshot _ = False"

text \<open>The effects of an envelope that was applied, and of one that flagged its session.\<close>

fun effect_applied :: "channel_effect \<Rightarrow> bool" where
  "effect_applied (EEventApplied _) = True"
| "effect_applied (ESnapshotApplied _) = True"
| "effect_applied (EResynced _) = True"
| "effect_applied _ = False"

fun effect_event :: "channel_effect \<Rightarrow> bool" where
  "effect_event (EEventApplied _) = True"
| "effect_event _ = False"

fun effect_flags :: "channel_effect \<Rightarrow> bool" where
  "effect_flags (ETargetMismatch _) = True"
| "effect_flags (ESequenceConflict _ _) = True"
| "effect_flags (ESequenceGap _ _ _ _) = True"
| "effect_flags (ERevisionRegression _ _ _) = True"
| "effect_flags (EResyncRequired _ _) = True"
| "effect_flags _ = False"

text \<open>When a snapshot or an event is applied.\<close>

definition snapshot_applies :: "channel \<Rightarrow> session_stream \<Rightarrow> bool" where
  "snapshot_applies st e \<longleftrightarrow> in_scope st e \<and>
     (\<forall>p. oget (sessions st) (sessionId e) = Some p \<longrightarrow>
        chanTarget p = target e \<and> chanRevision p \<le> revision e
        \<and> (if needsResync p then lastEventSeq p \<le> eventSeq e else lastEventSeq p < eventSeq e))"

definition event_applies :: "channel \<Rightarrow> session_stream \<Rightarrow> bool" where
  "event_applies st e \<longleftrightarrow> in_scope st e \<and> is_event (payload e)
     \<and> chanTarget (session_for st e) = target e \<and> \<not> needsResync (session_for st e)
     \<and> eventSeq e = lastEventSeq (session_for st e) + 1 \<and> chanRevision (session_for st e) \<le> revision e"

lemma reduce_cases:
  obtains (kept) r where "reduceSessionStream st e = (st, r)" "\<not> effect_applied r" "\<not> effect_flags r"
  | (flagged) r where "reduceSessionStream st e = (markNeedsResync st (session_for st e) (trace e), r)"
      "effect_flags r" "in_scope st e"
      "is_snapshot (payload e) \<Longrightarrow> oget (sessions st) (sessionId e) \<noteq> None"
  | (snapshot) snap r where "payload e = SnapshotPayload snap" "snapshot_applies st e"
      "reduceSessionStream st e =
         (withSession st (snapshot_session e snap (oget (sessions st) (sessionId e))), r)"
      "r = (if \<exists>p. oget (sessions st) (sessionId e) = Some p \<and> needsResync p
            then EResynced (sessionId e) else ESnapshotApplied (sessionId e))"
  | (event) "event_applies st e"
      "reduceSessionStream st e = (withSession st (event_session e (session_for st e)), EEventApplied (sessionId e))"
proof (cases "in_scope st e")
  case False
  then show ?thesis
    by (intro kept [of "snd (reduceSessionStream st e)"])
      (auto simp: reduceSessionStream_def in_scope_def split: option.splits)
next
  case True
  then have red: "reduceSessionStream st e =
      (case payload e of SnapshotPayload snap \<Rightarrow> applySnapshot st e snap | _ \<Rightarrow> applyEvent st e)"
    by (simp add: reduceSessionStream_def in_scope_def)
  show ?thesis
  proof (cases "is_snapshot (payload e)")
    case snap: True
    then obtain sn where sn: "payload e = SnapshotPayload sn" by (cases "payload e") auto
    show ?thesis
    proof (cases "oget (sessions st) (sessionId e)")
      case None
      show ?thesis
        by (rule snapshot [OF sn]) (use True red sn None in \<open>simp_all add: snapshot_applies_def applySnapshot_def\<close>)
    next
      case (Some p)
      note red' = red [unfolded sn stream_payload.case applySnapshot_def Let_def Some option.case same_target_iff]
      have sf: "session_for st e = p" using Some by (simp add: session_for_def)
      show ?thesis
        by (cases "chanTarget p = target e"; cases "needsResync p"; cases "eventSeq e = lastEventSeq p";
            cases "eventSeq e < lastEventSeq p"; cases "revision e < chanRevision p";
            cases "lastEventFingerprint p = Some (stream_fingerprint e)")
          (use red' True Some sn sf in \<open>auto intro: kept flagged snapshot simp: snapshot_applies_def\<close>)
    qed
  next
    case False
    then have red': "reduceSessionStream st e = applyEvent st e" using red by (cases "payload e") auto
    note red'' = red' [unfolded applyEvent_def Let_def session_for_def [symmetric] same_target_iff]
    let ?s = "session_for st e"
    show ?thesis
      by (cases "chanTarget ?s = target e"; cases "needsResync ?s"; cases "eventSeq e = lastEventSeq ?s";
          cases "eventSeq e < lastEventSeq ?s"; cases "eventSeq e = lastEventSeq ?s + 1";
          cases "revision e < chanRevision ?s";
          cases "lastEventFingerprint ?s = Some (stream_fingerprint e)"; cases "payload e")
        (use red'' True False in \<open>auto intro: kept flagged event simp: event_applies_def\<close>)
  qed
qed

subsection \<open>The channel as a machine\<close>

text \<open>
  Every session is filed under its identity, and one that is not waiting for a resync has taken
  at least one envelope.
\<close>

definition channel_inv :: "channel \<Rightarrow> bool" where
  "channel_inv st \<longleftrightarrow> omap_wf (sessions st) \<and> (\<forall>k s. oget (sessions st) k = Some s \<longrightarrow>
     chanSessionId s = k \<and> (needsResync s \<or> lastEventFingerprint s \<noteq> None))"

text \<open>Within one runtime epoch a session's revision and sequence number never go back.\<close>

definition session_le :: "channel_session \<Rightarrow> channel_session \<Rightarrow> bool" where
  "session_le s t \<longleftrightarrow> chanRevision s \<le> chanRevision t \<and> lastEventSeq s \<le> lastEventSeq t"

definition channel_le :: "channel \<Rightarrow> channel \<Rightarrow> bool" where
  "channel_le st su \<longleftrightarrow> chanRuntimeEpoch su = chanRuntimeEpoch st
     \<and> chanClientId su = chanClientId st \<and> chanWindowId su = chanWindowId st
     \<and> (\<forall>k s. oget (sessions st) k = Some s \<longrightarrow> (\<exists>t. oget (sessions su) k = Some t \<and> session_le s t))"

text \<open>An envelope that does not start another epoch: any session stream, or a hello of the known one.\<close>

fun keeps_epoch :: "string option \<Rightarrow> stream_envelope \<Rightarrow> bool" where
  "keeps_epoch ep (Hello h) = (ep = Some (runtimeEpoch h))"
| "keeps_epoch ep (SessionStream e) = True"

definition channel_step :: "stream_envelope \<Rightarrow> channel \<Rightarrow> channel" where
  "channel_step e st = fst (reduceRuntimeStream st e)"

definition epoch_step :: "stream_envelope \<Rightarrow> channel \<Rightarrow> channel" where
  "epoch_step e st = (if keeps_epoch (chanRuntimeEpoch st) e then channel_step e st else st)"

lemma channel_invD:
  "channel_inv st \<Longrightarrow> oget (sessions st) k = Some s \<Longrightarrow> chanSessionId s = k"
  "channel_inv st \<Longrightarrow> oget (sessions st) k = Some s \<Longrightarrow> \<not> needsResync s \<Longrightarrow> lastEventFingerprint s \<noteq> None"
  by (auto simp: channel_inv_def)

lemma event_session_simps [simp]:
  "chanSessionId (event_session e s) = chanSessionId s" "chanTarget (event_session e s) = chanTarget s"
  "chanRevision (event_session e s) = revision e" "lastEventSeq (event_session e s) = eventSeq e"
  "needsResync (event_session e s) = needsResync s" "chanSnapshot (event_session e s) = chanSnapshot s"
  "lastEventFingerprint (event_session e s) = Some (stream_fingerprint e)"
  "lastTrace (event_session e s) = orElse (trace e) (lastTrace s)"
  by (simp_all add: event_session_def Let_def split: stream_payload.split)

lemma snapshot_session_simps [simp]:
  "chanSessionId (snapshot_session e sn p) = sessionId e" "chanTarget (snapshot_session e sn p) = target e"
  "chanRevision (snapshot_session e sn p) = revision e" "lastEventSeq (snapshot_session e sn p) = eventSeq e"
  "needsResync (snapshot_session e sn p) = False" "chanSnapshot (snapshot_session e sn p) = Some sn"
  "lastEventFingerprint (snapshot_session e sn p) = Some (stream_fingerprint e)"
  "lastTrace (snapshot_session e sn p) = orElse (trace e) (Option.bind p lastTrace)"
  by (simp_all add: snapshot_session_def)

lemma withSession_simps [simp]:
  "chanClientId (withSession st s) = chanClientId st" "chanWindowId (withSession st s) = chanWindowId st"
  "chanRuntimeEpoch (withSession st s) = chanRuntimeEpoch st"
  "oget (sessions (withSession st s)) k = (if k = chanSessionId s then Some s else oget (sessions st) k)"
  by (simp_all add: withSession_def)

lemma markNeedsResync_simps [simp]:
  "chanClientId (markNeedsResync st s t) = chanClientId st" "chanWindowId (markNeedsResync st s t) = chanWindowId st"
  "chanRuntimeEpoch (markNeedsResync st s t) = chanRuntimeEpoch st"
  "oget (sessions (markNeedsResync st s t)) k =
     (if k = chanSessionId s then Some (s\<lparr>needsResync := True, lastTrace := orElse t (lastTrace s)\<rparr>)
      else oget (sessions st) k)"
  by (simp_all add: markNeedsResync_def)

lemma session_for_id: "channel_inv st \<Longrightarrow> chanSessionId (session_for st e) = sessionId e"
  by (auto simp: session_for_def emptySessionState_def channel_invD split: option.split)

lemma session_for_Some: "oget (sessions st) (sessionId e) = Some s \<Longrightarrow> session_for st e = s"
  by (simp add: session_for_def)

lemma mark_wf [simp]:
  "omap_wf (sessions st) \<Longrightarrow> omap_wf (sessions (withSession st s))"
  "omap_wf (sessions st) \<Longrightarrow> omap_wf (sessions (markNeedsResync st s t))"
  by (simp_all add: withSession_def markNeedsResync_def)

lemma stream_inv: "channel_inv st \<Longrightarrow> channel_inv (fst (reduceSessionStream st e))"
  by (rule reduce_cases [of st e])
    (auto simp: channel_inv_def session_for_id [unfolded channel_inv_def])

abbreviation filed :: "string \<Rightarrow> channel_session \<Rightarrow> bool" where
  "filed k s \<equiv> chanSessionId s = k \<and> (needsResync s \<or> lastEventFingerprint s \<noteq> None)"

abbreviation waiting :: "string \<Rightarrow> channel_session \<Rightarrow> bool" where
  "waiting k s \<equiv> chanSessionId s = k \<and> needsResync s \<and> lastEventSeq s = 0"

lemma channel_inv_okeep: "channel_inv st \<longleftrightarrow> omap_wf (sessions st) \<and> okeep filed (sessions st)"
  by (simp add: channel_inv_def okeep_def)

lemma hello_same_inv:
  assumes "okeep filed m"
  shows "okeep filed (hello_same_cursor c m)"
proof (cases "oget m (cursorSessionId c)")
  case None
  with assms show ?thesis by (simp add: hello_same_cursor_def okeep_set emptySessionState_def)
next
  case (Some p)
  with okeep_get [OF assms Some] assms show ?thesis by (simp add: hello_same_cursor_def okeep_set)
qed

lemma hello_new_inv:
  assumes "okeep waiting m"
  shows "okeep waiting (hello_new_cursor c m)"
proof (cases "oget m (cursorSessionId c)")
  case None
  with assms show ?thesis by (simp add: hello_new_cursor_def okeep_set emptySessionState_def)
next
  case (Some p)
  with okeep_get [OF assms Some] assms show ?thesis by (simp add: hello_new_cursor_def okeep_set)
qed

lemma hello_cursor_wf [simp]:
  "omap_wf m \<Longrightarrow> omap_wf (hello_same_cursor c m)" "omap_wf m \<Longrightarrow> omap_wf (hello_new_cursor c m)"
  by (simp_all add: hello_same_cursor_def hello_new_cursor_def split: option.split)

lemma hello_wf: "omap_wf (sessions st) \<Longrightarrow> omap_wf (sessions (fst (reduceHello st h)))"
  by (simp add: reduceHello_def Let_def omap_wf_fold)

lemma hello_reset_inv: "okeep waiting m \<Longrightarrow> okeep waiting (oset (chanSessionId p) (reset_session p) m)"
  by (rule okeep_set) (simp_all add: reset_session_def)

text \<open>A hello of another epoch leaves every session waiting for a resync, its sequence restarted.\<close>

lemma hello_new_waiting:
  "scopeMatches st h \<Longrightarrow> chanRuntimeEpoch st \<noteq> Some (runtimeEpoch h) \<Longrightarrow>
     okeep waiting (sessions (fst (reduceHello st h)))"
  by (simp add: reduceHello_def Let_def okeep_fold hello_new_inv hello_reset_inv)

lemma hello_inv: "channel_inv st \<Longrightarrow> channel_inv (fst (reduceHello st h))"
proof -
  assume inv: "channel_inv st"
  consider "\<not> scopeMatches st h" | "scopeMatches st h" "chanRuntimeEpoch st = Some (runtimeEpoch h)"
    | "scopeMatches st h" "chanRuntimeEpoch st \<noteq> Some (runtimeEpoch h)" by blast
  then show ?thesis
  proof cases
    case 1
    with inv show ?thesis by (simp add: reduceHello_def)
  next
    case 2
    from inv have "okeep filed (fold hello_same_cursor (recoverySessions h) (sessions st))"
      unfolding channel_inv_okeep by (elim conjE) (intro okeep_fold hello_same_inv)
    with 2 inv hello_wf [of st h] show ?thesis by (simp add: reduceHello_def channel_inv_okeep)
  next
    case 3
    have "okeep filed (sessions (fst (reduceHello st h)))"
      by (rule okeep_mono [OF hello_new_waiting [OF 3]]) simp
    with inv hello_wf [of st h] show ?thesis by (simp add: channel_inv_okeep)
  qed
qed

lemma channel_step_inv: "channel_inv st \<Longrightarrow> channel_inv (channel_step e st)"
  by (cases e) (simp_all add: channel_step_def stream_inv hello_inv)

lemma session_le_refl [simp]: "session_le s s"
  by (simp add: session_le_def)

lemma channel_le_refl [simp]: "channel_le st st"
  by (auto simp: channel_le_def)

lemma channel_le_trans: "channel_le s t \<Longrightarrow> channel_le t u \<Longrightarrow> channel_le s u"
  by (fastforce simp: channel_le_def session_le_def)

lemma stream_le:
  assumes inv: "channel_inv st"
  shows "channel_le st (fst (reduceSessionStream st e))"
proof (rule reduce_cases [of st e])
  assume "event_applies st e"
    and red: "reduceSessionStream st e = (withSession st (event_session e (session_for st e)), EEventApplied (sessionId e))"
  then show ?thesis
    by (auto simp: channel_le_def event_applies_def session_for_id [OF inv] session_le_def session_for_Some)
next
  fix snap r assume "snapshot_applies st e"
    and "reduceSessionStream st e = (withSession st (snapshot_session e snap (oget (sessions st) (sessionId e))), r)"
  then show ?thesis
    by (auto simp: channel_le_def snapshot_applies_def session_le_def split: if_splits)
next
  fix r assume "reduceSessionStream st e = (markNeedsResync st (session_for st e) (trace e), r)"
  then show ?thesis
    by (auto simp: channel_le_def session_for_id [OF inv] session_le_def session_for_Some)
qed simp

lemma hello_same_le:
  assumes "oget m k = Some s"
  shows "\<exists>t. oget (fold hello_same_cursor cs m) k = Some t \<and> session_le s t"
  using assms
proof (induction cs arbitrary: m s)
  case (Cons c cs)
  have "\<exists>t. oget (hello_same_cursor c m) k = Some t \<and> session_le s t"
    using Cons.prems by (auto simp: hello_same_cursor_def session_le_def split: option.split)
  then obtain t where t: "oget (hello_same_cursor c m) k = Some t" "session_le s t" by blast
  from Cons.IH [OF t(1)] t(2) show ?case by (auto simp: session_le_def)
qed auto

lemma hello_le: "chanRuntimeEpoch st = Some (runtimeEpoch h) \<Longrightarrow> channel_le st (fst (reduceHello st h))"
  by (auto simp: reduceHello_def channel_le_def hello_same_le)

lemma epoch_step_le: "channel_inv st \<Longrightarrow> channel_le st (epoch_step e st)"
  by (cases e) (simp_all add: epoch_step_def channel_step_def stream_le hello_le)

interpretation channel_machine: monotone_machine epoch_step channel_inv channel_le
  by unfold_locales
    (auto simp: epoch_step_le intro: channel_le_trans, simp add: epoch_step_def channel_step_inv)

interpretation channel_reducer: invariant_machine channel_step channel_inv
  by unfold_locales (rule channel_step_inv)

subsection \<open>Correlation, application and recovery\<close>

text \<open>
  A response correlates with a request exactly when it repeats the request's version, epoch,
  client, window, session, target, request identity, operation type and trace context; what does
  not match is listed.
\<close>

theorem correlates_exactly:
  "correlateRuntimeResponse q r = [] \<longleftrightarrow>
     protocolVersion r = protocolVersion q \<and> runtimeEpoch r = runtimeEpoch q \<and> clientId r = clientId q
     \<and> windowId r = windowId q \<and> sessionId r = sessionId q \<and> target r = target q
     \<and> responseRequestId r = requestId q \<and> responseOperation r = operation_type (operation q)
     \<and> trace r = trace q"
  by (auto simp: correlateRuntimeResponse_def mismatch_when_def same_target_iff sameTrace_iff)

lemma applied_iff:
  "effect_applied (snd (reduceSessionStream st e)) \<longleftrightarrow>
     (is_snapshot (payload e) \<and> snapshot_applies st e \<or> event_applies st e)"
proof (rule reduce_cases [of st e])
  have ev: "\<not> is_snapshot (payload e)" if "event_applies st e"
    using that by (cases "payload e") (auto simp: event_applies_def)
  { fix r assume "reduceSessionStream st e = (markNeedsResync st (session_for st e) (trace e), r)"
      "effect_flags r" "in_scope st e" "is_snapshot (payload e) \<Longrightarrow> oget (sessions st) (sessionId e) \<noteq> None"
    then show ?thesis
      by (cases "payload e"; cases "oget (sessions st) (sessionId e)")
        (auto simp: reduceSessionStream_def in_scope_def applySnapshot_def applyEvent_def Let_def snapshot_applies_def
          event_applies_def session_for_def same_target_iff split: if_splits) }
  { fix r assume "reduceSessionStream st e = (st, r)" "\<not> effect_applied r" "\<not> effect_flags r"
    then show ?thesis
      by (cases "payload e"; cases "oget (sessions st) (sessionId e)")
        (auto simp: reduceSessionStream_def in_scope_def applySnapshot_def applyEvent_def Let_def snapshot_applies_def
          event_applies_def session_for_def same_target_iff split: if_splits) }
qed (auto split: if_splits)

text \<open>
  C19. A session envelope is applied exactly when the scope and epoch are the channel's and, for a
  snapshot, the target is the session's, its revision not lower and its sequence number not lower
  (higher when the session is in sync); for an event, the session is in sync, has the event's
  target, the event carries the next sequence number and the revision does not go back. The
  session then is the snapshot's state, or the previous one advanced by the event.
\<close>

theorem applied_exactly:
  assumes "channel_inv st"
  shows "(effect_applied (snd (reduceSessionStream st e)) \<longleftrightarrow>
      (is_snapshot (payload e) \<and> snapshot_applies st e \<or> event_applies st e))
    \<and> oget (sessions (fst (reduceSessionStream st e))) (sessionId e) =
       (if effect_applied (snd (reduceSessionStream st e))
        then Some (case payload e of
            SnapshotPayload sn \<Rightarrow> snapshot_session e sn (oget (sessions st) (sessionId e))
          | _ \<Rightarrow> event_session e (session_for st e))
        else if effect_flags (snd (reduceSessionStream st e))
        then Some ((session_for st e)\<lparr>needsResync := True,
               lastTrace := orElse (trace e) (lastTrace (session_for st e))\<rparr>)
        else oget (sessions st) (sessionId e))"
proof
  show "effect_applied (snd (reduceSessionStream st e)) \<longleftrightarrow>
      (is_snapshot (payload e) \<and> snapshot_applies st e \<or> event_applies st e)"
    by (rule applied_iff)
  have flags: "effect_flags r \<Longrightarrow> \<not> effect_applied r" for r by (cases r) simp_all
  show "oget (sessions (fst (reduceSessionStream st e))) (sessionId e) =
       (if effect_applied (snd (reduceSessionStream st e))
        then Some (case payload e of
            SnapshotPayload sn \<Rightarrow> snapshot_session e sn (oget (sessions st) (sessionId e))
          | _ \<Rightarrow> event_session e (session_for st e))
        else if effect_flags (snd (reduceSessionStream st e))
        then Some ((session_for st e)\<lparr>needsResync := True,
               lastTrace := orElse (trace e) (lastTrace (session_for st e))\<rparr>)
        else oget (sessions st) (sessionId e))"
  proof (rule reduce_cases [of st e])
    assume "event_applies st e"
      and red: "reduceSessionStream st e = (withSession st (event_session e (session_for st e)), EEventApplied (sessionId e))"
    then show ?thesis
      by (cases "payload e") (simp_all add: session_for_id [OF assms] event_applies_def)
  qed (auto simp: session_for_id [OF assms] flags)
qed

text \<open>
  A session envelope concerns its session only: every other session, the epoch and the
  channel's own identity stay as they were.
\<close>

theorem stream_isolated:
  assumes "channel_inv st" and "k \<noteq> sessionId e"
  shows "oget (sessions (fst (reduceSessionStream st e))) k = oget (sessions st) k
    \<and> chanRuntimeEpoch (fst (reduceSessionStream st e)) = chanRuntimeEpoch st
    \<and> scopeMatches (fst (reduceSessionStream st e)) e = scopeMatches st e"
  by (rule reduce_cases [of st e]) (simp_all add: session_for_id [OF assms(1)] assms(2) scopeMatches_def)

text \<open>
  Delivery may repeat an envelope: an envelope that was applied is, when it arrives again next,
  recognised as a duplicate and changes nothing.
\<close>

theorem redelivery_is_duplicate:
  assumes "channel_inv st" and "reduceSessionStream st e = (st', r)" and "effect_applied r"
  shows "reduceSessionStream st' e = (st', EDuplicate (sessionId e) (eventSeq e))"
proof (rule reduce_cases [of st e])
  fix r assume "reduceSessionStream st e = (st, r)" "\<not> effect_applied r"
  with assms show ?thesis by simp
next
  fix r' assume "reduceSessionStream st e = (markNeedsResync st (session_for st e) (trace e), r')" "effect_flags r'"
  with assms show ?thesis by (cases r') auto
next
  fix snap r'
  assume h: "payload e = SnapshotPayload snap" "snapshot_applies st e"
    "reduceSessionStream st e = (withSession st (snapshot_session e snap (oget (sessions st) (sessionId e))), r')"
  let ?st = "withSession st (snapshot_session e snap (oget (sessions st) (sessionId e)))"
  have "in_scope ?st e" using h(2) by (simp add: snapshot_applies_def in_scope_def scopeMatches_def)
  then have "reduceSessionStream ?st e = (?st, EDuplicate (sessionId e) (eventSeq e))"
    using h(1) by (simp add: reduceSessionStream_def in_scope_def applySnapshot_def same_target_iff)
  moreover from h(3) assms(2) have "st' = ?st" by simp
  ultimately show ?thesis by simp
next
  assume h: "event_applies st e"
    "reduceSessionStream st e = (withSession st (event_session e (session_for st e)), EEventApplied (sessionId e))"
  let ?st = "withSession st (event_session e (session_for st e))"
  have sc: "in_scope ?st e" using h(1) by (simp add: event_applies_def in_scope_def scopeMatches_def)
  have "oget (sessions ?st) (sessionId e) = Some (event_session e (session_for st e))"
    by (simp add: session_for_id [OF assms(1)])
  with sc h(1) have "reduceSessionStream ?st e = (?st, EDuplicate (sessionId e) (eventSeq e))"
    by (cases "payload e")
      (simp_all add: reduceSessionStream_def in_scope_def applyEvent_def same_target_iff event_applies_def)
  moreover from h(2) assms(2) have "st' = ?st" by simp
  ultimately show ?thesis by simp
qed

subsection \<open>Runs of envelopes\<close>

text \<open>A run that keeps the epoch is a run of the monotone machine.\<close>

lemma epoch_run:
  assumes "channel_inv st" and "list_all (keeps_epoch (chanRuntimeEpoch st)) es"
  shows "fold channel_step es st = fold epoch_step es st"
  using assms
proof (induction es arbitrary: st)
  case (Cons e es)
  then have st: "epoch_step e st = channel_step e st" by (simp add: epoch_step_def)
  have "chanRuntimeEpoch (channel_step e st) = chanRuntimeEpoch st"
    using epoch_step_le [OF Cons.prems(1), of e] st by (simp add: channel_le_def)
  with Cons.IH [OF channel_step_inv [OF Cons.prems(1), of e]] Cons.prems(2) st show ?case by simp
qed simp

lemma run_epoch_le:
  "channel_inv st \<Longrightarrow> list_all (keeps_epoch (chanRuntimeEpoch st)) es \<Longrightarrow> channel_le st (fold channel_step es st)"
  by (simp add: epoch_run channel_machine.run_le)

text \<open>
  C20. Within one runtime epoch nothing goes back: whatever envelopes arrive, in whatever order, a
  known session stays known and its revision and sequence number never decrease.
\<close>

theorem epoch_monotone:
  assumes "channel_inv st" and "list_all (keeps_epoch (chanRuntimeEpoch st)) es"
    and "oget (sessions st) k = Some s"
  shows "\<exists>t. oget (sessions (fold channel_step es st)) k = Some t
    \<and> chanRevision s \<le> chanRevision t \<and> lastEventSeq s \<le> lastEventSeq t"
  using run_epoch_le [OF assms(1,2)] assms(3) by (auto simp: channel_le_def session_le_def)

fun no_snapshot :: "string \<Rightarrow> stream_envelope \<Rightarrow> bool" where
  "no_snapshot k (Hello h) = True"
| "no_snapshot k (SessionStream e) = (sessionId e \<noteq> k \<or> \<not> is_snapshot (payload e))"

text \<open>The sequence numbers of the events of session \<open>k\<close> that a run applies, in order.\<close>

fun applied_seqs :: "string \<Rightarrow> stream_envelope list \<Rightarrow> channel \<Rightarrow> int list" where
  "applied_seqs k [] st = []"
| "applied_seqs k (Hello h # es) st = applied_seqs k es (channel_step (Hello h) st)"
| "applied_seqs k (SessionStream e # es) st =
     (if snd (reduceSessionStream st e) = EEventApplied k then [eventSeq e] else [])
     @ applied_seqs k es (channel_step (SessionStream e) st)"

text \<open>One envelope that is no snapshot advances its session by nothing or by exactly one.\<close>

lemma event_step:
  assumes inv: "channel_inv st" and s: "oget (sessions st) k = Some s"
    and "no_snapshot k (SessionStream e)"
  obtains (applied) t where "oget (sessions (fst (reduceSessionStream st e))) k = Some t"
      "snd (reduceSessionStream st e) = EEventApplied k" "eventSeq e = lastEventSeq s + 1"
      "lastEventSeq t = lastEventSeq s + 1" "\<not> needsResync s"
  | (other) t where "oget (sessions (fst (reduceSessionStream st e))) k = Some t"
      "snd (reduceSessionStream st e) \<noteq> EEventApplied k" "lastEventSeq t = lastEventSeq s"
      "needsResync s \<Longrightarrow> needsResync t" "t = s\<lparr>needsResync := needsResync t, lastTrace := lastTrace t\<rparr>"
proof (cases "sessionId e = k")
  case False
  show ?thesis
  proof (rule other [of s])
    show "oget (sessions (fst (reduceSessionStream st e))) k = Some s"
      using stream_isolated [OF inv, of k e] False s by simp
    show "snd (reduceSessionStream st e) \<noteq> EEventApplied k"
      by (rule reduce_cases [of st e]) (use False in \<open>auto split: if_splits\<close>)
  qed simp_all
next
  case True
  with assms(3) have ns: "\<not> is_snapshot (payload e)" by simp
  have sf: "session_for st e = s" using s True by (simp add: session_for_Some)
  show ?thesis
  proof (rule reduce_cases [of st e])
    fix r assume "reduceSessionStream st e = (st, r)" "\<not> effect_applied r"
    with s show ?thesis by (intro other [of s]) auto
  next
    fix r assume "reduceSessionStream st e = (markNeedsResync st (session_for st e) (trace e), r)" "effect_flags r"
    with s sf True channel_invD(1) [OF inv s] show ?thesis
      by (intro other [of "s\<lparr>needsResync := True, lastTrace := orElse (trace e) (lastTrace s)\<rparr>"]) auto
  next
    fix snap assume "payload e = SnapshotPayload snap"
    with ns show ?thesis by simp
  next
    assume "event_applies st e"
      "reduceSessionStream st e = (withSession st (event_session e (session_for st e)), EEventApplied (sessionId e))"
    with s sf True channel_invD(1) [OF inv s] show ?thesis
      by (intro applied) (auto simp: event_applies_def)
  qed
qed

text \<open>What a hello leaves of a session: its contents, and a resync that is pending stays pending.\<close>

definition session_contents ::
  "channel_session \<Rightarrow> session_snapshot option \<times> jval option \<times> (string, execution_descriptor) omap \<times> int" where
  "session_contents s = (chanSnapshot s, lastAgentEvent s, chanExecutions s, chanRevision s)"

lemma hello_same_contents:
  assumes "oget m k = Some s"
  shows "\<exists>t. oget (fold hello_same_cursor cs m) k = Some t \<and> t = s\<lparr>needsResync := needsResync t\<rparr>
    \<and> (needsResync s \<longrightarrow> needsResync t)"
  using assms
proof (induction cs arbitrary: m s)
  case (Cons c cs)
  have "\<exists>t. oget (hello_same_cursor c m) k = Some t \<and> t = s\<lparr>needsResync := needsResync t\<rparr>
    \<and> (needsResync s \<longrightarrow> needsResync t)"
    using Cons.prems by (auto simp: hello_same_cursor_def split: option.split)
  then obtain t where t: "oget (hello_same_cursor c m) k = Some t" "t = s\<lparr>needsResync := needsResync t\<rparr>"
    "needsResync s \<longrightarrow> needsResync t" by blast
  from Cons.IH [OF t(1)] obtain u where u: "oget (fold hello_same_cursor (c # cs) m) k = Some u"
    "u = t\<lparr>needsResync := needsResync u\<rparr>" "needsResync t \<longrightarrow> needsResync u" by auto
  from u(2) t(2) have "u = s\<lparr>needsResync := needsResync u\<rparr>" by (cases s; cases t; cases u) auto
  with u t show ?case by blast
qed (auto intro!: exI)

lemma hello_new_contents:
  assumes "oget m k = Some s" "needsResync s"
  shows "\<exists>t. oget (fold hello_new_cursor cs m) k = Some t \<and> needsResync t \<and> session_contents t = session_contents s"
  using assms
proof (induction cs arbitrary: m s)
  case (Cons c cs)
  have "\<exists>t. oget (hello_new_cursor c m) k = Some t \<and> needsResync t \<and> session_contents t = session_contents s"
    using Cons.prems by (auto simp: hello_new_cursor_def session_contents_def split: option.split)
  then obtain t where t: "oget (hello_new_cursor c m) k = Some t" "needsResync t"
    "session_contents t = session_contents s" by blast
  from Cons.IH [OF t(1,2)] t(3) show ?case by auto
qed simp

lemma reset_contents:
  assumes "omap_wf m" "okeep filed m" "oget m k = Some s"
  shows "oget (fold (\<lambda>p m. oset (chanSessionId p) (reset_session p) m) (ovals m) z) k = Some (reset_session s)"
  using assms
proof (induction m arbitrary: z)
  case (Cons p m)
  obtain k' v where p: "p = (k', v)" by (cases p)
  from Cons.prems p have wf: "omap_wf m" "k' \<notin> set (okeys m)" by (simp_all add: omap_wf_def)
  have v: "chanSessionId v = k'" using okeep_get [OF Cons.prems(2), of k' v] p by simp
  have keep: "okeep filed m" unfolding okeep_def
  proof (intro allI impI)
    fix j w assume g: "oget m j = Some w"
    then have "j \<in> set (okeys m)" by (metis domI dom_map_of_conv_image_fst image_set)
    with wf(2) p g have "oget (p # m) j = Some w" by auto
    then show "filed j w" by (rule okeep_get [OF Cons.prems(2)])
  qed
  show ?case
  proof (cases "k = k'")
    case True
    with Cons.prems(3) p have s: "s = v" by simp
    have rest: "oget (fold (\<lambda>p m. oset (chanSessionId p) (reset_session p) m) ps z') k = oget z' k"
      if "\<forall>q \<in> set ps. chanSessionId q \<noteq> k" for ps z'
      using that by (induction ps arbitrary: z') auto
    have "\<forall>q \<in> set (ovals m). chanSessionId q \<noteq> k"
    proof
      fix q assume "q \<in> set (ovals m)"
      then obtain j where j: "(j, q) \<in> set m" by auto
      then have "oget m j = Some q" using wf(1) by (simp add: oget_iff)
      then have "chanSessionId q = j" using okeep_get [OF keep] by blast
      with j wf(2) True show "chanSessionId q \<noteq> k" by force
    qed
    from rest [OF this, of "oset k' (reset_session v) z"] True
    have "oget (fold (\<lambda>p m. oset (chanSessionId p) (reset_session p) m) (ovals m) (oset k' (reset_session v) z)) k
        = Some (reset_session v)" by simp
    then show ?thesis using p s v by simp
  next
    case False
    with Cons.prems(3) p have "oget m k = Some s" by simp
    from Cons.IH [OF wf(1) keep this] p show ?thesis by simp
  qed
qed simp

lemma hello_contents:
  assumes inv: "channel_inv st" and s: "oget (sessions st) k = Some s"
  shows "\<exists>t. oget (sessions (fst (reduceHello st h))) k = Some t \<and> (needsResync s \<longrightarrow> needsResync t)
    \<and> session_contents t = session_contents s"
proof -
  consider "\<not> scopeMatches st h" | "scopeMatches st h" "chanRuntimeEpoch st = Some (runtimeEpoch h)"
    | "scopeMatches st h" "chanRuntimeEpoch st \<noteq> Some (runtimeEpoch h)" by blast
  then show ?thesis
  proof cases
    case 1
    with s show ?thesis by (simp add: reduceHello_def)
  next
    case 2
    from hello_same_contents [OF s, of "recoverySessions h"]
    obtain t where t: "oget (fold hello_same_cursor (recoverySessions h) (sessions st)) k = Some t"
      "t = s\<lparr>needsResync := needsResync t\<rparr>" "needsResync s \<longrightarrow> needsResync t" by blast
    from arg_cong [OF t(2), of session_contents] have "session_contents t = session_contents s"
      by (simp add: session_contents_def)
    with 2 t show ?thesis by (simp add: reduceHello_def)
  next
    case 3
    have "oget (fold (\<lambda>p m. oset (chanSessionId p) (reset_session p) m) (ovals (sessions st)) []) k
        = Some (reset_session s)"
      using inv by (intro reset_contents s) (simp_all add: channel_inv_okeep)
    from hello_new_contents [OF this, of "recoverySessions h"] 3 show ?thesis
      by (auto simp: reduceHello_def Let_def reset_session_def session_contents_def)
  qed
qed

text \<open>
  Between two snapshots the events a session applies are consecutive: in any run of envelopes
  of one epoch without a snapshot of the session, the sequence numbers of its applied events are,
  in order and without gap or repetition, those after the one it had, up to the one it ends with.
\<close>

theorem applied_events_contiguous:
  assumes "channel_inv st" and "oget (sessions st) k = Some s"
    and "list_all (no_snapshot k) es" and "list_all (keeps_epoch (chanRuntimeEpoch st)) es"
  shows "\<exists>t. oget (sessions (fold channel_step es st)) k = Some t
    \<and> applied_seqs k es st = [lastEventSeq s + 1 .. lastEventSeq t]"
  using assms
proof (induction es arbitrary: st s)
  case (Cons e es)
  have inv: "channel_inv (channel_step e st)" using Cons.prems(1) by (rule channel_step_inv)
  have ep: "chanRuntimeEpoch (channel_step e st) = chanRuntimeEpoch st"
    using epoch_step_le [OF Cons.prems(1), of e] Cons.prems(4) by (simp add: epoch_step_def channel_le_def)
  have "\<exists>t. oget (sessions (channel_step e st)) k = Some t
      \<and> (\<forall>u. applied_seqs k es (channel_step e st) = [lastEventSeq t + 1 .. u] \<longrightarrow> lastEventSeq t \<le> u \<longrightarrow>
           applied_seqs k (e # es) st = [lastEventSeq s + 1 .. u])"
  proof (cases e)
    case (Hello h)
    with Cons.prems(4) have "chanRuntimeEpoch st = Some (runtimeEpoch h)" by simp
    moreover from hello_same_contents [OF Cons.prems(2), of "recoverySessions h"]
    obtain t where t: "oget (fold hello_same_cursor (recoverySessions h) (sessions st)) k = Some t"
      "t = s\<lparr>needsResync := needsResync t\<rparr>" by blast
    moreover from arg_cong [OF t(2), of lastEventSeq] have "lastEventSeq t = lastEventSeq s" by simp
    ultimately show ?thesis
      using Hello Cons.prems(2) by (cases "scopeMatches st h") (auto simp: channel_step_def reduceHello_def)
  next
    case (SessionStream x)
    from Cons.prems(3) SessionStream have ns: "no_snapshot k (SessionStream x)" by simp
    show ?thesis
    proof (rule event_step [OF Cons.prems(1,2) ns])
      fix t assume t: "oget (sessions (fst (reduceSessionStream st x))) k = Some t"
        "snd (reduceSessionStream st x) = EEventApplied k" "eventSeq x = lastEventSeq s + 1"
        "lastEventSeq t = lastEventSeq s + 1"
      have "[lastEventSeq s + 1 .. u] = (lastEventSeq s + 1) # [lastEventSeq t + 1 .. u]"
        if "lastEventSeq t \<le> u" for u
        using that t(4) by (simp add: upto_rec1)
      with SessionStream t show ?thesis by (auto simp: channel_step_def)
    next
      fix t assume "oget (sessions (fst (reduceSessionStream st x))) k = Some t"
        "snd (reduceSessionStream st x) \<noteq> EEventApplied k" "lastEventSeq t = lastEventSeq s"
      with SessionStream show ?thesis by (auto simp: channel_step_def)
    qed
  qed
  then obtain t where t: "oget (sessions (channel_step e st)) k = Some t"
    "\<And>u. applied_seqs k es (channel_step e st) = [lastEventSeq t + 1 .. u] \<Longrightarrow> lastEventSeq t \<le> u \<Longrightarrow>
           applied_seqs k (e # es) st = [lastEventSeq s + 1 .. u]" by blast
  have "list_all (keeps_epoch (chanRuntimeEpoch (channel_step e st))) es" using Cons.prems(4) by (simp add: ep)
  from Cons.IH [OF inv t(1) _ this] Cons.prems(3)
  obtain u where u: "oget (sessions (fold channel_step es (channel_step e st))) k = Some u"
    "applied_seqs k es (channel_step e st) = [lastEventSeq t + 1 .. lastEventSeq u]" by auto
  have "channel_le (channel_step e st) (fold channel_step es (channel_step e st))"
    by (rule run_epoch_le [OF inv \<open>list_all _ es\<close>])
  with t(1) u(1) have "lastEventSeq t \<le> lastEventSeq u" by (fastforce simp: channel_le_def session_le_def)
  from t(2) [OF u(2) this] u(1) show ?case by auto
qed simp

lemma pending_resync_run:
  assumes "channel_inv st" and "oget (sessions st) k = Some s" and "needsResync s"
    and "list_all (no_snapshot k) es"
  shows "applied_seqs k es st = []
    \<and> (\<exists>t. oget (sessions (fold channel_step es st)) k = Some t \<and> needsResync t
         \<and> session_contents t = session_contents s)"
  using assms
proof (induction es arbitrary: st s)
  case (Cons e es)
  have inv: "channel_inv (channel_step e st)" using Cons.prems(1) by (rule channel_step_inv)
  have "applied_seqs k (e # es) st = applied_seqs k es (channel_step e st)
    \<and> (\<exists>t. oget (sessions (channel_step e st)) k = Some t \<and> needsResync t \<and> session_contents t = session_contents s)"
  proof (cases e)
    case (Hello h)
    with hello_contents [OF Cons.prems(1,2), of h] Cons.prems(3) show ?thesis by (auto simp: channel_step_def)
  next
    case (SessionStream x)
    from Cons.prems(4) SessionStream have ns: "no_snapshot k (SessionStream x)" by simp
    show ?thesis
    proof (rule event_step [OF Cons.prems(1,2) ns])
      fix t assume t: "oget (sessions (fst (reduceSessionStream st x))) k = Some t"
        "snd (reduceSessionStream st x) \<noteq> EEventApplied k" "needsResync s \<Longrightarrow> needsResync t"
        "t = s\<lparr>needsResync := needsResync t, lastTrace := lastTrace t\<rparr>"
      from arg_cong [OF t(4), of session_contents] have "session_contents t = session_contents s"
        by (simp add: session_contents_def)
      with t SessionStream Cons.prems(3) show ?thesis by (simp add: channel_step_def)
    qed (use Cons.prems(3) in simp)
  qed
  then obtain t where step: "applied_seqs k (e # es) st = applied_seqs k es (channel_step e st)"
    and t: "oget (sessions (channel_step e st)) k = Some t" "needsResync t" "session_contents t = session_contents s"
    by blast
  from Cons.IH [OF inv t(1,2)] Cons.prems(4) t(3) step show ?case by simp
qed simp

text \<open>
  A session that lost its place applies nothing until a snapshot: while it needs a resync, no
  event of any run of envelopes without a snapshot of it is applied, not even across hellos and
  runtime restarts, and its contents stay what they were.
\<close>

theorem pending_resync_applies_nothing:
  assumes "channel_inv st" and "oget (sessions st) k = Some s" and "needsResync s"
    and "list_all (no_snapshot k) es"
  shows "applied_seqs k es st = []
    \<and> (\<exists>t. oget (sessions (fold channel_step es st)) k = Some t \<and> needsResync t
         \<and> session_contents t = session_contents s)"
  by (rule pending_resync_run [OF assms])

text \<open>
  A runtime restart interrupts every session: after a hello of another epoch all sessions need a
  resync with their sequence restarted at 0, so until a session's snapshot arrives none of its
  events is applied.
\<close>

theorem restart_needs_snapshot:
  assumes "channel_inv st" and "scopeMatches st h" and "chanRuntimeEpoch st \<noteq> Some (runtimeEpoch h)"
    and "oget (sessions (channel_step (Hello h) st)) k = Some s" and "list_all (no_snapshot k) es"
  shows "needsResync s \<and> lastEventSeq s = 0 \<and> applied_seqs k (Hello h # es) st = []"
proof -
  from okeep_get [OF hello_new_waiting [OF assms(2,3)], of k s] assms(4)
  have w: "needsResync s" "lastEventSeq s = 0" by (simp_all add: channel_step_def)
  from pending_resync_run [OF channel_step_inv [OF assms(1)] assms(4) w(1) assms(5)] w
  show ?thesis by simp
qed

subsection \<open>Checked envelopes and the resync request\<close>

text \<open>What a channel holds when every envelope it reduced had passed the envelope check.\<close>

definition session_checked :: "channel_session \<Rightarrow> bool" where
  "session_checked s \<longleftrightarrow> nonblank (chanSessionId s) \<and> valid_target (chanTarget s)
     \<and> 0 \<le> chanRevision s \<and> 0 \<le> lastEventSeq s \<and> pred_option valid_trace (lastTrace s)
     \<and> (\<forall>sn. chanSnapshot s = Some sn \<longrightarrow> snapSessionId sn = chanSessionId s \<and> snapRevision sn \<le> chanRevision s)"

definition channel_checked :: "channel \<Rightarrow> bool" where
  "channel_checked st \<longleftrightarrow> channel_inv st \<and> nonblank (chanClientId st) \<and> 0 \<le> chanWindowId st
     \<and> pred_option nonblank (chanRuntimeEpoch st) \<and> okeep (\<lambda>k. session_checked) (sessions st)"

fun checked_stream :: "stream_envelope \<Rightarrow> bool" where
  "checked_stream (Hello h) = isRuntimeStreamEnvelope (hello_json h)"
| "checked_stream (SessionStream e) = isRuntimeStreamEnvelope (session_stream_json e)"

lemma orElse_pred: "pred_option P a \<Longrightarrow> pred_option P b \<Longrightarrow> pred_option P (orElse a b)"
  by (cases a) (simp_all add: orElse_def)

lemma new_channel_checked: "createRuntimeChannelState c w = Inr st \<Longrightarrow> channel_checked st"
  by (auto simp: createRuntimeChannelState_def channel_checked_def channel_inv_def split: if_splits)

lemma session_for_checked:
  assumes "okeep (\<lambda>k. session_checked) (sessions st)" and "valid_stream e"
  shows "session_checked (session_for st e)"
  using okeep_get [OF assms(1), of "sessionId e"] assms(2)
  by (auto simp: session_for_def valid_stream_def emptySessionState_def session_checked_def split: option.split)

lemma stream_checked:
  assumes "channel_checked st" and ok: "valid_stream e"
  shows "okeep (\<lambda>k. session_checked) (sessions (fst (reduceSessionStream st e)))"
proof -
  from assms(1) have keep: "okeep (\<lambda>k. session_checked) (sessions st)" by (simp add: channel_checked_def)
  note sf = session_for_checked [OF keep ok]
  from ok have tr: "pred_option valid_trace (trace e)" by (simp add: valid_stream_def)
  show ?thesis
  proof (rule reduce_cases [of st e])
    fix r assume "reduceSessionStream st e = (markNeedsResync st (session_for st e) (trace e), r)"
    with sf tr keep show ?thesis
      by (auto simp: markNeedsResync_def withSession_def session_checked_def intro!: okeep_set orElse_pred)
  next
    fix snap r assume h: "payload e = SnapshotPayload snap"
      "reduceSessionStream st e = (withSession st (snapshot_session e snap (oget (sessions st) (sessionId e))), r)"
    have "pred_option valid_trace (Option.bind (oget (sessions st) (sessionId e)) lastTrace)"
      using okeep_get [OF keep, of "sessionId e"]
      by (cases "oget (sessions st) (sessionId e)") (auto simp: session_checked_def)
    with h ok keep tr show ?thesis
      by (auto simp: withSession_def session_checked_def valid_stream_def snapshot_agrees_def
          intro!: okeep_set orElse_pred)
  next
    assume h: "event_applies st e"
      "reduceSessionStream st e = (withSession st (event_session e (session_for st e)), EEventApplied (sessionId e))"
    with sf ok keep tr show ?thesis
      by (fastforce simp: withSession_def session_checked_def valid_stream_def event_applies_def
          intro!: okeep_set orElse_pred)
  qed (use keep in simp)
qed

lemma hello_same_checked:
  "okeep (\<lambda>k. session_checked) m \<Longrightarrow> valid_cursor c \<Longrightarrow> okeep (\<lambda>k. session_checked) (hello_same_cursor c m)"
  by (cases "oget m (cursorSessionId c)")
    (auto simp: hello_same_cursor_def session_checked_def emptySessionState_def valid_cursor_def
      dest: okeep_get intro!: okeep_set)

lemma hello_new_checked:
  "okeep (\<lambda>k. session_checked) m \<Longrightarrow> valid_cursor c \<Longrightarrow> okeep (\<lambda>k. session_checked) (hello_new_cursor c m)"
  by (cases "oget m (cursorSessionId c)")
    (auto simp: hello_new_cursor_def session_checked_def emptySessionState_def valid_cursor_def
      dest: okeep_get intro!: okeep_set)

lemma okeep_fold_valid:
  assumes "\<And>c m. okeep P m \<Longrightarrow> V c \<Longrightarrow> okeep P (f c m)" and "okeep P m" and "list_all V cs"
  shows "okeep P (fold f cs m)"
  using assms(2,3) by (induction cs arbitrary: m) (simp_all add: assms(1))

lemma hello_checked:
  assumes "channel_checked st" and ok: "valid_hello h"
  shows "channel_checked (fst (reduceHello st h))"
proof -
  from assms(1) have inv: "channel_inv st" and keep: "okeep (\<lambda>k. session_checked) (sessions st)"
    and rest: "nonblank (chanClientId st)" "0 \<le> chanWindowId st" "pred_option nonblank (chanRuntimeEpoch st)"
    by (simp_all add: channel_checked_def)
  from ok have cs: "list_all valid_cursor (recoverySessions h)" and ep: "nonblank (runtimeEpoch h)"
    by (simp_all add: valid_hello_def)
  have "okeep (\<lambda>k. session_checked) (fold hello_same_cursor (recoverySessions h) (sessions st))"
    by (rule okeep_fold_valid [OF hello_same_checked keep cs])
  moreover have "okeep (\<lambda>k. session_checked)
      (fold (\<lambda>p m. oset (chanSessionId p) (reset_session p) m) (ovals (sessions st)) [])"
  proof (rule okeep_fold_valid)
    have "session_checked s" if "(k, s) \<in> set (sessions st)" for k s
      using okeep_get [OF keep, of k s] that inv by (auto simp: channel_inv_okeep oget_iff)
    then show "list_all session_checked (ovals (sessions st))" by (auto simp: list_all_iff)
    fix p and m :: "(string, channel_session) omap"
    assume "okeep (\<lambda>k. session_checked) m" "session_checked p"
    then show "okeep (\<lambda>k. session_checked) (oset (chanSessionId p) (reset_session p) m)"
      by (intro okeep_set) (simp_all add: reset_session_def session_checked_def)
  qed simp
  then have "okeep (\<lambda>k. session_checked) (fold hello_new_cursor (recoverySessions h)
      (fold (\<lambda>p m. oset (chanSessionId p) (reset_session p) m) (ovals (sessions st)) []))"
    by (intro okeep_fold_valid [where V = valid_cursor] hello_new_checked cs)
  ultimately show ?thesis
    using keep rest ep hello_inv [OF inv, of h] by (auto simp: channel_checked_def reduceHello_def Let_def)
qed

lemma channel_step_checked:
  assumes "channel_checked st" and "checked_stream e"
  shows "channel_checked (channel_step e st)"
proof (cases e)
  case (Hello h)
  with assms hello_accepted [of h] show ?thesis by (simp add: channel_step_def hello_checked)
next
  case (SessionStream x)
  with assms(2) have ok: "valid_stream x" by (simp add: stream_accepted)
  from assms(1) have inv: "channel_inv st" by (simp add: channel_checked_def)
  from stream_le [OF inv, of x] SessionStream assms(1) channel_step_inv [OF inv, of e]
    stream_checked [OF assms(1) ok]
  show ?thesis by (simp add: channel_step_def channel_checked_def channel_le_def)
qed

lemma channel_run_checked:
  "channel_checked st \<Longrightarrow> list_all checked_stream es \<Longrightarrow> channel_checked (fold channel_step es st)"
  by (induction es arbitrary: st) (simp_all add: channel_step_checked)

text \<open>
  A channel fed only with envelopes that pass the check stays sound: each session is filed under
  its own identity, holds a snapshot of that session whose revision is not above the session's,
  and has a valid target and non-negative counters.
\<close>

theorem checked_channel_sound:
  assumes "createRuntimeChannelState c w = Inr st" and "list_all checked_stream es"
    and "oget (sessions (fold channel_step es st)) k = Some s"
  shows "chanSessionId s = k \<and> valid_target (chanTarget s) \<and> 0 \<le> chanRevision s \<and> 0 \<le> lastEventSeq s
    \<and> (\<forall>sn \<in> set_option (chanSnapshot s). snapSessionId sn = k \<and> snapRevision sn \<le> chanRevision s)"
proof -
  have ck: "channel_checked (fold channel_step es st)"
    by (rule channel_run_checked [OF new_channel_checked [OF assms(1)] assms(2)])
  then have "session_checked s" using assms(3) by (auto simp: channel_checked_def dest: okeep_get)
  moreover from ck have "chanSessionId s = k" using assms(3) channel_invD(1) by (auto simp: channel_checked_def)
  ultimately show ?thesis by (auto simp: session_checked_def)
qed

text \<open>
  A resync request can always be asked for and is always accepted: for a known session of a
  channel fed with checked envelopes of a started runtime, with a request identity, a valid trace
  context and a reason the protocol knows, \<open>createRuntimeResyncRequest\<close> returns a request that
  passes the envelope check and carries the session's target, revision and sequence number.
\<close>

theorem resync_request_accepted:
  assumes "createRuntimeChannelState c w = Inr st0" and "list_all checked_stream es"
    and "st = fold channel_step es st0"
    and "chanRuntimeEpoch st = Some ep" and "oget (sessions st) sid = Some s" and "nonblank rid"
    and "pred_option (\<lambda>r. r \<in> {''gap'', ''runtime-restart'', ''revision-regression'', ''explicit''}) why"
    and "pred_option valid_trace tr"
  shows "\<exists>q. createRuntimeResyncRequest st sid rid why tr = Inr q \<and> isRuntimeRequestEnvelope (request_json q)
    \<and> runtimeEpoch q = ep \<and> sessionId q = sid \<and> target q = chanTarget s
    \<and> (\<exists>r. operation q = Resync (chanRevision s) (lastEventSeq s) r)"
proof -
  have ck: "channel_checked st"
    unfolding assms(3) by (rule channel_run_checked [OF new_channel_checked [OF assms(1)] assms(2)])
  then have s: "session_checked s" and id: "chanSessionId s = sid" and ep: "nonblank ep"
    using assms(4,5) channel_invD(1) by (auto simp: channel_checked_def dest: okeep_get)
  let ?q = "\<lparr>protocolVersion = RUNTIME_PROTOCOL_VERSION, runtimeEpoch = ep,
                clientId = chanClientId st, windowId = chanWindowId st,
                trace = orElse tr (lastTrace s), sessionId = chanSessionId s, target = chanTarget s,
                requestId = rid,
                operation = Resync (chanRevision s) (lastEventSeq s) (case why of None \<Rightarrow> ''explicit'' | Some r \<Rightarrow> r)\<rparr>"
  have "createRuntimeResyncRequest st sid rid why tr = Inr ?q"
    using assms(4-6) nonblank_nonempty [OF ep] by (simp add: createRuntimeResyncRequest_def)
  moreover have "pred_option valid_trace (orElse tr (lastTrace s))"
    using assms(8) s by (intro orElse_pred) (simp_all add: session_checked_def)
  then have "isRuntimeRequestEnvelope (request_json ?q)"
    using ck s ep assms(6,7) id
    by (auto simp: request_json_accepted valid_request_def channel_checked_def session_checked_def split: option.split)
  ultimately show ?thesis using id by auto
qed

subsection \<open>Concrete runs of the channel\<close>

definition sample_channel :: channel where
  "sample_channel = \<lparr>chanClientId = ''client'', chanWindowId = 7, chanRuntimeEpoch = None, sessions = []\<rparr>"

definition sample_target :: target_identity where
  "sample_target = ChromeTab None (Some 3) None"

definition sample_hello :: "string \<Rightarrow> hello_envelope" where
  "sample_hello ep = \<lparr>protocolVersion = 1, runtimeEpoch = ep, clientId = ''client'', windowId = 7, trace = None,
     recoveryMode = Fresh, previousRuntimeEpoch = None,
     recoverySessions = [\<lparr>cursorSessionId = ''s'', cursorTarget = sample_target, cursorRevision = 0, cursorEventSeq = 0\<rparr>]\<rparr>"

definition sample_snapshot :: session_snapshot where
  "sample_snapshot = \<lparr>snapSessionId = ''s'', snapTarget = sample_target, snapRevision = 2, systemPrompt = [],
     model = None, thinkingLevel = ''off'', messages = [], tools = [], pendingToolCallIds = [],
     isStreaming = False, streamingMessage = None, activeExecutions = [], artifacts = [], snapErrorMessage = None\<rparr>"

definition sample_stream :: "int \<Rightarrow> int \<Rightarrow> stream_payload \<Rightarrow> session_stream" where
  "sample_stream r n p = \<lparr>protocolVersion = 1, runtimeEpoch = ''e1'', clientId = ''client'', windowId = 7,
     trace = None, sessionId = ''s'', target = sample_target, revision = r, eventSeq = n, payload = p\<rparr>"

lemmas channel_sample_defs = sample_channel_def sample_target_def sample_hello_def sample_snapshot_def
  sample_stream_def

text \<open>The channel after a hello and a first snapshot, at sequence number 4.\<close>

definition sample_synced :: channel where
  "sample_synced = fold channel_step
     [Hello (sample_hello ''e1''), SessionStream (sample_stream 2 4 (SnapshotPayload sample_snapshot))] sample_channel"

lemma sample_channel_new: "createRuntimeChannelState ''client'' 7 = Inr sample_channel"
  by (simp add: createRuntimeChannelState_def sample_channel_def nonblank_def js_trim_def js_space_def)

lemma sample_channel_inv: "channel_inv sample_channel"
  by (simp add: channel_inv_def sample_channel_def)

lemma sample_synced_inv: "channel_inv sample_synced"
  unfolding sample_synced_def by (rule channel_reducer.run_inv [OF sample_channel_inv])

lemma sample_helloed:
  "channel_step (Hello (sample_hello ''e1'')) sample_channel =
     sample_channel\<lparr>chanRuntimeEpoch := Some ''e1'',
       sessions := [(''s'', emptySessionState ''s'' sample_target 0 True)]\<rparr>"
  by (simp add: channel_step_def channel_sample_defs reduceHello_def scopeMatches_def hello_new_cursor_def)

lemma sample_synced_eq:
  "sample_synced = \<lparr>chanClientId = ''client'', chanWindowId = 7, chanRuntimeEpoch = Some ''e1'',
     sessions = [(''s'', snapshot_session (sample_stream 2 4 (SnapshotPayload sample_snapshot)) sample_snapshot
       (Some (emptySessionState ''s'' sample_target 0 True)))]\<rparr>"
  by (simp add: sample_synced_def sample_helloed)
    (simp add: channel_step_def reduceSessionStream_def scopeMatches_def sample_channel_def
      sample_stream_def applySnapshot_def emptySessionState_def same_target_iff withSession_def)

abbreviation sample_events :: "stream_envelope list" where
  "sample_events \<equiv> [SessionStream (sample_stream 2 5 (AgentEventPayload JNull)),
     SessionStream (sample_stream 2 5 (AgentEventPayload JNull)), SessionStream (sample_stream 3 6 (AgentEventPayload JNull)),
     SessionStream (sample_stream 3 9 (AgentEventPayload JNull)), SessionStream (sample_stream 3 7 (AgentEventPayload JNull))]"

lemma sample_session: "oget (sessions sample_synced) ''s'' =
    Some (snapshot_session (sample_stream 2 4 (SnapshotPayload sample_snapshot)) sample_snapshot
       (Some (emptySessionState ''s'' sample_target 0 True)))"
  by (simp add: sample_synced_eq)

lemma sample_seq: "sessionId (sample_stream r n p) = ''s''" "eventSeq (sample_stream r n p) = n"
  "revision (sample_stream r n p) = r" "payload (sample_stream r n p) = p"
  "target (sample_stream r n p) = sample_target" "runtimeEpoch (sample_stream r n p) = ''e1''"
  "clientId (sample_stream r n p) = ''client''" "windowId (sample_stream r n p) = 7"
  by (simp_all add: sample_stream_def)

theorem applied_exactly_witness:
  "snd (reduceSessionStream sample_synced (sample_stream 2 5 (AgentEventPayload JNull))) = EEventApplied ''s''
    \<and> map_option lastEventSeq (oget (sessions (fst (reduceSessionStream sample_synced
        (sample_stream 2 5 (AgentEventPayload JNull))))) ''s'') = Some 5"
proof -
  let ?e = "sample_stream 2 5 (AgentEventPayload JNull)"
  have "event_applies sample_synced ?e"
    by (simp add: event_applies_def in_scope_def scopeMatches_def session_for_def sample_synced_eq sample_seq)
  with applied_exactly [OF sample_synced_inv, of ?e]
  have a: "effect_applied (snd (reduceSessionStream sample_synced ?e))"
    and o: "oget (sessions (fst (reduceSessionStream sample_synced ?e))) ''s'' =
       Some (event_session ?e (session_for sample_synced ?e))"
    by (simp_all add: sample_seq)
  from a have "snd (reduceSessionStream sample_synced ?e) = EEventApplied ''s''"
    by (simp add: reduceSessionStream_def scopeMatches_def sample_synced_eq sample_seq applyEvent_def Let_def same_target_iff)
  with o show ?thesis by (simp add: sample_seq)
qed

theorem stream_isolated_witness:
  "oget (sessions (fst (reduceSessionStream sample_synced (sample_stream 2 9 (AgentEventPayload JNull))))) ''other''
     = oget (sessions sample_synced) ''other''"
  using stream_isolated [OF sample_synced_inv, of "''other''" "sample_stream 2 9 (AgentEventPayload JNull)"]
  by (simp add: sample_seq)

theorem redelivery_is_duplicate_witness:
  "\<exists>st. reduceSessionStream st (sample_stream 2 5 (AgentEventPayload JNull)) = (st, EDuplicate ''s'' 5)"
proof -
  let ?e = "sample_stream 2 5 (AgentEventPayload JNull)"
  have "reduceSessionStream sample_synced ?e =
      (withSession sample_synced (event_session ?e (session_for sample_synced ?e)), EEventApplied ''s'')"
    by (simp add: reduceSessionStream_def scopeMatches_def sample_synced_eq sample_seq applyEvent_def Let_def same_target_iff
        session_for_def)
  from redelivery_is_duplicate [OF sample_synced_inv this] show ?thesis by (auto simp: sample_seq)
qed

theorem epoch_monotone_witness:
  "\<exists>t. oget (sessions (fold channel_step (Hello (sample_hello ''e1'') # sample_events) sample_synced)) ''s'' = Some t
     \<and> 2 \<le> chanRevision t \<and> 4 \<le> lastEventSeq t"
  using epoch_monotone [OF sample_synced_inv _ sample_session, of "Hello (sample_hello ''e1'') # sample_events"]
  by (simp add: sample_synced_eq sample_hello_def sample_seq)

theorem applied_events_contiguous_witness:
  "\<exists>t. oget (sessions (fold channel_step sample_events sample_synced)) ''s'' = Some t
     \<and> applied_seqs ''s'' sample_events sample_synced = [5 .. lastEventSeq t]"
  using applied_events_contiguous [OF sample_synced_inv sample_session, of sample_events]
  by (simp add: sample_seq)

theorem pending_resync_applies_nothing_witness:
  "applied_seqs ''s'' sample_events (channel_step (Hello (sample_hello ''e1'')) sample_channel) = []"
proof -
  let ?st = "channel_step (Hello (sample_hello ''e1'')) sample_channel"
  have "oget (sessions ?st) ''s'' = Some (emptySessionState ''s'' sample_target 0 True)"
    by (simp add: sample_helloed)
  from pending_resync_applies_nothing [OF channel_step_inv [OF sample_channel_inv] this, of sample_events]
  show ?thesis by (simp add: emptySessionState_def sample_seq)
qed

theorem restart_needs_snapshot_witness:
  "applied_seqs ''s'' (Hello (sample_hello ''e2'') # sample_events) sample_synced = []"
proof -
  have "\<exists>s. oget (sessions (channel_step (Hello (sample_hello ''e2'')) sample_synced)) ''s'' = Some s"
    using hello_contents [OF sample_synced_inv sample_session] by (auto simp: channel_step_def)
  then obtain s where s: "oget (sessions (channel_step (Hello (sample_hello ''e2'')) sample_synced)) ''s'' = Some s" ..
  have "scopeMatches sample_synced (sample_hello ''e2'')"
    "chanRuntimeEpoch sample_synced \<noteq> Some (runtimeEpoch (sample_hello ''e2''))"
    by (simp_all add: scopeMatches_def sample_synced_eq sample_hello_def)
  from restart_needs_snapshot [OF sample_synced_inv this s, of sample_events] show ?thesis
    by (simp add: sample_seq)
qed

lemma sample_hello_checked: "checked_stream (Hello (sample_hello ''e1''))"
  by (simp add: isRuntimeStreamEnvelope_def hello_json_def base_fields_def sample_hello_def
      validateRuntimeEnvelope_def validateBase_def validateHello_def recovery_json_def cursor_json_def
      each_at_def validateRecoveryCursor_def validateTarget_def sample_target_def envelope_kind_def
      nonblank_def js_trim_def js_space_def RUNTIME_PROTOCOL_VERSION_def)

theorem checked_channel_sound_witness:
  "\<exists>s. oget (sessions (fold channel_step [Hello (sample_hello ''e1'')] sample_channel)) ''s'' = Some s
     \<and> valid_target (chanTarget s)"
proof -
  have s: "oget (sessions (fold channel_step [Hello (sample_hello ''e1'')] sample_channel)) ''s''
      = Some (emptySessionState ''s'' sample_target 0 True)" by (simp add: sample_helloed)
  from checked_channel_sound [OF sample_channel_new _ s] sample_hello_checked s show ?thesis by auto
qed

theorem resync_request_accepted_witness:
  "\<exists>q. createRuntimeResyncRequest (channel_step (Hello (sample_hello ''e1'')) sample_channel) ''s'' ''r'' None None = Inr q
     \<and> isRuntimeRequestEnvelope (request_json q)"
  using resync_request_accepted [OF sample_channel_new _ refl, of "[Hello (sample_hello ''e1'')]" "''e1''" "''s''"
      "emptySessionState ''s'' sample_target 0 True" "''r''" None None] sample_hello_checked
  by (auto simp: sample_helloed nonblank_def js_trim_def js_space_def)

end
