(* ===== verification/SidepanelIdentity.thy ===== *)
theory SidepanelIdentity
  imports Json
begin

section \<open>Identities of sidepanel documents\<close>

text \<open>
  \<open>packages/extension/src/agent/sidepanel-context-identity.ts\<close>: the shapes of the nonces, tokens
  and capability identifiers a sidepanel document presents, the names of the ports it opens (a
  printed identity that the service worker parses back), the messages of the window authority, and
  the retry loops that obtain a window identity.

  A regular expression is a list of character tests. \<open>URL\<close> parsing and \<open>JSON.parse\<close> are arguments
  of the functions that use them; \<open>encodeURIComponent\<close> and its inverse are modelled on Latin-1
  strings, where a code unit above 127 is two UTF-8 bytes. A messenger is a function from the
  attempt to its outcome, \<^const>\<open>None\<close> when the promise rejects.
\<close>

subsection \<open>Shapes of nonces and tokens\<close>

definition lower_hex :: "char \<Rightarrow> bool" where
  "lower_hex c \<longleftrightarrow> is_digit c \<or> CHR ''a'' \<le> c \<and> c \<le> CHR ''f''"

definition matches :: "(char \<Rightarrow> bool) list \<Rightarrow> string \<Rightarrow> bool" where
  "matches ps s \<longleftrightarrow> list_all2 (\<lambda>p c. p c) ps s"

definition UUID_V4_PATTERN :: "(char \<Rightarrow> bool) list" where
  "UUID_V4_PATTERN = replicate 8 lower_hex @ [(=) CHR ''-''] @ replicate 4 lower_hex @ [(=) CHR ''-'']
     @ [(=) CHR ''4''] @ replicate 3 lower_hex @ [(=) CHR ''-'']
     @ [\<lambda>c. c \<in> set ''89ab''] @ replicate 3 lower_hex @ [(=) CHR ''-''] @ replicate 12 lower_hex"

definition CONTINUATION_TOKEN_PATTERN :: "(char \<Rightarrow> bool) list" where
  "CONTINUATION_TOKEN_PATTERN = replicate 64 lower_hex"

definition isSidepanelDocumentNonce :: "string \<Rightarrow> bool" where
  "isSidepanelDocumentNonce s = matches UUID_V4_PATTERN s"

definition isSidepanelContinuationToken :: "string \<Rightarrow> bool" where
  "isSidepanelContinuationToken s = matches CONTINUATION_TOKEN_PATTERN s"

definition isSidepanelCapabilityId :: "string \<Rightarrow> bool" where
  "isSidepanelCapabilityId s = matches UUID_V4_PATTERN s"

text \<open>The \<open>typeof value === "string" &&\<close> in front of these tests.\<close>

fun on_string :: "(string \<Rightarrow> bool) \<Rightarrow> jval \<Rightarrow> bool" where
  "on_string p (JStr s) = p s"
| "on_string p _ = False"

subsection \<open>The sender's URL\<close>

record url =
  protocol :: string
  host :: string
  pathname :: string
  hash_part :: string
  searchParams :: "(string \<times> string) list"

definition getAll :: "string \<Rightarrow> (string \<times> string) list \<Rightarrow> string list" where
  "getAll k ps = map snd (filter (\<lambda>p. fst p = k) ps)"

definition SIDEPANEL_DOCUMENT_NONCE_PARAM :: string where
  "SIDEPANEL_DOCUMENT_NONCE_PARAM = ''shuvgeistContext''"

definition SIDEPANEL_ROUTE_QUERY_KEYS :: "string list" where
  "SIDEPANEL_ROUTE_QUERY_KEYS =
     [SIDEPANEL_DOCUMENT_NONCE_PARAM, ''session'', ''new'', ''teststeps'', ''provider'', ''model'']"

definition boundedCanonicalRouteText :: "string \<Rightarrow> nat \<Rightarrow> bool" where
  "boundedCanonicalRouteText s n \<longleftrightarrow>
     s \<noteq> [] \<and> length s \<le> n \<and> js_trim s = s \<and> list_all (\<lambda>c. \<not> (c \<le> CHR 0x1F \<or> c = CHR 0x7F)) s"

text \<open>\<open>encodeURIComponent\<close> and \<open>decodeURIComponent\<close>; a byte sequence that is malformed, or that
  encodes a code point above 255, is \<^const>\<open>None\<close>.\<close>

definition uri_unreserved :: "char \<Rightarrow> bool" where
  "uri_unreserved c \<longleftrightarrow> is_digit c \<or> list_ex (\<lambda>(lo, hi). lo \<le> c \<and> c \<le> hi) [(CHR ''A'', CHR ''Z''), (CHR ''a'', CHR ''z'')]
     \<or> c \<in> set ''-_.!~*()'' \<or> c = CHR 0x27"

definition upper_hex_char :: "nat \<Rightarrow> char" where
  "upper_hex_char d = ''0123456789ABCDEF'' ! d"

definition percent :: "nat \<Rightarrow> string" where
  "percent b = [CHR 0x25, upper_hex_char (b div 16), upper_hex_char (b mod 16)]"

definition encode_char :: "char \<Rightarrow> string" where
  "encode_char c = (let n = of_char c :: nat in
     if uri_unreserved c then [c]
     else if n < 128 then percent n
     else percent (192 + n div 64) @ percent (128 + n mod 64))"

definition encodeURIComponent :: "string \<Rightarrow> string" where
  "encodeURIComponent s = concat (map encode_char s)"

definition hex_digit_val :: "char \<Rightarrow> nat option" where
  "hex_digit_val c =
     (if is_digit c then Some (of_char c - 48)
      else if CHR ''a'' \<le> c \<and> c \<le> CHR ''f'' then Some (of_char c - 87)
      else if CHR ''A'' \<le> c \<and> c \<le> CHR ''F'' then Some (of_char c - 55)
      else None)"

definition hex_pair :: "char \<Rightarrow> char \<Rightarrow> nat option" where
  "hex_pair a b = (case (hex_digit_val a, hex_digit_val b) of (Some x, Some y) \<Rightarrow> Some (16 * x + y) | _ \<Rightarrow> None)"

fun decodeURIComponent :: "string \<Rightarrow> string option" where
  "decodeURIComponent [] = Some []"
| "decodeURIComponent (c # s) =
     (if c \<noteq> CHR 0x25 then map_option (Cons c) (decodeURIComponent s)
      else case s of
        a # b # s' \<Rightarrow>
          (case hex_pair a b of
             None \<Rightarrow> None
           | Some n \<Rightarrow>
               if n < 128 then map_option (Cons (char_of n)) (decodeURIComponent s')
               else if n = 194 \<or> n = 195 then
                 (case s' of
                    p # x # y # s'' \<Rightarrow>
                      (case hex_pair x y of
                         None \<Rightarrow> None
                       | Some k \<Rightarrow>
                           if p = CHR 0x25 \<and> 128 \<le> k \<and> k < 192
                           then map_option (Cons (char_of (64 * (n - 192) + (k - 128)))) (decodeURIComponent s'')
                           else None)
                  | _ \<Rightarrow> None)
               else None)
      | _ \<Rightarrow> None)"

definition isValidDebugSteps :: "(string \<Rightarrow> jval option) \<Rightarrow> string \<Rightarrow> bool" where
  "isValidDebugSteps jsonParse s \<longleftrightarrow>
     boundedCanonicalRouteText s (128 * 1024)
     \<and> (case Option.bind (decodeURIComponent s) jsonParse of
          Some (JArr steps) \<Rightarrow>
            length steps \<le> 128 \<and> list_all (on_string (\<lambda>x. length x \<le> 32 * 1024)) steps
        | _ \<Rightarrow> False)"

definition first_param :: "string \<Rightarrow> url \<Rightarrow> string option" where
  "first_param k u = map_of (searchParams u) k"

definition isCanonicalSidepanelSenderUrl ::
  "(string \<Rightarrow> jval option) \<Rightarrow> (string \<Rightarrow> url option) \<Rightarrow> string \<Rightarrow> string \<Rightarrow> bool" where
  "isCanonicalSidepanelSenderUrl jsonParse parseUrl actualValue expectedValue =
     (case (parseUrl actualValue, parseUrl expectedValue) of
        (Some actual, Some expected) \<Rightarrow>
          (let session = first_param ''session'' actual; fresh = first_param ''new'' actual;
               testSteps = first_param ''teststeps'' actual; provider = first_param ''provider'' actual;
               model = first_param ''model'' actual;
               debugPartCount = length (filter (\<lambda>p. p \<noteq> None) [testSteps, provider, model]) in
           protocol expected = ''chrome-extension:'' \<and> protocol actual = protocol expected
           \<and> host actual = host expected \<and> pathname actual = pathname expected \<and> hash_part actual = []
           \<and> list_all (\<lambda>(k, _). k \<in> set SIDEPANEL_ROUTE_QUERY_KEYS \<and> length (getAll k (searchParams actual)) = 1)
               (searchParams actual)
           \<and> pred_option isSidepanelDocumentNonce (first_param SIDEPANEL_DOCUMENT_NONCE_PARAM actual)
           \<and> pred_option isSidepanelCapabilityId session
           \<and> pred_option (\<lambda>v. v = ''true'') fresh
           \<and> \<not> (fresh \<noteq> None \<and> session \<noteq> None)
           \<and> (debugPartCount = 0 \<or> debugPartCount = 3)
           \<and> (case (testSteps, provider, model) of
                (Some t, Some p, Some m) \<Rightarrow>
                  isValidDebugSteps jsonParse t \<and> boundedCanonicalRouteText p 256 \<and> boundedCanonicalRouteText m 256
              | _ \<Rightarrow> True))
      | _ \<Rightarrow> False)"

definition sidepanelDocumentNonce :: "(string \<Rightarrow> url option) \<Rightarrow> string \<Rightarrow> string option" where
  "sidepanelDocumentNonce parseUrl v =
     (case parseUrl v of
        None \<Rightarrow> None
      | Some u \<Rightarrow>
          (case getAll SIDEPANEL_DOCUMENT_NONCE_PARAM (searchParams u) of
             [n] \<Rightarrow> if isSidepanelDocumentNonce n then Some n else None
           | _ \<Rightarrow> None))"

subsection \<open>Capability material and port names\<close>

record capability =
  continuationToken :: string
  transactionId :: string
  leaseId :: string

record tracking_port = capability +
  portWindowId :: int
  documentNonce :: string

record runtime_port = tracking_port +
  portClientId :: string

definition MAX_SAFE_INTEGER :: int where
  "MAX_SAFE_INTEGER = 9007199254740991"

definition usableCanonicalWindowId :: "int \<Rightarrow> bool" where
  "usableCanonicalWindowId i \<longleftrightarrow> 0 \<le> i \<and> i \<le> MAX_SAFE_INTEGER"

text \<open>\<open>validateCapabilityMaterial\<close> throws; here it is the test, its failure the error text.\<close>

definition validateCapabilityMaterial :: "'a capability_scheme \<Rightarrow> string option" where
  "validateCapabilityMaterial m =
     (if \<not> isSidepanelContinuationToken (continuationToken m)
      then Some ''continuationToken must be a canonical 256-bit token''
      else if \<not> isSidepanelCapabilityId (transactionId m) then Some ''transactionId must be a canonical UUID v4''
      else if \<not> isSidepanelCapabilityId (leaseId m) then Some ''leaseId must be a canonical UUID v4''
      else None)"

definition sidepanelTrackingPortName :: "'a tracking_port_scheme \<Rightarrow> string + string" where
  "sidepanelTrackingPortName p =
     (if \<not> usableCanonicalWindowId (portWindowId p) then Inl ''windowId must be a non-negative safe integer''
      else if \<not> isSidepanelDocumentNonce (documentNonce p) then Inl ''documentNonce must be a canonical UUID v4''
      else case validateCapabilityMaterial p of
        Some e \<Rightarrow> Inl e
      | None \<Rightarrow> Inr (join '':'' [''sidepanel'', int_text (portWindowId p), documentNonce p,
          continuationToken p, transactionId p, leaseId p]))"

definition agentRuntimePortName :: "runtime_port \<Rightarrow> string + string" where
  "agentRuntimePortName p =
     (if \<not> nonblank (portClientId p) then Inl ''clientId must be non-empty''
      else if \<not> usableCanonicalWindowId (portWindowId p) then Inl ''windowId must be a non-negative safe integer''
      else if \<not> isSidepanelDocumentNonce (documentNonce p) then Inl ''documentNonce must be a canonical UUID v4''
      else case validateCapabilityMaterial p of
        Some e \<Rightarrow> Inl e
      | None \<Rightarrow> Inr (join '':'' [''agent-runtime'', encodeURIComponent (portClientId p), int_text (portWindowId p),
          documentNonce p, continuationToken p, transactionId p, leaseId p]))"

text \<open>The group of a decimal numeral without leading zeros.\<close>

definition canonical_digits :: "string \<Rightarrow> bool" where
  "canonical_digits s \<longleftrightarrow> s = ''0'' \<or> s \<noteq> [] \<and> list_all is_digit s \<and> hd s \<noteq> CHR ''0''"

definition isCapability :: "string \<Rightarrow> string \<Rightarrow> string \<Rightarrow> bool" where
  "isCapability t x l \<longleftrightarrow> isSidepanelContinuationToken t \<and> isSidepanelCapabilityId x \<and> isSidepanelCapabilityId l"

definition parseSidepanelTrackingPortName :: "string \<Rightarrow> tracking_port option" where
  "parseSidepanelTrackingPortName name =
     (case split_on (CHR '':'') name of
        [prefix, w, n, t, x, l] \<Rightarrow>
          (if prefix = ''sidepanel'' \<and> canonical_digits w \<and> n \<noteq> [] \<and> t \<noteq> [] \<and> x \<noteq> [] \<and> l \<noteq> [] then
             let p = \<lparr>continuationToken = t, transactionId = x, leaseId = l,
               portWindowId = int (undecimal w), documentNonce = n\<rparr> in
             if \<not> usableCanonicalWindowId (portWindowId p) \<or> \<not> isSidepanelDocumentNonce n \<or> \<not> isCapability t x l
             then None
             else if sidepanelTrackingPortName p = Inr name then Some p else None
           else None)
      | _ \<Rightarrow> None)"

definition parseAgentRuntimePortName :: "string \<Rightarrow> runtime_port option" where
  "parseAgentRuntimePortName name =
     (case split_on (CHR '':'') name of
        [prefix, c, w, n, t, x, l] \<Rightarrow>
          (if prefix = ''agent-runtime'' \<and> c \<noteq> [] \<and> canonical_digits w \<and> n \<noteq> [] \<and> t \<noteq> [] \<and> x \<noteq> [] \<and> l \<noteq> [] then
             (case decodeURIComponent c of
                None \<Rightarrow> None
              | Some client \<Rightarrow>
                  let p = \<lparr>continuationToken = t, transactionId = x, leaseId = l,
                    portWindowId = int (undecimal w), documentNonce = n, portClientId = client\<rparr> in
                  if \<not> nonblank client \<or> \<not> usableCanonicalWindowId (portWindowId p) then None
                  else if \<not> isSidepanelDocumentNonce n \<or> \<not> isCapability t x l \<or> agentRuntimePortName p \<noteq> Inr name
                  then None
                  else Some p)
           else None)
      | _ \<Rightarrow> None)"

subsection \<open>Messages of the window authority\<close>

definition hasOnlyKeys :: "(string \<times> jval) list \<Rightarrow> string list \<Rightarrow> bool" where
  "hasOnlyKeys fs keys \<longleftrightarrow> list_all (\<lambda>(k, _). k \<in> set keys) fs"

text \<open>The three capability members of a message.\<close>

definition capability_members :: "(string \<times> jval) list \<Rightarrow> bool" where
  "capability_members fs \<longleftrightarrow>
     on_string isSidepanelContinuationToken (jget ''continuationToken'' fs)
     \<and> on_string isSidepanelCapabilityId (jget ''transactionId'' fs)
     \<and> on_string isSidepanelCapabilityId (jget ''leaseId'' fs)"

fun isSidepanelCapabilityMaterial :: "jval \<Rightarrow> bool" where
  "isSidepanelCapabilityMaterial (JObj fs) =
     (hasOnlyKeys fs [''continuationToken'', ''transactionId'', ''leaseId''] \<and> capability_members fs)"
| "isSidepanelCapabilityMaterial _ = False"

fun isSidepanelWindowPrepareRequest :: "jval \<Rightarrow> bool" where
  "isSidepanelWindowPrepareRequest (JObj fs) =
     (hasOnlyKeys fs [''type'', ''nonce'', ''proof'']
      \<and> jget ''type'' fs = JStr ''sidepanel-prepare-window''
      \<and> on_string isSidepanelDocumentNonce (jget ''nonce'' fs)
      \<and> (jget ''proof'' fs = JUndef \<or> isSidepanelCapabilityMaterial (jget ''proof'' fs)))"
| "isSidepanelWindowPrepareRequest _ = False"

fun isSidepanelWindowConfirmRequest :: "jval \<Rightarrow> bool" where
  "isSidepanelWindowConfirmRequest (JObj fs) =
     (hasOnlyKeys fs [''type'', ''nonce'', ''continuationToken'', ''transactionId'', ''leaseId'']
      \<and> jget ''type'' fs = JStr ''sidepanel-confirm-window''
      \<and> on_string isSidepanelDocumentNonce (jget ''nonce'' fs)
      \<and> capability_members fs)"
| "isSidepanelWindowConfirmRequest _ = False"

fun usableWindowId :: "jval \<Rightarrow> bool" where
  "usableWindowId (JNum (Fin m k)) = (m mod 10 ^ k = 0 \<and> 0 \<le> m \<and> m div 10 ^ k \<le> MAX_SAFE_INTEGER)"
| "usableWindowId _ = False"

text \<open>\<open>isPrepareResponse\<close> and \<open>isConfirmResponse\<close> differ in the phase they accept.\<close>

fun isPhaseResponse :: "string \<Rightarrow> jval \<Rightarrow> bool" where
  "isPhaseResponse phase (JObj fs) =
     (case jget ''ok'' fs of
        JBool False \<Rightarrow>
          hasOnlyKeys fs [''ok'', ''error''] \<and> on_string (\<lambda>e. e \<noteq> []) (jget ''error'' fs)
      | JBool True \<Rightarrow>
          hasOnlyKeys fs [''ok'', ''phase'', ''windowId'', ''continuationToken'', ''transactionId'', ''leaseId'']
          \<and> jget ''phase'' fs = JStr phase
          \<and> usableWindowId (jget ''windowId'' fs)
          \<and> capability_members fs
      | _ \<Rightarrow> False)"
| "isPhaseResponse phase _ = False"

definition isPrepareResponse :: "jval \<Rightarrow> bool" where
  "isPrepareResponse v = isPhaseResponse ''pending'' v"

definition isConfirmResponse :: "jval \<Rightarrow> bool" where
  "isConfirmResponse v = isPhaseResponse ''active'' v"

subsection \<open>Obtaining a window identity\<close>

record resolved_identity = capability +
  resolvedWindowId :: int

fun str_val :: "jval \<Rightarrow> string" where
  "str_val (JStr s) = s"
| "str_val _ = []"

fun int_val :: "jval \<Rightarrow> int" where
  "int_val (JNum (Fin m k)) = m div 10 ^ k"
| "int_val _ = 0"

text \<open>The identity a successful response carries.\<close>

fun resolved_of :: "jval \<Rightarrow> resolved_identity option" where
  "resolved_of (JObj fs) =
     (if jget ''ok'' fs = JBool True then
        Some \<lparr>continuationToken = str_val (jget ''continuationToken'' fs),
          transactionId = str_val (jget ''transactionId'' fs), leaseId = str_val (jget ''leaseId'' fs),
          resolvedWindowId = int_val (jget ''windowId'' fs)\<rparr>
      else None)"
| "resolved_of _ = None"

text \<open>What an attempt gives: a response that is well formed and ok; any other is retried.\<close>

definition attempt_result :: "(jval \<Rightarrow> bool) \<Rightarrow> jval option \<Rightarrow> resolved_identity option" where
  "attempt_result accepts r =
     (case r of None \<Rightarrow> None | Some v \<Rightarrow> if accepts v then resolved_of v else None)"

definition retryOptions :: "int option \<Rightarrow> int option \<Rightarrow> string + (nat \<times> nat)" where
  "retryOptions maxAttempts retryDelayMs =
     (let m = (case maxAttempts of None \<Rightarrow> 40 | Some x \<Rightarrow> x);
          d = (case retryDelayMs of None \<Rightarrow> 25 | Some x \<Rightarrow> x) in
      if \<not> (m \<le> MAX_SAFE_INTEGER \<and> 1 \<le> m)
      then Inl ''Sidepanel window resolution attempts must be a positive safe integer''
      else if \<not> (d \<le> MAX_SAFE_INTEGER \<and> 0 \<le> d)
      then Inl ''Sidepanel window resolution delay must be a non-negative safe integer''
      else Inr (nat m, nat d))"

text \<open>
  The loop over the attempts from \<open>i\<close> on, \<open>n\<close> of them left. It returns the identity, if an attempt
  gave one, the requests sent and the delays waited between them.
\<close>

fun resolve_loop ::
  "(jval \<Rightarrow> bool) \<Rightarrow> (jval \<Rightarrow> nat \<Rightarrow> jval option) \<Rightarrow> jval \<Rightarrow> nat \<Rightarrow> nat \<Rightarrow> nat
     \<Rightarrow> resolved_identity option \<times> jval list \<times> nat list" where
  "resolve_loop accepts send request delay i 0 = (None, [], [])"
| "resolve_loop accepts send request delay i (Suc n) =
     (case attempt_result accepts (send request i) of
        Some r \<Rightarrow> (Some r, [request], [])
      | None \<Rightarrow>
          (case resolve_loop accepts send request delay (Suc i) n of
             (r, sent, waits) \<Rightarrow> (r, request # sent, if n = 0 then waits else delay # waits)))"

definition capability_fields :: "'a capability_scheme \<Rightarrow> (string \<times> jval) list" where
  "capability_fields c = [(''continuationToken'', JStr (continuationToken c)),
     (''transactionId'', JStr (transactionId c)), (''leaseId'', JStr (leaseId c))]"

definition prepare_request :: "string \<Rightarrow> capability option \<Rightarrow> jval" where
  "prepare_request nonce proof_material =
     JObj ([(''type'', JStr ''sidepanel-prepare-window''), (''nonce'', JStr nonce)]
       @ (case proof_material of None \<Rightarrow> [] | Some c \<Rightarrow> [(''proof'', JObj (capability_fields c))]))"

definition confirm_request :: "string \<Rightarrow> capability \<Rightarrow> jval" where
  "confirm_request nonce pending =
     JObj ([(''type'', JStr ''sidepanel-confirm-window''), (''nonce'', JStr nonce)] @ capability_fields pending)"

definition is_capability :: "'a capability_scheme \<Rightarrow> bool" where
  "is_capability c \<longleftrightarrow> isCapability (continuationToken c) (transactionId c) (leaseId c)"

definition prepareSidepanelWindowIdentity ::
  "(string \<Rightarrow> url option) \<Rightarrow> (jval \<Rightarrow> nat \<Rightarrow> jval option) \<Rightarrow> string \<Rightarrow> capability option
     \<Rightarrow> int option \<Rightarrow> int option \<Rightarrow> (string + resolved_identity) \<times> jval list \<times> nat list" where
  "prepareSidepanelWindowIdentity parseUrl send currentUrl proof_material maxAttempts retryDelayMs =
     (case sidepanelDocumentNonce parseUrl currentUrl of
        None \<Rightarrow> (Inl ''Sidepanel document is missing its authenticated context nonce'', [], [])
      | Some nonce \<Rightarrow>
          if \<not> pred_option is_capability proof_material
          then (Inl ''Sidepanel document has malformed continuation material'', [], [])
          else case retryOptions maxAttempts retryDelayMs of
            Inl e \<Rightarrow> (Inl e, [], [])
          | Inr (n, d) \<Rightarrow>
              (case resolve_loop isPrepareResponse send (prepare_request nonce proof_material) d 0 n of
                 (Some r, sent, waits) \<Rightarrow> (Inr r, sent, waits)
               | (None, sent, waits) \<Rightarrow>
                   (Inl ''Failed to prepare authoritative sidepanel browser-window continuation'', sent, waits)))"

definition confirmSidepanelWindowIdentity ::
  "(string \<Rightarrow> url option) \<Rightarrow> (jval \<Rightarrow> nat \<Rightarrow> jval option) \<Rightarrow> string \<Rightarrow> capability
     \<Rightarrow> int option \<Rightarrow> int option \<Rightarrow> (string + resolved_identity) \<times> jval list \<times> nat list" where
  "confirmSidepanelWindowIdentity parseUrl send currentUrl pending maxAttempts retryDelayMs =
     (case sidepanelDocumentNonce parseUrl currentUrl of
        None \<Rightarrow> (Inl ''Sidepanel document is missing its authenticated context nonce'', [], [])
      | Some nonce \<Rightarrow>
          if \<not> is_capability pending then (Inl ''Sidepanel document has malformed pending material'', [], [])
          else case retryOptions maxAttempts retryDelayMs of
            Inl e \<Rightarrow> (Inl e, [], [])
          | Inr (n, d) \<Rightarrow>
              (case resolve_loop isConfirmResponse send (confirm_request nonce pending) d 0 n of
                 (Some r, sent, waits) \<Rightarrow> (Inr r, sent, waits)
               | (None, sent, waits) \<Rightarrow>
                   (Inl ''Failed to confirm authoritative sidepanel browser-window continuation'', sent, waits)))"

subsection \<open>Splitting and percent encoding\<close>

lemma encode_char_no_colon: "CHR '':'' \<notin> set (encode_char c)"
proof -
  have hex: "upper_hex_char n \<noteq> CHR '':''" if "n < 16" for n
    using that hex_digit_cases [of n] by (auto simp: upper_hex_char_def)
  have p: "CHR '':'' \<notin> set (percent n)" if "n < 256" for n
  proof -
    have "upper_hex_char (n div 16) \<noteq> CHR '':''" by (rule hex) (use that in simp)
    moreover have "upper_hex_char (n mod 16) \<noteq> CHR '':''" by (rule hex) simp
    ultimately show ?thesis by (auto simp: percent_def)
  qed
  have "of_char c < (256::nat)" by simp
  then have "192 + of_char c div 64 < (256::nat)" "128 + of_char c mod 64 < (256::nat)" by linarith+
  then have "CHR '':'' \<notin> set (percent (192 + of_char c div 64) @ percent (128 + of_char c mod 64))"
    using p by simp
  moreover have "CHR '':'' \<notin> set [c]" if "uri_unreserved c"
    using that by (auto simp: uri_unreserved_def is_digit_def less_eq_char_def)
  ultimately show ?thesis using p [of "of_char c"] by (simp add: encode_char_def Let_def)
qed

lemma encode_no_colon: "CHR '':'' \<notin> set (encodeURIComponent s)"
  using encode_char_no_colon by (auto simp: encodeURIComponent_def)

lemma hex_val_upper: "n < 16 \<Longrightarrow> hex_digit_val (upper_hex_char n) = Some n"
  using hex_digit_cases [of n] by (auto simp: hex_digit_val_def upper_hex_char_def is_digit_def less_eq_char_def)

lemma hex_pair_percent: "n < 256 \<Longrightarrow> hex_pair (upper_hex_char (n div 16)) (upper_hex_char (n mod 16)) = Some n"
  by (simp add: hex_pair_def hex_val_upper)

lemma decode_encode_char: "decodeURIComponent (encode_char c @ s) = map_option (Cons c) (decodeURIComponent s)"
proof -
  let ?n = "of_char c :: nat"
  have n: "?n < 256" by simp
  consider "uri_unreserved c" | "\<not> uri_unreserved c" "?n < 128" | "\<not> uri_unreserved c" "128 \<le> ?n" by linarith
  then show ?thesis
  proof cases
    case 1
    then have "c \<noteq> CHR 0x25" by (auto simp: uri_unreserved_def is_digit_def less_eq_char_def)
    with 1 show ?thesis by (simp add: encode_char_def)
  next
    case 2
    then show ?thesis
      by (simp add: encode_char_def Let_def percent_def hex_pair_percent)
  next
    case 3
    have d: "192 + ?n div 64 = 194 \<or> 192 + ?n div 64 = 195" using n 3(2) by linarith
    have hi: "hex_pair (upper_hex_char ((192 + ?n div 64) div 16)) (upper_hex_char ((192 + ?n div 64) mod 16))
        = Some (192 + ?n div 64)"
      by (rule hex_pair_percent) (use d in auto)
    have lo: "hex_pair (upper_hex_char ((128 + ?n mod 64) div 16)) (upper_hex_char ((128 + ?n mod 64) mod 16))
        = Some (128 + ?n mod 64)"
      by (rule hex_pair_percent) (use n in simp)
    have chr: "char_of (64 * (192 + ?n div 64 - 192) + (128 + ?n mod 64 - 128)) = c"
      by simp
    have enc: "encode_char c = percent (192 + ?n div 64) @ percent (128 + ?n mod 64)"
      using 3 by (simp add: encode_char_def Let_def)
    show ?thesis
      using d chr by (simp add: enc percent_def hi lo del: char_of_mod_256)
  qed
qed

lemma decode_encode: "decodeURIComponent (encodeURIComponent s) = Some s"
proof (induction s)
  case (Cons c s)
  then show ?case by (simp add: encodeURIComponent_def decode_encode_char)
qed (simp add: encodeURIComponent_def)

subsection \<open>Port names are identities\<close>

lemma matches_excludes: "matches ps s \<Longrightarrow> \<forall>p \<in> set ps. \<not> p c \<Longrightarrow> c \<notin> set s"
  unfolding matches_def by (induction rule: list_all2_induct) auto

lemma matches_nonempty: "matches ps s \<Longrightarrow> ps \<noteq> [] \<Longrightarrow> s \<noteq> []"
  by (auto simp: matches_def)

lemma lower_hex_no_colon: "\<not> lower_hex CHR '':''"
  by (simp add: lower_hex_def is_digit_def less_eq_char_def)

lemma uuid_plain:
  assumes "matches UUID_V4_PATTERN s"
  shows "CHR '':'' \<notin> set s \<and> s \<noteq> []"
  using assms matches_excludes [OF assms, of "CHR '':''"] matches_nonempty [OF assms]
  by (auto simp: UUID_V4_PATTERN_def lower_hex_no_colon)

lemma token_plain:
  assumes "isSidepanelContinuationToken s"
  shows "CHR '':'' \<notin> set s \<and> s \<noteq> []"
proof -
  from assms have m: "matches CONTINUATION_TOKEN_PATTERN s" by (simp add: isSidepanelContinuationToken_def)
  from matches_excludes [OF m, of "CHR '':''"] matches_nonempty [OF m]
  show ?thesis by (auto simp: CONTINUATION_TOKEN_PATTERN_def lower_hex_no_colon)
qed

lemma capability_plain:
  assumes "isCapability t x l"
  shows "CHR '':'' \<notin> set t \<and> t \<noteq> []" "CHR '':'' \<notin> set x \<and> x \<noteq> []" "CHR '':'' \<notin> set l \<and> l \<noteq> []"
  using assms token_plain [of t] uuid_plain [of x] uuid_plain [of l]
  by (auto simp: isCapability_def isSidepanelCapabilityId_def)

lemma window_text:
  assumes "usableCanonicalWindowId i"
  shows "int_text i = decimal (nat i)" "CHR '':'' \<notin> set (int_text i)" "canonical_digits (int_text i)"
    "int (undecimal (int_text i)) = i"
proof -
  from assms have i: "0 \<le> i" by (simp add: usableCanonicalWindowId_def)
  then show t: "int_text i = decimal (nat i)" by (simp add: int_text_def)
  show "CHR '':'' \<notin> set (int_text i)"
    using decimal_digits [of "nat i"] by (auto simp: t list_all_iff is_digit_def less_eq_char_def)
  show "canonical_digits (int_text i)"
  proof (cases "nat i = 0")
    case True
    then show ?thesis unfolding t True by (subst decimal.simps) (simp add: canonical_digits_def digit_char_def)
  next
    case False
    then show ?thesis
      by (simp add: t canonical_digits_def decimal_nonempty decimal_digits decimal_no_leading_zero)
  qed
  show "int (undecimal (int_text i)) = i" using i by (simp add: t undecimal_decimal)
qed

lemma capability_valid: "validateCapabilityMaterial p = None \<longleftrightarrow> is_capability p"
  by (auto simp: validateCapabilityMaterial_def is_capability_def isCapability_def)

definition tracking_ok :: "'a tracking_port_scheme \<Rightarrow> bool" where
  "tracking_ok p \<longleftrightarrow> usableCanonicalWindowId (portWindowId p) \<and> isSidepanelDocumentNonce (documentNonce p)
     \<and> is_capability p"

definition tracking_text :: "tracking_port \<Rightarrow> string" where
  "tracking_text p = join '':'' [''sidepanel'', int_text (portWindowId p), documentNonce p,
     continuationToken p, transactionId p, leaseId p]"

definition runtime_text :: "runtime_port \<Rightarrow> string" where
  "runtime_text p = join '':'' [''agent-runtime'', encodeURIComponent (portClientId p), int_text (portWindowId p),
     documentNonce p, continuationToken p, transactionId p, leaseId p]"

lemma tracking_name: "sidepanelTrackingPortName p = Inr w \<longleftrightarrow> tracking_ok p \<and> w = tracking_text p"
  by (cases "validateCapabilityMaterial p")
    (auto simp: sidepanelTrackingPortName_def tracking_ok_def tracking_text_def capability_valid [symmetric])

lemma runtime_name:
  "agentRuntimePortName p = Inr w \<longleftrightarrow> nonblank (portClientId p) \<and> tracking_ok p \<and> w = runtime_text p"
  by (cases "validateCapabilityMaterial p")
    (auto simp: agentRuntimePortName_def tracking_ok_def runtime_text_def capability_valid [symmetric])

lemma nonce_plain: "isSidepanelDocumentNonce s \<Longrightarrow> CHR '':'' \<notin> set s \<and> s \<noteq> []"
  by (simp add: isSidepanelDocumentNonce_def uuid_plain)

lemma split_tracking:
  assumes "tracking_ok p"
  shows "split_on (CHR '':'') (tracking_text p) =
    [''sidepanel'', int_text (portWindowId p), documentNonce p, continuationToken p, transactionId p, leaseId p]"
  using assms capability_plain [of "continuationToken p" "transactionId p" "leaseId p"] nonce_plain [of "documentNonce p"]
    window_text(2) [of "portWindowId p"]
  by (simp add: tracking_text_def tracking_ok_def is_capability_def split_on_append split_on_plain)

lemma encode_nonempty: "s \<noteq> [] \<Longrightarrow> encodeURIComponent s \<noteq> []"
  by (cases s) (auto simp: encodeURIComponent_def encode_char_def percent_def Let_def)

lemma split_runtime:
  assumes "tracking_ok p"
  shows "split_on (CHR '':'') (runtime_text p) =
    [''agent-runtime'', encodeURIComponent (portClientId p), int_text (portWindowId p), documentNonce p,
     continuationToken p, transactionId p, leaseId p]"
  using assms capability_plain [of "continuationToken p" "transactionId p" "leaseId p"] nonce_plain [of "documentNonce p"]
    window_text(2) [of "portWindowId p"]
  by (simp add: runtime_text_def tracking_ok_def is_capability_def split_on_append split_on_plain encode_no_colon)

lemma parse_tracking: "tracking_ok p \<Longrightarrow> parseSidepanelTrackingPortName (tracking_text p) = Some p"
proof -
  assume ok: "tracking_ok p"
  then have w: "usableCanonicalWindowId (portWindowId p)" and n: "isSidepanelDocumentNonce (documentNonce p)"
    and c: "isCapability (continuationToken p) (transactionId p) (leaseId p)"
    by (simp_all add: tracking_ok_def is_capability_def)
  have eq: "\<lparr>continuationToken = continuationToken p, transactionId = transactionId p, leaseId = leaseId p,
      portWindowId = portWindowId p, documentNonce = documentNonce p\<rparr> = p" by simp
  have name: "sidepanelTrackingPortName p = Inr (tracking_text p)" using ok by (simp add: tracking_name)
  show ?thesis
    by (simp add: parseSidepanelTrackingPortName_def split_tracking [OF ok] window_text [OF w]
        window_text(4) [OF w, unfolded window_text(1) [OF w]] nonce_plain [OF n] capability_plain [OF c] c n w
        window_text(3) [OF w, unfolded window_text(1) [OF w]] eq name Let_def)
qed

lemma parse_tracking_sound:
  "parseSidepanelTrackingPortName w = Some p \<Longrightarrow> tracking_ok p \<and> tracking_text p = w"
  by (auto simp: parseSidepanelTrackingPortName_def Let_def tracking_name split: list.splits if_splits)

lemma parse_runtime:
  "tracking_ok p \<Longrightarrow> nonblank (portClientId p) \<Longrightarrow> parseAgentRuntimePortName (runtime_text p) = Some p"
proof -
  assume ok: "tracking_ok p" and nb: "nonblank (portClientId p)"
  then have w: "usableCanonicalWindowId (portWindowId p)" and n: "isSidepanelDocumentNonce (documentNonce p)"
    and c: "isCapability (continuationToken p) (transactionId p) (leaseId p)"
    by (simp_all add: tracking_ok_def is_capability_def)
  have eq: "\<lparr>continuationToken = continuationToken p, transactionId = transactionId p, leaseId = leaseId p,
      portWindowId = portWindowId p, documentNonce = documentNonce p, portClientId = portClientId p\<rparr> = p" by simp
  have name: "agentRuntimePortName p = Inr (runtime_text p)" using ok nb by (simp add: runtime_name)
  show ?thesis
    by (simp add: parseAgentRuntimePortName_def split_runtime [OF ok] window_text [OF w]
        window_text(4) [OF w, unfolded window_text(1) [OF w]] nonce_plain [OF n] capability_plain [OF c] c n w
        window_text(3) [OF w, unfolded window_text(1) [OF w]] eq name Let_def decode_encode nb
        encode_nonempty [OF nonblank_nonempty [OF nb]])
qed

lemma parse_runtime_sound:
  "parseAgentRuntimePortName w = Some p \<Longrightarrow> tracking_ok p \<and> nonblank (portClientId p) \<and> runtime_text p = w"
  by (auto simp: parseAgentRuntimePortName_def Let_def runtime_name split: list.splits if_splits option.splits)

interpretation tracking_ports: codec tracking_text parseSidepanelTrackingPortName tracking_ok
  by unfold_locales (auto simp: parse_tracking dest: parse_tracking_sound)

interpretation runtime_ports: codec runtime_text parseAgentRuntimePortName
    "\<lambda>p. tracking_ok p \<and> nonblank (portClientId p)"
  by unfold_locales (auto simp: parse_runtime dest: parse_runtime_sound)

text \<open>
  The tracking port's name is its identity: a name parses to an identity exactly when it is the
  name of that identity, so no two documents share a name and no name has a second reading.
\<close>

theorem tracking_port_roundtrip:
  "parseSidepanelTrackingPortName w = Some p \<longleftrightarrow> sidepanelTrackingPortName p = Inr w"
  by (auto simp: tracking_ports.dec_iff tracking_name)

text \<open>
  C21. The same of the agent runtime's port, whose name also carries the percent-encoded client: it
  parses back to the identity it was printed from, and to no other.
\<close>

theorem runtime_port_roundtrip:
  "parseAgentRuntimePortName w = Some p \<longleftrightarrow> agentRuntimePortName p = Inr w"
  by (auto simp: runtime_ports.dec_iff runtime_name)

subsection \<open>The retry loop\<close>

lemma resolve_loop_some:
  "resolve_loop accepts send q d i n = (Some r, sent, waits) \<Longrightarrow>
     \<exists>k<n. attempt_result accepts (send q (i + k)) = Some r
       \<and> (\<forall>j<k. attempt_result accepts (send q (i + j)) = None)
       \<and> sent = replicate (Suc k) q \<and> waits = replicate k d"
proof (induction n arbitrary: i sent waits)
  case (Suc n)
  show ?case
  proof (cases "attempt_result accepts (send q i)")
    case (Some x)
    with Suc.prems show ?thesis by (intro exI [of _ 0]) simp
  next
    case None
    obtain r' sent' waits' where rest: "resolve_loop accepts send q d (Suc i) n = (r', sent', waits')"
      using prod_cases3 by blast
    with None Suc.prems have eq: "r' = Some r" "sent = q # sent'" "waits = (if n = 0 then waits' else d # waits')"
      by auto
    from Suc.IH [OF rest [unfolded eq(1)]] obtain k where k: "k < n"
      "attempt_result accepts (send q (Suc i + k)) = Some r"
      "\<forall>j<k. attempt_result accepts (send q (Suc i + j)) = None"
      "sent' = replicate (Suc k) q" "waits' = replicate k d" by blast
    from k(3) None have "\<forall>j<Suc k. attempt_result accepts (send q (i + j)) = None"
      by (auto simp: less_Suc_eq_0_disj)
    with k eq show ?thesis by (intro exI [of _ "Suc k"]) auto
  qed
qed simp

lemma resolve_loop_none:
  "resolve_loop accepts send q d i n = (None, sent, waits) \<Longrightarrow>
     (\<forall>j<n. attempt_result accepts (send q (i + j)) = None) \<and> sent = replicate n q \<and> waits = replicate (n - 1) d"
proof (induction n arbitrary: i sent waits)
  case (Suc n)
  obtain r' sent' waits' where rest: "resolve_loop accepts send q d (Suc i) n = (r', sent', waits')"
    using prod_cases3 by blast
  from Suc.prems rest have none: "attempt_result accepts (send q i) = None" and
    eq: "r' = None" "sent = q # sent'" "waits = (if n = 0 then waits' else d # waits')"
    by (auto split: option.splits)
  from Suc.IH [OF rest [unfolded eq(1)]] have ih: "\<forall>j<n. attempt_result accepts (send q (Suc i + j)) = None"
    "sent' = replicate n q" "waits' = replicate (n - 1) d" by blast+
  from ih(1) none have "\<forall>j<Suc n. attempt_result accepts (send q (i + j)) = None"
    by (auto simp: less_Suc_eq_0_disj)
  with ih eq show ?case by (cases n) auto
qed simp

lemma accepted_valid:
  "attempt_result (isPhaseResponse ph) r = Some x \<Longrightarrow>
     is_capability x \<and> usableCanonicalWindowId (resolvedWindowId x)"
proof -
  assume "attempt_result (isPhaseResponse ph) r = Some x"
  then obtain fs where fs: "r = Some (JObj fs)" "isPhaseResponse ph (JObj fs)" "resolved_of (JObj fs) = Some x"
    by (cases r; cases "the r") (auto simp: attempt_result_def split: if_splits)
  from fs(3) have ok: "jget ''ok'' fs = JBool True" by (auto split: if_splits)
  with fs(2) have w: "usableWindowId (jget ''windowId'' fs)" and c: "capability_members fs" by auto
  from c have "is_capability x" using fs(3) ok
    by (cases "jget ''continuationToken'' fs"; cases "jget ''transactionId'' fs"; cases "jget ''leaseId'' fs")
      (auto simp: capability_members_def is_capability_def isCapability_def)
  moreover obtain m k where mk: "jget ''windowId'' fs = JNum (Fin m k)" "m mod 10 ^ k = 0" "0 \<le> m"
    "m div 10 ^ k \<le> MAX_SAFE_INTEGER"
    using w by (cases "jget ''windowId'' fs" rule: usableWindowId.cases) auto
  have "usableCanonicalWindowId (resolvedWindowId x)" using fs(3) ok mk
    by (auto simp: usableCanonicalWindowId_def pos_imp_zdiv_nonneg_iff)
  ultimately show ?thesis by simp
qed

text \<open>
  C22. Preparing a window identity takes the first good answer and never asks more often than
  allowed: with a document nonce, well-formed material and \<open>n\<close> attempts of delay \<open>d\<close>, the request is
  sent with that nonce and material; if an attempt before the \<open>n\<close>th answers with a well-formed
  pending lease, the first such answer is returned after exactly that many requests with a delay
  between each two, and its window and capability are usable; otherwise all \<open>n\<close> attempts are made
  and the error is reported.
\<close>

theorem prepare_takes_first_answer:
  assumes "sidepanelDocumentNonce parseUrl u = Some nonce" and "pred_option is_capability c"
    and "retryOptions maxAttempts delay = Inr (n, d)"
  defines "q \<equiv> prepare_request nonce c"
  shows "isSidepanelWindowPrepareRequest q
    \<and> (case prepareSidepanelWindowIdentity parseUrl send u c maxAttempts delay of
        (Inr r, sent, waits) \<Rightarrow>
          \<exists>k<n. attempt_result isPrepareResponse (send q k) = Some r
            \<and> (\<forall>j<k. attempt_result isPrepareResponse (send q j) = None)
            \<and> sent = replicate (Suc k) q \<and> waits = replicate k d
            \<and> is_capability r \<and> usableCanonicalWindowId (resolvedWindowId r)
      | (Inl e, sent, waits) \<Rightarrow>
          (\<forall>k<n. attempt_result isPrepareResponse (send q k) = None)
            \<and> sent = replicate n q \<and> waits = replicate (n - 1) d)"
proof
  from assms(1) have "isSidepanelDocumentNonce nonce"
    by (auto simp: sidepanelDocumentNonce_def split: option.splits list.splits if_splits)
  with assms(2) show "isSidepanelWindowPrepareRequest q"
    by (cases c) (auto simp: q_def prepare_request_def hasOnlyKeys_def capability_fields_def capability_members_def
        is_capability_def isCapability_def)
next
  have phase: "isPrepareResponse = isPhaseResponse ''pending''" by (simp add: fun_eq_iff isPrepareResponse_def)
  obtain r sent waits where loop: "resolve_loop isPrepareResponse send q d 0 n = (r, sent, waits)"
    using prod_cases3 by blast
  show "case prepareSidepanelWindowIdentity parseUrl send u c maxAttempts delay of
        (Inr r, sent, waits) \<Rightarrow>
          \<exists>k<n. attempt_result isPrepareResponse (send q k) = Some r
            \<and> (\<forall>j<k. attempt_result isPrepareResponse (send q j) = None)
            \<and> sent = replicate (Suc k) q \<and> waits = replicate k d
            \<and> is_capability r \<and> usableCanonicalWindowId (resolvedWindowId r)
      | (Inl e, sent, waits) \<Rightarrow>
          (\<forall>k<n. attempt_result isPrepareResponse (send q k) = None)
            \<and> sent = replicate n q \<and> waits = replicate (n - 1) d"
  proof (cases r)
    case None
    with loop resolve_loop_none [OF loop [unfolded None]] assms(1-3) show ?thesis
      by (simp add: prepareSidepanelWindowIdentity_def q_def)
  next
    case (Some x)
    from resolve_loop_some [OF loop [unfolded Some]] obtain k where k: "k < n"
      "attempt_result isPrepareResponse (send q k) = Some x"
      "\<forall>j<k. attempt_result isPrepareResponse (send q j) = None"
      "sent = replicate (Suc k) q" "waits = replicate k d" by auto
    from accepted_valid [OF k(2) [unfolded phase]] k loop Some assms(1-3) show ?thesis
      by (auto simp: prepareSidepanelWindowIdentity_def q_def)
  qed
qed

subsection \<open>A concrete resolution\<close>

definition sample_nonce :: string where
  "sample_nonce = ''00000000-0000-4000-8000-000000000000''"

definition sample_capability :: capability where
  "sample_capability = \<lparr>continuationToken = replicate 64 CHR ''0'', transactionId = sample_nonce, leaseId = sample_nonce\<rparr>"

definition sample_url :: "string \<Rightarrow> url option" where
  "sample_url v = Some \<lparr>protocol = ''chrome-extension:'', host = ''h'', pathname = ''/sidepanel.html'', hash_part = [],
     searchParams = [(''shuvgeistContext'', sample_nonce)]\<rparr>"

text \<open>A worker that is not up at the first attempt and answers the second.\<close>

definition sample_messenger :: "jval \<Rightarrow> nat \<Rightarrow> jval option" where
  "sample_messenger q i = (if i = 0 then None
     else Some (JObj ([(''ok'', JBool True), (''phase'', JStr ''pending''), (''windowId'', jint 7)]
       @ capability_fields sample_capability)))"

lemma sample_nonce_ok: "isSidepanelDocumentNonce sample_nonce"
  by code_simp

lemma sample_capability_ok: "is_capability sample_capability"
  by code_simp

theorem prepare_takes_first_answer_witness:
  "\<exists>r. prepareSidepanelWindowIdentity sample_url sample_messenger [] (Some sample_capability) None None
     = (Inr r, replicate 2 (prepare_request sample_nonce (Some sample_capability)), [25])
     \<and> is_capability r"
proof -
  let ?q = "prepare_request sample_nonce (Some sample_capability)"
  have url: "sidepanelDocumentNonce sample_url [] = Some sample_nonce"
    using sample_nonce_ok by (simp add: sidepanelDocumentNonce_def sample_url_def getAll_def SIDEPANEL_DOCUMENT_NONCE_PARAM_def)
  have opts: "retryOptions None None = Inr (40, 25)" by (simp add: retryOptions_def MAX_SAFE_INTEGER_def)
  have first: "attempt_result isPrepareResponse (sample_messenger ?q 0) = None"
    by (simp add: attempt_result_def sample_messenger_def)
  have "isPhaseResponse ''pending'' (JObj ([(''ok'', JBool True), (''phase'', JStr ''pending''), (''windowId'', jint 7)]
       @ capability_fields sample_capability))"
    by code_simp
  then have second: "\<exists>r. attempt_result isPrepareResponse (sample_messenger ?q 1) = Some r"
    by (simp add: attempt_result_def sample_messenger_def isPrepareResponse_def)
  obtain res sent waits where run: "prepareSidepanelWindowIdentity sample_url sample_messenger []
      (Some sample_capability) None None = (res, sent, waits)" using prod_cases3 by blast
  note outcome = prepare_takes_first_answer [OF url _ opts, of "Some sample_capability" sample_messenger, unfolded run,
      THEN conjunct2]
  show ?thesis
  proof (cases res)
    case (Inl e)
    with outcome sample_capability_ok second show ?thesis by auto
  next
    case (Inr r)
    with outcome sample_capability_ok obtain k where k: "attempt_result isPrepareResponse (sample_messenger ?q k) = Some r"
      "\<forall>j<k. attempt_result isPrepareResponse (sample_messenger ?q j) = None"
      "sent = replicate (Suc k) ?q" "waits = replicate k 25" "is_capability r" by auto
    have "k \<noteq> 0" using k(1) first by (cases k) auto
    moreover have "\<not> 1 < k" using k(2) second by auto
    ultimately have "k = 1" by simp
    with k run Inr show ?thesis by (simp add: numeral_2_eq_2)
  qed
qed

end
