(* ===== verification/WindowAuthority.thy ===== *)
theory WindowAuthority
  imports SidepanelIdentity
begin

section \<open>The window authority of sidepanel documents\<close>

text \<open>
  \<open>SidepanelWindowAuthority\<close> of \<open>packages/extension/src/agent/sidepanel-window-authority.ts\<close>: which
  sidepanel document holds the lease of which browser window. A window's record is opened (Chrome
  reported the panel), pending (a capability was handed to a document) or active (the document
  confirmed it). Records are saved before a capability is returned and loaded by the next worker.

  The operations that run under \<open>exclusively\<close> are atomic steps here, because no other operation
  changes the records meanwhile. What they read while they await is an argument, the observations
  of type \<open>exclusive_env\<close>: the contexts of each snapshot, whether a window is opening at each
  test, the values the generators return, and whether storage operations succeed. The parts of
  \<open>observeOpened\<close> that run outside the exclusive sections are steps of their own.

  The hash of a continuation token, the generators, \<open>chrome.runtime.getContexts\<close> and URL parsing
  are not code of the repository: they are fields of \<open>authority_config\<close> or observations.
\<close>

subsection \<open>Data\<close>

record authority_context =
  ctxId :: string
  ctxType :: string
  ctxDocument :: "string option"
  ctxOrigin :: "string option"
  ctxUrl :: "string option"
  ctxFrame :: int
  ctxTab :: int
  ctxWindow :: int

record authority_sender =
  senderId :: "string option"
  senderUrl :: "string option"
  senderOrigin :: "string option"
  senderDocument :: "string option"
  senderLifecycle :: "string option"
  senderFrame :: "int option"
  senderTab :: "(int option \<times> int option) option"

record document_identity =
  idContext :: string
  idDocument :: string
  idNonce :: string

record stored_capability =
  verifierDigest :: string
  capTransaction :: string
  capLease :: string

datatype authority_proof =
    OpenedProof string string
  | CapabilityProof document_identity stored_capability

datatype window_record =
    OpenedRecord (recordWindow: int) (openedContext: string) (openedDocument: string)
  | PendingRecord (recordWindow: int) (pendingProof: authority_proof) (recordCandidate: document_identity)
      (recordCapability: stored_capability)
  | ActiveRecord (recordWindow: int) (recordCandidate: document_identity) (recordCapability: stored_capability)

record lease_identity =
  leaseWindow :: int
  leaseDocument :: document_identity
  leaseTransaction :: string
  leaseLease :: string

record authorized_context =
  authorizedContext :: authority_context
  authorizedLease :: lease_identity

record authority_config =
  cfgExtensionId :: string
  cfgSidepanelUrl :: string
  cfgContextType :: string
  cfgParseUrl :: "string \<Rightarrow> url option"
  cfgResolveUrl :: "string \<Rightarrow> string \<Rightarrow> url option"
  cfgJsonParse :: "string \<Rightarrow> jval option"
  cfgHash :: "string \<Rightarrow> string"
  cfgSettleDelay :: "int option"
  cfgMaxAttempts :: "int option"
  cfgRetryDelay :: "int option"

record exclusive_env =
  loadOk :: bool
  cleanupOk :: bool
  saveOk :: bool
  firstContexts :: "authority_context list option"
  secondContexts :: "authority_context list option"
  openingFirst :: "int \<Rightarrow> bool"
  openingSecond :: "int \<Rightarrow> bool"
  genToken :: string
  genTransaction :: string
  genLease :: string

record authority =
  windows :: "(int, window_record) omap"
  pendingCreated :: "int set"
  openTokens :: "nat list"
  nextToken :: nat
  openingWindows :: "(int, nat) omap"
  tainted :: bool
  loaded :: bool
  poisoned :: bool
  store :: jval

subsection \<open>Checks of contexts and senders\<close>

definition extensionOrigin :: "(string \<Rightarrow> url option) \<Rightarrow> string \<Rightarrow> string option" where
  "extensionOrigin parseUrl v =
     (case parseUrl v of
        Some u \<Rightarrow> if protocol u = ''chrome-extension:'' then Some (protocol u @ ''//'' @ host u) else None
      | None \<Rightarrow> None)"

definition same_page :: "url \<Rightarrow> url \<Rightarrow> bool" where
  "same_page a b \<longleftrightarrow> protocol a = protocol b \<and> host a = host b \<and> pathname a = pathname b"

definition sameExtensionPage :: "(string \<Rightarrow> url option) \<Rightarrow> string \<Rightarrow> string \<Rightarrow> bool" where
  "sameExtensionPage parseUrl actual expected =
     (case (parseUrl actual, parseUrl expected) of (Some a, Some b) \<Rightarrow> same_page a b | _ \<Rightarrow> False)"

definition sameOpenedPath :: "authority_config \<Rightarrow> string \<Rightarrow> bool" where
  "sameOpenedPath cfg path =
     (case cfgParseUrl cfg (cfgSidepanelUrl cfg) of
        None \<Rightarrow> False
      | Some expected \<Rightarrow>
          (case cfgResolveUrl cfg path (protocol expected @ ''//'' @ host expected @ ''/'') of
             None \<Rightarrow> False
           | Some actual \<Rightarrow> same_page actual expected))"

definition usableNativeContextWindowId :: "int \<Rightarrow> bool" where
  "usableNativeContextWindowId w \<longleftrightarrow> -1 \<le> w \<and> w \<le> MAX_SAFE_INTEGER"

definition validContext :: "authority_config \<Rightarrow> authority_context \<Rightarrow> bool" where
  "validContext cfg c \<longleftrightarrow>
     (case extensionOrigin (cfgParseUrl cfg) (cfgSidepanelUrl cfg) of
        None \<Rightarrow> False
      | Some origin \<Rightarrow>
          ctxType c = cfgContextType cfg \<and> nonblank (ctxId c)
          \<and> (\<exists>d \<in> set_option (ctxDocument c). nonblank d)
          \<and> ctxOrigin c = Some origin
          \<and> (\<exists>u \<in> set_option (ctxUrl c). nonblank u \<and> sameExtensionPage (cfgParseUrl cfg) u (cfgSidepanelUrl cfg))
          \<and> usableNativeContextWindowId (ctxWindow c))"

definition liveSnapshot :: "authority_config \<Rightarrow> authority_context list \<Rightarrow> authority_context list" where
  "liveSnapshot cfg raw = filter (validContext cfg) raw"

definition context_nonce :: "authority_config \<Rightarrow> authority_context \<Rightarrow> string option" where
  "context_nonce cfg c =
     sidepanelDocumentNonce (cfgParseUrl cfg) (case ctxUrl c of None \<Rightarrow> [] | Some u \<Rightarrow> u)"

definition uniqueRawContextForNonce ::
  "authority_config \<Rightarrow> authority_context list \<Rightarrow> string \<Rightarrow> string option \<Rightarrow> authority_context option" where
  "uniqueRawContextForNonce cfg snapshot nonce documentId =
     (case filter (\<lambda>c. context_nonce cfg c = Some nonce) snapshot of
        [c] \<Rightarrow> if documentId \<noteq> None \<and> ctxDocument c \<noteq> documentId then None else Some c
      | _ \<Rightarrow> None)"

definition validSender :: "authority_config \<Rightarrow> authority_sender \<Rightarrow> bool" where
  "validSender cfg s \<longleftrightarrow>
     (case extensionOrigin (cfgParseUrl cfg) (cfgSidepanelUrl cfg) of
        None \<Rightarrow> False
      | Some origin \<Rightarrow>
          senderId s = Some (cfgExtensionId cfg)
          \<and> (\<exists>u \<in> set_option (senderUrl s). nonblank u
               \<and> isCanonicalSidepanelSenderUrl (cfgJsonParse cfg) (cfgParseUrl cfg) u (cfgSidepanelUrl cfg))
          \<and> senderOrigin s = Some origin
          \<and> senderTab s = None \<and> senderFrame s = None
          \<and> (senderLifecycle s = None \<or> senderLifecycle s = Some ''active''))"

definition candidateFromContext :: "authority_context \<Rightarrow> string \<Rightarrow> document_identity option" where
  "candidateFromContext c nonce =
     (case ctxDocument c of
        Some d \<Rightarrow> if nonblank d then Some \<lparr>idContext = ctxId c, idDocument = d, idNonce = nonce\<rparr> else None
      | None \<Rightarrow> None)"

subsection \<open>The persisted form\<close>

definition document_json :: "document_identity \<Rightarrow> jval" where
  "document_json d = JObj [(''contextId'', JStr (idContext d)), (''documentId'', JStr (idDocument d)),
     (''documentNonce'', JStr (idNonce d))]"

definition capability_json :: "stored_capability \<Rightarrow> (string \<times> jval) list" where
  "capability_json k = [(''verifierDigest'', JStr (verifierDigest k)), (''transactionId'', JStr (capTransaction k)),
     (''leaseId'', JStr (capLease k))]"

fun proof_json :: "authority_proof \<Rightarrow> jval" where
  "proof_json (OpenedProof c d) = JObj [(''kind'', JStr ''opened''), (''contextId'', JStr c), (''documentId'', JStr d)]"
| "proof_json (CapabilityProof d k) =
     JObj ([(''kind'', JStr ''capability''), (''candidate'', document_json d)] @ capability_json k)"

fun record_json :: "window_record \<Rightarrow> jval" where
  "record_json (OpenedRecord w c d) =
     JObj [(''stage'', JStr ''opened''), (''windowId'', jint w), (''contextId'', JStr c), (''documentId'', JStr d)]"
| "record_json (PendingRecord w p d k) =
     JObj [(''stage'', JStr ''pending''), (''windowId'', jint w), (''proof'', proof_json p),
       (''candidate'', document_json d), (''next'', JObj (capability_json k))]"
| "record_json (ActiveRecord w d k) =
     JObj ([(''stage'', JStr ''active''), (''windowId'', jint w), (''candidate'', document_json d)] @ capability_json k)"

text \<open>\<open>state()\<close>: the records sorted by window.\<close>

definition authority_json :: "(int, window_record) omap \<Rightarrow> jval" where
  "authority_json ws = JObj [(''version'', jint 2),
     (''windows'', JArr (map record_json (sort_key recordWindow (ovals ws))))]"

fun validDocumentIdentity :: "jval \<Rightarrow> bool" where
  "validDocumentIdentity (JObj fs) =
     (hasOnlyKeys fs [''contextId'', ''documentId'', ''documentNonce'']
      \<and> on_string nonblank (jget ''contextId'' fs) \<and> on_string nonblank (jget ''documentId'' fs)
      \<and> on_string isSidepanelDocumentNonce (jget ''documentNonce'' fs))"
| "validDocumentIdentity _ = False"

definition validCapabilityFields :: "(string \<times> jval) list \<Rightarrow> bool" where
  "validCapabilityFields fs \<longleftrightarrow>
     on_string isSidepanelContinuationToken (jget ''verifierDigest'' fs)
     \<and> on_string isSidepanelCapabilityId (jget ''transactionId'' fs)
     \<and> on_string isSidepanelCapabilityId (jget ''leaseId'' fs)"

fun validProof :: "jval \<Rightarrow> bool" where
  "validProof (JObj fs) =
     (if jget ''kind'' fs = JStr ''opened'' then
        hasOnlyKeys fs [''kind'', ''contextId'', ''documentId'']
        \<and> on_string nonblank (jget ''contextId'' fs) \<and> on_string nonblank (jget ''documentId'' fs)
      else if jget ''kind'' fs = JStr ''capability'' then
        hasOnlyKeys fs [''kind'', ''candidate'', ''verifierDigest'', ''transactionId'', ''leaseId'']
        \<and> validDocumentIdentity (jget ''candidate'' fs) \<and> validCapabilityFields fs
      else False)"
| "validProof _ = False"

fun validRecord :: "jval \<Rightarrow> bool" where
  "validRecord (JObj fs) =
     (usableWindowId (jget ''windowId'' fs) \<and>
      (if jget ''stage'' fs = JStr ''opened'' then
         hasOnlyKeys fs [''stage'', ''windowId'', ''contextId'', ''documentId'']
         \<and> on_string nonblank (jget ''contextId'' fs) \<and> on_string nonblank (jget ''documentId'' fs)
       else if jget ''stage'' fs = JStr ''active'' then
         hasOnlyKeys fs [''stage'', ''windowId'', ''candidate'', ''verifierDigest'', ''transactionId'', ''leaseId'']
         \<and> validDocumentIdentity (jget ''candidate'' fs) \<and> validCapabilityFields fs
       else if jget ''stage'' fs = JStr ''pending'' then
         (case jget ''next'' fs of
            JObj next \<Rightarrow>
              hasOnlyKeys fs [''stage'', ''windowId'', ''proof'', ''candidate'', ''next'']
              \<and> validProof (jget ''proof'' fs) \<and> validDocumentIdentity (jget ''candidate'' fs)
              \<and> hasOnlyKeys next [''verifierDigest'', ''transactionId'', ''leaseId''] \<and> validCapabilityFields next
          | _ \<Rightarrow> False)
       else False))"
| "validRecord _ = False"

text \<open>The typed record a valid JSON record is.\<close>

definition obj_fields :: "jval \<Rightarrow> (string \<times> jval) list" where
  "obj_fields v = (case v of JObj fs \<Rightarrow> fs | _ \<Rightarrow> [])"

definition document_of :: "jval \<Rightarrow> document_identity" where
  "document_of v = \<lparr>idContext = str_val (jget ''contextId'' (obj_fields v)),
     idDocument = str_val (jget ''documentId'' (obj_fields v)), idNonce = str_val (jget ''documentNonce'' (obj_fields v))\<rparr>"

definition capability_of :: "(string \<times> jval) list \<Rightarrow> stored_capability" where
  "capability_of fs = \<lparr>verifierDigest = str_val (jget ''verifierDigest'' fs),
     capTransaction = str_val (jget ''transactionId'' fs), capLease = str_val (jget ''leaseId'' fs)\<rparr>"

definition proof_of :: "jval \<Rightarrow> authority_proof" where
  "proof_of v = (let fs = obj_fields v in
     if jget ''kind'' fs = JStr ''opened''
     then OpenedProof (str_val (jget ''contextId'' fs)) (str_val (jget ''documentId'' fs))
     else CapabilityProof (document_of (jget ''candidate'' fs)) (capability_of fs))"

definition record_of :: "jval \<Rightarrow> window_record" where
  "record_of v = (let fs = obj_fields v; w = int_val (jget ''windowId'' fs) in
     if jget ''stage'' fs = JStr ''opened''
     then OpenedRecord w (str_val (jget ''contextId'' fs)) (str_val (jget ''documentId'' fs))
     else if jget ''stage'' fs = JStr ''active''
     then ActiveRecord w (document_of (jget ''candidate'' fs)) (capability_of fs)
     else PendingRecord w (proof_of (jget ''proof'' fs)) (document_of (jget ''candidate'' fs))
       (capability_of (obj_fields (jget ''next'' fs))))"

subsection \<open>Loading\<close>

record registry =
  contextOwners :: "(string, int) omap"
  documentOwners :: "(string, int) omap"
  exactDocuments :: "string set"
  documentNonces :: "string set"
  capabilityIds :: "string set"
  verifierDigests :: "string set"

definition empty_registry :: registry where
  "empty_registry = \<lparr>contextOwners = [], documentOwners = [], exactDocuments = {}, documentNonces = {},
     capabilityIds = {}, verifierDigests = {}\<rparr>"

text \<open>\<open>JSON.stringify([contextId, documentId])\<close>.\<close>

definition exact_key :: "document_identity \<Rightarrow> string" where
  "exact_key d = ''['' @ quote (idContext d) @ '','' @ quote (idDocument d) @ '']''"

text \<open>An owner that is some other window.\<close>

definition foreign_owner :: "(string, int) omap \<Rightarrow> string \<Rightarrow> int \<Rightarrow> bool" where
  "foreign_owner m k w \<longleftrightarrow> (case oget m k of None \<Rightarrow> False | Some v \<Rightarrow> v \<noteq> w)"

definition registerIdentity :: "int \<Rightarrow> document_identity \<Rightarrow> registry \<Rightarrow> string + registry" where
  "registerIdentity w d g =
     (if exact_key d \<in> exactDocuments g \<or> idNonce d \<in> documentNonces g
         \<or> foreign_owner (contextOwners g) (idContext d) w \<or> foreign_owner (documentOwners g) (idDocument d) w
      then Inl ''Stored sidepanel authority document identity is not unique''
      else Inr (g\<lparr>exactDocuments := insert (exact_key d) (exactDocuments g),
        documentNonces := insert (idNonce d) (documentNonces g),
        contextOwners := oset (idContext d) w (contextOwners g),
        documentOwners := oset (idDocument d) w (documentOwners g)\<rparr>))"

definition registerCapability :: "stored_capability \<Rightarrow> registry \<Rightarrow> string + registry" where
  "registerCapability k g =
     (if verifierDigest k \<in> verifierDigests g \<or> capTransaction k \<in> capabilityIds g \<or> capLease k \<in> capabilityIds g
         \<or> capTransaction k = capLease k
      then Inl ''Stored sidepanel authority capability is not unique''
      else Inr (g\<lparr>verifierDigests := insert (verifierDigest k) (verifierDigests g),
        capabilityIds := insert (capLease k) (insert (capTransaction k) (capabilityIds g))\<rparr>))"

definition registerOpened :: "int \<Rightarrow> string \<Rightarrow> string \<Rightarrow> registry \<Rightarrow> string + registry" where
  "registerOpened w c d g =
     (if foreign_owner (contextOwners g) c w \<or> foreign_owner (documentOwners g) d w
      then Inl ''Stored sidepanel authority document identity is not unique''
      else Inr (g\<lparr>contextOwners := oset c w (contextOwners g), documentOwners := oset d w (documentOwners g)\<rparr>))"

fun register_record :: "window_record \<Rightarrow> registry \<Rightarrow> string + registry" where
  "register_record (OpenedRecord w c d) g = registerOpened w c d g"
| "register_record (ActiveRecord w d k) g = seq (registerIdentity w d g) (registerCapability k)"
| "register_record (PendingRecord w p d k) g =
     seq (seq (registerIdentity w d g) (registerCapability k))
       (\<lambda>g. case p of OpenedProof _ _ \<Rightarrow> Inr g
         | CapabilityProof d' k' \<Rightarrow> seq (registerIdentity w d' g) (registerCapability k'))"

fun register_all ::
  "jval list \<Rightarrow> registry \<Rightarrow> (int, window_record) omap \<Rightarrow> string + (int, window_record) omap" where
  "register_all [] g ws = Inr ws"
| "register_all (v # vs) g ws =
     (if \<not> validRecord v \<or> oget ws (recordWindow (record_of v)) \<noteq> None
      then Inl ''Stored sidepanel window authority state is malformed''
      else seq (register_record (record_of v) g)
        (\<lambda>g'. register_all vs g' (oset (recordWindow (record_of v)) (record_of v) ws)))"

fun parseAuthorityState :: "jval \<Rightarrow> string + (int, window_record) omap" where
  "parseAuthorityState JUndef = Inr []"
| "parseAuthorityState (JObj fs) =
     (case jget ''windows'' fs of
        JArr vs \<Rightarrow>
          if jget ''version'' fs = jint 2 \<and> hasOnlyKeys fs [''version'', ''windows'']
          then register_all vs empty_registry []
          else Inl ''Stored sidepanel window authority state is malformed''
      | _ \<Rightarrow> Inl ''Stored sidepanel window authority state is malformed'')"
| "parseAuthorityState _ = Inl ''Stored sidepanel window authority state is malformed''"

text \<open>\<open>ensureLoaded\<close>; the second component is the error it throws.\<close>

definition ensureLoaded :: "exclusive_env \<Rightarrow> authority \<Rightarrow> authority \<times> string option" where
  "ensureLoaded e st =
     (if poisoned st
      then (st, Some ''Sidepanel window authority is unavailable until service-worker restart'')
      else if loaded st then (st, None)
      else if \<not> loadOk e then (st\<lparr>poisoned := True\<rparr>, Some ''storage load failed'')
      else case parseAuthorityState (store st) of
        Inr ws \<Rightarrow> (st\<lparr>windows := fold (\<lambda>(w, r). oset w r) ws (windows st), loaded := True\<rparr>, None)
      | Inl err \<Rightarrow>
          (st\<lparr>poisoned := True, store := if cleanupOk e then authority_json [] else store st\<rparr>, Some err))"

definition saveOrPoison :: "exclusive_env \<Rightarrow> authority \<Rightarrow> authority \<times> string option" where
  "saveOrPoison e st =
     (if saveOk e then (st\<lparr>store := authority_json (windows st)\<rparr>, None)
      else (st\<lparr>poisoned := True\<rparr>, Some ''storage save failed''))"

text \<open>A new service worker over the same storage.\<close>

definition new_worker :: "jval \<Rightarrow> authority" where
  "new_worker s = \<lparr>windows = [], pendingCreated = {}, openTokens = [], nextToken = 0, openingWindows = [],
     tainted = False, loaded = False, poisoned = False, store = s\<rparr>"

subsection \<open>Capabilities\<close>

definition digestContinuationToken :: "authority_config \<Rightarrow> string \<Rightarrow> string + string" where
  "digestContinuationToken cfg t =
     (let d = cfgHash cfg t in
      if isSidepanelContinuationToken d then Inr d
      else Inl ''Sidepanel continuation-token verifier returned a malformed digest'')"

text \<open>The capabilities a record holds, and those of all windows.\<close>

fun record_capabilities :: "window_record \<Rightarrow> stored_capability list" where
  "record_capabilities (OpenedRecord _ _ _) = []"
| "record_capabilities (ActiveRecord _ _ k) = [k]"
| "record_capabilities (PendingRecord _ p _ k) =
     k # (case p of CapabilityProof _ k' \<Rightarrow> [k'] | OpenedProof _ _ \<Rightarrow> [])"

definition capability_ids :: "stored_capability \<Rightarrow> string list" where
  "capability_ids k = [capTransaction k, capLease k]"

definition persisted_verifiers :: "window_record list \<Rightarrow> string list" where
  "persisted_verifiers rs = map verifierDigest (concat (map record_capabilities rs))"

definition persisted_ids :: "window_record list \<Rightarrow> string list" where
  "persisted_ids rs = concat (map capability_ids (concat (map record_capabilities rs)))"

definition freshNext ::
  "authority_config \<Rightarrow> exclusive_env \<Rightarrow> authority \<Rightarrow> string + (capability \<times> stored_capability)" where
  "freshNext cfg e st =
     (if \<not> isSidepanelContinuationToken (genToken e)
      then Inl ''Sidepanel continuation-token generator returned a malformed token''
      else if \<not> isSidepanelCapabilityId (genTransaction e) \<or> \<not> isSidepanelCapabilityId (genLease e)
      then Inl ''Sidepanel capability-id generator returned a malformed UUID''
      else if genTransaction e = genLease e then Inl ''Sidepanel capability generator returned colliding ids''
      else seq (digestContinuationToken cfg (genToken e)) (\<lambda>d.
        if d \<in> set (persisted_verifiers (ovals (windows st)))
           \<or> genTransaction e \<in> set (persisted_ids (ovals (windows st)))
           \<or> genLease e \<in> set (persisted_ids (ovals (windows st)))
        then Inl ''Sidepanel capability generator returned a previously used value''
        else Inr (\<lparr>continuationToken = genToken e, transactionId = genTransaction e, leaseId = genLease e\<rparr>,
          \<lparr>verifierDigest = d, capTransaction = genTransaction e, capLease = genLease e\<rparr>)))"

definition capabilityMatches :: "authority_config \<Rightarrow> 'a capability_scheme \<Rightarrow> stored_capability \<Rightarrow> string + bool" where
  "capabilityMatches cfg m k =
     (if transactionId m \<noteq> capTransaction k \<or> leaseId m \<noteq> capLease k then Inr False
      else seq (digestContinuationToken cfg (continuationToken m)) (\<lambda>d. Inr (d = verifierDigest k)))"

fun proofMatches :: "authority_config \<Rightarrow> capability option \<Rightarrow> authority_proof \<Rightarrow> string + bool" where
  "proofMatches cfg m (OpenedProof _ _) = Inr (m = None)"
| "proofMatches cfg None (CapabilityProof _ _) = Inr False"
| "proofMatches cfg (Some m) (CapabilityProof _ k) = capabilityMatches cfg m k"

fun record_context :: "window_record \<Rightarrow> string" where
  "record_context (OpenedRecord _ c _) = c"
| "record_context r = idContext (recordCandidate r)"

definition recordForContext :: "string \<Rightarrow> authority \<Rightarrow> window_record option" where
  "recordForContext c st = find (\<lambda>r. record_context r = c) (ovals (windows st))"

fun recordIdentities :: "window_record \<Rightarrow> document_identity list" where
  "recordIdentities (OpenedRecord _ _ _) = []"
| "recordIdentities (ActiveRecord _ d _) = [d]"
| "recordIdentities (PendingRecord _ p d _) = d # (case p of CapabilityProof d' _ \<Rightarrow> [d'] | OpenedProof _ _ \<Rightarrow> [])"

definition previousCandidateIsGone ::
  "authority_config \<Rightarrow> authority_context list \<Rightarrow> document_identity \<Rightarrow> bool" where
  "previousCandidateIsGone cfg snapshot d \<longleftrightarrow>
     \<not> list_ex (\<lambda>c. ctxId c = idContext d \<and> ctxDocument c = Some (idDocument d)
                  \<or> context_nonce cfg c = Some (idNonce d)) snapshot"

fun owned_elsewhere :: "document_identity \<Rightarrow> window_record \<Rightarrow> bool" where
  "owned_elsewhere d (OpenedRecord _ c x) = (c = idContext d \<or> x = idDocument d)"
| "owned_elsewhere d r =
     list_ex (\<lambda>i. idContext i = idContext d \<or> idDocument i = idDocument d \<or> idNonce i = idNonce d) (recordIdentities r)"

text \<open>
  \<open>revalidateCandidate\<close> on a new snapshot. The comparison of the current with the expected record
  by \<open>JSON.stringify\<close> is equality of the records.
\<close>

definition revalidateCandidate ::
  "authority_config \<Rightarrow> exclusive_env \<Rightarrow> authority \<Rightarrow> int \<Rightarrow> document_identity \<Rightarrow> window_record
     \<Rightarrow> document_identity option \<Rightarrow> string + bool" where
  "revalidateCandidate cfg e st w d expected predecessor =
     (case secondContexts e of
        None \<Rightarrow> Inl ''getContexts failed''
      | Some raw \<Rightarrow>
          let snapshot = liveSnapshot cfg raw in
          Inr (\<not> openingSecond e w
            \<and> (case uniqueRawContextForNonce cfg snapshot (idNonce d) (Some (idDocument d)) of
                 None \<Rightarrow> False
               | Some c \<Rightarrow> ctxId c = idContext d \<and> (ctxWindow c < 0 \<or> ctxWindow c = w))
            \<and> \<not> list_ex (\<lambda>r. recordWindow r \<noteq> w \<and> owned_elsewhere d r) (ovals (windows st))
            \<and> oget (windows st) w = Some expected
            \<and> (case predecessor of None \<Rightarrow> True | Some p \<Rightarrow> previousCandidateIsGone cfg snapshot p)))"

subsection \<open>Preparing a window\<close>

datatype authority_response =
    PreparedWindow int capability
  | ConfirmedWindow int capability
  | RejectedPrepare
  | RejectedConfirm

definition set_record :: "window_record \<Rightarrow> authority \<Rightarrow> authority" where
  "set_record r st = st\<lparr>windows := oset (recordWindow r) r (windows st)\<rparr>"

text \<open>An operation that saves: the response, unless saving throws.\<close>

definition saving :: "exclusive_env \<Rightarrow> authority \<Rightarrow> 'r \<Rightarrow> authority \<times> (string + 'r)" where
  "saving e st r = (case saveOrPoison e st of (st', None) \<Rightarrow> (st', Inr r) | (st', Some err) \<Rightarrow> (st', Inl err))"

definition persistPending ::
  "authority_config \<Rightarrow> exclusive_env \<Rightarrow> authority \<Rightarrow> int \<Rightarrow> authority_proof \<Rightarrow> document_identity \<Rightarrow> window_record
     \<Rightarrow> document_identity option \<Rightarrow> authority \<times> (string + authority_response)" where
  "persistPending cfg e st w p d expected predecessor =
     (case freshNext cfg e st of
        Inl err \<Rightarrow> (st, Inl err)
      | Inr (raw, persisted) \<Rightarrow>
          (case revalidateCandidate cfg e st w d expected predecessor of
             Inl err \<Rightarrow> (st, Inl err)
           | Inr False \<Rightarrow> (st, Inr RejectedPrepare)
           | Inr True \<Rightarrow>
               let st' = (set_record (PendingRecord w p d persisted) st)
                   \<lparr>pendingCreated := insert w (pendingCreated st)\<rparr> in
               saving e st' (PreparedWindow w raw)))"

datatype prepare_action =
    NoMatch
  | Refuse
  | Acknowledge int
  | Replace window_record authority_proof "document_identity option"

text \<open>The loop of \<open>prepareWindow\<close> over the records; \<open>owner\<close> is the window of \<open>contextOwner\<close>.\<close>

fun prepare_scan ::
  "authority_config \<Rightarrow> exclusive_env \<Rightarrow> authority_context list \<Rightarrow> authority_context \<Rightarrow> document_identity
     \<Rightarrow> capability option \<Rightarrow> int option \<Rightarrow> int set \<Rightarrow> window_record list \<Rightarrow> string + prepare_action" where
  "prepare_scan cfg e snapshot c d m owner created [] = Inr NoMatch"
| "prepare_scan cfg e snapshot c d m owner created (r # rs) =
     (let continue = prepare_scan cfg e snapshot c d m owner created rs; w = recordWindow r;
          ownerOk = (owner = None \<or> owner = Some w) in
      if openingFirst e w \<or> (0 \<le> ctxWindow c \<and> ctxWindow c \<noteq> w) then continue
      else case r of
        OpenedRecord _ _ _ \<Rightarrow> continue
      | ActiveRecord _ d' k \<Rightarrow>
          (case m of
             None \<Rightarrow> continue
           | Some material \<Rightarrow>
               seq (capabilityMatches cfg material k) (\<lambda>ok.
                 if ok \<and> previousCandidateIsGone cfg snapshot d' \<and> ownerOk
                 then Inr (Replace r (CapabilityProof d' k) (Some d'))
                 else continue))
      | PendingRecord _ p d' k \<Rightarrow>
          seq (case m of None \<Rightarrow> Inr False | Some material \<Rightarrow> capabilityMatches cfg material k) (\<lambda>ok.
            if ok \<and> ownerOk then
              (if d' = d then Inr (Acknowledge w)
               else if \<not> previousCandidateIsGone cfg snapshot d' then Inr Refuse
               else Inr (Replace r (CapabilityProof d' k) (Some d')))
            else if w \<notin> created \<and> d' = d then
              seq (proofMatches cfg m p) (\<lambda>ok'. if ok' then Inr (Replace r p None) else continue)
            else continue))"

text \<open>The proof a checked prepare request carries.\<close>

definition material_of :: "(string \<times> jval) list \<Rightarrow> capability" where
  "material_of fs = \<lparr>continuationToken = str_val (jget ''continuationToken'' fs),
     transactionId = str_val (jget ''transactionId'' fs), leaseId = str_val (jget ''leaseId'' fs)\<rparr>"

definition request_nonce :: "jval \<Rightarrow> string" where
  "request_nonce q = str_val (jget ''nonce'' (obj_fields q))"

definition request_proof :: "jval \<Rightarrow> capability option" where
  "request_proof q = (case jget ''proof'' (obj_fields q) of JUndef \<Rightarrow> None | v \<Rightarrow> Some (material_of (obj_fields v)))"

text \<open>The context and the candidate document of a request, from the first snapshot.\<close>

definition request_candidate ::
  "authority_config \<Rightarrow> authority_context list \<Rightarrow> string \<Rightarrow> authority_sender
     \<Rightarrow> (authority_context \<times> document_identity) option" where
  "request_candidate cfg snapshot nonce sender =
     (case uniqueRawContextForNonce cfg snapshot nonce (senderDocument sender) of
        None \<Rightarrow> None
      | Some c \<Rightarrow> map_option (\<lambda>d. (c, d)) (candidateFromContext c nonce))"

definition prepare_open ::
  "authority_config \<Rightarrow> exclusive_env \<Rightarrow> authority \<Rightarrow> authority_context \<Rightarrow> document_identity \<Rightarrow> capability option
     \<Rightarrow> window_record \<Rightarrow> authority \<times> (string + authority_response)" where
  "prepare_open cfg e st c d m r =
     (let w = recordWindow r in
      if openingFirst e w \<or> m \<noteq> None \<or> openedContext r \<noteq> idContext d \<or> openedDocument r \<noteq> idDocument d
         \<or> (0 \<le> ctxWindow c \<and> ctxWindow c \<noteq> w)
      then (st, Inr RejectedPrepare)
      else persistPending cfg e st w (OpenedProof (openedContext r) (openedDocument r)) d r None)"

definition prepare_other ::
  "authority_config \<Rightarrow> exclusive_env \<Rightarrow> authority \<Rightarrow> authority_context list \<Rightarrow> authority_context \<Rightarrow> document_identity
     \<Rightarrow> capability option \<Rightarrow> int option \<Rightarrow> authority \<times> (string + authority_response)" where
  "prepare_other cfg e st snapshot c d m owner =
     (case prepare_scan cfg e snapshot c d m owner (pendingCreated st) (ovals (windows st)) of
        Inl err \<Rightarrow> (st, Inl err)
      | Inr NoMatch \<Rightarrow> (st, Inr RejectedPrepare)
      | Inr Refuse \<Rightarrow> (st, Inr RejectedPrepare)
      | Inr (Acknowledge w) \<Rightarrow>
          (case m of
             None \<Rightarrow> (st, Inr RejectedPrepare)
           | Some material \<Rightarrow>
               (st\<lparr>pendingCreated := insert w (pendingCreated st)\<rparr>, Inr (PreparedWindow w material)))
      | Inr (Replace r p predecessor) \<Rightarrow> persistPending cfg e st (recordWindow r) p d r predecessor)"

definition prepareWindow ::
  "authority_config \<Rightarrow> exclusive_env \<Rightarrow> jval \<Rightarrow> authority_sender \<Rightarrow> authority
     \<Rightarrow> authority \<times> (string + authority_response)" where
  "prepareWindow cfg e request sender st0 =
     (case ensureLoaded e st0 of
        (st, Some err) \<Rightarrow> (st, Inl err)
      | (st, None) \<Rightarrow>
          if \<not> isSidepanelWindowPrepareRequest request \<or> \<not> validSender cfg sender then (st, Inr RejectedPrepare)
          else case firstContexts e of
            None \<Rightarrow> (st, Inl ''getContexts failed'')
          | Some raw \<Rightarrow>
              let snapshot = liveSnapshot cfg raw; m = request_proof request in
              (case request_candidate cfg snapshot (request_nonce request) sender of
                 None \<Rightarrow> (st, Inr RejectedPrepare)
               | Some (c, d) \<Rightarrow>
                   (case recordForContext (ctxId c) st of
                      Some (OpenedRecord w x y) \<Rightarrow> prepare_open cfg e st c d m (OpenedRecord w x y)
                    | owner \<Rightarrow> prepare_other cfg e st snapshot c d m (map_option recordWindow owner))))"

subsection \<open>Confirming a window\<close>

text \<open>The record \<open>confirmWindow\<close> stops at, if any.\<close>

fun confirm_scan ::
  "authority_config \<Rightarrow> exclusive_env \<Rightarrow> authority_context \<Rightarrow> document_identity \<Rightarrow> capability
     \<Rightarrow> window_record list \<Rightarrow> string + window_record option" where
  "confirm_scan cfg e c d m [] = Inr None"
| "confirm_scan cfg e c d m (r # rs) =
     (let continue = confirm_scan cfg e c d m rs; w = recordWindow r in
      if openingFirst e w \<or> (0 \<le> ctxWindow c \<and> ctxWindow c \<noteq> w) then continue
      else case r of
        OpenedRecord _ _ _ \<Rightarrow> continue
      | _ \<Rightarrow>
          if recordCandidate r \<noteq> d then continue
          else seq (capabilityMatches cfg m (recordCapability r)) (\<lambda>ok. if ok then Inr (Some r) else continue))"

definition confirmWindow ::
  "authority_config \<Rightarrow> exclusive_env \<Rightarrow> jval \<Rightarrow> authority_sender \<Rightarrow> authority
     \<Rightarrow> authority \<times> (string + authority_response)" where
  "confirmWindow cfg e request sender st0 =
     (case ensureLoaded e st0 of
        (st, Some err) \<Rightarrow> (st, Inl err)
      | (st, None) \<Rightarrow>
          if \<not> isSidepanelWindowConfirmRequest request \<or> \<not> validSender cfg sender then (st, Inr RejectedConfirm)
          else case firstContexts e of
            None \<Rightarrow> (st, Inl ''getContexts failed'')
          | Some raw \<Rightarrow>
              let snapshot = liveSnapshot cfg raw; m = material_of (obj_fields request) in
              (case request_candidate cfg snapshot (request_nonce request) sender of
                 None \<Rightarrow> (st, Inr RejectedConfirm)
               | Some (c, d) \<Rightarrow>
                   (case confirm_scan cfg e c d m (ovals (windows st)) of
                      Inl err \<Rightarrow> (st, Inl err)
                    | Inr None \<Rightarrow> (st, Inr RejectedConfirm)
                    | Inr (Some r) \<Rightarrow>
                        (case revalidateCandidate cfg e st (recordWindow r) d r None of
                           Inl err \<Rightarrow> (st, Inl err)
                         | Inr False \<Rightarrow> (st, Inr RejectedConfirm)
                         | Inr True \<Rightarrow>
                             (case r of
                                PendingRecord w p d' k \<Rightarrow>
                                  saving e ((set_record (ActiveRecord w d' k) st)
                                      \<lparr>pendingCreated := pendingCreated st - {w}\<rparr>) (ConfirmedWindow w m)
                              | _ \<Rightarrow> (st, Inr (ConfirmedWindow (recordWindow r) m)))))))"

subsection \<open>Leases\<close>

fun lease_scan ::
  "authority_config \<Rightarrow> exclusive_env \<Rightarrow> authority_context \<Rightarrow> string \<Rightarrow> 'a capability_scheme
     \<Rightarrow> window_record list \<Rightarrow> string + window_record option" where
  "lease_scan cfg e c nonce m [] = Inr None"
| "lease_scan cfg e c nonce m (r # rs) =
     (let continue = lease_scan cfg e c nonce m rs in
      case r of
        ActiveRecord w d k \<Rightarrow>
          if openingFirst e w \<or> idContext d \<noteq> ctxId c \<or> Some (idDocument d) \<noteq> ctxDocument c \<or> idNonce d \<noteq> nonce
             \<or> (0 \<le> ctxWindow c \<and> ctxWindow c \<noteq> w)
          then continue
          else seq (capabilityMatches cfg m k) (\<lambda>ok. if ok then Inr (Some r) else continue)
      | _ \<Rightarrow> continue)"

definition lease_of :: "window_record \<Rightarrow> lease_identity" where
  "lease_of r = \<lparr>leaseWindow = recordWindow r, leaseDocument = recordCandidate r,
     leaseTransaction = capTransaction (recordCapability r), leaseLease = capLease (recordCapability r)\<rparr>"

definition authorize :: "window_record \<Rightarrow> authority_context \<Rightarrow> authorized_context" where
  "authorize r c = \<lparr>authorizedContext = c\<lparr>ctxWindow := recordWindow r\<rparr>, authorizedLease = lease_of r\<rparr>"

text \<open>An exception inside the exclusive section is caught and gives \<open>undefined\<close>.\<close>

definition resolveActiveLease ::
  "authority_config \<Rightarrow> exclusive_env \<Rightarrow> string \<Rightarrow> capability \<Rightarrow> string option \<Rightarrow> authority
     \<Rightarrow> authority \<times> authorized_context option" where
  "resolveActiveLease cfg e nonce m documentId st0 =
     (if \<not> isSidepanelDocumentNonce nonce \<or> \<not> is_capability m then (st0, None)
      else case ensureLoaded e st0 of
        (st, Some _) \<Rightarrow> (st, None)
      | (st, None) \<Rightarrow>
          (st, case firstContexts e of
             None \<Rightarrow> None
           | Some raw \<Rightarrow>
               (case uniqueRawContextForNonce cfg (liveSnapshot cfg raw) nonce documentId of
                  None \<Rightarrow> None
                | Some c \<Rightarrow>
                    (case lease_scan cfg e c nonce m (ovals (windows st)) of
                       Inr (Some r) \<Rightarrow>
                         (case revalidateCandidate cfg e st (recordWindow r) (recordCandidate r) r None of
                            Inr True \<Rightarrow> Some (authorize r c)
                          | _ \<Rightarrow> None)
                     | _ \<Rightarrow> None))))"

definition isLeaseCurrent ::
  "authority_config \<Rightarrow> exclusive_env \<Rightarrow> lease_identity \<Rightarrow> authority \<Rightarrow> authority \<times> bool" where
  "isLeaseCurrent cfg e l st0 =
     (case ensureLoaded e st0 of
        (st, Some _) \<Rightarrow> (st, False)
      | (st, None) \<Rightarrow>
          (st, case oget (windows st) (leaseWindow l) of
             Some (ActiveRecord w d k) \<Rightarrow>
               \<not> openingFirst e (leaseWindow l)
               \<and> capTransaction k = leaseTransaction l \<and> capLease k = leaseLease l \<and> d = leaseDocument l
               \<and> (case firstContexts e of
                    None \<Rightarrow> False
                  | Some raw \<Rightarrow>
                      \<not> openingSecond e (leaseWindow l)
                      \<and> (case uniqueRawContextForNonce cfg (liveSnapshot cfg raw) (idNonce (leaseDocument l))
                              (Some (idDocument (leaseDocument l))) of
                           None \<Rightarrow> False
                         | Some c \<Rightarrow> ctxId c = idContext (leaseDocument l)))
           | _ \<Rightarrow> False))"

definition list_context ::
  "authority_config \<Rightarrow> authority_context list \<Rightarrow> window_record \<Rightarrow> authorized_context list" where
  "list_context cfg snapshot r =
     (case r of
        ActiveRecord w d k \<Rightarrow>
          (case uniqueRawContextForNonce cfg snapshot (idNonce d) (Some (idDocument d)) of
             Some c \<Rightarrow> if ctxId c = idContext d then [authorize r c] else []
           | None \<Rightarrow> [])
      | _ \<Rightarrow> [])"

definition listAuthorizedContexts ::
  "authority_config \<Rightarrow> exclusive_env \<Rightarrow> authority \<Rightarrow> authority \<times> authorized_context list" where
  "listAuthorizedContexts cfg e st0 =
     (case ensureLoaded e st0 of
        (st, Some _) \<Rightarrow> (st, [])
      | (st, None) \<Rightarrow>
          (st, case firstContexts e of
             None \<Rightarrow> []
           | Some raw \<Rightarrow> concat (map (list_context cfg (liveSnapshot cfg raw)) (ovals (windows st)))))"

text \<open>Deleting a window's record, as \<open>releaseWindow\<close> and the first section of \<open>observeOpened\<close> do.\<close>

definition releaseWindow :: "exclusive_env \<Rightarrow> int \<Rightarrow> authority \<Rightarrow> authority \<times> (string + unit)" where
  "releaseWindow e w st0 =
     (case ensureLoaded e st0 of
        (st, Some err) \<Rightarrow> (st, Inl err)
      | (st, None) \<Rightarrow>
          if oget (windows st) w = None then (st, Inr ())
          else saving e (st\<lparr>windows := odel w (windows st), pendingCreated := pendingCreated st - {w}\<rparr>) ())"

subsection \<open>Opening a window\<close>

text \<open>Before the first exclusive section: the event's token, and its window is opening.\<close>

definition beginOpeningWindow :: "int \<Rightarrow> authority \<Rightarrow> authority" where
  "beginOpeningWindow w st = st\<lparr>openingWindows :=
     oset w ((case oget (openingWindows st) w of None \<Rightarrow> 0 | Some n \<Rightarrow> n) + 1) (openingWindows st)\<rparr>"

definition endOpeningWindow :: "int \<Rightarrow> authority \<Rightarrow> authority" where
  "endOpeningWindow w st = (let n = (case oget (openingWindows st) w of None \<Rightarrow> 0 | Some n \<Rightarrow> n) in
     st\<lparr>openingWindows := if n \<le> 1 then odel w (openingWindows st) else oset w (n - 1) (openingWindows st)\<rparr>)"

definition isWindowOpening :: "authority \<Rightarrow> int \<Rightarrow> bool" where
  "isWindowOpening st w \<longleftrightarrow> (case oget (openingWindows st) w of None \<Rightarrow> False | Some n \<Rightarrow> 0 < n)"

definition releaseOpenedEventToken :: "nat \<Rightarrow> authority \<Rightarrow> authority" where
  "releaseOpenedEventToken t st = (let ts = removeAll t (openTokens st) in
     st\<lparr>openTokens := ts, tainted := (if ts = [] then False else tainted st)\<rparr>)"

text \<open>The \<open>finally\<close> block.\<close>

definition opened_end :: "int \<Rightarrow> nat \<Rightarrow> authority \<Rightarrow> authority" where
  "opened_end w t st = endOpeningWindow w (releaseOpenedEventToken t st)"

definition opened_begin :: "authority_config \<Rightarrow> string \<Rightarrow> int \<Rightarrow> authority \<Rightarrow> authority \<times> (string + nat)" where
  "opened_begin cfg path w st =
     (if \<not> usableCanonicalWindowId w \<or> \<not> sameOpenedPath cfg path
      then (st, Inl ''Rejected a sidepanel onOpened event with an invalid path or browser window'')
      else
        let t = nextToken st;
            st1 = beginOpeningWindow w st;
            st2 = st1\<lparr>openTokens := t # openTokens st1, nextToken := Suc t\<rparr>;
            st3 = (if 1 < length (openTokens st2) then st2\<lparr>tainted := True\<rparr> else st2);
            delay = (case cfgSettleDelay cfg of None \<Rightarrow> 50 | Some x \<Rightarrow> x) in
        if \<not> (0 \<le> delay \<and> delay \<le> MAX_SAFE_INTEGER)
        then (opened_end w t st3, Inl ''Sidepanel authority settle delay must be a non-negative safe integer'')
        else (st3, Inr t))"

definition overlapping :: "authority \<Rightarrow> bool" where
  "overlapping st \<longleftrightarrow> tainted st \<or> length (openTokens st) \<noteq> 1"

definition opened_candidate :: "authority \<Rightarrow> int \<Rightarrow> authority_context \<Rightarrow> bool" where
  "opened_candidate st w c \<longleftrightarrow> (ctxWindow c = -1 \<or> ctxWindow c = w)
     \<and> (case recordForContext (ctxId c) st of None \<Rightarrow> True | Some r \<Rightarrow> recordWindow r = w)"

text \<open>
  The attempts to find the opened document, \<open>n\<close> left, \<open>i\<close> the number of the next one. \<open>look\<close> gives
  the contexts an attempt sees and \<open>overlap\<close> whether events overlap when it has seen them.
\<close>

fun opened_attempts ::
  "authority_config \<Rightarrow> authority \<Rightarrow> int \<Rightarrow> (nat \<Rightarrow> authority_context list option) \<Rightarrow> (nat \<Rightarrow> bool)
     \<Rightarrow> nat \<Rightarrow> nat \<Rightarrow> string + (authority_context \<times> string)" where
  "opened_attempts cfg st w look overlap i 0 = Inl ''No new live sidepanel context appeared for the onOpened event''"
| "opened_attempts cfg st w look overlap i (Suc n) =
     (case look i of
        None \<Rightarrow> Inl ''getContexts failed''
      | Some raw \<Rightarrow>
          if overlap i then Inl ''Refused to bind overlapping sidepanel onOpened events''
          else (case filter (opened_candidate st w) (liveSnapshot cfg raw) of
              [] \<Rightarrow> opened_attempts cfg st w look overlap (Suc i) n
            | [c] \<Rightarrow>
                (case ctxDocument c of
                   Some d \<Rightarrow> if d \<noteq> [] then Inr (c, d) else opened_attempts cfg st w look overlap (Suc i) n
                 | None \<Rightarrow> opened_attempts cfg st w look overlap (Suc i) n)
            | _ \<Rightarrow> Inl ''Refused to bind an ambiguous sidepanel onOpened event''))"

definition opened_bind ::
  "authority_config \<Rightarrow> exclusive_env \<Rightarrow> (nat \<Rightarrow> authority_context list option) \<Rightarrow> (nat \<Rightarrow> bool) \<Rightarrow> int
     \<Rightarrow> authority \<Rightarrow> authority \<times> (string + (string \<times> int))" where
  "opened_bind cfg e look overlap w st0 =
     (case ensureLoaded e st0 of
        (st, Some err) \<Rightarrow> (st, Inl err)
      | (st, None) \<Rightarrow>
          if overlapping st then (st, Inl ''Refused to bind overlapping sidepanel onOpened events'')
          else
            let attempts = (case cfgMaxAttempts cfg of None \<Rightarrow> 40 | Some x \<Rightarrow> x);
                delay = (case cfgRetryDelay cfg of None \<Rightarrow> 25 | Some x \<Rightarrow> x) in
            if \<not> (1 \<le> attempts \<and> attempts \<le> MAX_SAFE_INTEGER)
            then (st, Inl ''Sidepanel authority attempts must be a positive safe integer'')
            else if \<not> (0 \<le> delay \<and> delay \<le> MAX_SAFE_INTEGER)
            then (st, Inl ''Sidepanel authority delay must be a non-negative safe integer'')
            else case opened_attempts cfg st w look overlap 0 (nat attempts) of
              Inl err \<Rightarrow> (st, Inl err)
            | Inr (c, d) \<Rightarrow>
                saving e ((set_record (OpenedRecord w (ctxId c) d) st)\<lparr>pendingCreated := pendingCreated st - {w}\<rparr>)
                  (ctxId c, w))"

subsection \<open>What the loader accepts\<close>

text \<open>The contexts and documents a record claims for its window.\<close>

fun context_claims :: "window_record \<Rightarrow> (string \<times> int) list" where
  "context_claims (OpenedRecord w c d) = [(c, w)]"
| "context_claims r = map (\<lambda>d. (idContext d, recordWindow r)) (recordIdentities r)"

fun document_claims :: "window_record \<Rightarrow> (string \<times> int) list" where
  "document_claims (OpenedRecord w c d) = [(d, w)]"
| "document_claims r = map (\<lambda>d. (idDocument d, recordWindow r)) (recordIdentities r)"

definition single_owner :: "(string \<times> int) list \<Rightarrow> bool" where
  "single_owner cs \<longleftrightarrow> (\<forall>k v w. (k, v) \<in> set cs \<longrightarrow> (k, w) \<in> set cs \<longrightarrow> v = w)"

definition claims_ok ::
  "(string \<times> int) list \<Rightarrow> (string \<times> int) list \<Rightarrow> document_identity list \<Rightarrow> stored_capability list \<Rightarrow> bool" where
  "claims_ok cs ds ids ks \<longleftrightarrow> single_owner cs \<and> single_owner ds
     \<and> distinct (map exact_key ids) \<and> distinct (map idNonce ids)
     \<and> distinct (map verifierDigest ks) \<and> distinct (concat (map capability_ids ks))"

definition all_contexts :: "window_record list \<Rightarrow> (string \<times> int) list" where
  "all_contexts rs = concat (map context_claims rs)"

definition all_documents :: "window_record list \<Rightarrow> (string \<times> int) list" where
  "all_documents rs = concat (map document_claims rs)"

definition all_identities :: "window_record list \<Rightarrow> document_identity list" where
  "all_identities rs = concat (map recordIdentities rs)"

definition all_capabilities :: "window_record list \<Rightarrow> stored_capability list" where
  "all_capabilities rs = concat (map record_capabilities rs)"

definition records_claims :: "window_record list \<Rightarrow> bool" where
  "records_claims rs \<longleftrightarrow> claims_ok (all_contexts rs) (all_documents rs) (all_identities rs) (all_capabilities rs)"

text \<open>
  The records of a sound authority: one per window, every context and document claimed by one
  window, and no document, nonce, verifier or capability identity twice.
\<close>

definition records_unique :: "window_record list \<Rightarrow> bool" where
  "records_unique rs \<longleftrightarrow> distinct (map recordWindow rs) \<and> records_claims rs"

lemma mset_concat_map: "mset (concat (map f ks)) = sum_mset (image_mset (\<lambda>k. mset (f k)) (mset ks))"
  by (induction ks) simp_all

lemma distinct_concat_mset:
  assumes "mset ks = mset ks'"
  shows "distinct (concat (map f ks)) = distinct (concat (map f ks'))"
  by (rule mset_eq_imp_distinct_iff) (simp only: mset_concat_map assms)

lemma distinct_map_mset: "mset ks = mset ks' \<Longrightarrow> distinct (map f ks) = distinct (map f ks')"
  by (metis mset_eq_imp_distinct_iff mset_map)

lemma single_owner_mono: "single_owner cs' \<Longrightarrow> set cs \<subseteq> set cs' \<Longrightarrow> single_owner cs"
  unfolding single_owner_def by blast

lemma claims_ok_perm:
  assumes "set cs = set cs'" "set ds = set ds'" "mset ids = mset ids'" "mset ks = mset ks'"
  shows "claims_ok cs ds ids ks = claims_ok cs' ds' ids' ks'"
proof -
  have "single_owner cs = single_owner cs'" "single_owner ds = single_owner ds'"
    using assms(1,2) by (simp_all add: single_owner_def)
  then show ?thesis
    unfolding claims_ok_def
    by (simp only: distinct_map_mset [OF assms(3)] distinct_map_mset [OF assms(4)] distinct_concat_mset [OF assms(4)])
qed

lemma single_owner_ConsD: "single_owner (c # cs) \<Longrightarrow> single_owner cs"
  by (auto simp: single_owner_def)

lemma claims_ok_mono:
  assumes "claims_ok cs' ds' ids' ks'" "set cs \<subseteq> set cs'" "set ds \<subseteq> set ds'"
    and "mset ids \<subseteq># mset ids'" "mset ks \<subseteq># mset ks'"
  shows "claims_ok cs ds ids ks"
proof -
  from assms(4) obtain ids2 where "mset ids' = mset (ids @ ids2)"
    by (metis mset_subset_eq_exists_conv ex_mset mset_append)
  moreover from assms(5) obtain ks2 where "mset ks' = mset (ks @ ks2)"
    by (metis mset_subset_eq_exists_conv ex_mset mset_append)
  ultimately have "claims_ok cs' ds' (ids @ ids2) (ks @ ks2)"
    using assms(1) claims_ok_perm [OF refl refl] by blast
  then show ?thesis
    using single_owner_mono [OF _ assms(2)] single_owner_mono [OF _ assms(3)] by (simp add: claims_ok_def)
qed

definition registers ::
  "registry \<Rightarrow> (string \<times> int) list \<Rightarrow> (string \<times> int) list \<Rightarrow> document_identity list \<Rightarrow> stored_capability list \<Rightarrow> bool" where
  "registers g cs ds ids ks \<longleftrightarrow>
     (\<forall>k w. oget (contextOwners g) k = Some w \<longleftrightarrow> (k, w) \<in> set cs)
     \<and> (\<forall>k w. oget (documentOwners g) k = Some w \<longleftrightarrow> (k, w) \<in> set ds)
     \<and> exactDocuments g = exact_key ` set ids \<and> documentNonces g = idNonce ` set ids
     \<and> verifierDigests g = verifierDigest ` set ks \<and> capabilityIds g = set (concat (map capability_ids ks))
     \<and> claims_ok cs ds ids ks"

lemma registers_empty: "registers empty_registry [] [] [] []"
  by (simp add: registers_def empty_registry_def claims_ok_def single_owner_def)

lemma foreign_owner_iff:
  assumes "\<forall>k w. oget m k = Some w \<longleftrightarrow> (k, w) \<in> set cs" and "single_owner cs"
  shows "foreign_owner m k w \<longleftrightarrow> \<not> single_owner ((k, w) # cs)"
proof (cases "oget m k")
  case None
  with assms(1) have "\<forall>v. (k, v) \<notin> set cs" by (metis option.distinct(1))
  with None assms(2) show ?thesis by (auto simp: foreign_owner_def single_owner_def)
next
  case (Some v)
  with assms(1) have v: "(k, v) \<in> set cs" by blast
  with assms(2) have only: "\<forall>u. (k, u) \<in> set cs \<longrightarrow> u = v" by (auto simp: single_owner_def)
  show ?thesis
  proof (cases "v = w")
    case True
    have "single_owner ((k, w) # cs)"
      unfolding single_owner_def
    proof (intro allI impI)
      fix j u u' assume a: "(j, u) \<in> set ((k, w) # cs)" "(j, u') \<in> set ((k, w) # cs)"
      with v True have "(j, u) \<in> set cs" "(j, u') \<in> set cs" by auto
      with assms(2) show "u = u'" unfolding single_owner_def by blast
    qed
    with Some True show ?thesis by (simp add: foreign_owner_def)
  next
    case False
    have "\<not> single_owner ((k, w) # cs)"
    proof
      assume "single_owner ((k, w) # cs)"
      then have "v = w" unfolding single_owner_def using v by (meson list.set_intros)
      with False show False ..
    qed
    with Some False show ?thesis by (simp add: foreign_owner_def)
  qed
qed

lemma owners_set:
  assumes "\<forall>k w. oget m k = Some w \<longleftrightarrow> (k, w) \<in> set cs" and "single_owner ((c, w) # cs)"
  shows "\<forall>k v. oget (oset c w m) k = Some v \<longleftrightarrow> (k, v) \<in> set ((c, w) # cs)"
proof (intro allI)
  fix k v
  show "oget (oset c w m) k = Some v \<longleftrightarrow> (k, v) \<in> set ((c, w) # cs)"
  proof (cases "k = c")
    case True
    have "(c, v) \<in> set cs \<Longrightarrow> v = w"
      using assms(2) unfolding single_owner_def by (meson list.set_intros)
    with True show ?thesis by auto
  next
    case False
    with assms(1) show ?thesis by auto
  qed
qed

lemma registerIdentity_iff:
  assumes "registers g cs ds ids ks"
  shows "case registerIdentity w d g of
      Inr g' \<Rightarrow> registers g' ((idContext d, w) # cs) ((idDocument d, w) # ds) (d # ids) ks
    | Inl _ \<Rightarrow> \<not> claims_ok ((idContext d, w) # cs) ((idDocument d, w) # ds) (d # ids) ks"
proof -
  from assms have ok: "claims_ok cs ds ids ks"
    and eqs: "exactDocuments g = exact_key ` set ids" "documentNonces g = idNonce ` set ids"
    by (simp_all add: registers_def)
  have c: "foreign_owner (contextOwners g) (idContext d) w \<longleftrightarrow> \<not> single_owner ((idContext d, w) # cs)"
    by (rule foreign_owner_iff) (use assms in \<open>simp_all add: registers_def claims_ok_def\<close>)
  have dd: "foreign_owner (documentOwners g) (idDocument d) w \<longleftrightarrow> \<not> single_owner ((idDocument d, w) # ds)"
    by (rule foreign_owner_iff) (use assms in \<open>simp_all add: registers_def claims_ok_def\<close>)
  have test: "(exact_key d \<in> exactDocuments g \<or> idNonce d \<in> documentNonces g
         \<or> foreign_owner (contextOwners g) (idContext d) w \<or> foreign_owner (documentOwners g) (idDocument d) w)
      \<longleftrightarrow> \<not> claims_ok ((idContext d, w) # cs) ((idDocument d, w) # ds) (d # ids) ks"
    using ok unfolding c dd eqs by (auto simp: claims_ok_def)
  show ?thesis
  proof (cases "claims_ok ((idContext d, w) # cs) ((idDocument d, w) # ds) (d # ids) ks")
    case False
    with test show ?thesis by (simp add: registerIdentity_def)
  next
    case True
    have "\<forall>k v. oget (oset (idContext d) w (contextOwners g)) k = Some v \<longleftrightarrow> (k, v) \<in> set ((idContext d, w) # cs)"
      "\<forall>k v. oget (oset (idDocument d) w (documentOwners g)) k = Some v \<longleftrightarrow> (k, v) \<in> set ((idDocument d, w) # ds)"
      by (rule owners_set; use assms True in \<open>simp add: registers_def claims_ok_def\<close>)+
    with True test assms show ?thesis by (simp add: registerIdentity_def registers_def)
  qed
qed

lemma registerOpened_iff:
  assumes "registers g cs ds ids ks"
  shows "case registerOpened w c d g of
      Inr g' \<Rightarrow> registers g' ((c, w) # cs) ((d, w) # ds) ids ks
    | Inl _ \<Rightarrow> \<not> claims_ok ((c, w) # cs) ((d, w) # ds) ids ks"
proof -
  from assms have ok: "claims_ok cs ds ids ks" by (simp add: registers_def)
  have c: "foreign_owner (contextOwners g) c w \<longleftrightarrow> \<not> single_owner ((c, w) # cs)"
    by (rule foreign_owner_iff) (use assms in \<open>simp_all add: registers_def claims_ok_def\<close>)
  have dd: "foreign_owner (documentOwners g) d w \<longleftrightarrow> \<not> single_owner ((d, w) # ds)"
    by (rule foreign_owner_iff) (use assms in \<open>simp_all add: registers_def claims_ok_def\<close>)
  have test: "(foreign_owner (contextOwners g) c w \<or> foreign_owner (documentOwners g) d w)
      \<longleftrightarrow> \<not> claims_ok ((c, w) # cs) ((d, w) # ds) ids ks"
    using ok unfolding c dd by (auto simp: claims_ok_def)
  show ?thesis
  proof (cases "claims_ok ((c, w) # cs) ((d, w) # ds) ids ks")
    case False
    with test show ?thesis by (simp add: registerOpened_def)
  next
    case True
    have "\<forall>k v. oget (oset c w (contextOwners g)) k = Some v \<longleftrightarrow> (k, v) \<in> set ((c, w) # cs)"
      "\<forall>k v. oget (oset d w (documentOwners g)) k = Some v \<longleftrightarrow> (k, v) \<in> set ((d, w) # ds)"
      by (rule owners_set; use assms True in \<open>simp add: registers_def claims_ok_def\<close>)+
    with True test assms show ?thesis by (simp add: registerOpened_def registers_def)
  qed
qed

lemma registerCapability_iff:
  assumes "registers g cs ds ids ks"
  shows "case registerCapability k g of
      Inr g' \<Rightarrow> registers g' cs ds ids (k # ks)
    | Inl _ \<Rightarrow> \<not> claims_ok cs ds ids (k # ks)"
  using assms by (auto simp: registerCapability_def registers_def claims_ok_def capability_ids_def)

lemma registers_perm:
  assumes "registers g cs ds ids ks"
    and "set cs = set cs'" "set ds = set ds'" "mset ids = mset ids'" "mset ks = mset ks'"
  shows "registers g cs' ds' ids' ks'"
proof -
  have "set ids = set ids'" "set ks = set ks'" using assms(4,5) by (metis set_mset_mset)+
  with assms(1,2,3) claims_ok_perm [OF assms(2-5)] show ?thesis by (simp add: registers_def)
qed

lemma register_both_iff:
  assumes "registers g cs ds ids ks"
  shows "case seq (registerIdentity w d g) (registerCapability k) of
      Inr g' \<Rightarrow> registers g' ((idContext d, w) # cs) ((idDocument d, w) # ds) (d # ids) (k # ks)
    | Inl _ \<Rightarrow> \<not> claims_ok ((idContext d, w) # cs) ((idDocument d, w) # ds) (d # ids) (k # ks)"
proof (cases "registerIdentity w d g")
  case (Inl e)
  with registerIdentity_iff [OF assms, where w = w and d = d]
  have "\<not> claims_ok ((idContext d, w) # cs) ((idDocument d, w) # ds) (d # ids) ks" by simp
  then have "\<not> claims_ok ((idContext d, w) # cs) ((idDocument d, w) # ds) (d # ids) (k # ks)"
    by (auto simp: claims_ok_def)
  with Inl show ?thesis by simp
next
  case (Inr g1)
  with registerIdentity_iff [OF assms, where w = w and d = d]
  have "registers g1 ((idContext d, w) # cs) ((idDocument d, w) # ds) (d # ids) ks" by simp
  from registerCapability_iff [OF this, where k = k] Inr show ?thesis by simp
qed

lemma register_record_iff:
  assumes "registers g cs ds ids ks"
  shows "case register_record r g of
      Inr g' \<Rightarrow> registers g' (context_claims r @ cs) (document_claims r @ ds) (recordIdentities r @ ids)
        (record_capabilities r @ ks)
    | Inl _ \<Rightarrow> \<not> claims_ok (context_claims r @ cs) (document_claims r @ ds) (recordIdentities r @ ids)
        (record_capabilities r @ ks)"
proof (cases r)
  case (OpenedRecord w c d)
  with registerOpened_iff [OF assms, where w = w and c = c and d = d] show ?thesis
    by (cases "registerOpened w c d g") simp_all
next
  case (ActiveRecord w d k)
  with register_both_iff [OF assms, where w = w and d = d and k = k] show ?thesis
    by (cases "seq (registerIdentity w d g) (registerCapability k)") simp_all
next
  case r: (PendingRecord w p d k)
  note first = register_both_iff [OF assms, where w = w and d = d and k = k]
  show ?thesis
  proof (cases p)
    case (OpenedProof c x)
    with r first show ?thesis by (simp add: seq_def split: sum.splits)
  next
    case p: (CapabilityProof d' k')
    let ?cs = "(idContext d', w) # (idContext d, w) # cs" and ?ds = "(idDocument d', w) # (idDocument d, w) # ds"
    have sets: "set (context_claims r @ cs) = set ?cs" "set (document_claims r @ ds) = set ?ds"
      "mset (recordIdentities r @ ids) = mset (d' # d # ids)" "mset (record_capabilities r @ ks) = mset (k' # k # ks)"
      using r p by auto
    show ?thesis
    proof (cases "seq (registerIdentity w d g) (registerCapability k)")
      case (Inl e)
      with first have no: "\<not> claims_ok ((idContext d, w) # cs) ((idDocument d, w) # ds) (d # ids) (k # ks)" by simp
      have "\<not> claims_ok ?cs ?ds (d' # d # ids) (k' # k # ks)"
      proof
        assume "claims_ok ?cs ?ds (d' # d # ids) (k' # k # ks)"
        then have "claims_ok ((idContext d, w) # cs) ((idDocument d, w) # ds) (d # ids) (k # ks)"
          by (rule claims_ok_mono) auto
        with no show False ..
      qed
      with Inl r p claims_ok_perm [OF sets] show ?thesis by simp
    next
      case (Inr g1)
      with first have g1: "registers g1 ((idContext d, w) # cs) ((idDocument d, w) # ds) (d # ids) (k # ks)" by simp
      have eq: "register_record r g = seq (registerIdentity w d' g1) (registerCapability k')"
        using r p Inr by simp
      from register_both_iff [OF g1, where w = w and d = d' and k = k'] show ?thesis
        unfolding eq using claims_ok_perm [OF sets] registers_perm [OF _ sets [symmetric]]
        by (auto split: sum.splits)
    qed
  qed
qed

lemma oset_fresh: "oget m k = None \<Longrightarrow> oset k v m = m @ [(k, v)]"
  by (induction m) (auto split: if_splits)

lemma all_claims_append [simp]:
  "all_contexts (rs @ ss) = all_contexts rs @ all_contexts ss"
  "all_documents (rs @ ss) = all_documents rs @ all_documents ss"
  "all_identities (rs @ ss) = all_identities rs @ all_identities ss"
  "all_capabilities (rs @ ss) = all_capabilities rs @ all_capabilities ss"
  by (simp_all add: all_contexts_def all_documents_def all_identities_def all_capabilities_def)

lemma all_claims_simps [simp]:
  "all_contexts [] = []" "all_contexts (r # rs) = context_claims r @ all_contexts rs"
  "all_documents [] = []" "all_documents (r # rs) = document_claims r @ all_documents rs"
  "all_identities [] = []" "all_identities (r # rs) = recordIdentities r @ all_identities rs"
  "all_capabilities [] = []" "all_capabilities (r # rs) = record_capabilities r @ all_capabilities rs"
  by (simp_all add: all_contexts_def all_documents_def all_identities_def all_capabilities_def)

lemma records_claims_perm: "mset rs = mset ss \<Longrightarrow> records_claims rs = records_claims ss"
proof -
  assume m: "mset rs = mset ss"
  then have s: "set rs = set ss" by (metis set_mset_mset)
  have "mset (all_identities rs) = mset (all_identities ss)" "mset (all_capabilities rs) = mset (all_capabilities ss)"
    unfolding all_identities_def all_capabilities_def by (simp_all only: mset_concat_map m)
  moreover have "set (all_contexts rs) = set (all_contexts ss)" "set (all_documents rs) = set (all_documents ss)"
    using s by (simp_all add: all_contexts_def all_documents_def)
  ultimately show ?thesis unfolding records_claims_def by (intro claims_ok_perm)
qed

lemma records_claims_appendD: "records_claims (rs @ ss) \<Longrightarrow> records_claims rs"
  unfolding records_claims_def by (erule claims_ok_mono) auto

definition record_registers :: "registry \<Rightarrow> window_record list \<Rightarrow> bool" where
  "record_registers g rs \<longleftrightarrow> registers g (all_contexts rs) (all_documents rs) (all_identities rs) (all_capabilities rs)"

lemma record_register_step:
  assumes "record_registers g rs"
  shows "case register_record r g of
      Inr g' \<Rightarrow> record_registers g' (rs @ [r]) \<and> records_claims (rs @ [r])
    | Inl _ \<Rightarrow> \<not> records_claims (rs @ [r])"
proof -
  have sets: "set (context_claims r @ all_contexts rs) = set (all_contexts (rs @ [r]))"
    "set (document_claims r @ all_documents rs) = set (all_documents (rs @ [r]))"
    "mset (recordIdentities r @ all_identities rs) = mset (all_identities (rs @ [r]))"
    "mset (record_capabilities r @ all_capabilities rs) = mset (all_capabilities (rs @ [r]))"
    by auto
  note step = register_record_iff [OF assms [unfolded record_registers_def], where r = r]
  show ?thesis
  proof (cases "register_record r g")
    case (Inl e)
    with step claims_ok_perm [OF sets] show ?thesis by (simp add: records_claims_def)
  next
    case (Inr g')
    with step have "registers g' (context_claims r @ all_contexts rs) (document_claims r @ all_documents rs)
        (recordIdentities r @ all_identities rs) (record_capabilities r @ all_capabilities rs)" by simp
    from registers_perm [OF this sets] have "record_registers g' (rs @ [r])" by (simp only: record_registers_def)
    then show ?thesis using Inr by (simp add: records_claims_def record_registers_def registers_def)
  qed
qed

text \<open>The map of a list of records.\<close>

definition by_window :: "window_record list \<Rightarrow> (int, window_record) omap" where
  "by_window rs = map (\<lambda>r. (recordWindow r, r)) rs"

lemma by_window_simps [simp]: "ovals (by_window rs) = rs" "okeys (by_window rs) = map recordWindow rs"
  "by_window [] = []" "by_window (r # rs) = (recordWindow r, r) # by_window rs"
  by (induction rs) (simp_all add: by_window_def)

lemma by_window_None: "oget (by_window rs) w = None \<longleftrightarrow> w \<notin> recordWindow ` set rs"
  by (simp add: map_of_eq_None_iff image_image by_window_def)

lemma register_all_iff:
  assumes "record_registers g rs" and "distinct (map recordWindow rs)" and "records_claims rs"
  shows "register_all vs g (by_window rs) = Inr ws \<longleftrightarrow>
    list_all validRecord vs \<and> records_unique (rs @ map record_of vs) \<and> ws = by_window (rs @ map record_of vs)"
  using assms
proof (induction vs arbitrary: g rs)
  case Nil
  then show ?case by (auto simp: records_unique_def)
next
  case (Cons v vs)
  let ?r = "record_of v"
  show ?case
  proof (cases "validRecord v \<and> recordWindow ?r \<notin> recordWindow ` set rs")
    case False
    then show ?thesis by (auto simp: by_window_None records_unique_def)
  next
    case True
    then have app: "oset (recordWindow ?r) ?r (by_window rs) = by_window (rs @ [?r])"
      by (simp add: oset_fresh by_window_None) (simp add: by_window_def)
    note step = record_register_step [OF Cons.prems(1), where r = ?r]
    show ?thesis
    proof (cases "register_record ?r g")
      case (Inl e)
      with step have "\<not> records_claims (rs @ [?r])" by simp
      then have "\<not> records_unique (rs @ map record_of (v # vs))"
        using records_claims_appendD [of "rs @ [?r]" "map record_of vs"] by (auto simp: records_unique_def)
      with Inl True show ?thesis by (auto simp: by_window_None)
    next
      case (Inr g')
      with step have "record_registers g' (rs @ [?r])" "records_claims (rs @ [?r])" by simp_all
      from Cons.IH [OF this(1) _ this(2)] True Cons.prems(2) Inr app show ?thesis
        by (simp add: by_window_None)
    qed
  qed
qed

lemma load_accepts_iff:
  assumes "jget ''windows'' fs = JArr vs" and "jget ''version'' fs = jint 2"
    and "hasOnlyKeys fs [''version'', ''windows'']"
  shows "parseAuthorityState (JObj fs) = Inr ws \<longleftrightarrow>
    list_all validRecord vs \<and> records_unique (map record_of vs) \<and> ws = by_window (map record_of vs)"
proof -
  have e: "record_registers empty_registry []" "records_claims []"
    using registers_empty by (simp_all add: record_registers_def records_claims_def registers_def)
  from register_all_iff [OF e(1) _ e(2), of vs ws] assms show ?thesis by simp
qed

subsection \<open>Saved states load back\<close>

definition document_ok :: "document_identity \<Rightarrow> bool" where
  "document_ok d \<longleftrightarrow> nonblank (idContext d) \<and> nonblank (idDocument d) \<and> isSidepanelDocumentNonce (idNonce d)"

definition capability_ok :: "stored_capability \<Rightarrow> bool" where
  "capability_ok k \<longleftrightarrow> isSidepanelContinuationToken (verifierDigest k) \<and> isSidepanelCapabilityId (capTransaction k)
     \<and> isSidepanelCapabilityId (capLease k)"

fun proof_ok :: "authority_proof \<Rightarrow> bool" where
  "proof_ok (OpenedProof c d) = (nonblank c \<and> nonblank d)"
| "proof_ok (CapabilityProof d k) = (document_ok d \<and> capability_ok k)"

fun record_ok :: "window_record \<Rightarrow> bool" where
  "record_ok (OpenedRecord w c d) = (usableCanonicalWindowId w \<and> nonblank c \<and> nonblank d)"
| "record_ok (PendingRecord w p d k) = (usableCanonicalWindowId w \<and> proof_ok p \<and> document_ok d \<and> capability_ok k)"
| "record_ok (ActiveRecord w d k) = (usableCanonicalWindowId w \<and> document_ok d \<and> capability_ok k)"

lemma document_json_valid: "validDocumentIdentity (document_json d) \<longleftrightarrow> document_ok d"
  by (simp add: document_json_def hasOnlyKeys_def document_ok_def)

lemma document_of_json [simp]: "document_of (document_json d) = d"
  by (simp add: document_of_def obj_fields_def document_json_def)

lemma capability_of_json [simp]: "capability_of (capability_json k) = k"
  by (simp add: capability_of_def capability_json_def)

lemma proof_json_valid: "validProof (proof_json p) \<longleftrightarrow> proof_ok p"
  by (cases p) (auto simp: hasOnlyKeys_def capability_json_def validCapabilityFields_def document_json_valid capability_ok_def)

lemma proof_of_json [simp]: "proof_of (proof_json p) = p"
  by (cases p) (simp_all add: proof_of_def obj_fields_def capability_json_def capability_of_def Let_def)

lemma usable_jint: "usableWindowId (jint w) \<longleftrightarrow> usableCanonicalWindowId w"
  by (simp add: usableCanonicalWindowId_def)

lemma record_json_valid: "validRecord (record_json r) \<longleftrightarrow> record_ok r"
  by (cases r)
    (auto simp: hasOnlyKeys_def capability_json_def validCapabilityFields_def document_json_valid capability_ok_def
      proof_json_valid usable_jint simp del: usableWindowId.simps)

lemma record_of_json [simp]: "record_of (record_json r) = r"
  by (cases r)
    (simp_all add: record_of_def obj_fields_def capability_json_def capability_of_def Let_def)

text \<open>The invariant of the authority.\<close>

definition windows_ok :: "(int, window_record) omap \<Rightarrow> bool" where
  "windows_ok ws \<longleftrightarrow> ws = by_window (ovals ws) \<and> records_unique (ovals ws) \<and> list_all record_ok (ovals ws)"

lemma windows_ok_wf: "windows_ok ws \<Longrightarrow> omap_wf ws"
  unfolding windows_ok_def records_unique_def omap_wf_def by (metis by_window_simps(2))

lemma saved_state_loads:
  assumes "windows_ok ws"
  shows "parseAuthorityState (authority_json ws) = Inr (by_window (sort_key recordWindow (ovals ws)))"
proof -
  let ?rs = "sort_key recordWindow (ovals ws)"
  have m: "mset ?rs = mset (ovals ws)" by simp
  have "records_unique ?rs"
    using assms records_claims_perm [OF m] distinct_map_mset [OF m, of recordWindow]
    by (simp add: windows_ok_def records_unique_def)
  moreover have "list_all record_ok ?rs" using assms by (simp add: windows_ok_def list_all_iff)
  then have "list_all validRecord (map record_json ?rs)" by (simp add: list_all_iff record_json_valid)
  moreover have "map record_of (map record_json ?rs) = ?rs" by (simp add: comp_def)
  moreover have "parseAuthorityState (authority_json ws) = Inr (by_window ?rs) \<longleftrightarrow>
      list_all validRecord (map record_json ?rs) \<and> records_unique (map record_of (map record_json ?rs))
      \<and> by_window ?rs = by_window (map record_of (map record_json ?rs))"
    unfolding authority_json_def by (rule load_accepts_iff) (simp_all add: hasOnlyKeys_def)
  ultimately show ?thesis by simp
qed

lemma by_window_get:
  assumes "distinct (map recordWindow rs)"
  shows "oget (by_window rs) w = Some r \<longleftrightarrow> r \<in> set rs \<and> recordWindow r = w"
proof -
  have "omap_wf (by_window rs)" using assms by (simp add: omap_wf_def)
  then show ?thesis by (auto simp: oget_iff by_window_def)
qed

lemma sorted_state_same:
  assumes "windows_ok ws"
  shows "oget (by_window (sort_key recordWindow (ovals ws))) w = oget ws w"
proof -
  have m: "mset (sort_key recordWindow (ovals ws)) = mset (ovals ws)" by simp
  from assms have d: "distinct (map recordWindow (ovals ws))" and ws: "ws = by_window (ovals ws)"
    by (simp_all add: windows_ok_def records_unique_def)
  from d distinct_map_mset [OF m, of recordWindow] have d': "distinct (map recordWindow (sort_key recordWindow (ovals ws)))"
    by blast
  have "oget (by_window (sort_key recordWindow (ovals ws))) w = Some r \<longleftrightarrow> oget (by_window (ovals ws)) w = Some r" for r
    unfolding by_window_get [OF d] by_window_get [OF d'] by (simp only: set_sort)
  then have "oget (by_window (sort_key recordWindow (ovals ws))) w = oget (by_window (ovals ws)) w"
    by (metis not_None_eq)
  with ws show ?thesis by simp
qed

lemma usable_int_val: "usableWindowId v \<Longrightarrow> usableCanonicalWindowId (int_val v)"
  by (cases v rule: usableWindowId.cases) (auto simp: usableCanonicalWindowId_def pos_imp_zdiv_nonneg_iff)

lemma on_string_val: "on_string p v \<Longrightarrow> p (str_val v)"
  by (cases v) simp_all

lemma valid_document_ok: "validDocumentIdentity v \<Longrightarrow> document_ok (document_of v)"
  by (cases v) (simp_all add: document_ok_def document_of_def obj_fields_def on_string_val)

lemma valid_capability_ok: "validCapabilityFields fs \<Longrightarrow> capability_ok (capability_of fs)"
  by (simp add: validCapabilityFields_def capability_ok_def capability_of_def on_string_val)

lemma valid_proof_ok: "validProof v \<Longrightarrow> proof_ok (proof_of v)"
  by (cases v) (auto simp: proof_of_def Let_def obj_fields_def on_string_val valid_document_ok valid_capability_ok
      split: if_splits)

lemma valid_record_ok: "validRecord v \<Longrightarrow> record_ok (record_of v)"
  by (cases v) (auto simp: record_of_def Let_def obj_fields_def on_string_val valid_document_ok valid_capability_ok
      valid_proof_ok usable_int_val split: if_splits jval.splits)

lemma load_sound:
  assumes "parseAuthorityState v = Inr ws"
  shows "windows_ok ws"
proof (cases v)
  case JUndef
  with assms show ?thesis
    using registers_empty by (simp add: windows_ok_def records_unique_def records_claims_def registers_def)
next
  case (JObj fs)
  with assms obtain vs where vs: "jget ''windows'' fs = JArr vs" "jget ''version'' fs = jint 2"
    "hasOnlyKeys fs [''version'', ''windows'']"
    by (auto split: jval.splits if_splits)
  with assms JObj have l: "list_all validRecord vs" "records_unique (map record_of vs)" "ws = by_window (map record_of vs)"
    using load_accepts_iff [OF vs] by blast+
  have "record_ok (record_of v)" if "validRecord v" for v
    using that by (rule valid_record_ok)
  with l show ?thesis by (simp add: windows_ok_def list_all_iff)
qed (use assms in simp_all)

subsection \<open>Replacing a record\<close>

lemma oset_by_window:
  assumes "distinct (map recordWindow rs)"
  shows "\<exists>rs'. oset (recordWindow r) r (by_window rs) = by_window rs'
    \<and> mset rs' = add_mset r (mset (filter (\<lambda>x. recordWindow x \<noteq> recordWindow r) rs))"
  using assms
proof (induction rs)
  case Nil
  then show ?case by (intro exI [of _ "[r]"]) simp
next
  case (Cons x rs)
  show ?case
  proof (cases "recordWindow x = recordWindow r")
    case True
    with Cons.prems have "recordWindow r \<notin> recordWindow ` set rs" by simp
    then have "recordWindow y \<noteq> recordWindow r" if "y \<in> set rs" for y
      using imageI [OF that, of recordWindow] by metis
    then have "filter (\<lambda>x. recordWindow x \<noteq> recordWindow r) rs = rs" by (rule filter_True [OF ballI])
    with True show ?thesis by (intro exI [of _ "r # rs"]) simp
  next
    case False
    with Cons obtain rs' where "oset (recordWindow r) r (by_window rs) = by_window rs'"
      "mset rs' = add_mset r (mset (filter (\<lambda>x. recordWindow x \<noteq> recordWindow r) rs))" by auto
    with False show ?thesis by (intro exI [of _ "x # rs'"]) simp
  qed
qed

lemma odel_by_window: "odel w (by_window rs) = by_window (filter (\<lambda>x. recordWindow x \<noteq> w) rs)"
  by (induction rs) (auto simp: AList.delete_eq by_window_def)

definition others :: "int \<Rightarrow> (int, window_record) omap \<Rightarrow> window_record list" where
  "others w ws = filter (\<lambda>x. recordWindow x \<noteq> w) (ovals ws)"

lemma others_windows: "s \<in> set (others w ws) \<Longrightarrow> recordWindow s \<noteq> w"
  by (simp add: others_def)

lemma windows_ok_filter: "windows_ok (by_window rs) \<Longrightarrow> windows_ok (by_window (filter P rs))"
proof -
  assume "windows_ok (by_window rs)"
  then have u: "distinct (map recordWindow rs)" "records_claims rs" "list_all record_ok rs"
    by (simp_all add: windows_ok_def records_unique_def)
  have "mset rs = mset (filter P rs @ filter (\<lambda>x. \<not> P x) rs)" by simp
  from records_claims_perm [OF this] u(2) have "records_claims (filter P rs)" using records_claims_appendD by blast
  with u show ?thesis by (simp add: windows_ok_def records_unique_def list_all_iff distinct_map_filter)
qed

lemma windows_ok_del: "windows_ok ws \<Longrightarrow> windows_ok (odel w ws)"
  using odel_by_window [of w "ovals ws"] windows_ok_filter [of "ovals ws"] by (simp add: windows_ok_def)

lemma windows_ok_set:
  assumes "windows_ok ws" and "record_ok r" and "records_claims (r # others (recordWindow r) ws)"
  shows "windows_ok (oset (recordWindow r) r ws)"
proof -
  from assms(1) have ws: "ws = by_window (ovals ws)" and d: "distinct (map recordWindow (ovals ws))"
    and ok: "list_all record_ok (ovals ws)" by (simp_all add: windows_ok_def records_unique_def)
  from oset_by_window [OF d, of r] obtain rs' where rs': "oset (recordWindow r) r ws = by_window rs'"
    and "mset rs' = add_mset r (mset (filter (\<lambda>x. recordWindow x \<noteq> recordWindow r) (ovals ws)))"
    using ws by auto
  then have m: "mset rs' = mset (r # others (recordWindow r) ws)" by (simp add: others_def)
  have "distinct (map recordWindow (r # others (recordWindow r) ws))"
    using d by (auto simp: others_def distinct_map_filter)
  with distinct_map_mset [OF m, of recordWindow] have "distinct (map recordWindow rs')" by blast
  moreover from records_claims_perm [OF m] assms(3) have "records_claims rs'" by blast
  moreover have "set rs' = set (r # others (recordWindow r) ws)" using m by (metis set_mset_mset)
  then have "list_all record_ok rs'" using ok assms(2) by (auto simp: list_all_iff others_def)
  ultimately show ?thesis by (simp add: rs' windows_ok_def records_unique_def)
qed

lemma windows_ok_get:
  assumes "windows_ok ws" and "oget ws w = Some old"
  shows "recordWindow old = w" "records_claims (old # others w ws)" "record_ok old"
proof -
  from assms(1) have ws: "ws = by_window (ovals ws)" and d: "distinct (map recordWindow (ovals ws))"
    and c: "records_claims (ovals ws)" and ok: "list_all record_ok (ovals ws)"
    by (simp_all add: windows_ok_def records_unique_def)
  from assms(2) by_window_get [OF d, of w old] ws have mem: "old \<in> set (ovals ws)" and w: "recordWindow old = w"
    by simp_all
  from w show "recordWindow old = w" .
  from mem ok show "record_ok old" by (auto simp: list_all_iff)
  have split: "mset rs = mset (old # filter (\<lambda>x. recordWindow x \<noteq> w) rs)"
    if "distinct (map recordWindow rs)" "old \<in> set rs" for rs
    using that
  proof (induction rs)
    case (Cons x rs)
    show ?case
    proof (cases "x = old")
      case True
      with Cons.prems(1) w have "w \<notin> recordWindow ` set rs" by simp
      then have "recordWindow y \<noteq> w" if "y \<in> set rs" for y
        using imageI [OF that, of recordWindow] by metis
      then have "filter (\<lambda>x. recordWindow x \<noteq> w) rs = rs" by (rule filter_True [OF ballI])
      with True w show ?thesis by simp
    next
      case False
      with Cons.prems w have "recordWindow x \<noteq> w" by (auto simp: image_iff)
      with False Cons show ?thesis by simp
    qed
  qed simp
  have "mset (ovals ws) = mset (old # others w ws)" unfolding others_def by (rule split [OF d mem])
  from records_claims_perm [OF this] c show "records_claims (old # others w ws)" by blast
qed

lemma single_owner_append:
  assumes "\<forall>x \<in> set a. snd x = w" and "\<forall>x \<in> set b. snd x \<noteq> w"
  shows "single_owner (a @ b) \<longleftrightarrow> single_owner b \<and> fst ` set a \<inter> fst ` set b = {}"
proof
  assume o: "single_owner (a @ b)"
  then have "single_owner b" by (rule single_owner_mono) simp
  moreover have "fst ` set a \<inter> fst ` set b = {}"
  proof (rule ccontr)
    assume "fst ` set a \<inter> fst ` set b \<noteq> {}"
    then obtain k u v where "(k, u) \<in> set a" "(k, v) \<in> set b" by auto
    with o have "u = v" unfolding single_owner_def by (metis UnI1 UnI2 set_append)
    with assms \<open>(k, u) \<in> set a\<close> \<open>(k, v) \<in> set b\<close> show False by auto
  qed
  ultimately show "single_owner b \<and> fst ` set a \<inter> fst ` set b = {}" by simp
next
  assume h: "single_owner b \<and> fst ` set a \<inter> fst ` set b = {}"
  show "single_owner (a @ b)"
    unfolding single_owner_def
  proof (intro allI impI)
    fix k u v assume uv: "(k, u) \<in> set (a @ b)" "(k, v) \<in> set (a @ b)"
    show "u = v"
    proof (cases "k \<in> fst ` set a")
      case True
      with h have "k \<notin> fst ` set b" by blast
      then have "(k, u) \<notin> set b" "(k, v) \<notin> set b" by force+
      with uv have "(k, u) \<in> set a" "(k, v) \<in> set a" by auto
      with assms(1) have "snd (k, u) = w" "snd (k, v) = w" by blast+
      then show ?thesis by simp
    next
      case False
      with uv have "(k, u) \<in> set b" "(k, v) \<in> set b" by (auto simp: image_iff)
      with h show ?thesis unfolding single_owner_def by blast
    qed
  qed
qed

lemma claims_window: "x \<in> set (context_claims r) \<Longrightarrow> snd x = recordWindow r"
  "x \<in> set (document_claims r) \<Longrightarrow> snd x = recordWindow r"
  by (cases r; auto)+

definition own_claims :: "window_record \<Rightarrow> bool" where
  "own_claims r \<longleftrightarrow> distinct (map exact_key (recordIdentities r)) \<and> distinct (map idNonce (recordIdentities r))
     \<and> distinct (map verifierDigest (record_capabilities r))
     \<and> distinct (concat (map capability_ids (record_capabilities r)))"

definition apart :: "window_record \<Rightarrow> window_record list \<Rightarrow> bool" where
  "apart r rs \<longleftrightarrow>
     fst ` set (context_claims r) \<inter> fst ` set (all_contexts rs) = {}
     \<and> fst ` set (document_claims r) \<inter> fst ` set (all_documents rs) = {}
     \<and> exact_key ` set (recordIdentities r) \<inter> exact_key ` set (all_identities rs) = {}
     \<and> idNonce ` set (recordIdentities r) \<inter> idNonce ` set (all_identities rs) = {}
     \<and> verifierDigest ` set (record_capabilities r) \<inter> verifierDigest ` set (all_capabilities rs) = {}
     \<and> set (concat (map capability_ids (record_capabilities r))) \<inter> set (concat (map capability_ids (all_capabilities rs))) = {}"

lemma claims_cons:
  assumes "\<forall>s \<in> set rs. recordWindow s \<noteq> recordWindow r"
  shows "records_claims (r # rs) \<longleftrightarrow> records_claims rs \<and> own_claims r \<and> apart r rs"
proof -
  have c: "single_owner (context_claims r @ all_contexts rs) \<longleftrightarrow>
      single_owner (all_contexts rs) \<and> fst ` set (context_claims r) \<inter> fst ` set (all_contexts rs) = {}"
    by (rule single_owner_append [where w = "recordWindow r"])
      (use assms claims_window in \<open>auto simp: all_contexts_def\<close>)
  have d: "single_owner (document_claims r @ all_documents rs) \<longleftrightarrow>
      single_owner (all_documents rs) \<and> fst ` set (document_claims r) \<inter> fst ` set (all_documents rs) = {}"
    by (rule single_owner_append [where w = "recordWindow r"])
      (use assms claims_window in \<open>auto simp: all_documents_def\<close>)
  show ?thesis
    unfolding records_claims_def claims_ok_def all_claims_simps map_append concat_append distinct_append c d
      own_claims_def apart_def set_map set_append
    by (intro iffI conjI; elim conjE; assumption)
qed

lemma apartI:
  assumes "fst ` set (context_claims r) \<inter> fst ` set (all_contexts rs) = {}"
    and "fst ` set (document_claims r) \<inter> fst ` set (all_documents rs) = {}"
    and "exact_key ` set (recordIdentities r) \<inter> exact_key ` set (all_identities rs) = {}"
    and "idNonce ` set (recordIdentities r) \<inter> idNonce ` set (all_identities rs) = {}"
    and "verifierDigest ` set (record_capabilities r) \<inter> verifierDigest ` set (all_capabilities rs) = {}"
    and "set (concat (map capability_ids (record_capabilities r))) \<inter> set (concat (map capability_ids (all_capabilities rs))) = {}"
  shows "apart r rs"
  using assms unfolding apart_def by blast

lemma exact_key_inject [simp]: "exact_key d = exact_key d' \<longleftrightarrow> idContext d = idContext d' \<and> idDocument d = idDocument d'"
  by (simp add: exact_key_def quote_inject_rest)

lemma identity_claims:
  assumes "\<And>w c d. r \<noteq> OpenedRecord w c d"
  shows "fst ` set (context_claims r) = idContext ` set (recordIdentities r)"
    "fst ` set (document_claims r) = idDocument ` set (recordIdentities r)"
  using assms by (cases r; force)+

text \<open>A document no other record claims anything of.\<close>

lemma not_owned:
  assumes "\<not> list_ex (owned_elsewhere d) rs"
  shows "idContext d \<notin> fst ` set (all_contexts rs)" "idDocument d \<notin> fst ` set (all_documents rs)"
    "idNonce d \<notin> idNonce ` set (all_identities rs)" "exact_key d \<notin> exact_key ` set (all_identities rs)"
proof -
  have one: "idContext d \<notin> fst ` set (context_claims r) \<and> idDocument d \<notin> fst ` set (document_claims r)
      \<and> idNonce d \<notin> idNonce ` set (recordIdentities r) \<and> exact_key d \<notin> exact_key ` set (recordIdentities r)"
    if "\<not> owned_elsewhere d r" for r
    using that by (cases r) (auto simp: list_ex_iff)
  have "\<not> owned_elsewhere d r" if "r \<in> set rs" for r using assms that by (auto simp: list_ex_iff)
  with one show "idContext d \<notin> fst ` set (all_contexts rs)" "idDocument d \<notin> fst ` set (all_documents rs)"
    "idNonce d \<notin> idNonce ` set (all_identities rs)" "exact_key d \<notin> exact_key ` set (all_identities rs)"
    unfolding all_contexts_def all_documents_def all_identities_def
    by (simp_all only: set_concat set_map image_UN Union_iff image_iff UN_iff) blast+
qed

lemma image_disjoint: "(\<And>i. i \<in> A \<Longrightarrow> f i \<notin> B) \<Longrightarrow> f ` A \<inter> B = {}"
  by blast

lemma concat_disjoint: "(\<And>k. k \<in> set ks \<Longrightarrow> set (f k) \<inter> B = {}) \<Longrightarrow> set (concat (map f ks)) \<inter> B = {}"
  by auto

lemma apartD:
  assumes "apart r rs"
  shows "x \<in> fst ` set (context_claims r) \<Longrightarrow> x \<notin> fst ` set (all_contexts rs)"
    "x \<in> fst ` set (document_claims r) \<Longrightarrow> x \<notin> fst ` set (all_documents rs)"
    "i \<in> set (recordIdentities r) \<Longrightarrow> exact_key i \<notin> exact_key ` set (all_identities rs)"
    "i \<in> set (recordIdentities r) \<Longrightarrow> idNonce i \<notin> idNonce ` set (all_identities rs)"
    "k \<in> set (record_capabilities r) \<Longrightarrow> verifierDigest k \<notin> verifierDigest ` set (all_capabilities rs)"
    "k \<in> set (record_capabilities r) \<Longrightarrow>
       set (capability_ids k) \<inter> set (concat (map capability_ids (all_capabilities rs))) = {}"
proof -
  note a = assms [unfolded apart_def]
  note c = a [THEN conjunct1] and d = a [THEN conjunct2, THEN conjunct1]
    and e = a [THEN conjunct2, THEN conjunct2, THEN conjunct1]
    and n = a [THEN conjunct2, THEN conjunct2, THEN conjunct2, THEN conjunct1]
    and v = a [THEN conjunct2, THEN conjunct2, THEN conjunct2, THEN conjunct2, THEN conjunct1]
    and t = a [THEN conjunct2, THEN conjunct2, THEN conjunct2, THEN conjunct2, THEN conjunct2]
  show "x \<in> fst ` set (context_claims r) \<Longrightarrow> x \<notin> fst ` set (all_contexts rs)" using c by (rule disjoint_iff [THEN iffD1, rule_format])
  show "x \<in> fst ` set (document_claims r) \<Longrightarrow> x \<notin> fst ` set (all_documents rs)" using d by (rule disjoint_iff [THEN iffD1, rule_format])
  show "i \<in> set (recordIdentities r) \<Longrightarrow> exact_key i \<notin> exact_key ` set (all_identities rs)"
    using e by (rule disjoint_iff [THEN iffD1, rule_format]) (rule imageI)
  show "i \<in> set (recordIdentities r) \<Longrightarrow> idNonce i \<notin> idNonce ` set (all_identities rs)"
    using n by (rule disjoint_iff [THEN iffD1, rule_format]) (rule imageI)
  show "k \<in> set (record_capabilities r) \<Longrightarrow> verifierDigest k \<notin> verifierDigest ` set (all_capabilities rs)"
    using v by (rule disjoint_iff [THEN iffD1, rule_format]) (rule imageI)
  assume "k \<in> set (record_capabilities r)"
  then have "set (capability_ids k) \<subseteq> set (concat (map capability_ids (record_capabilities r)))" by auto
  with t show "set (capability_ids k) \<inter> set (concat (map capability_ids (all_capabilities rs))) = {}" by blast
qed

lemma identity_claimed:
  "i \<in> set (recordIdentities r) \<Longrightarrow> idContext i \<in> fst ` set (context_claims r)"
  "i \<in> set (recordIdentities r) \<Longrightarrow> idDocument i \<in> fst ` set (document_claims r)"
  by (cases r; force)+

text \<open>
  A record may be replaced by one whose documents and capabilities are its own or unclaimed.
\<close>

lemma replace_claims:
  assumes old: "records_claims (old # rs)" and ne: "\<forall>s \<in> set rs. recordWindow s \<noteq> recordWindow old"
    and w: "recordWindow r = recordWindow old"
    and stage: "\<And>w c d. r \<noteq> OpenedRecord w c d"
    and ids: "\<forall>i \<in> set (recordIdentities r). i \<in> set (recordIdentities old) \<or> i = n"
    and n: "n \<in> set (recordIdentities old) \<or> \<not> list_ex (owned_elsewhere n) rs"
    and caps: "\<forall>k \<in> set (record_capabilities r). k \<in> set (record_capabilities old) \<or> k = m"
    and m: "m \<in> set (record_capabilities old) \<or> (verifierDigest m \<notin> verifierDigest ` set (all_capabilities rs)
        \<and> set (capability_ids m) \<inter> set (concat (map capability_ids (all_capabilities rs))) = {})"
    and own: "own_claims r"
  shows "records_claims (r # rs)"
proof -
  have ne': "\<forall>s \<in> set rs. recordWindow s \<noteq> recordWindow r" using ne w by simp
  from old claims_cons [OF ne] have rest: "records_claims rs" and ap: "apart old rs" by simp_all
  have idi: "idContext i \<notin> fst ` set (all_contexts rs) \<and> idDocument i \<notin> fst ` set (all_documents rs)
      \<and> exact_key i \<notin> exact_key ` set (all_identities rs) \<and> idNonce i \<notin> idNonce ` set (all_identities rs)"
    if i: "i \<in> set (recordIdentities r)" for i
  proof (cases "i \<in> set (recordIdentities old)")
    case True
    show ?thesis
      by (intro conjI apartD [OF ap] identity_claimed True)
  next
    case False
    with bspec [OF ids i] have "i = n" by simp
    with False n have "\<not> list_ex (owned_elsewhere i) rs" by simp
    from not_owned [OF this] show ?thesis by (intro conjI)
  qed
  have capi: "verifierDigest k \<notin> verifierDigest ` set (all_capabilities rs)
      \<and> set (capability_ids k) \<inter> set (concat (map capability_ids (all_capabilities rs))) = {}"
    if k: "k \<in> set (record_capabilities r)" for k
  proof (cases "k \<in> set (record_capabilities old)")
    case True
    show ?thesis by (intro conjI apartD [OF ap] True)
  next
    case False
    with bspec [OF caps k] have "k = m" by simp
    with False m show ?thesis by simp
  qed
  have "apart r rs"
  proof (rule apartI)
    show "fst ` set (context_claims r) \<inter> fst ` set (all_contexts rs) = {}"
      unfolding identity_claims(1) [OF stage] by (rule image_disjoint) (rule idi [THEN conjunct1])
    show "fst ` set (document_claims r) \<inter> fst ` set (all_documents rs) = {}"
      unfolding identity_claims(2) [OF stage] by (rule image_disjoint) (rule idi [THEN conjunct2, THEN conjunct1])
    show "exact_key ` set (recordIdentities r) \<inter> exact_key ` set (all_identities rs) = {}"
      by (rule image_disjoint) (rule idi [THEN conjunct2, THEN conjunct2, THEN conjunct1])
    show "idNonce ` set (recordIdentities r) \<inter> idNonce ` set (all_identities rs) = {}"
      by (rule image_disjoint) (rule idi [THEN conjunct2, THEN conjunct2, THEN conjunct2])
    show "verifierDigest ` set (record_capabilities r) \<inter> verifierDigest ` set (all_capabilities rs) = {}"
      by (rule image_disjoint) (rule capi [THEN conjunct1])
    show "set (concat (map capability_ids (record_capabilities r))) \<inter> set (concat (map capability_ids (all_capabilities rs))) = {}"
      by (rule concat_disjoint) (rule capi [THEN conjunct2])
  qed
  with rest own claims_cons [OF ne'] show ?thesis by blast
qed

subsection \<open>Every operation keeps the records sound\<close>

lemma unique_context:
  assumes "uniqueRawContextForNonce cfg snapshot nonce doc = Some c"
  shows "c \<in> set snapshot" "context_nonce cfg c = Some nonce" "doc \<noteq> None \<Longrightarrow> ctxDocument c = doc"
    "\<And>c'. c' \<in> set snapshot \<Longrightarrow> context_nonce cfg c' = Some nonce \<Longrightarrow> c' = c"
proof -
  from assms have f: "filter (\<lambda>c. context_nonce cfg c = Some nonce) snapshot = [c]"
    and d: "\<not> (doc \<noteq> None \<and> ctxDocument c \<noteq> doc)"
    by (auto simp: uniqueRawContextForNonce_def split: list.splits if_splits)
  from f have s: "{c' \<in> set snapshot. context_nonce cfg c' = Some nonce} = {c}" by (metis list.set(1,2) set_filter)
  then show "c \<in> set snapshot" "context_nonce cfg c = Some nonce" by blast+
  from s show "\<And>c'. c' \<in> set snapshot \<Longrightarrow> context_nonce cfg c' = Some nonce \<Longrightarrow> c' = c" by blast
  from d show "doc \<noteq> None \<Longrightarrow> ctxDocument c = doc" by blast
qed

lemma context_nonce_valid: "context_nonce cfg c = Some n \<Longrightarrow> isSidepanelDocumentNonce n"
  by (auto simp: context_nonce_def sidepanelDocumentNonce_def split: option.splits list.splits if_splits)

lemma valid_context:
  "validContext cfg c \<Longrightarrow> nonblank (ctxId c) \<and> (\<exists>d. ctxDocument c = Some d \<and> nonblank d)"
  by (cases "ctxDocument c") (auto simp: validContext_def split: option.splits)

lemma revalidate_True:
  assumes "revalidateCandidate cfg e st w d expected predecessor = Inr True"
  shows "document_ok d" "\<not> openingSecond e w" "oget (windows st) w = Some expected"
    "\<not> list_ex (owned_elsewhere d) (others w (windows st))"
    "\<And>p. predecessor = Some p \<Longrightarrow> exact_key d \<noteq> exact_key p \<and> idNonce d \<noteq> idNonce p"
proof -
  from assms obtain raw c where c: "secondContexts e = Some raw" "\<not> openingSecond e w"
    "uniqueRawContextForNonce cfg (liveSnapshot cfg raw) (idNonce d) (Some (idDocument d)) = Some c"
    "ctxId c = idContext d" "oget (windows st) w = Some expected"
    "\<not> list_ex (\<lambda>r. recordWindow r \<noteq> w \<and> owned_elsewhere d r) (ovals (windows st))"
    "case predecessor of None \<Rightarrow> True | Some p \<Rightarrow> previousCandidateIsGone cfg (liveSnapshot cfg raw) p"
    by (auto simp: revalidateCandidate_def Let_def split: option.splits)
  note u = unique_context [OF c(3)]
  have doc: "ctxDocument c = Some (idDocument d)" using u(3) by simp
  from u(1) have "validContext cfg c" by (simp add: liveSnapshot_def)
  from valid_context [OF this] c(4) doc context_nonce_valid [OF u(2)] show "document_ok d"
    by (simp add: document_ok_def)
  show "\<not> openingSecond e w" "oget (windows st) w = Some expected" by (rule c)+
  show "\<not> list_ex (owned_elsewhere d) (others w (windows st))"
    using c(6) by (auto simp: others_def list_ex_iff)
  fix p assume "predecessor = Some p"
  with c(7) u(1,2) c(4) doc show "exact_key d \<noteq> exact_key p \<and> idNonce d \<noteq> idNonce p"
    by (auto simp: previousCandidateIsGone_def list_ex_iff)
qed

text \<open>A fresh capability is well formed and used by no record.\<close>

lemma freshNext_Inr:
  assumes "freshNext cfg e st = Inr (raw, k)"
  shows "capability_ok k" "capTransaction k \<noteq> capLease k"
    "verifierDigest k \<notin> set (persisted_verifiers (ovals (windows st)))"
    "set (capability_ids k) \<inter> set (persisted_ids (ovals (windows st))) = {}"
    "capTransaction k = transactionId raw" "capLease k = leaseId raw" "verifierDigest k = cfgHash cfg (continuationToken raw)"
    "is_capability raw"
  using assms by (auto simp: freshNext_def digestContinuationToken_def seq_def Let_def capability_ok_def
      capability_ids_def is_capability_def isCapability_def split: if_splits sum.splits)

lemma persisted_all: "persisted_verifiers rs = map verifierDigest (all_capabilities rs)"
  "persisted_ids rs = concat (map capability_ids (all_capabilities rs))"
  by (simp_all add: persisted_verifiers_def persisted_ids_def all_capabilities_def)

lemma others_capabilities: "set (all_capabilities (others w ws)) \<subseteq> set (all_capabilities (ovals ws))"
  by (auto simp: all_capabilities_def others_def)

text \<open>What a pending record may succeed, and the proof it then keeps.\<close>

inductive succeeds :: "window_record \<Rightarrow> authority_proof \<Rightarrow> document_identity \<Rightarrow> document_identity option \<Rightarrow> bool" where
  opened: "succeeds (OpenedRecord w c x) (OpenedProof c x) d None"
| active: "succeeds (ActiveRecord w d' k) (CapabilityProof d' k) d (Some d')"
| pending: "succeeds (PendingRecord w p d' k) (CapabilityProof d' k) d (Some d')"
| again: "succeeds (PendingRecord w p d k) p d None"

lemma succeeds_proof_ok: "succeeds old p d pre \<Longrightarrow> record_ok old \<Longrightarrow> proof_ok p"
  by (induction rule: succeeds.induct) auto

lemma capability_ids_distinct: "capTransaction k \<noteq> capLease k \<Longrightarrow> distinct (capability_ids k)"
  by (simp add: capability_ids_def)

lemma succeeds_parts:
  assumes "succeeds old p d pre"
  shows "\<forall>i \<in> set (recordIdentities (PendingRecord w p d k)). i \<in> set (recordIdentities old) \<or> i = d"
    "\<forall>j \<in> set (record_capabilities (PendingRecord w p d k)). j \<in> set (record_capabilities old) \<or> j = k"
  using assms by (cases; simp split: authority_proof.split)+

definition capability_apart :: "stored_capability \<Rightarrow> stored_capability \<Rightarrow> bool" where
  "capability_apart j k \<longleftrightarrow> verifierDigest j \<noteq> verifierDigest k \<and> set (capability_ids j) \<inter> set (capability_ids k) = {}"

lemma succeeds_own:
  assumes "succeeds old p d pre" and own: "own_claims old"
    and pre: "\<And>q. pre = Some q \<Longrightarrow> exact_key d \<noteq> exact_key q \<and> idNonce d \<noteq> idNonce q"
    and new: "\<And>j. j \<in> set (record_capabilities old) \<Longrightarrow> capability_apart j k"
    and kk: "distinct (capability_ids k)"
  shows "own_claims (PendingRecord w p d k)"
  using assms(1)
proof cases
  case (opened v c x)
  with kk show ?thesis by (simp add: own_claims_def)
next
  case (active v d' k')
  with own have "distinct (capability_ids k')" by (simp add: own_claims_def)
  moreover from active new have "capability_apart k' k" by simp
  ultimately show ?thesis using active pre [of d'] kk by (auto simp: own_claims_def capability_apart_def)
next
  case (pending v p' d' k')
  with own have "distinct (capability_ids k')" by (simp add: own_claims_def)
  moreover from pending new have "capability_apart k' k" by simp
  ultimately show ?thesis using pending pre [of d'] kk by (auto simp: own_claims_def capability_apart_def)
next
  case (again v k0)
  show ?thesis
  proof (cases p)
    case (OpenedProof c x)
    with kk show ?thesis by (simp add: own_claims_def)
  next
    case (CapabilityProof d' k')
    with again own have "distinct (capability_ids k')" "exact_key d \<noteq> exact_key d'" "idNonce d \<noteq> idNonce d'"
      by (simp_all add: own_claims_def)
    moreover from again CapabilityProof new have "capability_apart k' k" by simp
    ultimately show ?thesis using CapabilityProof kk by (auto simp: own_claims_def capability_apart_def)
  qed
qed

lemma persist_sound:
  assumes ok: "windows_ok ws" and old: "oget ws w = Some old" and suc: "succeeds old p d pre"
    and d: "document_ok d" "\<not> list_ex (owned_elsewhere d) (others w ws)"
    and pre: "\<And>q. pre = Some q \<Longrightarrow> exact_key d \<noteq> exact_key q \<and> idNonce d \<noteq> idNonce q"
    and k: "capability_ok k" "capTransaction k \<noteq> capLease k"
      "verifierDigest k \<notin> set (persisted_verifiers (ovals ws))"
      "set (capability_ids k) \<inter> set (persisted_ids (ovals ws)) = {}"
  shows "windows_ok (oset w (PendingRecord w p d k) ws)"
proof -
  note o = windows_ok_get [OF ok old]
  let ?r = "PendingRecord w p d k"
  have new: "capability_apart j k" if j: "j \<in> set (all_capabilities (ovals ws))" for j
  proof -
    from j have "verifierDigest j \<in> set (persisted_verifiers (ovals ws))" by (simp add: persisted_all)
    with k(3) have "verifierDigest j \<noteq> verifierDigest k" by metis
    moreover from j have "set (capability_ids j) \<subseteq> set (persisted_ids (ovals ws))" by (auto simp: persisted_all)
    with k(4) have "set (capability_ids j) \<inter> set (capability_ids k) = {}" by blast
    ultimately show ?thesis by (simp add: capability_apart_def)
  qed
  have new_old: "capability_apart j k" if "j \<in> set (record_capabilities old)" for j
    by (rule new) (use that oget_Some_in [OF old] in \<open>force simp: all_capabilities_def\<close>)
  have new_other: "capability_apart j k" if "j \<in> set (all_capabilities (others w ws))" for j
    by (rule new) (use that others_capabilities [of w ws] in blast)
  have ne: "\<forall>s \<in> set (others w ws). recordWindow s \<noteq> recordWindow old" using others_windows o(1) by blast
  from claims_cons [OF ne] o(2) have own: "own_claims old" by blast
  have "verifierDigest k \<notin> verifierDigest ` set (all_capabilities (others w ws))"
  proof
    assume "verifierDigest k \<in> verifierDigest ` set (all_capabilities (others w ws))"
    then obtain j where "verifierDigest k = verifierDigest j" "j \<in> set (all_capabilities (others w ws))" by (rule imageE)
    with new_other [of j] show False by (simp add: capability_apart_def)
  qed
  moreover have "set (capability_ids k) \<inter> set (concat (map capability_ids (all_capabilities (others w ws)))) = {}"
    by (subst Int_commute, rule concat_disjoint) (use new_other in \<open>simp add: capability_apart_def\<close>)
  ultimately have m: "verifierDigest k \<notin> verifierDigest ` set (all_capabilities (others w ws))
        \<and> set (capability_ids k) \<inter> set (concat (map capability_ids (all_capabilities (others w ws)))) = {}"
    by (rule conjI)
  have "records_claims (?r # others w ws)"
  proof (rule replace_claims [OF o(2) ne, where n = d and m = k])
    show "recordWindow ?r = recordWindow old" using o(1) by simp
    show "own_claims ?r" by (rule succeeds_own [OF suc own pre new_old capability_ids_distinct [OF k(2)]])
    show "d \<in> set (recordIdentities old) \<or> \<not> list_ex (owned_elsewhere d) (others w ws)" using d(2) by (rule disjI2)
    show "k \<in> set (record_capabilities old) \<or> (verifierDigest k \<notin> verifierDigest ` set (all_capabilities (others w ws))
        \<and> set (capability_ids k) \<inter> set (concat (map capability_ids (all_capabilities (others w ws)))) = {})"
      using m by (rule disjI2)
  qed (rule window_record.distinct succeeds_parts [OF suc])+
  moreover have "record_ok ?r" using d(1) k(1) succeeds_proof_ok [OF suc o(3)] o(1,3) by (cases old) auto
  ultimately show ?thesis using windows_ok_set [OF ok, of ?r] by simp
qed

lemma confirm_sound:
  assumes ok: "windows_ok ws" and old: "oget ws w = Some (PendingRecord w p d k)"
  shows "windows_ok (oset w (ActiveRecord w d k) ws)"
proof -
  note o = windows_ok_get [OF ok old]
  have ne: "\<forall>s \<in> set (others w ws). recordWindow s \<noteq> recordWindow (PendingRecord w p d k)"
    using others_windows by fastforce
  from claims_cons [OF ne] o(2) have own: "own_claims (PendingRecord w p d k)" by blast
  have "records_claims (ActiveRecord w d k # others w ws)"
    by (rule replace_claims [OF o(2) ne, where n = d and m = k])
      (use own in \<open>auto simp: own_claims_def split: authority_proof.splits\<close>)
  then show ?thesis using windows_ok_set [OF ok, of "ActiveRecord w d k"] o(3) by simp
qed

text \<open>A context and document no other window claims.\<close>

definition unclaimed :: "string \<Rightarrow> string \<Rightarrow> window_record list \<Rightarrow> bool" where
  "unclaimed c x rs \<longleftrightarrow> c \<notin> set (map fst (all_contexts rs)) \<and> x \<notin> set (map fst (all_documents rs))"

lemma opened_sound:
  assumes ok: "windows_ok ws" and un: "unclaimed c x (others w ws)"
    and "usableCanonicalWindowId w" "nonblank c" "nonblank x"
  shows "windows_ok (oset w (OpenedRecord w c x) ws)"
proof -
  let ?r = "OpenedRecord w c x"
  have "windows_ok (by_window (others w ws))"
    using windows_ok_filter [of "ovals ws"] ok by (simp add: others_def windows_ok_def)
  then have rest: "records_claims (others w ws)" by (simp add: windows_ok_def records_unique_def)
  have "apart ?r (others w ws)" by (rule apartI) (use un in \<open>auto simp: unclaimed_def\<close>)
  moreover have "own_claims ?r" by (simp add: own_claims_def)
  ultimately have "records_claims (?r # others w ws)"
    using claims_cons [of "others w ws" ?r] rest others_windows by auto
  with windows_ok_set [OF ok, of ?r] assms(3-5) show ?thesis by simp
qed

subsection \<open>The authority as a machine\<close>

text \<open>Storage holds what memory holds: a new worker would load the same records.\<close>

definition durable :: "authority \<Rightarrow> bool" where
  "durable st \<longleftrightarrow> (\<exists>ws. parseAuthorityState (store st) = Inr ws \<and> (\<forall>w. oget ws w = oget (windows st) w))"

definition authority_inv :: "authority \<Rightarrow> bool" where
  "authority_inv st \<longleftrightarrow> windows_ok (windows st) \<and> (\<not> loaded st \<longrightarrow> windows st = [])
     \<and> (loaded st \<and> \<not> poisoned st \<longrightarrow> durable st)"

lemma windows_ok_Nil [simp]: "windows_ok []"
  using registers_empty by (simp add: windows_ok_def records_unique_def records_claims_def registers_def)

lemma new_worker_inv: "authority_inv (new_worker s)"
  by (simp add: authority_inv_def new_worker_def)

lemma fold_oset_append:
  assumes "omap_wf (m @ ws)"
  shows "fold (\<lambda>(w, r). oset w r) ws m = m @ ws"
  using assms
proof (induction ws arbitrary: m)
  case (Cons p ws)
  obtain k v where p: "p = (k, v)" by (cases p)
  have "k \<notin> set (okeys m)" using Cons.prems p by (auto simp: omap_wf_def)
  then have "oset k v m = m @ [p]" using p by (simp add: oset_fresh map_of_eq_None_iff)
  with Cons.IH [of "m @ [p]"] Cons.prems p show ?case by simp
qed simp

lemma ensureLoaded_windows:
  assumes "authority_inv st" and "\<not> poisoned st" and "\<not> loaded st" and "loadOk e"
    and "parseAuthorityState (store st) = Inr ws"
  shows "ensureLoaded e st = (st\<lparr>windows := ws, loaded := True\<rparr>, None)"
proof -
  have "omap_wf ws" using load_sound [OF assms(5)] by (rule windows_ok_wf)
  then have "fold (\<lambda>(w, r). oset w r) ws [] = ws" using fold_oset_append [of "[]" ws] by simp
  with assms show ?thesis by (simp add: ensureLoaded_def authority_inv_def)
qed

lemma ensureLoaded_inv:
  assumes inv: "authority_inv st" and load: "ensureLoaded e st = (st', r)"
  shows "authority_inv st'" "r = None \<Longrightarrow> loaded st' \<and> \<not> poisoned st'"
proof -
  have "authority_inv st' \<and> (r = None \<longrightarrow> loaded st' \<and> \<not> poisoned st')"
  proof (cases "poisoned st \<or> loaded st \<or> \<not> loadOk e")
    case True
    with inv load show ?thesis
      by (auto simp: ensureLoaded_def authority_inv_def split: if_splits)
  next
    case False
    show ?thesis
    proof (cases "parseAuthorityState (store st)")
      case (Inl err)
      with False inv load show ?thesis by (auto simp: ensureLoaded_def authority_inv_def)
    next
      case (Inr ws)
      with ensureLoaded_windows [OF inv _ _ _ Inr, of e] False load
      have "st' = st\<lparr>windows := ws, loaded := True\<rparr>" "r = None" by auto
      with load_sound [OF Inr] Inr False show ?thesis by (auto simp: authority_inv_def durable_def)
    qed
  qed
  then show "authority_inv st'" "r = None \<Longrightarrow> loaded st' \<and> \<not> poisoned st'" by blast+
qed

lemma saving_fst [simp]: "fst (saving e st r) = fst (saveOrPoison e st)"
  by (simp add: saving_def split: prod.split option.split)

lemma save_inv:
  assumes "windows_ok (windows st)" and "loaded st"
  shows "authority_inv (fst (saveOrPoison e st))"
proof (cases "saveOk e")
  case True
  with assms saved_state_loads [OF assms(1)] sorted_state_same [OF assms(1)] show ?thesis
    by (simp add: saveOrPoison_def authority_inv_def durable_def)
next
  case False
  with assms show ?thesis by (simp add: saveOrPoison_def authority_inv_def)
qed

lemma persistPending_inv:
  assumes inv: "authority_inv st" and ld: "loaded st" and suc: "succeeds expected p d pre"
  shows "authority_inv (fst (persistPending cfg e st w p d expected pre))"
proof (cases "freshNext cfg e st")
  case (Inl err)
  with inv show ?thesis by (simp add: persistPending_def)
next
  case (Inr x)
  obtain raw k where x: "x = (raw, k)" by (cases x)
  note f = freshNext_Inr [OF Inr [unfolded x]]
  show ?thesis
  proof (cases "revalidateCandidate cfg e st w d expected pre = Inr True")
    case False
    with Inr x inv show ?thesis
      by (cases "revalidateCandidate cfg e st w d expected pre") (auto simp: persistPending_def split: bool.splits)
  next
    case True
    note v = revalidate_True [OF True]
    from inv have ok: "windows_ok (windows st)" by (simp add: authority_inv_def)
    have "windows_ok (oset w (PendingRecord w p d k) (windows st))"
      by (rule persist_sound [OF ok v(3) suc v(1,4,5) f(1-4)])
    with Inr x True ld show ?thesis
      by (simp add: persistPending_def Let_def set_record_def save_inv)
  qed
qed

lemma prepare_scan_replace:
  "prepare_scan cfg e snapshot c d m owner created rs = Inr (Replace r p pre) \<Longrightarrow> succeeds r p d pre"
proof (induction rs)
  case (Cons x rs)
  then show ?case
    by (cases x; cases m)
      (auto simp: Let_def seq_Inr intro: succeeds.intros split: if_splits)
qed simp

lemma prepare_inv:
  assumes "authority_inv st"
  shows "authority_inv (fst (prepareWindow cfg e q sender st))"
proof -
  obtain st1 r where load: "ensureLoaded e st = (st1, r)" by fastforce
  note l = ensureLoaded_inv [OF assms load]
  show ?thesis
  proof (cases r)
    case (Some err)
    with load l show ?thesis by (simp add: prepareWindow_def)
  next
    case None
    with l have ld: "loaded st1" and inv: "authority_inv st1" by simp_all
    have op: "authority_inv (fst (prepare_open cfg e st1 c d m (OpenedRecord w x y)))" for c d m w x y
      by (simp add: prepare_open_def Let_def inv persistPending_inv [OF inv ld succeeds.opened])
    have other: "authority_inv (fst (prepare_other cfg e st1 snapshot c d m owner))" for snapshot c d m owner
    proof (cases "prepare_scan cfg e snapshot c d m owner (pendingCreated st1) (ovals (windows st1))")
      case (Inl err)
      with inv show ?thesis by (simp add: prepare_other_def)
    next
      case (Inr act)
      show ?thesis
      proof (cases act)
        case (Replace r p pre)
        with Inr persistPending_inv [OF inv ld prepare_scan_replace, of cfg e] show ?thesis
          by (simp add: prepare_other_def)
      next
        case (Acknowledge w)
        with Inr inv show ?thesis
          by (cases m) (simp_all add: prepare_other_def authority_inv_def durable_def)
      qed (use Inr inv in \<open>simp_all add: prepare_other_def\<close>)
    qed
    show ?thesis
      using None load inv op other
      by (auto simp: prepareWindow_def Let_def split: option.split window_record.split)
  qed
qed

lemma confirm_inv:
  assumes "authority_inv st"
  shows "authority_inv (fst (confirmWindow cfg e q sender st))"
proof -
  obtain st1 r where load: "ensureLoaded e st = (st1, r)" by fastforce
  note l = ensureLoaded_inv [OF assms load]
  show ?thesis
  proof (cases r)
    case (Some err)
    with load l show ?thesis by (simp add: confirmWindow_def)
  next
    case None
    with l have ld: "loaded st1" and inv: "authority_inv st1" by simp_all
    then have ok: "windows_ok (windows st1)" by (simp add: authority_inv_def)
    have act: "authority_inv (fst (saveOrPoison e (set_record (ActiveRecord w d' k) st1
        \<lparr>pendingCreated := pendingCreated st1 - {w}\<rparr>)))"
      if "revalidateCandidate cfg e st1 w d (PendingRecord w p d' k) None = Inr True" for w d p d' k
    proof -
      from revalidate_True(3) [OF that] have "oget (windows st1) w = Some (PendingRecord w p d' k)" .
      from confirm_sound [OF ok this] ld show ?thesis by (simp add: save_inv set_record_def)
    qed
    show ?thesis
      using None load inv act
      by (auto simp: confirmWindow_def Let_def split: option.split sum.split bool.split window_record.split)
  qed
qed

lemma release_inv:
  assumes "authority_inv st"
  shows "authority_inv (fst (releaseWindow e w st))"
proof -
  obtain st1 r where load: "ensureLoaded e st = (st1, r)" by fastforce
  note l = ensureLoaded_inv [OF assms load]
  show ?thesis
  proof (cases r)
    case (Some err)
    with load l show ?thesis by (simp add: releaseWindow_def)
  next
    case None
    with l have ld: "loaded st1" and inv: "authority_inv st1" by simp_all
    then have "authority_inv (fst (saveOrPoison e
        (st1\<lparr>windows := odel w (windows st1), pendingCreated := pendingCreated st1 - {w}\<rparr>)))"
      by (intro save_inv) (simp_all add: authority_inv_def windows_ok_del)
    with None load inv show ?thesis by (simp add: releaseWindow_def)
  qed
qed

lemma opened_attempts_Inr:
  "opened_attempts cfg st w look overlap i n = Inr (c, d) \<Longrightarrow>
     \<exists>raw. c \<in> set (liveSnapshot cfg raw) \<and> ctxDocument c = Some d \<and> d \<noteq> [] \<and> opened_candidate st w c"
proof (induction n arbitrary: i)
  case (Suc n)
  show ?case
  proof (cases "look i")
    case (Some raw)
    let ?cs = "filter (opened_candidate st w) (liveSnapshot cfg raw)"
    from Suc.prems Some obtain c' where cs: "?cs = [] \<or> ?cs = [c']"
      by (auto split: if_splits list.splits)
    show ?thesis
    proof (cases "?cs = []")
      case True
      with Suc.prems Some Suc.IH show ?thesis by (auto split: if_splits)
    next
      case False
      with cs have c': "?cs = [c']" by simp
      then have "c' \<in> set ?cs" by simp
      then have "c' \<in> set (liveSnapshot cfg raw)" "opened_candidate st w c'" by simp_all
      moreover from Suc.prems Some c' Suc.IH [of "Suc i"] have
        "(c = c' \<and> ctxDocument c' = Some d \<and> d \<noteq> []) \<or> (\<exists>raw. c \<in> set (liveSnapshot cfg raw)
           \<and> ctxDocument c = Some d \<and> d \<noteq> [] \<and> opened_candidate st w c)"
        by (auto split: if_splits option.splits)
      ultimately show ?thesis by blast
    qed
  qed (use Suc.prems in simp)
qed simp

text \<open>
  \<open>observeOpened\<close> asks only whether another window's candidate has the context. A bind is admissible
  when no other window claims the context or document in any other way either. Chrome gives every
  context and every document an identity of its own, so a live context of one window is never the
  recorded one of another; the steps of the machine below are those of such a browser, and leave a
  bind that is not admissible out.
\<close>

definition bind_admissible ::
  "authority_config \<Rightarrow> exclusive_env \<Rightarrow> (nat \<Rightarrow> authority_context list option) \<Rightarrow> (nat \<Rightarrow> bool) \<Rightarrow> int
     \<Rightarrow> authority \<Rightarrow> bool" where
  "bind_admissible cfg e look overlap w st0 \<longleftrightarrow> usableCanonicalWindowId w \<and>
     (let st = fst (ensureLoaded e st0) in
      case opened_attempts cfg st w look overlap 0 (nat (case cfgMaxAttempts cfg of None \<Rightarrow> 40 | Some x \<Rightarrow> x)) of
        Inl _ \<Rightarrow> True
      | Inr (c, d) \<Rightarrow> unclaimed (ctxId c) d (others w (windows st)))"

lemma bind_inv:
  assumes "authority_inv st" and adm: "bind_admissible cfg e look overlap w st"
  shows "authority_inv (fst (opened_bind cfg e look overlap w st))"
proof -
  obtain st1 r where load: "ensureLoaded e st = (st1, r)" by fastforce
  note l = ensureLoaded_inv [OF assms(1) load]
  show ?thesis
  proof (cases r)
    case (Some err)
    with load l show ?thesis by (simp add: opened_bind_def)
  next
    case None
    with l have ld: "loaded st1" and inv: "authority_inv st1" by simp_all
    let ?attempt = "opened_attempts cfg st1 w look overlap 0 (nat (case cfgMaxAttempts cfg of None \<Rightarrow> 40 | Some x \<Rightarrow> x))"
    show ?thesis
    proof (cases ?attempt)
      case (Inl err)
      with None load inv show ?thesis by (simp add: opened_bind_def Let_def)
    next
      case (Inr x)
      obtain c d where x: "x = (c, d)" by (cases x)
      from opened_attempts_Inr [OF Inr [unfolded x]] obtain raw where c: "c \<in> set (liveSnapshot cfg raw)"
        "ctxDocument c = Some d" by blast
      then have "nonblank (ctxId c)" "nonblank d" using valid_context [of cfg c] by (auto simp: liveSnapshot_def)
      moreover from adm load Inr x have "usableCanonicalWindowId w" "unclaimed (ctxId c) d (others w (windows st1))"
        by (simp_all add: bind_admissible_def)
      ultimately have "windows_ok (oset w (OpenedRecord w (ctxId c) d) (windows st1))"
        using opened_sound inv by (simp add: authority_inv_def)
      then have "authority_inv (fst (saveOrPoison e ((set_record (OpenedRecord w (ctxId c) d) st1)
          \<lparr>pendingCreated := pendingCreated st1 - {w}\<rparr>)))"
        using ld by (simp add: save_inv set_record_def)
      with None load inv Inr x show ?thesis by (simp add: opened_bind_def Let_def)
    qed
  qed
qed

text \<open>The operations of the authority, an opened event being three of them.\<close>

datatype authority_op =
    OpenedBegin string int
  | OpenedRevoke exclusive_env int
  | OpenedBind exclusive_env "nat \<Rightarrow> authority_context list option" "nat \<Rightarrow> bool" int
  | OpenedEnd int nat
  | Prepare exclusive_env jval authority_sender
  | Confirm exclusive_env jval authority_sender
  | Resolve exclusive_env string capability "string option"
  | Current exclusive_env lease_identity
  | ListContexts exclusive_env
  | ReleaseOp exclusive_env int

fun authority_apply :: "authority_config \<Rightarrow> authority_op \<Rightarrow> authority \<Rightarrow> authority" where
  "authority_apply cfg (OpenedBegin path w) st = fst (opened_begin cfg path w st)"
| "authority_apply cfg (OpenedRevoke e w) st = fst (releaseWindow e w st)"
| "authority_apply cfg (OpenedBind e look overlap w) st = fst (opened_bind cfg e look overlap w st)"
| "authority_apply cfg (OpenedEnd w t) st = opened_end w t st"
| "authority_apply cfg (Prepare e q s) st = fst (prepareWindow cfg e q s st)"
| "authority_apply cfg (Confirm e q s) st = fst (confirmWindow cfg e q s st)"
| "authority_apply cfg (Resolve e n m d) st = fst (resolveActiveLease cfg e n m d st)"
| "authority_apply cfg (Current e l) st = fst (isLeaseCurrent cfg e l st)"
| "authority_apply cfg (ListContexts e) st = fst (listAuthorizedContexts cfg e st)"
| "authority_apply cfg (ReleaseOp e w) st = fst (releaseWindow e w st)"

definition authority_step :: "authority_config \<Rightarrow> authority_op \<Rightarrow> authority \<Rightarrow> authority" where
  "authority_step cfg op st =
     (case op of
        OpenedBind e look overlap w \<Rightarrow>
          if bind_admissible cfg e look overlap w st then authority_apply cfg op st else st
      | _ \<Rightarrow> authority_apply cfg op st)"

lemma opened_end_simps [simp]:
  "windows (opened_end w t st) = windows st" "loaded (opened_end w t st) = loaded st"
  "poisoned (opened_end w t st) = poisoned st" "store (opened_end w t st) = store st"
  by (simp_all add: opened_end_def endOpeningWindow_def releaseOpenedEventToken_def Let_def)

lemma opened_begin_simps [simp]:
  "windows (fst (opened_begin cfg p w st)) = windows st" "loaded (fst (opened_begin cfg p w st)) = loaded st"
  "poisoned (fst (opened_begin cfg p w st)) = poisoned st" "store (fst (opened_begin cfg p w st)) = store st"
  by (simp_all add: opened_begin_def beginOpeningWindow_def Let_def)

lemma authority_inv_same:
  "authority_inv st \<Longrightarrow> windows st' = windows st \<Longrightarrow> loaded st' = loaded st \<Longrightarrow> poisoned st' = poisoned st \<Longrightarrow>
     store st' = store st \<Longrightarrow> authority_inv st'"
  by (simp add: authority_inv_def durable_def)

lemma reading_state:
  "fst (resolveActiveLease cfg e n m d st) \<in> {st, fst (ensureLoaded e st)}"
  "fst (isLeaseCurrent cfg e l st) = fst (ensureLoaded e st)"
  "fst (listAuthorizedContexts cfg e st) = fst (ensureLoaded e st)"
  by (auto simp: resolveActiveLease_def isLeaseCurrent_def listAuthorizedContexts_def split: prod.split option.split)

lemma load_inv: "authority_inv st \<Longrightarrow> authority_inv (fst (ensureLoaded e st))"
  by (cases "ensureLoaded e st") (simp add: ensureLoaded_inv)

lemma authority_step_inv:
  assumes "authority_inv st"
  shows "authority_inv (authority_step cfg op st)"
proof (cases op)
  case (Resolve e n m d)
  with reading_state(1) [of cfg e n m d st] load_inv [OF assms, of e] assms show ?thesis
    by (auto simp: authority_step_def)
next
  case (OpenedBegin p w)
  then show ?thesis using authority_inv_same [OF assms] by (simp add: authority_step_def)
next
  case (OpenedEnd w t)
  then show ?thesis using authority_inv_same [OF assms] by (simp add: authority_step_def)
qed (simp_all add: authority_step_def assms bind_inv prepare_inv confirm_inv release_inv load_inv reading_state)

interpretation authority_machine: invariant_machine "authority_step cfg" authority_inv for cfg
  by unfold_locales (rule authority_step_inv)

subsection \<open>What the authority promises\<close>

text \<open>
  C23. The loader accepts exactly sound states: stored windows load if and only if every record is
  valid and together they are unique (one record per window, each context and document of one
  window, no document, nonce, verifier or capability identity twice); the records are then those
  stored, filed by window.
\<close>

theorem loader_accepts_exactly:
  assumes "jget ''windows'' fs = JArr vs" and "jget ''version'' fs = jint 2"
    and "hasOnlyKeys fs [''version'', ''windows'']"
  shows "parseAuthorityState (JObj fs) = Inr ws \<longleftrightarrow>
    list_all validRecord vs \<and> records_unique (map record_of vs) \<and> ws = by_window (map record_of vs)"
  by (rule load_accepts_iff [OF assms])

text \<open>
  C24. The authority survives its worker: after any operations of a worker over any storage (in a
  browser that never gives a document an identity another window's record names, see
  \<open>bind_admissible\<close>), if it is loaded and not poisoned, a new worker that can read the storage loads
  exactly the records the old one held.
\<close>

theorem authority_survives_restart:
  assumes "st = fold (authority_step cfg) ops (new_worker s)"
    and "loaded st" and "\<not> poisoned st" and "loadOk e"
  shows "\<exists>st'. ensureLoaded e (new_worker (store st)) = (st', None) \<and> (\<forall>w. oget (windows st') w = oget (windows st) w)"
proof -
  have "authority_inv st" unfolding assms(1) by (rule authority_machine.run_inv [OF new_worker_inv])
  with assms(2,3) obtain ws where ws: "parseAuthorityState (store st) = Inr ws"
    "\<forall>w. oget ws w = oget (windows st) w" by (auto simp: authority_inv_def durable_def)
  have "ensureLoaded e (new_worker (store st)) = ((new_worker (store st))\<lparr>windows := ws, loaded := True\<rparr>, None)"
    by (rule ensureLoaded_windows [OF new_worker_inv]) (simp_all add: new_worker_def assms(4) ws(1))
  with ws(2) show ?thesis by simp
qed

lemma two_records:
  assumes "windows_ok ws" and "oget ws v = Some r" and "oget ws w = Some s" and "v \<noteq> w"
  shows "apart r (others v ws)" "s \<in> set (others v ws)"
proof -
  note r = windows_ok_get [OF assms(1,2)] and s = windows_ok_get [OF assms(1,3)]
  have "\<forall>s \<in> set (others v ws). recordWindow s \<noteq> recordWindow r" using others_windows r(1) by blast
  from claims_cons [OF this] r(2) show "apart r (others v ws)" by blast
  show "s \<in> set (others v ws)"
    using oget_Some_in [OF assms(3)] s(1) assms(4) by (force simp: others_def)
qed

text \<open>
  C26. No lease serves two windows: in every reachable state (of a browser whose document identities
  are its own, see \<open>bind_admissible\<close>) two active records that share a lease
  or transaction identity, a verifier, a document nonce, a context or a document are records of the
  same window.
\<close>

theorem lease_of_one_window:
  assumes "st = fold (authority_step cfg) ops (new_worker s)"
    and "oget (windows st) v = Some (ActiveRecord v' d j)" and "oget (windows st) w = Some (ActiveRecord w' x k)"
    and "capLease j = capLease k \<or> capTransaction j = capTransaction k \<or> verifierDigest j = verifierDigest k
      \<or> idNonce d = idNonce x \<or> idContext d = idContext x \<or> idDocument d = idDocument x"
  shows "v = w"
proof (rule ccontr)
  assume ne: "v \<noteq> w"
  have "authority_inv st" unfolding assms(1) by (rule authority_machine.run_inv [OF new_worker_inv])
  then have ok: "windows_ok (windows st)" by (simp add: authority_inv_def)
  note two = two_records [OF ok assms(2,3) ne]
  note ap = apartD [OF two(1)]
  have x: "x \<in> set (all_identities (others v (windows st)))" and k: "k \<in> set (all_capabilities (others v (windows st)))"
    using two(2) by (force simp: all_identities_def all_capabilities_def)+
  have cx: "idContext x \<in> fst ` set (all_contexts (others v (windows st)))"
    and dx: "idDocument x \<in> fst ` set (all_documents (others v (windows st)))"
    using two(2) by (force simp: all_contexts_def all_documents_def)+
  have "verifierDigest j \<noteq> verifierDigest k"
    using ap(5) [of j] imageI [OF k, of verifierDigest] by auto
  moreover have "idNonce d \<noteq> idNonce x" using ap(4) [of d] imageI [OF x, of idNonce] by auto
  moreover have "idContext d \<notin> fst ` set (all_contexts (others v (windows st)))" by (rule ap(1)) simp
  then have "idContext d \<noteq> idContext x" using cx by metis
  moreover have "idDocument d \<notin> fst ` set (all_documents (others v (windows st)))" by (rule ap(2)) simp
  then have "idDocument d \<noteq> idDocument x" using dx by metis
  moreover have "set (capability_ids k) \<subseteq> set (concat (map capability_ids (all_capabilities (others v (windows st)))))"
    using k by auto
  with ap(6) [of j] have "set (capability_ids j) \<inter> set (capability_ids k) = {}" by auto
  then have "capLease j \<noteq> capLease k" "capTransaction j \<noteq> capTransaction k" by (auto simp: capability_ids_def)
  ultimately show False using assms(4) by blast
qed

subsection \<open>Who activates a lease\<close>

lemma capabilityMatches_True:
  "capabilityMatches cfg m k = Inr True \<Longrightarrow>
     transactionId m = capTransaction k \<and> leaseId m = capLease k \<and> cfgHash cfg (continuationToken m) = verifierDigest k"
  by (auto simp: capabilityMatches_def digestContinuationToken_def seq_Inr Let_def split: if_splits)

lemma confirm_scan_Some:
  "confirm_scan cfg e c d m rs = Inr (Some r) \<Longrightarrow>
     r \<in> set rs \<and> recordCandidate r = d \<and> capabilityMatches cfg m (recordCapability r) = Inr True
     \<and> (\<forall>w x y. r \<noteq> OpenedRecord w x y)"
proof (induction rs)
  case (Cons x rs)
  show ?case
  proof (cases "confirm_scan cfg e c d m (x # rs) = confirm_scan cfg e c d m rs")
    case True
    with Cons show ?thesis by auto
  next
    case False
    then show ?thesis
      using Cons.prems by (cases x) (auto simp: Let_def seq_Inr split: if_splits)
  qed
qed simp

text \<open>The records an operation leaves active were active before, unless it confirms them.\<close>

lemma save_windows [simp]: "windows (fst (saveOrPoison e st)) = windows st"
  by (simp add: saveOrPoison_def)

definition adds_pending :: "authority \<Rightarrow> authority \<Rightarrow> bool" where
  "adds_pending st st' \<longleftrightarrow> windows st' = windows st
     \<or> (\<exists>w p d k. windows st' = oset w (PendingRecord w p d k) (windows st))"

lemma persist_adds: "adds_pending st (fst (persistPending cfg e st w p d old pre))"
proof (cases "\<exists>raw k. freshNext cfg e st = Inr (raw, k) \<and> revalidateCandidate cfg e st w d old pre = Inr True")
  case True
  then obtain raw k where "freshNext cfg e st = Inr (raw, k)" "revalidateCandidate cfg e st w d old pre = Inr True"
    by blast
  then have "windows (fst (persistPending cfg e st w p d old pre)) = oset w (PendingRecord w p d k) (windows st)"
    by (simp add: persistPending_def Let_def set_record_def)
  then show ?thesis unfolding adds_pending_def by blast
next
  case False
  then show ?thesis
    by (cases "freshNext cfg e st"; cases "revalidateCandidate cfg e st w d old pre")
      (auto simp: persistPending_def adds_pending_def split: bool.split)
qed

lemma adds_pending_refl: "windows st' = windows st \<Longrightarrow> adds_pending st st'"
  by (simp add: adds_pending_def)

lemma prepare_open_adds: "adds_pending st (fst (prepare_open cfg e st c d m r))"
  unfolding prepare_open_def Let_def if_distrib [of fst] using persist_adds by (simp add: adds_pending_refl)

lemma prepare_other_adds: "adds_pending st (fst (prepare_other cfg e st snapshot c d m owner))"
proof (cases "prepare_scan cfg e snapshot c d m owner (pendingCreated st) (ovals (windows st))")
  case (Inr act)
  then show ?thesis
    by (cases act; cases m) (simp_all add: prepare_other_def persist_adds adds_pending_refl)
qed (simp add: prepare_other_def adds_pending_refl)

lemma prepare_adds:
  assumes "ensureLoaded e st = (st, None)"
  shows "adds_pending st (fst (prepareWindow cfg e q s st))"
proof (cases "isSidepanelWindowPrepareRequest q \<and> validSender cfg s")
  case True
  show ?thesis
  proof (cases "firstContexts e")
    case (Some raw)
    show ?thesis
    proof (cases "request_candidate cfg (liveSnapshot cfg raw) (request_nonce q) s")
      case cd: (Some x)
      obtain c d where x: "x = (c, d)" by (cases x)
      have eq: "prepareWindow cfg e q s st =
          (case recordForContext (ctxId c) st of
             Some (OpenedRecord w x y) \<Rightarrow> prepare_open cfg e st c d (request_proof q) (OpenedRecord w x y)
           | owner \<Rightarrow> prepare_other cfg e st (liveSnapshot cfg raw) c d (request_proof q) (map_option recordWindow owner))"
        using assms True Some cd x by (simp add: prepareWindow_def Let_def)
      show ?thesis
      proof (cases "recordForContext (ctxId c) st")
        case None
        then show ?thesis using eq prepare_other_adds by simp
      next
        case (Some r)
        then show ?thesis using eq prepare_other_adds prepare_open_adds by (cases r) simp_all
      qed
    qed (use assms True Some in \<open>simp add: prepareWindow_def Let_def adds_pending_refl\<close>)
  qed (use assms True in \<open>simp add: prepareWindow_def adds_pending_refl\<close>)
qed (use assms in \<open>auto simp: prepareWindow_def adds_pending_refl\<close>)

lemma prepare_windows:
  assumes "ensureLoaded e st = (st, None)"
    and "oget (windows (fst (prepareWindow cfg e q s st))) v = Some (ActiveRecord v' x k)"
  shows "oget (windows st) v = Some (ActiveRecord v' x k)"
  using prepare_adds [OF assms(1), of cfg q s] assms(2) by (auto simp: adds_pending_def split: if_splits)

text \<open>A confirmation that changes the records turns one pending record active.\<close>

lemma confirm_cases:
  assumes load: "ensureLoaded e st = (st, None)"
  obtains (same) "windows (fst (confirmWindow cfg e q s st)) = windows st"
  | (activated) w p d k where "isSidepanelWindowConfirmRequest q" "oget (windows st) w = Some (PendingRecord w p d k)"
      "idNonce d = request_nonce q" "capabilityMatches cfg (material_of (obj_fields q)) k = Inr True"
      "windows (fst (confirmWindow cfg e q s st)) = oset w (ActiveRecord w d k) (windows st)"
proof (cases "isSidepanelWindowConfirmRequest q \<and> validSender cfg s")
  case q: True
  show ?thesis
  proof (cases "firstContexts e")
    case None
    with q load same show ?thesis by (simp add: confirmWindow_def)
  next
    case raw: (Some raw)
    show ?thesis
    proof (cases "request_candidate cfg (liveSnapshot cfg raw) (request_nonce q) s")
      case None
      with q load raw same show ?thesis by (simp add: confirmWindow_def Let_def)
    next
      case cd: (Some x)
      obtain c d where x: "x = (c, d)" by (cases x)
      let ?scan = "confirm_scan cfg e c d (material_of (obj_fields q)) (ovals (windows st))"
      have eq: "confirmWindow cfg e q s st = (case ?scan of
          Inl err \<Rightarrow> (st, Inl err)
        | Inr None \<Rightarrow> (st, Inr RejectedConfirm)
        | Inr (Some r) \<Rightarrow>
            (case revalidateCandidate cfg e st (recordWindow r) d r None of
               Inl err \<Rightarrow> (st, Inl err)
             | Inr False \<Rightarrow> (st, Inr RejectedConfirm)
             | Inr True \<Rightarrow>
                 (case r of
                    PendingRecord w p d' k \<Rightarrow>
                      saving e ((set_record (ActiveRecord w d' k) st)
                          \<lparr>pendingCreated := pendingCreated st - {w}\<rparr>) (ConfirmedWindow w (material_of (obj_fields q)))
                  | _ \<Rightarrow> (st, Inr (ConfirmedWindow (recordWindow r) (material_of (obj_fields q)))))))"
        using load q raw cd x by (simp add: confirmWindow_def Let_def)
      show ?thesis
      proof (cases "\<exists>w p d' k. ?scan = Inr (Some (PendingRecord w p d' k))
          \<and> revalidateCandidate cfg e st w d (PendingRecord w p d' k) None = Inr True")
        case True
        then obtain w p d' k where scan: "?scan = Inr (Some (PendingRecord w p d' k))"
          and rv: "revalidateCandidate cfg e st w d (PendingRecord w p d' k) None = Inr True" by blast
        have "d' = d" "capabilityMatches cfg (material_of (obj_fields q)) k = Inr True"
          using confirm_scan_Some [OF scan] by simp_all
        moreover have "idNonce d = request_nonce q"
          using cd x by (auto simp: request_candidate_def candidateFromContext_def split: option.splits if_splits)
        ultimately show ?thesis
          using activated [of w p d k] q revalidate_True(3) [OF rv] eq scan rv by (simp add: set_record_def)
      next
        case False
        show ?thesis
        proof (rule same, cases ?scan)
          case (Inl err)
          with eq show "windows (fst (confirmWindow cfg e q s st)) = windows st" by simp
        next
          case (Inr o')
          show "windows (fst (confirmWindow cfg e q s st)) = windows st"
          proof (cases o')
            case (Some r)
            with Inr False eq show ?thesis
              by (cases r; cases "revalidateCandidate cfg e st (recordWindow r) d r None")
                (auto split: bool.splits)
          qed (use Inr eq in simp)
        qed
      qed
    qed
  qed
qed (use load same in \<open>auto simp: confirmWindow_def\<close>)

text \<open>
  Only a confirmation activates a lease, and only the one that was prepared: in a loaded
  authority, if an operation makes a record active that was not, the operation is \<open>confirmWindow\<close>, the
  window's record was pending for the same document and capability, and the request presented that
  capability, with a token whose hash is the stored verifier.
\<close>

theorem only_confirm_activates:
  assumes inv: "authority_inv st" and "loaded st" and "\<not> poisoned st"
    and new: "oget (windows (authority_step cfg op st)) v = Some (ActiveRecord w d k)"
    and old: "oget (windows st) v \<noteq> Some (ActiveRecord w d k)"
  shows "\<exists>e q s p. op = Confirm e q s \<and> isSidepanelWindowConfirmRequest q
    \<and> oget (windows st) v = Some (PendingRecord w p d k)
    \<and> idNonce d = request_nonce q
    \<and> transactionId (material_of (obj_fields q)) = capTransaction k
    \<and> leaseId (material_of (obj_fields q)) = capLease k
    \<and> cfgHash cfg (continuationToken (material_of (obj_fields q))) = verifierDigest k"
proof -
  have load: "ensureLoaded e st = (st, None)" for e using assms(2,3) by (simp add: ensureLoaded_def)
  have other: "windows (authority_step cfg op st) = windows st \<Longrightarrow> False" using new old by simp
  show ?thesis
  proof (cases op)
    case (Confirm e q s)
    show ?thesis
    proof (rule confirm_cases [OF load, where e = e and cfg = cfg and q = q and s = s])
      assume "windows (fst (confirmWindow cfg e q s st)) = windows st"
      with other Confirm show ?thesis by (simp add: authority_step_def)
    next
      fix w' p d' k'
      assume h: "isSidepanelWindowConfirmRequest q" "oget (windows st) w' = Some (PendingRecord w' p d' k')"
        "idNonce d' = request_nonce q" "capabilityMatches cfg (material_of (obj_fields q)) k' = Inr True"
        "windows (fst (confirmWindow cfg e q s st)) = oset w' (ActiveRecord w' d' k') (windows st)"
      with new old Confirm have "v = w'" "w = w'" "d = d'" "k = k'"
        by (auto simp: authority_step_def split: if_splits)
      with h capabilityMatches_True [OF h(4)] Confirm show ?thesis by auto
    qed
  next
    case (Prepare e q s)
    with new old prepare_windows [OF load] show ?thesis by (auto simp: authority_step_def)
  next
    case (OpenedRevoke e w')
    with new old load show ?thesis
      by (auto simp: authority_step_def releaseWindow_def split: if_splits)
  next
    case (ReleaseOp e w')
    with new old load show ?thesis
      by (auto simp: authority_step_def releaseWindow_def split: if_splits)
  next
    case (OpenedBind e look overlap w')
    with new old load show ?thesis
      by (auto simp: authority_step_def opened_bind_def Let_def set_record_def
          split: if_splits sum.splits)
  next
    case (Resolve e n m x)
    with other reading_state(1) [of cfg e n m x st] load [of e] show ?thesis by (auto simp: authority_step_def)
  qed (use other load in \<open>auto simp: authority_step_def reading_state\<close>)
qed

subsection \<open>Leases are checked, revoked and never given in doubt\<close>

lemma loaded_keeps: "loaded st \<Longrightarrow> \<not> poisoned st \<Longrightarrow> ensureLoaded e st = (st, None)"
  by (simp add: ensureLoaded_def)

lemma lease_scan_Some:
  "lease_scan cfg e c n m rs = Inr (Some r) \<Longrightarrow>
     \<exists>w d k. r = ActiveRecord w d k \<and> r \<in> set rs \<and> \<not> openingFirst e w \<and> idContext d = ctxId c
       \<and> Some (idDocument d) = ctxDocument c \<and> idNonce d = n \<and> capabilityMatches cfg m k = Inr True"
proof (induction rs)
  case (Cons x rs)
  show ?case
  proof (cases "lease_scan cfg e c n m (x # rs) = lease_scan cfg e c n m rs")
    case True
    with Cons show ?thesis by auto
  next
    case False
    then show ?thesis
      using Cons.prems by (cases x) (auto simp: Let_def seq_Inr split: if_splits)
  qed
qed simp

lemma resolved_lease_run:
  assumes "authority_inv st" and "loaded st" and "\<not> poisoned st"
    and "snd (resolveActiveLease cfg e n m doc st) = Some a"
  shows "\<exists>w d k raw c. oget (windows st) w = Some (ActiveRecord w d k)
    \<and> a = authorize (ActiveRecord w d k) c
    \<and> transactionId m = capTransaction k \<and> leaseId m = capLease k \<and> cfgHash cfg (continuationToken m) = verifierDigest k
    \<and> firstContexts e = Some raw \<and> c \<in> set raw \<and> validContext cfg c
    \<and> ctxId c = idContext d \<and> ctxDocument c = Some (idDocument d)
    \<and> context_nonce cfg c = Some (idNonce d) \<and> idNonce d = n
    \<and> \<not> openingFirst e w \<and> \<not> openingSecond e w"
proof -
  from assms(4) loaded_keeps [OF assms(2,3), of e] obtain raw c r where raw: "firstContexts e = Some raw"
    and c: "uniqueRawContextForNonce cfg (liveSnapshot cfg raw) n doc = Some c"
    and scan: "lease_scan cfg e c n m (ovals (windows st)) = Inr (Some r)"
    and rv: "revalidateCandidate cfg e st (recordWindow r) (recordCandidate r) r None = Inr True"
    and a: "a = authorize r c"
    by (auto simp: resolveActiveLease_def split: if_splits option.splits sum.splits bool.splits)
  from lease_scan_Some [OF scan] obtain w d k where r: "r = ActiveRecord w d k"
    and f: "\<not> openingFirst e w" "idContext d = ctxId c" "Some (idDocument d) = ctxDocument c" "idNonce d = n"
      "capabilityMatches cfg m k = Inr True" by blast
  note u = unique_context [OF c] and v = revalidate_True [OF rv]
  have "oget (windows st) w = Some (ActiveRecord w d k)" "\<not> openingSecond e w" using v(2,3) r by simp_all
  moreover have "c \<in> set raw" "validContext cfg c" using u(1) by (simp_all add: liveSnapshot_def)
  ultimately show ?thesis using r a f capabilityMatches_True [OF f(5)] u(2) raw by metis
qed

text \<open>
  C27. A resolved lease is the active one: \<open>resolveActiveLease\<close> gives a context only for a document
  that is alive, the only one with its nonce, whose window is not opening, and whose window's
  active record names exactly this document and the presented capability, the token hashing to the
  stored verifier; the lease returned is that record's.
\<close>

theorem resolved_lease_is_active:
  assumes "authority_inv st" and "loaded st" and "\<not> poisoned st"
    and "snd (resolveActiveLease cfg e n m doc st) = Some a"
  shows "\<exists>w d k raw c. oget (windows st) w = Some (ActiveRecord w d k)
    \<and> a = authorize (ActiveRecord w d k) c
    \<and> transactionId m = capTransaction k \<and> leaseId m = capLease k \<and> cfgHash cfg (continuationToken m) = verifierDigest k
    \<and> firstContexts e = Some raw \<and> c \<in> set raw \<and> validContext cfg c
    \<and> ctxId c = idContext d \<and> ctxDocument c = Some (idDocument d)
    \<and> context_nonce cfg c = Some (idNonce d) \<and> idNonce d = n
    \<and> \<not> openingFirst e w \<and> \<not> openingSecond e w"
  by (rule resolved_lease_run [OF assms])

text \<open>
  Opening or releasing a window ends its lease at once: after either, whether or not the change
  could be saved, the window has no record, no resolution answers with this window and no lease of
  it is current.
\<close>

theorem opening_ends_lease:
  assumes "authority_inv st" and "loaded st" and "\<not> poisoned st"
    and "st' = authority_apply cfg op st" and "op = OpenedRevoke e w \<or> op = ReleaseOp e w"
  shows "oget (windows st') w = None
    \<and> (snd (resolveActiveLease cfg e' n m doc st') = Some a \<longrightarrow> leaseWindow (authorizedLease a) \<noteq> w)
    \<and> (leaseWindow l = w \<longrightarrow> \<not> snd (isLeaseCurrent cfg e' l st'))"
proof -
  have st': "st' = fst (releaseWindow e w st)" using assms(4,5) by auto
  have inv: "authority_inv st'" unfolding st' by (rule release_inv [OF assms(1)])
  have none: "oget (windows st') w = None"
    using loaded_keeps [OF assms(2,3), of e] by (simp add: st' releaseWindow_def)
  have ld: "loaded st'"
    using loaded_keeps [OF assms(2,3), of e] assms(2) by (auto simp: st' releaseWindow_def saveOrPoison_def)
  have "leaseWindow (authorizedLease a) \<noteq> w" if res: "snd (resolveActiveLease cfg e' n m doc st') = Some a"
  proof -
    have "\<not> poisoned st'"
    proof
      assume "poisoned st'"
      then have "snd (resolveActiveLease cfg e' n m doc st') = None"
        by (simp add: resolveActiveLease_def ensureLoaded_def)
      with res show False by simp
    qed
    from resolved_lease_run [OF inv ld this res] obtain v d k c where
      "oget (windows st') v = Some (ActiveRecord v d k)" "a = authorize (ActiveRecord v d k) c" by blast
    with none show ?thesis by (auto simp: authorize_def lease_of_def)
  qed
  moreover have "\<not> snd (isLeaseCurrent cfg e' l st')" if "leaseWindow l = w"
  proof (cases "poisoned st'")
    case True
    then show ?thesis by (simp add: isLeaseCurrent_def ensureLoaded_def)
  next
    case False
    with loaded_keeps [OF ld, of e'] none that show ?thesis by (simp add: isLeaseCurrent_def)
  qed
  ultimately show ?thesis using none by blast
qed

text \<open>
  C28. A poisoned authority fails closed: once storage failed, no operation of this worker changes
  the authority, hands out or confirms a capability, resolves, lists or accepts a lease, or binds
  an opened window.
\<close>

theorem poisoned_fails_closed:
  assumes "poisoned st"
  shows "\<exists>err. prepareWindow cfg e q s st = (st, Inl err) \<and> confirmWindow cfg e q s st = (st, Inl err)
    \<and> releaseWindow e w st = (st, Inl err) \<and> opened_bind cfg e look overlap w st = (st, Inl err)
    \<and> resolveActiveLease cfg e n m doc st = (st, None) \<and> isLeaseCurrent cfg e l st = (st, False)
    \<and> listAuthorizedContexts cfg e st = (st, [])"
  using assms
  by (simp add: prepareWindow_def confirmWindow_def releaseWindow_def opened_bind_def resolveActiveLease_def
      isLeaseCurrent_def listAuthorizedContexts_def ensureLoaded_def)

text \<open>What the exclusive sections leave alone.\<close>

definition same_events :: "authority \<Rightarrow> authority \<Rightarrow> bool" where
  "same_events st st' \<longleftrightarrow> openTokens st' = openTokens st \<and> tainted st' = tainted st"

lemma same_events_refl [simp]: "same_events st st"
  by (simp add: same_events_def)

lemma load_events: "ensureLoaded e st = (st', r) \<Longrightarrow> same_events st st'"
  by (auto simp: ensureLoaded_def same_events_def split: if_splits sum.splits)

lemma save_events [simp]: "openTokens (fst (saveOrPoison e st)) = openTokens st"
  "tainted (fst (saveOrPoison e st)) = tainted st"
  by (simp_all add: saveOrPoison_def)

lemma persist_events: "same_events st (fst (persistPending cfg e st w p d old pre))"
proof (cases "\<exists>raw k. freshNext cfg e st = Inr (raw, k) \<and> revalidateCandidate cfg e st w d old pre = Inr True")
  case True
  then show ?thesis by (auto simp: persistPending_def Let_def set_record_def same_events_def)
next
  case False
  then show ?thesis
    by (cases "freshNext cfg e st"; cases "revalidateCandidate cfg e st w d old pre")
      (auto simp: persistPending_def split: bool.split)
qed

lemma prepare_open_events: "same_events st (fst (prepare_open cfg e st c d m r))"
  unfolding prepare_open_def Let_def if_distrib [of fst] using persist_events by simp

lemma prepare_other_events: "same_events st (fst (prepare_other cfg e st snapshot c d m owner))"
proof (cases "prepare_scan cfg e snapshot c d m owner (pendingCreated st) (ovals (windows st))")
  case (Inr act)
  then show ?thesis
    by (cases act; cases m) (simp_all add: prepare_other_def persist_events, simp add: same_events_def)
qed (simp add: prepare_other_def)

lemma same_events_trans: "same_events s t \<Longrightarrow> same_events t u \<Longrightarrow> same_events s u"
  by (simp add: same_events_def)

lemma prepare_events: "same_events st (fst (prepareWindow cfg e q s st))"
proof -
  obtain st1 r where load: "ensureLoaded e st = (st1, r)" by fastforce
  have "same_events st1 (fst (prepareWindow cfg e q s st))"
    using load prepare_open_events [of st1] prepare_other_events [of st1]
    by (auto simp: prepareWindow_def Let_def split: option.split window_record.split)
  with load_events [OF load] show ?thesis by (rule same_events_trans)
qed

lemma confirm_events: "same_events st (fst (confirmWindow cfg e q s st))"
proof -
  obtain st1 r where load: "ensureLoaded e st = (st1, r)" by fastforce
  have "same_events st1 (fst (confirmWindow cfg e q s st))"
    using load
    by (auto simp: confirmWindow_def Let_def split: option.split sum.split bool.split window_record.split)
      (simp add: same_events_def set_record_def)
  with load_events [OF load] show ?thesis by (rule same_events_trans)
qed

lemma release_events: "same_events st (fst (releaseWindow e w st))"
proof -
  obtain st1 r where load: "ensureLoaded e st = (st1, r)" by fastforce
  have "same_events st1 (fst (releaseWindow e w st))"
    using load by (auto simp: releaseWindow_def same_events_def split: option.split)
  with load_events [OF load] show ?thesis by (rule same_events_trans)
qed

lemma bind_events: "same_events st (fst (opened_bind cfg e look overlap w st))"
proof -
  obtain st1 r where load: "ensureLoaded e st = (st1, r)" by fastforce
  have "same_events st1 (fst (opened_bind cfg e look overlap w st))"
    using load by (auto simp: opened_bind_def Let_def same_events_def set_record_def split: option.split sum.split)
  with load_events [OF load] show ?thesis by (rule same_events_trans)
qed

lemma taint_stays:
  assumes "tainted st" and "openTokens (authority_step cfg op st) \<noteq> []"
  shows "tainted (authority_step cfg op st)"
proof -
  have ex: "same_events st (authority_step cfg op st) \<Longrightarrow> ?thesis" using assms(1) by (simp add: same_events_def)
  show ?thesis
  proof (cases op)
    case (OpenedBegin p w)
    with assms show ?thesis
      by (auto simp: authority_step_def opened_begin_def Let_def beginOpeningWindow_def opened_end_def
          endOpeningWindow_def releaseOpenedEventToken_def split: if_splits)
  next
    case (OpenedEnd w t)
    with assms show ?thesis
      by (auto simp: authority_step_def opened_end_def endOpeningWindow_def releaseOpenedEventToken_def Let_def
          split: if_splits)
  next
    case (Resolve e n m d)
    have "same_events st (fst (ensureLoaded e st))" using load_events [of e st] by (cases "ensureLoaded e st") simp
    with reading_state(1) [of cfg e n m d st] Resolve show ?thesis by (intro ex) (auto simp: authority_step_def)
  next
    case (Current e l)
    have "same_events st (fst (ensureLoaded e st))" using load_events [of e st] by (cases "ensureLoaded e st") simp
    with Current show ?thesis by (intro ex) (simp add: authority_step_def reading_state)
  next
    case (ListContexts e)
    have "same_events st (fst (ensureLoaded e st))" using load_events [of e st] by (cases "ensureLoaded e st") simp
    with ListContexts show ?thesis by (intro ex) (simp add: authority_step_def reading_state)
  qed (intro ex; simp add: authority_step_def prepare_events confirm_events release_events bind_events)+
qed

text \<open>
  Overlapping openings are never bound: if a window opens while the event of another is still
  being handled, then for as long as any opening is being handled, whatever happens in between,
  no context is bound to any window.
\<close>

theorem overlap_never_binds:
  assumes "openTokens st \<noteq> []" and "opened_begin cfg path v st = (st1, Inr t)"
    and "\<forall>n \<le> length ops. openTokens (fold (authority_step cfg) (take n ops) st1) \<noteq> []"
  shows "\<exists>err. snd (opened_bind cfg e look overlap w (fold (authority_step cfg) ops st1)) = Inl err"
proof -
  have "tainted st1"
    using assms(1,2) by (auto simp: opened_begin_def Let_def beginOpeningWindow_def split: if_splits)
  then have "tainted (fold (authority_step cfg) ops st1)"
    using assms(3)
  proof (induction ops arbitrary: st1)
    case (Cons op ops)
    have "openTokens (fold (authority_step cfg) (take 1 (op # ops)) st1) \<noteq> []"
      by (rule Cons.prems(2) [rule_format]) simp
    then have t: "tainted (authority_step cfg op st1)" by (intro taint_stays Cons.prems(1)) simp
    have "\<forall>n \<le> length ops. openTokens (fold (authority_step cfg) (take n ops) (authority_step cfg op st1)) \<noteq> []"
    proof (intro allI impI)
      fix n assume "n \<le> length ops"
      then have "openTokens (fold (authority_step cfg) (take (Suc n) (op # ops)) st1) \<noteq> []"
        by (intro Cons.prems(2) [rule_format]) simp
      then show "openTokens (fold (authority_step cfg) (take n ops) (authority_step cfg op st1)) \<noteq> []" by simp
    qed
    from Cons.IH [OF t this] show ?case by simp
  qed simp
  then have t: "tainted (fold (authority_step cfg) ops st1)" .
  let ?st = "fold (authority_step cfg) ops st1"
  obtain st2 r where load: "ensureLoaded e ?st = (st2, r)" by fastforce
  with load_events [OF load] t have "overlapping st2" by (simp add: overlapping_def same_events_def)
  with load show ?thesis by (cases r) (simp_all add: opened_bind_def)
qed

subsection \<open>The handshake succeeds\<close>

text \<open>
  What an undisturbed operation observes: storage works, the window is not opening, and both
  snapshots show the document as the only one with its nonce, in a window not known to be another.
\<close>

definition sees ::
  "authority_config \<Rightarrow> authority_context list option \<Rightarrow> string option \<Rightarrow> document_identity \<Rightarrow> int \<Rightarrow> bool" where
  "sees cfg contexts doc d w =
     (case contexts of
        None \<Rightarrow> False
      | Some raw \<Rightarrow>
          (case uniqueRawContextForNonce cfg (liveSnapshot cfg raw) (idNonce d) doc of
             None \<Rightarrow> False
           | Some c \<Rightarrow> ctxId c = idContext d \<and> ctxDocument c = Some (idDocument d)
               \<and> (ctxWindow c < 0 \<or> ctxWindow c = w)))"

definition undisturbed ::
  "authority_config \<Rightarrow> exclusive_env \<Rightarrow> string option \<Rightarrow> document_identity \<Rightarrow> int \<Rightarrow> bool" where
  "undisturbed cfg e doc d w \<longleftrightarrow> saveOk e \<and> \<not> openingFirst e w \<and> \<not> openingSecond e w
     \<and> sees cfg (firstContexts e) doc d w \<and> sees cfg (secondContexts e) (Some (idDocument d)) d w"

lemma sees_obtain:
  assumes "sees cfg contexts doc d w"
  obtains raw c where "contexts = Some raw"
    "uniqueRawContextForNonce cfg (liveSnapshot cfg raw) (idNonce d) doc = Some c" "ctxId c = idContext d"
    "ctxDocument c = Some (idDocument d)" "ctxWindow c < 0 \<or> ctxWindow c = w" "validContext cfg c"
    "isSidepanelDocumentNonce (idNonce d)"
proof -
  from assms obtain raw c where c: "contexts = Some raw"
    "uniqueRawContextForNonce cfg (liveSnapshot cfg raw) (idNonce d) doc = Some c" "ctxId c = idContext d"
    "ctxDocument c = Some (idDocument d)" "ctxWindow c < 0 \<or> ctxWindow c = w"
    by (auto simp: sees_def split: option.splits)
  note u = unique_context [OF c(2)]
  from u(1) have "validContext cfg c" by (simp add: liveSnapshot_def)
  from that [OF c this context_nonce_valid [OF u(2)]] show ?thesis .
qed

lemma undisturbed_revalidates:
  assumes "undisturbed cfg e doc d w" and "oget (windows st) w = Some r"
    and "\<not> list_ex (owned_elsewhere d) (others w (windows st))"
  shows "revalidateCandidate cfg e st w d r None = Inr True"
proof -
  from assms(1) have "sees cfg (secondContexts e) (Some (idDocument d)) d w" and o: "\<not> openingSecond e w"
    by (simp_all add: undisturbed_def)
  from sees_obtain [OF this(1)] obtain raw c where c: "secondContexts e = Some raw"
    "uniqueRawContextForNonce cfg (liveSnapshot cfg raw) (idNonce d) (Some (idDocument d)) = Some c"
    "ctxId c = idContext d" "ctxWindow c < 0 \<or> ctxWindow c = w" by blast
  have "\<not> list_ex (\<lambda>r. recordWindow r \<noteq> w \<and> owned_elsewhere d r) (ovals (windows st))"
    using assms(3) by (auto simp: others_def list_ex_iff)
  with c o assms(2) show ?thesis by (simp add: revalidateCandidate_def)
qed

lemma undisturbed_candidate:
  assumes "undisturbed cfg e (senderDocument s) d w"
  obtains raw c where "firstContexts e = Some raw" "request_candidate cfg (liveSnapshot cfg raw) (idNonce d) s = Some (c, d)"
    "ctxId c = idContext d" "ctxWindow c < 0 \<or> ctxWindow c = w" "isSidepanelDocumentNonce (idNonce d)"
proof -
  from assms have "sees cfg (firstContexts e) (senderDocument s) d w" by (simp add: undisturbed_def)
  from sees_obtain [OF this] obtain raw c where c: "firstContexts e = Some raw"
    "uniqueRawContextForNonce cfg (liveSnapshot cfg raw) (idNonce d) (senderDocument s) = Some c"
    "ctxId c = idContext d" "ctxDocument c = Some (idDocument d)" "ctxWindow c < 0 \<or> ctxWindow c = w"
    "validContext cfg c" "isSidepanelDocumentNonce (idNonce d)" .
  have "request_candidate cfg (liveSnapshot cfg raw) (idNonce d) s = Some (c, d)"
    using c valid_context [OF c(6)] by (simp add: request_candidate_def candidateFromContext_def)
  from that [OF c(1) this c(3,5,7)] show ?thesis .
qed

lemma record_context_claim: "record_context r \<in> fst ` set (context_claims r)"
  by (cases r) simp_all

lemma oget_Some_value: "oget m k = Some v \<Longrightarrow> v \<in> set (ovals m)"
  by (drule oget_Some_in) force

lemma opened_owner:
  assumes ok: "windows_ok (windows st)" and r: "oget (windows st) w = Some (OpenedRecord w c x)"
  shows "recordForContext c st = Some (OpenedRecord w c x)"
proof -
  let ?rs = "ovals (windows st)"
  have mem: "OpenedRecord w c x \<in> set ?rs" using oget_Some_in [OF r] by force
  then obtain q where q: "find (\<lambda>r. record_context r = c) ?rs = Some q"
    by (cases "find (\<lambda>r. record_context r = c) ?rs") (auto simp: find_None_iff)
  then have qc: "record_context q = c" "q \<in> set ?rs" by (auto simp: find_Some_iff)
  have "q = OpenedRecord w c x"
  proof (cases "recordWindow q = w")
    case True
    from ok have d: "distinct (map recordWindow ?rs)" by (simp add: windows_ok_def records_unique_def)
    then have inj: "inj_on recordWindow (set ?rs)" by (rule distinct_map [THEN iffD1, THEN conjunct2])
    from inj_onD [OF inj _ qc(2) mem] True show ?thesis by simp
  next
    case False
    note o = windows_ok_get [OF ok r]
    have ne: "\<forall>s \<in> set (others w (windows st)). recordWindow s \<noteq> recordWindow (OpenedRecord w c x)"
      using others_windows by fastforce
    from claims_cons [OF ne] o(2) have ap: "apart (OpenedRecord w c x) (others w (windows st))" by blast
    have "c \<notin> fst ` set (all_contexts (others w (windows st)))" by (rule apartD(1) [OF ap]) simp
    moreover have "q \<in> set (others w (windows st))" using False qc(2) by (simp add: others_def)
    then have "c \<in> fst ` set (all_contexts (others w (windows st)))"
      using record_context_claim [of q] qc(1) by (force simp: all_contexts_def)
    ultimately show ?thesis by blast
  qed
  with q show ?thesis by (simp add: recordForContext_def)
qed

lemma others_oset:
  assumes "windows_ok ws" and "recordWindow r = w"
  shows "others w (oset w r ws) = others w ws"
proof -
  from assms(1) have ws: "ws = by_window (ovals ws)" by (simp add: windows_ok_def)
  have "filter (\<lambda>x. recordWindow x \<noteq> w) (ovals (oset w r m)) = filter (\<lambda>x. recordWindow x \<noteq> w) (ovals m)"
    if "m = by_window rs" for rs m
    unfolding that using assms(2) by (induction rs) auto
  from this [OF ws] show ?thesis unfolding others_def .
qed

lemma other_record:
  assumes "windows_ok (oset w r ws)" and "recordWindow r = w" and "x \<in> set (ovals (oset w r ws))" and "x \<noteq> r"
  shows "x \<in> set (others w (oset w r ws))"
proof -
  have "r \<in> set (ovals (oset w r ws))" by (rule oget_Some_value [of _ w]) simp
  moreover from assms(1) have "distinct (map recordWindow (ovals (oset w r ws)))"
    unfolding windows_ok_def records_unique_def by blast
  ultimately have "recordWindow x \<noteq> w" using assms(2-4) by (metis distinct_map inj_on_def)
  with assms(3) show ?thesis unfolding others_def set_filter by blast
qed

lemma confirm_scan_only:
  assumes "r \<in> set rs" and "\<And>q. q \<in> set rs \<Longrightarrow> q \<noteq> r \<Longrightarrow> (\<exists>w c x. q = OpenedRecord w c x) \<or> recordCandidate q \<noteq> d"
    and "\<And>w c x. r \<noteq> OpenedRecord w c x" and "recordCandidate r = d" and "\<not> openingFirst e (recordWindow r)"
    and "ctxWindow c < 0 \<or> ctxWindow c = recordWindow r" and "capabilityMatches cfg m (recordCapability r) = Inr True"
  shows "confirm_scan cfg e c d m rs = Inr (Some r)"
  using assms(1,2)
proof (induction rs)
  case (Cons x rs)
  show ?case
  proof (cases "x = r")
    case True
    with assms(3-7) show ?thesis by (cases r) (auto simp: Let_def)
  next
    case False
    with Cons.prems(1) have "r \<in> set rs" by simp
    moreover have "(\<exists>w c x. q = OpenedRecord w c x) \<or> recordCandidate q \<noteq> d" if "q \<in> set rs" "q \<noteq> r" for q
      using Cons.prems(2) that by simp
    ultimately have "confirm_scan cfg e c d m rs = Inr (Some r)" by (rule Cons.IH)
    moreover from Cons.prems(2) [of x] False have "(\<exists>w c y. x = OpenedRecord w c y) \<or> recordCandidate x \<noteq> d" by simp
    ultimately show ?thesis by (cases x) (auto simp: Let_def)
  qed
qed simp

text \<open>
  C25. An undisturbed document gets its window: when the panel of a window was opened with a document
  no other window claims, and two operations run undisturbed, \<open>prepareWindow\<close> of that document hands
  out a fresh capability of the window and \<open>confirmWindow\<close> with that capability makes the window's
  record active for the document.
\<close>

theorem handshake_succeeds:
  assumes inv: "authority_inv st" and ld: "loaded st" "\<not> poisoned st"
    and rec: "oget (windows st) w = Some (OpenedRecord w (idContext d) (idDocument d))"
    and free: "\<not> list_ex (owned_elsewhere d) (others w (windows st))"
    and sender: "validSender cfg s"
    and env: "undisturbed cfg e (senderDocument s) d w" "undisturbed cfg e' (senderDocument s) d w"
    and fresh: "freshNext cfg e st = Inr (raw, k)"
  shows "\<exists>st' st''. prepareWindow cfg e (prepare_request (idNonce d) None) s st = (st', Inr (PreparedWindow w raw))
    \<and> confirmWindow cfg e' (confirm_request (idNonce d) raw) s st' = (st'', Inr (ConfirmedWindow w raw))
    \<and> oget (windows st'') w = Some (ActiveRecord w d k)"
proof -
  note f = freshNext_Inr [OF fresh]
  let ?p = "OpenedProof (idContext d) (idDocument d)"
  let ?pend = "PendingRecord w ?p d k"
  let ?st = "(set_record ?pend st)\<lparr>pendingCreated := insert w (pendingCreated st)\<rparr>"
  let ?st1 = "?st\<lparr>store := authority_json (windows ?st)\<rparr>"
  from inv have ok: "windows_ok (windows st)" by (simp add: authority_inv_def)
  from undisturbed_candidate [OF env(1)] obtain cs c where c: "firstContexts e = Some cs"
    "request_candidate cfg (liveSnapshot cfg cs) (idNonce d) s = Some (c, d)" "ctxId c = idContext d"
    "ctxWindow c < 0 \<or> ctxWindow c = w" "isSidepanelDocumentNonce (idNonce d)" .
  have q: "isSidepanelWindowPrepareRequest (prepare_request (idNonce d) None)"
    "request_nonce (prepare_request (idNonce d) None) = idNonce d" "request_proof (prepare_request (idNonce d) None) = None"
    using c(5) by (simp_all add: prepare_request_def hasOnlyKeys_def request_nonce_def request_proof_def obj_fields_def)
  have rv: "revalidateCandidate cfg e st w d (OpenedRecord w (idContext d) (idDocument d)) None = Inr True"
    by (rule undisturbed_revalidates [OF env(1) rec free])
  have p: "prepare_open cfg e st c d None (OpenedRecord w (idContext d) (idDocument d)) = (?st1, Inr (PreparedWindow w raw))"
    using env(1) c(4) rv fresh
    by (auto simp: prepare_open_def persistPending_def undisturbed_def saving_def saveOrPoison_def)
  have prep: "prepareWindow cfg e (prepare_request (idNonce d) None) s st = (?st1, Inr (PreparedWindow w raw))"
    using loaded_keeps [OF ld, of e] q sender c(1,2,3) opened_owner [OF ok rec] p
    by (simp add: prepareWindow_def)
  let ?q = "confirm_request (idNonce d) raw"
  have cq: "isSidepanelWindowConfirmRequest ?q" "request_nonce ?q = idNonce d" "material_of (obj_fields ?q) = raw"
    using c(5) f(8) by (simp_all add: confirm_request_def hasOnlyKeys_def capability_fields_def capability_members_def
        is_capability_def isCapability_def request_nonce_def material_of_def obj_fields_def)
  have match: "capabilityMatches cfg raw k = Inr True"
    using f(1,5-7) by (simp add: capabilityMatches_def digestContinuationToken_def capability_ok_def)
  have ws: "windows ?st1 = oset w ?pend (windows st)" by (simp add: set_record_def)
  have ok1: "windows_ok (oset w ?pend (windows st))"
    by (rule persist_sound [OF ok rec succeeds.opened _ _ _ f(1-4)])
      (use revalidate_True [OF rv] in \<open>simp_all\<close>)
  have rec1: "oget (windows ?st1) w = Some ?pend" by (simp add: set_record_def)
  have oth: "others w (windows ?st1) = others w (windows st)"
    unfolding ws by (rule others_oset [OF ok]) simp
  have rv1: "revalidateCandidate cfg e' ?st1 w d ?pend None = Inr True"
    by (rule undisturbed_revalidates [OF env(2) rec1]) (unfold oth, rule free)
  from undisturbed_candidate [OF env(2)] obtain cs' c' where c': "firstContexts e' = Some cs'"
    "request_candidate cfg (liveSnapshot cfg cs') (idNonce d) s = Some (c', d)"
    "ctxWindow c' < 0 \<or> ctxWindow c' = w" by metis
  have pend: "?pend \<in> set (ovals (windows ?st1))" by (rule oget_Some_value [OF rec1])
  have only: "(\<exists>v a b. r = OpenedRecord v a b) \<or> recordCandidate r \<noteq> d"
    if "r \<in> set (ovals (windows ?st1))" "r \<noteq> ?pend" for r
  proof -
    from other_record [OF ok1 _ that(1)[unfolded ws]] that(2) have "r \<in> set (others w (windows ?st1))"
      unfolding ws by simp
    then have "r \<in> set (others w (windows st))" unfolding oth .
    with free have "\<not> owned_elsewhere d r" by (auto simp: list_ex_iff)
    then show ?thesis by (cases r) auto
  qed
  have scan: "confirm_scan cfg e' c' d raw (ovals (windows ?st1)) = Inr (Some ?pend)"
  proof (rule confirm_scan_only [OF pend only])
    show "\<not> openingFirst e' (recordWindow ?pend)" using env(2) by (simp add: undisturbed_def)
    show "ctxWindow c' < 0 \<or> ctxWindow c' = recordWindow ?pend" using c'(3) by simp
    show "capabilityMatches cfg raw (recordCapability ?pend) = Inr True" using match by simp
  qed simp_all
  have ld1: "ensureLoaded e' ?st1 = (?st1, None)" using ld by (simp add: ensureLoaded_def set_record_def)
  have "confirmWindow cfg e' ?q s ?st1 = saving e' ((set_record (ActiveRecord w d k) ?st1)
      \<lparr>pendingCreated := pendingCreated ?st1 - {w}\<rparr>) (ConfirmedWindow w raw)"
    unfolding confirmWindow_def ld1 using cq sender c' scan rv1 by simp
  then have "\<exists>st''. confirmWindow cfg e' ?q s ?st1 = (st'', Inr (ConfirmedWindow w raw))
      \<and> oget (windows st'') w = Some (ActiveRecord w d k)"
    using env(2) by (simp add: saving_def saveOrPoison_def undisturbed_def set_record_def)
  with prep show ?thesis by blast
qed

subsection \<open>A concrete authority\<close>

definition sample_lease :: string where
  "sample_lease = ''00000000-0000-4000-8000-000000000001''"

definition sample_config :: authority_config where
  "sample_config = \<lparr>cfgExtensionId = ''h'', cfgSidepanelUrl = ''s'', cfgContextType = ''SIDE_PANEL'',
     cfgParseUrl = sample_url, cfgResolveUrl = (\<lambda>_. sample_url), cfgJsonParse = (\<lambda>_. None), cfgHash = (\<lambda>t. t),
     cfgSettleDelay = None, cfgMaxAttempts = None, cfgRetryDelay = None\<rparr>"

definition sample_context :: authority_context where
  "sample_context = \<lparr>ctxId = ''c'', ctxType = ''SIDE_PANEL'', ctxDocument = Some ''d'',
     ctxOrigin = Some ''chrome-extension://h'', ctxUrl = Some ''s'', ctxFrame = 0, ctxTab = -1, ctxWindow = -1\<rparr>"

definition sample_sender :: authority_sender where
  "sample_sender = \<lparr>senderId = Some ''h'', senderUrl = Some ''s'', senderOrigin = Some ''chrome-extension://h'',
     senderDocument = Some ''d'', senderLifecycle = None, senderFrame = None, senderTab = None\<rparr>"

definition sample_env :: exclusive_env where
  "sample_env = \<lparr>loadOk = True, cleanupOk = True, saveOk = True, firstContexts = Some [sample_context],
     secondContexts = Some [sample_context], openingFirst = (\<lambda>_. False), openingSecond = (\<lambda>_. False),
     genToken = replicate 64 CHR ''0'', genTransaction = sample_nonce, genLease = sample_lease\<rparr>"

definition sample_raw :: capability where
  "sample_raw = \<lparr>continuationToken = replicate 64 CHR ''0'', transactionId = sample_nonce, leaseId = sample_lease\<rparr>"

definition sample_opening :: "authority_op list" where
  "sample_opening = [OpenedBegin ''s'' 1, OpenedRevoke sample_env 1,
     OpenedBind sample_env (\<lambda>_. Some [sample_context]) (\<lambda>_. False) 1, OpenedEnd 1 0]"

definition sample_handshake :: "authority_op list" where
  "sample_handshake = sample_opening @ [Prepare sample_env (prepare_request sample_nonce None) sample_sender,
     Confirm sample_env (confirm_request sample_nonce sample_raw) sample_sender]"


definition sample_doc :: document_identity where
  "sample_doc = \<lparr>idContext = ''c'', idDocument = ''d'', idNonce = sample_nonce\<rparr>"

definition sample_key :: stored_capability where
  "sample_key = \<lparr>verifierDigest = replicate 64 CHR ''0'', capTransaction = sample_nonce, capLease = sample_lease\<rparr>"

definition sample_opened :: authority where
  "sample_opened = fold (authority_step sample_config) sample_opening (new_worker JUndef)"

definition sample_active :: authority where
  "sample_active = fold (authority_step sample_config) sample_handshake (new_worker JUndef)"

lemma sample_sender_ok: "validSender sample_config sample_sender" by code_simp

lemma sample_undisturbed: "undisturbed sample_config sample_env (senderDocument sample_sender) sample_doc 1"
  by code_simp

lemma sample_opened_state:
  "windows sample_opened = [(1, OpenedRecord 1 ''c'' ''d'')]" "loaded sample_opened" "\<not> poisoned sample_opened"
  by code_simp+

lemma sample_fresh: "freshNext sample_config sample_env sample_opened = Inr (sample_raw, sample_key)"
  by code_simp

lemma sample_active_state:
  "windows sample_active = [(1, ActiveRecord 1 sample_doc sample_key)]" "loaded sample_active" "\<not> poisoned sample_active"
  by code_simp+

lemma sample_resolved:
  "snd (resolveActiveLease sample_config sample_env sample_nonce sample_raw (Some ''d'') sample_active) =
     Some (authorize (ActiveRecord 1 sample_doc sample_key) sample_context)"
  by code_simp


lemma sample_authority_inv: "authority_inv (fold (authority_step sample_config) ops (new_worker JUndef))"
  by (rule authority_machine.run_inv [OF new_worker_inv])

theorem handshake_succeeds_witness:
  "\<exists>st' st''. prepareWindow sample_config sample_env (prepare_request sample_nonce None) sample_sender sample_opened
      = (st', Inr (PreparedWindow 1 sample_raw))
    \<and> confirmWindow sample_config sample_env (confirm_request sample_nonce sample_raw) sample_sender st'
      = (st'', Inr (ConfirmedWindow 1 sample_raw))
    \<and> oget (windows st'') 1 = Some (ActiveRecord 1 sample_doc sample_key)"
proof -
  have "oget (windows sample_opened) 1 = Some (OpenedRecord 1 (idContext sample_doc) (idDocument sample_doc))"
    by (simp add: sample_opened_state sample_doc_def)
  moreover have "\<not> list_ex (owned_elsewhere sample_doc) (others 1 (windows sample_opened))"
    by (simp add: sample_opened_state others_def)
  ultimately show ?thesis
    using handshake_succeeds [OF sample_authority_inv [of sample_opening, folded sample_opened_def] sample_opened_state(2,3) _ _
        sample_sender_ok sample_undisturbed sample_undisturbed sample_fresh]
    by (simp add: sample_doc_def)
qed

theorem loader_accepts_exactly_witness:
  "parseAuthorityState (JObj [(''version'', jint 2), (''windows'', JArr [record_json (ActiveRecord 1 sample_doc sample_key)])])
     = Inr [(1, ActiveRecord 1 sample_doc sample_key)]"
proof -
  let ?v = "record_json (ActiveRecord 1 sample_doc sample_key)"
  let ?fs = "[(''version'', jint 2), (''windows'', JArr [?v])]"
  have "validRecord ?v" "record_of ?v = ActiveRecord 1 sample_doc sample_key"
    "exact_key sample_doc \<noteq> []" "distinct (capability_ids sample_key)"
    by code_simp+
  moreover from this have "records_unique [ActiveRecord 1 sample_doc sample_key]"
    by (simp add: records_unique_def records_claims_def claims_ok_def single_owner_def all_contexts_def
        all_documents_def all_identities_def all_capabilities_def)
  moreover have "jget ''windows'' ?fs = JArr [?v]" "jget ''version'' ?fs = jint 2" "hasOnlyKeys ?fs [''version'', ''windows'']"
    by (simp_all add: hasOnlyKeys_def)
  ultimately show ?thesis using loader_accepts_exactly [of ?fs "[?v]" "[(1, ActiveRecord 1 sample_doc sample_key)]"]
    by (simp add: by_window_def)
qed

theorem authority_survives_restart_witness:
  "\<exists>st'. ensureLoaded sample_env (new_worker (store sample_active)) = (st', None)
     \<and> oget (windows st') 1 = Some (ActiveRecord 1 sample_doc sample_key)"
proof -
  have "loadOk sample_env" by (simp add: sample_env_def)
  from authority_survives_restart [OF sample_active_def sample_active_state(2,3) this]
  show ?thesis by (auto simp: sample_active_state)
qed

theorem lease_of_one_window_witness:
  "{v. \<exists>v' d j. oget (windows sample_active) v = Some (ActiveRecord v' d j) \<and> capLease j = sample_lease} = {1}"
proof -
  have "oget (windows sample_active) 1 = Some (ActiveRecord 1 sample_doc sample_key)" "capLease sample_key = sample_lease"
    by (simp_all add: sample_active_state sample_key_def)
  with lease_of_one_window [OF sample_active_def _ this(1)] show ?thesis by auto
qed

definition sample_prepared :: authority where
  "sample_prepared = fold (authority_step sample_config) (butlast sample_handshake) (new_worker JUndef)"

lemma sample_prepared_state:
  "windows sample_prepared = [(1, PendingRecord 1 (OpenedProof ''c'' ''d'') sample_doc sample_key)]"
  "loaded sample_prepared" "\<not> poisoned sample_prepared"
  by code_simp+

theorem only_confirm_activates_witness:
  "\<exists>p. oget (windows sample_prepared) 1 = Some (PendingRecord 1 p sample_doc sample_key)
    \<and> cfgHash sample_config (continuationToken sample_raw) = verifierDigest sample_key"
proof -
  let ?op = "Confirm sample_env (confirm_request sample_nonce sample_raw) sample_sender"
  have "sample_active = authority_step sample_config ?op sample_prepared"
    by (simp add: sample_active_def sample_prepared_def sample_handshake_def butlast_append)
  then have "oget (windows (authority_step sample_config ?op sample_prepared)) 1
      = Some (ActiveRecord 1 sample_doc sample_key)"
    using sample_active_state(1) by simp
  moreover have "oget (windows sample_prepared) 1 \<noteq> Some (ActiveRecord 1 sample_doc sample_key)"
    by (simp add: sample_prepared_state)
  ultimately have "\<exists>e q s p. ?op = Confirm e q s \<and> isSidepanelWindowConfirmRequest q
    \<and> oget (windows sample_prepared) 1 = Some (PendingRecord 1 p sample_doc sample_key) \<and> idNonce sample_doc = request_nonce q
    \<and> transactionId (material_of (obj_fields q)) = capTransaction sample_key
    \<and> leaseId (material_of (obj_fields q)) = capLease sample_key
    \<and> cfgHash sample_config (continuationToken (material_of (obj_fields q))) = verifierDigest sample_key"
    by (rule only_confirm_activates
        [OF sample_authority_inv [of "butlast sample_handshake", folded sample_prepared_def] sample_prepared_state(2,3)])
  then show ?thesis by (auto simp: sample_config_def sample_raw_def sample_key_def)
qed

theorem resolved_lease_is_active_witness:
  "\<exists>w d k. oget (windows sample_active) w = Some (ActiveRecord w d k) \<and> leaseId sample_raw = capLease k
     \<and> idNonce d = sample_nonce"
  using resolved_lease_is_active
    [OF sample_authority_inv [of sample_handshake, folded sample_active_def] sample_active_state(2,3) sample_resolved] by blast

theorem opening_ends_lease_witness:
  "oget (windows (authority_apply sample_config (OpenedRevoke sample_env 1) sample_active)) 1 = None"
  using opening_ends_lease [OF sample_authority_inv [of sample_handshake, folded sample_active_def] sample_active_state(2,3) refl,
      where op = "OpenedRevoke sample_env 1" and w = 1] by blast

theorem poisoned_fails_closed_witness:
  "\<exists>err. confirmWindow sample_config sample_env (confirm_request sample_nonce sample_raw) sample_sender
      (sample_prepared\<lparr>poisoned := True\<rparr>) = (sample_prepared\<lparr>poisoned := True\<rparr>, Inl err)"
  using poisoned_fails_closed [of "sample_prepared\<lparr>poisoned := True\<rparr>" sample_config sample_env
      "confirm_request sample_nonce sample_raw" sample_sender]
  by (simp del: split_paired_All split_paired_Ex) blast

theorem overlap_never_binds_witness:
  "\<exists>err. snd (opened_bind sample_config sample_env (\<lambda>_. Some [sample_context]) (\<lambda>_. False) 1
      (fst (opened_begin sample_config ''s'' 2 (fst (opened_begin sample_config ''s'' 1 (new_worker JUndef)))))) = Inl err"
proof -
  let ?a = "fst (opened_begin sample_config ''s'' 1 (new_worker JUndef))"
  let ?b = "fst (opened_begin sample_config ''s'' 2 ?a)"
  have "openTokens ?a = [0]" "openTokens ?b = [1, 0]" "snd (opened_begin sample_config ''s'' 2 ?a) = Inr 1" by code_simp+
  then have "opened_begin sample_config ''s'' 2 ?a = (?b, Inr 1)" by (simp add: prod_eq_iff)
  from overlap_never_binds [OF _ this, of "[]"] show ?thesis
    using \<open>openTokens ?a = [0]\<close> \<open>openTokens ?b = [1, 0]\<close> by simp
qed

end
