(* ===== verification/BridgeCatalog.thy ===== *)
theory BridgeCatalog
  imports Prelude
begin

section \<open>Bridge targets and the command catalog\<close>

text \<open>
  The vocabulary of the bridge: targets and their textual form
  (\<open>packages/protocol/src/target.ts\<close>), the catalog of the bridge's commands with their routes,
  target kinds and write and sensitivity marks (\<open>command-schemas.ts\<close>, \<open>command-catalog.ts\<close>) and the
  choice of the adapter that executes a command (\<open>packages/server/src/target-execution.ts\<close>). The
  parameter and result schemas of the commands are TypeBox values; their check is a parameter of
  the request handler.
\<close>

subsection \<open>Targets\<close>

datatype bridge_target =
    ChromeTab (chromeTabRef: "string option") (chromeTabId: "int option") (chromeFrameId: "int option")
  | ElectronWindow (electronAppRef: "string option") (electronSessionId: "string option")
      (electronWindowRef: "string option") (electronTargetId: "string option")

definition defaultTarget :: bridge_target where
  "defaultTarget = ChromeTab None None None"

fun isChromeTarget :: "bridge_target \<Rightarrow> bool" where
  "isChromeTarget (ChromeTab _ _ _) = True"
| "isChromeTarget _ = False"

fun isElectronTarget :: "bridge_target \<Rightarrow> bool" where
  "isElectronTarget (ElectronWindow _ _ _ _) = True"
| "isElectronTarget _ = False"

text \<open>A string in a condition: present and not empty.\<close>

definition truthy :: "string option \<Rightarrow> bool" where
  "truthy s \<longleftrightarrow> s \<noteq> None \<and> s \<noteq> Some []"

lemma truthy_simps [simp]: "\<not> truthy None" "truthy (Some s) \<longleftrightarrow> s \<noteq> []"
  by (simp_all add: truthy_def)

definition or_else :: "'a option \<Rightarrow> 'a \<Rightarrow> 'a" where
  "or_else x d = (case x of None \<Rightarrow> d | Some v \<Rightarrow> v)"

lemma or_else_simps [simp]: "or_else None d = d" "or_else (Some v) d = v"
  by (simp_all add: or_else_def)





fun formatTargetSpec :: "bridge_target \<Rightarrow> string" where
  "formatTargetSpec (ChromeTab ref tab _) =
     (case tab of Some i \<Rightarrow> ''chrome:'' @ int_text i | None \<Rightarrow> ''chrome:'' @ or_else ref ''active'')"
| "formatTargetSpec (ElectronWindow app session win _) =
     (if truthy session then ''electron-session:'' @ the session
      else ''electron:'' @ or_else app ''unknown'' @ '':'' @ or_else win ''w1'')"

fun targetTeachingLabel :: "bridge_target \<Rightarrow> string" where
  "targetTeachingLabel (ChromeTab ref tab frame) = formatTargetSpec (ChromeTab ref tab frame)"
| "targetTeachingLabel (ElectronWindow app session win tid) =
     (if truthy app then the app else if truthy session then the session
      else if truthy tid then the tid else ''unknown'')"

subsection \<open>The catalog\<close>

datatype command_route = ServerLocal | ExtensionRoute

datatype target_kind = ChromeKind | ElectronKind

record bridge_command =
  cmdMethod :: string
  cmdCapabilities :: "string list"
  cmdRoute :: command_route
  cmdTargets :: "target_kind list"
  cmdWrite :: bool
  cmdSensitive :: bool

definition extension_command ::
  "string \<Rightarrow> string list \<Rightarrow> target_kind list \<Rightarrow> bool \<Rightarrow> bool \<Rightarrow> bridge_command" where
  "extension_command m caps targets w sens = \<lparr>cmdMethod = m, cmdCapabilities = caps, cmdRoute = ExtensionRoute,
     cmdTargets = targets, cmdWrite = w, cmdSensitive = sens\<rparr>"

definition server_command :: "string \<Rightarrow> bool \<Rightarrow> bridge_command" where
  "server_command m sens = \<lparr>cmdMethod = m, cmdCapabilities = [m], cmdRoute = ServerLocal, cmdTargets = [],
     cmdWrite = False, cmdSensitive = sens\<rparr>"

text \<open>\<open>BridgeCommandDefinitions\<close>, without the command-line bindings, timeouts and schemas.\<close>

definition BridgeCommandDefinitions :: "bridge_command list" where
  "BridgeCommandDefinitions =
    [extension_command ''status'' [''status''] [ChromeKind] False False,
     extension_command ''navigate'' [''navigate'', ''tabs''] [ChromeKind] False False,
     extension_command ''repl'' [''repl''] [ChromeKind] False False,
     extension_command ''screenshot'' [''screenshot''] [ChromeKind, ElectronKind] False False,
     extension_command ''eval'' [''eval''] [ChromeKind, ElectronKind] False True,
     extension_command ''authenticated_json_request'' [''authenticated_json_request''] [ChromeKind, ElectronKind] True True,
     extension_command ''cookies'' [''cookies''] [ChromeKind] False True,
     server_command ''cookie_import'' True,
     extension_command ''cookie_import_apply'' [''cookie_import_apply''] [ChromeKind] False True,
     extension_command ''select_element'' [''select_element''] [ChromeKind] False False,
     extension_command ''handoff_start'' [''handoff_start''] [ChromeKind] True False,
     extension_command ''workflow_run'' [''workflow_run''] [ChromeKind] False False,
     extension_command ''workflow_validate'' [''workflow_validate''] [ChromeKind] False False,
     extension_command ''page_snapshot'' [''page_snapshot''] [ChromeKind, ElectronKind] False False,
     server_command ''snapshot_store'' False,
     server_command ''snapshot_diff'' False,
     server_command ''snapshot_read'' False,
     server_command ''journal_list'' False,
     extension_command ''page_assert'' [''page_assert''] [ChromeKind, ElectronKind] False False,
     extension_command ''locate_by_role'' [''locate_by_role''] [ChromeKind, ElectronKind] False False,
     extension_command ''locate_by_text'' [''locate_by_text''] [ChromeKind, ElectronKind] False False,
     extension_command ''locate_by_label'' [''locate_by_label''] [ChromeKind, ElectronKind] False False,
     extension_command ''ref_click'' [''ref_click''] [ChromeKind, ElectronKind] False False,
     extension_command ''ref_fill'' [''ref_fill''] [ChromeKind, ElectronKind] False False,
     extension_command ''frame_list'' [''frame_list''] [ChromeKind] False False,
     extension_command ''frame_tree'' [''frame_tree''] [ChromeKind] False False,
     extension_command ''network_start'' [''network_start''] [ChromeKind, ElectronKind] False False,
     extension_command ''network_stop'' [''network_stop''] [ChromeKind, ElectronKind] False False,
     extension_command ''network_list'' [''network_list''] [ChromeKind, ElectronKind] False False,
     extension_command ''network_clear'' [''network_clear''] [ChromeKind, ElectronKind] False False,
     extension_command ''network_stats'' [''network_stats''] [ChromeKind, ElectronKind] False False,
     extension_command ''network_get'' [''network_get''] [ChromeKind, ElectronKind] False True,
     extension_command ''network_body'' [''network_body''] [ChromeKind, ElectronKind] False True,
     extension_command ''network_curl'' [''network_curl''] [ChromeKind, ElectronKind] False True,
     extension_command ''device_emulate'' [''device_emulate''] [ChromeKind] False False,
     extension_command ''device_reset'' [''device_reset''] [ChromeKind] False False,
     extension_command ''perf_metrics'' [''perf_metrics''] [ChromeKind, ElectronKind] False False,
     extension_command ''perf_trace_start'' [''perf_trace_start''] [ChromeKind] False False,
     extension_command ''perf_trace_stop'' [''perf_trace_stop''] [ChromeKind] False False,
     extension_command ''record_start'' [''record_start''] [ChromeKind, ElectronKind] False True,
     extension_command ''record_stop'' [''record_stop''] [ChromeKind, ElectronKind] False True,
     extension_command ''record_status'' [''record_status''] [ChromeKind, ElectronKind] False True,
     extension_command ''session_history'' [''session_history''] [ChromeKind] False False,
     extension_command ''session_inject'' [''session_inject''] [ChromeKind] True False,
     extension_command ''session_new'' [''session_new''] [ChromeKind] True False,
     extension_command ''session_set_model'' [''session_set_model''] [ChromeKind] True False,
     extension_command ''session_artifacts'' [''session_artifacts''] [ChromeKind] False False,
     server_command ''electron_list'' False,
     server_command ''electron_allow'' False,
     server_command ''electron_launch'' False,
     server_command ''electron_attach'' False,
     server_command ''electron_detach'' False,
     server_command ''electron_windows'' False,
     server_command ''electron_label'' False,
     server_command ''electron_main_info'' False,
     server_command ''electron_ipc_tap_start'' False,
     server_command ''electron_ipc_tap_stop'' False,
     server_command ''electron_main_network_start'' False,
     server_command ''electron_main_network_stop'' False,
     server_command ''electron_source_layout'' False,
     server_command ''electron_source_list'' False,
     server_command ''electron_source_read'' False,
     server_command ''electron_source_extract'' False,
     server_command ''electron_doctor'' False,
     server_command ''electron_auto_attach'' False,
     server_command ''skills_snapshot_status'' False]"

definition BridgeMethods :: "string list" where
  "BridgeMethods = map cmdMethod BridgeCommandDefinitions"

definition BridgeCapabilities :: "string list" where
  "BridgeCapabilities =
     concat (map cmdCapabilities (filter (\<lambda>c. cmdRoute c = ExtensionRoute) BridgeCommandDefinitions))"

text \<open>A \<open>Map\<close> built from entries keeps the last of a key; the methods are distinct.\<close>

definition getBridgeCommandMetadata :: "string \<Rightarrow> bridge_command option" where
  "getBridgeCommandMetadata m = map_of (rev (map (\<lambda>c. (cmdMethod c, c)) BridgeCommandDefinitions)) m"

definition isSensitiveBridgeCapability :: "string \<Rightarrow> bool" where
  "isSensitiveBridgeCapability cap \<longleftrightarrow>
     list_ex (\<lambda>c. cmdSensitive c \<and> cap \<in> set (cmdCapabilities c)) BridgeCommandDefinitions"

definition isCatalogWriteMethod :: "string \<Rightarrow> bool" where
  "isCatalogWriteMethod m = (case getBridgeCommandMetadata m of Some c \<Rightarrow> cmdWrite c | None \<Rightarrow> False)"

definition isCatalogServerLocalMethod :: "string \<Rightarrow> bool" where
  "isCatalogServerLocalMethod m =
     (case getBridgeCommandMetadata m of Some c \<Rightarrow> cmdRoute c = ServerLocal | None \<Rightarrow> False)"

definition getBridgeCommandTargetSupport :: "string \<Rightarrow> bool \<times> bool" where
  "getBridgeCommandTargetSupport m =
     (let targets = (case getBridgeCommandMetadata m of Some c \<Rightarrow> cmdTargets c | None \<Rightarrow> []) in
      (ChromeKind \<in> set targets, ElectronKind \<in> set targets))"

definition isCatalogTargetDispatchedMethod :: "string \<Rightarrow> target_kind \<Rightarrow> bool" where
  "isCatalogTargetDispatchedMethod m k =
     (case k of ChromeKind \<Rightarrow> fst (getBridgeCommandTargetSupport m) | ElectronKind \<Rightarrow> snd (getBridgeCommandTargetSupport m))"

definition getBridgeCapabilities :: "bool \<Rightarrow> string list" where
  "getBridgeCapabilities sensitiveAccessEnabled =
     filter (\<lambda>c. sensitiveAccessEnabled \<or> \<not> isSensitiveBridgeCapability c) BridgeCapabilities"

definition BRIDGE_PROTOCOL_VERSION :: int where "BRIDGE_PROTOCOL_VERSION = 4"

definition BRIDGE_PROTOCOL_MIN_VERSION :: int where "BRIDGE_PROTOCOL_MIN_VERSION = 4"

definition isBridgeProtocolCompatible :: "int option \<Rightarrow> int option \<Rightarrow> bool" where
  "isBridgeProtocolCompatible version minVersion =
     (case (version, minVersion) of
        (Some v, Some m) \<Rightarrow> BRIDGE_PROTOCOL_MIN_VERSION \<le> v \<and> m \<le> BRIDGE_PROTOCOL_VERSION
      | _ \<Rightarrow> False)"

definition formatBridgeProtocolMismatch :: "string \<Rightarrow> int option \<Rightarrow> int option \<Rightarrow> string" where
  "formatBridgeProtocolMismatch peer v m =
     (let text_of = (\<lambda>x d. case x of Some i \<Rightarrow> int_text i | None \<Rightarrow> d);
          range = (case m of Some i \<Rightarrow> int_text i @ ''-'' @ text_of v ''unknown'' | None \<Rightarrow> ''missing'') in
      ''Bridge protocol mismatch: '' @ peer @ '' supports '' @ range @ '', server supports ''
        @ int_text BRIDGE_PROTOCOL_MIN_VERSION @ ''-'' @ int_text BRIDGE_PROTOCOL_VERSION
        @ ''. Rebuild or restart shuvgeist.'')"

subsection \<open>Execution adapters\<close>

record bridge_error =
  errorCode :: int
  errorMessage :: string

text \<open>The codes of \<open>ErrorCodes\<close> that the server answers with.\<close>

abbreviation "NO_EXTENSION_TARGET \<equiv> (-32000 :: int)"
abbreviation "INVALID_METHOD \<equiv> (-32002 :: int)"
abbreviation "EXECUTION_ERROR \<equiv> (-32003 :: int)"
abbreviation "TIMEOUT \<equiv> (-32004 :: int)"
abbreviation "ABORTED \<equiv> (-32005 :: int)"
abbreviation "CAPABILITY_DISABLED \<equiv> (-32008 :: int)"
abbreviation "WRITE_LOCKED \<equiv> (-32012 :: int)"
abbreviation "INVALID_TARGET \<equiv> (-32014 :: int)"
abbreviation "INVALID_PARAMS \<equiv> (-32602 :: int)"
abbreviation "INVALID_RESULT \<equiv> (-32016 :: int)"

definition quoted :: "string \<Rightarrow> string" where
  "quoted s = CHR 0x27 # s @ [CHR 0x27]"

datatype execution_adapter = ServerLocalAdapter | ElectronAdapter | ChromeAdapter | UnsupportedTarget bridge_error

record target_support =
  supportsServerLocal :: bool
  supportsChrome :: bool
  supportsElectron :: bool
  requiresExtension :: bool

definition getBridgeTargetSupport :: "string \<Rightarrow> target_support" where
  "getBridgeTargetSupport m =
     (let l = isCatalogServerLocalMethod m; e = isCatalogTargetDispatchedMethod m ElectronKind in
      \<lparr>supportsServerLocal = l, supportsChrome = \<not> l, supportsElectron = \<not> l \<and> e, requiresExtension = \<not> l\<rparr>)"

definition unsupportedTargetError :: "string \<Rightarrow> bridge_target \<Rightarrow> bridge_error" where
  "unsupportedTargetError m t = \<lparr>errorCode = INVALID_TARGET,
     errorMessage = ''Method '' @ quoted m @ '' cannot be routed to target '' @ quoted (targetTeachingLabel t)\<rparr>"

definition missingExtensionTargetError :: bridge_error where
  "missingExtensionTargetError = \<lparr>errorCode = NO_EXTENSION_TARGET, errorMessage = ''No active extension target connected''\<rparr>"

definition resolveBridgeExecution :: "string \<Rightarrow> bridge_target \<Rightarrow> execution_adapter" where
  "resolveBridgeExecution m t =
     (let support = getBridgeTargetSupport m in
      if supportsServerLocal support then ServerLocalAdapter
      else if supportsElectron support \<and> isElectronTarget t then ElectronAdapter
      else if supportsChrome support \<and> isChromeTarget t then ChromeAdapter
      else UnsupportedTarget (unsupportedTargetError m t))"

subsection \<open>The catalog is consistent\<close>

lemma methods_distinct: "distinct BridgeMethods"
  by code_simp

lemma metadata_Some: "getBridgeCommandMetadata m = Some c \<longleftrightarrow> c \<in> set BridgeCommandDefinitions \<and> cmdMethod c = m"
proof -
  let ?es = "rev (map (\<lambda>c. (cmdMethod c, c)) BridgeCommandDefinitions)"
  have "map fst ?es = rev BridgeMethods" by (simp add: BridgeMethods_def rev_map comp_def)
  then have "distinct (map fst ?es)" using methods_distinct by simp
  then have "map_of ?es m = Some c \<longleftrightarrow> (m, c) \<in> set ?es" by (simp only: map_of_eq_Some_iff)
  then show ?thesis by (auto simp: getBridgeCommandMetadata_def)
qed

lemma metadata_known: "m \<in> set BridgeMethods \<longleftrightarrow> (\<exists>c. getBridgeCommandMetadata m = Some c)"
  by (auto simp: metadata_Some BridgeMethods_def)

text \<open>What the code relies on when it does not look at the target kinds of a Chrome command.\<close>

lemma extension_commands_run_on_chrome:
  "c \<in> set BridgeCommandDefinitions \<Longrightarrow> (cmdRoute c = ExtensionRoute \<longleftrightarrow> ChromeKind \<in> set (cmdTargets c))"
proof -
  have "list_all (\<lambda>c. cmdRoute c = ExtensionRoute \<longleftrightarrow> ChromeKind \<in> set (cmdTargets c)) BridgeCommandDefinitions"
    by code_simp
  then show "c \<in> set BridgeCommandDefinitions \<Longrightarrow> ?thesis" by (simp add: list_all_iff)
qed

lemma server_commands_have_no_target:
  "c \<in> set BridgeCommandDefinitions \<Longrightarrow> cmdRoute c = ServerLocal \<Longrightarrow> cmdTargets c = [] \<and> \<not> cmdWrite c"
proof -
  have "list_all (\<lambda>c. cmdRoute c = ServerLocal \<longrightarrow> cmdTargets c = [] \<and> \<not> cmdWrite c) BridgeCommandDefinitions"
    by code_simp
  then show "c \<in> set BridgeCommandDefinitions \<Longrightarrow> cmdRoute c = ServerLocal \<Longrightarrow> ?thesis" by (simp add: list_all_iff)
qed

text \<open>The target kind a command may be sent to.\<close>

fun kind_of :: "bridge_target \<Rightarrow> target_kind" where
  "kind_of (ChromeTab _ _ _) = ChromeKind"
| "kind_of (ElectronWindow _ _ _ _) = ElectronKind"

lemma kind_simps [simp]: "isChromeTarget t \<longleftrightarrow> kind_of t = ChromeKind" "isElectronTarget t \<longleftrightarrow> kind_of t = ElectronKind"
  by (cases t; simp)+

text \<open>
  Commands go where the catalog says: a command of the catalog runs in the server when its
  route is server-local whatever its target, in the adapter of its target's kind when the catalog
  lists that kind, and is refused with INVALID\_TARGET otherwise.
\<close>

theorem routing_follows_catalog:
  assumes "c \<in> set BridgeCommandDefinitions"
  shows "resolveBridgeExecution (cmdMethod c) t =
    (if cmdRoute c = ServerLocal then ServerLocalAdapter
     else if kind_of t \<in> set (cmdTargets c)
     then (case kind_of t of ChromeKind \<Rightarrow> ChromeAdapter | ElectronKind \<Rightarrow> ElectronAdapter)
     else UnsupportedTarget (unsupportedTargetError (cmdMethod c) t))"
proof -
  have "getBridgeCommandMetadata (cmdMethod c) = Some c" using assms by (simp add: metadata_Some)
  with extension_commands_run_on_chrome [OF assms] show ?thesis
    by (cases "cmdRoute c"; cases "kind_of t")
      (auto simp: resolveBridgeExecution_def getBridgeTargetSupport_def isCatalogServerLocalMethod_def
        isCatalogTargetDispatchedMethod_def getBridgeCommandTargetSupport_def)
qed

theorem routing_follows_catalog_witness:
  "resolveBridgeExecution ''navigate'' (ElectronWindow None (Some ''e1'') None None) =
     UnsupportedTarget (unsupportedTargetError ''navigate'' (ElectronWindow None (Some ''e1'') None None))"
proof -
  let ?c = "extension_command ''navigate'' [''navigate'', ''tabs''] [ChromeKind] False False"
  have "?c \<in> set BridgeCommandDefinitions" by (simp add: BridgeCommandDefinitions_def)
  from routing_follows_catalog [OF this] show ?thesis by (simp add: extension_command_def)
qed

subsection \<open>Specifications read back\<close>









end
