(* ===== verification/BridgeSessions.thy ===== *)
theory BridgeSessions
  imports BridgeCatalog
begin

section \<open>Target sessions, write locks and session locks\<close>

text \<open>
  Who may talk to which browser. The bridge server registers one handle per connected target, each
  with a writer lease (\<open>packages/server/src/session-registry.ts\<close>, \<open>per-handle-write-lock.ts\<close>); the
  extension's background keeps which browser window owns which agent session
  (\<open>packages/extension/src/background-state.ts\<close>). Both leases are instances of one interface, the
  locale \<open>exclusive_lease\<close>.

  A handle holds its lock by value: the code replaces lock and handle together when a target
  registers again. What a handle only carries (\<open>cdp\<close>, \<open>agentContext\<close>) is left out.
\<close>

subsection \<open>The writer lease of a handle\<close>

record write_holder =
  holderCli :: string
  holderSession :: "string option"

type_synonym write_lock = "write_holder option"

text \<open>\<open>acquire\<close>: \<open>Inl\<close> the other holder, or \<open>Inr\<close> the new one.\<close>

definition acquire :: "string \<Rightarrow> string option \<Rightarrow> write_lock \<Rightarrow> write_lock \<times> (write_holder + write_holder)" where
  "acquire cli session lock =
     (let h = \<lparr>holderCli = cli, holderSession = session\<rparr> in
      case lock of
        Some x \<Rightarrow> if holderCli x \<noteq> cli then (lock, Inl x) else (Some h, Inr h)
      | None \<Rightarrow> (Some h, Inr h))"

definition releaseForCli :: "string \<Rightarrow> write_lock \<Rightarrow> write_lock \<times> bool" where
  "releaseForCli cli lock =
     (case lock of Some x \<Rightarrow> if holderCli x \<noteq> cli then (lock, False) else (None, True) | None \<Rightarrow> (lock, False))"

definition releaseForSessionChange :: "string option \<Rightarrow> write_lock \<Rightarrow> write_lock \<times> write_holder option" where
  "releaseForSessionChange session lock =
     (case lock of
        Some x \<Rightarrow> if \<not> truthy (holderSession x) \<or> holderSession x = session then (lock, None) else (None, Some x)
      | None \<Rightarrow> (lock, None))"

subsection \<open>The registry of target handles\<close>

record 'c handle_options =
  optKind :: target_kind
  optConnection :: 'c
  optWindow :: "int option"
  optSession :: "string option"
  optCapabilities :: "string list option"
  optVersion :: "int option"
  optApp :: "string option"
  optRemote :: "string option"

record 'c target_handle = "'c handle_options" +
  handleKey :: string
  handleLock :: write_lock

record 'c session_registry =
  handles :: "(string, 'c target_handle) omap"
  activeKey :: "string option"

definition empty_sessions :: "'c session_registry" where
  "empty_sessions = \<lparr>handles = [], activeKey = None\<rparr>"

definition keyFor :: "('c, 'z) handle_options_scheme \<Rightarrow> string" where
  "keyFor h =
     (let window = (case optWindow h of Some w \<Rightarrow> int_text w | None \<Rightarrow> ''unknown'') in
      case optKind h of
        ChromeKind \<Rightarrow> ''chrome-window:'' @ window
      | ElectronKind \<Rightarrow> ''electron-window:'' @ or_else (optSession h) window)"

definition get_handle :: "'c session_registry \<Rightarrow> string option \<Rightarrow> 'c target_handle option" where
  "get_handle r k = (if truthy k then oget (handles r) (the k) else None)"

definition lastHandle :: "'c session_registry \<Rightarrow> 'c target_handle option" where
  "lastHandle r = (if handles r = [] then None else Some (snd (last (handles r))))"

definition activeHandle :: "'c session_registry \<Rightarrow> 'c target_handle option" where
  "activeHandle r = (case get_handle r (activeKey r) of Some h \<Rightarrow> Some h | None \<Rightarrow> lastHandle r)"

definition handle_of :: "string \<Rightarrow> 'c handle_options \<Rightarrow> 'c target_handle" where
  "handle_of k h = \<lparr>optKind = optKind h, optConnection = optConnection h, optWindow = optWindow h,
     optSession = optSession h, optCapabilities = optCapabilities h, optVersion = optVersion h, optApp = optApp h,
     optRemote = optRemote h, handleKey = k, handleLock = None\<rparr>"

definition register_handle :: "'c handle_options \<Rightarrow> 'c session_registry \<Rightarrow> 'c session_registry" where
  "register_handle h r =
     (let k = keyFor h in \<lparr>handles = oset k (handle_of k h) (handles r), activeKey = Some k\<rparr>)"

definition ref_matches :: "string \<Rightarrow> 'c target_handle \<Rightarrow> bool" where
  "ref_matches normalized h \<longleftrightarrow>
     (let short = strip_prefix ''session:'' (strip_prefix ''chrome-window:'' (strip_prefix ''window:'' normalized)) in
      optKind h = ChromeKind \<and>
      (handleKey h = normalized \<or> handleKey h = ''chrome-window:'' @ short
       \<or> (case optWindow h of Some w \<Rightarrow> int_text w | None \<Rightarrow> ''undefined'') = short
       \<or> optSession h = Some short))"

definition resolveChromeRef :: "string \<Rightarrow> 'c session_registry \<Rightarrow> 'c target_handle option" where
  "resolveChromeRef ref r =
     (let normalized = js_trim ref in
      if normalized = [] then None else find (ref_matches normalized) (ovals (handles r)))"

definition resolveElectronTarget ::
  "string option \<Rightarrow> string option \<Rightarrow> 'c session_registry \<Rightarrow> 'c target_handle option" where
  "resolveElectronTarget session target r =
     find (\<lambda>h. optKind h = ElectronKind \<and> (truthy session \<and> optSession h = session
                \<or> truthy target \<and> Some (handleKey h) = target)) (ovals (handles r))"

definition resolve_handle :: "bridge_target option \<Rightarrow> 'c session_registry \<Rightarrow> 'c target_handle option" where
  "resolve_handle target r =
     (case target of
        Some (ElectronWindow _ session _ tid) \<Rightarrow>
          (case resolveElectronTarget session tid r of Some h \<Rightarrow> Some h | None \<Rightarrow> activeHandle r)
      | Some (ChromeTab ref tab _) \<Rightarrow>
          if truthy ref then (case resolveChromeRef (the ref) r of Some h \<Rightarrow> Some h | None \<Rightarrow> activeHandle r)
          else activeHandle r
      | None \<Rightarrow> activeHandle r)"

definition findByConnection :: "'c \<Rightarrow> 'c session_registry \<Rightarrow> 'c target_handle option" where
  "findByConnection c r = find (\<lambda>h. optConnection h = c) (ovals (handles r))"

definition unregisterByConnection :: "'c \<Rightarrow> 'c session_registry \<Rightarrow> 'c session_registry \<times> 'c target_handle option" where
  "unregisterByConnection c r =
     (case findByConnection c r of
        None \<Rightarrow> (r, None)
      | Some h \<Rightarrow>
          let r1 = r\<lparr>handles := odel (handleKey h) (handles r)\<rparr>;
              r2 = (if activeKey r1 = Some (handleKey h)
                    then r1\<lparr>activeKey := map_option handleKey (lastHandle r1)\<rparr> else r1) in
          (r2, Some (h\<lparr>handleLock := None\<rparr>)))"

definition held_by :: "string \<Rightarrow> 'c target_handle \<Rightarrow> bool" where
  "held_by cli h \<longleftrightarrow> (case handleLock h of Some x \<Rightarrow> holderCli x = cli | None \<Rightarrow> False)"

definition releaseLocksForCli ::
  "string \<Rightarrow> 'c session_registry \<Rightarrow> 'c session_registry \<times> ('c target_handle \<times> string option) list" where
  "releaseLocksForCli cli r =
     (r\<lparr>handles := map (\<lambda>(k, h). (k, if held_by cli h then h\<lparr>handleLock := None\<rparr> else h)) (handles r)\<rparr>,
      map (\<lambda>h. (h\<lparr>handleLock := None\<rparr>, holderSession (the (handleLock h)))) (filter (held_by cli) (ovals (handles r))))"

definition clear_sessions :: "'c session_registry \<Rightarrow> 'c session_registry" where
  "clear_sessions r = empty_sessions"

text \<open>Changing a handle in place, as its lock and capabilities are.\<close>

definition set_handle :: "'c target_handle \<Rightarrow> 'c session_registry \<Rightarrow> 'c session_registry" where
  "set_handle h r = r\<lparr>handles := oset (handleKey h) h (handles r)\<rparr>"

text \<open>\<open>handle.writeLock.acquire\<close> of a registered handle.\<close>

definition acquire_write ::
  "'c target_handle \<Rightarrow> string \<Rightarrow> string option \<Rightarrow> 'c session_registry \<Rightarrow> 'c session_registry \<times> (write_holder + write_holder)" where
  "acquire_write h cli session r =
     (case acquire cli session (handleLock h) of (lock, res) \<Rightarrow> (set_handle (h\<lparr>handleLock := lock\<rparr>) r, res))"

subsection \<open>Session locks of browser windows\<close>

record session_state =
  sessionLocks :: "(string, int) omap"
  openWindows :: "int list"

record lock_result =
  lockSession :: string
  lockSuccess :: bool
  lockOwner :: "int option"

definition initializeOpenSidepanels :: "int list option \<Rightarrow> int set" where
  "initializeOpenSidepanels ws = set (or_else ws [])"

definition markSidepanelOpen :: "int set \<Rightarrow> int \<Rightarrow> int set" where
  "markSidepanelOpen ws w = insert w ws"

definition shouldCloseSidepanel :: "int set \<Rightarrow> int \<Rightarrow> bool" where
  "shouldCloseSidepanel ws w \<longleftrightarrow> w \<in> ws"

definition buildLockResult :: "(string, int) omap \<Rightarrow> string \<Rightarrow> int \<Rightarrow> lock_result \<times> (string, int) omap" where
  "buildLockResult locks session w =
     (let owner = oget locks session in
      if owner = None \<or> owner = Some w
      then (\<lparr>lockSession = session, lockSuccess = True, lockOwner = None\<rparr>, oset session w (filter (\<lambda>(_, v). v \<noteq> w) locks))
      else (\<lparr>lockSession = session, lockSuccess = False, lockOwner = owner\<rparr>, locks))"

definition markSidepanelClosed :: "session_state \<Rightarrow> int \<Rightarrow> session_state" where
  "markSidepanelClosed s w = s\<lparr>openWindows := filter (\<lambda>v. v \<noteq> w) (openWindows s)\<rparr>"

definition releaseWindowState :: "session_state \<Rightarrow> int \<Rightarrow> session_state" where
  "releaseWindowState s w = \<lparr>sessionLocks = filter (\<lambda>(_, v). v \<noteq> w) (sessionLocks s),
     openWindows = filter (\<lambda>v. v \<noteq> w) (openWindows s)\<rparr>"

definition buildLockedSessionsMessage :: "(string, int) omap \<Rightarrow> (string, int) omap" where
  "buildLockedSessionsMessage locks = locks"

subsection \<open>The interface of an exclusive lease\<close>

text \<open>
  A resource has at most one owner. An attempt is granted when the resource is free or already the
  requester's; a granted attempt makes the requester the owner and takes no other resource from
  another owner; a refused attempt changes nothing. \<open>good\<close> is the provider's invariant.
\<close>

locale exclusive_lease =
  fixes owner :: "'s \<Rightarrow> 'r \<Rightarrow> 'o option"
    and attempt :: "'r \<Rightarrow> 'o \<Rightarrow> 's \<Rightarrow> 's \<times> bool"
    and good :: "'s \<Rightarrow> bool" and resource :: "'s \<Rightarrow> 'r \<Rightarrow> bool"
  assumes keeps: "good s \<Longrightarrow> good (fst (attempt r u s))" "good s \<Longrightarrow> resource (fst (attempt r u s)) q = resource s q"
    and granted_iff: "good s \<Longrightarrow> resource s r \<Longrightarrow> snd (attempt r u s) \<longleftrightarrow> owner s r = None \<or> owner s r = Some u"
    and granted_owner: "good s \<Longrightarrow> resource s r \<Longrightarrow> snd (attempt r u s) \<Longrightarrow> owner (fst (attempt r u s)) r = Some u"
    and others_keep: "good s \<Longrightarrow> owner s q = Some v \<Longrightarrow> v \<noteq> u \<Longrightarrow> owner (fst (attempt r u s)) q = Some v"
begin

definition attempts :: "('r \<times> 'o) list \<Rightarrow> 's \<Rightarrow> 's" where
  "attempts as s = fold (\<lambda>(r, u) s. fst (attempt r u s)) as s"

lemma attempts_good: "good s \<Longrightarrow> good (attempts as s)"
  unfolding attempts_def by (induction as arbitrary: s) (auto simp: keeps(1))

lemma attempts_resource: "good s \<Longrightarrow> resource (attempts as s) r = resource s r"
  unfolding attempts_def by (induction as arbitrary: s) (auto simp: keeps)

lemma owner_keeps:
  "good s \<Longrightarrow> owner s q = Some v \<Longrightarrow> \<forall>a \<in> set as. snd a \<noteq> v \<Longrightarrow> owner (attempts as s) q = Some v"
  unfolding attempts_def
proof (induction as arbitrary: s)
  case (Cons a as)
  obtain r u where a: "a = (r, u)" by fastforce
  with Cons.prems(3) have "v \<noteq> u" by auto
  have "owner (fst (attempt r u s)) q = Some v" by (rule others_keep [OF Cons.prems(1,2) \<open>v \<noteq> u\<close>])
  moreover have "good (fst (attempt r u s))" by (rule keeps(1) [OF Cons.prems(1)])
  ultimately show ?case using Cons.IH Cons.prems(3) a by simp
qed simp

text \<open>What the client sees: while an owner does nothing, every attempt of another at its resource is refused.\<close>

lemma excluded:
  assumes "good s" "resource s q" "snd (attempt q v s)" and "\<forall>a \<in> set as. snd a \<noteq> v" and "u \<noteq> v"
  shows "\<not> snd (attempt q u (attempts as (fst (attempt q v s))))"
proof -
  let ?t = "fst (attempt q v s)"
  have t: "good ?t" "resource ?t q" using keeps assms(1,2) by simp_all
  have "owner (attempts as ?t) q = Some v"
    by (rule owner_keeps [OF t(1) granted_owner [OF assms(1-3)] assms(4)])
  then show ?thesis
    using granted_iff [OF attempts_good [OF t(1)], of as q u] attempts_resource [OF t(1), of as q] t(2) assms(5) by simp
qed

end

subsection \<open>The registry is well formed\<close>

text \<open>Handles are filed under the key of what they are, and the active key is that of a handle.\<close>

definition registry_ok :: "'c session_registry \<Rightarrow> bool" where
  "registry_ok r \<longleftrightarrow> omap_wf (handles r) \<and> okeep (\<lambda>k h. handleKey h = k \<and> keyFor h = k) (handles r)
     \<and> (case activeKey r of None \<Rightarrow> handles r = [] | Some k \<Rightarrow> k \<in> set (okeys (handles r)))"

lemma keyFor_nonempty: "keyFor h \<noteq> []"
  by (cases "optKind h") (simp_all add: keyFor_def Let_def)

lemma keyFor_more [simp]: "keyFor (h\<lparr>handleLock := l\<rparr>) = keyFor h" "keyFor (h\<lparr>optCapabilities := c\<rparr>) = keyFor h"
  by (cases "optKind h"; simp add: keyFor_def)+

lemma keyFor_handle [simp]: "keyFor (handle_of k h) = keyFor h" "handleKey (handle_of k h) = k" "handleLock (handle_of k h) = None"
  by (cases "optKind h"; simp add: keyFor_def handle_of_def)+

lemma registry_key: "registry_ok r \<Longrightarrow> oget (handles r) k = Some h \<Longrightarrow> handleKey h = k \<and> keyFor h = k \<and> truthy (Some k)"
  using keyFor_nonempty [of h] by (auto simp: registry_ok_def okeep_def)

lemma get_handle_iff: "registry_ok r \<Longrightarrow> get_handle r (Some k) = oget (handles r) k"
  using registry_key [of r k] by (cases "oget (handles r) k") (auto simp: get_handle_def)

lemma empty_sessions_ok [simp]: "registry_ok empty_sessions"
  by (simp add: registry_ok_def empty_sessions_def)

lemma okeys_update [simp]: "fst ` set (oset k v m) = insert k (fst ` set m)"
  by (induction m) auto

lemma okeys_delete [simp]: "fst ` set (odel k m) = fst ` set m - {k}"
  by (auto simp: AList.delete_eq)

lemma register_ok: "registry_ok r \<Longrightarrow> registry_ok (register_handle h r)"
  by (simp add: registry_ok_def register_handle_def Let_def okeep_set)

lemma set_handle_ok:
  assumes "registry_ok r" and "oget (handles r) (handleKey h) = Some x" and "keyFor h = handleKey h"
  shows "registry_ok (set_handle h r)"
proof -
  have "okeep (\<lambda>k h. handleKey h = k \<and> keyFor h = k) (handles (set_handle h r))"
    using assms by (simp add: registry_ok_def set_handle_def okeep_set)
  moreover have "handles r \<noteq> []" using assms(2) by auto
  ultimately show ?thesis
    using assms(1) by (cases "activeKey r") (simp_all add: registry_ok_def set_handle_def)
qed

lemma lastHandle_in: "lastHandle r = Some h \<Longrightarrow> (fst (last (handles r)), h) \<in> set (handles r)"
  using last_in_set [of "handles r"] by (auto simp: lastHandle_def split: if_splits)

lemma findByConnection_Some:
  assumes "findByConnection c r = Some h" and "registry_ok r"
  shows "optConnection h = c" "oget (handles r) (handleKey h) = Some h"
proof -
  from assms(1) show "optConnection h = c" by (auto simp: findByConnection_def find_Some_iff)
  from assms(1) have "h \<in> set (ovals (handles r))" by (auto simp: findByConnection_def find_Some_iff)
  then obtain k where k: "(k, h) \<in> set (handles r)" by auto
  with assms(2) have "oget (handles r) k = Some h" by (simp add: registry_ok_def oget_iff)
  with registry_key [OF assms(2) this] show "oget (handles r) (handleKey h) = Some h" by simp
qed

lemma last_key:
  assumes "omap_wf (handles r)" and "okeep (\<lambda>k h. handleKey h = k \<and> keyFor h = k) (handles r)"
  shows "registry_ok (r\<lparr>activeKey := map_option handleKey (lastHandle r)\<rparr>)"
proof (cases "lastHandle r")
  case None
  with assms show ?thesis by (simp add: registry_ok_def lastHandle_def split: if_splits)
next
  case (Some g)
  note g = lastHandle_in [OF this]
  with assms(1) have "oget (handles r) (fst (last (handles r))) = Some g" by (simp add: oget_iff)
  with assms(2) have "handleKey g = fst (last (handles r))" by (simp add: okeep_def)
  with g have "handleKey g \<in> fst ` set (handles r)" by (metis fst_conv image_eqI)
  with Some assms show ?thesis by (simp add: registry_ok_def)
qed

lemma unregister_ok:
  assumes ok: "registry_ok r"
  shows "registry_ok (fst (unregisterByConnection c r))"
proof (cases "findByConnection c r")
  case None
  with ok show ?thesis by (simp add: unregisterByConnection_def)
next
  case (Some h)
  let ?r1 = "r\<lparr>handles := odel (handleKey h) (handles r)\<rparr>"
  have keep: "omap_wf (handles ?r1)" "okeep (\<lambda>k h. handleKey h = k \<and> keyFor h = k) (handles ?r1)"
    using ok by (simp_all add: registry_ok_def okeep_del)
  have res: "fst (unregisterByConnection c r) = (if activeKey r = Some (handleKey h)
      then ?r1\<lparr>activeKey := map_option handleKey (lastHandle ?r1)\<rparr> else ?r1)"
    using Some by (simp add: unregisterByConnection_def Let_def)
  show ?thesis
  proof (cases "activeKey r = Some (handleKey h)")
    case True
    then show ?thesis using last_key [OF keep] unfolding res by simp
  next
    case False
    have "handles r \<noteq> []" using findByConnection_Some(2) [OF Some ok] by auto
    with ok obtain k where "activeKey r = Some k" "k \<in> fst ` set (handles r)"
      by (cases "activeKey r") (simp_all add: registry_ok_def)
    with keep False show ?thesis by (simp add: res registry_ok_def)
  qed
qed

lemma map_locks: "map_of (map (\<lambda>(k, h). (k, f h)) m) k = map_option f (map_of m k)"
  by (induction m) auto

lemma release_cli_ok: "registry_ok r \<Longrightarrow> registry_ok (fst (releaseLocksForCli cli r))"
proof -
  assume ok: "registry_ok r"
  have keys: "okeys (handles (fst (releaseLocksForCli cli r))) = okeys (handles r)"
    by (simp add: releaseLocksForCli_def split_def comp_def)
  have "okeep (\<lambda>k h. handleKey h = k \<and> keyFor h = k) (handles (fst (releaseLocksForCli cli r)))"
    unfolding okeep_def
  proof (intro allI impI)
    fix k h assume "oget (handles (fst (releaseLocksForCli cli r))) k = Some h"
    then obtain g where g: "oget (handles r) k = Some g" "h = (if held_by cli g then g\<lparr>handleLock := None\<rparr> else g)"
      by (auto simp: releaseLocksForCli_def map_locks)
    with registry_key [OF ok g(1)] show "handleKey h = k \<and> keyFor h = k" by simp
  qed
  moreover have "handles (fst (releaseLocksForCli cli r)) = [] \<longleftrightarrow> handles r = []" using keys by (metis map_is_Nil_conv)
  moreover have "activeKey (fst (releaseLocksForCli cli r)) = activeKey r" by (simp add: releaseLocksForCli_def)
  ultimately show ?thesis using ok keys by (simp add: registry_ok_def omap_wf_def split: option.splits)
qed

lemma acquire_write_ok:
  assumes "registry_ok r" and "oget (handles r) k = Some h"
  shows "registry_ok (fst (acquire_write h cli session r))"
  using set_handle_ok [OF assms(1), of "h\<lparr>handleLock := fst (acquire cli session (handleLock h))\<rparr>"] registry_key [OF assms] assms(2)
  by (simp add: acquire_write_def case_prod_beta)

text \<open>In a well formed registry a target is found exactly when some target is registered.\<close>

lemma activeHandle_Some:
  assumes "registry_ok r"
  shows "activeHandle r = (case activeKey r of None \<Rightarrow> None | Some k \<Rightarrow> oget (handles r) k)"
proof (cases "activeKey r")
  case None
  with assms show ?thesis by (simp add: activeHandle_def get_handle_def lastHandle_def registry_ok_def)
next
  case (Some k)
  with assms obtain h where "oget (handles r) k = Some h"
    by (auto simp: registry_ok_def dest: weak_map_of_SomeI)
  with Some get_handle_iff [OF assms] show ?thesis by (simp add: activeHandle_def)
qed

lemma resolve_handle_in:
  assumes "registry_ok r" and "resolve_handle t r = Some h"
  shows "oget (handles r) (handleKey h) = Some h"
proof -
  have fnd: "oget (handles r) (handleKey g) = Some g" if "find P (ovals (handles r)) = Some g" for P g
  proof -
    from that have "g \<in> set (ovals (handles r))" by (auto simp: find_Some_iff)
    then obtain k where "(k, g) \<in> set (handles r)" by auto
    with assms(1) have "oget (handles r) k = Some g" by (simp add: registry_ok_def oget_iff)
    with registry_key [OF assms(1) this] show ?thesis by simp
  qed
  have act: "oget (handles r) (handleKey g) = Some g" if "activeHandle r = Some g" for g
    using that registry_key [OF assms(1)] by (auto simp: activeHandle_Some [OF assms(1)] split: option.splits)
  from assms(2) show ?thesis
    by (auto simp: resolve_handle_def resolveChromeRef_def resolveElectronTarget_def Let_def dest: fnd act
        split: option.splits bridge_target.splits if_splits)
qed

subsection \<open>Both leases are exclusive\<close>

definition lock_owner :: "'c session_registry \<Rightarrow> string \<Rightarrow> string option" where
  "lock_owner r k = (case oget (handles r) k of None \<Rightarrow> None | Some h \<Rightarrow> map_option holderCli (handleLock h))"

definition lock_attempt :: "string \<Rightarrow> string \<times> string option \<Rightarrow> 'c session_registry \<Rightarrow> 'c session_registry \<times> bool" where
  "lock_attempt k who r =
     (case oget (handles r) k of
        None \<Rightarrow> (r, False)
      | Some h \<Rightarrow>
          (case acquire_write h (fst who) (snd who) r of
             (r', Inr _) \<Rightarrow> (r', True)
           | (r', Inl _) \<Rightarrow> (r', False)))"

lemma acquire_write_simp:
  "acquire_write h cli session r =
     (if \<exists>x. handleLock h = Some x \<and> holderCli x \<noteq> cli then (set_handle h r, Inl (the (handleLock h)))
      else (set_handle (h\<lparr>handleLock := Some \<lparr>holderCli = cli, holderSession = session\<rparr>\<rparr>) r,
        Inr \<lparr>holderCli = cli, holderSession = session\<rparr>))"
proof -
  have same: "h\<lparr>handleLock := Some x\<rparr> = h" if "handleLock h = Some x" for x using that by (cases h) simp
  then show ?thesis by (cases "handleLock h") (auto simp: acquire_write_def acquire_def Let_def same)
qed

lemma set_handle_same: "registry_ok r \<Longrightarrow> oget (handles r) k = Some h \<Longrightarrow> set_handle h r = r"
  using registry_key [of r k h] by (simp add: set_handle_def update_triv)

text \<open>The lease of a handle, with the identity of the command-line connection as the owner.\<close>

interpretation write_lease: exclusive_lease lock_owner "\<lambda>k cli. lock_attempt k (cli, session)" registry_ok
  "\<lambda>r k. oget (handles r) k \<noteq> None" for session
proof
  fix r :: "'c session_registry" and k cli
  assume ok: "registry_ok r"
  show "registry_ok (fst (lock_attempt k (cli, session) r))"
    using ok acquire_write_ok [OF ok, of k _ cli session]
    by (auto simp: lock_attempt_def split: option.splits prod.splits sum.splits)
  show "(oget (handles (fst (lock_attempt k (cli, session) r))) q \<noteq> None) = (oget (handles r) q \<noteq> None)" for q
    using registry_key [OF ok, of k]
    by (auto simp: lock_attempt_def acquire_write_simp set_handle_def split: option.splits)
next
  fix r :: "'c session_registry" and k cli
  assume ok: "registry_ok r" and k: "oget (handles r) k \<noteq> None"
  then obtain h where h: "oget (handles r) k = Some h" by auto
  show "snd (lock_attempt k (cli, session) r) = (lock_owner r k = None \<or> lock_owner r k = Some cli)"
    using h by (auto simp: lock_attempt_def acquire_write_simp lock_owner_def)
  assume "snd (lock_attempt k (cli, session) r)"
  then show "lock_owner (fst (lock_attempt k (cli, session) r)) k = Some cli"
    using h registry_key [OF ok h]
    by (auto simp: lock_attempt_def acquire_write_simp lock_owner_def set_handle_def split: if_splits)
next
  fix r :: "'c session_registry" and k cli q v
  assume ok: "registry_ok r" and own: "lock_owner r q = Some v" "v \<noteq> cli"
  show "lock_owner (fst (lock_attempt k (cli, session) r)) q = Some v"
  proof (cases "oget (handles r) k")
    case (Some h)
    with own registry_key [OF ok Some] show ?thesis
      by (auto simp: lock_attempt_def acquire_write_simp lock_owner_def set_handle_def split: option.splits)
  qed (use own in \<open>simp add: lock_attempt_def\<close>)
qed

text \<open>The session locks: the owner is a browser window, and a window owns one session.\<close>

definition locks_ok :: "(string, int) omap \<Rightarrow> bool" where
  "locks_ok locks \<longleftrightarrow> omap_wf locks \<and> distinct (ovals locks)"

lemma omap_eq_entry: "omap_wf m \<Longrightarrow> (k, v) \<in> set m \<Longrightarrow> (k, w) \<in> set m \<Longrightarrow> v = w"
  by (metis oget_iff option.inject)

lemma filter_owner:
  "omap_wf locks \<Longrightarrow> oget (filter (\<lambda>(_, v). v \<noteq> w) locks) k = (if oget locks k = Some w then None else oget locks k)"
  by (auto simp: oget_filter split: option.splits)

lemma update_append: "oget m k = None \<Longrightarrow> oset k v m = m @ [(k, v)]"
  by (induction m) (auto split: if_splits)

lemma lock_result_ok:
  assumes "locks_ok locks"
  shows "locks_ok (snd (buildLockResult locks k w))"
proof (cases "oget locks k = None \<or> oget locks k = Some w")
  case True
  let ?m = "filter (\<lambda>(_, v). v \<noteq> w) locks"
  have wf: "omap_wf ?m" and d: "distinct (ovals ?m)"
    using assms by (simp_all add: locks_ok_def distinct_map_filter)
  have "oget ?m k = None" using True assms by (auto simp: locks_ok_def filter_owner)
  then have "ovals (oset k w ?m) = ovals ?m @ [w]" by (simp add: update_append)
  moreover have "w \<notin> set (ovals ?m)" by auto
  ultimately have "distinct (ovals (oset k w ?m))" using d by simp
  with wf True show ?thesis by (simp add: buildLockResult_def locks_ok_def Let_def)
next
  case False
  then obtain v where "oget locks k = Some v" "v \<noteq> w" by auto
  with assms show ?thesis by (simp add: buildLockResult_def Let_def)
qed

lemma lock_result_simps:
  "snd (buildLockResult locks k w) = (if oget locks k = None \<or> oget locks k = Some w
     then oset k w (filter (\<lambda>(_, v). v \<noteq> w) locks) else locks)"
  "lockSuccess (fst (buildLockResult locks k w)) \<longleftrightarrow> oget locks k = None \<or> oget locks k = Some w"
  by (auto simp: buildLockResult_def Let_def)

interpretation session_lease: exclusive_lease oget
  "\<lambda>k w locks. (snd (buildLockResult locks k w), lockSuccess (fst (buildLockResult locks k w)))" locks_ok "\<lambda>_ _. True"
proof
  fix locks k w assume ok: "locks_ok locks"
  then have wf: "omap_wf locks" by (simp add: locks_ok_def)
  show "locks_ok (fst (snd (buildLockResult locks k w), lockSuccess (fst (buildLockResult locks k w))))"
    using lock_result_ok [OF ok] by simp
  show "oget (fst (snd (buildLockResult locks k w), lockSuccess (fst (buildLockResult locks k w)))) q = Some v"
    if "oget locks q = Some v" "v \<noteq> w" for q v
    using that by (auto simp: lock_result_simps filter_owner [OF wf])
qed (auto simp: lock_result_simps)

lemma release_window_ok: "locks_ok (sessionLocks s) \<Longrightarrow> locks_ok (sessionLocks (releaseWindowState s w))"
  by (simp add: releaseWindowState_def locks_ok_def distinct_map_filter)

text \<open>
  One window per session, one session per window: a sequence of lock requests from any sound
  state keeps the locks sound; a request succeeds exactly when no other window owns the session,
  then makes the window the owner of this session and of no other, and leaves every other
  window's session alone; a refused request changes nothing and names the owner.
\<close>

theorem session_lock_exact:
  assumes "locks_ok locks0"
    and "locks = fold (\<lambda>(k, w) l. snd (buildLockResult l k w)) requests locks0"
    and "buildLockResult locks session w = (res, locks')"
  shows "locks_ok locks' \<and> lockSession res = session
    \<and> lockSuccess res = (oget locks session = None \<or> oget locks session = Some w)
    \<and> (if lockSuccess res
       then (\<forall>k. oget locks' k = Some w \<longleftrightarrow> k = session) \<and> lockOwner res = None
         \<and> (\<forall>k v. v \<noteq> w \<longrightarrow> (oget locks' k = Some v \<longleftrightarrow> oget locks k = Some v))
       else locks' = locks \<and> lockOwner res = oget locks session)"
proof -
  have "locks = session_lease.attempts requests locks0"
    by (simp add: assms(2) session_lease.attempts_def)
  then have ok: "locks_ok locks" using session_lease.attempts_good [OF assms(1)] by simp
  then have "locks_ok locks'" using lock_result_ok [of locks session w] assms(3) by simp
  moreover have "omap_wf locks" using ok by (simp add: locks_ok_def)
  ultimately show ?thesis using assms(3) by (auto simp: buildLockResult_def Let_def filter_owner split: if_splits)
qed

theorem session_lock_exact_witness:
  "buildLockResult [(''s1'', 1)] ''s2'' 1 = (\<lparr>lockSession = ''s2'', lockSuccess = True, lockOwner = None\<rparr>, [(''s2'', 1)])
    \<and> oget [(''s2'', 1 :: int)] ''s1'' \<noteq> Some 1"
proof -
  have run: "buildLockResult [(''s1'', 1)] ''s2'' 1 =
      (\<lparr>lockSession = ''s2'', lockSuccess = True, lockOwner = None\<rparr>, [(''s2'', 1)])"
    by (simp add: buildLockResult_def)
  have "[(''s1'', 1 :: int)] = fold (\<lambda>(k, w) l. snd (buildLockResult l k w)) [(''s1'', 1)] []"
    by (simp add: buildLockResult_def)
  from session_lock_exact [OF _ this run] run show ?thesis by (simp add: locks_ok_def)
qed

end
