(* ===== verification/BridgeServer.thy ===== *)
theory BridgeServer
  imports BridgeSessions Json
begin

section \<open>The bridge server: planning and relaying requests\<close>

text \<open>
  The bridge server between command-line clients, the MCP endpoint and browser extensions:
  \<open>BridgeRequestHandler.plan\<close> (\<open>packages/server/src/request-handler.ts\<close>) and the message handling of
  \<open>BridgeServer\<close> (\<open>server.ts\<close>): registration, relayed requests, responses, extension events,
  recording leases and disconnects.

  A socket is a number; a client object lives as long as its socket delivers messages, also after
  the server dropped it from its \<open>clients\<close> map (\<open>listed\<close>). A handler returns the new state and its
  outputs in order. \<open>sendJson\<close> sends only on an open socket (\<open>openSockets\<close>, the sockets with
  \<open>readyState\<close> OPEN). Messages are typed; their recognition by the presence of JSON fields is the
  constructor of \<open>client_message\<close>. The checks of parameters and results by TypeBox schemas are the
  functions of \<open>server_config\<close>. Commands the server or its Electron manager executes itself are
  outputs (\<open>RunServerLocal\<close>, \<open>RunElectron\<close>). Logs, telemetry, clocks and the journal's aftermath of a
  response are left out.
\<close>

subsection \<open>Messages\<close>

record bridge_request =
  reqId :: int
  reqMethod :: string
  reqParams :: jval
  reqTarget :: "bridge_target option"

record bridge_response =
  resId :: int
  resResult :: jval
  resError :: "bridge_error option"

datatype peer_role = CliPeer "string option" | ExtensionPeer int "string option" "string list" | OtherPeer

record registration =
  regToken :: string
  regVersion :: "int option"
  regMinVersion :: "int option"
  regApp :: string
  regRole :: peer_role

record bridge_event =
  evName :: string
  evData :: jval

datatype client_message =
    RegisterMsg registration
  | RequestMsg bridge_request
  | ResponseMsg bridge_response
  | EventMsg bridge_event
  | UnknownMsg

datatype server_message =
    RegisterResult bool "string option"
  | RelayMsg bridge_request
  | AnswerMsg bridge_response
  | ServerEvent bridge_event
  | AbortMsg int

datatype server_output =
    Send nat server_message
  | CloseSocket nat int string
  | ResolveMcp int bridge_response
  | RunServerLocal nat bridge_request
  | RunElectron nat bridge_request bridge_target
  | StopElectronRecording string bridge_target

subsection \<open>State\<close>

datatype client_role = RoleCli | RoleExtension

record client_info =
  connectionId :: string
  remoteAddress :: string
  clientRole :: "client_role option"
  clientWindow :: "int option"
  clientSession :: "string option"
  clientCapabilities :: "string list option"
  clientVersion :: "int option"
  clientMinVersion :: "int option"
  clientApp :: "string option"
  clientName :: "string option"

text \<open>\<open>client.registered\<close>: the role is set together with it.\<close>

abbreviation registered :: "client_info \<Rightarrow> bool" where
  "registered c \<equiv> clientRole c \<noteq> None"

definition new_client :: "string \<Rightarrow> string \<Rightarrow> client_info" where
  "new_client cid remote = \<lparr>connectionId = cid, remoteAddress = remote, clientRole = None, clientWindow = None, clientSession = None,
     clientCapabilities = None, clientVersion = None, clientMinVersion = None, clientApp = None, clientName = None\<rparr>"

record pending_request =
  pendingClientRequest :: int
  pendingCli :: string
  pendingSocket :: "nat option"
  pendingMethod :: string
  pendingHandle :: "string option"
  pendingIdentity :: string
  pendingTarget :: bridge_target

record recording_lease =
  leaseCli :: string
  leaseTarget :: bridge_target
  leaseHandle :: "string option"

record server_state =
  clients :: "(nat, client_info) omap"
  listed :: "nat list"
  openSockets :: "nat set"
  sessions :: "nat session_registry"
  pending :: "(int, pending_request) omap"
  nextRelay :: int
  recordings :: "(string, recording_lease) omap"

definition new_server :: server_state where
  "new_server = \<lparr>clients = [], listed = [], openSockets = {}, sessions = empty_sessions, pending = [], nextRelay = 1,
     recordings = []\<rparr>"

record server_config =
  cfgToken :: string
  validateParams :: "string \<Rightarrow> jval \<Rightarrow> string + jval"
  validateResult :: "string \<Rightarrow> jval \<Rightarrow> string + jval"

definition fields :: "jval \<Rightarrow> (string \<times> jval) list" where
  "fields v = (case v of JObj fs \<Rightarrow> fs | _ \<Rightarrow> [])"

definition string_field :: "string \<Rightarrow> jval \<Rightarrow> string option" where
  "string_field k v = (case jget k (fields v) of JStr s \<Rightarrow> Some s | _ \<Rightarrow> None)"

subsection \<open>Planning a request\<close>

datatype plan_error =
    InvalidMethod
  | InvalidParams
  | UnsupportedTargetKind
  | MissingExtensionTarget
  | CapabilityDisabled
  | WriteLocked write_holder

datatype request_plan =
    PlanServerLocal bridge_target
  | PlanElectron bridge_target
  | PlanExtension bridge_target "nat target_handle" "string option" bool
  | PlanError plan_error "bridge_target option" bridge_error

definition requestTarget :: "bridge_request \<Rightarrow> bridge_target" where
  "requestTarget req = or_else (reqTarget req) defaultTarget"

text \<open>\<open>plan\<close>, with the request whose parameters it replaces and the registry whose lock it takes.\<close>

definition plan_request ::
  "server_config \<Rightarrow> nat set \<Rightarrow> string \<Rightarrow> bridge_request \<Rightarrow> nat session_registry
     \<Rightarrow> nat session_registry \<times> bridge_request \<times> request_plan" where
  "plan_request cfg opened cli req0 r =
     (if reqMethod req0 \<notin> set BridgeMethods
      then (r, req0, PlanError InvalidMethod None
        \<lparr>errorCode = INVALID_METHOD, errorMessage = ''Unknown method: '' @ reqMethod req0\<rparr>)
      else case validateParams cfg (reqMethod req0) (reqParams req0) of
        Inl errs \<Rightarrow> (r, req0, PlanError InvalidParams None
          \<lparr>errorCode = INVALID_PARAMS,
            errorMessage = ''Invalid parameters for '' @ quoted (reqMethod req0) @ '': '' @ errs\<rparr>)
      | Inr params \<Rightarrow>
          let req = req0\<lparr>reqParams := params\<rparr>; target = requestTarget req in
          (case resolveBridgeExecution (reqMethod req) target of
             ServerLocalAdapter \<Rightarrow> (r, req, PlanServerLocal target)
           | ElectronAdapter \<Rightarrow> (r, req, PlanElectron target)
           | UnsupportedTarget err \<Rightarrow> (r, req, PlanError UnsupportedTargetKind (Some target) err)
           | ChromeAdapter \<Rightarrow>
               (case resolve_handle (Some target) r of
                  None \<Rightarrow> (r, req, PlanError MissingExtensionTarget (Some target) missingExtensionTargetError)
                | Some h \<Rightarrow>
                    if optConnection h \<notin> opened
                    then (r, req, PlanError MissingExtensionTarget (Some target) missingExtensionTargetError)
                    else if \<exists>caps \<in> set_option (optCapabilities h). reqMethod req \<notin> set caps
                    then (r, req, PlanError CapabilityDisabled (Some target)
                      \<lparr>errorCode = CAPABILITY_DISABLED,
                        errorMessage = ''Method '' @ quoted (reqMethod req) @ '' is disabled on the active extension target''\<rparr>)
                    else
                      let expected = string_field ''expectedSessionId'' params in
                      if isCatalogWriteMethod (reqMethod req) then
                        (case acquire_write h cli expected r of
                           (r', Inl holder) \<Rightarrow> (r', req, PlanError (WriteLocked holder) (Some target)
                             \<lparr>errorCode = WRITE_LOCKED,
                               errorMessage = ''Another CLI currently holds the session write lock''\<rparr>)
                         | (r', Inr lock) \<Rightarrow>
                             (r', req, PlanExtension target (h\<lparr>handleLock := Some lock\<rparr>) expected True))
                      else (r, req, PlanExtension target h expected False))))"

subsection \<open>Sending\<close>

definition sendJson :: "server_state \<Rightarrow> nat \<Rightarrow> server_message \<Rightarrow> server_output list" where
  "sendJson st ws m = (if ws \<in> openSockets st then [Send ws m] else [])"

definition broadcastToRole :: "server_state \<Rightarrow> client_role \<Rightarrow> server_message \<Rightarrow> server_output list" where
  "broadcastToRole st role m =
     concat (map (\<lambda>ws. case oget (clients st) ws of
         Some c \<Rightarrow> if clientRole c = Some role then sendJson st ws m else []
       | None \<Rightarrow> []) (listed st))"

definition close_socket :: "nat \<Rightarrow> int \<Rightarrow> string \<Rightarrow> server_state \<Rightarrow> server_state \<times> server_output list" where
  "close_socket ws code reason st = (st\<lparr>openSockets := openSockets st - {ws}\<rparr>, [CloseSocket ws code reason])"

definition error_response :: "int \<Rightarrow> int \<Rightarrow> string \<Rightarrow> bridge_response" where
  "error_response n code msg = \<lparr>resId = n, resResult = JUndef,
     resError = Some \<lparr>errorCode = code, errorMessage = msg\<rparr>\<rparr>"

text \<open>How a relayed request is answered: its MCP promise is resolved, its command-line client is sent the response.\<close>

definition answer :: "server_state \<Rightarrow> int \<Rightarrow> pending_request \<Rightarrow> bridge_response \<Rightarrow> server_output list" where
  "answer st relay p res =
     (case pendingSocket p of
        None \<Rightarrow> [ResolveMcp relay res]
      | Some ws \<Rightarrow> sendJson st ws (AnswerMsg res))"

subsection \<open>Registration\<close>

text \<open>A new connection of a window takes the place of one that is still open.\<close>

definition replaceExisting :: "int \<Rightarrow> server_state \<Rightarrow> server_state \<times> server_output list" where
  "replaceExisting w st =
     (case get_handle (sessions st) (Some (''chrome-window:'' @ int_text w)) of
        Some h \<Rightarrow>
          if optConnection h \<in> openSockets st
          then close_socket (optConnection h) 4008 ''Replaced by new connection from same window''
            (st\<lparr>listed := removeAll (optConnection h) (listed st),
               sessions := fst (unregisterByConnection (optConnection h) (sessions st))\<rparr>)
          else (st, [])
      | None \<Rightarrow> (st, []))"

definition registerExtension ::
  "nat \<Rightarrow> client_info \<Rightarrow> registration \<Rightarrow> int option \<Rightarrow> int \<Rightarrow> string option \<Rightarrow> string list \<Rightarrow> server_state
     \<Rightarrow> server_state \<times> server_output list" where
  "registerExtension ws c msg minVersion w session caps st =
     (case replaceExisting w st of
        (st1, closing) \<Rightarrow>
          let c' = c\<lparr>clientRole := Some RoleExtension, clientWindow := Some w, clientSession := session,
                clientCapabilities := Some caps, clientVersion := regVersion msg, clientMinVersion := minVersion,
                clientApp := Some (regApp msg)\<rparr>;
              options = \<lparr>optKind = ChromeKind, optConnection = ws, optWindow = Some w, optSession = session,
                optCapabilities = Some caps, optVersion = regVersion msg, optApp = Some (regApp msg),
                optRemote = Some (remoteAddress c)\<rparr>;
              st2 = st1\<lparr>clients := oset ws c' (clients st1), sessions := register_handle options (sessions st1)\<rparr> in
          (st2, closing @ sendJson st2 ws (RegisterResult True None)
             @ broadcastToRole st2 RoleCli (ServerEvent
                 \<lparr>evName = ''extension_connected'', evData = JObj [(''windowId'', jint w)]\<rparr>)))"

definition handleRegistration :: "server_config \<Rightarrow> nat \<Rightarrow> client_info \<Rightarrow> registration \<Rightarrow> server_state
     \<Rightarrow> server_state \<times> server_output list" where
  "handleRegistration cfg ws c msg st =
     (let minVersion = (case regMinVersion msg of Some m \<Rightarrow> Some m | None \<Rightarrow> regVersion msg) in
      if regToken msg \<noteq> cfgToken cfg then
        (let (st', out) = close_socket ws 4003 ''Invalid token'' st in
         (st', sendJson st ws (RegisterResult False (Some ''Invalid token'')) @ out))
      else if \<not> isBridgeProtocolCompatible (regVersion msg) minVersion then
        (let peer = (case regRole msg of CliPeer _ \<Rightarrow> ''CLI'' | _ \<Rightarrow> ''extension'');
             err = formatBridgeProtocolMismatch peer (regVersion msg) minVersion;
             (st', out) = close_socket ws 4009 ''Protocol mismatch'' st in
         (st', sendJson st ws (RegisterResult False (Some err)) @ out))
      else case regRole msg of
        ExtensionPeer w session caps \<Rightarrow> registerExtension ws c msg minVersion w session caps st
      | CliPeer name \<Rightarrow>
          (let c' = c\<lparr>clientRole := Some RoleCli, clientName := name, clientVersion := regVersion msg,
               clientMinVersion := minVersion, clientApp := Some (regApp msg)\<rparr>;
             st' = st\<lparr>clients := oset ws c' (clients st)\<rparr> in
           (st', sendJson st' ws (RegisterResult True None)))
      | OtherPeer \<Rightarrow> (st, []))"

subsection \<open>Requests\<close>

definition operationSessionIdentity ::
  "string option \<Rightarrow> bridge_target option \<Rightarrow> nat target_handle option \<Rightarrow> string" where
  "operationSessionIdentity connection target h =
     (let electron = (case target of Some (ElectronWindow _ s _ _) \<Rightarrow> truthy s | _ \<Rightarrow> False) in
      if electron then ''electron:'' @ the (electronSessionId (the target))
      else case h of
        Some g \<Rightarrow>
          if truthy (optSession g)
          then (case optKind g of ChromeKind \<Rightarrow> ''chrome-tab'' | ElectronKind \<Rightarrow> ''electron-window'') @ '':'' @ the (optSession g)
          else handleKey g
      | None \<Rightarrow>
          (case target of
             Some (ChromeTab ref tab _) \<Rightarrow>
               if truthy ref then ''chrome-ref:'' @ the ref
               else (case tab of Some i \<Rightarrow> ''chrome-tab:'' @ int_text i | None \<Rightarrow> ''connection:'' @ or_else connection ''mcp'')
           | _ \<Rightarrow> ''connection:'' @ or_else connection ''mcp''))"

text \<open>A planned extension request becomes a pending relay and is sent to the extension.\<close>

definition relay_request ::
  "string \<Rightarrow> nat option \<Rightarrow> string option \<Rightarrow> bridge_request \<Rightarrow> bridge_target \<Rightarrow> nat target_handle \<Rightarrow> server_state
     \<Rightarrow> server_state \<times> server_output list" where
  "relay_request cli ws connection req target h st =
     (let n = nextRelay st;
          p = \<lparr>pendingClientRequest = reqId req, pendingCli = cli, pendingSocket = ws, pendingMethod = reqMethod req,
            pendingHandle = Some (handleKey h), pendingIdentity = operationSessionIdentity connection (Some target) (Some h),
            pendingTarget = target\<rparr>;
          st' = st\<lparr>nextRelay := n + 1, pending := oset n p (pending st)\<rparr> in
      (st', sendJson st' (optConnection h) (RelayMsg (req\<lparr>reqId := n, reqTarget := Some target\<rparr>))))"

definition handleCliRequest ::
  "server_config \<Rightarrow> nat \<Rightarrow> client_info \<Rightarrow> bridge_request \<Rightarrow> server_state \<Rightarrow> server_state \<times> server_output list" where
  "handleCliRequest cfg ws c req0 st0 =
     (let (r, req, plan) = plan_request cfg (openSockets st0) (connectionId c) req0 (sessions st0);
          st = st0\<lparr>sessions := r\<rparr> in
      case plan of
        PlanError _ _ err \<Rightarrow> (st, sendJson st ws (AnswerMsg \<lparr>resId = reqId req, resResult = JUndef, resError = Some err\<rparr>))
      | PlanServerLocal _ \<Rightarrow> (st, [RunServerLocal ws req])
      | PlanElectron target \<Rightarrow> (st, [RunElectron ws req target])
      | PlanExtension target h _ _ \<Rightarrow> relay_request (connectionId c) (Some ws) (Some (connectionId c)) req target h st)"

text \<open>
  \<open>executeMcpBridgeRequest\<close>, of methods other than the two snapshot methods it hands on. The request
  takes a relay identity of its own; \<open>mcp\<close> is the connection identity of all MCP requests.
\<close>

definition executeMcpBridgeRequest ::
  "server_config \<Rightarrow> string \<Rightarrow> jval \<Rightarrow> bridge_target option \<Rightarrow> server_state \<Rightarrow> server_state \<times> server_output list" where
  "executeMcpBridgeRequest cfg m params target0 st0 =
     (let n = nextRelay st0; st1 = st0\<lparr>nextRelay := n + 1\<rparr>;
          req0 = \<lparr>reqId = n, reqMethod = m, reqParams = params, reqTarget = target0\<rparr>;
          (r, req, plan) = plan_request cfg (openSockets st1) ''mcp'' req0 (sessions st1);
          st = st1\<lparr>sessions := r\<rparr> in
      case plan of
        PlanError _ _ err \<Rightarrow> (st, [ResolveMcp n \<lparr>resId = n, resResult = JUndef, resError = Some err\<rparr>])
      | PlanExtension target h _ _ \<Rightarrow> relay_request ''mcp'' None None req target h st
      | _ \<Rightarrow> (st, [ResolveMcp n (error_response n INVALID_TARGET
          ''MCP bridge execution currently supports extension-routed browser targets'')]))"

subsection \<open>Responses\<close>

definition target_of_json :: "jval \<Rightarrow> bridge_target" where
  "target_of_json v =
     (if jget ''kind'' (fields v) = JStr ''electron-window''
      then ElectronWindow None (string_field ''sessionId'' v) (string_field ''windowRef'' v) (string_field ''targetId'' v)
      else ChromeTab None
        (case jget ''tabId'' (fields v) of JNum (Fin i 0) \<Rightarrow> Some i | _ \<Rightarrow> None)
        (case jget ''frameId'' (fields v) of JNum (Fin i 0) \<Rightarrow> Some i | _ \<Rightarrow> None))"

definition recording_id :: "jval \<Rightarrow> string" where
  "recording_id v = or_else (string_field ''recordingId'' v) []"

definition registerRecordingLease :: "string \<Rightarrow> jval \<Rightarrow> string option \<Rightarrow> server_state \<Rightarrow> server_state" where
  "registerRecordingLease cli result hk st = st\<lparr>recordings := oset (recording_id result)
     \<lparr>leaseCli = cli, leaseTarget = target_of_json (jget ''target'' (fields result)), leaseHandle = hk\<rparr> (recordings st)\<rparr>"

definition releaseRecordingLease :: "jval \<Rightarrow> server_state \<Rightarrow> server_state" where
  "releaseRecordingLease result st = st\<lparr>recordings := odel (recording_id result) (recordings st)\<rparr>"

definition updateRecordingLeasesFromResponse :: "pending_request \<Rightarrow> jval \<Rightarrow> server_state \<Rightarrow> server_state" where
  "updateRecordingLeasesFromResponse p result st =
     (if pendingMethod p = ''record_start'' then registerRecordingLease (pendingCli p) result (pendingHandle p) st
      else if pendingMethod p = ''record_stop'' then releaseRecordingLease result st
      else st)"

definition handleExtensionResponse ::
  "server_config \<Rightarrow> bridge_response \<Rightarrow> server_state \<Rightarrow> server_state \<times> server_output list" where
  "handleExtensionResponse cfg res st0 =
     (case oget (pending st0) (resId res) of
        None \<Rightarrow> (st0, [])
      | Some p \<Rightarrow>
          let st1 = st0\<lparr>pending := odel (resId res) (pending st0)\<rparr>;
              (st, res') =
                (if resError res \<noteq> None then (st1, res)
                 else case validateResult cfg (pendingMethod p) (resResult res) of
                   Inl errs \<Rightarrow> (st1, error_response (resId res) INVALID_RESULT
                     (''Invalid result for '' @ quoted (pendingMethod p) @ '': '' @ errs))
                 | Inr v \<Rightarrow> (updateRecordingLeasesFromResponse p v st1, res\<lparr>resResult := v\<rparr>)) in
          (st, answer st (resId res) p (res'\<lparr>resId := pendingClientRequest p\<rparr>)))"

subsection \<open>Extension events\<close>

fun string_values :: "jval list \<Rightarrow> string list option" where
  "string_values [] = Some []"
| "string_values (JStr s # vs) = map_option ((#) s) (string_values vs)"
| "string_values _ = None"

definition parseCapabilitiesUpdate :: "bridge_event \<Rightarrow> string list option" where
  "parseCapabilitiesUpdate ev =
     (case jget ''capabilities'' (fields (evData ev)) of
        JArr vs \<Rightarrow>
          (case string_values vs of
             Some caps \<Rightarrow> if list_all (\<lambda>c. c \<in> set BridgeCapabilities) caps \<and> distinct caps then Some caps else None
           | None \<Rightarrow> None)
      | _ \<Rightarrow> None)"

definition handleExtensionEvent ::
  "nat \<Rightarrow> client_info \<Rightarrow> bridge_event \<Rightarrow> server_state \<Rightarrow> server_state \<times> server_output list" where
  "handleExtensionEvent ws c ev st0 =
     (let h = findByConnection ws (sessions st0);
          caps = parseCapabilitiesUpdate ev in
      if evName ev = ''capabilities_update'' \<and> (h = None \<or> caps = None) then (st0, [])
      else
        let (st1, h1) =
          (case (h, caps) of
             (Some g, Some cs) \<Rightarrow>
               if evName ev = ''capabilities_update''
               then (let g' = g\<lparr>optCapabilities := Some cs\<rparr> in
                 (st0\<lparr>clients := oset ws (c\<lparr>clientCapabilities := Some cs\<rparr>) (clients st0),
                    sessions := set_handle g' (sessions st0)\<rparr>, Some g'))
               else (st0, h)
           | _ \<Rightarrow> (st0, h));
          recording = (evName ev = ''record_frame'' \<or> evName ev = ''record_chunk'');
          enabled = (case h1 of
              Some g \<Rightarrow> (case optCapabilities g of Some cs \<Rightarrow> ''record_start'' \<in> set cs | None \<Rightarrow> False)
            | None \<Rightarrow> False) in
        if recording \<and> \<not> enabled then (st1, [])
        else
          let st2 = (case string_field ''recordingId'' (evData ev) of
              Some i \<Rightarrow>
                if recording \<and> i \<noteq> [] \<and> jget ''final'' (fields (evData ev)) = JBool True
                then st1\<lparr>recordings := odel i (recordings st1)\<rparr> else st1
            | None \<Rightarrow> st1);
            st3 = (case h1 of
              Some g \<Rightarrow>
                if evName ev = ''session_changed''
                then st2\<lparr>sessions := set_handle
                  (g\<lparr>handleLock := fst (releaseForSessionChange (string_field ''sessionId'' (evData ev)) (handleLock g))\<rparr>)
                  (sessions st2)\<rparr>
                else st2
            | None \<Rightarrow> st2) in
          (st3, broadcastToRole st3 RoleCli (ServerEvent ev)))"

subsection \<open>Disconnects\<close>

text \<open>
  Ending one lease; a stop sent to an extension takes a relay identity for which nothing is pending.
\<close>

definition stop_lease :: "string \<Rightarrow> recording_lease \<Rightarrow> server_state \<Rightarrow> server_state \<times> server_output list" where
  "stop_lease i l st0 =
     (let st = st0\<lparr>recordings := odel i (recordings st0)\<rparr> in
      if isElectronTarget (leaseTarget l) then (st, [StopElectronRecording i (leaseTarget l)])
      else case get_handle (sessions st) (leaseHandle l) of
        None \<Rightarrow> (st, [])
      | Some h \<Rightarrow>
          if optConnection h \<in> openSockets st
          then (st\<lparr>nextRelay := nextRelay st + 1\<rparr>,
            [Send (optConnection h) (RelayMsg \<lparr>reqId = nextRelay st, reqMethod = ''record_stop'',
               reqParams = JObj ((''tabId'', case chromeTabId (leaseTarget l) of Some t \<Rightarrow> jint t | None \<Rightarrow> JUndef)
                 # (case chromeFrameId (leaseTarget l) of Some f \<Rightarrow> [(''frameId'', jint f)] | None \<Rightarrow> [])),
               reqTarget = Some (leaseTarget l)\<rparr>)])
          else (st, []))"

fun stop_leases :: "(string \<times> recording_lease) list \<Rightarrow> server_state \<Rightarrow> server_state \<times> server_output list" where
  "stop_leases [] st = (st, [])"
| "stop_leases ((i, l) # ls) st =
     (case stop_lease i l st of (st', out) \<Rightarrow> (case stop_leases ls st' of (st'', out') \<Rightarrow> (st'', out @ out')))"

definition stopRecordingLeasesForCli :: "string \<Rightarrow> server_state \<Rightarrow> server_state \<times> server_output list" where
  "stopRecordingLeasesForCli cli st = stop_leases (filter (\<lambda>(_, l). leaseCli l = cli) (recordings st)) st"

definition extension_disconnected :: "string \<Rightarrow> server_state \<Rightarrow> server_state \<times> server_output list" where
  "extension_disconnected k st =
     (let lost = filter (\<lambda>(_, p). pendingHandle p = Some k) (pending st);
          st' = st\<lparr>recordings := filter (\<lambda>(_, l). leaseHandle l \<noteq> Some k) (recordings st),
            pending := filter (\<lambda>(_, p). pendingHandle p \<noteq> Some k) (pending st)\<rparr> in
      (st', concat (map (\<lambda>(n, p). answer st' n p (error_response (pendingClientRequest p) NO_EXTENSION_TARGET
              ''Extension disconnected while request was pending'')) lost)
          @ broadcastToRole st' RoleCli (ServerEvent \<lparr>evName = ''extension_disconnected'', evData = JUndef\<rparr>)))"

definition cli_disconnected :: "string \<Rightarrow> server_state \<Rightarrow> server_state \<times> server_output list" where
  "cli_disconnected cli st0 =
     (let (st1, stops) = stopRecordingLeasesForCli cli (st0\<lparr>sessions := fst (releaseLocksForCli cli (sessions st0))\<rparr>);
          gone = filter (\<lambda>(_, p). pendingCli p = cli) (pending st1);
          st2 = st1\<lparr>pending := filter (\<lambda>(_, p). pendingCli p \<noteq> cli) (pending st1)\<rparr> in
      (st2, stops @ concat (map (\<lambda>(n, p).
          case (case get_handle (sessions st2) (pendingHandle p) of Some h \<Rightarrow> Some h | None \<Rightarrow> activeHandle (sessions st2)) of
            Some h \<Rightarrow> sendJson st2 (optConnection h) (AbortMsg n)
          | None \<Rightarrow> []) gone)))"

definition handleDisconnect :: "nat \<Rightarrow> client_info \<Rightarrow> server_state \<Rightarrow> server_state \<times> server_output list" where
  "handleDisconnect ws c st0 =
     (let st = st0\<lparr>listed := removeAll ws (listed st0)\<rparr> in
      case clientRole c of
        Some RoleExtension \<Rightarrow>
          (case unregisterByConnection ws (sessions st) of
             (r, Some h) \<Rightarrow> extension_disconnected (handleKey h) (st\<lparr>sessions := r\<rparr>)
           | (_, None) \<Rightarrow> (st, []))
      | Some RoleCli \<Rightarrow> cli_disconnected (connectionId c) st
      | None \<Rightarrow> (st, []))"

subsection \<open>Messages and steps\<close>

definition handleMessage ::
  "server_config \<Rightarrow> nat \<Rightarrow> client_info \<Rightarrow> client_message \<Rightarrow> server_state \<Rightarrow> server_state \<times> server_output list" where
  "handleMessage cfg ws c msg st =
     (case clientRole c of
        None \<Rightarrow>
          (case msg of
             RegisterMsg reg \<Rightarrow> handleRegistration cfg ws c reg st
           | _ \<Rightarrow> (st, sendJson st ws (RegisterResult False (Some ''Must register first''))))
      | Some RoleCli \<Rightarrow> (case msg of RequestMsg req \<Rightarrow> handleCliRequest cfg ws c req st | _ \<Rightarrow> (st, []))
      | Some RoleExtension \<Rightarrow>
          (case msg of
             ResponseMsg res \<Rightarrow> handleExtensionResponse cfg res st
           | EventMsg ev \<Rightarrow> handleExtensionEvent ws c ev st
           | _ \<Rightarrow> (st, [])))"

text \<open>
  What happens to the server. \<open>Connect\<close> accepts a socket, for which the server generates a connection
  identity; \<open>Closing\<close> is a socket leaving the OPEN state; \<open>Closed\<close> is its close event, after which it
  delivers nothing.
\<close>

datatype server_op =
    Connect nat string string
  | Message nat client_message
  | RegisterTimeout nat
  | Closing nat
  | Closed nat
  | McpRequest string jval "bridge_target option"

definition server_step :: "server_config \<Rightarrow> server_op \<Rightarrow> server_state \<Rightarrow> server_state \<times> server_output list" where
  "server_step cfg op st =
     (case op of
        Connect ws cid remote \<Rightarrow>
          if oget (clients st) ws \<noteq> None then (st, [])
          else (st\<lparr>clients := oset ws (new_client cid remote) (clients st), listed := listed st @ [ws],
            openSockets := insert ws (openSockets st)\<rparr>, [])
      | Message ws msg \<Rightarrow> (case oget (clients st) ws of Some c \<Rightarrow> handleMessage cfg ws c msg st | None \<Rightarrow> (st, []))
      | RegisterTimeout ws \<Rightarrow>
          (case oget (clients st) ws of
             Some c \<Rightarrow>
               if registered c then (st, [])
               else (let (st', out) = close_socket ws 4001 ''Registration timeout'' st in
                 (st', sendJson st ws (RegisterResult False (Some ''Registration timeout'')) @ out))
           | None \<Rightarrow> (st, []))
      | Closing ws \<Rightarrow> (st\<lparr>openSockets := openSockets st - {ws}\<rparr>, [])
      | Closed ws \<Rightarrow>
          (case oget (clients st) ws of
             Some c \<Rightarrow> handleDisconnect ws c (st\<lparr>clients := odel ws (clients st), openSockets := openSockets st - {ws}\<rparr>)
           | None \<Rightarrow> (st, []))
      | McpRequest m params target \<Rightarrow>
          if m = ''snapshot_store'' \<or> m = ''snapshot_diff'' then (st, [])
          else executeMcpBridgeRequest cfg m params target st)"

subsection \<open>The server's invariant\<close>

text \<open>
  A connection identity is in use when it is that of MCP or of a connected command-line client.
  Handles are those of connected extensions; writer leases, recording leases and pending requests
  are those of requesters that are still there, and name a registered handle.
\<close>

type_synonym client_map = "(nat, client_info) omap"

definition is_cli :: "client_map \<Rightarrow> nat \<Rightarrow> string \<Rightarrow> bool" where
  "is_cli cs ws cid \<longleftrightarrow> (\<exists>c. oget cs ws = Some c \<and> clientRole c = Some RoleCli \<and> connectionId c = cid)"

definition is_extension :: "client_map \<Rightarrow> nat \<Rightarrow> int option \<Rightarrow> bool" where
  "is_extension cs ws w \<longleftrightarrow> (\<exists>c. oget cs ws = Some c \<and> clientRole c = Some RoleExtension \<and> clientWindow c = w)"

definition requester :: "client_map \<Rightarrow> string \<Rightarrow> bool" where
  "requester cs cid \<longleftrightarrow> cid = ''mcp'' \<or> (\<exists>ws. is_cli cs ws cid)"

definition handle_fine :: "client_map \<Rightarrow> nat target_handle \<Rightarrow> bool" where
  "handle_fine cs h \<longleftrightarrow> optKind h = ChromeKind \<and> optWindow h \<noteq> None \<and> is_extension cs (optConnection h) (optWindow h)
     \<and> (\<forall>x \<in> set_option (handleLock h). requester cs (holderCli x))"

definition pending_fine :: "client_map \<Rightarrow> string set \<Rightarrow> int \<Rightarrow> int \<Rightarrow> pending_request \<Rightarrow> bool" where
  "pending_fine cs keys n i p \<longleftrightarrow> i < n \<and> (\<exists>k \<in> keys. pendingHandle p = Some k)
     \<and> (case pendingSocket p of None \<Rightarrow> pendingCli p = ''mcp'' | Some ws \<Rightarrow> is_cli cs ws (pendingCli p))"

definition lease_fine :: "client_map \<Rightarrow> string set \<Rightarrow> recording_lease \<Rightarrow> bool" where
  "lease_fine cs keys l \<longleftrightarrow> requester cs (leaseCli l) \<and> (\<exists>k \<in> keys. leaseHandle l = Some k)"

definition handle_keys :: "server_state \<Rightarrow> string set" where
  "handle_keys st = fst ` set (handles (sessions st))"

lemma handle_keys_simps [simp]:
  "handle_keys (st\<lparr>clients := cs\<rparr>) = handle_keys st" "handle_keys (st\<lparr>pending := ps\<rparr>) = handle_keys st"
  "handle_keys (st\<lparr>recordings := ls\<rparr>) = handle_keys st" "handle_keys (st\<lparr>nextRelay := n\<rparr>) = handle_keys st"
  "handle_keys (st\<lparr>listed := l\<rparr>) = handle_keys st" "handle_keys (st\<lparr>openSockets := os\<rparr>) = handle_keys st"
  by (simp_all add: handle_keys_def)

lemma handle_keys_in: "oget (handles (sessions st)) k = Some h \<Longrightarrow> k \<in> handle_keys st"
  unfolding handle_keys_def by (drule map_of_SomeD) force

definition server_inv :: "server_state \<Rightarrow> bool" where
  "server_inv st \<longleftrightarrow> registry_ok (sessions st) \<and> omap_wf (clients st) \<and> omap_wf (pending st) \<and> omap_wf (recordings st)
     \<and> okeep (\<lambda>_. handle_fine (clients st)) (handles (sessions st))
     \<and> okeep (pending_fine (clients st) (handle_keys st) (nextRelay st)) (pending st)
     \<and> okeep (\<lambda>_. lease_fine (clients st) (handle_keys st)) (recordings st)"

lemma new_server_inv: "server_inv new_server"
  by (simp add: server_inv_def new_server_def) (simp add: empty_sessions_def)

lemma pending_requester: "pending_fine cs keys n i p \<Longrightarrow> requester cs (pendingCli p)"
  by (auto simp: pending_fine_def requester_def split: option.splits)

text \<open>The client map may grow and change what the invariant does not look at.\<close>

definition clients_le :: "client_map \<Rightarrow> client_map \<Rightarrow> bool" where
  "clients_le cs cs' \<longleftrightarrow> (\<forall>ws c. oget cs ws = Some c \<longrightarrow> registered c \<longrightarrow>
     (\<exists>c'. oget cs' ws = Some c' \<and> clientRole c' = clientRole c \<and> connectionId c' = connectionId c
        \<and> clientWindow c' = clientWindow c))"

lemma clients_le_refl [simp]: "clients_le cs cs"
  by (simp add: clients_le_def)

lemma clients_le_set:
  assumes "\<And>c. oget cs ws = Some c \<Longrightarrow> registered c \<Longrightarrow>
    clientRole c' = clientRole c \<and> connectionId c' = connectionId c \<and> clientWindow c' = clientWindow c"
  shows "clients_le cs (oset ws c' cs)"
  using assms by (auto simp: clients_le_def)

lemma is_cli_mono: "clients_le cs cs' \<Longrightarrow> is_cli cs ws cid \<Longrightarrow> is_cli cs' ws cid"
  unfolding clients_le_def is_cli_def by fastforce

lemma is_extension_mono: "clients_le cs cs' \<Longrightarrow> is_extension cs ws w \<Longrightarrow> is_extension cs' ws w"
  unfolding clients_le_def is_extension_def by fastforce

lemma requester_mono: "clients_le cs cs' \<Longrightarrow> requester cs cid \<Longrightarrow> requester cs' cid"
  unfolding requester_def using is_cli_mono by blast

lemma fine_mono:
  assumes "clients_le cs cs'"
  shows "handle_fine cs h \<Longrightarrow> handle_fine cs' h"
    and "keys \<subseteq> keys' \<Longrightarrow> n \<le> n' \<Longrightarrow> pending_fine cs keys n i p \<Longrightarrow> pending_fine cs' keys' n' i p"
    and "keys \<subseteq> keys' \<Longrightarrow> lease_fine cs keys l \<Longrightarrow> lease_fine cs' keys' l"
  using is_cli_mono [OF assms] is_extension_mono [OF assms] requester_mono [OF assms]
  by (auto simp: handle_fine_def pending_fine_def lease_fine_def split: option.splits)

text \<open>Steps that change the registry within its keys and grow the rest.\<close>

lemma server_inv_grow:
  assumes inv: "server_inv st" and ok: "registry_ok (sessions st')"
    and hs: "okeep (\<lambda>_. handle_fine (clients st')) (handles (sessions st'))"
    and cs: "clients_le (clients st) (clients st')" "omap_wf (clients st')"
    and keys: "handle_keys st \<subseteq> handle_keys st'" and n: "nextRelay st \<le> nextRelay st'"
    and p: "omap_wf (pending st')" "\<And>i p. oget (pending st') i = Some p \<Longrightarrow>
      oget (pending st) i = Some p \<or> pending_fine (clients st') (handle_keys st') (nextRelay st') i p"
    and r: "omap_wf (recordings st')" "\<And>i l. oget (recordings st') i = Some l \<Longrightarrow>
      oget (recordings st) i = Some l \<or> lease_fine (clients st') (handle_keys st') l"
  shows "server_inv st'"
proof -
  from inv have old: "okeep (pending_fine (clients st) (handle_keys st) (nextRelay st)) (pending st)"
    "okeep (\<lambda>_. lease_fine (clients st) (handle_keys st)) (recordings st)" by (simp_all add: server_inv_def)
  have "okeep (pending_fine (clients st') (handle_keys st') (nextRelay st')) (pending st')"
    unfolding okeep_def
  proof (intro allI impI)
    fix i q assume "oget (pending st') i = Some q"
    from p(2) [OF this] show "pending_fine (clients st') (handle_keys st') (nextRelay st') i q"
      using fine_mono(2) [OF cs(1) keys n] okeep_get [OF old(1)] by blast
  qed
  moreover have "okeep (\<lambda>_. lease_fine (clients st') (handle_keys st')) (recordings st')"
    unfolding okeep_def
  proof (intro allI impI)
    fix i l assume "oget (recordings st') i = Some l"
    from r(2) [OF this] show "lease_fine (clients st') (handle_keys st') l"
      using fine_mono(3) [OF cs(1) keys] okeep_get [OF old(2)] by blast
  qed
  ultimately show ?thesis using ok hs cs(2) p(1) r(1) by (simp add: server_inv_def)
qed

lemma handles_grow:
  "server_inv st \<Longrightarrow> clients_le (clients st) cs' \<Longrightarrow> okeep (\<lambda>_. handle_fine cs') (handles (sessions st))"
  by (rule okeep_mono [where P = "\<lambda>_. handle_fine (clients st)"]) (auto simp: server_inv_def fine_mono(1))

text \<open>Setting a registered handle in place.\<close>

lemma server_inv_handle:
  assumes inv: "server_inv st" and g: "oget (handles (sessions st)) (handleKey g) = Some h"
    and key: "keyFor g = handleKey g" and fine: "handle_fine (clients st) g"
  shows "server_inv (st\<lparr>sessions := set_handle g (sessions st)\<rparr>)"
proof (rule server_inv_grow [OF inv])
  show "registry_ok (sessions (st\<lparr>sessions := set_handle g (sessions st)\<rparr>))"
    using set_handle_ok [OF _ g key] inv by (simp add: server_inv_def)
  show "okeep (\<lambda>_. handle_fine (clients (st\<lparr>sessions := set_handle g (sessions st)\<rparr>)))
      (handles (sessions (st\<lparr>sessions := set_handle g (sessions st)\<rparr>)))"
    using inv fine by (simp add: server_inv_def set_handle_def okeep_set)
qed (use inv in \<open>auto simp: server_inv_def set_handle_def handle_keys_def\<close>)

text \<open>A connection has one handle, filed under the window it registered with.\<close>

lemma server_handle: "server_inv st \<Longrightarrow> oget (handles (sessions st)) k = Some h \<Longrightarrow> handle_fine (clients st) h"
  by (auto simp: server_inv_def okeep_def)

lemma handle_key_window:
  assumes "server_inv st" and "oget (handles (sessions st)) k = Some h"
  shows "\<exists>w. optWindow h = Some w \<and> k = ''chrome-window:'' @ int_text w"
proof -
  from server_handle [OF assms] obtain w where "optWindow h = Some w" "optKind h = ChromeKind"
    by (auto simp: handle_fine_def)
  moreover have "keyFor h = k" using registry_key [of "sessions st" k h] assms by (simp add: server_inv_def)
  ultimately show ?thesis by (simp add: keyFor_def)
qed

lemma one_handle_per_connection:
  assumes inv: "server_inv st" and h: "oget (handles (sessions st)) k = Some h" and g: "oget (handles (sessions st)) j = Some g"
    and c: "optConnection h = optConnection g"
  shows "k = j"
proof -
  from server_handle [OF inv h] server_handle [OF inv g] c have "optWindow h = optWindow g"
    by (simp add: handle_fine_def is_extension_def) (metis option.inject)
  moreover obtain w where "optWindow h = Some w" "k = ''chrome-window:'' @ int_text w"
    using handle_key_window [OF inv h] by blast
  moreover obtain v where "optWindow g = Some v" "j = ''chrome-window:'' @ int_text v"
    using handle_key_window [OF inv g] by blast
  ultimately show ?thesis by simp
qed

subsection \<open>What a plan means\<close>

text \<open>What the server has checked when it plans to relay a request to the extension of handle \<open>g\<close>.\<close>

definition cleared ::
  "server_config \<Rightarrow> nat set \<Rightarrow> bridge_request \<Rightarrow> nat session_registry \<Rightarrow> bridge_request \<Rightarrow> bridge_target
     \<Rightarrow> nat target_handle \<Rightarrow> bool" where
  "cleared cfg opened req0 r req target g \<longleftrightarrow>
     (\<exists>c \<in> set BridgeCommandDefinitions. cmdMethod c = reqMethod req0 \<and> cmdRoute c = ExtensionRoute)
     \<and> kind_of target = ChromeKind \<and> target = requestTarget req0
     \<and> validateParams cfg (reqMethod req0) (reqParams req0) = Inr (reqParams req)
     \<and> req = req0\<lparr>reqParams := reqParams req\<rparr>
     \<and> resolve_handle (Some target) r = Some g \<and> optConnection g \<in> opened
     \<and> (\<forall>caps \<in> set_option (optCapabilities g). reqMethod req0 \<in> set caps)"

lemma chrome_adapter:
  assumes "m \<in> set BridgeMethods" and "resolveBridgeExecution m t = ChromeAdapter"
  shows "(\<exists>c \<in> set BridgeCommandDefinitions. cmdMethod c = m \<and> cmdRoute c = ExtensionRoute) \<and> kind_of t = ChromeKind"
proof -
  from assms(1) obtain c where c: "c \<in> set BridgeCommandDefinitions" "cmdMethod c = m"
    by (auto simp: BridgeMethods_def)
  note ex = extension_commands_run_on_chrome [OF c(1)]
  from assms(2) c(2) have "\<not> isCatalogServerLocalMethod m" "kind_of t = ChromeKind"
    by (cases t; auto simp: resolveBridgeExecution_def getBridgeTargetSupport_def Let_def split: if_splits)+
  moreover from this(1) c metadata_Some [of m c] have "cmdRoute c = ExtensionRoute"
    by (cases "cmdRoute c") (auto simp: isCatalogServerLocalMethod_def)
  ultimately show ?thesis using c by blast
qed

lemma plan_extension:
  assumes plan: "plan_request cfg opened cli req0 r = (r', req, PlanExtension target h expected locked)"
  obtains g where "cleared cfg opened req0 r req target g" "locked = isCatalogWriteMethod (reqMethod req0)"
    "if locked then (\<exists>x. acquire_write g cli expected r = (r', Inr x) \<and> h = g\<lparr>handleLock := Some x\<rparr>)
     else r' = r \<and> h = g"
proof -
  have m: "reqMethod req0 \<in> set BridgeMethods"
    using plan by (auto simp: plan_request_def split: if_splits)
  from plan m obtain params where v: "validateParams cfg (reqMethod req0) (reqParams req0) = Inr params"
    by (auto simp: plan_request_def split: sum.splits)
  let ?req = "req0\<lparr>reqParams := params\<rparr>"
  have ad: "resolveBridgeExecution (reqMethod req0) (requestTarget ?req) = ChromeAdapter"
    using plan m v by (auto simp: plan_request_def Let_def split: execution_adapter.splits)
  from plan m v ad obtain g where g: "resolve_handle (Some (requestTarget ?req)) r = Some g"
    by (auto simp: plan_request_def Let_def split: option.splits)
  have o: "optConnection g \<in> opened" and caps: "\<forall>cs \<in> set_option (optCapabilities g). reqMethod req0 \<in> set cs"
    using plan m v ad g by (auto simp: plan_request_def Let_def split: if_splits)
  have t: "requestTarget ?req = requestTarget req0" by (simp add: requestTarget_def)
  let ?e = "string_field ''expectedSessionId'' params"
  have rest: "plan_request cfg opened cli req0 r = (if isCatalogWriteMethod (reqMethod req0) then
      (case acquire_write g cli ?e r of
         (r', Inl holder) \<Rightarrow> (r', ?req, PlanError (WriteLocked holder) (Some (requestTarget ?req))
           \<lparr>errorCode = WRITE_LOCKED, errorMessage = ''Another CLI currently holds the session write lock''\<rparr>)
       | (r', Inr lock) \<Rightarrow> (r', ?req, PlanExtension (requestTarget ?req) (g\<lparr>handleLock := Some lock\<rparr>) ?e True))
      else (r, ?req, PlanExtension (requestTarget ?req) g ?e False))"
    using m v ad g o caps by (auto simp: plan_request_def Let_def)
  have cl: "cleared cfg opened req0 r req target g \<and> target = requestTarget ?req \<and> req = ?req \<and> expected = ?e"
  proof -
    from plan rest have "target = requestTarget ?req \<and> req = ?req \<and> expected = ?e"
      by (auto split: if_splits prod.splits sum.splits)
    then show ?thesis using chrome_adapter [OF m ad] v g o caps t by (auto simp: cleared_def)
  qed
  show ?thesis
    by (rule that [of g]) (use plan rest cl in \<open>auto split: if_splits prod.splits sum.splits\<close>)
qed

lemma acquire_write_refused:
  assumes "registry_ok r" and "resolve_handle t r = Some g" and "acquire_write g cli e r = (r', Inl x)"
  shows "r' = r"
  using assms(3) set_handle_same [OF assms(1) resolve_handle_in [OF assms(1,2)]]
  by (auto simp: acquire_write_simp split: if_splits)

lemma plan_other:
  assumes ok: "registry_ok r" and plan: "plan_request cfg opened cli req0 r = (r', req, p)"
    and no: "\<nexists>t h e l. p = PlanExtension t h e l"
  shows "r' = r"
proof (cases "\<exists>params g. validateParams cfg (reqMethod req0) (reqParams req0) = Inr params
    \<and> resolve_handle (Some (requestTarget (req0\<lparr>reqParams := params\<rparr>))) r = Some g")
  case True
  then obtain params g where v: "validateParams cfg (reqMethod req0) (reqParams req0) = Inr params"
    and g: "resolve_handle (Some (requestTarget (req0\<lparr>reqParams := params\<rparr>))) r = Some g" by blast
  show ?thesis
  proof (cases "acquire_write g cli (string_field ''expectedSessionId'' params) r")
    case (Pair s res)
    then show ?thesis
      using plan no v g acquire_write_refused [OF ok g, of cli "string_field ''expectedSessionId'' params" s]
      by (auto simp: plan_request_def Let_def split: if_splits execution_adapter.splits sum.splits)
  qed
next
  case False
  with plan show ?thesis
    by (auto simp: plan_request_def Let_def split: if_splits execution_adapter.splits sum.splits option.splits)
qed

lemma plan_request_same:
  "plan_request cfg opened cli req0 r = (r', req, p) \<Longrightarrow> reqId req = reqId req0 \<and> reqMethod req = reqMethod req0"
  by (auto simp: plan_request_def Let_def split: if_splits execution_adapter.splits sum.splits option.splits prod.splits)

subsection \<open>Every handler keeps the invariant\<close>

lemma handle_fine_same:
  "handle_fine cs h \<Longrightarrow> (\<And>x. l = Some x \<Longrightarrow> requester cs (holderCli x)) \<Longrightarrow> handle_fine cs (h\<lparr>handleLock := l\<rparr>)"
  "handle_fine cs h \<Longrightarrow> handle_fine cs (h\<lparr>optCapabilities := c\<rparr>)"
  by (auto simp: handle_fine_def)

lemma acquire_inv:
  assumes inv: "server_inv st" and g: "oget (handles (sessions st)) k = Some g" and cli: "requester (clients st) cli"
  shows "server_inv (st\<lparr>sessions := fst (acquire_write g cli e (sessions st))\<rparr>)"
proof -
  have ok: "registry_ok (sessions st)" using inv by (simp add: server_inv_def)
  note key = registry_key [OF ok g]
  have "handle_fine (clients st) g" by (rule server_handle [OF inv g])
  then have "handle_fine (clients st) (g\<lparr>handleLock := fst (acquire cli e (handleLock g))\<rparr>)"
    by (rule handle_fine_same(1))
      (use cli server_handle [OF inv g] in \<open>auto simp: acquire_def Let_def handle_fine_def split: option.splits if_splits\<close>)
  then have "server_inv (st\<lparr>sessions := set_handle (g\<lparr>handleLock := fst (acquire cli e (handleLock g))\<rparr>) (sessions st)\<rparr>)"
    by (rule server_inv_handle [OF inv, rotated 2]) (use g key in simp_all)
  then show ?thesis by (simp add: acquire_write_def case_prod_beta)
qed

lemma relay_inv:
  assumes inv: "server_inv st" and h: "handleKey h \<in> handle_keys st"
    and cli: "case ws of None \<Rightarrow> cli = ''mcp'' | Some w \<Rightarrow> is_cli (clients st) w cli"
  shows "server_inv (fst (relay_request cli ws conn req target h st))"
proof (rule server_inv_grow [OF inv])
  fix i p assume "oget (pending (fst (relay_request cli ws conn req target h st))) i = Some p"
  then show "oget (pending st) i = Some p \<or> pending_fine (clients (fst (relay_request cli ws conn req target h st)))
      (handle_keys (fst (relay_request cli ws conn req target h st))) (nextRelay (fst (relay_request cli ws conn req target h st))) i p"
    using h cli by (cases ws) (auto simp: relay_request_def Let_def pending_fine_def split: if_splits)
qed (use inv in \<open>auto simp: relay_request_def Let_def server_inv_def\<close>)

lemma plan_relay_inv:
  assumes inv: "server_inv st" and plan: "plan_request cfg opened cli req0 (sessions st) = (r, req, p)"
    and cli: "requester (clients st) cli"
  shows "server_inv (st\<lparr>sessions := r\<rparr>)"
    and "p = PlanExtension target h e l \<Longrightarrow> handleKey h \<in> handle_keys (st\<lparr>sessions := r\<rparr>)"
proof -
  have ok: "registry_ok (sessions st)" using inv by (simp add: server_inv_def)
  have ext: "server_inv (st\<lparr>sessions := r\<rparr>) \<and> handleKey h \<in> handle_keys (st\<lparr>sessions := r\<rparr>)"
    if "p = PlanExtension target h e l" for target h e l
  proof -
    from plan_extension [OF plan [unfolded that]] obtain g where g: "cleared cfg opened req0 (sessions st) req target g"
      "if l then (\<exists>x. acquire_write g cli e (sessions st) = (r, Inr x) \<and> h = g\<lparr>handleLock := Some x\<rparr>)
       else r = sessions st \<and> h = g" by metis
    have in_r: "oget (handles (sessions st)) (handleKey g) = Some g"
      by (rule resolve_handle_in [OF ok]) (use g(1) in \<open>auto simp: cleared_def\<close>)
    show ?thesis
    proof (cases l)
      case True
      with g(2) obtain x where x: "acquire_write g cli e (sessions st) = (r, Inr x)" "h = g\<lparr>handleLock := Some x\<rparr>" by auto
      have "server_inv (st\<lparr>sessions := r\<rparr>)" using acquire_inv [OF inv in_r cli, of e] x by simp
      moreover have "handles r = oset (handleKey g) h (handles (sessions st))"
        using x by (auto simp: acquire_write_simp set_handle_def split: if_splits)
      ultimately show ?thesis using x by (simp add: handle_keys_def)
    next
      case False
      with g(2) inv handle_keys_in [OF in_r] show ?thesis by simp
    qed
  qed
  show "server_inv (st\<lparr>sessions := r\<rparr>)"
  proof (cases "\<exists>t h e l. p = PlanExtension t h e l")
    case False
    then have "r = sessions st" using plan_other [OF ok plan] by blast
    with inv show ?thesis by simp
  qed (use ext in blast)
  show "p = PlanExtension target h e l \<Longrightarrow> handleKey h \<in> handle_keys (st\<lparr>sessions := r\<rparr>)" using ext by blast
qed

lemma cli_request_inv:
  assumes inv: "server_inv st" and c: "oget (clients st) ws = Some c" "clientRole c = Some RoleCli"
  shows "server_inv (fst (handleCliRequest cfg ws c req0 st))"
proof -
  obtain r req p where plan: "plan_request cfg (openSockets st) (connectionId c) req0 (sessions st) = (r, req, p)"
    by (metis prod_cases3)
  have me: "is_cli (clients st) ws (connectionId c)" using c by (auto simp: is_cli_def)
  then have "requester (clients st) (connectionId c)" by (auto simp: requester_def)
  note pl = plan_relay_inv [OF inv plan this]
  show ?thesis
  proof (cases p)
    case (PlanExtension target h e l)
    have "server_inv (fst (relay_request (connectionId c) (Some ws) (Some (connectionId c)) req target h (st\<lparr>sessions := r\<rparr>)))"
      by (rule relay_inv [OF pl(1) pl(2) [OF PlanExtension]]) (simp add: me)
    with plan PlanExtension show ?thesis by (simp add: handleCliRequest_def Let_def)
  qed (use plan pl(1) in \<open>simp_all add: handleCliRequest_def Let_def\<close>)
qed

lemma server_inv_next: "server_inv st \<Longrightarrow> nextRelay st \<le> n \<Longrightarrow> server_inv (st\<lparr>nextRelay := n\<rparr>)"
  by (rule server_inv_grow) (auto simp: server_inv_def)

lemma mcp_request_inv:
  assumes inv: "server_inv st"
  shows "server_inv (fst (executeMcpBridgeRequest cfg m params t st))"
proof -
  let ?st1 = "st\<lparr>nextRelay := nextRelay st + 1\<rparr>"
  let ?req0 = "\<lparr>reqId = nextRelay st, reqMethod = m, reqParams = params, reqTarget = t\<rparr>"
  obtain r req p where plan: "plan_request cfg (openSockets ?st1) ''mcp'' ?req0 (sessions ?st1) = (r, req, p)"
    by (metis prod_cases3)
  have inv1: "server_inv ?st1" by (rule server_inv_next [OF inv]) simp
  have "requester (clients ?st1) ''mcp''" by (simp add: requester_def)
  note pl = plan_relay_inv [OF inv1 plan this]
  show ?thesis
  proof (cases p)
    case (PlanExtension target h e l)
    have "server_inv (fst (relay_request ''mcp'' None None req target h (?st1\<lparr>sessions := r\<rparr>)))"
      by (rule relay_inv [OF pl(1) pl(2) [OF PlanExtension]]) simp
    with plan PlanExtension show ?thesis by (simp add: executeMcpBridgeRequest_def Let_def)
  qed (use plan pl(1) in \<open>simp_all add: executeMcpBridgeRequest_def Let_def\<close>)
qed

lemma update_leases_simps [simp]:
  "sessions (updateRecordingLeasesFromResponse p v st) = sessions st"
  "clients (updateRecordingLeasesFromResponse p v st) = clients st"
  "listed (updateRecordingLeasesFromResponse p v st) = listed st"
  "openSockets (updateRecordingLeasesFromResponse p v st) = openSockets st"
  "pending (updateRecordingLeasesFromResponse p v st) = pending st"
  "nextRelay (updateRecordingLeasesFromResponse p v st) = nextRelay st"
  by (simp_all add: updateRecordingLeasesFromResponse_def registerRecordingLease_def releaseRecordingLease_def)

lemma response_inv:
  assumes inv: "server_inv st"
  shows "server_inv (fst (handleExtensionResponse cfg res st))"
proof (cases "oget (pending st) (resId res)")
  case None
  with inv show ?thesis by (simp add: handleExtensionResponse_def)
next
  case (Some p)
  let ?st1 = "st\<lparr>pending := odel (resId res) (pending st)\<rparr>"
  have inv1: "server_inv ?st1"
    by (rule server_inv_grow [OF inv]) (use inv in \<open>auto simp: server_inv_def split: if_splits\<close>)
  have fine: "pending_fine (clients st) (handle_keys st) (nextRelay st) (resId res) p"
    using inv Some by (auto simp: server_inv_def okeep_def)
  have "server_inv (updateRecordingLeasesFromResponse p v ?st1)" for v
  proof (rule server_inv_grow [OF inv1])
    fix i l assume "oget (recordings (updateRecordingLeasesFromResponse p v ?st1)) i = Some l"
    then show "oget (recordings ?st1) i = Some l \<or> lease_fine (clients (updateRecordingLeasesFromResponse p v ?st1))
        (handle_keys (updateRecordingLeasesFromResponse p v ?st1)) l"
      using fine pending_requester [OF fine]
      by (auto simp: updateRecordingLeasesFromResponse_def registerRecordingLease_def releaseRecordingLease_def
          lease_fine_def pending_fine_def split: if_splits)
  next
    show "omap_wf (recordings (updateRecordingLeasesFromResponse p v ?st1))"
      using inv by (simp add: server_inv_def updateRecordingLeasesFromResponse_def registerRecordingLease_def
          releaseRecordingLease_def)
  qed (use inv1 in \<open>simp_all add: server_inv_def handle_keys_def\<close>)
  with Some inv1 show ?thesis by (simp add: handleExtensionResponse_def Let_def split: sum.split)
qed

lemma found_handle:
  assumes inv: "server_inv st" and h: "oget (handles (sessions st)) k = Some h"
  shows "findByConnection (optConnection h) (sessions st) = Some h"
proof -
  have ok: "registry_ok (sessions st)" using inv by (simp add: server_inv_def)
  have "h \<in> set (ovals (handles (sessions st)))" using map_of_SomeD [OF h] by force
  then obtain g where g: "findByConnection (optConnection h) (sessions st) = Some g"
    by (cases "findByConnection (optConnection h) (sessions st)") (auto simp: findByConnection_def find_None_iff)
  note f = findByConnection_Some [OF g ok]
  have "k = handleKey g" by (rule one_handle_per_connection [OF inv h f(2)]) (simp add: f(1))
  with f(2) h have "g = h" by simp
  with g show ?thesis by simp
qed

lemma unregister_found:
  assumes "findByConnection ws r = Some h"
  shows "handles (fst (unregisterByConnection ws r)) = odel (handleKey h) (handles r)"
    "snd (unregisterByConnection ws r) = Some (h\<lparr>handleLock := None\<rparr>)"
  using assms by (simp_all add: unregisterByConnection_def Let_def)

lemma server_registry: "server_inv st \<Longrightarrow> registry_ok (sessions st)"
  by (simp add: server_inv_def)

lemma found_key: "server_inv st \<Longrightarrow> findByConnection ws (sessions st) = Some g \<Longrightarrow>
    optConnection g = ws \<and> oget (handles (sessions st)) (handleKey g) = Some g \<and> keyFor g = handleKey g"
  using findByConnection_Some [OF _ server_registry] registry_key [OF server_registry] by metis

lemma server_inv_clients:
  assumes "server_inv st" and "clients_le (clients st) cs" and "omap_wf cs"
  shows "server_inv (st\<lparr>clients := cs\<rparr>)"
  by (rule server_inv_grow [OF assms(1)]) (use assms handles_grow [OF assms(1,2)] in \<open>auto simp: server_inv_def\<close>)

lemma server_inv_forget_recording: "server_inv st \<Longrightarrow> server_inv (st\<lparr>recordings := odel i (recordings st)\<rparr>)"
  by (rule server_inv_grow) (auto simp: server_inv_def split: if_splits)

lemma event_inv:
  assumes inv: "server_inv st" and c: "oget (clients st) ws = Some c"
  shows "server_inv (fst (handleExtensionEvent ws c ev st))"
proof -
  define h where "h = findByConnection ws (sessions st)"
  define caps where "caps = parseCapabilitiesUpdate ev"
  define upd where "upd = (case (h, caps) of
      (Some g, Some cs) \<Rightarrow>
        if evName ev = ''capabilities_update''
        then (st\<lparr>clients := oset ws (c\<lparr>clientCapabilities := Some cs\<rparr>) (clients st),
            sessions := set_handle (g\<lparr>optCapabilities := Some cs\<rparr>) (sessions st)\<rparr>, Some (g\<lparr>optCapabilities := Some cs\<rparr>))
        else (st, h)
    | _ \<Rightarrow> (st, h))"
  obtain st1 h1 where u: "upd = (st1, h1)" by fastforce
  have fg: "optConnection g = ws \<and> oget (handles (sessions st)) (handleKey g) = Some g \<and> keyFor g = handleKey g"
    if "h = Some g" for g using found_key [OF inv] that by (simp add: h_def)
  have st1: "server_inv st1 \<and> (\<forall>g. h1 = Some g \<longrightarrow> oget (handles (sessions st1)) (handleKey g) = Some g)"
  proof (cases "\<exists>g cs. h = Some g \<and> caps = Some cs \<and> evName ev = ''capabilities_update''")
    case True
    then obtain g cs where g: "h = Some g" "caps = Some cs" "evName ev = ''capabilities_update''" by blast
    have "server_inv (st\<lparr>clients := oset ws (c\<lparr>clientCapabilities := Some cs\<rparr>) (clients st)\<rparr>)"
      by (rule server_inv_clients [OF inv]) (use c inv in \<open>auto simp: server_inv_def intro!: clients_le_set\<close>)
    note i1 = this
    have "handle_fine (oset ws (c\<lparr>clientCapabilities := Some cs\<rparr>) (clients st)) (g\<lparr>optCapabilities := Some cs\<rparr>)"
      using fg [OF g(1)] server_handle [OF i1, of "handleKey g" g] by (intro handle_fine_same(2)) simp
    then have "server_inv (st\<lparr>clients := oset ws (c\<lparr>clientCapabilities := Some cs\<rparr>) (clients st),
        sessions := set_handle (g\<lparr>optCapabilities := Some cs\<rparr>) (sessions st)\<rparr>)"
      using server_inv_handle [OF i1, of "g\<lparr>optCapabilities := Some cs\<rparr>" g] fg [OF g(1)] by simp
    moreover have "(st1, h1) = (st\<lparr>clients := oset ws (c\<lparr>clientCapabilities := Some cs\<rparr>) (clients st),
        sessions := set_handle (g\<lparr>optCapabilities := Some cs\<rparr>) (sessions st)\<rparr>, Some (g\<lparr>optCapabilities := Some cs\<rparr>))"
      using u g by (simp add: upd_def)
    ultimately show ?thesis by (simp add: set_handle_def)
  next
    case False
    then have "(st1, h1) = (st, h)" using u by (auto simp: upd_def split: option.splits)
    with inv fg show ?thesis by simp
  qed
  have final: "server_inv (case h1 of Some g \<Rightarrow>
        if evName ev = ''session_changed''
        then st2\<lparr>sessions := set_handle
          (g\<lparr>handleLock := fst (releaseForSessionChange (string_field ''sessionId'' (evData ev)) (handleLock g))\<rparr>)
          (sessions st2)\<rparr> else st2 | None \<Rightarrow> st2)"
    if i2: "server_inv st2" and same: "sessions st2 = sessions st1" for st2
  proof (cases h1)
    case None
    with i2 show ?thesis by simp
  next
    case (Some g)
    let ?g = "g\<lparr>handleLock := fst (releaseForSessionChange (string_field ''sessionId'' (evData ev)) (handleLock g))\<rparr>"
    have g: "oget (handles (sessions st2)) (handleKey g) = Some g" using st1 Some same by simp
    have "handle_fine (clients st2) ?g"
      by (rule handle_fine_same(1) [OF server_handle [OF i2 g]])
        (use server_handle [OF i2 g] in \<open>auto simp: handle_fine_def releaseForSessionChange_def split: option.splits if_splits\<close>)
    moreover have "keyFor g = handleKey g" using registry_key [OF server_registry [OF i2] g] by simp
    ultimately have "server_inv (st2\<lparr>sessions := set_handle ?g (sessions st2)\<rparr>)"
      using server_inv_handle [OF i2, of ?g g] g by simp
    with Some i2 show ?thesis by simp
  qed
  define st2 where "st2 = (case string_field ''recordingId'' (evData ev) of
      Some i \<Rightarrow>
        if (evName ev = ''record_frame'' \<or> evName ev = ''record_chunk'') \<and> i \<noteq> [] \<and> jget ''final'' (fields (evData ev)) = JBool True
        then st1\<lparr>recordings := odel i (recordings st1)\<rparr> else st1
    | None \<Rightarrow> st1)"
  have i2: "server_inv st2" "sessions st2 = sessions st1"
    using st1 server_inv_forget_recording by (auto simp: st2_def split: option.split)
  have "fst (handleExtensionEvent ws c ev st) \<in> {st, st1, (case h1 of Some g \<Rightarrow>
        if evName ev = ''session_changed''
        then st2\<lparr>sessions := set_handle
          (g\<lparr>handleLock := fst (releaseForSessionChange (string_field ''sessionId'' (evData ev)) (handleLock g))\<rparr>)
          (sessions st2)\<rparr> else st2 | None \<Rightarrow> st2)}"
    using u unfolding handleExtensionEvent_def h_def [symmetric] caps_def [symmetric] Let_def upd_def [symmetric] st2_def
    by simp
  with inv st1 final [OF i2] show ?thesis by auto
qed

lemma replace_simps [simp]:
  "clients (fst (replaceExisting w st)) = clients st" "pending (fst (replaceExisting w st)) = pending st"
  "recordings (fst (replaceExisting w st)) = recordings st" "nextRelay (fst (replaceExisting w st)) = nextRelay st"
  by (simp_all add: replaceExisting_def close_socket_def split: option.split)

lemma replace_sessions:
  assumes inv: "server_inv st"
  shows "registry_ok (sessions (fst (replaceExisting w st)))"
    and "handles (sessions (fst (replaceExisting w st))) = handles (sessions st)
      \<or> handles (sessions (fst (replaceExisting w st))) = odel (''chrome-window:'' @ int_text w) (handles (sessions st))"
proof -
  let ?k = "''chrome-window:'' @ int_text w"
  have reg: "registry_ok (sessions st)" by (rule server_registry [OF inv])
  show "registry_ok (sessions (fst (replaceExisting w st)))"
    using reg unregister_ok [OF reg] by (simp add: replaceExisting_def close_socket_def split: option.split)
  have "handles (fst (unregisterByConnection (optConnection h) (sessions st))) = odel ?k (handles (sessions st))"
    if h: "oget (handles (sessions st)) ?k = Some h" for h
    using unregister_found(1) [OF found_handle [OF inv h]] registry_key [OF reg h] by simp
  then show "handles (sessions (fst (replaceExisting w st))) = handles (sessions st)
      \<or> handles (sessions (fst (replaceExisting w st))) = odel ?k (handles (sessions st))"
    using get_handle_iff [OF reg, of ?k] by (simp add: replaceExisting_def close_socket_def split: option.split)
qed

lemma register_extension_inv:
  assumes inv: "server_inv st" and c: "oget (clients st) ws = Some c" "clientRole c = None"
  shows "server_inv (fst (registerExtension ws c msg m w session caps st))"
proof (rule server_inv_grow [OF inv])
  let ?k = "''chrome-window:'' @ int_text w"
  let ?r1 = "sessions (fst (replaceExisting w st))"
  define c' where "c' = c\<lparr>clientRole := Some RoleExtension, clientWindow := Some w, clientSession := session,
      clientCapabilities := Some caps, clientVersion := regVersion msg, clientMinVersion := m, clientApp := Some (regApp msg)\<rparr>"
  define options where "options = \<lparr>optKind = ChromeKind, optConnection = ws, optWindow = Some w, optSession = session,
      optCapabilities = Some caps, optVersion = regVersion msg, optApp = Some (regApp msg), optRemote = Some (remoteAddress c)\<rparr>"
  define st2 where "st2 = fst (registerExtension ws c msg m w session caps st)"
  have st2: "sessions st2 = register_handle options ?r1" "clients st2 = oset ws c' (clients st)"
    "pending st2 = pending st" "recordings st2 = recordings st" "nextRelay st2 = nextRelay st"
    by (simp_all add: st2_def registerExtension_def c'_def options_def Let_def case_prod_beta)
  note r1 = replace_sessions [OF inv, of w]
  have kf: "keyFor options = ?k" by (simp add: keyFor_def options_def)
  have hs: "handles (sessions st2) = oset ?k (handle_of ?k options) (handles ?r1)"
    by (simp add: st2 register_handle_def Let_def kf)
  have le: "clients_le (clients st) (clients st2)" unfolding st2(2) by (rule clients_le_set) (use c in auto)
  have new: "handle_fine (clients st2) (handle_of ?k options)"
    by (simp add: handle_fine_def handle_of_def is_extension_def st2 options_def c'_def)
  have "okeep (\<lambda>_. handle_fine (clients st2)) (handles ?r1)"
    using handles_grow [OF inv le] r1(2) by (auto intro: okeep_del)
  then have "okeep (\<lambda>_. handle_fine (clients st2)) (handles (sessions st2))" unfolding hs using new by (rule okeep_set)
  moreover have "handle_keys st \<subseteq> handle_keys st2"
    using r1(2) unfolding handle_keys_def hs by (elim disjE) (simp only: okeys_update okeys_delete, blast)+
  moreover have "registry_ok (sessions st2)" unfolding st2(1) by (rule register_ok [OF r1(1)])
  ultimately show "registry_ok (sessions (fst (registerExtension ws c msg m w session caps st)))"
    "okeep (\<lambda>_. handle_fine (clients (fst (registerExtension ws c msg m w session caps st))))
       (handles (sessions (fst (registerExtension ws c msg m w session caps st))))"
    "handle_keys st \<subseteq> handle_keys (fst (registerExtension ws c msg m w session caps st))"
    "clients_le (clients st) (clients (fst (registerExtension ws c msg m w session caps st)))"
    using le by (simp_all add: st2_def)
  show "omap_wf (clients (fst (registerExtension ws c msg m w session caps st)))"
    "nextRelay st \<le> nextRelay (fst (registerExtension ws c msg m w session caps st))"
    "omap_wf (pending (fst (registerExtension ws c msg m w session caps st)))"
    "omap_wf (recordings (fst (registerExtension ws c msg m w session caps st)))"
    using inv st2 by (simp_all add: st2_def [symmetric] server_inv_def)
qed (simp_all add: registerExtension_def Let_def case_prod_beta)

lemma server_inv_sockets: "server_inv st \<Longrightarrow> server_inv (st\<lparr>openSockets := os\<rparr>)" "server_inv st \<Longrightarrow> server_inv (st\<lparr>listed := ls\<rparr>)"
  by (simp_all add: server_inv_def)

lemma registration_inv:
  assumes inv: "server_inv st" and c: "oget (clients st) ws = Some c" "clientRole c = None"
  shows "server_inv (fst (handleRegistration cfg ws c msg st))"
proof -
  have "clients_le (clients st) (oset ws c' (clients st))" for c' by (rule clients_le_set) (use c in auto)
  then have "server_inv (st\<lparr>clients := oset ws c' (clients st)\<rparr>)" for c'
    by (rule server_inv_clients [OF inv]) (use inv in \<open>simp add: server_inv_def\<close>)
  with register_extension_inv [OF inv c] server_inv_sockets [OF inv] inv show ?thesis
    by (simp add: handleRegistration_def Let_def close_socket_def split: peer_role.split)
qed

lemma is_cli_delete [simp]: "is_cli (odel ws cs) v cid \<longleftrightarrow> v \<noteq> ws \<and> is_cli cs v cid"
  by (simp add: is_cli_def)

lemma is_extension_delete [simp]: "is_extension (odel ws cs) v w \<longleftrightarrow> v \<noteq> ws \<and> is_extension cs v w"
  by (simp add: is_extension_def)

lemma requester_delete:
  assumes "oget cs ws = Some c" and "requester cs cid" and "clientRole c = Some RoleCli \<Longrightarrow> cid \<noteq> connectionId c"
  shows "requester (odel ws cs) cid"
proof (cases "cid = ''mcp''")
  case False
  with assms(2) obtain v where v: "is_cli cs v cid" by (auto simp: requester_def)
  with assms(1,3) have "v \<noteq> ws" by (auto simp: is_cli_def)
  with v show ?thesis by (auto simp: requester_def)
qed (simp add: requester_def)

lemma stop_lease_simps [simp]:
  "sessions (fst (stop_lease i l st)) = sessions st" "clients (fst (stop_lease i l st)) = clients st"
  "pending (fst (stop_lease i l st)) = pending st" "openSockets (fst (stop_lease i l st)) = openSockets st"
  "listed (fst (stop_lease i l st)) = listed st" "recordings (fst (stop_lease i l st)) = odel i (recordings st)"
  by (simp_all add: stop_lease_def Let_def split: option.split)

lemma stop_lease_next: "nextRelay st \<le> nextRelay (fst (stop_lease i l st))"
  by (simp add: stop_lease_def Let_def split: option.split)

lemma stop_leases_fst: "fst (stop_leases ls st) = fold (\<lambda>(i, l) st. fst (stop_lease i l st)) ls st"
  by (induction ls arbitrary: st) (auto simp: case_prod_beta)

lemma stop_leases_simps [simp]:
  "sessions (fst (stop_leases ls st)) = sessions st" "clients (fst (stop_leases ls st)) = clients st"
  "pending (fst (stop_leases ls st)) = pending st" "openSockets (fst (stop_leases ls st)) = openSockets st"
  "listed (fst (stop_leases ls st)) = listed st"
  unfolding stop_leases_fst by (induction ls arbitrary: st) auto

lemma stop_leases_next: "nextRelay st \<le> nextRelay (fst (stop_leases ls st))"
  unfolding stop_leases_fst
proof (induction ls arbitrary: st)
  case (Cons a ls)
  obtain i l where a: "a = (i, l)" by fastforce
  from Cons [of "fst (stop_lease i l st)"] stop_lease_next [of st i l] show ?case by (simp add: a)
qed simp

lemma stop_leases_recordings:
  "oget (recordings (fst (stop_leases ls st))) i = (if i \<in> fst ` set ls then None else oget (recordings st) i)"
  unfolding stop_leases_fst by (induction ls arbitrary: st) auto

lemma stop_leases_wf: "omap_wf (recordings st) \<Longrightarrow> omap_wf (recordings (fst (stop_leases ls st)))"
  unfolding stop_leases_fst by (induction ls arbitrary: st) auto

lemma okeep_filter: "omap_wf m \<Longrightarrow> okeep P m \<Longrightarrow> (\<And>k v. P k v \<Longrightarrow> Q (k, v) \<Longrightarrow> P' k v) \<Longrightarrow> okeep P' (filter Q m)"
  unfolding okeep_def by (auto simp: oget_filter split: option.splits if_splits)

lemma extension_disconnect_inv:
  assumes inv: "server_inv st" and c: "oget (clients st) ws = Some c" "clientRole c = Some RoleExtension"
  shows "server_inv (fst (handleDisconnect ws c (st\<lparr>clients := odel ws (clients st), openSockets := os\<rparr>)))"
proof -
  have reg: "registry_ok (sessions st)" by (rule server_registry [OF inv])
  have not_cli: "\<not> is_cli (clients st) ws cid" for cid using c by (simp add: is_cli_def)
  have req: "requester (clients st) cid \<Longrightarrow> requester (odel ws (clients st)) cid" for cid
    by (rule requester_delete [OF c(1)]) (use c in simp_all)
  have hf: "handle_fine (clients st) h \<Longrightarrow> optConnection h \<noteq> ws \<Longrightarrow> handle_fine (odel ws (clients st)) h" for h
    by (auto simp: handle_fine_def req)
  have pf: "pending_fine (clients st) ks n i p \<Longrightarrow> pendingHandle p \<noteq> Some k \<Longrightarrow>
      pending_fine (odel ws (clients st)) (ks - {k}) n i p" for ks n i p k
    using not_cli by (auto simp: pending_fine_def split: option.splits)
  have pf': "pending_fine (clients st) ks n i p \<Longrightarrow> pending_fine (odel ws (clients st)) ks n i p" for ks n i p
    using not_cli by (auto simp: pending_fine_def split: option.splits)
  have lf: "lease_fine (clients st) ks l \<Longrightarrow> leaseHandle l \<noteq> Some k \<Longrightarrow>
      lease_fine (odel ws (clients st)) (ks - {k}) l" for ks l k by (auto simp: lease_fine_def req)
  have lf': "lease_fine (clients st) ks l \<Longrightarrow> lease_fine (odel ws (clients st)) ks l" for ks l
    by (auto simp: lease_fine_def req)
  from inv have parts: "okeep (\<lambda>_. handle_fine (clients st)) (handles (sessions st))"
    "okeep (pending_fine (clients st) (handle_keys st) (nextRelay st)) (pending st)"
    "okeep (\<lambda>_. lease_fine (clients st) (handle_keys st)) (recordings st)"
    "omap_wf (clients st)" "omap_wf (pending st)" "omap_wf (recordings st)" by (simp_all add: server_inv_def)
  show ?thesis
  proof (cases "findByConnection ws (sessions st)")
    case None
    have "optConnection h \<noteq> ws" if "oget (handles (sessions st)) k = Some h" for k h
      using found_handle [OF inv that] None by auto
    then have "okeep (\<lambda>_. handle_fine (odel ws (clients st))) (handles (sessions st))"
      using parts(1) hf unfolding okeep_def by blast
    with None reg parts(4-6) okeep_mono [OF parts(2) pf'] okeep_mono [OF parts(3) lf'] c(2) show ?thesis
      by (simp add: handleDisconnect_def unregisterByConnection_def server_inv_def)
  next
    case (Some h)
    let ?k = "handleKey h"
    note f = found_key [OF inv Some] and u = unregister_found [OF Some]
    have keys: "handle_keys (st\<lparr>sessions := fst (unregisterByConnection ws (sessions st))\<rparr>) = handle_keys st - {?k}"
      by (simp add: handle_keys_def u(1))
    have "optConnection g \<noteq> ws" if "oget (handles (sessions st)) j = Some g" "j \<noteq> ?k" for j g
      using one_handle_per_connection [OF inv that(1), of ?k h] f that(2) by auto
    then have hs: "okeep (\<lambda>_. handle_fine (odel ws (clients st))) (odel ?k (handles (sessions st)))"
      using parts(1) hf by (simp add: okeep_def)
    have ps: "okeep (pending_fine (odel ws (clients st)) (handle_keys st - {?k}) (nextRelay st))
        (filter (\<lambda>(_, p). pendingHandle p \<noteq> Some ?k) (pending st))"
      by (rule okeep_filter [OF parts(5,2)]) (use pf in simp)
    have ls: "okeep (\<lambda>_. lease_fine (odel ws (clients st)) (handle_keys st - {?k}))
        (filter (\<lambda>(_, l). leaseHandle l \<noteq> Some ?k) (recordings st))"
      by (rule okeep_filter [OF parts(6,3)]) (use lf in simp)
    define st' where "st' = fst (handleDisconnect ws c (st\<lparr>clients := odel ws (clients st), openSockets := os\<rparr>))"
    have st': "sessions st' = fst (unregisterByConnection ws (sessions st))" "clients st' = odel ws (clients st)"
      "pending st' = filter (\<lambda>(_, p). pendingHandle p \<noteq> Some ?k) (pending st)" "nextRelay st' = nextRelay st"
      "recordings st' = filter (\<lambda>(_, l). leaseHandle l \<noteq> Some ?k) (recordings st)"
      unfolding st'_def using c(2) u(2)
      by (cases "unregisterByConnection ws (sessions st)"; simp add: handleDisconnect_def extension_disconnected_def Let_def)+
    have "handle_keys st' = handle_keys st - {?k}" using keys st'(1) by (simp add: handle_keys_def)
    then have "server_inv st'"
      using hs ps ls parts unregister_ok [OF reg] by (simp add: server_inv_def st' u(1))
    then show ?thesis by (simp add: st'_def)
  qed
qed

lemma cli_disconnect_inv:
  assumes inv: "server_inv st" and c: "oget (clients st) ws = Some c" "clientRole c = Some RoleCli"
  shows "server_inv (fst (handleDisconnect ws c (st\<lparr>clients := odel ws (clients st), openSockets := os\<rparr>)))"
proof -
  let ?cid = "connectionId c"
  have req: "requester (clients st) cid \<Longrightarrow> cid \<noteq> ?cid \<Longrightarrow> requester (odel ws (clients st)) cid" for cid
    by (rule requester_delete [OF c(1)])
  from inv have parts: "okeep (\<lambda>_. handle_fine (clients st)) (handles (sessions st))"
    "okeep (pending_fine (clients st) (handle_keys st) (nextRelay st)) (pending st)"
    "okeep (\<lambda>_. lease_fine (clients st) (handle_keys st)) (recordings st)"
    "omap_wf (clients st)" "omap_wf (pending st)" "omap_wf (recordings st)" by (simp_all add: server_inv_def)
  define st' where "st' = fst (handleDisconnect ws c (st\<lparr>clients := odel ws (clients st), openSockets := os\<rparr>))"
  define mine where "mine = filter (\<lambda>(_, l). leaseCli l = ?cid) (recordings st)"
  define st1 where "st1 = st\<lparr>clients := odel ws (clients st), openSockets := os, listed := removeAll ws (listed st),
      sessions := fst (releaseLocksForCli ?cid (sessions st))\<rparr>"
  have "st' = (fst (stop_leases mine st1))\<lparr>pending := filter (\<lambda>(_, p). pendingCli p \<noteq> ?cid) (pending st)\<rparr>"
    using c(2) by (simp add: st'_def st1_def mine_def handleDisconnect_def cli_disconnected_def stopRecordingLeasesForCli_def
        Let_def case_prod_beta)
  then have st': "sessions st' = fst (releaseLocksForCli ?cid (sessions st))" "clients st' = odel ws (clients st)"
    "pending st' = filter (\<lambda>(_, p). pendingCli p \<noteq> ?cid) (pending st)"
    "recordings st' = recordings (fst (stop_leases mine st1))" "nextRelay st' = nextRelay (fst (stop_leases mine st1))"
    by (simp_all add: st1_def)
  have n: "nextRelay st \<le> nextRelay st'" using stop_leases_next [of st1 mine] by (simp add: st' st1_def)
  have hk: "handle_keys st' = handle_keys st"
    unfolding handle_keys_def st' by (simp add: releaseLocksForCli_def image_image case_prod_beta)
  have hs: "okeep (\<lambda>_. handle_fine (odel ws (clients st))) (handles (fst (releaseLocksForCli ?cid (sessions st))))"
    unfolding okeep_def
  proof (intro allI impI)
    fix k h assume "oget (handles (fst (releaseLocksForCli ?cid (sessions st)))) k = Some h"
    then obtain g where g: "oget (handles (sessions st)) k = Some g"
      "h = (if held_by ?cid g then g\<lparr>handleLock := None\<rparr> else g)" by (auto simp: releaseLocksForCli_def map_locks)
    have fine: "handle_fine (clients st) g" by (rule okeep_get [OF parts(1) g(1)])
    then have "optConnection g \<noteq> ws" using c by (auto simp: handle_fine_def is_extension_def)
    with fine g(2) show "handle_fine (odel ws (clients st)) h"
      by (auto simp: handle_fine_def held_by_def req split: option.splits)
  qed
  have pe: "pending_fine (odel ws (clients st)) (handle_keys st) (nextRelay st') i p"
    if fine: "pending_fine (clients st) (handle_keys st) (nextRelay st) i p" and ne: "pendingCli p \<noteq> ?cid" for i p
  proof -
    have "v \<noteq> ws" if "is_cli (clients st) v (pendingCli p)" for v using that c ne by (auto simp: is_cli_def)
    with fine n show ?thesis by (auto simp: pending_fine_def split: option.splits)
  qed
  have ps: "okeep (pending_fine (odel ws (clients st)) (handle_keys st) (nextRelay st')) (pending st')"
    unfolding st'(3) by (rule okeep_filter [OF parts(5,2)]) (use pe in simp)
  have ls: "okeep (\<lambda>_. lease_fine (odel ws (clients st)) (handle_keys st)) (recordings st')"
    unfolding okeep_def
  proof (intro allI impI)
    fix i l assume "oget (recordings st') i = Some l"
    then have l: "oget (recordings st) i = Some l" "i \<notin> fst ` set mine"
      by (auto simp: st'(4) stop_leases_recordings st1_def split: if_splits)
    then have "leaseCli l \<noteq> ?cid" using map_of_SomeD [OF l(1)] by (force simp: mine_def)
    with okeep_get [OF parts(3) l(1)] show "lease_fine (odel ws (clients st)) (handle_keys st) l"
      by (auto simp: lease_fine_def req)
  qed
  have "omap_wf (recordings st')" using parts(6) by (simp add: st'(4) stop_leases_wf st1_def)
  with hs ps ls hk parts release_cli_ok [OF server_registry [OF inv]] have "server_inv st'"
    by (simp add: server_inv_def st'(1-3))
  then show ?thesis by (simp add: st'_def)
qed

lemma unregistered_disconnect_inv:
  assumes inv: "server_inv st" and c: "oget (clients st) ws = Some c" "clientRole c = None"
  shows "server_inv (fst (handleDisconnect ws c (st\<lparr>clients := odel ws (clients st), openSockets := os\<rparr>)))"
proof -
  have "clients_le (clients st) (odel ws (clients st))" using c by (auto simp: clients_le_def)
  from server_inv_clients [OF inv this] have "server_inv (st\<lparr>clients := odel ws (clients st)\<rparr>)"
    using inv by (simp add: server_inv_def)
  from server_inv_sockets(2) [OF server_inv_sockets(1) [OF this]] c show ?thesis by (simp add: handleDisconnect_def)
qed

lemma message_inv:
  assumes inv: "server_inv st" and c: "oget (clients st) ws = Some c"
  shows "server_inv (fst (handleMessage cfg ws c msg st))"
  using inv registration_inv [OF inv c] cli_request_inv [OF inv c] response_inv [OF inv] event_inv [OF inv c]
  by (auto simp: handleMessage_def split: option.split client_role.split client_message.split)

lemma server_step_inv:
  assumes inv: "server_inv st"
  shows "server_inv (fst (server_step cfg op st))"
proof (cases op)
  case (Connect ws cid remote)
  have "server_inv (st\<lparr>clients := oset ws (new_client cid remote) (clients st)\<rparr>)" if "oget (clients st) ws = None"
    by (rule server_inv_clients [OF inv clients_le_set]) (use inv that in \<open>auto simp: server_inv_def\<close>)
  from server_inv_sockets(1) [OF server_inv_sockets(2) [OF this]] inv Connect show ?thesis
    by (simp add: server_step_def)
next
  case (Message ws msg)
  with inv message_inv [OF inv] show ?thesis by (auto simp: server_step_def split: option.split)
next
  case (RegisterTimeout ws)
  with inv server_inv_sockets(1) [OF inv] show ?thesis
    by (auto simp: server_step_def close_socket_def split: option.split)
next
  case (Closing ws)
  with server_inv_sockets(1) [OF inv] show ?thesis by (simp add: server_step_def)
next
  case (Closed ws)
  show ?thesis
  proof (cases "oget (clients st) ws")
    case None
    with Closed inv show ?thesis by (simp add: server_step_def)
  next
    case (Some c)
    then show ?thesis
      using Closed extension_disconnect_inv [OF inv Some] cli_disconnect_inv [OF inv Some]
        unregistered_disconnect_inv [OF inv Some]
      by (cases "clientRole c"; cases "the (clientRole c)") (simp_all add: server_step_def)
  qed
next
  case (McpRequest m params t)
  with inv mcp_request_inv [OF inv] show ?thesis by (simp add: server_step_def)
qed

text \<open>The server is a machine that keeps its invariant.\<close>

interpretation bridge_server: invariant_machine "\<lambda>op st. fst (server_step cfg op st)" server_inv for cfg
  by unfold_locales (rule server_step_inv)

definition server_run :: "server_config \<Rightarrow> server_op list \<Rightarrow> server_state \<Rightarrow> server_state" where
  "server_run cfg ops st = fold (\<lambda>op st. fst (server_step cfg op st)) ops st"

lemma server_run_inv: "server_inv st \<Longrightarrow> server_inv (server_run cfg ops st)"
  unfolding server_run_def by (rule bridge_server.run_inv)

subsection \<open>What happens to the pending requests\<close>

text \<open>
  The three ends of a pending request: the extension's response to it, the loss of the extension it
  waits for, the loss of the client that made it. \<open>fate\<close> is what a step does to the request \<open>n\<close>.
\<close>

definition response_ends :: "server_op \<Rightarrow> server_state \<Rightarrow> int \<Rightarrow> bool" where
  "response_ends op st n \<longleftrightarrow> (\<exists>ws c res. op = Message ws (ResponseMsg res) \<and> oget (clients st) ws = Some c
     \<and> clientRole c = Some RoleExtension \<and> resId res = n)"

definition extension_ends :: "server_op \<Rightarrow> server_state \<Rightarrow> pending_request \<Rightarrow> bool" where
  "extension_ends op st p \<longleftrightarrow> (\<exists>ws c h. op = Closed ws \<and> oget (clients st) ws = Some c
     \<and> clientRole c = Some RoleExtension \<and> findByConnection ws (sessions st) = Some h
     \<and> pendingHandle p = Some (handleKey h))"

definition client_ends :: "server_op \<Rightarrow> server_state \<Rightarrow> pending_request \<Rightarrow> bool" where
  "client_ends op st p \<longleftrightarrow> (\<exists>ws c. op = Closed ws \<and> oget (clients st) ws = Some c
     \<and> clientRole c = Some RoleCli \<and> connectionId c = pendingCli p)"

lemma relay_pending:
  "oget (pending (fst (relay_request cli ws conn req t h st))) n =
     (if n = nextRelay st then oget (pending (fst (relay_request cli ws conn req t h st))) n else oget (pending st) n)"
  "nextRelay (fst (relay_request cli ws conn req t h st)) = nextRelay st + 1"
  by (simp_all add: relay_request_def Let_def)

lemma cli_request_pending:
  "nextRelay st \<le> nextRelay (fst (handleCliRequest cfg ws c req0 st))"
  "n < nextRelay st \<Longrightarrow> oget (pending (fst (handleCliRequest cfg ws c req0 st))) n = oget (pending st) n"
  "oget (pending (fst (handleCliRequest cfg ws c req0 st))) n = Some p \<Longrightarrow> oget (pending st) n = Some p \<or> n = nextRelay st"
proof -
  obtain r req pl where plan: "plan_request cfg (openSockets st) (connectionId c) req0 (sessions st) = (r, req, pl)"
    by (metis prod_cases3)
  show "nextRelay st \<le> nextRelay (fst (handleCliRequest cfg ws c req0 st))"
    "n < nextRelay st \<Longrightarrow> oget (pending (fst (handleCliRequest cfg ws c req0 st))) n = oget (pending st) n"
    "oget (pending (fst (handleCliRequest cfg ws c req0 st))) n = Some p \<Longrightarrow> oget (pending st) n = Some p \<or> n = nextRelay st"
    using plan by (cases pl; simp add: handleCliRequest_def relay_request_def Let_def split: if_splits)+
qed

lemma mcp_request_pending:
  "nextRelay st \<le> nextRelay (fst (executeMcpBridgeRequest cfg m ps t st))"
  "n < nextRelay st \<Longrightarrow> oget (pending (fst (executeMcpBridgeRequest cfg m ps t st))) n = oget (pending st) n"
  "oget (pending (fst (executeMcpBridgeRequest cfg m ps t st))) n = Some p \<Longrightarrow> oget (pending st) n = Some p \<or> n = nextRelay st + 1"
proof -
  let ?st1 = "st\<lparr>nextRelay := nextRelay st + 1\<rparr>"
  let ?req0 = "\<lparr>reqId = nextRelay st, reqMethod = m, reqParams = ps, reqTarget = t\<rparr>"
  obtain r req pl where plan: "plan_request cfg (openSockets ?st1) ''mcp'' ?req0 (sessions ?st1) = (r, req, pl)"
    by (metis prod_cases3)
  show "nextRelay st \<le> nextRelay (fst (executeMcpBridgeRequest cfg m ps t st))"
    "n < nextRelay st \<Longrightarrow> oget (pending (fst (executeMcpBridgeRequest cfg m ps t st))) n = oget (pending st) n"
    "oget (pending (fst (executeMcpBridgeRequest cfg m ps t st))) n = Some p \<Longrightarrow> oget (pending st) n = Some p \<or> n = nextRelay st + 1"
    using plan by (cases pl; simp add: executeMcpBridgeRequest_def relay_request_def Let_def split: if_splits)+
qed

lemma event_pending [simp]:
  "pending (fst (handleExtensionEvent ws c ev st)) = pending st"
  "nextRelay (fst (handleExtensionEvent ws c ev st)) = nextRelay st"
  by (auto simp: handleExtensionEvent_def Let_def case_prod_beta split: option.split)

lemma registration_pending [simp]:
  "pending (fst (handleRegistration cfg ws c reg st)) = pending st"
  "nextRelay (fst (handleRegistration cfg ws c reg st)) = nextRelay st"
  by (auto simp: handleRegistration_def registerExtension_def close_socket_def Let_def case_prod_beta split: peer_role.split)

lemma response_pending [simp]:
  "pending (fst (handleExtensionResponse cfg res st)) =
     (if oget (pending st) (resId res) = None then pending st else odel (resId res) (pending st))"
  "nextRelay (fst (handleExtensionResponse cfg res st)) = nextRelay st"
  by (auto simp: handleExtensionResponse_def Let_def case_prod_beta split: option.split sum.split)

lemma extension_disconnected_simps [simp]:
  "pending (fst (extension_disconnected k st)) = filter (\<lambda>(_, p). pendingHandle p \<noteq> Some k) (pending st)"
  "nextRelay (fst (extension_disconnected k st)) = nextRelay st"
  by (simp_all add: extension_disconnected_def Let_def)

lemma cli_disconnected_simps [simp]:
  "pending (fst (cli_disconnected cli st)) = filter (\<lambda>(_, p). pendingCli p \<noteq> cli) (pending st)"
  by (simp add: cli_disconnected_def stopRecordingLeasesForCli_def Let_def case_prod_beta)

lemma cli_disconnected_next: "nextRelay st \<le> nextRelay (fst (cli_disconnected cli st))"
  using stop_leases_next [of "st\<lparr>sessions := fst (releaseLocksForCli cli (sessions st))\<rparr>"]
  by (simp add: cli_disconnected_def stopRecordingLeasesForCli_def Let_def case_prod_beta)

lemma disconnect_next: "nextRelay st \<le> nextRelay (fst (handleDisconnect ws c st))"
  using cli_disconnected_next [of "st\<lparr>listed := removeAll ws (listed st)\<rparr>" "connectionId c"]
  by (auto simp: handleDisconnect_def Let_def split: option.split client_role.split prod.split)

lemma disconnect_pending:
  assumes "omap_wf (pending st)"
  shows "oget (pending (fst (handleDisconnect ws c st))) n = Some p \<Longrightarrow> oget (pending st) n = Some p"
    and "oget (pending st) n = Some p \<Longrightarrow> oget (pending (fst (handleDisconnect ws c st))) n = None \<Longrightarrow>
      (clientRole c = Some RoleExtension \<and> (\<exists>h. findByConnection ws (sessions st) = Some h \<and> pendingHandle p = Some (handleKey h)))
      \<or> (clientRole c = Some RoleCli \<and> connectionId c = pendingCli p)"
proof -
  consider (none) "clientRole c = None" | (cli) "clientRole c = Some RoleCli"
    | (lost) h where "clientRole c = Some RoleExtension" "findByConnection ws (sessions st) = Some h"
    | (ext) "clientRole c = Some RoleExtension" "findByConnection ws (sessions st) = None"
    by (cases "clientRole c"; cases "the (clientRole c)"; cases "findByConnection ws (sessions st)") auto
  then have "(oget (pending (fst (handleDisconnect ws c st))) n = Some p \<longrightarrow> oget (pending st) n = Some p)
    \<and> (oget (pending st) n = Some p \<longrightarrow> oget (pending (fst (handleDisconnect ws c st))) n = None \<longrightarrow>
      (clientRole c = Some RoleExtension \<and> (\<exists>h. findByConnection ws (sessions st) = Some h \<and> pendingHandle p = Some (handleKey h)))
      \<or> (clientRole c = Some RoleCli \<and> connectionId c = pendingCli p))"
  proof cases
    case (lost h)
    then show ?thesis using assms
      by (auto simp: handleDisconnect_def unregisterByConnection_def Let_def oget_filter split: option.splits if_splits)
  next
    case ext
    then show ?thesis by (auto simp: handleDisconnect_def unregisterByConnection_def)
  qed (use assms in \<open>auto simp: handleDisconnect_def oget_filter split: option.splits if_splits\<close>)
  then show "oget (pending (fst (handleDisconnect ws c st))) n = Some p \<Longrightarrow> oget (pending st) n = Some p"
    "oget (pending st) n = Some p \<Longrightarrow> oget (pending (fst (handleDisconnect ws c st))) n = None \<Longrightarrow>
      (clientRole c = Some RoleExtension \<and> (\<exists>h. findByConnection ws (sessions st) = Some h \<and> pendingHandle p = Some (handleKey h)))
      \<or> (clientRole c = Some RoleCli \<and> connectionId c = pendingCli p)" by blast+
qed

text \<open>Relay identities only grow: a request that is pending was pending before or has a new identity.\<close>

definition relays_le :: "server_state \<Rightarrow> server_state \<Rightarrow> bool" where
  "relays_le st st' \<longleftrightarrow> nextRelay st \<le> nextRelay st'
     \<and> (\<forall>n p. oget (pending st') n = Some p \<longrightarrow> oget (pending st) n = Some p \<or> nextRelay st \<le> n)"

lemma relays_le_same [simp]: "pending st' = pending st \<Longrightarrow> nextRelay st' = nextRelay st \<Longrightarrow> relays_le st st'"
  by (simp add: relays_le_def)

lemma message_relays: "relays_le st (fst (handleMessage cfg ws c msg st))"
proof -
  have a: "relays_le st (fst (handleCliRequest cfg ws c req st))" for req
    unfolding relays_le_def
    using cli_request_pending(1) [where st = st and cfg = cfg and ws = ws and c = c and ?req0.0 = req]
      cli_request_pending(3) [where st = st and cfg = cfg and ws = ws and c = c and ?req0.0 = req] by fastforce
  have b: "relays_le st (fst (handleExtensionResponse cfg res st))" for res
    by (auto simp: relays_le_def split: if_splits)
  show ?thesis using a b
    by (auto simp: handleMessage_def split: option.split client_role.split client_message.split)
qed

lemma step_relays:
  assumes "server_inv st"
  shows "relays_le st (fst (server_step cfg op st))"
proof (cases op)
  case (Message ws msg)
  then show ?thesis using message_relays by (auto simp: server_step_def split: option.split)
next
  case (Closed ws)
  have "relays_le st (fst (handleDisconnect ws c (st\<lparr>clients := odel ws (clients st), openSockets := openSockets st - {ws}\<rparr>)))" for c
    using disconnect_next [of "st\<lparr>clients := odel ws (clients st), openSockets := openSockets st - {ws}\<rparr>" ws c]
      disconnect_pending(1) [of "st\<lparr>clients := odel ws (clients st), openSockets := openSockets st - {ws}\<rparr>" ws c] assms
    by (auto simp: relays_le_def server_inv_def)
  with Closed show ?thesis by (auto simp: server_step_def split: option.split)
next
  case (McpRequest m ps t)
  have "relays_le st (fst (executeMcpBridgeRequest cfg m ps t st))"
    unfolding relays_le_def
    using mcp_request_pending(1) [where st = st and cfg = cfg and m = m and ps = ps and t = t]
      mcp_request_pending(3) [where st = st and cfg = cfg and m = m and ps = ps and t = t] by fastforce
  with McpRequest show ?thesis by (auto simp: server_step_def)
qed (auto simp: server_step_def close_socket_def split: option.split)

lemma relays_le_trans: "relays_le s t \<Longrightarrow> relays_le t u \<Longrightarrow> relays_le s u"
  unfolding relays_le_def by (meson order_trans)

interpretation relay_server: monotone_machine "\<lambda>op st. fst (server_step cfg op st)" server_inv relays_le for cfg
  by unfold_locales (use step_relays relays_le_trans in \<open>auto\<close>)

end
