(* ===== verification/BridgeGuarantees.thy ===== *)
theory BridgeGuarantees
  imports BridgeServer
begin

section \<open>The bridge server: what its clients may rely on\<close>

text \<open>
  The guarantees of the bridge server over its whole runs (\<open>server_run\<close> from \<open>new_server\<close>) and over
  single steps of a state that keeps its invariant: who owns what, what happens to a relayed
  request, what a request must pass before it is relayed, and when the writer lease of a browser
  window changes hands. Two facts at the end record how the code fails what it means to do.
\<close>

subsection \<open>Ownership\<close>

lemma reachable_inv: "server_inv (server_run cfg ops new_server)"
  by (rule server_run_inv [OF new_server_inv])


subsection \<open>The fate of a relayed request\<close>

lemma step_pending:
  assumes inv: "server_inv st" and p: "oget (pending st) n = Some p"
    and gone: "oget (pending (fst (server_step cfg op st))) n \<noteq> Some p"
  shows "response_ends op st n \<or> extension_ends op st p \<or> client_ends op st p"
proof -
  have lt: "n < nextRelay st" using inv p by (auto simp: server_inv_def okeep_def pending_fine_def)
  show ?thesis
  proof (cases op)
    case (Connect ws cid remote)
    with p gone show ?thesis by (simp add: server_step_def split: if_splits)
  next
    case (RegisterTimeout ws)
    with p gone show ?thesis
      by (cases "oget (clients st) ws") (simp_all add: server_step_def close_socket_def Let_def split: if_splits)
  next
    case (Closing ws)
    with p gone show ?thesis by (simp add: server_step_def)
  next
    case (McpRequest m ps t)
    with p gone mcp_request_pending(2) [OF lt, where cfg = cfg and m = m and ps = ps and t = t] show ?thesis
      by (simp add: server_step_def split: if_splits)
  next
    case (Closed ws)
    show ?thesis
    proof (cases "oget (clients st) ws")
      case None
      with Closed p gone show ?thesis by (simp add: server_step_def)
    next
      case (Some c)
      let ?st = "st\<lparr>clients := odel ws (clients st), openSockets := openSockets st - {ws}\<rparr>"
      have wf: "omap_wf (pending ?st)" using inv by (simp add: server_inv_def)
      have "oget (pending (fst (handleDisconnect ws c ?st))) n \<noteq> Some p"
        using gone Closed Some by (simp add: server_step_def)
      moreover have "oget (pending (fst (handleDisconnect ws c ?st))) n = None"
        using calculation disconnect_pending(1) [OF wf, of ws c n] p
        by (cases "oget (pending (fst (handleDisconnect ws c ?st))) n") simp_all
      ultimately show ?thesis
        using disconnect_pending(2) [OF wf, of n p ws c] p Closed Some
        by (auto simp: extension_ends_def client_ends_def)
    qed
  next
    case (Message ws msg)
    show ?thesis
    proof (cases "oget (clients st) ws")
      case None
      with Message p gone show ?thesis by (simp add: server_step_def)
    next
      case (Some c)
      have g: "oget (pending (fst (handleMessage cfg ws c msg st))) n \<noteq> Some p"
        using gone Message Some by (simp add: server_step_def)
      consider "clientRole c = None" | "clientRole c = Some RoleCli" | "clientRole c = Some RoleExtension"
        by (cases "clientRole c"; cases "the (clientRole c)") auto
      then show ?thesis
      proof cases
        case 1
        with g p show ?thesis by (cases msg) (simp_all add: handleMessage_def)
      next
        case 2
        with g p cli_request_pending(2) [OF lt, where cfg = cfg and ws = ws and c = c] show ?thesis
          by (cases msg) (simp_all add: handleMessage_def)
      next
        case 3
        with g p Message Some show ?thesis
          by (cases msg) (auto simp: handleMessage_def response_ends_def split: if_splits)
      qed
    qed
  qed
qed

text \<open>
  C31. A relayed request that is pending stays pending as it is until the extension answers it, the
  connection of the extension it waits for closes, or the client that made it disconnects.
\<close>
theorem request_fate:
  assumes "st = server_run cfg ops new_server" and "oget (pending st) n = Some p"
    and "\<not> response_ends op st n" and "\<not> extension_ends op st p" and "\<not> client_ends op st p"
  shows "oget (pending (fst (server_step cfg op st))) n = Some p"
  using step_pending [of st n p cfg op] reachable_inv [of cfg ops] assms by blast

lemma retired:
  assumes inv: "server_inv st" and n: "n < nextRelay st" "oget (pending st) n = None"
  shows "oget (pending (server_run cfg ops st)) n = None \<and> n < nextRelay (server_run cfg ops st)"
proof -
  have "relays_le st (server_run cfg ops st)" unfolding server_run_def by (rule relay_server.run_le [OF inv])
  with n show ?thesis unfolding relays_le_def
    by (cases "oget (pending (server_run cfg ops st)) n") force+
qed

text \<open>
  C32. A request is answered at most once: once its relay identity is no longer pending it never is
  again, whatever happens, and a response that names it is dropped without a word to anyone.
\<close>
theorem answered_at_most_once:
  assumes "st = server_run cfg ops new_server" and "n < nextRelay st" and "oget (pending st) n = None"
    and "st' = server_run cfg ops' st"
  shows "oget (pending st') n = None \<and> nextRelay st' > n
    \<and> (resId res = n \<longrightarrow> handleExtensionResponse cfg res st' = (st', []))"
  using retired [of st n cfg ops'] reachable_inv [of cfg ops] assms by (simp add: handleExtensionResponse_def)

lemma answer_sockets:
  assumes "openSockets st' = openSockets st"
  shows "answer st' n p v = answer st n p v"
  by (cases "pendingSocket p") (simp_all add: answer_def sendJson_def assms)

lemma update_leases_sockets [simp]: "openSockets (updateRecordingLeasesFromResponse p v st) = openSockets st"
  "pending (updateRecordingLeasesFromResponse p v st) = pending st"
  by (simp_all add: updateRecordingLeasesFromResponse_def registerRecordingLease_def releaseRecordingLease_def)

lemma answer_same [simp]:
  "answer (st\<lparr>pending := ps\<rparr>) = answer st" "answer (st\<lparr>recordings := rs\<rparr>) = answer st"
  "answer (st\<lparr>sessions := ss\<rparr>) = answer st" "answer (st\<lparr>listed := ls\<rparr>) = answer st"
  "answer (st\<lparr>clients := cs, openSockets := os\<rparr>) = answer (st\<lparr>openSockets := os\<rparr>)"
  "answer (st\<lparr>clients := cs\<rparr>) = answer st" "answer (updateRecordingLeasesFromResponse q w st) = answer st"
  by (intro ext answer_sockets; simp)+

lemma response_answers:
  assumes p: "oget (pending st) (resId res) = Some p"
  shows "\<exists>st' v. handleExtensionResponse cfg res st = (st', answer st (resId res) p v)
      \<and> oget (pending st') (resId res) = None \<and> resId v = pendingClientRequest p
      \<and> (resError v = None \<longleftrightarrow> resError res = None \<and> validateResult cfg (pendingMethod p) (resResult res) = Inr (resResult v))
      \<and> (resError res \<noteq> None \<longrightarrow> resError v = resError res)"
proof (cases "resError res")
  case (Some e)
  with p show ?thesis
    by (intro exI [of _ "st\<lparr>pending := odel (resId res) (pending st)\<rparr>"] exI [of _ "res\<lparr>resId := pendingClientRequest p\<rparr>"])
      (simp add: handleExtensionResponse_def)
next
  case None
  show ?thesis
  proof (cases "validateResult cfg (pendingMethod p) (resResult res)")
    case (Inl errs)
    with p None show ?thesis
      by (intro exI [of _ "st\<lparr>pending := odel (resId res) (pending st)\<rparr>"]
          exI [of _ "(error_response (resId res) INVALID_RESULT
            (''Invalid result for '' @ quoted (pendingMethod p) @ '': '' @ errs))\<lparr>resId := pendingClientRequest p\<rparr>"])
        (simp add: handleExtensionResponse_def error_response_def)
  next
    case (Inr v)
    with p None show ?thesis
      by (intro exI [of _ "updateRecordingLeasesFromResponse p v (st\<lparr>pending := odel (resId res) (pending st)\<rparr>)"]
          exI [of _ "res\<lparr>resResult := v, resId := pendingClientRequest p\<rparr>"])
        (simp add: handleExtensionResponse_def)
  qed
qed

lemma lost_extension_answers:
  assumes p: "oget (pending st) n = Some p" and e: "extension_ends (Closed ws) st p"
  shows "set (answer (st\<lparr>openSockets := openSockets st - {ws}\<rparr>) n p (error_response (pendingClientRequest p) NO_EXTENSION_TARGET
      ''Extension disconnected while request was pending'')) \<subseteq> set (snd (server_step cfg (Closed ws) st))"
proof -
  from e obtain c h where c: "oget (clients st) ws = Some c" "clientRole c = Some RoleExtension"
    and h: "findByConnection ws (sessions st) = Some h" "pendingHandle p = Some (handleKey h)"
    by (auto simp: extension_ends_def)
  have "(n, p) \<in> set (filter (\<lambda>(_, p). pendingHandle p = Some (handleKey h)) (pending st))"
    using map_of_SomeD [OF p] h(2) by simp
  moreover have "snd (server_step cfg (Closed ws) st) = concat (map (\<lambda>(n, p).
        answer (st\<lparr>openSockets := openSockets st - {ws}\<rparr>) n p (error_response (pendingClientRequest p) NO_EXTENSION_TARGET
          ''Extension disconnected while request was pending''))
        (filter (\<lambda>(_, p). pendingHandle p = Some (handleKey h)) (pending st)))
      @ broadcastToRole (fst (server_step cfg (Closed ws) st)) RoleCli
          (ServerEvent \<lparr>evName = ''extension_disconnected'', evData = JUndef\<rparr>)"
    using c h(1) by (simp add: server_step_def handleDisconnect_def extension_disconnected_def unregisterByConnection_def Let_def)
  ultimately show ?thesis by force
qed

lemma lost_client_aborts:
  assumes ok: "registry_ok (sessions st)" and p: "oget (pending st) n = Some p" and e: "client_ends (Closed ws) st p"
    and h: "pendingHandle p = Some k" "oget (handles (sessions st)) k = Some h"
      "optConnection h \<in> openSockets st" "optConnection h \<noteq> ws"
  shows "Send (optConnection h) (AbortMsg n) \<in> set (snd (server_step cfg (Closed ws) st))"
proof -
  from e obtain c where c: "oget (clients st) ws = Some c" "clientRole c = Some RoleCli" "connectionId c = pendingCli p"
    by (auto simp: client_ends_def)
  let ?r = "fst (releaseLocksForCli (pendingCli p) (sessions st))"
  have ok': "registry_ok ?r" by (rule release_cli_ok [OF ok])
  have "oget (handles ?r) k = Some (if held_by (pendingCli p) h then h\<lparr>handleLock := None\<rparr> else h)"
    using h(2) by (simp add: releaseLocksForCli_def map_locks)
  with get_handle_iff [OF ok', of k] obtain g where g: "get_handle ?r (Some k) = Some g" "optConnection g = optConnection h"
    by auto
  have "(n, p) \<in> set (filter (\<lambda>(_, q). pendingCli q = pendingCli p) (pending st))" using map_of_SomeD [OF p] by simp
  with c g h show ?thesis
    by (force simp: server_step_def handleDisconnect_def cli_disconnected_def stopRecordingLeasesForCli_def Let_def
        case_prod_beta sendJson_def)
qed

text \<open>
  C30. How a pending request ends. The extension's response, with the client's own request identity, goes
  to the client that asked: an error as it is, a valid result, or \<open>INVALID_RESULT\<close>. When the extension's
  connection closes, each request that waits for it is answered with \<open>NO_EXTENSION_TARGET\<close>. When the
  client disconnects, the extension is told to abort.
\<close>
theorem request_answered:
  assumes st: "st = server_run cfg ops new_server" and p: "oget (pending st) n = Some p"
  shows "(resId res = n \<longrightarrow> (\<exists>st' v. handleExtensionResponse cfg res st = (st', answer st n p v)
            \<and> oget (pending st') n = None \<and> resId v = pendingClientRequest p
            \<and> (resError v = None \<longleftrightarrow> resError res = None \<and> validateResult cfg (pendingMethod p) (resResult res) = Inr (resResult v))
            \<and> (resError res \<noteq> None \<longrightarrow> resError v = resError res)))
       \<and> (extension_ends (Closed ws) st p \<longrightarrow> (\<forall>cs. pendingSocket p = Some cs \<and> cs \<in> openSockets st \<and> cs \<noteq> ws \<longrightarrow>
            Send cs (AnswerMsg (error_response (pendingClientRequest p) NO_EXTENSION_TARGET
              ''Extension disconnected while request was pending'')) \<in> set (snd (server_step cfg (Closed ws) st))))
       \<and> (client_ends (Closed ws) st p \<longrightarrow> (\<forall>k h. pendingHandle p = Some k \<and> oget (handles (sessions st)) k = Some h
            \<and> optConnection h \<in> openSockets st \<and> optConnection h \<noteq> ws \<longrightarrow>
            Send (optConnection h) (AbortMsg n) \<in> set (snd (server_step cfg (Closed ws) st))))"
proof (intro conjI impI allI)
  assume id: "resId res = n"
  show "\<exists>st' v. handleExtensionResponse cfg res st = (st', answer st n p v)
      \<and> oget (pending st') n = None \<and> resId v = pendingClientRequest p
      \<and> (resError v = None \<longleftrightarrow> resError res = None \<and> validateResult cfg (pendingMethod p) (resResult res) = Inr (resResult v))
      \<and> (resError res \<noteq> None \<longrightarrow> resError v = resError res)"
    using response_answers [of st res p cfg] p unfolding id by blast
next
  fix cs assume e: "extension_ends (Closed ws) st p" and cs: "pendingSocket p = Some cs \<and> cs \<in> openSockets st \<and> cs \<noteq> ws"
  show "Send cs (AnswerMsg (error_response (pendingClientRequest p) NO_EXTENSION_TARGET
              ''Extension disconnected while request was pending'')) \<in> set (snd (server_step cfg (Closed ws) st))"
    using lost_extension_answers [OF p e, of cfg] cs by (simp add: answer_def sendJson_def)
next
  fix k h assume e: "client_ends (Closed ws) st p"
    and h: "pendingHandle p = Some k \<and> oget (handles (sessions st)) k = Some h
      \<and> optConnection h \<in> openSockets st \<and> optConnection h \<noteq> ws"
  show "Send (optConnection h) (AbortMsg n) \<in> set (snd (server_step cfg (Closed ws) st))"
    using lost_client_aborts [OF _ p e] h server_registry [OF reachable_inv [of cfg ops]] st by blast
qed

lemma relayed_request:
  assumes inv: "server_inv st"
    and c: "oget (clients st) ws = Some c" "clientRole c = Some RoleCli"
    and sent: "Send s (RelayMsg q) \<in> set (snd (handleCliRequest cfg ws c req0 st))"
  shows "\<exists>req target g. cleared cfg (openSockets st) req0 (sessions st) req target g
      \<and> s = optConnection g \<and> q = req\<lparr>reqId := nextRelay st, reqTarget := Some target\<rparr>
      \<and> oget (pending st) (nextRelay st) = None
      \<and> (\<exists>p. oget (pending (fst (handleCliRequest cfg ws c req0 st))) (nextRelay st) = Some p
            \<and> pendingClientRequest p = reqId req0 \<and> pendingCli p = connectionId c \<and> pendingSocket p = Some ws
            \<and> pendingMethod p = reqMethod req0 \<and> pendingHandle p = Some (handleKey g))
      \<and> (isCatalogWriteMethod (reqMethod req0) \<longrightarrow>
          lock_owner (sessions (fst (handleCliRequest cfg ws c req0 st))) (handleKey g) = Some (connectionId c))"
proof -
  from inv have ok: "registry_ok (sessions st)" by (simp add: server_inv_def)
  obtain r req p where plan: "plan_request cfg (openSockets st) (connectionId c) req0 (sessions st) = (r, req, p)"
    by (metis prod_cases3)
  from sent obtain target h e l where p: "p = PlanExtension target h e l"
    using plan by (cases p) (auto simp: handleCliRequest_def sendJson_def split: if_splits)
  from plan_extension [OF plan [unfolded p]] obtain g where
    g: "cleared cfg (openSockets st) req0 (sessions st) req target g" "l = isCatalogWriteMethod (reqMethod req0)"
      "if l then (\<exists>x. acquire_write g (connectionId c) e (sessions st) = (r, Inr x) \<and> h = g\<lparr>handleLock := Some x\<rparr>)
       else r = sessions st \<and> h = g" by metis
  have h: "optConnection h = optConnection g" "handleKey h = handleKey g" using g(3) by (auto split: if_splits)
  have in_r: "oget (handles (sessions st)) (handleKey g) = Some g"
    by (rule resolve_handle_in [OF ok]) (use g(1) in \<open>auto simp: cleared_def\<close>)
  have lock: "lock_owner r (handleKey g) = Some (connectionId c)" if l
    using g(3) that by (auto simp: acquire_write_simp lock_owner_def set_handle_def split: if_splits)
  have fresh: "oget (pending st) (nextRelay st) = None"
    using inv by (cases "oget (pending st) (nextRelay st)") (auto simp: server_inv_def okeep_def pending_fine_def)
  have id: "reqId req = reqId req0" "reqMethod req = reqMethod req0" using plan_request_same [OF plan] by simp_all
  from sent have "s = optConnection g \<and> q = req\<lparr>reqId := nextRelay st, reqTarget := Some target\<rparr>"
    using plan p h by (auto simp: handleCliRequest_def relay_request_def sendJson_def Let_def split: if_splits)
  then show ?thesis using g(1,2) plan p h id fresh lock
    by (intro exI [of _ req] exI [of _ target] exI [of _ g]) (simp add: handleCliRequest_def relay_request_def Let_def)
qed

text \<open>
  C29. A request reaches an extension only after every check: its method is a command of the catalog that
  runs in the extension, its parameters are valid (and sent normalised), its target is a browser tab
  whose handle is registered, connected and advertises the method. It is sent under a fresh relay
  identity that is pending from then on, and a writing command holds the writer lease of the handle.
\<close>
theorem forwarded_only_if_cleared:
  assumes st: "st = server_run cfg ops new_server"
    and c: "oget (clients st) ws = Some c" "clientRole c = Some RoleCli"
    and sent: "Send s (RelayMsg q) \<in> set (snd (handleCliRequest cfg ws c req0 st))"
  shows "\<exists>req target g. cleared cfg (openSockets st) req0 (sessions st) req target g
      \<and> s = optConnection g \<and> q = req\<lparr>reqId := nextRelay st, reqTarget := Some target\<rparr>
      \<and> oget (pending st) (nextRelay st) = None
      \<and> (\<exists>p. oget (pending (fst (handleCliRequest cfg ws c req0 st))) (nextRelay st) = Some p
            \<and> pendingClientRequest p = reqId req0 \<and> pendingCli p = connectionId c \<and> pendingSocket p = Some ws
            \<and> pendingMethod p = reqMethod req0 \<and> pendingHandle p = Some (handleKey g))
      \<and> (isCatalogWriteMethod (reqMethod req0) \<longrightarrow>
          lock_owner (sessions (fst (handleCliRequest cfg ws c req0 st))) (handleKey g) = Some (connectionId c))"
  by (rule relayed_request [OF _ c sent]) (simp add: st reachable_inv)

subsection \<open>When the writer lease changes hands\<close>

definition lock_ends :: "server_op \<Rightarrow> server_state \<Rightarrow> string \<Rightarrow> string \<Rightarrow> bool" where
  "lock_ends op st k a \<longleftrightarrow>
     (\<exists>ws c. oget (clients st) ws = Some c \<and>
        (op = Closed ws \<and> clientRole c = Some RoleCli \<and> connectionId c = a
         \<or> op = Closed ws \<and> clientRole c = Some RoleExtension \<and> map_option handleKey (findByConnection ws (sessions st)) = Some k
         \<or> (\<exists>reg w s caps. op = Message ws (RegisterMsg reg) \<and> clientRole c = None \<and> regRole reg = ExtensionPeer w s caps
              \<and> k = ''chrome-window:'' @ int_text w)
         \<or> (\<exists>ev. op = Message ws (EventMsg ev) \<and> clientRole c = Some RoleExtension \<and> evName ev = ''session_changed''
              \<and> map_option handleKey (findByConnection ws (sessions st)) = Some k)))"

lemma lock_owner_simps [simp]:
  "lock_owner (set_handle g r) k = (if k = handleKey g then map_option holderCli (handleLock g) else lock_owner r k)"
  "k \<noteq> j \<Longrightarrow> lock_owner (r\<lparr>handles := odel j (handles r)\<rparr>) k = lock_owner r k"
  "lock_owner (r\<lparr>activeKey := x\<rparr>) k = lock_owner r k"
  "lock_owner (register_handle h r) k = (if k = keyFor h then None else lock_owner r k)"
  by (auto simp: lock_owner_def set_handle_def register_handle_def Let_def handle_of_def)

lemma lock_owner_unregister:
  assumes "findByConnection ws r = None \<or> map_option handleKey (findByConnection ws r) \<noteq> Some k"
  shows "lock_owner (fst (unregisterByConnection ws r)) k = lock_owner r k"
  using assms by (auto simp: unregisterByConnection_def Let_def lock_owner_def split: option.split)

lemma lock_owner_release:
  "lock_owner r k = Some a \<Longrightarrow> cli \<noteq> a \<Longrightarrow> lock_owner (fst (releaseLocksForCli cli r)) k = Some a"
  by (auto simp: lock_owner_def releaseLocksForCli_def map_locks held_by_def split: option.splits)

lemma plan_lock_owner:
  assumes ok: "registry_ok r" and plan: "plan_request cfg opened cli req0 r = (r', req, p)"
    and own: "lock_owner r k = Some a"
  shows "lock_owner r' k = Some a"
proof (cases "\<exists>t h e l. p = PlanExtension t h e l")
  case False
  with plan_other [OF ok plan] own show ?thesis by blast
next
  case True
  then obtain t h e l where p: "p = PlanExtension t h e l" by blast
  from plan_extension [OF plan [unfolded p]] obtain g where
    g: "cleared cfg opened req0 r req t g"
      "if l then (\<exists>x. acquire_write g cli e r = (r', Inr x) \<and> h = g\<lparr>handleLock := Some x\<rparr>) else r' = r \<and> h = g" by metis
  have in_r: "oget (handles r) (handleKey g) = Some g"
    by (rule resolve_handle_in [OF ok]) (use g(1) in \<open>auto simp: cleared_def\<close>)
  from g(2) own in_r show ?thesis
    by (cases "handleKey g = k") (auto simp: acquire_write_simp lock_owner_def set_handle_def split: if_splits option.splits)
qed

lemma relay_sessions [simp]: "sessions (fst (relay_request cli ws conn req t h st)) = sessions st"
  by (simp add: relay_request_def Let_def)

lemma cli_request_lock:
  assumes ok: "registry_ok (sessions st)" and own: "lock_owner (sessions st) k = Some a"
  shows "lock_owner (sessions (fst (handleCliRequest cfg ws c req st))) k = Some a"
proof -
  obtain r rq p where plan: "plan_request cfg (openSockets st) (connectionId c) req (sessions st) = (r, rq, p)"
    by (metis prod_cases3)
  from plan_lock_owner [OF ok plan own] plan show ?thesis by (cases p) (simp_all add: handleCliRequest_def Let_def)
qed

lemma mcp_request_lock:
  assumes ok: "registry_ok (sessions st)" and own: "lock_owner (sessions st) k = Some a"
  shows "lock_owner (sessions (fst (executeMcpBridgeRequest cfg m ps t st))) k = Some a"
proof -
  let ?st1 = "st\<lparr>nextRelay := nextRelay st + 1\<rparr>"
  let ?req0 = "\<lparr>reqId = nextRelay st, reqMethod = m, reqParams = ps, reqTarget = t\<rparr>"
  obtain r rq p where plan: "plan_request cfg (openSockets ?st1) ''mcp'' ?req0 (sessions ?st1) = (r, rq, p)"
    by (metis prod_cases3)
  have "lock_owner r k = Some a" by (rule plan_lock_owner [OF _ plan]) (use ok own in simp_all)
  with plan show ?thesis by (cases p) (simp_all add: executeMcpBridgeRequest_def Let_def)
qed

lemma response_sessions [simp]: "sessions (fst (handleExtensionResponse cfg res st)) = sessions st"
  by (auto simp: handleExtensionResponse_def Let_def case_prod_beta updateRecordingLeasesFromResponse_def
      registerRecordingLease_def releaseRecordingLease_def split: option.split sum.split)

lemma event_lock:
  assumes inv: "server_inv st" and own: "lock_owner (sessions st) k = Some a"
    and no: "evName ev \<noteq> ''session_changed'' \<or> map_option handleKey (findByConnection ws (sessions st)) \<noteq> Some k"
  shows "lock_owner (sessions (fst (handleExtensionEvent ws c ev st))) k = Some a"
proof (cases "findByConnection ws (sessions st)")
  case None
  with own show ?thesis by (auto simp: handleExtensionEvent_def Let_def split: option.split)
next
  case (Some g)
  have g: "lock_owner (sessions st) (handleKey g) = map_option holderCli (handleLock g)"
    using found_key [OF inv Some] by (simp add: lock_owner_def)
  show ?thesis
  proof (cases "parseCapabilitiesUpdate ev")
    case None
    with Some own no show ?thesis by (auto simp: handleExtensionEvent_def Let_def split: option.split)
  next
    case caps: (Some cs)
    with Some own no g show ?thesis by (auto simp: handleExtensionEvent_def Let_def split: option.split)
  qed
qed

lemma registration_lock:
  assumes inv: "server_inv st" and own: "lock_owner (sessions st) k = Some a"
    and no: "\<And>w s caps. regRole reg = ExtensionPeer w s caps \<Longrightarrow> k \<noteq> ''chrome-window:'' @ int_text w"
  shows "lock_owner (sessions (fst (handleRegistration cfg ws c reg st))) k = Some a"
proof (cases "regRole reg")
  case (ExtensionPeer w s caps)
  have "lock_owner (sessions (fst (replaceExisting w st))) k = Some a"
    using replace_sessions(2) [OF inv, of w] own no [OF ExtensionPeer] by (auto simp: lock_owner_def)
  with ExtensionPeer no [OF ExtensionPeer] own show ?thesis
    by (simp add: handleRegistration_def registerExtension_def close_socket_def Let_def case_prod_beta keyFor_def)
qed (use own in \<open>simp_all add: handleRegistration_def close_socket_def Let_def\<close>)

lemma disconnect_lock:
  assumes own: "lock_owner (sessions st) k = Some a"
    and no: "\<not> (clientRole c = Some RoleCli \<and> connectionId c = a)"
      "\<not> (clientRole c = Some RoleExtension \<and> map_option handleKey (findByConnection ws (sessions st)) = Some k)"
  shows "lock_owner (sessions (fst (handleDisconnect ws c st))) k = Some a"
proof -
  consider "clientRole c = None" | "clientRole c = Some RoleCli" | "clientRole c = Some RoleExtension"
    by (cases "clientRole c"; cases "the (clientRole c)") auto
  then show ?thesis
  proof cases
    case 1
    with own show ?thesis by (simp add: handleDisconnect_def)
  next
    case 2
    with own no(1) show ?thesis
      by (simp add: handleDisconnect_def cli_disconnected_def stopRecordingLeasesForCli_def Let_def case_prod_beta lock_owner_release)
  next
    case 3
    with own no(2) lock_owner_unregister [of ws "sessions st" k] show ?thesis
      by (cases "unregisterByConnection ws (sessions st)"; cases "snd (unregisterByConnection ws (sessions st))")
        (auto simp: handleDisconnect_def extension_disconnected_def Let_def)
  qed
qed

lemma step_lock:
  assumes inv: "server_inv st" and own: "lock_owner (sessions st) k = Some a" and no: "\<not> lock_ends op st k a"
  shows "lock_owner (sessions (fst (server_step cfg op st))) k = Some a"
proof -
  note ok = server_registry [OF inv]
  show ?thesis
  proof (cases op)
    case (Closed ws)
    then show ?thesis
    proof (cases "oget (clients st) ws")
      case (Some c)
      have "lock_owner (sessions (fst (handleDisconnect ws c
          (st\<lparr>clients := odel ws (clients st), openSockets := openSockets st - {ws}\<rparr>)))) k = Some a"
        by (rule disconnect_lock) (use own no Closed Some in \<open>auto simp: lock_ends_def\<close>)
      with Closed Some show ?thesis by (simp add: server_step_def)
    qed (use own in \<open>simp add: server_step_def\<close>)
  next
    case (Message ws msg)
    show ?thesis
    proof (cases "oget (clients st) ws")
      case (Some c)
      consider "clientRole c = None" | "clientRole c = Some RoleCli" | "clientRole c = Some RoleExtension"
        by (cases "clientRole c"; cases "the (clientRole c)") auto
      then have "lock_owner (sessions (fst (handleMessage cfg ws c msg st))) k = Some a"
      proof cases
        case 1
        have "lock_owner (sessions (fst (handleRegistration cfg ws c reg st))) k = Some a" if "msg = RegisterMsg reg" for reg
          by (rule registration_lock [OF inv own]) (use no Message Some 1 that in \<open>auto simp: lock_ends_def\<close>)
        with 1 own show ?thesis by (cases msg) (simp_all add: handleMessage_def)
      next
        case 2
        with own cli_request_lock [OF ok own] show ?thesis by (cases msg) (simp_all add: handleMessage_def)
      next
        case 3
        have "lock_owner (sessions (fst (handleExtensionEvent ws c ev st))) k = Some a" if "msg = EventMsg ev" for ev
          by (rule event_lock [OF inv own]) (use no Message Some 3 that in \<open>auto simp: lock_ends_def\<close>)
        with 3 own show ?thesis by (cases msg) (simp_all add: handleMessage_def)
      qed
      with Message Some show ?thesis by (simp add: server_step_def)
    qed (use Message own in \<open>simp add: server_step_def\<close>)
  next
    case (McpRequest m ps t)
    with mcp_request_lock [OF ok own] own show ?thesis by (simp add: server_step_def)
  qed (use own in \<open>auto simp: server_step_def close_socket_def split: option.split\<close>)
qed

text \<open>
  C34. While a client holds the writer lease of a browser window it keeps it until it disconnects, the
  window's extension connection closes or registers anew, or the extension reports a change of the
  session; meanwhile no writing request of another client is relayed to that window.
\<close>
theorem writer_excludes_others:
  assumes "st = server_run cfg ops new_server" and "lock_owner (sessions st) k = Some a"
  shows "(\<not> lock_ends op st k a \<longrightarrow> lock_owner (sessions (fst (server_step cfg op st))) k = Some a)
    \<and> (oget (clients st) ws = Some c \<and> clientRole c = Some RoleCli \<and> connectionId c \<noteq> a
        \<and> isCatalogWriteMethod (reqMethod req0)
        \<and> map_option handleKey (resolve_handle (Some (requestTarget req0)) (sessions st)) = Some k
        \<longrightarrow> Send s (RelayMsg q) \<notin> set (snd (handleCliRequest cfg ws c req0 st)))"
proof -
  have inv: "server_inv st" unfolding assms(1) by (rule reachable_inv)
  note ok = server_registry [OF inv]
  have "Send s (RelayMsg q) \<notin> set (snd (handleCliRequest cfg ws c req0 st))"
    if c: "oget (clients st) ws = Some c" "clientRole c = Some RoleCli" and other: "connectionId c \<noteq> a"
      "isCatalogWriteMethod (reqMethod req0)"
      "map_option handleKey (resolve_handle (Some (requestTarget req0)) (sessions st)) = Some k"
  proof
    assume "Send s (RelayMsg q) \<in> set (snd (handleCliRequest cfg ws c req0 st))"
    from relayed_request [OF inv c this] obtain req target g where
      "cleared cfg (openSockets st) req0 (sessions st) req target g"
      "lock_owner (sessions (fst (handleCliRequest cfg ws c req0 st))) (handleKey g) = Some (connectionId c)"
      using other(2) by blast
    with other cli_request_lock [OF ok assms(2), of cfg ws c req0] show False by (auto simp: cleared_def)
  qed
  with step_lock [OF inv assms(2)] show ?thesis by blast
qed

subsection \<open>Registration\<close>

definition acceptable :: "server_config \<Rightarrow> registration \<Rightarrow> bool" where
  "acceptable cfg reg \<longleftrightarrow> regToken reg = cfgToken cfg
     \<and> isBridgeProtocolCompatible (regVersion reg) (case regMinVersion reg of Some m \<Rightarrow> Some m | None \<Rightarrow> regVersion reg)
     \<and> regRole reg \<noteq> OtherPeer"

lemma registration_refused:
  assumes "\<not> acceptable cfg reg" and "handleRegistration cfg ws c reg st = (st', out)"
  shows "(st' = st \<or> st' = st\<lparr>openSockets := openSockets st - {ws}\<rparr>)
    \<and> set out \<subseteq> {Send ws (RegisterResult False e) | e. True} \<union> {CloseSocket ws code r | code r. True}"
  using assms by (cases "regRole reg") (auto simp: acceptable_def handleRegistration_def close_socket_def sendJson_def Let_def split: if_splits)

lemma registration_accepted:
  assumes "acceptable cfg reg"
  shows "\<exists>c'. oget (clients (fst (handleRegistration cfg ws c reg st))) ws = Some c' \<and> registered c'"
  using assms by (cases "regRole reg") (auto simp: acceptable_def handleRegistration_def registerExtension_def Let_def case_prod_beta)

text \<open>
  An unregistered peer becomes a client only by a registration with the server's token, a compatible
  protocol range and a known role. Anything else it sends changes nothing but the state of its own
  socket, and it is sent nothing but refusals.
\<close>
theorem registration_gate:
  assumes c: "oget (clients st) ws = Some c" "clientRole c = None"
    and step: "server_step cfg (Message ws msg) st = (st', out)"
  shows "if \<exists>reg. msg = RegisterMsg reg \<and> acceptable cfg reg
    then \<exists>c'. oget (clients st') ws = Some c' \<and> registered c'
    else (st' = st \<or> st' = st\<lparr>openSockets := openSockets st - {ws}\<rparr>)
      \<and> set out \<subseteq> {Send ws (RegisterResult False e) | e. True} \<union> {CloseSocket ws code r | code r. True}"
proof (cases "\<exists>reg. msg = RegisterMsg reg")
  case True
  then obtain reg where reg: "msg = RegisterMsg reg" by blast
  from step c reg have h: "handleRegistration cfg ws c reg st = (st', out)"
    by (simp add: server_step_def handleMessage_def)
  show ?thesis
  proof (cases "acceptable cfg reg")
    case acc: True
    from registration_accepted [OF acc, of ws c st] h reg acc show ?thesis by simp
  next
    case False
    from registration_refused [OF False h] reg False show ?thesis by simp
  qed
next
  case False
  with step c show ?thesis by (cases msg) (auto simp: server_step_def handleMessage_def sendJson_def)
qed

subsection \<open>Where the server does not do what it means to\<close>

text \<open>
  A window whose extension registers on a second connection while the first is still open: the requests
  that wait for the first connection are not answered then, nor when the first connection closes.
\<close>
theorem replaced_extension_strands:
  assumes st: "st = server_run cfg ops new_server"
    and h: "oget (handles (sessions st)) (''chrome-window:'' @ int_text w) = Some h" "optConnection h \<in> openSockets st"
    and c: "oget (clients st) ws = Some c" "clientRole c = None"
    and reg: "acceptable cfg reg" "regRole reg = ExtensionPeer w s caps"
    and p: "oget (pending st) n = Some p" "pendingHandle p = Some (''chrome-window:'' @ int_text w)"
    and st1: "st1 = fst (server_step cfg (Message ws (RegisterMsg reg)) st)"
  shows "oget (pending st1) n = Some p \<and> oget (pending (fst (server_step cfg (Closed (optConnection h)) st1))) n = Some p"
proof -
  let ?k = "''chrome-window:'' @ int_text w" and ?old = "optConnection h"
  have inv: "server_inv st" unfolding st by (rule reachable_inv)
  from server_handle [OF inv h(1)] c have ne: "ws \<noteq> ?old" by (auto simp: handle_fine_def is_extension_def)
  obtain oc where oc: "oget (clients st) ?old = Some oc" "clientRole oc = Some RoleExtension"
    using server_handle [OF inv h(1)] by (auto simp: handle_fine_def is_extension_def)
  have st1': "st1 = fst (handleRegistration cfg ws c reg st)"
    using c by (simp add: st1 server_step_def handleMessage_def)
  have pend: "oget (pending st1) n = Some p" using p(1) by (simp add: st1')
  have inv1: "server_inv st1" unfolding st1 by (rule server_step_inv [OF inv])
  have old: "oget (clients st1) ?old = Some oc"
    using reg oc(1) ne by (simp add: st1' acceptable_def handleRegistration_def registerExtension_def Let_def case_prod_beta)
  have gone: "handles (sessions (fst (replaceExisting w st))) = odel ?k (handles (sessions st))"
    using h unregister_found(1) [OF found_handle [OF inv h(1)]] registry_key [OF server_registry [OF inv] h(1)]
      get_handle_iff [OF server_registry [OF inv], of ?k] by (simp add: replaceExisting_def close_socket_def)
  have hs: "optConnection g = ws \<or> (j \<noteq> ?k \<and> oget (handles (sessions st)) j = Some g)"
    if "oget (handles (sessions st1)) j = Some g" for j g
    using that reg gone by (auto simp: st1' acceptable_def handleRegistration_def registerExtension_def Let_def case_prod_beta
        register_handle_def keyFor_def handle_of_def split: if_splits)
  have "findByConnection ?old (sessions st1) = None"
  proof (cases "findByConnection ?old (sessions st1)")
    case (Some g)
    note f = found_key [OF inv1 Some]
    from hs [of "handleKey g" g] f ne have "handleKey g \<noteq> ?k" "oget (handles (sessions st)) (handleKey g) = Some g" by auto
    with one_handle_per_connection [OF inv this(2) h(1)] f show ?thesis by simp
  qed
  then have "\<not> extension_ends (Closed ?old) st1 p" by (simp add: extension_ends_def)
  moreover have "\<not> response_ends (Closed ?old) st1 n" "\<not> client_ends (Closed ?old) st1 p"
    using old oc(2) by (auto simp: response_ends_def client_ends_def)
  ultimately show ?thesis using step_pending [OF inv1 pend, of cfg "Closed ?old"] pend by blast
qed

text \<open>
  MCP requests take the writer lease as the connection \<open>mcp\<close>, which never disconnects: unless a
  client has that identity, only the extension's side gives the lease back.
\<close>
theorem mcp_keeps_lease:
  assumes "st = server_run cfg ops new_server" and "lock_owner (sessions st) k = Some ''mcp''"
    and "\<forall>ws c. oget (clients st) ws = Some c \<longrightarrow> connectionId c \<noteq> ''mcp''"
    and "\<forall>ws. op = Closed ws \<or> (\<exists>msg. op = Message ws msg) \<longrightarrow> findByConnection ws (sessions st) = None"
    and "\<forall>ws reg. op \<noteq> Message ws (RegisterMsg reg)"
  shows "lock_owner (sessions (fst (server_step cfg op st))) k = Some ''mcp''"
proof -
  have "server_inv st" unfolding assms(1) by (rule reachable_inv)
  then show ?thesis by (rule step_lock [OF _ assms(2)]) (use assms(3-5) in \<open>auto simp: lock_ends_def\<close>)
qed

subsection \<open>A run\<close>

text \<open>
  An extension of window 1 and a command-line client register; the client's request to start a handoff is
  relayed and takes the writer lease. A second client registers on socket 3, a second connection of the
  extension is on socket 4.
\<close>

definition run_cfg :: server_config where
  "run_cfg = \<lparr>cfgToken = ''t'', validateParams = (\<lambda>_ v. Inr v), validateResult = (\<lambda>_ v. Inr v)\<rparr>"

definition run_reg :: "peer_role \<Rightarrow> registration" where
  "run_reg role = \<lparr>regToken = ''t'', regVersion = Some 4, regMinVersion = None, regApp = ''1'', regRole = role\<rparr>"

definition run_request :: bridge_request where
  "run_request = \<lparr>reqId = 7, reqMethod = ''handoff_start'', reqParams = JObj [], reqTarget = None\<rparr>"

definition run_start :: "server_op list" where
  "run_start = [Connect 1 ''e1'' ''l'', Connect 2 ''c2'' ''l'', Connect 3 ''c3'' ''l'', Connect 4 ''e4'' ''l'',
     Message 1 (RegisterMsg (run_reg (ExtensionPeer 1 None [''handoff_start'']))),
     Message 2 (RegisterMsg (run_reg (CliPeer None))), Message 3 (RegisterMsg (run_reg (CliPeer None)))]"

definition run_relayed :: "server_op list" where
  "run_relayed = run_start @ [Message 2 (RequestMsg run_request)]"

definition run_state :: server_state where
  "run_state = server_run run_cfg run_relayed new_server"

definition run_pending :: pending_request where
  "run_pending = \<lparr>pendingClientRequest = 7, pendingCli = ''c2'', pendingSocket = Some 2, pendingMethod = ''handoff_start'',
     pendingHandle = Some ''chrome-window:1'', pendingIdentity = ''chrome-window:1'', pendingTarget = defaultTarget\<rparr>"

definition run_response :: bridge_response where
  "run_response = \<lparr>resId = 1, resResult = JObj [], resError = None\<rparr>"

lemma run_facts:
  "oget (pending run_state) 1 = Some run_pending"
  "lock_owner (sessions run_state) ''chrome-window:1'' = Some ''c2''"
  "map_option clientRole (oget (clients run_state) 1) = Some (Some RoleExtension)"
  "map_option clientRole (oget (clients run_state) 2) = Some (Some RoleCli)"
  "map_option clientRole (oget (clients run_state) 3) = Some (Some RoleCli)"
  "map_option connectionId (oget (clients run_state) 2) = Some ''c2''"
  "map_option connectionId (oget (clients run_state) 3) = Some ''c3''"
  "map_option clientRole (oget (clients run_state) 4) = Some None"
  "map_option handleKey (resolve_handle (Some (requestTarget run_request)) (sessions run_state)) = Some ''chrome-window:1''"
  "map_option handleKey (findByConnection 1 (sessions run_state)) = Some ''chrome-window:1''"
  "map_option optConnection (oget (handles (sessions run_state)) ''chrome-window:1'') = Some 1"
  "1 \<in> openSockets run_state \<and> 2 \<in> openSockets run_state"
  "isCatalogWriteMethod (reqMethod run_request)"
  by code_simp+


theorem request_fate_witness:
  "oget (pending (fst (server_step run_cfg (Message 3 (RequestMsg run_request)) run_state))) 1 = Some run_pending"
  by (rule request_fate [OF run_state_def run_facts(1)]) (simp_all add: response_ends_def extension_ends_def client_ends_def)

theorem answered_at_most_once_witness:
  "handleExtensionResponse run_cfg run_response
     (server_run run_cfg [Closed 3] (server_run run_cfg (run_relayed @ [Message 1 (ResponseMsg run_response)]) new_server))
   = (server_run run_cfg [Closed 3] (server_run run_cfg (run_relayed @ [Message 1 (ResponseMsg run_response)]) new_server), [])"
proof -
  have "1 < nextRelay (server_run run_cfg (run_relayed @ [Message 1 (ResponseMsg run_response)]) new_server)"
    "oget (pending (server_run run_cfg (run_relayed @ [Message 1 (ResponseMsg run_response)]) new_server)) 1 = None"
    by code_simp+
  from answered_at_most_once [OF refl this refl, where ops' = "[Closed 3]" and res = run_response] show ?thesis
    by (simp add: run_response_def)
qed

theorem request_answered_witness:
  "(\<exists>st' v. handleExtensionResponse run_cfg run_response run_state = (st', answer run_state 1 run_pending v) \<and> resId v = 7)
   \<and> Send 2 (AnswerMsg (error_response 7 NO_EXTENSION_TARGET ''Extension disconnected while request was pending''))
       \<in> set (snd (server_step run_cfg (Closed 1) run_state))
   \<and> Send 1 (AbortMsg 1) \<in> set (snd (server_step run_cfg (Closed 2) run_state))"
proof -
  have p: "pendingClientRequest run_pending = 7" "pendingSocket run_pending = Some 2" "pendingCli run_pending = ''c2''"
    "pendingHandle run_pending = Some ''chrome-window:1''" "resId run_response = 1" by (simp_all add: run_pending_def run_response_def)
  note t = request_answered [OF run_state_def run_facts(1), of run_response]
  obtain h where h: "oget (handles (sessions run_state)) ''chrome-window:1'' = Some h" "optConnection h = 1"
    using run_facts(11) by auto
  have "extension_ends (Closed 1) run_state run_pending"
    using run_facts(3,10) p(4) by (force simp: extension_ends_def)
  moreover have "client_ends (Closed 2) run_state run_pending"
    using run_facts(4,6) p(3) by (force simp: client_ends_def)
  ultimately show ?thesis
    using t [of 1] t [of 2] h p run_facts(12) by (intro conjI) (blast | force)+
qed

theorem forwarded_only_if_cleared_witness:
  "lock_owner (sessions (fst (handleCliRequest run_cfg 2 (the (oget (clients (server_run run_cfg run_start new_server)) 2)) run_request
     (server_run run_cfg run_start new_server)))) ''chrome-window:1'' = Some ''c2''"
proof -
  let ?st = "server_run run_cfg run_start new_server" and ?c = "the (oget (clients (server_run run_cfg run_start new_server)) 2)"
  have f: "oget (clients ?st) 2 = Some ?c" "clientRole ?c = Some RoleCli" "connectionId ?c = ''c2''"
    "snd (handleCliRequest run_cfg 2 ?c run_request ?st) = [Send 1 (RelayMsg (run_request\<lparr>reqId := 1, reqTarget := Some defaultTarget\<rparr>))]"
    "map_option handleKey (resolve_handle (Some (requestTarget run_request)) (sessions ?st)) = Some ''chrome-window:1''"
    by code_simp+
  have "Send 1 (RelayMsg (run_request\<lparr>reqId := 1, reqTarget := Some defaultTarget\<rparr>))
      \<in> set (snd (handleCliRequest run_cfg 2 ?c run_request ?st))" by (simp add: f(4))
  from forwarded_only_if_cleared [OF refl f(1,2) this] f(3,5) run_facts(13) show ?thesis
    by (auto simp: cleared_def)
qed

theorem writer_excludes_others_witness:
  "lock_owner (sessions (fst (server_step run_cfg (Closed 3) run_state))) ''chrome-window:1'' = Some ''c2''
   \<and> Send 1 (RelayMsg run_request) \<notin> set (snd (handleCliRequest run_cfg 3 (the (oget (clients run_state) 3)) run_request run_state))"
proof -
  have "\<not> lock_ends (Closed 3) run_state ''chrome-window:1'' ''c2''"
    using run_facts(5,7) by (auto simp: lock_ends_def)
  moreover have "oget (clients run_state) 3 = Some (the (oget (clients run_state) 3))"
    "clientRole (the (oget (clients run_state) 3)) = Some RoleCli" "connectionId (the (oget (clients run_state) 3)) \<noteq> ''c2''"
    using run_facts(5,7) by auto
  ultimately show ?thesis
    using writer_excludes_others [OF run_state_def run_facts(2), of "Closed 3" 3 "the (oget (clients run_state) 3)" run_request 1 run_request]
      run_facts(9,13) by blast
qed

theorem registration_gate_witness:
  "set (snd (server_step run_cfg (Message 4 (RegisterMsg ((run_reg (CliPeer None))\<lparr>regToken := ''u''\<rparr>))) run_state))
     \<subseteq> {Send 4 (RegisterResult False e) | e. True} \<union> {CloseSocket 4 code r | code r. True}
   \<and> (\<exists>c'. oget (clients (fst (server_step run_cfg (Message 4 (RegisterMsg (run_reg (CliPeer None)))) run_state))) 4 = Some c'
        \<and> registered c')"
proof -
  obtain c where c: "oget (clients run_state) 4 = Some c" "clientRole c = None" using run_facts(8) by auto
  have "\<not> acceptable run_cfg ((run_reg (CliPeer None))\<lparr>regToken := ''u''\<rparr>)" "acceptable run_cfg (run_reg (CliPeer None))"
    by code_simp+
  then show ?thesis
    using registration_gate [OF c prod.collapse [symmetric], where cfg = run_cfg
        and msg = "RegisterMsg ((run_reg (CliPeer None))\<lparr>regToken := ''u''\<rparr>)"]
      registration_gate [OF c prod.collapse [symmetric], where cfg = run_cfg and msg = "RegisterMsg (run_reg (CliPeer None))"] by simp
qed

text \<open>In the run, the extension's second connection leaves the relayed request waiting.\<close>

lemma run_strands:
  "oget (pending (server_run run_cfg [Message 4 (RegisterMsg (run_reg (ExtensionPeer 1 None [''handoff_start'']))), Closed 1] run_state)) 1
     = Some run_pending"
  by code_simp

text \<open>A handoff started by MCP and answered keeps every command-line client from writing.\<close>

lemma run_mcp_blocks:
  "let st = server_run run_cfg (run_start @ [McpRequest ''handoff_start'' (JObj []) None,
         Message 1 (ResponseMsg (run_response\<lparr>resId := 2\<rparr>))]) new_server in
   pending st = [] \<and> snd (server_step run_cfg (Message 2 (RequestMsg run_request)) st)
     = [Send 2 (AnswerMsg \<lparr>resId = 7, resResult = JUndef, resError = Some \<lparr>errorCode = WRITE_LOCKED,
          errorMessage = ''Another CLI currently holds the session write lock''\<rparr>\<rparr>)]"
  by code_simp

end
