(* ===== verification/WorkflowData.thy ===== *)
theory WorkflowData
  imports Json
begin

section \<open>Workflows: variables, values and targets\<close>

text \<open>
  The data side of the workflow engine (\<open>packages/extension/src/tools/workflow-engine.ts\<close>): how
  tokens \<open>%{path}\<close> in step parameters are resolved against the variables of a run, how values are
  normalised and bounded before they are recorded, and how the pinned browser tab reaches the
  parameters of a step. The values of a run are those that \<^typ>\<open>jval\<close> has; \<open>JOpaque\<close> stands here for
  functions and symbols, which \<open>JSON.stringify\<close> treats like \<open>undefined\<close>. Objects whose keys look
  like array indexes are enumerated in the order of the list, not in numeric order.
\<close>

subsection \<open>JSON text\<close>

text \<open>\<open>JSON.stringify\<close>; \<^const>\<open>None\<close> is \<open>undefined\<close>.\<close>

fun json_text :: "jval \<Rightarrow> string option" where
  "json_text JNull = Some ''null''"
| "json_text (JBool b) = Some (if b then ''true'' else ''false'')"
| "json_text (JNum n) = Some (num_text n)"
| "json_text (JStr s) = Some (quote s)"
| "json_text (JArr xs) = Some (''['' @ join '','' (map (\<lambda>x. case json_text x of Some t \<Rightarrow> t | None \<Rightarrow> ''null'') xs) @ '']'')"
| "json_text (JObj fs) = Some (''{'' @ join '',''
     (concat (map (\<lambda>(k, v). case json_text v of Some t \<Rightarrow> [quote k @ '':'' @ t] | None \<Rightarrow> []) fs)) @ ''}'')"
| "json_text _ = None"

text \<open>What \<open>JSON.parse\<close> reads back from the text of a value that has one.\<close>

fun json_data :: "jval \<Rightarrow> jval" where
  "json_data (JNum n) = (if is_finite_num n then JNum n else JNull)"
| "json_data (JArr xs) = JArr (map json_data xs)"
| "json_data (JObj fs) = JObj (concat (map (\<lambda>(k, v). if json_text v = None then [] else [(k, json_data v)]) fs))"
| "json_data (JBool b) = JBool b"
| "json_data (JStr s) = JStr s"
| "json_data _ = JNull"

definition normalizeWireValue :: "jval \<Rightarrow> jval" where
  "normalizeWireValue v = json_data v"

text \<open>\<open>boundValue\<close>: long strings are cut, other long values become a preview of their text.\<close>

definition boundValue :: "jval \<Rightarrow> nat \<Rightarrow> jval" where
  "boundValue v limit =
     (case v of
        JStr s \<Rightarrow>
          if length s \<le> limit then v
          else JStr (take limit s @ ''...[truncated '' @ decimal (length s - limit) @ '' chars]'')
      | _ \<Rightarrow>
          let normalized = normalizeWireValue v;
              serialized = (case json_text normalized of Some t \<Rightarrow> t | None \<Rightarrow> ''null'') in
          if length serialized \<le> limit then normalized
          else JObj [(''truncated'', JBool True), (''originalLength'', jint (int (length serialized))),
            (''preview'', JStr (take limit serialized))])"

subsection \<open>Variables\<close>

type_synonym variables = "(string \<times> jval) list"

text \<open>\<open>Number.parseInt(s, 10)\<close>.\<close>

definition parse_int :: "string \<Rightarrow> int option" where
  "parse_int s =
     (let t = dropWhile js_space s;
          negative = starts_with ''-'' t;
          u = (if negative \<or> starts_with ''+'' t then tl t else t);
          ds = takeWhile is_digit u in
      if ds = [] then None else Some (if negative then - int (undecimal ds) else int (undecimal ds)))"

text \<open>An array element that is read: a hole reads as \<open>undefined\<close>.\<close>

definition element :: "jval \<Rightarrow> jval" where
  "element v = (if v = JHole then JUndef else v)"

definition descend :: "string \<Rightarrow> jval \<Rightarrow> jval option" where
  "descend segment v =
     (case v of
        JArr xs \<Rightarrow>
          (case parse_int segment of
             Some i \<Rightarrow> if 0 \<le> i \<and> nat i < length xs then Some (element (xs ! nat i)) else None
           | None \<Rightarrow> None)
      | JObj fs \<Rightarrow> map_of fs segment
      | _ \<Rightarrow> None)"

fun descend_all :: "string list \<Rightarrow> jval \<Rightarrow> jval option" where
  "descend_all [] v = Some v"
| "descend_all (s # ss) v = (case descend s v of Some w \<Rightarrow> descend_all ss w | None \<Rightarrow> None)"

definition resolveVariable :: "string \<Rightarrow> variables \<Rightarrow> jval option" where
  "resolveVariable p vars =
     (let trimmed = js_trim p in
      if trimmed = [] then None else descend_all (split_on CHR ''.'' trimmed) (JObj vars))"

text \<open>The token at the head of a text, \<open>/%\{([^}]+)\}/\<close>, with what follows it.\<close>

definition token_at :: "string \<Rightarrow> (string \<times> string) option" where
  "token_at s =
     (let body = takeWhile (\<lambda>c. c \<noteq> CHR ''}'') (drop 2 s); rest = dropWhile (\<lambda>c. c \<noteq> CHR ''}'') (drop 2 s) in
      if starts_with ''%{'' s \<and> body \<noteq> [] \<and> rest \<noteq> [] then Some (body, tl rest) else None)"

definition matchExactToken :: "string \<Rightarrow> string option" where
  "matchExactToken s = (case token_at s of Some (body, []) \<Rightarrow> Some body | _ \<Rightarrow> None)"

lemma token_at_shorter: "token_at s = Some (body, rest) \<Longrightarrow> length rest < length s"
  using length_dropWhile_le [of "\<lambda>c. c \<noteq> CHR ''}''" "drop 2 s"]
  by (cases s) (auto simp: token_at_def Let_def starts_with_def split: if_splits)

definition UNRESOLVED_CAPTURE_SENTINEL :: string where
  "UNRESOLVED_CAPTURE_SENTINEL = ''__workflow_unresolved_capture__''"

text \<open>\<open>String(n)\<close> of a number.\<close>

fun num_string :: "jnum \<Rightarrow> string" where
  "num_string NaN = ''NaN''"
| "num_string (Infinite negative) = (if negative then ''-Infinity'' else ''Infinity'')"
| "num_string n = num_text n"

fun stringifyInterpolationValue :: "jval \<Rightarrow> string" where
  "stringifyInterpolationValue (JStr s) = (if s = UNRESOLVED_CAPTURE_SENTINEL then ''[unresolved-capture]'' else s)"
| "stringifyInterpolationValue JNull = []"
| "stringifyInterpolationValue JUndef = []"
| "stringifyInterpolationValue (JNum n) = num_string n"
| "stringifyInterpolationValue (JBool b) = (if b then ''true'' else ''false'')"
| "stringifyInterpolationValue v = (case json_text v of Some t \<Rightarrow> t | None \<Rightarrow> ''undefined'')"

definition in_quotes :: "string \<Rightarrow> string" where
  "in_quotes s = CHR 0x27 # s @ [CHR 0x27]"

definition missing_variable :: "string \<Rightarrow> string \<Rightarrow> string" where
  "missing_variable p name = ''Step '' @ p @ '' references missing variable '' @ in_quotes name"

text \<open>\<open>value.replaceAll(TOKEN_PATTERN, ...)\<close>: the leftmost missing variable ends it.\<close>

function replace_tokens :: "variables \<Rightarrow> string \<Rightarrow> string \<Rightarrow> string + string" where
  "replace_tokens vars p s =
     (case token_at s of
        Some (name, rest) \<Rightarrow>
          (case resolveVariable name vars of
             None \<Rightarrow> Inl (missing_variable p name)
           | Some v \<Rightarrow> seq (replace_tokens vars p rest) (\<lambda>t. Inr (stringifyInterpolationValue v @ t)))
      | None \<Rightarrow> (case s of [] \<Rightarrow> Inr [] | c # cs \<Rightarrow> seq (replace_tokens vars p cs) (\<lambda>t. Inr (c # t))))"
  by pat_completeness auto
termination
  by (relation "measure (\<lambda>(vars, p, s). length s)") (auto simp: token_at_shorter)

declare replace_tokens.simps [simp del]

definition substitute_string :: "variables \<Rightarrow> string \<Rightarrow> string \<Rightarrow> string + jval" where
  "substitute_string vars p s =
     (case matchExactToken s of
        Some name \<Rightarrow>
          (case resolveVariable name vars of None \<Rightarrow> Inl (missing_variable p name) | Some v \<Rightarrow> Inr v)
      | None \<Rightarrow> seq (replace_tokens vars p s) (\<lambda>t. Inr (JStr t)))"

fun substituteValue :: "variables \<Rightarrow> string \<Rightarrow> jval \<Rightarrow> string + jval"
  and substitute_list :: "variables \<Rightarrow> string \<Rightarrow> jval list \<Rightarrow> string + jval list"
  and substitute_fields :: "variables \<Rightarrow> string \<Rightarrow> (string \<times> jval) list \<Rightarrow> string + (string \<times> jval) list" where
  "substituteValue vars p (JStr s) = substitute_string vars p s"
| "substituteValue vars p (JArr xs) = seq (substitute_list vars p xs) (\<lambda>ys. Inr (JArr ys))"
| "substituteValue vars p (JObj fs) = seq (substitute_fields vars p fs) (\<lambda>gs. Inr (JObj gs))"
| "substituteValue vars p v = Inr v"
| "substitute_list vars p [] = Inr []"
| "substitute_list vars p (x # xs) = seq (substituteValue vars p x) (\<lambda>y. seq (substitute_list vars p xs) (\<lambda>ys. Inr (y # ys)))"
| "substitute_fields vars p [] = Inr []"
| "substitute_fields vars p ((k, v) # fs) =
     seq (substituteValue vars p v) (\<lambda>w. seq (substitute_fields vars p fs) (\<lambda>gs. Inr ((k, w) # gs)))"

definition resolveEachSource :: "string \<Rightarrow> variables \<Rightarrow> bool \<Rightarrow> string \<Rightarrow> string + jval" where
  "resolveEachSource expr vars dryRun p =
     (case matchExactToken expr of
        Some name \<Rightarrow>
          (case resolveVariable name vars of None \<Rightarrow> Inl (missing_variable p name) | Some v \<Rightarrow> Inr v)
      | None \<Rightarrow>
          (case resolveVariable expr vars of
             Some v \<Rightarrow> Inr v
           | None \<Rightarrow>
               if dryRun then Inr (JStr UNRESOLVED_CAPTURE_SENTINEL)
               else Inl (''Step '' @ p @ '' references missing loop source '' @ in_quotes expr)))"

subsection \<open>Recorded values\<close>

lemma json_text_data: "json_text v \<noteq> None \<Longrightarrow> json_text (json_data v) = json_text v"
proof (induction v)
  case (JNum n)
  then show ?case by (cases n) simp_all
next
  case (JArr xs)
  have "(case json_text (json_data x) of Some t \<Rightarrow> t | None \<Rightarrow> ''null'') = (case json_text x of Some t \<Rightarrow> t | None \<Rightarrow> ''null'')"
    if "x \<in> set xs" for x
  proof (cases "json_text x")
    case None
    then have "json_data x = JNull" by (cases x) simp_all
    with None show ?thesis by simp
  next
    case (Some t)
    with JArr.IH [OF that] show ?thesis by simp
  qed
  then show ?case by (simp add: comp_def cong: map_cong)
next
  case (JObj fs)
  have "concat (map (\<lambda>(k, v). case json_text v of Some t \<Rightarrow> [quote k @ '':'' @ t] | None \<Rightarrow> [])
        (concat (map (\<lambda>(k, v). if json_text v = None then [] else [(k, json_data v)]) gs)))
      = concat (map (\<lambda>(k, v). case json_text v of Some t \<Rightarrow> [quote k @ '':'' @ t] | None \<Rightarrow> []) gs)"
    if "set gs \<subseteq> set fs" for gs
    using that
  proof (induction gs)
    case (Cons g gs)
    obtain k v where g: "g = (k, v)" by fastforce
    with Cons.prems JObj.IH [of "(k, v)" v] have "json_text v \<noteq> None \<Longrightarrow> json_text (json_data v) = json_text v" by auto
    with Cons g show ?case by (cases "json_text v") simp_all
  qed simp
  from this [of fs] show ?case by simp
qed simp_all

lemma normalized_has_text: "json_text (json_data v) \<noteq> None"
  by (cases v) auto

text \<open>What is recorded for a value that is not a string: its JSON form, or a preview no longer than the limit.\<close>

lemma bound_value_text:
  assumes "\<And>s. v \<noteq> JStr s"
  shows "boundValue v n = json_data v \<and> length (the (json_text (json_data v))) \<le> n
    \<or> (\<exists>t. boundValue v n = JObj [(''truncated'', JBool True), (''originalLength'', jint (int (length t))), (''preview'', JStr (take n t))]
         \<and> json_text (json_data v) = Some t \<and> n < length t)"
  using assms normalized_has_text [of v]
  by (cases v) (auto simp: boundValue_def normalizeWireValue_def Let_def)

subsection \<open>Substitution\<close>

text \<open>The names of the tokens of a text, and of a value.\<close>

function tokens :: "string \<Rightarrow> string list" where
  "tokens s =
     (case token_at s of
        Some (name, rest) \<Rightarrow> name # tokens rest
      | None \<Rightarrow> (case s of [] \<Rightarrow> [] | c # cs \<Rightarrow> tokens cs))"
  by pat_completeness auto
termination
  by (relation "measure length") (auto simp: token_at_shorter)

declare tokens.simps [simp del]

fun value_tokens :: "jval \<Rightarrow> string list" where
  "value_tokens (JStr s) = tokens s"
| "value_tokens (JArr xs) = concat (map value_tokens xs)"
| "value_tokens (JObj fs) = concat (map (\<lambda>(k, v). value_tokens v) fs)"
| "value_tokens v = []"

lemma token_at_Nil [simp]: "token_at [] = None"
  by (simp add: token_at_def starts_with_def)

lemma tokens_step [simp]:
  "tokens [] = []"
  "token_at s = Some (name, rest) \<Longrightarrow> tokens s = name # tokens rest"
  "token_at (c # cs) = None \<Longrightarrow> tokens (c # cs) = tokens cs"
  by (subst tokens.simps, simp)+

lemma replace_step [simp]:
  "replace_tokens vars p [] = Inr []"
  "token_at s = Some (name, rest) \<Longrightarrow> replace_tokens vars p s = (case resolveVariable name vars of
     None \<Rightarrow> Inl (missing_variable p name)
   | Some v \<Rightarrow> seq (replace_tokens vars p rest) (\<lambda>t. Inr (stringifyInterpolationValue v @ t)))"
  "token_at (c # cs) = None \<Longrightarrow> replace_tokens vars p (c # cs) = seq (replace_tokens vars p cs) (\<lambda>t. Inr (c # t))"
  by (subst replace_tokens.simps, simp)+

lemma exact_token: "matchExactToken s = Some name \<Longrightarrow> tokens s = [name]"
proof -
  assume "matchExactToken s = Some name"
  then have "token_at s = Some (name, [])"
    by (auto simp: matchExactToken_def split: option.splits prod.splits list.splits)
  then show ?thesis by simp
qed

lemma seq_fails: "(\<exists>e. seq r f = Inl e) \<longleftrightarrow> (\<exists>e. r = Inl e) \<or> (\<exists>a e. r = Inr a \<and> f a = Inl e)"
  by (cases r) auto

lemma replace_fails:
  "(\<exists>e. replace_tokens vars p s = Inl e) \<longleftrightarrow> (\<exists>name \<in> set (tokens s). resolveVariable name vars = None)"
proof (induction s rule: tokens.induct)
  case (1 s)
  show ?case
  proof (cases "token_at s")
    case (Some t)
    obtain name rest where t: "t = (name, rest)" by fastforce
    from "1.IH"(2) [OF Some, of name rest] Some t show ?thesis
      by (cases "resolveVariable name vars") (auto simp: seq_fails)
  next
    case None
    with "1.IH"(1) [OF None] show ?thesis
      by (cases s) (auto simp: seq_fails)
  qed
qed

lemma replace_plain: "tokens s = [] \<Longrightarrow> replace_tokens vars p s = Inr s"
proof (induction s rule: tokens.induct)
  case (1 s)
  show ?case
  proof (cases "token_at s")
    case (Some t)
    with "1.prems" show ?thesis by (cases t) simp
  next
    case None
    with "1.IH"(1) [OF None] "1.prems" show ?thesis
      by (cases s) auto
  qed
qed

lemma substitute_string_fails:
  "(\<exists>e. substitute_string vars p s = Inl e) \<longleftrightarrow> (\<exists>name \<in> set (tokens s). resolveVariable name vars = None)"
proof (cases "matchExactToken s")
  case None
  then show ?thesis by (auto simp: substitute_string_def seq_fails simp flip: replace_fails [of vars p])
next
  case (Some name)
  then show ?thesis by (auto simp: substitute_string_def exact_token split: option.split)
qed

lemma substitute_fails:
  "(\<exists>e. substituteValue vars p v = Inl e) \<longleftrightarrow> (\<exists>name \<in> set (value_tokens v). resolveVariable name vars = None)"
  "(\<exists>e. substitute_list vars p xs = Inl e) \<longleftrightarrow> (\<exists>name \<in> set (value_tokens (JArr xs)). resolveVariable name vars = None)"
  "(\<exists>e. substitute_fields vars p fs = Inl e) \<longleftrightarrow> (\<exists>name \<in> set (value_tokens (JObj fs)). resolveVariable name vars = None)"
proof (induction v and xs and fs rule: substituteValue_substitute_list_substitute_fields.induct)
  case (1 vars p s)
  then show ?case by (simp add: substitute_string_fails)
next
  case (6 vars p x xs)
  then show ?case by (cases "substituteValue vars p x") (auto simp: seq_fails)
next
  case (8 vars p k v fs)
  then show ?case by (cases "substituteValue vars p v") (auto simp: seq_fails)
qed (simp_all add: seq_fails)

lemma substitute_plain:
  "value_tokens v = [] \<Longrightarrow> substituteValue vars p v = Inr v"
  "value_tokens (JArr xs) = [] \<Longrightarrow> substitute_list vars p xs = Inr xs"
  "value_tokens (JObj fs) = [] \<Longrightarrow> substitute_fields vars p fs = Inr fs"
proof (induction v and xs and fs rule: substituteValue_substitute_list_substitute_fields.induct)
  case (1 vars p s)
  moreover have "matchExactToken s = None" using exact_token [of s] 1 by (cases "matchExactToken s") auto
  ultimately show ?case by (simp add: substitute_string_def replace_plain)
qed simp_all

text \<open>
  Substitution of step parameters: it fails exactly when a token of the value names no variable; a
  value without tokens is left as it is; and a string that is one whole token becomes the variable's
  value itself, whatever its type.
\<close>
theorem substitution_exact:
  "((\<exists>e. substituteValue vars p v = Inl e) \<longleftrightarrow> (\<exists>name \<in> set (value_tokens v). resolveVariable name vars = None))
   \<and> (value_tokens v = [] \<longrightarrow> substituteValue vars p v = Inr v)
   \<and> (name \<noteq> [] \<and> CHR ''}'' \<notin> set name \<and> resolveVariable name vars = Some w
        \<longrightarrow> substituteValue vars p (JStr (''%{'' @ name @ ''}'')) = Inr w)"
proof -
  have "matchExactToken (''%{'' @ name @ ''}'') = Some name" if "name \<noteq> []" "CHR ''}'' \<notin> set name"
    using that by (simp add: matchExactToken_def token_at_def Let_def starts_with_def takeWhile_append dropWhile_append)
  then show ?thesis using substitute_fails(1) [of vars p v] substitute_plain(1) [of v vars p]
    by (auto simp: substitute_string_def)
qed

theorem substitution_exact_witness:
  "substituteValue [(''a'', jint 1)] ''0'' (JStr ''%{a}'') = Inr (jint 1)
   \<and> substituteValue [(''a'', jint 1)] ''0'' (JStr ''a'') = Inr (JStr ''a'')"
proof -
  have "resolveVariable ''a'' [(''a'', jint 1)] = Some (jint 1)" "value_tokens (JStr ''a'') = []" by code_simp+
  then show ?thesis
    using substitution_exact [of "[(''a'', jint 1)]" "''0''" "JStr ''a''" "''a''" "jint 1"] by simp
qed

end
