(* ===== verification/WorkflowEngine.thy ===== *)
theory WorkflowEngine
  imports WorkflowData
begin

section \<open>The workflow engine\<close>

text \<open>
  \<open>WorkflowEngine\<close> (\<open>packages/extension/src/tools/workflow-engine.ts\<close>): a workflow is a tree of
  command, assertion, repeat and each steps that is run against a dispatcher of browser commands.
  The world the dispatcher acts on is a type parameter; the abort signal is read from it, so it can
  change only while a command runs. A step changes a shared state: the variables, the pinned target,
  what is recorded. The error of the execution ceiling is the one exception that leaves a step; it is
  the outcome \<open>Thrown\<close>. Times and durations are left out. The schema check of a workflow
  (\<open>validateWorkflowDefinition\<close>, by a library) is the argument of \<open>run_workflow\<close>.
\<close>

subsection \<open>Workflows\<close>

datatype on_error = Stop | Proceed

datatype wf_step =
    CommandStep string "(string \<times> jval) list option" "string option" "jval option" "on_error option"
  | AssertStep "(string \<times> jval) list" "string option" "jval option" "on_error option"
  | RepeatStep nat "wf_step list" "on_error option"
  | EachStep string "string option" "string option" "wf_step list" "on_error option"

datatype target_mode = ActiveTab | NewTab | PinnedTab

record target_state =
  targetMode :: target_mode
  targetTab :: "jnum option"
  targetFrame :: "jnum option"

record arg_definition =
  argRequired :: bool
  argDefault :: "jval option"

record workflow =
  wfName :: "string option"
  wfArgs :: "(string \<times> arg_definition) list"
  wfTarget :: "target_state option"
  wfDefaultWait :: "jval option"
  wfSteps :: "wf_step list"

definition WORKFLOW_MAX_LOOP_ITERATIONS :: nat where "WORKFLOW_MAX_LOOP_ITERATIONS = 100"

definition DEFAULT_ALLOWED_METHODS :: "string list" where
  "DEFAULT_ALLOWED_METHODS = [''navigate'', ''repl'', ''screenshot'', ''eval'', ''page_snapshot'', ''page_assert'',
     ''locate_by_role'', ''locate_by_text'', ''locate_by_label'', ''ref_click'', ''ref_fill'', ''frame_list'', ''frame_tree'',
     ''network_start'', ''network_stop'', ''network_list'', ''network_clear'', ''network_stats'', ''network_get'',
     ''network_body'', ''network_curl'', ''device_emulate'', ''device_reset'', ''perf_metrics'', ''perf_trace_start'',
     ''perf_trace_stop'', ''record_start'', ''record_stop'', ''record_status'']"

definition DISALLOWED_METHODS :: "string list" where
  "DISALLOWED_METHODS = [''workflow_run'', ''workflow_validate'', ''select_element'']"

definition TARGETABLE_METHODS :: "string list" where
  "TARGETABLE_METHODS = [''navigate'', ''repl'', ''screenshot'', ''eval'', ''page_snapshot'', ''page_assert'',
     ''locate_by_role'', ''locate_by_text'', ''locate_by_label'', ''ref_click'', ''ref_fill'', ''frame_list'', ''frame_tree'',
     ''network_start'', ''network_stop'', ''network_list'', ''network_clear'', ''network_stats'', ''network_get'',
     ''network_body'', ''network_curl'', ''device_emulate'', ''device_reset'', ''perf_metrics'', ''perf_trace_start'',
     ''perf_trace_stop'', ''record_start'', ''record_status'']"

subsection \<open>The engine and the state of a run\<close>

text \<open>What a dispatched command throws: whether it is an \<open>Error\<close>, and its message or text.\<close>

datatype thrown = ErrorObject string | OtherValue string

fun thrown_message :: "thrown \<Rightarrow> string" where
  "thrown_message (ErrorObject m) = m"
| "thrown_message (OtherValue m) = m"

record 'w engine =
  dispatch :: "string \<Rightarrow> (string \<times> jval) list option \<Rightarrow> 'w \<Rightarrow> 'w \<times> (thrown + jval)"
  signalAborted :: "'w \<Rightarrow> bool"
  allowedMethods :: "string list"
  maxLoopIterations :: nat
  maxTotalStepExecutions :: nat
  maxRecordedSteps :: nat
  maxStepResultChars :: nat
  maxCaptureChars :: nat

definition new_engine ::
  "(string \<Rightarrow> (string \<times> jval) list option \<Rightarrow> 'w \<Rightarrow> 'w \<times> (thrown + jval)) \<Rightarrow> ('w \<Rightarrow> bool) \<Rightarrow> 'w engine" where
  "new_engine d a = \<lparr>dispatch = d, signalAborted = a, allowedMethods = DEFAULT_ALLOWED_METHODS,
     maxLoopIterations = WORKFLOW_MAX_LOOP_ITERATIONS, maxTotalStepExecutions = 500, maxRecordedSteps = 500,
     maxStepResultChars = 12000, maxCaptureChars = 16000\<rparr>"

datatype step_kind = CommandKind | AssertKind | RepeatKind | EachKind

datatype step_status = StepOk | StepError | StepAborted

record step_result =
  stepPath :: string
  stepKind :: step_kind
  stepStatus :: step_status
  stepMethod :: "string option"
  stepWait :: "jval option"
  stepAs :: "string option"
  stepIterations :: "nat option"
  stepResult :: "jval option"
  stepMessage :: "string option"

record 'w run_state =
  world :: 'w
  vars :: variables
  pinned :: target_state
  executedSteps :: nat
  recorded :: "step_result list"
  errors :: "string list"
  warnings :: "(string \<times> string) list"
  droppedResults :: nat
  droppedCaptures :: nat
  captured :: "(string, jval) omap"

record run_context =
  dryRun :: bool
  defaultWait :: "jval option"

datatype outcome = Continue | Halted | Aborted | Thrown string

definition recordStep :: "'w engine \<Rightarrow> step_result \<Rightarrow> bool \<Rightarrow> 'w run_state \<Rightarrow> 'w run_state" where
  "recordStep cfg r isError s =
     (let s1 = (if length (recorded s) < maxRecordedSteps cfg then s\<lparr>recorded := recorded s @ [r]\<rparr>
                else s\<lparr>droppedResults := droppedResults s + 1\<rparr>) in
      if isError \<or> stepStatus r = StepError
      then s1\<lparr>errors := errors s1 @
        [''['' @ stepPath r @ ''] '' @ (case stepMessage r of Some m \<Rightarrow> if m = [] then ''step failed'' else m | None \<Rightarrow> ''step failed'')]\<rparr>
      else s1)"

subsection \<open>Targets\<close>

definition createTargetState :: "target_state option \<Rightarrow> target_state" where
  "createTargetState t = (case t of Some x \<Rightarrow> x | None \<Rightarrow> \<lparr>targetMode = ActiveTab, targetTab = None, targetFrame = None\<rparr>)"

definition applyTargetToParams ::
  "string \<Rightarrow> (string \<times> jval) list option \<Rightarrow> string \<Rightarrow> 'w run_state \<Rightarrow> 'w run_state \<times> (string \<times> jval) list option" where
  "applyTargetToParams m params p s =
     (let t = pinned s in
      if m \<notin> set TARGETABLE_METHODS \<or> targetMode t = ActiveTab then (s, params)
      else
        let next = (case params of Some fs \<Rightarrow> fs | None \<Rightarrow> []);
            hasTab = jhas ''tabId'' next; hasFrame = jhas ''frameId'' next in
        if targetMode t = NewTab \<and> targetTab t = None then
          (if m = ''navigate'' \<and> \<not> hasTab
           then (s, Some (oset ''newTab'' (JBool (jget ''newTab'' next \<noteq> JBool False)) next))
           else (s\<lparr>warnings := warnings s @ [(p, ''Step '' @ p @ '' uses targetable method '' @ in_quotes m
               @ '' before new-tab target pinning has a tabId'')]\<rparr>, params))
        else
          let next1 = (case targetTab t of Some i \<Rightarrow> if hasTab then next else oset ''tabId'' (JNum i) next | None \<Rightarrow> next);
              next2 = (case targetFrame t of
                  Some i \<Rightarrow> if m = ''navigate'' \<or> hasFrame then next1 else oset ''frameId'' (JNum i) next1
                | None \<Rightarrow> next1) in
          (s, Some next2))"

definition updatePinnedTargetFromResult :: "string \<Rightarrow> jval \<Rightarrow> target_state \<Rightarrow> target_state" where
  "updatePinnedTargetFromResult m result t =
     (if m \<noteq> ''navigate'' \<or> targetMode t \<noteq> NewTab \<or> targetTab t \<noteq> None then t
      else case result of
        JObj fs \<Rightarrow>
          (case jget ''tabId'' fs of
             JNum i \<Rightarrow> (case jget ''frameId'' fs of
                 JNum f \<Rightarrow> t\<lparr>targetTab := Some i, targetFrame := Some f\<rparr>
               | _ \<Rightarrow> t\<lparr>targetTab := Some i\<rparr>)
           | _ \<Rightarrow> t)
      | _ \<Rightarrow> t)"

subsection \<open>Leaf steps\<close>

definition stops :: "on_error option \<Rightarrow> bool" where
  "stops policy \<longleftrightarrow> (case policy of Some Proceed \<Rightarrow> False | _ \<Rightarrow> True)"

definition stop_outcome :: "on_error option \<Rightarrow> outcome" where
  "stop_outcome policy = (if stops policy then Halted else Continue)"

definition waits :: "jval option \<Rightarrow> run_context \<Rightarrow> jval option" where
  "waits w ctx = (case w of Some x \<Rightarrow> Some x | None \<Rightarrow> defaultWait ctx)"

definition ascii_lower :: "char \<Rightarrow> char" where
  "ascii_lower c = (if CHR ''A'' \<le> c \<and> c \<le> CHR ''Z'' then char_of (of_char c + 32 :: nat) else c)"

fun contains :: "string \<Rightarrow> string \<Rightarrow> bool" where
  "contains p [] = (p = [])"
| "contains p (c # cs) = (starts_with p (c # cs) \<or> contains p cs)"

definition isAbortError :: "'w engine \<Rightarrow> thrown \<Rightarrow> 'w \<Rightarrow> bool" where
  "isAbortError cfg err w \<longleftrightarrow> signalAborted cfg w
     \<or> (case err of ErrorObject m \<Rightarrow> contains ''abort'' (map ascii_lower m) | OtherValue _ \<Rightarrow> False)"

definition assertionResultOk :: "jval \<Rightarrow> bool" where
  "assertionResultOk v = (case v of JObj fs \<Rightarrow> jget ''ok'' fs = JBool True | _ \<Rightarrow> False)"

definition assertionResultMessage :: "jval \<Rightarrow> string" where
  "assertionResultMessage v =
     (case v of JObj fs \<Rightarrow> (case jget ''message'' fs of JStr m \<Rightarrow> m | _ \<Rightarrow> ''Workflow assertion failed'')
      | _ \<Rightarrow> ''Workflow assertion failed'')"

text \<open>The capture of a result under the name of the step's \<open>as\<close>.\<close>

definition capture :: "'w engine \<Rightarrow> run_context \<Rightarrow> string option \<Rightarrow> jval \<Rightarrow> 'w run_state \<Rightarrow> 'w run_state" where
  "capture cfg ctx name result s =
     (case name of
        None \<Rightarrow> s
      | Some k \<Rightarrow>
          let s1 = s\<lparr>vars := oset k (if dryRun ctx then JStr UNRESOLVED_CAPTURE_SENTINEL else result) (vars s)\<rparr> in
          if length (captured s1) < maxRecordedSteps cfg
          then s1\<lparr>captured := oset k (boundValue result (maxCaptureChars cfg)) (captured s1)\<rparr>
          else s1\<lparr>droppedCaptures := droppedCaptures s1 + 1\<rparr>)"

definition command_result :: "string \<Rightarrow> step_kind \<Rightarrow> string \<Rightarrow> jval option \<Rightarrow> string option \<Rightarrow> step_status
     \<Rightarrow> jval option \<Rightarrow> string option \<Rightarrow> step_result" where
  "command_result p kind m w name status result message = \<lparr>stepPath = p, stepKind = kind, stepStatus = status,
     stepMethod = Some m, stepWait = w, stepAs = name, stepIterations = None, stepResult = result, stepMessage = message\<rparr>"

text \<open>How a command or assertion that failed before or in its dispatch is recorded.\<close>

definition failed_step ::
  "'w engine \<Rightarrow> string \<Rightarrow> step_kind \<Rightarrow> string \<Rightarrow> jval option \<Rightarrow> string option \<Rightarrow> on_error option \<Rightarrow> string
     \<Rightarrow> 'w run_state \<Rightarrow> 'w run_state \<times> outcome" where
  "failed_step cfg p kind m w name policy message s =
     (recordStep cfg (command_result p kind m w name StepError None (Some message)) (stops policy) s, stop_outcome policy)"

definition thrown_step ::
  "'w engine \<Rightarrow> string \<Rightarrow> step_kind \<Rightarrow> string \<Rightarrow> jval option \<Rightarrow> string option \<Rightarrow> on_error option \<Rightarrow> thrown
     \<Rightarrow> 'w run_state \<Rightarrow> 'w run_state \<times> outcome" where
  "thrown_step cfg p kind m w name policy err s =
     (if isAbortError cfg err (world s)
      then (recordStep cfg (command_result p kind m w name StepAborted None (Some (thrown_message err))) False s, Aborted)
      else failed_step cfg p kind m w name policy (thrown_message err) s)"

text \<open>The dispatch of a step with its target applied; a dry run dispatches nothing.\<close>

definition dispatch_step ::
  "'w engine \<Rightarrow> run_context \<Rightarrow> string \<Rightarrow> (string \<times> jval) list option \<Rightarrow> jval \<Rightarrow> string \<Rightarrow> 'w run_state
     \<Rightarrow> 'w run_state \<times> (thrown + jval)" where
  "dispatch_step cfg ctx m params dry p s0 =
     (case applyTargetToParams m params p s0 of
        (s, targetParams) \<Rightarrow>
          if dryRun ctx then (s, Inr dry)
          else (case dispatch cfg m targetParams (world s) of (w, res) \<Rightarrow> (s\<lparr>world := w\<rparr>, res)))"

definition executeCommandStep ::
  "'w engine \<Rightarrow> run_context \<Rightarrow> string \<Rightarrow> (string \<times> jval) list option \<Rightarrow> string option \<Rightarrow> jval option \<Rightarrow> on_error option
     \<Rightarrow> string \<Rightarrow> 'w run_state \<Rightarrow> 'w run_state \<times> outcome" where
  "executeCommandStep cfg ctx m params name wait policy p s =
     (let w = waits wait ctx; fail = failed_step cfg p CommandKind m w name policy in
      if m \<in> set DISALLOWED_METHODS \<or> starts_with ''session_'' m
      then fail (''Step '' @ p @ '' uses disallowed workflow method: '' @ m) s
      else if m \<notin> set (allowedMethods cfg)
      then fail (''Step '' @ p @ '' method '' @ in_quotes m @ '' is not allowed in workflow mode'') s
      else case (case params of None \<Rightarrow> Inr None
          | Some fs \<Rightarrow> seq (substitute_fields (vars s) p fs) (\<lambda>gs. Inr (Some gs))) of
        Inl message \<Rightarrow> fail message s
      | Inr resolved \<Rightarrow>
          (case dispatch_step cfg ctx m resolved (JObj [(''dryRun'', JBool True)]) p s of
             (s1, Inl err) \<Rightarrow> thrown_step cfg p CommandKind m w name policy err s1
           | (s1, Inr result) \<Rightarrow>
               let s2 = capture cfg ctx name result
                     (s1\<lparr>pinned := updatePinnedTargetFromResult m result (pinned s1)\<rparr>) in
               (recordStep cfg (command_result p CommandKind m w name StepOk
                  (Some (boundValue result (maxStepResultChars cfg))) None) False s2, Continue)))"

definition executeAssertStep ::
  "'w engine \<Rightarrow> run_context \<Rightarrow> (string \<times> jval) list \<Rightarrow> string option \<Rightarrow> jval option \<Rightarrow> on_error option
     \<Rightarrow> string \<Rightarrow> 'w run_state \<Rightarrow> 'w run_state \<times> outcome" where
  "executeAssertStep cfg ctx assertion name wait policy p s =
     (let w = waits wait ctx in
      case substitute_fields (vars s) p assertion of
        Inl message \<Rightarrow> failed_step cfg p AssertKind ''page_assert'' w name policy message s
      | Inr resolved \<Rightarrow>
          (case dispatch_step cfg ctx ''page_assert'' (Some resolved)
              (JObj [(''dryRun'', JBool True), (''ok'', JBool True)]) p s of
             (s1, Inl err) \<Rightarrow> thrown_step cfg p AssertKind ''page_assert'' w name policy err s1
           | (s1, Inr result) \<Rightarrow>
               let s2 = capture cfg ctx name result s1;
                   bounded = Some (boundValue result (maxStepResultChars cfg)) in
               if dryRun ctx \<or> assertionResultOk result
               then (recordStep cfg (command_result p AssertKind ''page_assert'' w name StepOk bounded None) False s2, Continue)
               else (recordStep cfg (command_result p AssertKind ''page_assert'' w name StepError bounded
                   (Some (assertionResultMessage result))) (stops policy) s2, stop_outcome policy)))"

subsection \<open>Loops\<close>

definition loop_result :: "string \<Rightarrow> step_kind \<Rightarrow> step_status \<Rightarrow> nat option \<Rightarrow> string option \<Rightarrow> step_result" where
  "loop_result p kind status n message = \<lparr>stepPath = p, stepKind = kind, stepStatus = status, stepMethod = None,
     stepWait = None, stepAs = None, stepIterations = n, stepResult = None, stepMessage = message\<rparr>"

definition failed_loop ::
  "'w engine \<Rightarrow> string \<Rightarrow> step_kind \<Rightarrow> on_error option \<Rightarrow> nat option \<Rightarrow> string \<Rightarrow> 'w run_state \<Rightarrow> 'w run_state \<times> outcome" where
  "failed_loop cfg p kind policy n message s =
     (recordStep cfg (loop_result p kind StepError n (Some message)) (stops policy) s, stop_outcome policy)"

definition aborted_loop :: "'w engine \<Rightarrow> string \<Rightarrow> step_kind \<Rightarrow> nat \<Rightarrow> 'w run_state \<Rightarrow> 'w run_state \<times> outcome" where
  "aborted_loop cfg p kind n s =
     (recordStep cfg (loop_result p kind StepAborted (Some n) (Some ''Workflow aborted'')) False s, Aborted)"

text \<open>The iterations of a loop step from the \<open>i\<close>-th on, with \<open>k\<close> of them left.\<close>

fun iterations ::
  "'w engine \<Rightarrow> string \<Rightarrow> step_kind \<Rightarrow> on_error option \<Rightarrow> (nat \<Rightarrow> 'w run_state \<Rightarrow> 'w run_state \<times> outcome)
     \<Rightarrow> nat \<Rightarrow> nat \<Rightarrow> 'w run_state \<Rightarrow> 'w run_state \<times> outcome" where
  "iterations cfg p kind policy body i 0 s = (recordStep cfg (loop_result p kind StepOk (Some i) None) False s, Continue)"
| "iterations cfg p kind policy body i (Suc k) s =
     (if signalAborted cfg (world s) then aborted_loop cfg p kind i s
      else case body i s of
        (s1, Continue) \<Rightarrow> iterations cfg p kind policy body (Suc i) k s1
      | (s1, Aborted) \<Rightarrow> aborted_loop cfg p kind (Suc i) s1
      | (s1, Halted) \<Rightarrow> failed_loop cfg p kind policy (Some (Suc i)) (''Iteration '' @ decimal (Suc i) @ '' failed'') s1
      | (s1, Thrown m) \<Rightarrow> (s1, Thrown m))"

definition executeRepeatStep ::
  "'w engine \<Rightarrow> nat \<Rightarrow> on_error option \<Rightarrow> (string \<Rightarrow> 'w run_state \<Rightarrow> 'w run_state \<times> outcome)
     \<Rightarrow> string \<Rightarrow> 'w run_state \<Rightarrow> 'w run_state \<times> outcome" where
  "executeRepeatStep cfg n policy body p s =
     (if n > maxLoopIterations cfg
      then failed_loop cfg p RepeatKind policy (Some n) (''Step '' @ p @ '' repeat count '' @ decimal n
        @ '' exceeds loop ceiling '' @ decimal (maxLoopIterations cfg)) s
      else iterations cfg p RepeatKind policy (\<lambda>i. body (p @ ''.repeat'' @ decimal i)) 0 n s)"

text \<open>The body of an each step runs on a copy of the variables with the item and its index.\<close>

definition each_body ::
  "(string \<Rightarrow> 'w run_state \<Rightarrow> 'w run_state \<times> outcome) \<Rightarrow> string \<Rightarrow> string \<Rightarrow> jval list \<Rightarrow> string \<Rightarrow> nat
     \<Rightarrow> 'w run_state \<Rightarrow> 'w run_state \<times> outcome" where
  "each_body body item index items p i s =
     (case body (p @ ''.each'' @ decimal i)
         (s\<lparr>vars := oset index (jint (int i)) (oset item (element (items ! i)) (vars s))\<rparr>) of
        (s1, out) \<Rightarrow> (s1\<lparr>vars := vars s\<rparr>, out))"

definition executeEachStep ::
  "'w engine \<Rightarrow> run_context \<Rightarrow> string \<Rightarrow> string option \<Rightarrow> string option \<Rightarrow> on_error option
     \<Rightarrow> (string \<Rightarrow> 'w run_state \<Rightarrow> 'w run_state \<times> outcome) \<Rightarrow> string \<Rightarrow> 'w run_state \<Rightarrow> 'w run_state \<times> outcome" where
  "executeEachStep cfg ctx source item index policy body p s =
     (case resolveEachSource source (vars s) (dryRun ctx) p of
        Inl message \<Rightarrow> failed_loop cfg p EachKind policy None message s
      | Inr v \<Rightarrow>
          (case (if v = JStr UNRESOLVED_CAPTURE_SENTINEL \<and> dryRun ctx then JArr [v] else v) of
             JArr items \<Rightarrow>
               if length items > maxLoopIterations cfg
               then failed_loop cfg p EachKind policy (Some (length items)) (''Step '' @ p @ '' has '' @ decimal (length items)
                 @ '' loop items, above the ceiling '' @ decimal (maxLoopIterations cfg)) s
               else iterations cfg p EachKind policy
                 (each_body body (case item of Some x \<Rightarrow> x | None \<Rightarrow> ''item'') (case index of Some x \<Rightarrow> x | None \<Rightarrow> ''index'') items p)
                 0 (length items) s
           | _ \<Rightarrow> failed_loop cfg p EachKind policy None (''Step '' @ p @ '' each source must resolve to an array'') s))"

subsection \<open>Steps\<close>

definition ceiling_message :: "nat \<Rightarrow> string" where
  "ceiling_message n = ''Workflow exceeded execution ceiling of '' @ decimal n
     @ '' step nodes. Lower loop counts or split the workflow.''"

definition step_path :: "string \<Rightarrow> nat \<Rightarrow> string" where
  "step_path prefix i = (if prefix = [] then decimal i else prefix @ ''.'' @ decimal i)"

fun executeSteps :: "'w engine \<Rightarrow> run_context \<Rightarrow> wf_step list \<Rightarrow> string \<Rightarrow> nat \<Rightarrow> 'w run_state \<Rightarrow> 'w run_state \<times> outcome"
  and executeStep :: "'w engine \<Rightarrow> run_context \<Rightarrow> wf_step \<Rightarrow> string \<Rightarrow> 'w run_state \<Rightarrow> 'w run_state \<times> outcome"
  and step_body :: "'w engine \<Rightarrow> run_context \<Rightarrow> wf_step \<Rightarrow> string \<Rightarrow> 'w run_state \<Rightarrow> 'w run_state \<times> outcome" where
  "executeSteps cfg ctx [] prefix i s = (s, Continue)"
| "executeSteps cfg ctx (t # ts) prefix i s =
     (if signalAborted cfg (world s) then (s, Aborted)
      else case executeStep cfg ctx t (step_path prefix i) s of
        (s1, Continue) \<Rightarrow> executeSteps cfg ctx ts prefix (Suc i) s1
      | (s1, out) \<Rightarrow> (s1, out))"
| "executeStep cfg ctx t p s0 =
     (let s = s0\<lparr>executedSteps := executedSteps s0 + 1\<rparr> in
      if executedSteps s > maxTotalStepExecutions cfg then (s, Thrown (ceiling_message (maxTotalStepExecutions cfg)))
      else step_body cfg ctx t p s)"
| "step_body cfg ctx (CommandStep m params name wait policy) p s = executeCommandStep cfg ctx m params name wait policy p s"
| "step_body cfg ctx (AssertStep assertion name wait policy) p s = executeAssertStep cfg ctx assertion name wait policy p s"
| "step_body cfg ctx (RepeatStep n body policy) p s =
     executeRepeatStep cfg n policy (\<lambda>q s. executeSteps cfg ctx body q 0 s) p s"
| "step_body cfg ctx (EachStep source item index body policy) p s =
     executeEachStep cfg ctx source item index policy (\<lambda>q s. executeSteps cfg ctx body q 0 s) p s"

subsection \<open>Runs\<close>

definition formatErrorPath :: "string \<Rightarrow> string" where
  "formatErrorPath p = (if p = [] then ''$'' else CHR ''$'' # map (\<lambda>c. if c = CHR ''/'' then CHR ''.'' else c) p)"

definition formatWorkflowValidationErrors :: "(string \<times> string) list \<Rightarrow> string list" where
  "formatWorkflowValidationErrors es = map (\<lambda>(p, m). formatErrorPath p @ '': '' @ m) es"

definition initial_variable :: "variables \<Rightarrow> string \<times> arg_definition \<Rightarrow> variables \<times> string list \<Rightarrow> variables \<times> string list" where
  "initial_variable provided nd acc =
     (case (nd, acc) of ((name, d), (values, errs)) \<Rightarrow>
        (case map_of provided name of
           Some v \<Rightarrow> (oset name v values, errs)
         | None \<Rightarrow>
             (case argDefault d of
                Some v \<Rightarrow> (oset name v values, errs)
              | None \<Rightarrow> (values, if argRequired d then errs @ [''Missing required workflow arg: '' @ name] else errs))))"

definition resolveInitialVariables :: "(string \<times> arg_definition) list \<Rightarrow> variables \<Rightarrow> string list + variables" where
  "resolveInitialVariables defs provided =
     (case fold (initial_variable provided) defs ([], []) of
        (values, errs) \<Rightarrow>
          if errs \<noteq> [] then Inl errs
          else Inr (fold (\<lambda>(k, v) vs. if map_of vs k = None then oset k v vs else vs) provided values))"

text \<open>The result of the schema check is the argument: its errors, or the workflow it accepted.\<close>

definition prepareWorkflow ::
  "((string \<times> string) list + workflow) \<Rightarrow> variables \<Rightarrow> string list + (workflow \<times> variables)" where
  "prepareWorkflow checked provided =
     (case checked of
        Inl es \<Rightarrow> Inl (formatWorkflowValidationErrors es)
      | Inr flow \<Rightarrow>
          (case resolveInitialVariables (wfArgs flow) provided of
             Inl es \<Rightarrow> Inl es
           | Inr vs \<Rightarrow>
               if \<exists>t \<in> set_option (wfTarget flow). targetMode t = PinnedTab \<and> targetTab t = None
               then Inl [''Workflow target mode pinned-tab requires target.tabId'']
               else Inr (flow, vs)))"

record run_result =
  resultOk :: bool
  resultAborted :: bool
  resultDryRun :: bool
  resultName :: "string option"
  resultSteps :: "step_result list"
  resultCaptured :: "(string, jval) omap"
  resultErrors :: "string list"
  resultWarnings :: "(string \<times> string) list"
  resultDroppedSteps :: nat
  resultDroppedCaptures :: nat

definition start_state :: "'w \<Rightarrow> workflow \<Rightarrow> variables \<Rightarrow> 'w run_state" where
  "start_state w flow vs = \<lparr>world = w, vars = vs, pinned = createTargetState (wfTarget flow), executedSteps = 0, recorded = [],
     errors = [], warnings = [], droppedResults = 0, droppedCaptures = 0, captured = []\<rparr>"

definition run_workflow ::
  "'w engine \<Rightarrow> ((string \<times> string) list + workflow) \<Rightarrow> variables \<Rightarrow> bool \<Rightarrow> 'w \<Rightarrow> 'w \<times> run_result" where
  "run_workflow cfg checked provided dry w =
     (case prepareWorkflow checked provided of
        Inl es \<Rightarrow> (w, \<lparr>resultOk = False, resultAborted = False, resultDryRun = dry, resultName = None, resultSteps = [],
          resultCaptured = [], resultErrors = es, resultWarnings = [], resultDroppedSteps = 0, resultDroppedCaptures = 0\<rparr>)
      | Inr (flow, vs) \<Rightarrow>
          (case executeSteps cfg \<lparr>dryRun = dry, defaultWait = wfDefaultWait flow\<rparr> (wfSteps flow) [] 0 (start_state w flow vs) of
             (s0, out) \<Rightarrow>
               let s = (case out of Thrown m \<Rightarrow> s0\<lparr>errors := errors s0 @ [m]\<rparr> | _ \<Rightarrow> s0);
                   aborted = (out = Aborted);
                   halted = (case out of Halted \<Rightarrow> True | Thrown _ \<Rightarrow> True | _ \<Rightarrow> False) in
               (world s, \<lparr>resultOk = (\<not> aborted \<and> \<not> halted \<and> errors s = []), resultAborted = aborted, resultDryRun = dry,
                 resultName = wfName flow, resultSteps = recorded s, resultCaptured = captured s, resultErrors = errors s,
                 resultWarnings = warnings s, resultDroppedSteps = droppedResults s,
                 resultDroppedCaptures = droppedCaptures s\<rparr>)))"

definition validate_workflow ::
  "'w engine \<Rightarrow> ((string \<times> string) list + workflow) \<Rightarrow> variables \<Rightarrow> 'w \<Rightarrow> bool \<times> string list" where
  "validate_workflow cfg checked provided w =
     (let r = snd (run_workflow cfg checked provided True w) in (resultOk r, resultErrors r))"

subsection \<open>Laws of a run\<close>

text \<open>
  A relation between the state before and the state after a part of a run, with its outcome, that holds
  of every leaf step, is transitive, and bears the bookkeeping of the loops, holds of every run.
\<close>

locale run_law =
  fixes cfg :: "'w engine" and ctx :: run_context
    and rel :: "'w run_state \<Rightarrow> 'w run_state \<Rightarrow> outcome \<Rightarrow> bool"
  assumes start: "rel s s Continue"
    and seq_rel: "rel s t Continue \<Longrightarrow> rel t u out \<Longrightarrow> rel s u out"
    and stopped: "signalAborted cfg (world s) \<Longrightarrow> rel s s Aborted"
    and ceiling: "maxTotalStepExecutions cfg \<le> executedSteps s \<Longrightarrow> rel s (s\<lparr>executedSteps := Suc (executedSteps s)\<rparr>) (Thrown m)"
    and counted: "executedSteps s < maxTotalStepExecutions cfg \<Longrightarrow> rel s (s\<lparr>executedSteps := Suc (executedSteps s)\<rparr>) Continue"
    and command: "executedSteps s < maxTotalStepExecutions cfg \<Longrightarrow> \<not> signalAborted cfg (world s) \<Longrightarrow>
      executeCommandStep cfg ctx c params name w policy p (s\<lparr>executedSteps := Suc (executedSteps s)\<rparr>) = (t, out) \<Longrightarrow> rel s t out"
    and assertion: "executedSteps s < maxTotalStepExecutions cfg \<Longrightarrow> \<not> signalAborted cfg (world s) \<Longrightarrow>
      executeAssertStep cfg ctx asrt name w policy p (s\<lparr>executedSteps := Suc (executedSteps s)\<rparr>) = (t, out) \<Longrightarrow> rel s t out"
    and scoped: "rel (s\<lparr>vars := v\<rparr>) t out \<Longrightarrow> rel s (t\<lparr>vars := vars s\<rparr>) out"
    and completed: "rel s (recordStep cfg (loop_result p kind StepOk n None) False s) Continue"
    and failed: "failed_loop cfg p kind policy n message s = (t, out) \<Longrightarrow> rel s t out"
    and halted: "rel s t Halted \<Longrightarrow> failed_loop cfg p kind policy n message t = (u, out) \<Longrightarrow> rel s u out"
    and interrupted: "rel s t Aborted \<Longrightarrow> aborted_loop cfg p kind k t = (u, out) \<Longrightarrow> rel s u out"
begin

lemma loop_rel:
  assumes body: "\<And>i s t out. body i s = (t, out) \<Longrightarrow> rel s t out"
  shows "iterations cfg p kind policy body i k s = (t, out) \<Longrightarrow> rel s t out"
proof (induction k arbitrary: i s)
  case 0
  then show ?case using completed by auto
next
  case (Suc k)
  show ?case
  proof (cases "signalAborted cfg (world s)")
    case True
    with Suc.prems interrupted [OF stopped [OF True]] show ?thesis by simp
  next
    case False
    obtain s1 o1 where b: "body i s = (s1, o1)" by fastforce
    note r = body [OF b]
    show ?thesis
    proof (cases o1)
      case Continue
      with Suc.prems False b have "iterations cfg p kind policy body (Suc i) k s1 = (t, out)" by simp
      from seq_rel [OF r [unfolded Continue] Suc.IH [OF this]] show ?thesis .
    next
      case Halted
      with Suc.prems False b show ?thesis using halted [OF r [unfolded Halted]] by simp
    next
      case Aborted
      with Suc.prems False b show ?thesis using interrupted [OF r [unfolded Aborted]] by simp
    next
      case (Thrown m)
      with Suc.prems False b r show ?thesis by simp
    qed
  qed
qed

lemma each_rel:
  assumes body: "\<And>q s t out. body q s = (t, out) \<Longrightarrow> rel s t out" and e: "each_body body item index items p i s = (t, out)"
  shows "rel s t out"
proof -
  obtain u o1 where b: "body (p @ ''.each'' @ decimal i)
      (s\<lparr>vars := oset index (jint (int i)) (oset item (element (items ! i)) (vars s))\<rparr>) = (u, o1)" by fastforce
  with e have "t = u\<lparr>vars := vars s\<rparr>" "out = o1" by (simp_all add: each_body_def)
  with scoped [OF body [OF b]] show ?thesis by simp
qed

lemma repeat_rel:
  assumes "\<And>q s t out. body q s = (t, out) \<Longrightarrow> rel s t out" and "executeRepeatStep cfg n policy body p s = (t, out)"
  shows "rel s t out"
  using assms(2) failed loop_rel [OF assms(1)] by (simp add: executeRepeatStep_def split: if_splits)

lemma each_step_rel:
  assumes body: "\<And>q s t out. body q s = (t, out) \<Longrightarrow> rel s t out"
    and e: "executeEachStep cfg ctx source item index policy body p s = (t, out)"
  shows "rel s t out"
proof (cases "resolveEachSource source (vars s) (dryRun ctx) p")
  case (Inl message)
  with e failed show ?thesis by (simp add: executeEachStep_def)
next
  case (Inr v)
  define w where "w = (if v = JStr UNRESOLVED_CAPTURE_SENTINEL \<and> dryRun ctx then JArr [v] else v)"
  show ?thesis
  proof (cases "\<exists>items. w = JArr items \<and> length items \<le> maxLoopIterations cfg")
    case True
    then obtain items where "w = JArr items" "length items \<le> maxLoopIterations cfg" by blast
    with e Inr show ?thesis
      using loop_rel [OF each_rel [OF body]] by (simp add: executeEachStep_def w_def [symmetric])
  next
    case False
    with e Inr failed show ?thesis
      by (cases w) (simp_all add: executeEachStep_def w_def [symmetric] split: if_splits)
  qed
qed

definition step_holds :: "wf_step \<Rightarrow> bool" where
  "step_holds x \<longleftrightarrow> (\<forall>q s t out. step_body cfg ctx x q (s\<lparr>executedSteps := Suc (executedSteps s)\<rparr>) = (t, out) \<longrightarrow>
     executedSteps s < maxTotalStepExecutions cfg \<longrightarrow> \<not> signalAborted cfg (world s) \<longrightarrow> rel s t out)"

lemma one_step:
  assumes "step_holds x" and e: "executeStep cfg ctx x q s = (t, out)" and "\<not> signalAborted cfg (world s)"
  shows "rel s t out"
proof (cases "maxTotalStepExecutions cfg \<le> executedSteps s")
  case True
  with e ceiling show ?thesis by auto
next
  case False
  with e assms(1,3) show ?thesis by (auto simp: step_holds_def Let_def not_le)
qed

lemma steps_rel:
  "\<forall>x \<in> set ts. step_holds x \<Longrightarrow> executeSteps cfg ctx ts q i s = (t, out) \<Longrightarrow> rel s t out"
proof (induction ts arbitrary: i s)
  case Nil
  then show ?case using start by simp
next
  case (Cons x ts)
  show ?case
  proof (cases "signalAborted cfg (world s)")
    case True
    with Cons.prems stopped show ?thesis by simp
  next
    case False
    obtain s1 o1 where e: "executeStep cfg ctx x (step_path q i) s = (s1, o1)" by fastforce
    have r: "rel s s1 o1" using one_step [OF _ e False] Cons.prems(1) by simp
    show ?thesis
    proof (cases o1)
      case Continue
      with Cons.prems False e have "executeSteps cfg ctx ts q (Suc i) s1 = (t, out)" by simp
      with Cons have "rel s1 t out" by simp
      with r Continue show ?thesis using seq_rel by simp
    qed (use Cons.prems False e r in simp_all)
  qed
qed

lemma every_step: "step_holds x"
proof (induction x)
  case (CommandStep m params name wait policy)
  then show ?case using command by (auto simp: step_holds_def)
next
  case (AssertStep asrt name wait policy)
  then show ?case using assertion by (auto simp: step_holds_def)
next
  case (RepeatStep n body policy)
  have b: "executeSteps cfg ctx body q 0 s = (t, out) \<Longrightarrow> rel s t out" for q s t out
    by (rule steps_rel) (use RepeatStep in blast)
  show ?case unfolding step_holds_def step_body.simps
  proof (intro allI impI)
    fix q s t out
    assume e: "executeRepeatStep cfg n policy (\<lambda>q s. executeSteps cfg ctx body q 0 s) q (s\<lparr>executedSteps := Suc (executedSteps s)\<rparr>) = (t, out)"
      and lt: "executedSteps s < maxTotalStepExecutions cfg"
    have "rel (s\<lparr>executedSteps := Suc (executedSteps s)\<rparr>) t out" by (rule repeat_rel [OF _ e]) (rule b)
    then show "rel s t out" by (rule seq_rel [OF counted [OF lt]])
  qed
next
  case (EachStep source item index body policy)
  have b: "executeSteps cfg ctx body q 0 s = (t, out) \<Longrightarrow> rel s t out" for q s t out
    by (rule steps_rel) (use EachStep in blast)
  show ?case unfolding step_holds_def step_body.simps
  proof (intro allI impI)
    fix q s t out
    assume e: "executeEachStep cfg ctx source item index policy (\<lambda>q s. executeSteps cfg ctx body q 0 s) q (s\<lparr>executedSteps := Suc (executedSteps s)\<rparr>) = (t, out)"
      and lt: "executedSteps s < maxTotalStepExecutions cfg"
    have "rel (s\<lparr>executedSteps := Suc (executedSteps s)\<rparr>) t out" by (rule each_step_rel [OF _ e]) (rule b)
    then show "rel s t out" by (rule seq_rel [OF counted [OF lt]])
  qed
qed

lemma run_rel: "executeSteps cfg ctx ts q i s = (t, out) \<Longrightarrow> rel s t out"
  by (rule steps_rel) (simp_all add: every_step)

end

subsection \<open>What a leaf step does\<close>

lemma recordStep_simps [simp]:
  "world (recordStep cfg r e s) = world s" "executedSteps (recordStep cfg r e s) = executedSteps s"
  "captured (recordStep cfg r e s) = captured s" "vars (recordStep cfg r e s) = vars s"
  by (simp_all add: recordStep_def Let_def)

lemma recordStep_lists:
  "recorded (recordStep cfg r e s) = recorded s @ (if length (recorded s) < maxRecordedSteps cfg then [r] else [])"
  "\<exists>m. errors (recordStep cfg r e s) = errors s @ (if e \<or> stepStatus r = StepError then [m] else [])"
  by (simp_all add: recordStep_def Let_def)

lemma capture_simps [simp]:
  "world (capture cfg ctx name v s) = world s" "executedSteps (capture cfg ctx name v s) = executedSteps s"
  "recorded (capture cfg ctx name v s) = recorded s" "errors (capture cfg ctx name v s) = errors s"
  by (simp_all add: capture_def Let_def split: option.split)

lemma applyTarget_simps [simp]:
  "world (fst (applyTargetToParams m params p s)) = world s"
  "executedSteps (fst (applyTargetToParams m params p s)) = executedSteps s"
  "recorded (fst (applyTargetToParams m params p s)) = recorded s"
  "errors (fst (applyTargetToParams m params p s)) = errors s"
  "captured (fst (applyTargetToParams m params p s)) = captured s"
  by (simp_all add: applyTargetToParams_def Let_def)

text \<open>The commands a run may dispatch.\<close>

definition permitted :: "'w engine \<Rightarrow> string \<Rightarrow> bool" where
  "permitted cfg m \<longleftrightarrow> (m \<in> set (allowedMethods cfg) \<and> m \<notin> set DISALLOWED_METHODS \<and> \<not> starts_with ''session_'' m)
     \<or> m = ''page_assert''"

definition world_step :: "'w engine \<Rightarrow> run_context \<Rightarrow> 'w \<Rightarrow> 'w \<Rightarrow> bool" where
  "world_step cfg ctx w w' \<longleftrightarrow> w' = w
     \<or> (\<not> dryRun ctx \<and> (\<exists>m params. permitted cfg m \<and> w' = fst (dispatch cfg m params w)))"

lemma dispatch_step_world:
  assumes "dispatch_step cfg ctx m params dry p s = (t, res)"
  shows "if dryRun ctx then world t = world s else \<exists>ps. world t = fst (dispatch cfg m ps (world s))"
    and "executedSteps t = executedSteps s" "recorded t = recorded s" "errors t = errors s" "captured t = captured s"
  using assms by (auto simp: dispatch_step_def case_prod_beta split: if_splits)

text \<open>What a step adds to the record: nothing is amiss when it adds no error and does not abort.\<close>

definition adds :: "'w engine \<Rightarrow> 'w run_state \<Rightarrow> 'w run_state \<Rightarrow> outcome \<Rightarrow> bool" where
  "adds cfg s t out \<longleftrightarrow> (\<exists>es rs. errors t = errors s @ es \<and> recorded t = recorded s @ rs
     \<and> (es = [] \<longrightarrow> out \<noteq> Aborted \<longrightarrow> (\<forall>r \<in> set rs. stepStatus r = StepOk)) \<and> (out = Halted \<longrightarrow> es \<noteq> []))"

lemma record_adds:
  assumes "errors t = errors s" and "recorded t = recorded s"
    and "stepStatus r = StepOk \<or> stepStatus r = StepError \<or> out = Aborted" and "out = Halted \<Longrightarrow> e \<or> stepStatus r = StepError"
  shows "adds cfg s (recordStep cfg r e t) out"
proof -
  obtain m where m: "errors (recordStep cfg r e t) = errors s @ (if e \<or> stepStatus r = StepError then [m] else [])"
    using recordStep_lists(2) [of cfg r e t] assms(1) by auto
  show ?thesis unfolding adds_def
    by (intro exI [of _ "if e \<or> stepStatus r = StepError then [m] else []"]
        exI [of _ "if length (recorded t) < maxRecordedSteps cfg then [r] else []"])
      (use m assms recordStep_lists(1) [of cfg r e t] in auto)
qed

text \<open>The recorded results and captures stay within the limits of the engine.\<close>

definition within_limits :: "'w engine \<Rightarrow> 'w run_state \<Rightarrow> bool" where
  "within_limits cfg s \<longleftrightarrow> length (recorded s) \<le> maxRecordedSteps cfg \<and> length (captured s) \<le> maxRecordedSteps cfg
     \<and> (\<forall>r \<in> set (recorded s). \<forall>v \<in> set_option (stepResult r). \<exists>x. v = boundValue x (maxStepResultChars cfg))"

lemma record_limits:
  "within_limits cfg s \<Longrightarrow> (\<And>v. stepResult r = Some v \<Longrightarrow> \<exists>x. v = boundValue x (maxStepResultChars cfg)) \<Longrightarrow>
     within_limits cfg (recordStep cfg r e s)"
  by (auto simp: within_limits_def recordStep_lists(1))

lemma update_length: "length (oset k v m) \<le> Suc (length m)"
  by (induction m) auto

lemma capture_limits: "within_limits cfg s \<Longrightarrow> within_limits cfg (capture cfg ctx name v s)"
  by (cases name) (auto simp: within_limits_def capture_def Let_def intro: update_length [THEN order_trans] Suc_leI)

lemma within_limits_same:
  "recorded t = recorded s \<Longrightarrow> captured t = captured s \<Longrightarrow> within_limits cfg t = within_limits cfg s"
  by (simp add: within_limits_def)

definition leaf :: "'w engine \<Rightarrow> run_context \<Rightarrow> 'w run_state \<Rightarrow> 'w run_state \<Rightarrow> outcome \<Rightarrow> bool" where
  "leaf cfg ctx s t out \<longleftrightarrow> executedSteps t = executedSteps s \<and> world_step cfg ctx (world s) (world t) \<and> adds cfg s t out
     \<and> (within_limits cfg s \<longrightarrow> within_limits cfg t) \<and> (\<forall>m. out \<noteq> Thrown m)"

lemma failed_leaf:
  assumes "failed_step cfg p kind m w name policy message s = (t, out)"
    and "executedSteps s = executedSteps s0" "world_step cfg ctx (world s0) (world s)" "errors s = errors s0"
      "recorded s = recorded s0" "within_limits cfg s0 \<longrightarrow> within_limits cfg s"
  shows "leaf cfg ctx s0 t out"
proof -
  have t: "t = recordStep cfg (command_result p kind m w name StepError None (Some message)) (stops policy) s"
    "out = stop_outcome policy" using assms(1) by (simp_all add: failed_step_def)
  have "adds cfg s0 t out" unfolding t(1) by (rule record_adds) (use assms in \<open>simp_all add: command_result_def\<close>)
  then show ?thesis using assms(2-6) t
    by (auto simp: leaf_def stop_outcome_def command_result_def intro!: record_limits)
qed

lemma thrown_leaf:
  assumes "thrown_step cfg p kind m w name policy err s = (t, out)"
    and s: "executedSteps s = executedSteps s0" "world_step cfg ctx (world s0) (world s)" "errors s = errors s0"
      "recorded s = recorded s0" "within_limits cfg s0 \<longrightarrow> within_limits cfg s"
  shows "leaf cfg ctx s0 t out"
proof (cases "isAbortError cfg err (world s)")
  case False
  with assms(1) failed_leaf [OF _ s] show ?thesis by (simp add: thrown_step_def)
next
  case True
  then have t: "t = recordStep cfg (command_result p kind m w name StepAborted None (Some (thrown_message err))) False s"
    "out = Aborted" using assms(1) by (simp_all add: thrown_step_def)
  have "adds cfg s0 t out" unfolding t(1) by (rule record_adds) (use s t in simp_all)
  then show ?thesis using s t by (auto simp: leaf_def command_result_def intro!: record_limits)
qed

lemma ok_leaf:
  assumes s: "executedSteps s = executedSteps s0" "world_step cfg ctx (world s0) (world s)" "errors s = errors s0"
      "recorded s = recorded s0" "within_limits cfg s0 \<longrightarrow> within_limits cfg s"
    and r: "stepStatus r = StepOk" "stepResult r = Some (boundValue v (maxStepResultChars cfg))"
  shows "leaf cfg ctx s0 (recordStep cfg r False s) Continue"
proof -
  have "adds cfg s0 (recordStep cfg r False s) Continue" by (rule record_adds) (use s r in simp_all)
  then show ?thesis using s r by (auto simp: leaf_def intro!: record_limits)
qed

lemma failed_result_leaf:
  assumes s: "executedSteps s = executedSteps s0" "world_step cfg ctx (world s0) (world s)" "errors s = errors s0"
      "recorded s = recorded s0" "within_limits cfg s0 \<longrightarrow> within_limits cfg s"
    and r: "stepStatus r = StepError" "stepResult r = Some (boundValue v (maxStepResultChars cfg))"
  shows "leaf cfg ctx s0 (recordStep cfg r (stops policy) s) (stop_outcome policy)"
proof -
  have "adds cfg s0 (recordStep cfg r (stops policy) s) (stop_outcome policy)" by (rule record_adds) (use s r in simp_all)
  then show ?thesis using s r by (auto simp: leaf_def stop_outcome_def intro!: record_limits)
qed

lemma dispatched_world:
  assumes "dispatch_step cfg ctx m params dry p s = (t, res)" and "permitted cfg m"
  shows "world_step cfg ctx (world s) (world t)"
  using dispatch_step_world(1) [OF assms(1)] assms(2) by (auto simp: world_step_def split: if_splits)

lemma command_leaf:
  assumes "executeCommandStep cfg ctx m params name wait policy p s = (t, out)"
  shows "leaf cfg ctx s t out"
proof -
  have id: "world_step cfg ctx (world s) (world s)" by (simp add: world_step_def)
  let ?w = "waits wait ctx"
  let ?resolved = "case params of None \<Rightarrow> Inr None | Some fs \<Rightarrow> seq (substitute_fields (vars s) p fs) (\<lambda>gs. Inr (Some gs))"
  show ?thesis
  proof (cases "m \<in> set DISALLOWED_METHODS \<or> starts_with ''session_'' m \<or> m \<notin> set (allowedMethods cfg)")
    case True
    with assms show ?thesis
      using failed_leaf [where s = s and s0 = s and ctx = ctx] id by (auto simp: executeCommandStep_def Let_def split: if_splits)
  next
    case False
    then have perm: "permitted cfg m" by (simp add: permitted_def)
    show ?thesis
    proof (cases ?resolved)
      case (Inl message)
      with assms False show ?thesis
        using failed_leaf [where s = s and s0 = s and ctx = ctx] id by (auto simp: executeCommandStep_def Let_def)
    next
      case (Inr resolved)
      obtain s1 res where d: "dispatch_step cfg ctx m resolved (JObj [(''dryRun'', JBool True)]) p s = (s1, res)" by fastforce
      note f = dispatch_step_world [OF d] dispatched_world [OF d perm]
      have lim: "within_limits cfg s \<longrightarrow> within_limits cfg s1" using within_limits_same f(3,5) by blast
      show ?thesis
      proof (cases res)
        case (Inl err)
        with assms False Inr d show ?thesis
          using thrown_leaf [of cfg p CommandKind m ?w name policy err s1 t out s ctx] f lim
          by (simp add: executeCommandStep_def)
      next
        case r: (Inr result)
        have "leaf cfg ctx s (recordStep cfg (command_result p CommandKind m ?w name StepOk
            (Some (boundValue result (maxStepResultChars cfg))) None) False (capture cfg ctx name result
            (s1\<lparr>pinned := updatePinnedTargetFromResult m result (pinned s1)\<rparr>))) Continue"
          by (rule ok_leaf [where v = result])
            (use f lim in \<open>simp_all add: command_result_def capture_limits within_limits_same [of "s1\<lparr>pinned := x\<rparr>" s1 for x]\<close>)
        with assms False Inr d r show ?thesis by (simp add: executeCommandStep_def Let_def)
      qed
    qed
  qed
qed

lemma assert_leaf:
  assumes "executeAssertStep cfg ctx asrt name wait policy p s = (t, out)"
  shows "leaf cfg ctx s t out"
proof -
  have id: "world_step cfg ctx (world s) (world s)" by (simp add: world_step_def)
  have perm: "permitted cfg ''page_assert''" by (simp add: permitted_def)
  let ?w = "waits wait ctx"
  show ?thesis
  proof (cases "substitute_fields (vars s) p asrt")
    case (Inl message)
    with assms show ?thesis
      using failed_leaf [where s = s and s0 = s and ctx = ctx] id by (auto simp: executeAssertStep_def Let_def)
  next
    case (Inr resolved)
    obtain s1 res where d: "dispatch_step cfg ctx ''page_assert'' (Some resolved)
        (JObj [(''dryRun'', JBool True), (''ok'', JBool True)]) p s = (s1, res)" by fastforce
    note f = dispatch_step_world [OF d] dispatched_world [OF d perm]
    have lim: "within_limits cfg s \<longrightarrow> within_limits cfg s1" using within_limits_same f(3,5) by blast
    show ?thesis
    proof (cases res)
      case (Inl err)
      with assms Inr d show ?thesis
        using thrown_leaf [of cfg p AssertKind "''page_assert''" ?w name policy err s1 t out s ctx] f lim
        by (simp add: executeAssertStep_def)
    next
      case r: (Inr result)
      have ok: "leaf cfg ctx s (recordStep cfg (command_result p AssertKind ''page_assert'' ?w name StepOk
          (Some (boundValue result (maxStepResultChars cfg))) None) False (capture cfg ctx name result s1)) Continue"
        by (rule ok_leaf [where v = result]) (use f lim in \<open>simp_all add: command_result_def capture_limits\<close>)
      have bad: "leaf cfg ctx s (recordStep cfg (command_result p AssertKind ''page_assert'' ?w name StepError
          (Some (boundValue result (maxStepResultChars cfg))) (Some (assertionResultMessage result))) (stops policy)
          (capture cfg ctx name result s1)) (stop_outcome policy)"
        by (rule failed_result_leaf [where v = result]) (use f lim in \<open>simp_all add: command_result_def capture_limits\<close>)
      from assms Inr d r ok bad show ?thesis by (auto simp: executeAssertStep_def Let_def split: if_splits)
    qed
  qed
qed

subsection \<open>Laws that hold of every run\<close>

lemma within_limits_simps [simp]:
  "within_limits cfg (s\<lparr>vars := v\<rparr>) = within_limits cfg s"
  "within_limits cfg (s\<lparr>executedSteps := n\<rparr>) = within_limits cfg s"
  by (simp_all add: within_limits_def)

lemma failed_loop_simps:
  assumes "failed_loop cfg p kind policy n message s = (t, out)"
  shows "world t = world s" "executedSteps t = executedSteps s" "within_limits cfg s \<Longrightarrow> within_limits cfg t"
    "adds cfg s t out" "out \<noteq> Thrown m" "out \<noteq> Aborted"
proof -
  have t: "t = recordStep cfg (loop_result p kind StepError n (Some message)) (stops policy) s" "out = stop_outcome policy"
    using assms by (simp_all add: failed_loop_def)
  show "world t = world s" "executedSteps t = executedSteps s" "out \<noteq> Thrown m" "out \<noteq> Aborted"
    by (simp_all add: t stop_outcome_def)
  show "within_limits cfg s \<Longrightarrow> within_limits cfg t" unfolding t by (rule record_limits) (simp_all add: loop_result_def)
  show "adds cfg s t out" unfolding t(1) by (rule record_adds) (simp_all add: loop_result_def)
qed

lemma adds_join:
  assumes "adds cfg s t o1" and "adds cfg t u o2" and "o1 = Continue \<or> o1 = Halted \<or> o2 = Aborted"
  shows "adds cfg s u o2"
proof -
  from assms(1) obtain es rs where a: "errors t = errors s @ es" "recorded t = recorded s @ rs"
    "es = [] \<longrightarrow> o1 \<noteq> Aborted \<longrightarrow> (\<forall>r \<in> set rs. stepStatus r = StepOk)" "o1 = Halted \<longrightarrow> es \<noteq> []" by (auto simp: adds_def)
  from assms(2) obtain es' rs' where b: "errors u = errors t @ es'" "recorded u = recorded t @ rs'"
    "es' = [] \<longrightarrow> o2 \<noteq> Aborted \<longrightarrow> (\<forall>r \<in> set rs'. stepStatus r = StepOk)" "o2 = Halted \<longrightarrow> es' \<noteq> []" by (auto simp: adds_def)
  show ?thesis unfolding adds_def
    by (intro exI [of _ "es @ es'"] exI [of _ "rs @ rs'"]) (use a b assms(3) in auto)
qed

text \<open>What is recorded: errors tell of every step that is amiss.\<close>

interpretation record_law: run_law cfg ctx "adds cfg" for cfg ctx
proof
  show "adds cfg s t out" if "executeCommandStep cfg ctx c params name w policy p (s\<lparr>executedSteps := Suc (executedSteps s)\<rparr>) = (t, out)"
    for s t out c params name w policy p using command_leaf [OF that] by (simp add: leaf_def adds_def)
  show "adds cfg s t out" if "executeAssertStep cfg ctx asrt name w policy p (s\<lparr>executedSteps := Suc (executedSteps s)\<rparr>) = (t, out)"
    for s t out asrt name w policy p using assert_leaf [OF that] by (simp add: leaf_def adds_def)
  show "adds cfg s (recordStep cfg (loop_result p kind StepOk n None) False s) Continue" for s p kind n
    by (rule record_adds) (simp_all add: loop_result_def)
  show "adds cfg s u out" if "adds cfg s t Aborted" "aborted_loop cfg p kind k t = (u, out)" for s t p kind k u out
  proof -
    have u: "u = recordStep cfg (loop_result p kind StepAborted (Some k) (Some ''Workflow aborted'')) False t" "out = Aborted"
      using that(2) by (simp_all add: aborted_loop_def)
    have "adds cfg t u Aborted" unfolding u(1) by (rule record_adds) simp_all
    with that(1) u(2) show ?thesis using adds_join by blast
  qed
  show "adds cfg s u out" if "adds cfg s t Halted" "failed_loop cfg p kind policy n message t = (u, out)"
    for s t p kind policy n message u out
    using adds_join [OF that(1) failed_loop_simps(4) [OF that(2)]] by simp
  show "adds cfg s u out" if "adds cfg s t Continue" "adds cfg t u out" for s t u out
    using adds_join [OF that] by simp
  show "adds cfg s t out" if "failed_loop cfg p kind policy n message s = (t, out)" for s p kind policy n message t out
    by (rule failed_loop_simps(4) [OF that])
qed (simp_all add: adds_def)

interpretation limit_law: run_law cfg ctx "\<lambda>s t out. within_limits cfg s \<longrightarrow> within_limits cfg t" for cfg ctx
proof
  show "within_limits cfg s \<longrightarrow> within_limits cfg t"
    if "executeCommandStep cfg ctx c params name w policy p (s\<lparr>executedSteps := Suc (executedSteps s)\<rparr>) = (t, out)"
    for s t out c params name w policy p using command_leaf [OF that] by (simp add: leaf_def)
  show "within_limits cfg s \<longrightarrow> within_limits cfg t"
    if "executeAssertStep cfg ctx asrt name w policy p (s\<lparr>executedSteps := Suc (executedSteps s)\<rparr>) = (t, out)"
    for s t out asrt name w policy p using assert_leaf [OF that] by (simp add: leaf_def)
  show "within_limits cfg s \<longrightarrow> within_limits cfg (recordStep cfg (loop_result p kind StepOk n None) False s)" for s p kind n
    by (intro impI record_limits) (simp_all add: loop_result_def)
  show "within_limits cfg s \<longrightarrow> within_limits cfg u"
    if "within_limits cfg s \<longrightarrow> within_limits cfg t" "aborted_loop cfg p kind k t = (u, out)" for s t p kind k u out
    using that by (auto simp: aborted_loop_def loop_result_def intro!: record_limits)
  show "within_limits cfg s \<longrightarrow> within_limits cfg t" if "failed_loop cfg p kind policy n message s = (t, out)"
    for s p kind policy n message t out
    using failed_loop_simps(3) [OF that] by simp
  show "within_limits cfg s \<longrightarrow> within_limits cfg u"
    if "within_limits cfg s \<longrightarrow> within_limits cfg t" "failed_loop cfg p kind policy n message t = (u, out)"
    for s t p kind policy n message u out
    using failed_loop_simps(3) [OF that(2)] that(1) by simp
qed simp_all

text \<open>What the dispatched commands do to the world: an invariant of theirs, and their number.\<close>

definition kept_by_commands :: "'w engine \<Rightarrow> bool \<Rightarrow> ('w \<Rightarrow> bool) \<Rightarrow> bool" where
  "kept_by_commands cfg dry good \<longleftrightarrow>
     (dry \<or> (\<forall>m params w. permitted cfg m \<and> \<not> signalAborted cfg w \<and> good w \<longrightarrow> good (fst (dispatch cfg m params w))))"

interpretation effect_law: run_law cfg ctx
  "\<lambda>s t out. kept_by_commands cfg (dryRun ctx) good \<longrightarrow> good (world s) \<longrightarrow> good (world t)" for cfg ctx good
proof
  have leaf_keeps: "kept_by_commands cfg (dryRun ctx) good \<longrightarrow> good (world s) \<longrightarrow> good (world t)"
    if "leaf cfg ctx (s\<lparr>executedSteps := n\<rparr>) t out" "\<not> signalAborted cfg (world s)" for s t out n
    using that by (auto simp: leaf_def world_step_def kept_by_commands_def)
  show "kept_by_commands cfg (dryRun ctx) good \<longrightarrow> good (world s) \<longrightarrow> good (world t)"
    if "\<not> signalAborted cfg (world s)"
      "executeCommandStep cfg ctx c params name w policy p (s\<lparr>executedSteps := Suc (executedSteps s)\<rparr>) = (t, out)"
    for s t out c params name w policy p by (rule leaf_keeps [OF command_leaf [OF that(2)] that(1)])
  show "kept_by_commands cfg (dryRun ctx) good \<longrightarrow> good (world s) \<longrightarrow> good (world t)"
    if "\<not> signalAborted cfg (world s)"
      "executeAssertStep cfg ctx asrt name w policy p (s\<lparr>executedSteps := Suc (executedSteps s)\<rparr>) = (t, out)"
    for s t out asrt name w policy p by (rule leaf_keeps [OF assert_leaf [OF that(2)] that(1)])
qed (auto simp: aborted_loop_def failed_loop_simps(1))

definition counts_commands :: "'w engine \<Rightarrow> ('w \<Rightarrow> nat) \<Rightarrow> bool" where
  "counts_commands cfg tally \<longleftrightarrow> (\<forall>m params w. tally (fst (dispatch cfg m params w)) \<le> Suc (tally w))"

definition in_budget :: "'w engine \<Rightarrow> ('w \<Rightarrow> nat) \<Rightarrow> 'w run_state \<Rightarrow> 'w run_state \<Rightarrow> outcome \<Rightarrow> bool" where
  "in_budget cfg tally s t out \<longleftrightarrow> (counts_commands cfg tally \<longrightarrow> executedSteps s \<le> maxTotalStepExecutions cfg \<longrightarrow>
     tally (world t) + executedSteps s \<le> tally (world s) + min (executedSteps t) (maxTotalStepExecutions cfg)
     \<and> executedSteps s \<le> executedSteps t
     \<and> executedSteps t \<le> Suc (maxTotalStepExecutions cfg)
     \<and> (executedSteps t \<le> maxTotalStepExecutions cfg \<or> (\<exists>m. out = Thrown m)))"

interpretation budget_law: run_law cfg ctx "in_budget cfg tally" for cfg ctx tally
proof
  have leaf_counts: "in_budget cfg tally s t out"
    if "leaf cfg ctx (s\<lparr>executedSteps := Suc (executedSteps s)\<rparr>) t out" "executedSteps s < maxTotalStepExecutions cfg" for s t out
    using that by (auto simp: leaf_def world_step_def counts_commands_def in_budget_def)
  show "in_budget cfg tally s t out"
    if "executedSteps s < maxTotalStepExecutions cfg"
      "executeCommandStep cfg ctx c params name w policy p (s\<lparr>executedSteps := Suc (executedSteps s)\<rparr>) = (t, out)"
    for s t out c params name w policy p by (rule leaf_counts [OF command_leaf [OF that(2)] that(1)])
  show "in_budget cfg tally s t out"
    if "executedSteps s < maxTotalStepExecutions cfg"
      "executeAssertStep cfg ctx asrt name w policy p (s\<lparr>executedSteps := Suc (executedSteps s)\<rparr>) = (t, out)"
    for s t out asrt name w policy p by (rule leaf_counts [OF assert_leaf [OF that(2)] that(1)])
  show "in_budget cfg tally s u out" if "in_budget cfg tally s t Continue" "in_budget cfg tally t u out" for s t u out
    using that by (auto simp: in_budget_def)
  show "in_budget cfg tally s u out" if "in_budget cfg tally s t Halted" "failed_loop cfg p kind policy n message t = (u, out)"
    for s t p kind policy n message u out
    using that(1) failed_loop_simps(1,2) [OF that(2)] by (auto simp: in_budget_def)
  show "in_budget cfg tally s t out" if "failed_loop cfg p kind policy n message s = (t, out)"
    for s t p kind policy n message out
    using failed_loop_simps(1,2) [OF that] by (auto simp: in_budget_def)
qed (auto simp: in_budget_def aborted_loop_def)

subsection \<open>What a run guarantees\<close>

lemma run_cases:
  obtains (rejected) es where "prepareWorkflow checked provided = Inl es"
      "run_workflow cfg checked provided dry w = (w, \<lparr>resultOk = False, resultAborted = False, resultDryRun = dry,
        resultName = None, resultSteps = [], resultCaptured = [], resultErrors = es, resultWarnings = [],
        resultDroppedSteps = 0, resultDroppedCaptures = 0\<rparr>)"
  | (ran) flow vs s out r where "prepareWorkflow checked provided = Inr (flow, vs)"
      "executeSteps cfg \<lparr>dryRun = dry, defaultWait = wfDefaultWait flow\<rparr> (wfSteps flow) [] 0 (start_state w flow vs) = (s, out)"
      "run_workflow cfg checked provided dry w = (world s, r)" "resultSteps r = recorded s" "resultCaptured r = captured s"
      "resultAborted r = (out = Aborted)"
      "resultErrors r = errors s @ (case out of Thrown m \<Rightarrow> [m] | _ \<Rightarrow> [])"
      "resultOk r = (out = Continue \<and> errors s = [])"
proof (cases "prepareWorkflow checked provided")
  case (Inl es)
  then show ?thesis by (intro rejected [of es]) (simp_all add: run_workflow_def)
next
  case (Inr fv)
  obtain flow vs where fv: "fv = (flow, vs)" by fastforce
  obtain s out where e: "executeSteps cfg \<lparr>dryRun = dry, defaultWait = wfDefaultWait flow\<rparr> (wfSteps flow) [] 0
      (start_state w flow vs) = (s, out)" by fastforce
  show ?thesis
    by (rule ran [OF Inr [unfolded fv] e, of "snd (run_workflow cfg checked provided dry w)"])
      (use Inr fv e in \<open>cases out; simp add: run_workflow_def Let_def\<close>)+
qed

text \<open>
  C38. What \<open>ok\<close> means: a run is reported as successful exactly when it was not aborted and has no
  error, and then every recorded step succeeded. (A schema check that rejects names an error.)
\<close>
theorem workflow_ok_exact:
  assumes "checked \<noteq> Inl []" and "r = snd (run_workflow cfg checked provided dry w)"
  shows "(resultOk r \<longleftrightarrow> \<not> resultAborted r \<and> resultErrors r = [])
    \<and> (resultOk r \<longrightarrow> (\<forall>s \<in> set (resultSteps r). stepStatus s = StepOk))"
proof (cases rule: run_cases [of checked provided cfg dry w])
  case (rejected es)
  then have "es \<noteq> []" using assms(1)
    by (auto simp: prepareWorkflow_def formatWorkflowValidationErrors_def resolveInitialVariables_def
        split: sum.splits prod.splits if_splits)
  with rejected assms(2) show ?thesis by simp
next
  case (ran flow vs s out r')
  with record_law.run_rel [OF ran(2)] assms(2) show ?thesis
    by (cases out) (auto simp: adds_def start_state_def)
qed

text \<open>
  C36. What a run can do: every property of the world that the permitted commands keep, when they are
  dispatched before the run is aborted, holds after the run when it held before. Permitted are the
  allowed methods that are not workflow or session commands, and page assertions. A dry run does nothing.
\<close>
theorem workflow_effects_permitted:
  assumes "\<forall>m params w. permitted cfg m \<and> \<not> signalAborted cfg w \<and> good w \<longrightarrow> good (fst (dispatch cfg m params w))"
    and "good w"
  shows "good (fst (run_workflow cfg checked provided dry w)) \<and> fst (run_workflow cfg checked provided True w) = w"
proof
  show "good (fst (run_workflow cfg checked provided dry w))"
  proof (cases rule: run_cases [of checked provided cfg dry w])
    case (ran flow vs s out r)
    with effect_law.run_rel [OF ran(2), of good] assms show ?thesis by (simp add: kept_by_commands_def start_state_def)
  qed (use assms(2) in simp)
  show "fst (run_workflow cfg checked provided True w) = w"
  proof (cases rule: run_cases [of checked provided cfg True w])
    case (ran flow vs s out r)
    with effect_law.run_rel [OF ran(2), of "\<lambda>x. x = w"] show ?thesis by (simp add: kept_by_commands_def start_state_def)
  qed simp
qed

text \<open>
  C37. A run ends within its budget: whatever its loops, it dispatches at most \<open>maxTotalStepExecutions\<close>
  commands, by any measure of the world that a command raises by at most one.
\<close>
theorem workflow_within_budget:
  assumes "\<forall>m params w. tally (fst (dispatch cfg m params w)) \<le> Suc (tally w)"
  shows "tally (fst (run_workflow cfg checked provided dry w)) \<le> tally w + maxTotalStepExecutions cfg"
proof (cases rule: run_cases [of checked provided cfg dry w])
  case (ran flow vs s out r)
  with budget_law.run_rel [OF ran(2), of tally] assms show ?thesis
    by (auto simp: in_budget_def counts_commands_def start_state_def)
qed simp

text \<open>
  What a run records stays bounded: at most \<open>maxRecordedSteps\<close> steps and captures, and every
  recorded result is a bounded value.
\<close>
theorem workflow_record_bounded:
  "length (resultSteps (snd (run_workflow cfg checked provided dry w))) \<le> maxRecordedSteps cfg
   \<and> length (resultCaptured (snd (run_workflow cfg checked provided dry w))) \<le> maxRecordedSteps cfg
   \<and> (\<forall>s \<in> set (resultSteps (snd (run_workflow cfg checked provided dry w))). \<forall>v \<in> set_option (stepResult s).
        \<exists>x. v = boundValue x (maxStepResultChars cfg))"
proof (cases rule: run_cases [of checked provided cfg dry w])
  case (ran flow vs s out r)
  with limit_law.run_rel [OF ran(2)] show ?thesis by (simp add: within_limits_def start_state_def)
qed simp

subsection \<open>A workflow\<close>

text \<open>
  Three navigations in a loop and an assertion on what the last one captured, against a dispatcher that
  counts its commands and echoes its parameters.
\<close>

definition sample_engine :: "nat engine" where
  "sample_engine = \<lparr>dispatch = (\<lambda>m params n. (Suc n, Inr (JObj ((''ok'', JBool True)
       # (case params of Some fs \<Rightarrow> fs | None \<Rightarrow> []))))), signalAborted = (\<lambda>_. False), allowedMethods = [''navigate''],
     maxLoopIterations = 5, maxTotalStepExecutions = 9, maxRecordedSteps = 9, maxStepResultChars = 50, maxCaptureChars = 50\<rparr>"

definition sample_workflow :: workflow where
  "sample_workflow = \<lparr>wfName = None, wfArgs = [(''n'', \<lparr>argRequired = True, argDefault = None\<rparr>)], wfTarget = None,
     wfDefaultWait = None, wfSteps = [
       RepeatStep 3 [CommandStep ''navigate'' (Some [(''tabId'', JStr ''%{n}'')]) (Some ''last'') None None] None,
       AssertStep [(''tab'', JStr ''%{last.tabId}'')] None None None]\<rparr>"

lemma sample_run:
  "fst (run_workflow sample_engine (Inr sample_workflow) [(''n'', jint 7)] False 0) = 4"
  "resultOk (snd (run_workflow sample_engine (Inr sample_workflow) [(''n'', jint 7)] False 0))"
  "length (resultSteps (snd (run_workflow sample_engine (Inr sample_workflow) [(''n'', jint 7)] False 0))) = 5"
  by code_simp+

theorem workflow_ok_exact_witness:
  "resultErrors (snd (run_workflow sample_engine (Inr sample_workflow) [(''n'', jint 7)] False 0)) = []
   \<and> stepStatus (last (resultSteps (snd (run_workflow sample_engine (Inr sample_workflow) [(''n'', jint 7)] False 0)))) = StepOk"
  using workflow_ok_exact [of "Inr sample_workflow" _ sample_engine "[(''n'', jint 7)]" False 0, OF _ refl] sample_run(2,3)
    last_in_set [of "resultSteps (snd (run_workflow sample_engine (Inr sample_workflow) [(''n'', jint 7)] False 0))"]
  by fastforce

theorem workflow_effects_permitted_witness:
  "(\<lambda>n. 0 < n) (fst (run_workflow sample_engine (Inr sample_workflow) [(''n'', jint 7)] False 1))
   \<and> fst (run_workflow sample_engine (Inr sample_workflow) [(''n'', jint 7)] True 1) = 1"
  by (rule workflow_effects_permitted [where good = "\<lambda>n. 0 < n"]) (simp_all add: sample_engine_def)

theorem workflow_within_budget_witness:
  "fst (run_workflow sample_engine (Inr sample_workflow) [(''n'', jint 7)] False 0) \<le> 9"
  using workflow_within_budget [of "\<lambda>n. n" sample_engine "Inr sample_workflow" "[(''n'', jint 7)]" False 0]
  by (simp add: sample_engine_def)

theorem workflow_record_bounded_witness:
  "\<exists>x. the (stepResult (hd (resultSteps (snd (run_workflow sample_engine (Inr sample_workflow) [(''n'', jint 7)] False 0)))))
     = boundValue x 50"
proof -
  let ?r = "resultSteps (snd (run_workflow sample_engine (Inr sample_workflow) [(''n'', jint 7)] False 0))"
  have "hd ?r \<in> set ?r" using sample_run(3) hd_in_set [of ?r] by fastforce
  moreover have "the (stepResult (hd ?r)) \<in> set_option (stepResult (hd ?r))" by code_simp
  ultimately show ?thesis
    using workflow_record_bounded [of sample_engine "Inr sample_workflow" "[(''n'', jint 7)]" False 0]
    by (simp add: sample_engine_def)
qed

end
