(* ===== verification/TaskRegistry.thy ===== *)
theory TaskRegistry
  imports Json
begin

section \<open>The task registry\<close>

text \<open>
  \<open>TaskRegistry\<close> (\<open>packages/server/src/task-registry.ts\<close>): the lifecycle of asynchronous tasks of the
  server. The specification is a relation on the status of one task (\<open>lifecycle\<close>); every operation of
  the registry is shown to take such a step for the task it names and to leave the others alone. The
  instant an operation reads from the clock is an argument.
\<close>

datatype task_status = TaskQueued | TaskRunning | TaskSucceeded | TaskFailed | TaskCancelled

record task_handle =
  taskId :: string
  taskKind :: string
  taskStatus :: task_status
  createdAt :: string
  updatedAt :: string
  startedAt :: "string option"
  endedAt :: "string option"
  taskMetadata :: jval
  taskResult :: "jval option"
  taskError :: "string option"

record task_registry =
  tasks :: "(string, task_handle) omap"
  nextTaskNumber :: int

definition new_tasks :: task_registry where
  "new_tasks = \<lparr>tasks = [], nextTaskNumber = 1\<rparr>"

fun status_text :: "task_status \<Rightarrow> string" where
  "status_text TaskQueued = ''queued''"
| "status_text TaskRunning = ''running''"
| "status_text TaskSucceeded = ''succeeded''"
| "status_text TaskFailed = ''failed''"
| "status_text TaskCancelled = ''cancelled''"

definition single_quoted :: "string \<Rightarrow> string" where
  "single_quoted s = CHR 0x27 # s @ [CHR 0x27]"

subsection \<open>Operations\<close>

definition createTaskId :: "task_registry \<Rightarrow> task_registry \<times> string" where
  "createTaskId r = (r\<lparr>nextTaskNumber := nextTaskNumber r + 1\<rparr>, ''task_'' @ int_text (nextTaskNumber r))"

definition create_task ::
  "string \<Rightarrow> string option \<Rightarrow> string \<Rightarrow> jval option \<Rightarrow> task_registry \<Rightarrow> task_registry \<times> task_handle" where
  "create_task now given kind metadata r0 =
     (let (r, i) = (case given of Some i \<Rightarrow> (r0, i) | None \<Rightarrow> createTaskId r0);
          task = \<lparr>taskId = i, taskKind = kind, taskStatus = TaskQueued, createdAt = now, updatedAt = now, startedAt = None,
            endedAt = None, taskMetadata = (case metadata of Some m \<Rightarrow> m | None \<Rightarrow> JObj []), taskResult = None,
            taskError = None\<rparr> in
      (r\<lparr>tasks := oset i task (tasks r)\<rparr>, task))"

definition requireTask :: "string \<Rightarrow> task_registry \<Rightarrow> string + task_handle" where
  "requireTask i r = (case oget (tasks r) i of Some t \<Rightarrow> Inr t | None \<Rightarrow> Inl (''Unknown task '' @ single_quoted i))"

text \<open>A handle is changed in place.\<close>

definition put_task :: "string \<Rightarrow> task_handle \<Rightarrow> task_registry \<Rightarrow> task_registry" where
  "put_task i t r = r\<lparr>tasks := oset i t (tasks r)\<rparr>"

definition start_task :: "string \<Rightarrow> string \<Rightarrow> task_registry \<Rightarrow> string + task_registry \<times> task_handle" where
  "start_task now i r =
     seq (requireTask i r) (\<lambda>t.
       if taskStatus t \<noteq> TaskQueued
       then Inl (''Cannot start task '' @ single_quoted i @ '' from status '' @ single_quoted (status_text (taskStatus t)))
       else let t' = t\<lparr>taskStatus := TaskRunning, startedAt := Some now, updatedAt := now\<rparr> in
         Inr (put_task i t' r, t'))"

definition finish_task :: "string \<Rightarrow> string \<Rightarrow> task_status \<Rightarrow> task_registry \<Rightarrow> string + task_registry \<times> task_handle" where
  "finish_task now i status r =
     seq (requireTask i r) (\<lambda>t.
       if taskStatus t \<noteq> TaskQueued \<and> taskStatus t \<noteq> TaskRunning
       then Inl (''Cannot finish task '' @ single_quoted i @ '' from status '' @ single_quoted (status_text (taskStatus t)))
       else let t' = t\<lparr>taskStatus := status, endedAt := Some now, updatedAt := now\<rparr> in
         Inr (put_task i t' r, t'))"

definition succeed_task :: "string \<Rightarrow> string \<Rightarrow> jval option \<Rightarrow> task_registry \<Rightarrow> string + task_registry \<times> task_handle" where
  "succeed_task now i result r =
     seq (finish_task now i TaskSucceeded r) (\<lambda>(r', t). let t' = t\<lparr>taskResult := result\<rparr> in Inr (put_task i t' r', t'))"

definition fail_task :: "string \<Rightarrow> string \<Rightarrow> string \<Rightarrow> task_registry \<Rightarrow> string + task_registry \<times> task_handle" where
  "fail_task now i err r =
     seq (finish_task now i TaskFailed r) (\<lambda>(r', t). let t' = t\<lparr>taskError := Some err\<rparr> in Inr (put_task i t' r', t'))"

definition cancel_task :: "string \<Rightarrow> string \<Rightarrow> string option \<Rightarrow> task_registry \<Rightarrow> string + task_registry \<times> task_handle" where
  "cancel_task now i reason r =
     seq (finish_task now i TaskCancelled r) (\<lambda>(r', t).
       case reason of
         Some msg \<Rightarrow> if msg = [] then Inr (r', t) else let t' = t\<lparr>taskError := Some msg\<rparr> in Inr (put_task i t' r', t')
       | None \<Rightarrow> Inr (r', t))"

definition get_task :: "string \<Rightarrow> task_registry \<Rightarrow> task_handle option" where
  "get_task i r = oget (tasks r) i"

definition list_tasks :: "task_registry \<Rightarrow> task_handle list" where
  "list_tasks r = ovals (tasks r)"

definition delete_task :: "string \<Rightarrow> task_registry \<Rightarrow> task_registry \<times> bool" where
  "delete_task i r = (r\<lparr>tasks := odel i (tasks r)\<rparr>, oget (tasks r) i \<noteq> None)"

definition clear_tasks :: "task_registry \<Rightarrow> task_registry" where
  "clear_tasks r = r\<lparr>tasks := []\<rparr>"

datatype task_op =
    CreateTask string "string option" string "jval option"
  | StartTask string string
  | SucceedTask string string "jval option"
  | FailTask string string string
  | CancelTask string string "string option"
  | DeleteTask string
  | ClearTasks

text \<open>The registry after an operation; one that throws leaves it as it was.\<close>

definition task_step :: "task_op \<Rightarrow> task_registry \<Rightarrow> task_registry" where
  "task_step op r =
     (let after = \<lambda>res. (case res of Inl _ \<Rightarrow> r | Inr (r', _) \<Rightarrow> r') in
      case op of
        CreateTask now given kind metadata \<Rightarrow> fst (create_task now given kind metadata r)
      | StartTask now i \<Rightarrow> after (start_task now i r)
      | SucceedTask now i result \<Rightarrow> after (succeed_task now i result r)
      | FailTask now i err \<Rightarrow> after (fail_task now i err r)
      | CancelTask now i reason \<Rightarrow> after (cancel_task now i reason r)
      | DeleteTask i \<Rightarrow> fst (delete_task i r)
      | ClearTasks \<Rightarrow> clear_tasks r)"

subsection \<open>The lifecycle of a task\<close>

text \<open>The abstract registry: the status of each task; one step of one task.\<close>

inductive lifecycle :: "task_status option \<Rightarrow> task_status option \<Rightarrow> bool" where
  stay: "lifecycle s s"
| creation: "lifecycle s (Some TaskQueued)"
| starting: "lifecycle (Some TaskQueued) (Some TaskRunning)"
| finishing: "s \<in> {TaskQueued, TaskRunning} \<Longrightarrow> t \<in> {TaskSucceeded, TaskFailed, TaskCancelled} \<Longrightarrow> lifecycle (Some s) (Some t)"
| deletion: "lifecycle s None"

inductive_simps lifecycle_to_running: "lifecycle s (Some TaskRunning)"
inductive_simps lifecycle_from_finished: "lifecycle (Some TaskSucceeded) t" "lifecycle (Some TaskFailed) t"
  "lifecycle (Some TaskCancelled) t"

definition status_of :: "task_registry \<Rightarrow> string \<Rightarrow> task_status option" where
  "status_of r i = map_option taskStatus (oget (tasks r) i)"

definition tasks_ok :: "task_registry \<Rightarrow> bool" where
  "tasks_ok r \<longleftrightarrow> omap_wf (tasks r) \<and> okeep (\<lambda>i t. taskId t = i
     \<and> (startedAt t = None \<longrightarrow> taskStatus t \<noteq> TaskRunning)
     \<and> (endedAt t \<noteq> None \<longleftrightarrow> taskStatus t \<notin> {TaskQueued, TaskRunning})) (tasks r)"

lemmas task_defs = task_step_def create_task_def createTaskId_def start_task_def finish_task_def succeed_task_def fail_task_def
  cancel_task_def delete_task_def clear_tasks_def requireTask_def put_task_def

lemma put_status [simp]:
  "status_of (put_task i t r) j = (if j = i then Some (taskStatus t) else status_of r j)"
  by (simp add: status_of_def put_task_def)

lemma finish_lifecycle:
  assumes "finish_task now i s r = Inr (r', t)" and "s \<in> {TaskSucceeded, TaskFailed, TaskCancelled}"
  shows "lifecycle (status_of r j) (status_of r' j)" "t = the (oget (tasks r') i)" "taskStatus t = s"
    "j \<noteq> i \<Longrightarrow> status_of r' j = status_of r j" "status_of r i \<in> {Some TaskQueued, Some TaskRunning}"
    "status_of r' i = Some s"
  using assms by (auto simp: finish_task_def requireTask_def put_task_def status_of_def seq_Inr Let_def
      split: option.splits if_splits intro: lifecycle.intros)

lemma lifecycle_refl [simp]: "lifecycle s s"
  by (rule stay)

text \<open>How an operation changes one task: it puts the task it names, or leaves or removes tasks.\<close>

definition task_ok :: "string \<Rightarrow> task_handle \<Rightarrow> bool" where
  "task_ok i t \<longleftrightarrow> taskId t = i \<and> (startedAt t = None \<longrightarrow> taskStatus t \<noteq> TaskRunning)
     \<and> (endedAt t \<noteq> None \<longleftrightarrow> taskStatus t \<notin> {TaskQueued, TaskRunning})"

lemma tasks_ok_alt: "tasks_ok r \<longleftrightarrow> omap_wf (tasks r) \<and> okeep task_ok (tasks r)"
  by (simp add: tasks_ok_def task_ok_def [abs_def])

definition changes_one :: "string \<Rightarrow> task_registry \<Rightarrow> task_registry \<Rightarrow> bool" where
  "changes_one i r r' \<longleftrightarrow> (\<exists>t. task_ok i t \<and> tasks r' = oset i t (tasks r) \<and> lifecycle (status_of r i) (Some (taskStatus t)))"

lemma changes_oneI:
  "tasks r' = oset i t (tasks r) \<Longrightarrow> task_ok i t \<Longrightarrow> lifecycle (status_of r i) (Some (taskStatus t)) \<Longrightarrow> changes_one i r r'"
  by (auto simp: changes_one_def)

lemma changes_oneD:
  assumes "changes_one i r r'" and "tasks_ok r"
  shows "tasks_ok r'" "lifecycle (status_of r j) (status_of r' j)" "j \<noteq> i \<Longrightarrow> oget (tasks r') j = oget (tasks r) j"
  using assms by (auto simp: changes_one_def tasks_ok_alt status_of_def intro: okeep_set)

lemma create_changes: "changes_one (taskId (snd (create_task now given kind metadata r))) r (fst (create_task now given kind metadata r))"
  by (rule changes_oneI [where t = "snd (create_task now given kind metadata r)"]; cases given)
    (simp_all add: create_task_def createTaskId_def task_ok_def Let_def lifecycle.creation)

lemma start_changes:
  assumes "tasks_ok r" and "start_task now i r = Inr (r', t)"
  shows "changes_one i r r'"
proof -
  from assms(2) obtain t0 where t0: "oget (tasks r) i = Some t0" "taskStatus t0 = TaskQueued"
    "r' = put_task i (t0\<lparr>taskStatus := TaskRunning, startedAt := Some now, updatedAt := now\<rparr>) r"
    by (auto simp: start_task_def requireTask_def seq_Inr Let_def split: option.splits if_splits)
  with assms(1) have "task_ok i t0" by (auto simp: tasks_ok_alt okeep_def)
  with t0 show ?thesis
    by (intro changes_oneI [where t = "t0\<lparr>taskStatus := TaskRunning, startedAt := Some now, updatedAt := now\<rparr>"])
      (auto simp: put_task_def task_ok_def status_of_def intro: lifecycle.starting)
qed

text \<open>The three endings are \<open>finish\<close> followed by a change of the result or the error.\<close>

lemma finish_changes:
  assumes "tasks_ok r" and "finish_task now i s r = Inr (r', t)" and "s \<in> {TaskSucceeded, TaskFailed, TaskCancelled}"
  shows "changes_one i r (put_task i (t\<lparr>taskResult := x\<rparr>) r')" "changes_one i r (put_task i (t\<lparr>taskError := e\<rparr>) r')"
    "changes_one i r r'"
proof -
  from assms(2) obtain t0 where t0: "oget (tasks r) i = Some t0" "taskStatus t0 \<in> {TaskQueued, TaskRunning}"
    "t = t0\<lparr>taskStatus := s, endedAt := Some now, updatedAt := now\<rparr>" "r' = put_task i t r"
    by (auto simp: finish_task_def requireTask_def seq_Inr Let_def split: option.splits if_splits)
  with assms(1) have "task_ok i t0" by (auto simp: tasks_ok_alt okeep_def)
  then have t: "task_ok i t" "taskStatus t = s" using t0(3) assms(3) by (auto simp: task_ok_def)
  have l: "lifecycle (status_of r i) (Some s)" using t0 assms(3) by (auto simp: status_of_def intro: lifecycle.finishing)
  have twice: "oset i u (oset i t m) = oset i u m" for u and m :: "(string, task_handle) omap"
    by (induction m) auto
  show "changes_one i r (put_task i (t\<lparr>taskResult := x\<rparr>) r')"
    unfolding changes_one_def by (rule exI [of _ "t\<lparr>taskResult := x\<rparr>"]) (use t l t0(4) in \<open>simp add: put_task_def twice task_ok_def\<close>)
  show "changes_one i r (put_task i (t\<lparr>taskError := e\<rparr>) r')"
    unfolding changes_one_def by (rule exI [of _ "t\<lparr>taskError := e\<rparr>"]) (use t l t0(4) in \<open>simp add: put_task_def twice task_ok_def\<close>)
  show "changes_one i r r'"
    unfolding changes_one_def by (rule exI [of _ t]) (use t l t0(4) in \<open>simp add: put_task_def\<close>)
qed

fun op_task :: "task_op \<Rightarrow> task_registry \<Rightarrow> string option" where
  "op_task (CreateTask now given kind metadata) r = Some (taskId (snd (create_task now given kind metadata r)))"
| "op_task (StartTask now i) r = Some i"
| "op_task (SucceedTask now i x) r = Some i"
| "op_task (FailTask now i e) r = Some i"
| "op_task (CancelTask now i e) r = Some i"
| "op_task (DeleteTask i) r = Some i"
| "op_task ClearTasks r = None"

fun_cases op_task_None: "op_task op r = None"

lemma step_changes:
  assumes "tasks_ok r"
  shows "task_step op r = r \<or> (\<exists>i. op_task op r = Some i \<and> changes_one i r (task_step op r))
    \<or> (\<exists>i. op = DeleteTask i) \<or> op = ClearTasks"
proof (cases op)
  case (CreateTask now given kind metadata)
  with create_changes [of now given kind metadata r] show ?thesis by (simp add: task_step_def)
next
  case (StartTask now i)
  with start_changes [OF assms, of now i] show ?thesis
    by (cases "start_task now i r") (auto simp: task_step_def split: prod.split)
next
  case (SucceedTask now i x)
  with finish_changes(1) [OF assms, of now i TaskSucceeded] show ?thesis
    by (cases "finish_task now i TaskSucceeded r") (auto simp: task_step_def succeed_task_def Let_def split: prod.split)
next
  case (FailTask now i e)
  with finish_changes(2) [OF assms, of now i TaskFailed] show ?thesis
    by (cases "finish_task now i TaskFailed r") (auto simp: task_step_def fail_task_def Let_def split: prod.split)
next
  case (CancelTask now i e)
  with finish_changes(2,3) [OF assms, of now i TaskCancelled] show ?thesis
    by (cases "finish_task now i TaskCancelled r"; cases e) (auto simp: task_step_def cancel_task_def Let_def split: prod.split)
qed simp_all

lemma task_step_refines:
  assumes "tasks_ok r"
  shows "tasks_ok (task_step op r)" "lifecycle (status_of r i) (status_of (task_step op r) i)"
    "op_task op r = Some j \<Longrightarrow> i \<noteq> j \<Longrightarrow> oget (tasks (task_step op r)) i = oget (tasks r) i"
proof -
  from step_changes [OF assms, of op]
  have "tasks_ok (task_step op r) \<and> lifecycle (status_of r i) (status_of (task_step op r) i)
    \<and> (op_task op r = Some j \<longrightarrow> i \<noteq> j \<longrightarrow> oget (tasks (task_step op r)) i = oget (tasks r) i)"
  proof (elim disjE exE conjE)
    fix k assume "op = DeleteTask k"
    with assms show ?thesis
      by (auto simp: task_step_def delete_task_def tasks_ok_alt status_of_def intro: okeep_del lifecycle.deletion)
  next
    assume "op = ClearTasks"
    with assms show ?thesis by (auto simp: task_step_def clear_tasks_def tasks_ok_alt status_of_def intro: lifecycle.deletion)
  next
    fix k assume "op_task op r = Some k" "changes_one k r (task_step op r)"
    with changes_oneD [OF this(2) assms] show ?thesis by auto
  qed (use assms in simp)
  then show "tasks_ok (task_step op r)" "lifecycle (status_of r i) (status_of (task_step op r) i)"
    "op_task op r = Some j \<Longrightarrow> i \<noteq> j \<Longrightarrow> oget (tasks (task_step op r)) i = oget (tasks r) i" by blast+
qed

interpretation task_machine: invariant_machine task_step tasks_ok
  by unfold_locales (rule task_step_refines(1))

lemma reachable_tasks_ok: "tasks_ok (fold task_step ops new_tasks)"
  by (rule task_machine.run_inv) (simp add: new_tasks_def tasks_ok_def)

text \<open>
  C39. The registry refines the lifecycle: in every reachable registry an operation takes, for each task, a
  step the lifecycle allows; it changes no task but the one it names, unless it clears them all; and an
  operation on a finished task throws and changes nothing.
\<close>
theorem task_registry_refines_lifecycle:
  assumes "r = fold task_step ops new_tasks"
  shows "lifecycle (status_of r i) (status_of (task_step op r) i)
    \<and> (op_task op r = Some j \<and> i \<noteq> j \<longrightarrow> oget (tasks (task_step op r)) i = oget (tasks r) i)
    \<and> (status_of r i \<in> {Some TaskSucceeded, Some TaskFailed, Some TaskCancelled} \<longrightarrow>
        (\<exists>e. start_task now i r = Inl e) \<and> (\<exists>e. finish_task now i s r = Inl e))"
proof (intro conjI impI)
  have ok: "tasks_ok r" unfolding assms by (rule reachable_tasks_ok)
  show "lifecycle (status_of r i) (status_of (task_step op r) i)" by (rule task_step_refines(2) [OF ok])
  show "oget (tasks (task_step op r)) i = oget (tasks r) i" if "op_task op r = Some j \<and> i \<noteq> j"
    using task_step_refines(3) [OF ok] that by blast
  assume "status_of r i \<in> {Some TaskSucceeded, Some TaskFailed, Some TaskCancelled}"
  then show "\<exists>e. start_task now i r = Inl e" "\<exists>e. finish_task now i s r = Inl e"
    by (auto simp: status_of_def start_task_def finish_task_def requireTask_def split: option.splits)
qed

theorem task_registry_refines_lifecycle_witness:
  "lifecycle (Some TaskRunning) (status_of (task_step (SucceedTask ''t'' ''a'' None)
     (fold task_step [CreateTask ''t'' (Some ''a'') ''k'' None, StartTask ''t'' ''a''] new_tasks)) ''a'')
   \<and> (\<exists>e. start_task ''t'' ''a''
        (fold task_step [CreateTask ''t'' (Some ''a'') ''k'' None, FailTask ''t'' ''a'' ''x''] new_tasks) = Inl e)"
proof -
  have s: "status_of (fold task_step [CreateTask ''t'' (Some ''a'') ''k'' None, StartTask ''t'' ''a''] new_tasks) ''a'' = Some TaskRunning"
    "status_of (fold task_step [CreateTask ''t'' (Some ''a'') ''k'' None, FailTask ''t'' ''a'' ''x''] new_tasks) ''a'' = Some TaskFailed"
    by code_simp+
  have "lifecycle (Some TaskRunning) (status_of (task_step (SucceedTask ''t'' ''a'' None)
     (fold task_step [CreateTask ''t'' (Some ''a'') ''k'' None, StartTask ''t'' ''a''] new_tasks)) ''a'')"
    using task_registry_refines_lifecycle [OF refl, where ops = "[CreateTask ''t'' (Some ''a'') ''k'' None, StartTask ''t'' ''a'']"
        and i = "''a''" and op = "SucceedTask ''t'' ''a'' None"] unfolding s(1) by (rule conjunct1)
  moreover have "\<exists>e. start_task ''t'' ''a''
        (fold task_step [CreateTask ''t'' (Some ''a'') ''k'' None, FailTask ''t'' ''a'' ''x''] new_tasks) = Inl e"
    using task_registry_refines_lifecycle [OF refl, where ops = "[CreateTask ''t'' (Some ''a'') ''k'' None, FailTask ''t'' ''a'' ''x'']"
        and i = "''a''" and now = "''t''"] unfolding s(2) by blast
  ultimately show ?thesis by (rule conjI)
qed

end
