(* ===== verification/PageSnapshots.thy ===== *)
theory PageSnapshots
  imports WorkflowData JsonCanonical
begin

section \<open>Page snapshots: the store and the semantic diff\<close>

text \<open>
  \<open>PageSnapshotStore\<close> (\<open>packages/server/src/page-snapshot-store.ts\<close>) and \<open>comparePageSnapshotRecords\<close>
  (\<open>page-snapshot-diff.ts\<close>). The file behind the store is the list of its records; writing it is the
  state of \<open>snapshot_store\<close>. \<open>localeCompare\<close> of attribute names is the parameter \<open>before\<close> of a stable
  sort; of the instants of \<open>toISOString\<close> it is the order of their texts. The hash of an identity is the
  parameter \<open>digest\<close>.
\<close>

subsection \<open>Records\<close>

datatype page_target =
    ChromePage int "int option"
  | ElectronPage string string string "int option"

record bounding_box =
  boxX :: jnum
  boxY :: jnum
  boxWidth :: jnum
  boxHeight :: jnum

record snapshot_entry =
  entrySnapshotId :: string
  entryStableId :: "string option"
  entryTag :: string
  entryRole :: "string option"
  entryName :: "string option"
  entryText :: "string option"
  entryLabel :: "string option"
  entryAttributes :: "(string \<times> string) list"
  entryPath :: "int list"
  entryBox :: bounding_box
  entryInteractive :: bool
  entryHeading :: "int option"
  entryLandmark :: "string option"

record capture_signature =
  capMaxEntries :: int
  capIncludeHidden :: bool
  capQuery :: "string option"

record page_snapshot =
  snapTarget :: page_target
  snapGeneration :: int
  snapTab :: "int option"
  snapFrame :: "int option"
  snapUrl :: string
  snapTitle :: string
  snapQuery :: "string option"
  snapGeneratedAt :: int
  snapTruncated :: bool
  snapEntries :: "snapshot_entry list"

record snapshot_record =
  recId :: string
  recCapturedAt :: string
  recTarget :: page_target
  recGeneration :: int
  recTab :: "int option"
  recFrame :: "int option"
  recUrl :: string
  recTitle :: string
  recQuery :: "string option"
  recCapture :: "capture_signature option"
  recRaw :: page_snapshot

fun target_part :: "page_target \<Rightarrow> string" where
  "target_part (ChromePage tab frame) = ''chrome:'' @ int_text tab"
| "target_part (ElectronPage session window tid frame) = ''electron:'' @ session @ '':'' @ window @ '':'' @ tid"

fun target_frame :: "page_target \<Rightarrow> int option" where
  "target_frame (ChromePage tab frame) = frame"
| "target_frame (ElectronPage session window tid frame) = frame"

definition frame_or :: "int option \<Rightarrow> page_target \<Rightarrow> int" where
  "frame_or f t = (case f of Some i \<Rightarrow> i | None \<Rightarrow> (case target_frame t of Some i \<Rightarrow> i | None \<Rightarrow> 0))"

subsection \<open>The store\<close>

text \<open>\<open>requested\<close> is \<open>Math.trunc\<close> of the requested number of entries.\<close>

definition normalizePageSnapshotCaptureSignature :: "int option \<Rightarrow> bool option \<Rightarrow> string option \<Rightarrow> capture_signature" where
  "normalizePageSnapshotCaptureSignature requested hidden query =
     \<lparr>capMaxEntries = max 1 (min 500 (case requested of Some i \<Rightarrow> i | None \<Rightarrow> 120)), capIncludeHidden = (hidden = Some True),
       capQuery = (if query = Some [] then None else query)\<rparr>"

type_synonym snapshot_store = "(string, snapshot_record) omap"

definition recordId :: "page_snapshot \<Rightarrow> string" where
  "recordId s = target_part (snapTarget s) @ '':frame:'' @ int_text (frame_or (snapFrame s) (snapTarget s))
     @ '':generation:'' @ int_text (snapGeneration s) @ '':snapshot:'' @ int_text (snapGeneratedAt s)"

definition write_snapshot ::
  "page_snapshot \<Rightarrow> string \<Rightarrow> capture_signature option \<Rightarrow> snapshot_store \<Rightarrow> snapshot_store \<times> snapshot_record" where
  "write_snapshot s capturedAt capture st =
     (let r = \<lparr>recId = recordId s, recCapturedAt = capturedAt, recTarget = snapTarget s, recGeneration = snapGeneration s,
        recTab = snapTab s, recFrame = snapFrame s, recUrl = snapUrl s, recTitle = snapTitle s, recQuery = snapQuery s,
        recCapture = Some (case capture of Some c \<Rightarrow> c | None \<Rightarrow> normalizePageSnapshotCaptureSignature None None (snapQuery s)),
        recRaw = s\<rparr> in
      (oset (recId r) r st, r))"

record snapshot_query =
  askId :: "string option"
  askSnapshot :: "string option"
  askTab :: "int option"
  askFrame :: "int option"
  askLimit :: "nat option"

definition text_given :: "string option \<Rightarrow> bool" where
  "text_given s \<longleftrightarrow> (case s of Some t \<Rightarrow> t \<noteq> [] | None \<Rightarrow> False)"

text \<open>Newest first; records of the same instant keep their order.\<close>

definition newest_first :: "snapshot_record list \<Rightarrow> snapshot_record list" where
  "newest_first rs = rev (sort_key recCapturedAt (rev rs))"

definition read_snapshots :: "snapshot_query \<Rightarrow> snapshot_store \<Rightarrow> snapshot_record list" where
  "read_snapshots q st =
     (if text_given (askId q)
      then (case oget st (the (askId q)) of Some r \<Rightarrow> [r] | None \<Rightarrow> [])
      else
        let rs1 = (case askTab q of Some i \<Rightarrow> filter (\<lambda>r. recTab r = Some i) (ovals st) | None \<Rightarrow> ovals st);
            rs2 = (case askFrame q of Some i \<Rightarrow> filter (\<lambda>r. recFrame r = Some i) rs1 | None \<Rightarrow> rs1);
            rs3 = (if text_given (askSnapshot q)
              then filter (\<lambda>r. list_ex (\<lambda>e. entrySnapshotId e = the (askSnapshot q)) (snapEntries (recRaw r))) rs2 else rs2);
            sorted = newest_first rs3 in
        case askLimit q of Some n \<Rightarrow> take n sorted | None \<Rightarrow> sorted)"

definition load_snapshots :: "snapshot_record list \<Rightarrow> snapshot_store" where
  "load_snapshots rs = fold (\<lambda>r st. oset (recId r) r st) rs []"

definition clear_snapshots :: "snapshot_store \<Rightarrow> snapshot_store" where
  "clear_snapshots st = []"

subsection \<open>The diff\<close>

datatype diff_failure =
    TargetMismatch
  | FrameMismatch
  | GenerationMismatch
  | SignatureMissing
  | QueryMismatch
  | BudgetMismatch
  | TruncatedSnapshot
  | AmbiguousIdentity string

definition present :: "string \<Rightarrow> string option \<Rightarrow> (string \<times> jval) list" where
  "present k v = (if text_given v then [(k, JStr (the v))] else [])"

definition text_or_empty :: "string option \<Rightarrow> jval" where
  "text_or_empty v = JStr (case v of Some s \<Rightarrow> s | None \<Rightarrow> [])"

definition entryIdentity :: "(string \<Rightarrow> string) \<Rightarrow> snapshot_entry \<Rightarrow> string" where
  "entryIdentity digest e =
     (if text_given (entryStableId e) then ''stable:'' @ the (entryStableId e)
      else ''semantic:'' @ digest (the (json_text (JObj
        [(''tagName'', JStr (entryTag e)), (''role'', text_or_empty (entryRole e)), (''name'', text_or_empty (entryName e)),
         (''label'', text_or_empty (entryLabel e)), (''id'', text_or_empty (map_of (entryAttributes e) ''id'')),
         (''testId'', text_or_empty (map_of (entryAttributes e) ''data-testid'')),
         (''controlName'', text_or_empty (map_of (entryAttributes e) ''name'')),
         (''ordinalPath'', JArr (map jint (entryPath e)))]))))"

fun insert_attribute :: "(string \<Rightarrow> string \<Rightarrow> bool) \<Rightarrow> string \<times> string \<Rightarrow> (string \<times> string) list \<Rightarrow> (string \<times> string) list" where
  "insert_attribute before a [] = [a]"
| "insert_attribute before a (b # bs) = (if before (fst b) (fst a) then b # insert_attribute before a bs else a # b # bs)"

definition canonicalAttributes :: "(string \<Rightarrow> string \<Rightarrow> bool) \<Rightarrow> (string \<times> string) list \<Rightarrow> (string \<times> string) list" where
  "canonicalAttributes before as = foldl (\<lambda>bs a. insert_attribute before a bs) [] as"

text \<open>The state of an entry, as the object whose text is compared.\<close>

definition entryState :: "(string \<Rightarrow> string \<Rightarrow> bool) \<Rightarrow> snapshot_entry \<Rightarrow> jval" where
  "entryState before e = JObj (present ''stableElementId'' (entryStableId e) @ [(''tagName'', JStr (entryTag e))]
     @ present ''role'' (entryRole e) @ present ''name'' (entryName e) @ present ''text'' (entryText e)
     @ present ''label'' (entryLabel e)
     @ [(''attributes'', JObj (map (\<lambda>(k, v). (k, JStr v)) (canonicalAttributes before (entryAttributes e)))),
        (''ordinalPath'', JArr (map jint (entryPath e))),
        (''boundingBox'', JObj [(''x'', JNum (boxX (entryBox e))), (''y'', JNum (boxY (entryBox e))),
           (''width'', JNum (boxWidth (entryBox e))), (''height'', JNum (boxHeight (entryBox e)))]),
        (''interactive'', JBool (entryInteractive e))]
     @ (case entryHeading e of Some n \<Rightarrow> [(''headingLevel'', jint n)] | None \<Rightarrow> [])
     @ present ''landmark'' (entryLandmark e))"

text \<open>\<open>indexEntries\<close>: the entries by identity, with the first identity that occurs again.\<close>

fun indexEntries :: "(string \<Rightarrow> string) \<Rightarrow> snapshot_entry list \<Rightarrow> (string, snapshot_entry) omap
     \<Rightarrow> (string, snapshot_entry) omap \<times> string option" where
  "indexEntries digest [] m = (m, None)"
| "indexEntries digest (e # es) m =
     (let i = entryIdentity digest e in
      if oget m i \<noteq> None then (m, Some i) else indexEntries digest es (oset i e m))"

record semantic_diff =
  diffUnchanged :: nat
  diffAdded :: "(string \<times> string \<times> snapshot_entry) list"
  diffChanged :: "(string \<times> string \<times> jval \<times> snapshot_entry) list"
  diffRemoved :: "(string \<times> jval) list"

definition diff_identity ::
  "(string \<Rightarrow> string \<Rightarrow> bool) \<Rightarrow> (string, snapshot_entry) omap \<Rightarrow> (string, snapshot_entry) omap \<Rightarrow> string
     \<Rightarrow> semantic_diff \<Rightarrow> semantic_diff" where
  "diff_identity before base cur i d =
     (case (oget base i, oget cur i) of
        (None, Some c) \<Rightarrow> d\<lparr>diffAdded := diffAdded d @ [(i, entrySnapshotId c, c)]\<rparr>
      | (Some p, None) \<Rightarrow> d\<lparr>diffRemoved := diffRemoved d @ [(i, entryState before p)]\<rparr>
      | (None, None) \<Rightarrow> d
      | (Some p, Some c) \<Rightarrow>
          if json_text (entryState before p) = json_text (entryState before c)
          then d\<lparr>diffUnchanged := diffUnchanged d + 1\<rparr>
          else d\<lparr>diffChanged := diffChanged d @ [(i, entrySnapshotId c, entryState before p, c)]\<rparr>)"

definition empty_diff :: semantic_diff where
  "empty_diff = \<lparr>diffUnchanged = 0, diffAdded = [], diffChanged = [], diffRemoved = []\<rparr>"

definition captureBudget :: "capture_signature \<Rightarrow> int \<times> bool" where
  "captureBudget c = (capMaxEntries c, capIncludeHidden c)"

definition query_text :: "capture_signature \<Rightarrow> string" where
  "query_text c = (case capQuery c of Some q \<Rightarrow> q | None \<Rightarrow> [])"

definition comparePageSnapshotRecords ::
  "(string \<Rightarrow> string) \<Rightarrow> (string \<Rightarrow> string \<Rightarrow> bool) \<Rightarrow> snapshot_record \<Rightarrow> snapshot_record \<Rightarrow> diff_failure + semantic_diff" where
  "comparePageSnapshotRecords digest before base cur =
     (if target_part (recTarget base) \<noteq> target_part (recTarget cur) then Inl TargetMismatch
      else if frame_or (recFrame base) (recTarget base) \<noteq> frame_or (recFrame cur) (recTarget cur) then Inl FrameMismatch
      else if recGeneration base \<noteq> recGeneration cur then Inl GenerationMismatch
      else case (recCapture base, recCapture cur) of
        (Some a, Some b) \<Rightarrow>
          if query_text a \<noteq> query_text b then Inl QueryMismatch
          else if captureBudget a \<noteq> captureBudget b then Inl BudgetMismatch
          else if snapTruncated (recRaw base) \<or> snapTruncated (recRaw cur) then Inl TruncatedSnapshot
          else
            let (bi, bd) = indexEntries digest (snapEntries (recRaw base)) [];
                (ci, cd) = indexEntries digest (snapEntries (recRaw cur)) [] in
            (case (case bd of Some i \<Rightarrow> Some i | None \<Rightarrow> cd) of
               Some i \<Rightarrow> Inl (AmbiguousIdentity i)
             | None \<Rightarrow> Inr (fold (diff_identity before bi ci) (sort (remdups (okeys bi @ okeys ci))) empty_diff))
      | _ \<Rightarrow> Inl SignatureMissing)"

subsection \<open>The index\<close>

lemma okeys_append_new: "oget m i = None \<Longrightarrow> okeys (oset i e m) = okeys m @ [i]"
  by (induction m) (auto split: if_splits)

lemma okeys_iff: "i \<in> set (okeys m) \<longleftrightarrow> oget m i \<noteq> None"
  by (induction m) (auto split: if_splits)

text \<open>Entries whose identities differ are indexed in their order; the first that repeats is reported.\<close>

lemma index_new:
  assumes "indexEntries digest es m = (n, None)"
  shows "okeys n = okeys m @ map (entryIdentity digest) es"
    "oget n i = (case find (\<lambda>e. entryIdentity digest e = i) es of Some e \<Rightarrow> Some e | None \<Rightarrow> oget m i)"
    "distinct (map (entryIdentity digest) es)" "\<forall>e \<in> set es. oget m (entryIdentity digest e) = None"
  using assms
proof (induction es arbitrary: m)
  case Nil
  {
    case 1 then show ?case by simp
  next
    case 2 then show ?case by simp
  next
    case 3 then show ?case by simp
  next
    case 4 then show ?case by simp
  }
next
  case (Cons e es)
  let ?j = "entryIdentity digest e"
  {
    case 1
    then have n: "oget m ?j = None" "indexEntries digest es (oset ?j e m) = (n, None)" by (auto simp: Let_def split: if_splits)
    from Cons.IH(1) [OF n(2)] okeys_append_new [OF n(1)] show ?case by simp
  next
    case 2
    then have n: "oget m ?j = None" "indexEntries digest es (oset ?j e m) = (n, None)" by (auto simp: Let_def split: if_splits)
    show ?case
    proof (cases "?j = i")
      case True
      have "find (\<lambda>e. entryIdentity digest e = i) es = None"
        using Cons.IH(4) [OF n(2)] True by (auto simp: find_None_iff)
      with Cons.IH(2) [OF n(2)] True show ?thesis by simp
    next
      case False
      with Cons.IH(2) [OF n(2)] show ?thesis by (simp split: option.split)
    qed
  next
    case 3
    then have n: "oget m ?j = None" "indexEntries digest es (oset ?j e m) = (n, None)" by (auto simp: Let_def split: if_splits)
    from Cons.IH(3,4) [OF n(2)] show ?case by force
  next
    case 4
    then have n: "oget m ?j = None" "indexEntries digest es (oset ?j e m) = (n, None)" by (auto simp: Let_def split: if_splits)
    from Cons.IH(4) [OF n(2)] n(1) show ?case by (auto split: if_splits)
  }
qed

lemma index_entries:
  assumes "indexEntries digest es [] = (n, None)"
  shows "oget n i = Some e \<longleftrightarrow> e \<in> set es \<and> entryIdentity digest e = i"
    "oget n i = None \<longleftrightarrow> i \<notin> entryIdentity digest ` set es"
    "okeys n = map (entryIdentity digest) es" "distinct (map (entryIdentity digest) es)"
proof -
  note n = index_new [OF assms]
  have g: "oget n i = find (\<lambda>e. entryIdentity digest e = i) es" using n(2) [of i] by (simp split: option.splits)
  show d: "distinct (map (entryIdentity digest) es)" by (rule n(3))
  show "oget n i = None \<longleftrightarrow> i \<notin> entryIdentity digest ` set es" unfolding g by (auto simp: find_None_iff)
  show "oget n i = Some e \<longleftrightarrow> e \<in> set es \<and> entryIdentity digest e = i"
  proof
    assume "oget n i = Some e"
    then show "e \<in> set es \<and> entryIdentity digest e = i" unfolding g by (auto simp: find_Some_iff)
  next
    assume e: "e \<in> set es \<and> entryIdentity digest e = i"
    then obtain e' where e': "find (\<lambda>e. entryIdentity digest e = i) es = Some e'"
      by (cases "find (\<lambda>e. entryIdentity digest e = i) es") (auto simp: find_None_iff)
    then have "e' \<in> set es" "entryIdentity digest e' = i" by (auto simp: find_Some_iff)
    with e d e' g show "oget n i = Some e" by (auto simp: distinct_map inj_on_def)
  qed
  show "okeys n = map (entryIdentity digest) es" using n(1) by simp
qed

subsection \<open>The parts of a diff\<close>

definition added_at :: "(string, snapshot_entry) omap \<Rightarrow> (string, snapshot_entry) omap \<Rightarrow> string \<Rightarrow> (string \<times> string \<times> snapshot_entry) list" where
  "added_at b c i = (case (oget b i, oget c i) of (None, Some e) \<Rightarrow> [(i, entrySnapshotId e, e)] | _ \<Rightarrow> [])"

definition removed_at :: "(string \<Rightarrow> string \<Rightarrow> bool) \<Rightarrow> (string, snapshot_entry) omap \<Rightarrow> (string, snapshot_entry) omap \<Rightarrow> string \<Rightarrow> (string \<times> jval) list" where
  "removed_at before b c i = (case (oget b i, oget c i) of (Some p, None) \<Rightarrow> [(i, entryState before p)] | _ \<Rightarrow> [])"

definition same_text :: "(string \<Rightarrow> string \<Rightarrow> bool) \<Rightarrow> snapshot_entry \<Rightarrow> snapshot_entry \<Rightarrow> bool" where
  "same_text before p e \<longleftrightarrow> json_text (entryState before p) = json_text (entryState before e)"

definition changed_at :: "(string \<Rightarrow> string \<Rightarrow> bool) \<Rightarrow> (string, snapshot_entry) omap \<Rightarrow> (string, snapshot_entry) omap \<Rightarrow> string
     \<Rightarrow> (string \<times> string \<times> jval \<times> snapshot_entry) list" where
  "changed_at before b c i = (case (oget b i, oget c i) of
     (Some p, Some e) \<Rightarrow> if same_text before p e then [] else [(i, entrySnapshotId e, entryState before p, e)] | _ \<Rightarrow> [])"

definition unchanged_at :: "(string \<Rightarrow> string \<Rightarrow> bool) \<Rightarrow> (string, snapshot_entry) omap \<Rightarrow> (string, snapshot_entry) omap \<Rightarrow> string \<Rightarrow> nat" where
  "unchanged_at before b c i = (case (oget b i, oget c i) of (Some p, Some e) \<Rightarrow> if same_text before p e then 1 else 0 | _ \<Rightarrow> 0)"

lemma diff_identity_parts:
  "diff_identity before b c i d = d\<lparr>diffUnchanged := diffUnchanged d + unchanged_at before b c i,
     diffAdded := diffAdded d @ added_at b c i, diffChanged := diffChanged d @ changed_at before b c i,
     diffRemoved := diffRemoved d @ removed_at before b c i\<rparr>"
  by (cases "oget b i"; cases "oget c i")
    (simp_all add: diff_identity_def added_at_def removed_at_def changed_at_def unchanged_at_def same_text_def)

lemma mem_parts [simp]:
  "x \<in> set (added_at b c i) \<longleftrightarrow> (\<exists>e. oget b i = None \<and> oget c i = Some e \<and> x = (i, entrySnapshotId e, e))"
  "y \<in> set (removed_at before b c i) \<longleftrightarrow> (\<exists>p. oget c i = None \<and> oget b i = Some p \<and> y = (i, entryState before p))"
  "z \<in> set (changed_at before b c i) \<longleftrightarrow> (\<exists>p e. oget b i = Some p \<and> oget c i = Some e \<and> \<not> same_text before p e
     \<and> z = (i, entrySnapshotId e, entryState before p, e))"
  by (cases "oget b i"; cases "oget c i"; simp add: added_at_def removed_at_def changed_at_def)+

lemma diff_fold:
  "fold (diff_identity before b c) ks d = d\<lparr>diffUnchanged := diffUnchanged d + sum_list (map (unchanged_at before b c) ks),
     diffAdded := diffAdded d @ concat (map (added_at b c) ks),
     diffChanged := diffChanged d @ concat (map (changed_at before b c) ks),
     diffRemoved := diffRemoved d @ concat (map (removed_at before b c) ks)\<rparr>"
  by (induction ks arbitrary: d) (simp_all add: diff_identity_parts)

lemma unchanged_card: "distinct is \<Longrightarrow> sum_list (map (unchanged_at before b c) is)
    = card {i \<in> set is. \<exists>p e. oget b i = Some p \<and> oget c i = Some e \<and> same_text before p e}"
proof (induction "is")
  case (Cons i "is")
  let ?S = "\<lambda>is. {i \<in> set is. \<exists>p e. oget b i = Some p \<and> oget c i = Some e \<and> same_text before p e}"
  have "?S (i # is) = (if unchanged_at before b c i = 1 then insert i (?S is) else ?S is)"
    by (auto simp: unchanged_at_def split: option.splits if_splits)
  moreover have "unchanged_at before b c i \<le> 1" by (simp add: unchanged_at_def split: option.split)
  ultimately show ?case using Cons by (cases "unchanged_at before b c i") auto
qed simp

lemma compare_cases:
  assumes "comparePageSnapshotRecords digest before base cur = Inr d"
  obtains bi ci where "indexEntries digest (snapEntries (recRaw base)) [] = (bi, None)"
    "indexEntries digest (snapEntries (recRaw cur)) [] = (ci, None)"
    "d = fold (diff_identity before bi ci) (sort (remdups (okeys bi @ okeys ci))) empty_diff"
  using assms by (auto simp: comparePageSnapshotRecords_def Let_def split: if_splits option.splits prod.splits)

text \<open>
  C40. A diff says exactly what changed between two snapshots: the entries whose identity is new, those
  whose identity is gone, those whose state reads differently; and it counts the identities that read the same.
\<close>
theorem snapshot_diff_exact:
  assumes "comparePageSnapshotRecords digest before base cur = Inr d"
    and "bs = set (snapEntries (recRaw base))" and "cs = set (snapEntries (recRaw cur))"
  shows "set (diffAdded d) = {(entryIdentity digest c, entrySnapshotId c, c) | c. c \<in> cs \<and> entryIdentity digest c \<notin> entryIdentity digest ` bs}
    \<and> set (diffRemoved d) = {(entryIdentity digest b, entryState before b) | b. b \<in> bs \<and> entryIdentity digest b \<notin> entryIdentity digest ` cs}
    \<and> set (diffChanged d) = {(entryIdentity digest c, entrySnapshotId c, entryState before b, c) | b c.
        b \<in> bs \<and> c \<in> cs \<and> entryIdentity digest b = entryIdentity digest c
        \<and> json_text (entryState before b) \<noteq> json_text (entryState before c)}
    \<and> diffUnchanged d = card {i. \<exists>b \<in> bs. \<exists>c \<in> cs. entryIdentity digest b = i \<and> entryIdentity digest c = i
        \<and> json_text (entryState before b) = json_text (entryState before c)}"
proof -
  from compare_cases [OF assms(1)] obtain bi ci where
    b: "indexEntries digest (snapEntries (recRaw base)) [] = (bi, None)" and
    c: "indexEntries digest (snapEntries (recRaw cur)) [] = (ci, None)" and
    d: "d = fold (diff_identity before bi ci) (sort (remdups (okeys bi @ okeys ci))) empty_diff" by metis
  define ks where "ks = sort (remdups (okeys bi @ okeys ci))"
  note bi = index_entries [OF b, folded assms(2)] and ci = index_entries [OF c, folded assms(3)]
  have mem: "i \<in> set ks \<longleftrightarrow> oget bi i \<noteq> None \<or> oget ci i \<noteq> None" for i
    using okeys_iff [of i bi] okeys_iff [of i ci] by (simp add: ks_def)
  have dist: "distinct ks" by (simp add: ks_def)
  have dd: "diffAdded d = concat (map (added_at bi ci) ks)" "diffRemoved d = concat (map (removed_at before bi ci) ks)"
    "diffChanged d = concat (map (changed_at before bi ci) ks)"
    "diffUnchanged d = sum_list (map (unchanged_at before bi ci) ks)"
    unfolding d ks_def [symmetric] diff_fold by (simp_all add: empty_diff_def)
  have "set (diffAdded d) = {(entryIdentity digest c, entrySnapshotId c, c) | c. c \<in> cs \<and> entryIdentity digest c \<notin> entryIdentity digest ` bs}"
  proof -
    have "x \<in> set (diffAdded d) \<longleftrightarrow> (\<exists>i e. oget bi i = None \<and> oget ci i = Some e \<and> x = (i, entrySnapshotId e, e))" for x
      unfolding dd(1) by (force simp: mem)
    then show ?thesis by (auto simp: bi(2) ci(1))
  qed
  moreover have "set (diffRemoved d) = {(entryIdentity digest b, entryState before b) | b. b \<in> bs \<and> entryIdentity digest b \<notin> entryIdentity digest ` cs}"
  proof -
    have "x \<in> set (diffRemoved d) \<longleftrightarrow> (\<exists>i p. oget ci i = None \<and> oget bi i = Some p \<and> x = (i, entryState before p))" for x
      unfolding dd(2) by (force simp: mem)
    then show ?thesis by (auto simp: ci(2) bi(1))
  qed
  moreover have "set (diffChanged d) = {(entryIdentity digest c, entrySnapshotId c, entryState before b, c) | b c.
        b \<in> bs \<and> c \<in> cs \<and> entryIdentity digest b = entryIdentity digest c
        \<and> json_text (entryState before b) \<noteq> json_text (entryState before c)}"
  proof -
    have "x \<in> set (diffChanged d) \<longleftrightarrow> (\<exists>i p e. oget bi i = Some p \<and> oget ci i = Some e \<and> \<not> same_text before p e
        \<and> x = (i, entrySnapshotId e, entryState before p, e))" for x
      unfolding dd(3) by (force simp: mem)
    then show ?thesis by (intro set_eqI) (simp only: bi(1) ci(1) same_text_def mem_Collect_eq, metis)
  qed
  moreover have "diffUnchanged d = card {i. \<exists>b \<in> bs. \<exists>c \<in> cs. entryIdentity digest b = i \<and> entryIdentity digest c = i
        \<and> json_text (entryState before b) = json_text (entryState before c)}"
    unfolding dd(4) unchanged_card [OF dist]
    by (rule arg_cong [where f = card]) (auto simp: mem bi(1) ci(1) same_text_def)
  ultimately show ?thesis by (intro conjI)
qed

lemma snapshot_diff_exact_witness:
  "\<exists>base cur d. comparePageSnapshotRecords (\<lambda>x. x) (\<lambda>x y. x < y) base cur = Inr d
    \<and> map (\<lambda>(i, s, e). i) (diffAdded d) = [''stable:c''] \<and> map fst (diffRemoved d) = [''stable:a'']
    \<and> map fst (diffChanged d) = [''stable:b''] \<and> diffUnchanged d = 1
    \<and> set (diffAdded d) = {(entryIdentity (\<lambda>x. x) c, entrySnapshotId c, c) | c. c \<in> set (snapEntries (recRaw cur))
        \<and> entryIdentity (\<lambda>x. x) c \<notin> entryIdentity (\<lambda>x. x) ` set (snapEntries (recRaw base))}"
proof -
  define e :: "string \<Rightarrow> string \<Rightarrow> snapshot_entry" where "e = (\<lambda>i t. \<lparr>entrySnapshotId = ''e'' @ i, entryStableId = Some i, entryTag = ''a'',
    entryRole = None, entryName = None, entryText = Some t, entryLabel = None, entryAttributes = [], entryPath = [],
    entryBox = \<lparr>boxX = Fin 0 0, boxY = Fin 0 0, boxWidth = Fin 0 0, boxHeight = Fin 0 0\<rparr>, entryInteractive = True,
    entryHeading = None, entryLandmark = None\<rparr>)"
  define s where "s = (\<lambda>es. \<lparr>snapTarget = ChromePage 1 None, snapGeneration = 1, snapTab = Some 1, snapFrame = None, snapUrl = ''u'',
    snapTitle = ''t'', snapQuery = None, snapGeneratedAt = 5, snapTruncated = False, snapEntries = es\<rparr>)"
  define base where "base = snd (write_snapshot (s [e ''a'' ''x'', e ''b'' ''x'', e ''d'' ''x'']) ''2026'' None [])"
  define cur where "cur = snd (write_snapshot (s [e ''b'' ''y'', e ''d'' ''x'', e ''c'' ''x'']) ''2026'' None [])"
  define d where "d = \<lparr>diffUnchanged = 1, diffAdded = [(''stable:c'', ''ec'', e ''c'' ''x'')],
    diffChanged = [(''stable:b'', ''eb'', entryState (\<lambda>x y. x < y) (e ''b'' ''x''), e ''b'' ''y'')],
    diffRemoved = [(''stable:a'', entryState (\<lambda>x y. x < y) (e ''a'' ''x''))]\<rparr>"
  note defs = e_def s_def base_def cur_def
  have r: "comparePageSnapshotRecords (\<lambda>x. x) (\<lambda>x y. x < y) base cur = Inr d"
    unfolding d_def defs by code_simp
  have "map (\<lambda>(i, s, e). i) (diffAdded d) = [''stable:c'']" "map fst (diffRemoved d) = [''stable:a'']"
    "map fst (diffChanged d) = [''stable:b'']" "diffUnchanged d = 1" by (simp_all add: d_def)
  note x = this and u = snapshot_diff_exact [OF r refl refl, THEN conjunct1]
  show ?thesis by (rule exI [of _ base], rule exI [of _ cur], rule exI [of _ d], intro conjI) (rule r x u)+
qed

end
