(* ===== verification/Async.thy ===== *)
theory Async
  imports Prelude "HOL-Library.Sublist"
begin

section \<open>Asynchronous handlers\<close>

text \<open>
  The event loop behind \<open>async\<close> functions. A handler is a process: it reads and changes the state,
  emits outputs, starts other handlers and waits. Between two waits it runs without interruption;
  while it waits every other handler may run. A system is a state with the processes that wait; its
  history records every output with the state it was emitted in.

  The second half is a rely-guarantee calculus for such processes: a contract says what the state
  always satisfies, what may be emitted, which changes a process promises to make and which changes of
  others it relies on; \<open>enters\<close> is what a handler that is spawned may assume of its parameters. A system all of
  whose handlers satisfy a contract keeps it in every run that starts handlers only where they may enter.
\<close>

subsection \<open>Processes\<close>

datatype (dead 's, dead 'o, dead 'q, dead 'w, dead 'j, dead 'e, 'a) process =
    Ret 'a
  | Throw 'e
  | Get "'s \<Rightarrow> ('s, 'o, 'q, 'w, 'j, 'e, 'a) process"
  | Put 's "('s, 'o, 'q, 'w, 'j, 'e, 'a) process"
  | Emit 'o "('s, 'o, 'q, 'w, 'j, 'e, 'a) process"
  | Spawn 'j "nat \<Rightarrow> ('s, 'o, 'q, 'w, 'j, 'e, 'a) process"
  | Await 'q "'w \<Rightarrow> ('s, 'o, 'q, 'w, 'j, 'e, 'a) process"

primrec after ::
  "('s, 'o, 'q, 'w, 'j, 'e, 'a) process \<Rightarrow> ('a \<Rightarrow> ('s, 'o, 'q, 'w, 'j, 'e, 'b) process) \<Rightarrow> ('s, 'o, 'q, 'w, 'j, 'e, 'b) process" where
  "after (Ret a) f = f a"
| "after (Throw e) f = Throw e"
| "after (Get k) f = Get (\<lambda>s. after (k s) f)"
| "after (Put s p) f = Put s (after p f)"
| "after (Emit x p) f = Emit x (after p f)"
| "after (Spawn j k) f = Spawn j (\<lambda>i. after (k i) f)"
| "after (Await q k) f = Await q (\<lambda>w. after (k w) f)"

primrec rescue ::
  "('s, 'o, 'q, 'w, 'j, 'e, 'a) process \<Rightarrow> ('e \<Rightarrow> ('s, 'o, 'q, 'w, 'j, 'e, 'a) process) \<Rightarrow> ('s, 'o, 'q, 'w, 'j, 'e, 'a) process" where
  "rescue (Ret a) f = Ret a"
| "rescue (Throw e) f = f e"
| "rescue (Get k) f = Get (\<lambda>s. rescue (k s) f)"
| "rescue (Put s p) f = Put s (rescue p f)"
| "rescue (Emit x p) f = Emit x (rescue p f)"
| "rescue (Spawn j k) f = Spawn j (\<lambda>i. rescue (k i) f)"
| "rescue (Await q k) f = Await q (\<lambda>w. rescue (k w) f)"

definition andThen ::
  "('s, 'o, 'q, 'w, 'j, 'e, unit) process \<Rightarrow> ('s, 'o, 'q, 'w, 'j, 'e, 'b) process \<Rightarrow> ('s, 'o, 'q, 'w, 'j, 'e, 'b) process" where
  "andThen p r = after p (\<lambda>_. r)"

text \<open>\<open>try ... finally\<close>, for a last step that does not throw.\<close>

definition ensuring ::
  "('s, 'o, 'q, 'w, 'j, 'e, 'a) process \<Rightarrow> ('s, 'o, 'q, 'w, 'j, 'e, unit) process \<Rightarrow> ('s, 'o, 'q, 'w, 'j, 'e, 'a) process" where
  "ensuring p r = after (rescue (after p (\<lambda>a. Ret (Inr a))) (\<lambda>e. Ret (Inl e)))
     (\<lambda>x. andThen r (case x of Inl e \<Rightarrow> Throw e | Inr a \<Rightarrow> Ret a))"

definition change :: "('s \<Rightarrow> 's) \<Rightarrow> ('s, 'o, 'q, 'w, 'j, 'e, unit) process" where
  "change f = Get (\<lambda>s. Put (f s) (Ret ()))"

definition emit :: "'o \<Rightarrow> ('s, 'o, 'q, 'w, 'j, 'e, unit) process" where
  "emit x = Emit x (Ret ())"

definition await :: "'q \<Rightarrow> ('s, 'o, 'q, 'w, 'j, 'e, 'w) process" where
  "await q = Await q Ret"

primrec each :: "('x \<Rightarrow> ('s, 'o, 'q, 'w, 'j, 'e, unit) process) \<Rightarrow> 'x list \<Rightarrow> ('s, 'o, 'q, 'w, 'j, 'e, unit) process" where
  "each f [] = Ret ()"
| "each f (x # xs) = andThen (f x) (each f xs)"

subsection \<open>Systems\<close>

datatype ('s, 'o, 'q, 'w, 'j, 'e) waiting = Fresh 'j | Waiting 'q "'w \<Rightarrow> ('s, 'o, 'q, 'w, 'j, 'e, unit) process"

record ('s, 'o, 'q, 'w, 'j, 'e) system =
  sysState :: 's
  sysHistory :: "('s \<times> 'o) list"
  sysPool :: "(nat, ('s, 'o, 'q, 'w, 'j, 'e) waiting) omap"
  sysNext :: nat

datatype ('j, 'w) event = Start 'j | Resume nat 'w

text \<open>One uninterrupted stretch of a process, from the process identity \<open>n\<close> on; a throw that is not caught ends it.\<close>

primrec stretch ::
  "('s, 'o, 'q, 'w, 'j, 'e, unit) process \<Rightarrow> nat \<Rightarrow> 's
     \<Rightarrow> nat \<times> 's \<times> ('s \<times> 'o) list \<times> (nat \<times> 'j) list \<times> ('q \<times> ('w \<Rightarrow> ('s, 'o, 'q, 'w, 'j, 'e, unit) process)) option" where
  "stretch (Ret a) n s = (n, s, [], [], None)"
| "stretch (Throw e) n s = (n, s, [], [], None)"
| "stretch (Get k) n s = stretch (k s) n s"
| "stretch (Put s' p) n s = stretch p n s'"
| "stretch (Emit x p) n s = (let (m, s', xs, js, r) = stretch p n s in (m, s', (s, x) # xs, js, r))"
| "stretch (Spawn j k) n s = (let (m, s', xs, js, r) = stretch (k n) (Suc n) s in (m, s', xs, (n, j) # js, r))"
| "stretch (Await q k) n s = (n, s, [], [], Some (q, k))"

definition run_stretch ::
  "('s, 'o, 'q, 'w, 'j, 'e, unit) process \<Rightarrow> nat \<Rightarrow> ('s, 'o, 'q, 'w, 'j, 'e) system \<Rightarrow> ('s, 'o, 'q, 'w, 'j, 'e) system" where
  "run_stretch p i y =
     (let (m, s', xs, js, r) = stretch p (sysNext y) (sysState y);
          pool1 = (case r of None \<Rightarrow> odel i (sysPool y) | Some (q, k) \<Rightarrow> oset i (Waiting q k) (sysPool y)) in
      \<lparr>sysState = s', sysHistory = sysHistory y @ xs,
        sysPool = fold (\<lambda>(n, j). oset n (Fresh j)) js pool1, sysNext = m\<rparr>)"

text \<open>
  An event starts a handler or resumes a process. \<open>ready\<close> says with what a query can be answered in a
  state; a resumption with anything else is no event of the system.
\<close>

definition system_step ::
  "(nat \<Rightarrow> 'j \<Rightarrow> ('s, 'o, 'q, 'w, 'j, 'e, unit) process) \<Rightarrow> (nat \<Rightarrow> 's \<Rightarrow> 'q \<Rightarrow> 'w \<Rightarrow> bool) \<Rightarrow> ('j, 'w) event
     \<Rightarrow> ('s, 'o, 'q, 'w, 'j, 'e) system \<Rightarrow> ('s, 'o, 'q, 'w, 'j, 'e) system" where
  "system_step job ready e y =
     (case e of
        Start j \<Rightarrow> run_stretch (job (sysNext y) j) (sysNext y) (y\<lparr>sysNext := Suc (sysNext y)\<rparr>)
      | Resume i w \<Rightarrow>
          (case oget (sysPool y) i of
             None \<Rightarrow> y
           | Some (Fresh j) \<Rightarrow> run_stretch (job i j) i y
           | Some (Waiting q k) \<Rightarrow> if ready i (sysState y) q w then run_stretch (k w) i y else y))"

definition system_start :: "'s \<Rightarrow> ('s, 'o, 'q, 'w, 'j, 'e) system" where
  "system_start s = \<lparr>sysState = s, sysHistory = [], sysPool = [], sysNext = 0\<rparr>"

abbreviation system_run where
  "system_run job ready es s \<equiv> fold (system_step job ready) es (system_start s)"

subsection \<open>Contracts\<close>

record ('s, 'o, 'q, 'w, 'j) contract =
  keeps :: "'s \<Rightarrow> ('s \<times> 'o) list \<Rightarrow> bool"
  permits :: "'s \<Rightarrow> ('s \<times> 'o) list \<Rightarrow> 'o \<Rightarrow> bool"
  relies :: "nat \<Rightarrow> 's \<Rightarrow> 's \<Rightarrow> bool"
  guarantees :: "nat \<Rightarrow> 's \<Rightarrow> 's \<Rightarrow> bool"
  answered :: "nat \<Rightarrow> 's \<Rightarrow> 'q \<Rightarrow> 'w \<Rightarrow> bool"
  enters :: "'s \<Rightarrow> 'j \<Rightarrow> bool"

text \<open>
  \<open>sat C i p Q E s h\<close>: process \<open>i\<close>, which continues with \<open>p\<close> in state \<open>s\<close> after history \<open>h\<close>, respects the
  contract until it returns with \<open>Q\<close> or throws with \<open>E\<close>.
\<close>

primrec sat ::
  "('s, 'o, 'q, 'w, 'j) contract \<Rightarrow> nat \<Rightarrow> ('s, 'o, 'q, 'w, 'j, 'e, 'a) process \<Rightarrow> ('a \<Rightarrow> 's \<Rightarrow> ('s \<times> 'o) list \<Rightarrow> bool)
     \<Rightarrow> ('e \<Rightarrow> 's \<Rightarrow> ('s \<times> 'o) list \<Rightarrow> bool) \<Rightarrow> 's \<Rightarrow> ('s \<times> 'o) list \<Rightarrow> bool" where
  "sat C i (Ret a) Q E s h = Q a s h"
| "sat C i (Throw e) Q E s h = E e s h"
| "sat C i (Get k) Q E s h = sat C i (k s) Q E s h"
| "sat C i (Put s' p) Q E s h = (guarantees C i s s' \<and> sat C i p Q E s' h)"
| "sat C i (Emit x p) Q E s h = (permits C s h x \<and> sat C i p Q E s (h @ [(s, x)]))"
| "sat C i (Spawn j k) Q E s h = (enters C s j \<and> (\<forall>n. sat C i (k n) Q E s h))"
| "sat C i (Await q k) Q E s h =
     (keeps C s h \<and> (\<forall>w s' h'. keeps C s' h' \<longrightarrow> relies C i s s' \<longrightarrow> prefix h h' \<longrightarrow> answered C i s' q w
        \<longrightarrow> sat C i (k w) Q E s' h'))"

lemma sat_return [simp]: "sat C i (Ret a) Q E = Q a" "sat C i (Throw e) Q E = E e"
  by (simp_all add: fun_eq_iff)

lemma sat_after: "sat C i (after p f) Q E s h = sat C i p (\<lambda>a. sat C i (f a) Q E) E s h"
  by (induction p arbitrary: s h) simp_all

lemma sat_rescue: "sat C i (rescue p f) Q E s h = sat C i p Q (\<lambda>e. sat C i (f e) Q E) s h"
  by (induction p arbitrary: s h) simp_all

lemma sat_andThen: "sat C i (andThen p r) Q E s h = sat C i p (\<lambda>_. sat C i r Q E) E s h"
  by (simp add: andThen_def sat_after)

lemma sat_ensuring: "sat C i (ensuring p r) Q E s h
    = sat C i p (\<lambda>a. sat C i r (\<lambda>_. Q a) E) (\<lambda>e. sat C i r (\<lambda>_. E e) E) s h"
  by (simp add: ensuring_def sat_after sat_rescue sat_andThen)

lemma sat_change: "sat C i (change f) Q E s h \<longleftrightarrow> guarantees C i s (f s) \<and> Q () (f s) h"
  by (simp add: change_def)

lemma sat_emit: "sat C i (emit x) Q E s h \<longleftrightarrow> permits C s h x \<and> Q () s (h @ [(s, x)])"
  by (simp add: emit_def)

lemmas sat_simps = sat_after sat_rescue sat_andThen sat_ensuring sat_change sat_emit

lemma sat_mono:
  assumes "sat C i p Q E s h" and "\<And>a s h. Q a s h \<Longrightarrow> Q' a s h" and "\<And>e s h. E e s h \<Longrightarrow> E' e s h"
  shows "sat C i p Q' E' s h"
  using assms(1) by (induction p arbitrary: s h) (auto simp: assms(2,3))

text \<open>The outputs of a history were permitted when they were emitted.\<close>

definition traced :: "('s, 'o, 'q, 'w, 'j) contract \<Rightarrow> ('s \<times> 'o) list \<Rightarrow> bool" where
  "traced C h \<longleftrightarrow> (\<forall>j < length h. permits C (fst (h ! j)) (take j h) (snd (h ! j)))"

lemma traced_Nil [simp]: "traced C []"
  by (simp add: traced_def)

lemma traced_snoc: "traced C (h @ [(s, x)]) \<longleftrightarrow> traced C h \<and> permits C s h x"
  by (auto simp: traced_def nth_append less_Suc_eq)

lemma traced_split: "traced C (h @ (s, x) # h') \<Longrightarrow> permits C s h x"
  unfolding traced_def by (drule spec [of _ "length h"]) simp

definition waits_ok :: "('s, 'o, 'q, 'w, 'j) contract \<Rightarrow> 's \<Rightarrow> ('s \<times> 'o) list \<Rightarrow> nat \<Rightarrow> ('s, 'o, 'q, 'w, 'j, 'e) waiting \<Rightarrow> bool" where
  "waits_ok C s h i v = (case v of
     Fresh j \<Rightarrow> enters C s j
   | Waiting q k \<Rightarrow> \<forall>w s' h'. keeps C s' h' \<longrightarrow> relies C i s s' \<longrightarrow> prefix h h' \<longrightarrow> answered C i s' q w
        \<longrightarrow> sat C i (k w) (\<lambda>_. keeps C) (\<lambda>_. keeps C) s' h')"

definition system_ok :: "('s, 'o, 'q, 'w, 'j) contract \<Rightarrow> ('s, 'o, 'q, 'w, 'j, 'e) system \<Rightarrow> bool" where
  "system_ok C y \<longleftrightarrow> keeps C (sysState y) (sysHistory y) \<and> traced C (sysHistory y)
     \<and> okeep (\<lambda>i v. i < sysNext y \<and> waits_ok C (sysState y) (sysHistory y) i v) (sysPool y)"

subsection \<open>Triples\<close>

text \<open>
  \<open>triple C i R P p Q\<close>: from a state of the contract with \<open>P\<close>, process \<open>i\<close> respects the contract while it
  runs \<open>p\<close>, ends in states related by \<open>R\<close>, and returns with \<open>Q\<close>. A frame is a relation of states that contains
  what the process relies on, so that its stable predicates survive both waiting and the process itself.
\<close>

definition triple ::
  "('s, 'o, 'q, 'w, 'j) contract \<Rightarrow> nat \<Rightarrow> ('s \<Rightarrow> 's \<Rightarrow> bool) \<Rightarrow> ('s \<Rightarrow> bool) \<Rightarrow> ('s, 'o, 'q, 'w, 'j, 'e, 'a) process
     \<Rightarrow> ('a \<Rightarrow> 's \<Rightarrow> bool) \<Rightarrow> bool" where
  "triple C i R P p Q \<longleftrightarrow> (\<forall>s h. keeps C s h \<longrightarrow> P s \<longrightarrow>
     sat C i p (\<lambda>a s' h'. keeps C s' h' \<and> R s s' \<and> Q a s') (\<lambda>_ s' h'. keeps C s' h' \<and> R s s') s h)"

definition frames :: "('s, 'o, 'q, 'w, 'j) contract \<Rightarrow> nat \<Rightarrow> ('s \<Rightarrow> 's \<Rightarrow> bool) \<Rightarrow> bool" where
  "frames C i R \<longleftrightarrow> reflp R \<and> transp R \<and> (\<forall>s t. relies C i s t \<longrightarrow> R s t)"

lemma framesD: "frames C i R \<Longrightarrow> R s s" "frames C i R \<Longrightarrow> R s t \<Longrightarrow> R t u \<Longrightarrow> R s u" "frames C i R \<Longrightarrow> relies C i s t \<Longrightarrow> R s t"
  by (auto simp: frames_def dest: reflpD transpD)

lemma tripleI: "(\<And>s h. keeps C s h \<Longrightarrow> P s \<Longrightarrow>
    sat C i p (\<lambda>a s' h'. keeps C s' h' \<and> R s s' \<and> Q a s') (\<lambda>_ s' h'. keeps C s' h' \<and> R s s') s h) \<Longrightarrow> triple C i R P p Q"
  by (simp add: triple_def)

lemma tripleD: "triple C i R P p Q \<Longrightarrow> keeps C s h \<Longrightarrow> P s \<Longrightarrow>
    sat C i p (\<lambda>a s' h'. keeps C s' h' \<and> R s s' \<and> Q a s') (\<lambda>_ s' h'. keeps C s' h' \<and> R s s') s h"
  by (simp add: triple_def)

lemma triple_conseq:
  assumes "triple C i R P p Q" and "\<And>s. P' s \<Longrightarrow> P s" and "\<And>a s. Q a s \<Longrightarrow> Q' a s" and "\<And>s t. R s t \<Longrightarrow> R' s t"
  shows "triple C i R' P' p Q'"
  by (rule tripleI, rule sat_mono [OF tripleD [OF assms(1)]]) (auto simp: assms(2-4))

lemma triple_frame:
  assumes "triple C i R P p Q" and "\<And>s t. F s \<Longrightarrow> R s t \<Longrightarrow> F t"
  shows "triple C i R (\<lambda>s. P s \<and> F s) p (\<lambda>a s. Q a s \<and> F s)"
  by (rule tripleI, rule sat_mono [OF tripleD [OF assms(1)]]) (auto intro: assms(2))

lemma triple_ret: "frames C i R \<Longrightarrow> (\<And>s. P s \<Longrightarrow> Q a s) \<Longrightarrow> triple C i R P (Ret a) Q"
  by (rule tripleI) (simp add: framesD(1))

lemma triple_throw: "frames C i R \<Longrightarrow> triple C i R P (Throw e) Q"
  by (rule tripleI) (simp add: framesD(1))

lemma triple_get: "(\<And>s. triple C i R (\<lambda>t. t = s \<and> P t) (k s) Q) \<Longrightarrow> triple C i R P (Get k) Q"
  by (rule tripleI) (auto dest: tripleD)

lemma triple_put:
  assumes f: "frames C i R" and u: "\<And>s h. keeps C s h \<Longrightarrow> P s \<Longrightarrow> keeps C t h \<and> guarantees C i s t \<and> R s t \<and> P' t"
    and p: "triple C i R P' p Q"
  shows "triple C i R P (Put t p) Q"
proof (rule tripleI)
  fix s h assume s: "keeps C s h" "P s"
  note t = u [OF s]
  have "sat C i p (\<lambda>a s' h'. keeps C s' h' \<and> R s s' \<and> Q a s') (\<lambda>_ s' h'. keeps C s' h' \<and> R s s') t h"
    by (rule sat_mono [OF tripleD [OF p]]) (use t framesD(2) [OF f] in blast)+
  with t show "sat C i (Put t p) (\<lambda>a s' h'. keeps C s' h' \<and> R s s' \<and> Q a s') (\<lambda>_ s' h'. keeps C s' h' \<and> R s s') s h" by simp
qed

lemma triple_spawn: "(\<And>s. P s \<Longrightarrow> enters C s j) \<Longrightarrow> (\<And>n. triple C i R P (k n) Q) \<Longrightarrow> triple C i R P (Spawn j k) Q"
  by (rule tripleI) (auto dest: tripleD)

lemma triple_await:
  assumes f: "frames C i R" and st: "\<And>s t. P s \<Longrightarrow> relies C i s t \<Longrightarrow> P' t"
    and k: "\<And>w. triple C i R (\<lambda>s. P' s \<and> answered C i s q w) (k w) Q"
  shows "triple C i R P (Await q k) Q"
proof (rule tripleI)
  fix s h assume s: "keeps C s h" "P s"
  have "sat C i (k w) (\<lambda>a s' h'. keeps C s' h' \<and> R s s' \<and> Q a s') (\<lambda>_ s' h'. keeps C s' h' \<and> R s s') t g"
    if "keeps C t g" "relies C i s t" "answered C i t q w" for w t g
    by (rule sat_mono [OF tripleD [OF k that(1)]]) (use that st [OF s(2) that(2)] framesD(2,3) [OF f] in blast)+
  with s show "sat C i (Await q k) (\<lambda>a s' h'. keeps C s' h' \<and> R s s' \<and> Q a s') (\<lambda>_ s' h'. keeps C s' h' \<and> R s s') s h" by simp
qed

lemma triple_after:
  assumes f: "frames C i R" and p: "triple C i R P p M" and k: "\<And>a. triple C i R (M a) (k a) Q"
  shows "triple C i R P (after p k) Q"
proof (rule tripleI)
  fix s h assume s: "keeps C s h" "P s"
  have "sat C i (k a) (\<lambda>a s' h'. keeps C s' h' \<and> R s s' \<and> Q a s') (\<lambda>_ s' h'. keeps C s' h' \<and> R s s') t g"
    if "keeps C t g \<and> R s t \<and> M a t" for a t g
    by (rule sat_mono [OF tripleD [OF k]]) (use that framesD(2) [OF f] in blast)+
  then show "sat C i (after p k) (\<lambda>a s' h'. keeps C s' h' \<and> R s s' \<and> Q a s') (\<lambda>_ s' h'. keeps C s' h' \<and> R s s') s h"
    unfolding sat_after by (rule sat_mono [OF tripleD [OF p s]]) blast+
qed

lemma triple_andThen: "frames C i R \<Longrightarrow> triple C i R P p (\<lambda>_. M) \<Longrightarrow> triple C i R M r Q \<Longrightarrow> triple C i R P (andThen p r) Q"
  unfolding andThen_def by (rule triple_after)

lemma triple_rescue:
  assumes f: "frames C i R" and p: "triple C i R P p Q" and st: "\<And>s t. P s \<Longrightarrow> R s t \<Longrightarrow> P' t"
    and k: "\<And>e. triple C i R P' (k e) Q"
  shows "triple C i R P (rescue p k) Q"
proof (rule tripleI)
  fix s h assume s: "keeps C s h" "P s"
  have k': "sat C i (k e) (\<lambda>a s' h'. keeps C s' h' \<and> R s s' \<and> Q a s') (\<lambda>_ s' h'. keeps C s' h' \<and> R s s') t g"
    if "keeps C t g \<and> R s t" for e t g
    by (rule sat_mono [OF tripleD [OF k]]) (use that st [OF s(2)] framesD(2) [OF f] in blast)+
  show "sat C i (rescue p k) (\<lambda>a s' h'. keeps C s' h' \<and> R s s' \<and> Q a s') (\<lambda>_ s' h'. keeps C s' h' \<and> R s s') s h"
    unfolding sat_rescue by (rule sat_mono [OF tripleD [OF p s]]) (use k' in blast)+
qed

lemma triple_ensuring:
  assumes f: "frames C i R" and p: "triple C i R P p Q" and st: "\<And>s t. P s \<Longrightarrow> R s t \<Longrightarrow> P' t"
    and q: "\<And>a. triple C i R (\<lambda>s. Q a s \<and> P' s) r (\<lambda>_. Q' a)" and e: "triple C i R P' r (\<lambda>_ _. True)"
  shows "triple C i R P (ensuring p r) Q'"
proof (rule tripleI)
  fix s h assume s: "keeps C s h" "P s"
  have q': "sat C i r (\<lambda>_ s' h'. keeps C s' h' \<and> R s s' \<and> Q' a s') (\<lambda>_ s' h'. keeps C s' h' \<and> R s s') t g"
    if "keeps C t g \<and> R s t \<and> Q a t" for a t g
    by (rule sat_mono [OF tripleD [OF q]]) (use that st [OF s(2)] framesD(2) [OF f] in blast)+
  have e': "sat C i r (\<lambda>_ s' h'. keeps C s' h' \<and> R s s') (\<lambda>_ s' h'. keeps C s' h' \<and> R s s') t g"
    if "keeps C t g \<and> R s t" for t g
    by (rule sat_mono [OF tripleD [OF e]]) (use that st [OF s(2)] framesD(2) [OF f] in blast)+
  show "sat C i (ensuring p r) (\<lambda>a s' h'. keeps C s' h' \<and> R s s' \<and> Q' a s') (\<lambda>_ s' h'. keeps C s' h' \<and> R s s') s h"
    unfolding sat_ensuring by (rule sat_mono [OF tripleD [OF p s]]) (use q' e' in blast)+
qed

lemma triple_change:
  assumes "\<And>s h. keeps C s h \<Longrightarrow> P s \<Longrightarrow> keeps C (f s) h \<and> guarantees C i s (f s) \<and> R s (f s) \<and> Q (f s)"
  shows "triple C i R P (change f) (\<lambda>_. Q)"
  by (rule tripleI) (simp add: sat_change assms)

lemma triple_emit:
  assumes "frames C i R" and "\<And>s h. keeps C s h \<Longrightarrow> P s \<Longrightarrow> permits C s h x \<and> keeps C s (h @ [(s, x)])"
  shows "triple C i R P (emit x) (\<lambda>_. P)"
  by (rule tripleI) (simp add: sat_emit assms(2) framesD(1) [OF assms(1)])

lemma triple_each:
  assumes "frames C i R" and "\<And>x. x \<in> set xs \<Longrightarrow> triple C i R P (f x) (\<lambda>_. P)"
  shows "triple C i R P (each f xs) (\<lambda>_. P)"
  using assms(2) by (induction xs) (auto intro!: triple_ret triple_andThen assms(1))

lemma triple_if: "(c \<Longrightarrow> triple C i R P p Q) \<Longrightarrow> (\<not> c \<Longrightarrow> triple C i R P r Q) \<Longrightarrow> triple C i R P (if c then p else r) Q"
  by simp

lemma triple_weak: "triple C i R P p Q \<Longrightarrow> triple C i R P p (\<lambda>_ _. True)"
  by (erule triple_conseq) auto

lemma triple_pre: "triple C i R P p Q \<Longrightarrow> (\<And>s. P' s \<Longrightarrow> P s) \<Longrightarrow> triple C i R P' p Q"
  by (erule triple_conseq) auto

lemma triple_post: "triple C i R P p Q \<Longrightarrow> (\<And>a s. Q a s \<Longrightarrow> Q' a s) \<Longrightarrow> triple C i R P p Q'"
  by (erule triple_conseq) auto

lemma triple_get_any: "(\<And>s. triple C i R P (k s) Q) \<Longrightarrow> triple C i R P (Get k) Q"
  by (rule triple_get) (auto intro: triple_pre)

lemma triple_true: "triple C i R (\<lambda>_. True) p (\<lambda>_ _. True) \<Longrightarrow> triple C i R P p (\<lambda>_ _. True)"
  by (erule triple_pre) simp

lemma triple_ret_true: "frames C i R \<Longrightarrow> triple C i R P (Ret a) (\<lambda>_ _. True)"
  by (rule triple_ret) simp_all

text \<open>Predicates that survive a relation, such as what a process relies on.\<close>

definition lasting :: "('s \<Rightarrow> 's \<Rightarrow> bool) \<Rightarrow> ('s \<Rightarrow> bool) \<Rightarrow> bool" where
  "lasting R P \<longleftrightarrow> (\<forall>s t. P s \<longrightarrow> R s t \<longrightarrow> P t)"

named_theorems stables "predicates that survive what a process relies on"

lemma lastingD: "lasting R P \<Longrightarrow> P s \<Longrightarrow> R s t \<Longrightarrow> P t"
  unfolding lasting_def by blast

lemma lasting_const [stables, simp]: "lasting R (\<lambda>s. b)"
  by (simp add: lasting_def)

lemma lasting_conj [stables]: "lasting R P \<Longrightarrow> lasting R Q \<Longrightarrow> lasting R (\<lambda>s. P s \<and> Q s)"
  unfolding lasting_def by blast

lemma triple_frames: "triple C i R P p Q \<Longrightarrow> lasting R F \<Longrightarrow> triple C i R (\<lambda>s. P s \<and> F s) p (\<lambda>a s. Q a s \<and> F s)"
  by (rule triple_frame) (auto dest: lastingD)

lemma triple_keep: "triple C i R (\<lambda>s. True) p (\<lambda>a s. True) \<Longrightarrow> lasting R P \<Longrightarrow> triple C i R P p (\<lambda>_. P)"
  using triple_frames [of C i R "\<lambda>s. True" p "\<lambda>_ _. True" P] by simp

locale respected =
  fixes C :: "('s, 'o, 'q, 'w, 'j) contract" and job :: "nat \<Rightarrow> 'j \<Rightarrow> ('s, 'o, 'q, 'w, 'j, 'e, unit) process"
  assumes rely_refl: "relies C i s s"
    and rely_trans: "relies C i s t \<Longrightarrow> relies C i t u \<Longrightarrow> relies C i s u"
    and guarantee_rely: "guarantees C i s t \<Longrightarrow> i \<noteq> j \<Longrightarrow> relies C j s t"
    and enters_later: "enters C s x \<Longrightarrow> relies C i s t \<Longrightarrow> enters C t x"
    and job_sat: "keeps C s h \<Longrightarrow> enters C s x \<Longrightarrow> sat C i (job i x) (\<lambda>_. keeps C) (\<lambda>_. keeps C) s h"
begin

lemma stretch_sat:
  assumes "sat C i p (\<lambda>_. keeps C) (\<lambda>_. keeps C) s h" and "stretch p n s = (m, s', xs, js, r)" and "traced C h"
  shows "n \<le> m \<and> keeps C s' (h @ xs) \<and> traced C (h @ xs) \<and> (\<forall>(k, x) \<in> set js. n \<le> k \<and> k < m \<and> enters C s' x)
    \<and> (\<forall>j. j \<noteq> i \<longrightarrow> relies C j s s')
    \<and> (\<forall>q k. r = Some (q, k) \<longrightarrow> waits_ok C s' (h @ xs) i (Waiting q k :: ('s, 'o, 'q, 'w, 'j, 'e) waiting))"
  using assms
proof (induction p arbitrary: n s h m s' xs js r)
  case (Put t p)
  then have "guarantees C i s t" by simp
  with Put.IH [of t h n] Put.prems show ?case by (auto intro: rely_trans guarantee_rely)
next
  case (Emit x p)
  obtain m1 s1 xs1 js1 r1 where e: "stretch p n s = (m1, s1, xs1, js1, r1)" by (metis prod.exhaust)
  with Emit.prems Emit.IH [of s "h @ [(s, x)]" n] show ?case by (auto simp: traced_snoc)
next
  case (Spawn j k)
  obtain m1 s1 xs1 js1 r1 where e: "stretch (k n) (Suc n) s = (m1, s1, xs1, js1, r1)" by (metis prod.exhaust)
  from Spawn.prems(1) have k: "sat C i (k n) (\<lambda>_. keeps C) (\<lambda>_. keeps C) s h" by simp
  from Spawn.IH [OF _ k e Spawn.prems(3)] have later: "\<forall>j. j \<noteq> i \<longrightarrow> relies C j s s1" and
    rest: "Suc n \<le> m1 \<and> keeps C s1 (h @ xs1) \<and> traced C (h @ xs1) \<and> (\<forall>(k, x) \<in> set js1. Suc n \<le> k \<and> k < m1 \<and> enters C s1 x)
      \<and> (\<forall>q k. r1 = Some (q, k) \<longrightarrow> waits_ok C s1 (h @ xs1) i (Waiting q k :: ('s, 'o, 'q, 'w, 'j, 'e) waiting))" by blast+
  from Spawn.prems(1) have "enters C s j" by simp
  then have "enters C s1 j" using later enters_later [of s j "Suc i" s1] by simp
  with later rest e Spawn.prems(2) show ?case by fastforce
next
  case (Get k)
  from Get.IH [of "k s" s h n] Get.prems show ?case by simp
qed (auto simp: waits_ok_def rely_refl)

lemma waits_later: "waits_ok C s h i v \<Longrightarrow> relies C i s s' \<Longrightarrow> waits_ok C s' (h @ xs) i v"
  unfolding waits_ok_def by (cases v) (simp, rule enters_later, simp_all, meson rely_trans append_prefixD)

lemma run_stretch_ok:
  fixes y :: "('s, 'o, 'q, 'w, 'j, 'e) system"
  assumes y: "keeps C (sysState y) (sysHistory y)" "traced C (sysHistory y)"
    and pool: "okeep (\<lambda>j v. j < sysNext y \<and> (j \<noteq> i \<longrightarrow> waits_ok C (sysState y) (sysHistory y) j v)) (sysPool y)"
    and p: "sat C i p (\<lambda>_. keeps C) (\<lambda>_. keeps C) (sysState y) (sysHistory y)" and i: "i < sysNext y"
  shows "system_ok C (run_stretch p i y)"
proof -
  obtain m s' xs js r where e: "stretch p (sysNext y) (sysState y) = (m, s', xs, js, r)" by (metis prod.exhaust)
  note f = stretch_sat [OF p e y(2)]
  let ?ok = "\<lambda>j v. j < m \<and> waits_ok C s' (sysHistory y @ xs) j v"
  have old: "j < sysNext y \<Longrightarrow> j < m" for j using f by simp
  define pool1 where "pool1 = (case r of None \<Rightarrow> odel i (sysPool y) | Some (q, k) \<Rightarrow> oset i (Waiting q k) (sysPool y))"
  have keep: "?ok j v" if "oget (sysPool y) j = Some v" "j \<noteq> i" for j v
    using okeep_get [OF pool that(1)] that(2) f old by (auto intro: waits_later)
  have p1: "okeep ?ok pool1"
    unfolding okeep_def
  proof (intro allI impI)
    fix j v
    assume v: "oget pool1 j = Some v"
    show "?ok j v"
    proof (cases r)
      case None
      with v keep show ?thesis by (auto simp: pool1_def split: if_splits)
    next
      case (Some a)
      obtain q k where a: "a = (q, k)" by (cases a)
      with Some v have "if j = i then v = Waiting q k else oget (sysPool y) j = Some v" by (auto simp: pool1_def split: if_splits)
      with Some a f keep i old show ?thesis by (auto split: if_splits)
    qed
  qed
  have "okeep ?ok (fold (\<lambda>(n, j). oset n (Fresh j)) ks pool1)" if "set ks \<subseteq> set js" for ks
    using that p1
  proof (induction ks arbitrary: pool1)
    case (Cons a ks)
    have "okeep ?ok (oset (fst a) (Fresh (snd a)) pool1)"
      by (rule okeep_set [OF Cons.prems(2)]) (use f Cons.prems(1) in \<open>auto simp: waits_ok_def\<close>)
    from Cons.IH [OF _ this] Cons.prems(1) show ?case by (simp add: case_prod_beta)
  qed simp
  with e f show ?thesis by (simp add: system_ok_def run_stretch_def Let_def pool1_def)
qed

lemma start_ok: "keeps C s [] \<Longrightarrow> system_ok C (system_start s)"
  by (simp add: system_ok_def system_start_def)

lemma step_ok:
  assumes ok: "system_ok C y" and e: "\<And>x. e = Start x \<Longrightarrow> enters C (sysState y) x"
  shows "system_ok C (system_step job (answered C) e y)"
proof (cases e)
  case (Start j)
  have "system_ok C (run_stretch (job (sysNext y) j) (sysNext y) (y\<lparr>sysNext := Suc (sysNext y)\<rparr>))"
  proof (rule run_stretch_ok)
    show "okeep (\<lambda>j v. j < sysNext (y\<lparr>sysNext := Suc (sysNext y)\<rparr>) \<and> (j \<noteq> sysNext y \<longrightarrow>
        waits_ok C (sysState (y\<lparr>sysNext := Suc (sysNext y)\<rparr>)) (sysHistory (y\<lparr>sysNext := Suc (sysNext y)\<rparr>)) j v))
      (sysPool (y\<lparr>sysNext := Suc (sysNext y)\<rparr>))"
      using ok by (auto simp: system_ok_def elim: okeep_mono)
  qed (use ok e [OF Start] in \<open>simp_all add: system_ok_def job_sat\<close>)
  with Start show ?thesis by (simp add: system_step_def)
next
  case (Resume i w)
  from ok have old: "okeep (\<lambda>j v. j < sysNext y \<and> (j \<noteq> i \<longrightarrow> waits_ok C (sysState y) (sysHistory y) j v)) (sysPool y)"
    by (auto simp: system_ok_def elim: okeep_mono)
  show ?thesis
  proof (cases "oget (sysPool y) i")
    case (Some v)
    with ok have i: "i < sysNext y" "waits_ok C (sysState y) (sysHistory y) i v"
      by (auto simp: system_ok_def dest: okeep_get)
    show ?thesis
    proof (cases v)
      case (Fresh j)
      have "system_ok C (run_stretch (job i j) i y)"
        by (rule run_stretch_ok [OF _ _ old _ i(1)]) (use ok i(2) Fresh in \<open>simp_all add: system_ok_def job_sat waits_ok_def\<close>)
      with Resume Some Fresh show ?thesis by (simp add: system_step_def)
    next
      case (Waiting q k)
      have "system_ok C (run_stretch (k w) i y)" if "answered C i (sysState y) q w"
        by (rule run_stretch_ok [OF _ _ old _ i(1)]) (use ok i(2) that Waiting in \<open>auto simp: system_ok_def waits_ok_def rely_refl\<close>)
      with Resume Some Waiting ok show ?thesis by (simp add: system_step_def)
    qed
  qed (use Resume ok in \<open>simp add: system_step_def\<close>)
qed

lemma run_ok:
  assumes "keeps C s []" and "\<And>x t. Start x \<in> set es \<Longrightarrow> enters C t x"
  shows "system_ok C (system_run job (answered C) es s)"
proof -
  have "system_ok C y \<Longrightarrow> system_ok C (fold (system_step job (answered C)) es y)" for y
    using assms(2) by (induction es arbitrary: y) (simp_all add: step_ok)
  with start_ok [OF assms(1)] show ?thesis by blast
qed

lemma keeps_run: "keeps C s [] \<Longrightarrow> (\<And>x t. Start x \<in> set es \<Longrightarrow> enters C t x) \<Longrightarrow>
    keeps C (sysState (system_run job (answered C) es s)) (sysHistory (system_run job (answered C) es s))"
  using run_ok unfolding system_ok_def by blast

lemma permits_run: "keeps C s [] \<Longrightarrow> (\<And>x t. Start x \<in> set es \<Longrightarrow> enters C t x) \<Longrightarrow>
    sysHistory (system_run job (answered C) es s) = h @ (t, x) # h' \<Longrightarrow> permits C t h x"
  using run_ok [of s es] traced_split [of C h t x h'] by (simp add: system_ok_def)

end

end
