(* ===== verification/PortAdmission.thy ===== *)
theory PortAdmission
  imports WindowAuthority
begin

section \<open>Admission of side panel ports\<close>

text \<open>
  The first part of \<open>packages/extension/src/bridge/agent-runtime-coordinator.ts\<close> (lines 134 to 660): the
  registry of tracking ports, the authentication of a port's document against its window's lease, and the
  admission of a port, which buffers what the document posts while it is authenticated.

  A port is its number; the lease lookup of the authority is the parameter \<open>resolve\<close>, which an
  interpretation of the code wires to \<^const>\<open>resolveActiveLease\<close>. The origin of a URL that is not an
  extension's is the parameter \<open>originOf\<close>.
\<close>

subsection \<open>Tracking ports\<close>

record tracking_entry =
  entryPort :: nat
  entryLease :: lease_identity

record tracking_registry =
  entriesByWindow :: "(int, tracking_entry) omap"
  entriesByPort :: "(nat, tracking_entry) omap"

definition new_tracking :: tracking_registry where
  "new_tracking = \<lparr>entriesByWindow = [], entriesByPort = []\<rparr>"

definition isCurrent :: "nat \<Rightarrow> lease_identity \<Rightarrow> tracking_registry \<Rightarrow> bool" where
  "isCurrent port l r = (case oget (entriesByPort r) port of
     None \<Rightarrow> False
   | Some e \<Rightarrow> oget (entriesByWindow r) (leaseWindow l) = Some e
       \<and> leaseLease (entryLease e) = leaseLease l \<and> leaseTransaction (entryLease e) = leaseTransaction l
       \<and> leaseDocument (entryLease e) = leaseDocument l)"

text \<open>The ports an operation disconnects are its second result.\<close>

definition install_tracking :: "nat \<Rightarrow> lease_identity \<Rightarrow> tracking_registry \<Rightarrow> tracking_registry \<times> nat list \<times> bool" where
  "install_tracking port l r =
     (if oget (entriesByPort r) port \<noteq> None then (r, [], isCurrent port l r)
      else
        let e = \<lparr>entryPort = port, entryLease = l\<rparr>;
            r1 = r\<lparr>entriesByWindow := oset (leaseWindow l) e (entriesByWindow r),
                   entriesByPort := oset port e (entriesByPort r)\<rparr> in
        case oget (entriesByWindow r) (leaseWindow l) of
          Some p \<Rightarrow> if entryPort p \<noteq> port
            then (r1\<lparr>entriesByPort := odel (entryPort p) (entriesByPort r1)\<rparr>, [entryPort p], True)
            else (r1, [], True)
        | None \<Rightarrow> (r1, [], True))"

definition remove_tracking :: "nat \<Rightarrow> tracking_registry \<Rightarrow> tracking_registry" where
  "remove_tracking port r =
     (case oget (entriesByPort r) port of
        None \<Rightarrow> r
      | Some e \<Rightarrow>
          let r1 = r\<lparr>entriesByPort := odel port (entriesByPort r)\<rparr> in
          if oget (entriesByWindow r) (leaseWindow (entryLease e)) = Some e
          then r1\<lparr>entriesByWindow := odel (leaseWindow (entryLease e)) (entriesByWindow r1)\<rparr> else r1)"

definition revoke_tracking :: "int \<Rightarrow> tracking_registry \<Rightarrow> tracking_registry \<times> nat list" where
  "revoke_tracking w r =
     (case oget (entriesByWindow r) w of
        None \<Rightarrow> (r, [])
      | Some e \<Rightarrow> (r\<lparr>entriesByWindow := odel w (entriesByWindow r),
                     entriesByPort := odel (entryPort e) (entriesByPort r)\<rparr>, [entryPort e]))"

text \<open>The two maps agree: a window has one tracking port and a port one window.\<close>

definition agree :: "(int \<Rightarrow> tracking_entry option) \<Rightarrow> (nat \<Rightarrow> tracking_entry option) \<Rightarrow> bool" where
  "agree W P \<longleftrightarrow> (\<forall>w e. W w = Some e \<longrightarrow> leaseWindow (entryLease e) = w \<and> P (entryPort e) = Some e)
     \<and> (\<forall>p e. P p = Some e \<longrightarrow> entryPort e = p \<and> W (leaseWindow (entryLease e)) = Some e)"

definition tracking_inv :: "tracking_registry \<Rightarrow> bool" where
  "tracking_inv r \<longleftrightarrow> agree (oget (entriesByWindow r)) (oget (entriesByPort r))"

datatype tracking_op = InstallTracking nat lease_identity | RemoveTracking nat | RevokeTracking int

fun tracking_step :: "tracking_op \<Rightarrow> tracking_registry \<Rightarrow> tracking_registry" where
  "tracking_step (InstallTracking p l) r = fst (install_tracking p l r)"
| "tracking_step (RemoveTracking p) r = remove_tracking p r"
| "tracking_step (RevokeTracking w) r = fst (revoke_tracking w r)"

lemma if_swap: "x \<noteq> y \<Longrightarrow> (\<lambda>k. if k = x then a else if k = y then b else f k) = (\<lambda>k. if k = y then b else if k = x then a else f k)"
  by auto

lemma oget_fun: "oget (oset k v m) = (oget m)(k \<mapsto> v)" "oget (odel k m) = (oget m)(k := None)"
  by (simp_all add: fun_eq_iff)

lemma agreeD: "agree W P \<Longrightarrow> W w = Some e \<Longrightarrow> leaseWindow (entryLease e) = w \<and> P (entryPort e) = Some e"
  "agree W P \<Longrightarrow> P p = Some e \<Longrightarrow> entryPort e = p \<and> W (leaseWindow (entryLease e)) = Some e"
  unfolding agree_def by blast+

lemma agree_delete:
  assumes a: "agree W P" and p: "P p = Some e"
  shows "agree (W(leaseWindow (entryLease e) := None)) (P(p := None))"
  unfolding agree_def
proof (intro conjI allI impI; (elim conjE)?)
  note e = agreeD(2) [OF a p]
  {
    fix w x assume x: "(W(leaseWindow (entryLease e) := None)) w = Some x"
    then have w: "w \<noteq> leaseWindow (entryLease e)" "W w = Some x" by (auto split: if_splits)
    note n = agreeD(1) [OF a w(2)]
    with w(1) p have "entryPort x \<noteq> p" by auto
    with n show "leaseWindow (entryLease x) = w" "(P(p := None)) (entryPort x) = Some x" by simp_all
  next
    fix k x assume x: "(P(p := None)) k = Some x"
    then have k: "k \<noteq> p" "P k = Some x" by (auto split: if_splits)
    note n = agreeD(2) [OF a k(2)]
    with k(1) e have "leaseWindow (entryLease x) \<noteq> leaseWindow (entryLease e)" by auto
    with n show "entryPort x = k" "(W(leaseWindow (entryLease e) := None)) (leaseWindow (entryLease x)) = Some x" by simp_all
  }
qed

lemma agree_insert: "agree W P \<Longrightarrow> P p = None \<Longrightarrow> W (leaseWindow l) = None
    \<Longrightarrow> agree (W(leaseWindow l \<mapsto> \<lparr>entryPort = p, entryLease = l\<rparr>)) (P(p \<mapsto> \<lparr>entryPort = p, entryLease = l\<rparr>))"
  unfolding agree_def by (auto; metis option.distinct(1))

lemma install_inv:
  assumes r: "tracking_inv r"
  shows "tracking_inv (fst (install_tracking p l r))"
proof (cases "oget (entriesByPort r) p")
  case None
  note inv = r [unfolded tracking_inv_def]
  show ?thesis
  proof (cases "oget (entriesByWindow r) (leaseWindow l)")
    case Nope: None
    from agree_insert [OF inv None Nope] None Nope show ?thesis
      by (simp add: install_tracking_def Let_def tracking_inv_def oget_fun fun_upd_def)
  next
    case (Some q)
    from agreeD(1) [OF inv Some] have q: "leaseWindow (entryLease q) = leaseWindow l" "oget (entriesByPort r) (entryPort q) = Some q"
      by simp_all
    with None have ne: "entryPort q \<noteq> p" by auto
    from agree_insert [OF agree_delete [OF inv q(2)], of p l] None q(1)
    have "agree ((oget (entriesByWindow r))(leaseWindow l \<mapsto> \<lparr>entryPort = p, entryLease = l\<rparr>))
      ((oget (entriesByPort r))(entryPort q := None, p \<mapsto> \<lparr>entryPort = p, entryLease = l\<rparr>))" by simp
    with None Some ne show ?thesis
      by (simp add: install_tracking_def Let_def tracking_inv_def oget_fun fun_upd_def if_swap [OF ne])
  qed
qed (use r in \<open>simp add: install_tracking_def\<close>)

lemma tracking_step_inv: "tracking_inv r \<Longrightarrow> tracking_inv (tracking_step op r)"
proof (cases op)
  case (RemoveTracking p)
  assume r: "tracking_inv r"
  show ?thesis
  proof (cases "oget (entriesByPort r) p")
    case (Some e)
    with agreeD(2) [OF r [unfolded tracking_inv_def] Some] agree_delete [OF r [unfolded tracking_inv_def] Some] RemoveTracking
    show ?thesis by (simp add: remove_tracking_def Let_def tracking_inv_def oget_fun fun_upd_def)
  qed (use r RemoveTracking in \<open>simp add: remove_tracking_def\<close>)
next
  case (RevokeTracking w)
  assume r: "tracking_inv r"
  show ?thesis
  proof (cases "oget (entriesByWindow r) w")
    case (Some e)
    note e = agreeD(1) [OF r [unfolded tracking_inv_def] Some]
    from agree_delete [OF r [unfolded tracking_inv_def] conjunct2 [OF e]] e Some RevokeTracking
    show ?thesis by (simp add: revoke_tracking_def tracking_inv_def oget_fun fun_upd_def)
  qed (use r RevokeTracking in \<open>simp add: revoke_tracking_def\<close>)
qed (simp add: install_inv)

interpretation tracking: invariant_machine tracking_step tracking_inv
  by unfold_locales (rule tracking_step_inv)

subsection \<open>Authentication\<close>

record validated_sender =
  validDocument :: "string option"
  validUrl :: string
  validOrigin :: string

definition text_in :: "string option \<Rightarrow> bool" where
  "text_in v \<longleftrightarrow> (case v of Some s \<Rightarrow> nonblank s | None \<Rightarrow> False)"

definition urlOrigin :: "(url \<Rightarrow> string) \<Rightarrow> (string \<Rightarrow> url option) \<Rightarrow> string \<Rightarrow> string option" where
  "urlOrigin originOf parseUrl v = (case parseUrl v of
     Some u \<Rightarrow> Some (if protocol u = ''chrome-extension:'' then protocol u @ ''//'' @ host u else originOf u)
   | None \<Rightarrow> None)"

definition validatedSidepanelSender ::
  "(url \<Rightarrow> string) \<Rightarrow> authority_config \<Rightarrow> authority_sender option \<Rightarrow> validated_sender option" where
  "validatedSidepanelSender originOf cfg sender =
     (case sender of
        None \<Rightarrow> None
      | Some x \<Rightarrow>
          if senderId x \<noteq> Some (cfgExtensionId cfg) \<or> \<not> text_in (senderUrl x) \<or> \<not> text_in (senderOrigin x)
            \<or> senderTab x \<noteq> None \<or> senderFrame x \<noteq> None \<or> senderLifecycle x \<notin> {None, Some ''active''}
          then None
          else case urlOrigin originOf (cfgParseUrl cfg) (cfgSidepanelUrl cfg) of
            None \<Rightarrow> None
          | Some origin \<Rightarrow>
              if origin = [] \<or> senderOrigin x \<noteq> Some origin
                \<or> \<not> isCanonicalSidepanelSenderUrl (cfgJsonParse cfg) (cfgParseUrl cfg) (the (senderUrl x)) (cfgSidepanelUrl cfg)
                \<or> \<not> nonblank (cfgContextType cfg)
              then None
              else Some \<lparr>validDocument = (if text_in (senderDocument x) then senderDocument x else None),
                validUrl = the (senderUrl x), validOrigin = the (senderOrigin x)\<rparr>)"

record authenticated_document =
  docId :: string
  docNonce :: string
  docUrl :: string
  docOrigin :: string
  docContext :: authority_context
  docLease :: lease_identity

type_synonym lease_lookup = "string \<Rightarrow> capability \<Rightarrow> string option \<Rightarrow> authorized_context option"

definition authenticateSidepanelDocument ::
  "(url \<Rightarrow> string) \<Rightarrow> authority_config \<Rightarrow> lease_lookup \<Rightarrow> authority_sender option \<Rightarrow> string \<Rightarrow> capability
     \<Rightarrow> authenticated_document option" where
  "authenticateSidepanelDocument originOf cfg resolve sender nonce material =
     Option.bind (validatedSidepanelSender originOf cfg sender) (\<lambda>x.
     Option.bind (urlOrigin originOf (cfgParseUrl cfg) (cfgSidepanelUrl cfg)) (\<lambda>origin.
     Option.bind (resolve nonce material (validDocument x)) (\<lambda>a.
       let c = authorizedContext a in
       if origin = [] \<or> ctxType c \<noteq> cfgContextType cfg \<or> ctxOrigin c \<noteq> Some origin
         \<or> \<not> text_in (ctxDocument c) \<or> \<not> text_in (ctxUrl c)
         \<or> \<not> sameExtensionPage (cfgParseUrl cfg) (the (ctxUrl c)) (cfgSidepanelUrl cfg)
         \<or> sidepanelDocumentNonce (cfgParseUrl cfg) (the (ctxUrl c)) \<noteq> Some nonce
         \<or> (validDocument x \<noteq> None \<and> ctxDocument c \<noteq> validDocument x)
         \<or> \<not> usableCanonicalWindowId (ctxWindow c) \<or> \<not> nonblank (ctxId c)
       then None
       else Some \<lparr>docId = the (ctxDocument c), docNonce = nonce, docUrl = validUrl x, docOrigin = validOrigin x,
         docContext = c, docLease = authorizedLease a\<rparr>)))"

record authenticated_port =
  authClient :: string
  authWindow :: int
  authExtension :: string
  authDocument :: string
  authUrl :: string
  authOrigin :: string
  authContext :: string
  authContextType :: string
  authNonce :: string
  authLease :: lease_identity

definition port_material :: "'a tracking_port_scheme \<Rightarrow> capability" where
  "port_material p = \<lparr>continuationToken = continuationToken p, transactionId = transactionId p, leaseId = leaseId p\<rparr>"

definition authenticateAgentRuntimePort ::
  "(url \<Rightarrow> string) \<Rightarrow> authority_config \<Rightarrow> lease_lookup \<Rightarrow> string \<Rightarrow> authority_sender option \<Rightarrow> authenticated_port option" where
  "authenticateAgentRuntimePort originOf cfg resolve name sender =
     Option.bind (parseAgentRuntimePortName name) (\<lambda>p.
     Option.bind (authenticateSidepanelDocument originOf cfg resolve sender (documentNonce p) (port_material p)) (\<lambda>d.
       if ctxWindow (docContext d) \<noteq> portWindowId p then None
       else Some \<lparr>authClient = portClientId p, authWindow = portWindowId p, authExtension = cfgExtensionId cfg,
         authDocument = docId d, authUrl = docUrl d, authOrigin = docOrigin d, authContext = ctxId (docContext d),
         authContextType = ctxType (docContext d), authNonce = documentNonce p, authLease = docLease d\<rparr>))"

text \<open>The coordinator checks an authentication once more against the port it came with.\<close>

definition authenticationMatchesPort :: "authority_sender option \<Rightarrow> runtime_port \<Rightarrow> authenticated_port \<Rightarrow> bool" where
  "authenticationMatchesPort sender p a \<longleftrightarrow>
     portClientId p = authClient a \<and> portWindowId p = authWindow a \<and> documentNonce p = authNonce a
     \<and> transactionId p = leaseTransaction (authLease a) \<and> leaseId p = leaseLease (authLease a)
     \<and> leaseWindow (authLease a) = authWindow a \<and> idNonce (leaseDocument (authLease a)) = authNonce a
     \<and> idContext (leaseDocument (authLease a)) = authContext a \<and> idDocument (leaseDocument (authLease a)) = authDocument a
     \<and> nonblank (authContext a) \<and> nonblank (authContextType a)
     \<and> (case sender of
          None \<Rightarrow> False
        | Some x \<Rightarrow> senderId x = Some (authExtension a) \<and> senderDocument x \<in> {None, Some (authDocument a)}
            \<and> senderUrl x = Some (authUrl a) \<and> senderOrigin x = Some (authOrigin a)
            \<and> senderTab x = None \<and> senderFrame x = None)"

definition authenticateTrackingPort ::
  "(url \<Rightarrow> string) \<Rightarrow> authority_config \<Rightarrow> lease_lookup \<Rightarrow> tracking_port \<Rightarrow> authority_sender option \<Rightarrow> lease_identity option" where
  "authenticateTrackingPort originOf cfg resolve p sender =
     Option.bind (authenticateSidepanelDocument originOf cfg resolve sender (documentNonce p) (port_material p)) (\<lambda>d.
       if ctxWindow (docContext d) \<noteq> portWindowId p then None else Some (docLease d))"

subsection \<open>Admission\<close>

text \<open>
  Between its connection and the decision a port buffers what its document posts. The events are the
  deliveries of the port and the ends of the two lookups; a posted message that cannot be cloned is
  \<^const>\<open>None\<close>. The last argument of \<open>LeaseChecked\<close> is the answer of the acceptor, \<^const>\<open>Inl\<close> when it
  throws. What an authenticated port is (\<open>'p\<close>) differs between runtime and tracking ports.
\<close>

datatype 'p admission_phase = Authenticating | Checking 'p | Decided

record ('p, 'm) admission =
  phase :: "'p admission_phase"
  buffered :: "'m list"
  gone :: bool
  listening :: bool

datatype ('p, 'm) admission_event =
    Posted "'m option"
  | PortGone
  | Authenticated "string + 'p option"
  | LeaseChecked "string + bool" "string + bool"

datatype ('p, 'm) admission_output =
    Disconnected
  | Accepted 'p "'m list"
  | AdmissionReported string

definition new_admission :: "('p, 'm) admission" where
  "new_admission = \<lparr>phase = Authenticating, buffered = [], gone = False, listening = True\<rparr>"

definition reject_port :: "('p, 'm) admission \<Rightarrow> ('p, 'm) admission \<times> ('p, 'm) admission_output list" where
  "reject_port a = (if gone a then (a, []) else (a\<lparr>gone := True, listening := False\<rparr>, [Disconnected]))"

definition post_to_port :: "nat \<Rightarrow> 'm option \<Rightarrow> ('p, 'm) admission \<Rightarrow> ('p, 'm) admission \<times> ('p, 'm) admission_output list" where
  "post_to_port limit m a =
     (if \<not> listening a then (a, [])
      else if limit \<le> length (buffered a) then reject_port a
      else case m of None \<Rightarrow> reject_port a | Some x \<Rightarrow> (a\<lparr>buffered := buffered a @ [x]\<rparr>, []))"

definition leave_port :: "('p, 'm) admission \<Rightarrow> ('p, 'm) admission" where
  "leave_port a = (if listening a then a\<lparr>gone := True, listening := False\<rparr> else a)"

definition finish_admission ::
  "string \<Rightarrow> 'p \<Rightarrow> string + bool \<Rightarrow> ('p, 'm) admission \<Rightarrow> ('p, 'm) admission \<times> ('p, 'm) admission_output list" where
  "finish_admission label p accepts a =
     (let report = (case accepts of Inl e \<Rightarrow> [AdmissionReported (label @ ''-admission'')] | Inr _ \<Rightarrow> []);
          a1 = a\<lparr>listening := False\<rparr>;
          (a2, out) = (if accepts = Inr True then (a1, []) else reject_port a1) in
      (a2, Accepted p (buffered a) # report @ out))"

definition admission_failed :: "string \<Rightarrow> ('p, 'm) admission \<Rightarrow> ('p, 'm) admission \<times> ('p, 'm) admission_output list" where
  "admission_failed label a =
     (let (b, out) = reject_port (a\<lparr>phase := Decided\<rparr>) in (b, AdmissionReported (label @ ''-authentication'') # out))"

definition admission_step ::
  "string \<Rightarrow> nat \<Rightarrow> ('p, 'm) admission_event \<Rightarrow> ('p, 'm) admission \<Rightarrow> ('p, 'm) admission \<times> ('p, 'm) admission_output list" where
  "admission_step label limit e a =
     (case e of
        Posted m \<Rightarrow> post_to_port limit m a
      | PortGone \<Rightarrow> (leave_port a, [])
      | Authenticated r \<Rightarrow>
          if phase a \<noteq> Authenticating then (a, [])
          else (case r of
            Inl err \<Rightarrow> admission_failed label a
          | Inr p \<Rightarrow>
              if gone a then (a\<lparr>phase := Decided\<rparr>, [])
              else case p of None \<Rightarrow> reject_port (a\<lparr>phase := Decided\<rparr>) | Some x \<Rightarrow> (a\<lparr>phase := Checking x\<rparr>, []))
      | LeaseChecked r accepts \<Rightarrow>
          (case phase a of
            Checking p \<Rightarrow>
              (case r of
                 Inl err \<Rightarrow> admission_failed label a
               | Inr current \<Rightarrow>
                   if \<not> current \<or> gone a then reject_port (a\<lparr>phase := Decided\<rparr>)
                   else finish_admission label p accepts (a\<lparr>phase := Decided\<rparr>))
          | _ \<Rightarrow> (a, [])))"

text \<open>The name of a port decides whether it is claimed and whether it is admitted at all; the limit is positive.\<close>

datatype ('p, 'm) claim = NotClaimed | DisconnectedAtOnce | BadLimit string | Admitting "('p, 'm) admission"

definition positive_limit :: "int option \<Rightarrow> bool" where
  "positive_limit limit \<longleftrightarrow> (case limit of None \<Rightarrow> True | Some n \<Rightarrow> 1 \<le> n \<and> n \<le> MAX_SAFE_INTEGER)"

definition authenticateAndAcceptAgentRuntimePort :: "int option \<Rightarrow> string \<Rightarrow> (authenticated_port, 'm) claim" where
  "authenticateAndAcceptAgentRuntimePort limit name =
     (if take (length ''agent-runtime:'') name \<noteq> ''agent-runtime:'' then NotClaimed
      else if parseAgentRuntimePortName name = None then DisconnectedAtOnce
      else if \<not> positive_limit limit then BadLimit ''maxBufferedMessages must be a positive safe integer''
      else Admitting new_admission)"

definition authenticateAndAcceptSidepanelTrackingPort ::
  "(url \<Rightarrow> string) \<Rightarrow> authority_config \<Rightarrow> int option \<Rightarrow> string \<Rightarrow> authority_sender option \<Rightarrow> (lease_identity, 'm) claim" where
  "authenticateAndAcceptSidepanelTrackingPort originOf cfg limit name sender =
     (if take (length ''sidepanel:'') name \<noteq> ''sidepanel:'' then NotClaimed
      else if parseSidepanelTrackingPortName name = None \<or> validatedSidepanelSender originOf cfg sender = None then DisconnectedAtOnce
      else if \<not> positive_limit limit then BadLimit ''maxBufferedMessages must be a positive safe integer''
      else Admitting new_admission)"

text \<open>
  A tracking port is installed in the registry just before it is accepted and taken out when it is
  rejected or goes; the first outputs are the ports the installation disconnects.
\<close>

definition tracking_admission_step ::
  "nat \<Rightarrow> nat \<Rightarrow> (lease_identity, 'm) admission_event \<Rightarrow> (lease_identity, 'm) admission \<times> tracking_registry
     \<Rightarrow> ((lease_identity, 'm) admission \<times> tracking_registry) \<times> nat list \<times> (lease_identity, 'm) admission_output list" where
  "tracking_admission_step limit port e ar =
     (let (a, r) = ar;
          (b, out) = admission_step ''sidepanel-tracking'' limit e a;
          follow = (\<lambda>b r. if gone b \<and> \<not> gone a then remove_tracking port r else r) in
      case out of
        Accepted l ms # rest \<Rightarrow>
          let (r1, closed, ok) = install_tracking port l r in
          if ok then ((b, follow b r1), closed, out)
          else let (b', out') = reject_port (a\<lparr>phase := Decided\<rparr>) in ((b', follow b' r1), closed, out')
      | _ \<Rightarrow> ((b, follow b r), [], out))"

subsection \<open>What admission delivers\<close>


definition posts :: "('p, 'm) admission_event list \<Rightarrow> 'm list" where
  "posts es = concat (map (\<lambda>e. case e of Posted (Some m) \<Rightarrow> [m] | _ \<Rightarrow> []) es)"



lemma posts_simps [simp]: "posts [] = []" "posts (es @ fs) = posts es @ posts fs" "posts [Posted (Some m)] = [m]"
  "posts [Posted None] = []" "posts [PortGone] = []" "posts [Authenticated r] = []" "posts [LeaseChecked x y] = []"
  by (simp_all add: posts_def)








subsection \<open>An authenticated port holds its window's lease\<close>

lemma bind_Some: "Option.bind x f = Some y \<longleftrightarrow> (\<exists>a. x = Some a \<and> f a = Some y)"
  by (cases x) simp_all

lemma validated:
  assumes "validatedSidepanelSender originOf cfg sender = Some v"
  obtains x where "sender = Some x" "validDocument v = (if text_in (senderDocument x) then senderDocument x else None)"
    "senderId x = Some (cfgExtensionId cfg)" "senderUrl x = Some (validUrl v)" "senderOrigin x = Some (validOrigin v)"
    "senderTab x = None" "senderFrame x = None" "nonblank (cfgContextType cfg)"
proof (cases sender)
  case (Some x)
  from assms Some have v: "v = \<lparr>validDocument = (if text_in (senderDocument x) then senderDocument x else None),
      validUrl = the (senderUrl x), validOrigin = the (senderOrigin x)\<rparr>"
    "senderId x = Some (cfgExtensionId cfg)" "text_in (senderUrl x)" "text_in (senderOrigin x)" "senderTab x = None"
    "senderFrame x = None" "nonblank (cfgContextType cfg)"
    unfolding validatedSidepanelSender_def by (simp_all del: not_None_eq split: if_splits option.splits)
  show ?thesis
    by (rule that [OF Some]) (use v in \<open>auto simp: text_in_def split: option.splits\<close>)
qed (use assms in \<open>simp add: validatedSidepanelSender_def\<close>)

lemma authenticated_document:
  assumes "authenticateSidepanelDocument originOf cfg resolve sender nonce m = Some d"
  obtains v a where "validatedSidepanelSender originOf cfg sender = Some v" "resolve nonce m (validDocument v) = Some a"
    "docContext d = authorizedContext a" "docLease d = authorizedLease a" "ctxDocument (docContext d) = Some (docId d)"
    "nonblank (ctxId (docContext d))" "ctxType (docContext d) = cfgContextType cfg"
    "docUrl d = validUrl v" "docOrigin d = validOrigin v" "validDocument v \<in> {None, Some (docId d)}"
proof -
  from assms obtain v origin a where v: "validatedSidepanelSender originOf cfg sender = Some v"
    and a: "resolve nonce m (validDocument v) = Some a"
    and d: "d = \<lparr>docId = the (ctxDocument (authorizedContext a)), docNonce = nonce, docUrl = validUrl v, docOrigin = validOrigin v,
         docContext = authorizedContext a, docLease = authorizedLease a\<rparr>"
    and c: "ctxType (authorizedContext a) = cfgContextType cfg" "text_in (ctxDocument (authorizedContext a))"
      "nonblank (ctxId (authorizedContext a))" "validDocument v = None \<or> ctxDocument (authorizedContext a) = validDocument v"
    by (auto simp: authenticateSidepanelDocument_def bind_Some Let_def simp del: not_None_eq split: if_splits)
  from c(2) obtain i where "ctxDocument (authorizedContext a) = Some i" by (auto simp: text_in_def split: option.splits)
  with v a d c show ?thesis by (intro that [of v a]) auto
qed

text \<open>
  C12. Admission rests on the window authority: whoever is authenticated for a runtime port, with the
  authority's \<^const>\<open>resolveActiveLease\<close> as lookup, presents the capability of the active record of
  exactly the window the port names, from the document that record names; the lease it gets is that
  record's, and the coordinator's own check of port and authentication passes.
\<close>
theorem authenticated_port_holds_lease:
  assumes inv: "authority_inv st" and "loaded st" and "\<not> poisoned st"
    and auth: "authenticateAgentRuntimePort originOf cfg (\<lambda>n m d. snd (resolveActiveLease cfg e n m d st)) name sender = Some a"
    and blank: "\<forall>x d. sender = Some x \<longrightarrow> senderDocument x = Some d \<longrightarrow> nonblank d"
  shows "\<exists>p d k. parseAgentRuntimePortName name = Some p \<and> oget (windows st) (authWindow a) = Some (ActiveRecord (authWindow a) d k)
    \<and> transactionId p = capTransaction k \<and> leaseId p = capLease k \<and> cfgHash cfg (continuationToken p) = verifierDigest k
    \<and> d = \<lparr>idContext = authContext a, idDocument = authDocument a, idNonce = authNonce a\<rparr>
    \<and> authLease a = lease_of (ActiveRecord (authWindow a) d k) \<and> authenticationMatchesPort sender p a"
proof -
  let ?resolve = "\<lambda>n m d. snd (resolveActiveLease cfg e n m d st)"
  from auth obtain p doc where p: "parseAgentRuntimePortName name = Some p"
    and doc: "authenticateSidepanelDocument originOf cfg ?resolve sender (documentNonce p) (port_material p) = Some doc"
    and w: "ctxWindow (docContext doc) = portWindowId p"
    and a: "a = \<lparr>authClient = portClientId p, authWindow = portWindowId p, authExtension = cfgExtensionId cfg,
         authDocument = docId doc, authUrl = docUrl doc, authOrigin = docOrigin doc, authContext = ctxId (docContext doc),
         authContextType = ctxType (docContext doc), authNonce = documentNonce p, authLease = docLease doc\<rparr>"
    by (auto simp: authenticateAgentRuntimePort_def bind_Some split: if_splits)
  from authenticated_document [OF doc] obtain v c where v: "validatedSidepanelSender originOf cfg sender = Some v"
    and c: "?resolve (documentNonce p) (port_material p) (validDocument v) = Some c"
    and d: "docContext doc = authorizedContext c" "docLease doc = authorizedLease c" "ctxDocument (docContext doc) = Some (docId doc)"
      "nonblank (ctxId (docContext doc))" "ctxType (docContext doc) = cfgContextType cfg" "docUrl doc = validUrl v"
      "docOrigin doc = validOrigin v" "validDocument v \<in> {None, Some (docId doc)}" by blast
  from validated [OF v] obtain x where x: "sender = Some x"
    "validDocument v = (if text_in (senderDocument x) then senderDocument x else None)"
    "senderId x = Some (cfgExtensionId cfg)" "senderUrl x = Some (validUrl v)" "senderOrigin x = Some (validOrigin v)"
    "senderTab x = None" "senderFrame x = None" "nonblank (cfgContextType cfg)" by blast
  from resolved_lease_run [OF assms(1-3) c] obtain u i k raw z where r: "oget (windows st) u = Some (ActiveRecord u i k)"
    "c = authorize (ActiveRecord u i k) z" "transactionId (port_material p) = capTransaction k" "leaseId (port_material p) = capLease k"
    "cfgHash cfg (continuationToken (port_material p)) = verifierDigest k" "ctxId z = idContext i" "ctxDocument z = Some (idDocument i)"
    "idNonce i = documentNonce p" by blast
  have u: "u = portWindowId p" using w d(1) r(2) by (simp add: authorize_def)
  have i: "i = \<lparr>idContext = authContext a, idDocument = authDocument a, idNonce = authNonce a\<rparr>"
    using r(2,6-8) d(1,3) by (simp add: a authorize_def)
  have l: "authLease a = lease_of (ActiveRecord (authWindow a) i k)" using r(2) d(2) u by (simp add: a authorize_def)
  have "senderDocument x \<in> {None, Some (docId doc)}"
    using blank x(1,2) d(8) by (cases "senderDocument x") (auto simp: text_in_def)
  then have "authenticationMatchesPort sender p a"
    using x d r(3,4) i l by (simp add: authenticationMatchesPort_def a lease_of_def port_material_def)
  with p r u i l show ?thesis
    by (intro exI [of _ p] exI [of _ i] exI [of _ k]) (simp add: a port_material_def)
qed

text \<open>A port of the sample window.\<close>

definition sample_port_name :: string where
  "sample_port_name = ''agent-runtime:client:1:'' @ sample_nonce @ '':'' @ continuationToken sample_raw @ '':''
     @ transactionId sample_raw @ '':'' @ leaseId sample_raw"

lemma sample_port_lookup:
  "parseAgentRuntimePortName sample_port_name = Some \<lparr>continuationToken = continuationToken sample_raw,
     transactionId = transactionId sample_raw, leaseId = leaseId sample_raw, portWindowId = 1, documentNonce = sample_nonce,
     portClientId = ''client''\<rparr>"
  by code_simp

lemma sample_port_sender: "validatedSidepanelSender (\<lambda>_. []) sample_config (Some sample_sender) =
    Some \<lparr>validDocument = Some ''d'', validUrl = ''s'', validOrigin = ''chrome-extension://h''\<rparr>"
  by code_simp

lemma sample_port_authenticates:
  "\<exists>a. authenticateAgentRuntimePort (\<lambda>_. []) sample_config (\<lambda>n m d. snd (resolveActiveLease sample_config sample_env n m d sample_active))
      sample_port_name (Some sample_sender) = Some a \<and> authWindow a = 1"
proof -
  have o: "urlOrigin (\<lambda>_. []) (cfgParseUrl sample_config) (cfgSidepanelUrl sample_config) = Some ''chrome-extension://h''" by code_simp
  have d: "ctxType sample_context = cfgContextType sample_config" "ctxOrigin sample_context = Some ''chrome-extension://h''"
    "text_in (ctxDocument sample_context)" "text_in (ctxUrl sample_context)" "ctxDocument sample_context = Some ''d''"
    "sameExtensionPage (cfgParseUrl sample_config) (the (ctxUrl sample_context)) (cfgSidepanelUrl sample_config)"
    "sidepanelDocumentNonce (cfgParseUrl sample_config) (the (ctxUrl sample_context)) = Some sample_nonce"
    "nonblank (ctxId sample_context)" "usableCanonicalWindowId 1" "text_in (Some ''d'')" by code_simp+
  have m: "\<lparr>continuationToken = continuationToken sample_raw, transactionId = transactionId sample_raw, leaseId = leaseId sample_raw\<rparr> = sample_raw"
    by simp
  show ?thesis
    by (simp add: authenticateAgentRuntimePort_def sample_port_lookup authenticateSidepanelDocument_def sample_port_sender o
        port_material_def m sample_resolved authorize_def Let_def d)
qed

lemma authenticated_port_holds_lease_witness:
  "\<exists>(a :: authenticated_port) d k. authWindow a = 1 \<and> oget (windows sample_active) 1 = Some (ActiveRecord 1 d k) \<and> leaseId sample_raw = capLease k
     \<and> authLease a = lease_of (ActiveRecord 1 d k)"
proof -
  from sample_port_authenticates obtain a where a: "authenticateAgentRuntimePort (\<lambda>_. []) sample_config
      (\<lambda>n m d. snd (resolveActiveLease sample_config sample_env n m d sample_active)) sample_port_name (Some sample_sender) = Some a"
    "authWindow a = 1" by blast
  have "\<forall>x d. Some sample_sender = Some x \<longrightarrow> senderDocument x = Some d \<longrightarrow> nonblank d"
    by (simp add: sample_sender_def) code_simp
  note h = authenticated_port_holds_lease [OF sample_authority_inv [of sample_handshake, folded sample_active_def] sample_active_state(2,3) a(1) this]
  from h obtain d k where "oget (windows sample_active) 1 = Some (ActiveRecord 1 d k)" "leaseId sample_raw = capLease k"
    "authLease a = lease_of (ActiveRecord 1 d k)" using a(2) by (auto simp: sample_port_lookup)
  with a(2) show ?thesis by blast
qed

end
