(* ===== verification/HostState.thy ===== *)
theory HostState
  imports RuntimeStream
begin

section \<open>The persisted state of the offscreen host\<close>

text \<open>
  What the offscreen runtime host exports and restores (\<open>OffscreenRuntimeHostState\<close> of
  \<open>packages/extension/src/agent/offscreen-runtime-host.ts\<close>): the coordinator checkpoints it, the host
  of \<open>RuntimeHost\<close> starts from it.
\<close>

record persisted_session =
  perClient :: string
  perWindow :: int
  perSession :: string
  perTarget :: target_identity
  perRevision :: int
  perEventSeq :: int
  perSnapshot :: session_snapshot

record host_state =
  hostEpoch :: string
  hostSessions :: "persisted_session list"
  hostRequests :: "(request_envelope \<times> response_envelope option) list"

definition host_state_json :: "host_state \<Rightarrow> jval" where
  "host_state_json st = JObj [(''runtimeEpoch'', JStr (hostEpoch st)),
     (''sessions'', JArr (map (\<lambda>p. JObj [(''clientId'', JStr (perClient p)), (''windowId'', jint (perWindow p)),
        (''sessionId'', JStr (perSession p)), (''target'', target_json (perTarget p)), (''revision'', jint (perRevision p)),
        (''eventSeq'', jint (perEventSeq p)), (''snapshot'', snapshot_json (perSnapshot p))]) (hostSessions st))),
     (''requests'', JArr (map (\<lambda>(q, r). JObj ((''request'', request_json q) # optf ''response'' response_json r)) (hostRequests st)))]"

end
