(* ===== verification/RuntimeCoordinator.thy ===== *)
theory RuntimeCoordinator
  imports Async PortAdmission HostState
begin

section \<open>The agent runtime coordinator\<close>

text \<open>
  \<open>AgentRuntimeCoordinator\<close> (\<open>packages/extension/src/bridge/agent-runtime-coordinator.ts\<close>) binds side
  panel documents to the sessions of the offscreen runtime: it relays requests and streams, fences every
  port by its lease, persists bindings and authorises page operations.

  Every method is a process of \<open>Async\<close>, with an \<open>Await\<close> where the source awaits something outside the
  coordinator. A chain of promises (the messages of a port, the route locks, the checkpoints) is a queue
  of process identities. A value that passes an envelope check is a typed record of \<open>RuntimeTypes\<close>, and
  the check is evaluated on its JSON form; other values are the \<open>Other...\<close> constructors. A connection
  object is its number; \<open>port.postMessage\<close> throws exactly for the ports in \<open>brokenPorts\<close>. A signal is the
  call it belongs to.
\<close>

subsection \<open>Descriptors\<close>

datatype connect_mode = CreateMode | LoadMode

record connection_descriptor =
  dClient :: string
  dWindow :: int
  dSession :: string
  dTarget :: target_identity
  dMode :: connect_mode
  dPrompt :: string
  dModel :: "jval option"
  dThinking :: "string option"
  dMessages :: "jval list option"

definition descriptor_json :: "connection_descriptor \<Rightarrow> jval" where
  "descriptor_json d = JObj ([(''clientId'', JStr (dClient d)), (''windowId'', jint (dWindow d)), (''sessionId'', JStr (dSession d)),
     (''target'', target_json (dTarget d)), (''mode'', JStr (case dMode d of CreateMode \<Rightarrow> ''create'' | LoadMode \<Rightarrow> ''load'')),
     (''systemPrompt'', JStr (dPrompt d))] @ optf ''model'' id (dModel d) @ optf ''thinkingLevel'' JStr (dThinking d)
     @ optf ''initialMessages'' JArr (dMessages d))"

definition fingerprint_of :: "connection_descriptor \<Rightarrow> string" where
  "fingerprint_of d = canonicalRuntimeValue (descriptor_json d)"

definition descriptorValidationRequest :: "connection_descriptor \<Rightarrow> request_envelope" where
  "descriptorValidationRequest d = \<lparr>protocolVersion = RUNTIME_PROTOCOL_VERSION, runtimeEpoch = ''descriptor-validation'',
     clientId = dClient d, windowId = dWindow d, trace = None, sessionId = dSession d, target = dTarget d,
     requestId = ''descriptor-validation'', operation = Create (dPrompt d) (dModel d) (dThinking d) (dMessages d)\<rparr>"

definition validConnectionDescriptor :: "connection_descriptor \<Rightarrow> bool" where
  "validConnectionDescriptor d \<longleftrightarrow> isRuntimeWireValue (descriptor_json d) \<and> nonblank (dClient d)
     \<and> usableCanonicalWindowId (dWindow d) \<and> nonblank (dSession d)
     \<and> isRuntimeRequestEnvelope (request_json (descriptorValidationRequest d))"

record accepted_descriptor =
  accDescriptor :: connection_descriptor
  accFingerprint :: string

definition descriptor_route :: "connection_descriptor \<Rightarrow> string" where
  "descriptor_route d = runtimeClientRouteKey (dClient d) (dWindow d)"

definition session_key :: "string \<Rightarrow> int \<Rightarrow> string \<Rightarrow> string" where
  "session_key c w s = ''['' @ quote c @ '','' @ int_text w @ '','' @ quote s @ '']''"

definition snapshotKey :: "connection_descriptor \<Rightarrow> string" where
  "snapshotKey d = session_key (dClient d) (dWindow d) (dSession d)"

definition pair_key :: "string \<Rightarrow> string \<Rightarrow> string" where
  "pair_key a b = ''['' @ quote a @ '','' @ quote b @ '']''"

definition sessionEpochKey :: "session_stream \<Rightarrow> string" where
  "sessionEpochKey e = pair_key (runtimeEpoch e) (sessionId e)"

definition helloMatchesDescriptor :: "hello_envelope \<Rightarrow> connection_descriptor \<Rightarrow> bool" where
  "helloMatchesDescriptor h d =
     (case find (\<lambda>c. cursorSessionId c = dSession d) (recoverySessions h) of
        None \<Rightarrow> True
      | Some c \<Rightarrow> same_target (cursorTarget c) (dTarget d))"

subsection \<open>The persisted state of the offscreen host\<close>

definition persisted_envelope :: "string \<Rightarrow> persisted_session \<Rightarrow> session_stream" where
  "persisted_envelope epoch p = \<lparr>protocolVersion = RUNTIME_PROTOCOL_VERSION, runtimeEpoch = epoch, clientId = perClient p,
     windowId = perWindow p, trace = None, sessionId = perSession p, target = perTarget p, revision = perRevision p,
     eventSeq = max 1 (perEventSeq p), payload = SnapshotPayload (perSnapshot p)\<rparr>"

definition valid_persisted_session :: "string \<Rightarrow> persisted_session \<Rightarrow> bool" where
  "valid_persisted_session epoch p \<longleftrightarrow> nonblank (perClient p) \<and> usableCanonicalWindowId (perWindow p) \<and> nonblank (perSession p)
     \<and> 0 \<le> perRevision p \<and> perRevision p \<le> MAX_SAFE_INTEGER \<and> 0 \<le> perEventSeq p \<and> perEventSeq p \<le> MAX_SAFE_INTEGER
     \<and> isRuntimeStreamEnvelope (session_stream_json (persisted_envelope epoch p))"

definition valid_persisted_request :: "string \<Rightarrow> request_envelope \<times> response_envelope option \<Rightarrow> bool" where
  "valid_persisted_request epoch qr \<longleftrightarrow> isRuntimeRequestEnvelope (request_json (fst qr)) \<and> runtimeEpoch (fst qr) = epoch
     \<and> (case snd qr of
          None \<Rightarrow> True
        | Some r \<Rightarrow> isRuntimeResponseEnvelope (response_json r) \<and> correlateRuntimeResponse (fst qr) r = [])"

definition persisted_request_key :: "request_envelope \<Rightarrow> string" where
  "persisted_request_key q =
     ''['' @ quote (clientId q) @ '','' @ int_text (windowId q) @ '','' @ quote (sessionId q) @ '','' @ quote (requestId q) @ '']''"

definition validPersistedState :: "host_state \<Rightarrow> bool" where
  "validPersistedState st \<longleftrightarrow> isRuntimeWireValue (host_state_json st) \<and> nonblank (hostEpoch st)
     \<and> list_all (valid_persisted_session (hostEpoch st)) (hostSessions st)
     \<and> distinct (map (\<lambda>p. session_key (perClient p) (perWindow p) (perSession p)) (hostSessions st))
     \<and> list_all (valid_persisted_request (hostEpoch st)) (hostRequests st)
     \<and> distinct (map (\<lambda>qr. persisted_request_key (fst qr)) (hostRequests st))"

subsection \<open>Page control\<close>

record page_scope =
  scopeOperation :: string
  scopeEpoch :: string
  scopeClient :: string
  scopeWindow :: int
  scopeSession :: string
  scopeTarget :: target_identity
  scopeExecution :: string
  scopeRequest :: string

datatype page_control =
    PageOperationMessage (control_scope: page_scope) (control_operation: string) "(string \<times> jval) list" "trace_context option"
  | PageCancelMessage (control_scope: page_scope)

definition PAGE_CONTROL_OPERATIONS :: "string list" where
  "PAGE_CONTROL_OPERATIONS = [''browser-js'', ''navigate'', ''native-input'', ''navigation-context'', ''page-snapshot'',
     ''select-element'', ''screenshot'', ''extract-image-source'', ''debugger'', ''repl-overlay-show'', ''repl-overlay-remove'']"

definition valid_scope :: "page_scope \<Rightarrow> bool" where
  "valid_scope p \<longleftrightarrow> nonblank (scopeOperation p) \<and> nonblank (scopeEpoch p) \<and> nonblank (scopeClient p)
     \<and> usableCanonicalWindowId (scopeWindow p) \<and> nonblank (scopeSession p) \<and> nonblank (scopeExecution p) \<and> nonblank (scopeRequest p)"

definition scope_request :: "page_scope \<Rightarrow> string \<Rightarrow> trace_context option \<Rightarrow> operation \<Rightarrow> request_envelope" where
  "scope_request p i tr op = \<lparr>protocolVersion = RUNTIME_PROTOCOL_VERSION, runtimeEpoch = scopeEpoch p, clientId = scopeClient p,
     windowId = scopeWindow p, trace = tr, sessionId = scopeSession p, target = scopeTarget p, requestId = i, operation = op\<rparr>"

text \<open>Which typed control messages \<open>pageControlMessage\<close> lets through.\<close>

fun pageControlMessage :: "page_control \<Rightarrow> bool" where
  "pageControlMessage (PageCancelMessage p) \<longleftrightarrow> valid_scope p
     \<and> isRuntimeRequestEnvelope (request_json (scope_request p (scopeOperation p) None (Abort (scopeExecution p) (scopeRequest p) None)))"
| "pageControlMessage (PageOperationMessage p op ps tr) \<longleftrightarrow> isRuntimeWireValue (JObj ps) \<and> valid_scope p \<and> nonblank op
     \<and> op \<in> set PAGE_CONTROL_OPERATIONS
     \<and> isRuntimeRequestEnvelope (request_json (scope_request p (scopeRequest p) tr (PageOperation (scopeExecution p) op ps)))"

definition executionIdentityKey :: "page_scope \<Rightarrow> string" where
  "executionIdentityKey p = canonicalRuntimeValue (JObj [(''runtimeEpoch'', JStr (scopeEpoch p)), (''clientId'', JStr (scopeClient p)),
     (''windowId'', jint (scopeWindow p)), (''sessionId'', JStr (scopeSession p)), (''target'', target_json (scopeTarget p)),
     (''executionId'', JStr (scopeExecution p)), (''executionRequestId'', JStr (scopeRequest p))])"

fun cancellable_execution :: "operation \<Rightarrow> string option" where
  "cancellable_execution (Prompt e m) = Some e"
| "cancellable_execution (ReplExecute e c js) = Some e"
| "cancellable_execution (PageOperation e p ps) = Some e"
| "cancellable_execution _ = None"

definition requestExecutionIdentity :: "request_envelope \<Rightarrow> string option" where
  "requestExecutionIdentity q = map_option (\<lambda>e. executionIdentityKey \<lparr>scopeOperation = [], scopeEpoch = runtimeEpoch q,
     scopeClient = clientId q, scopeWindow = windowId q, scopeSession = sessionId q, scopeTarget = target q, scopeExecution = e,
     scopeRequest = requestId q\<rparr>) (cancellable_execution (operation q))"

definition pageControlOperationFingerprint :: "page_control \<Rightarrow> string" where
  "pageControlOperationFingerprint c = pair_key (scopeOperation (control_scope c)) (executionIdentityKey (control_scope c))"

subsection \<open>State, outputs, queries\<close>

record port_connection =
  connPort :: nat
  connClient :: string
  connWindow :: int
  connLease :: lease_identity
  connDescriptor :: "connection_descriptor option"
  connFingerprint :: "string option"
  connConnected :: bool
  connClosed :: bool
  connHellos :: "string list"
  connLastSeq :: "(string, int) omap"

datatype turn = RouteTurn string | PortTurn nat | CheckpointTurn

datatype abort_listener =
    AbortExecution request_envelope string
  | AbortWaiter string nat

record coordinator =
  conns :: "(nat, port_connection) omap"
  nextConn :: nat
  connectionsByPort :: "(nat, nat) omap"
  activeRoutes :: "(string, nat) omap"
  acceptedDescriptors :: "(string, accepted_descriptor) omap"
  latestHellos :: "(string, hello_envelope) omap"
  latestSnapshots :: "(string, session_stream) omap"
  executionRequests :: "(string, request_envelope \<times> int) omap"
  pageControls :: "(string, (string \<times> page_control) \<times> int) omap"
  readyWaiters :: "(string, nat list) omap"
  waiterResults :: "(nat, string + session_snapshot) omap"
  nextWaiter :: nat
  initialization :: "nat option"
  initResults :: "(nat, string + unit) omap"
  nextInit :: nat
  initClaims :: "(nat, nat) omap"
  turns :: "(turn, nat list) omap"
  brokenPorts :: "nat list"
  abortedCalls :: "(nat, string option) omap"
  abortListeners :: "(nat, abort_listener) omap"
  nextRequest :: nat
  disposed :: bool

definition new_coordinator :: coordinator where
  "new_coordinator = \<lparr>conns = [], nextConn = 0, connectionsByPort = [], activeRoutes = [], acceptedDescriptors = [],
     latestHellos = [], latestSnapshots = [], executionRequests = [], pageControls = [], readyWaiters = [], waiterResults = [],
     nextWaiter = 0, initialization = None, initResults = [], nextInit = 0, initClaims = [], turns = [], brokenPorts = [], abortedCalls = [],
     abortListeners = [], nextRequest = 0, disposed = False\<rparr>"

datatype port_reply =
    PortConnected
  | PortRefused string
  | PortResponse response_envelope
  | PortError string string
  | PortStream stream_envelope

datatype offscreen_command =
    InitOffscreen "host_state option"
  | ConnectOffscreen connection_descriptor
  | RequestOffscreen request_envelope

datatype offscreen_reply =
    StreamReply stream_envelope
  | ResponseReply response_envelope
  | OtherReply

datatype call_result =
    CallDone
  | CallTruth bool
  | CallValue jval
  | CallSnapshot session_snapshot
  | CallRouted bool
  | CallCheckpointed
  | CallControlled "jval option"
  | CallFailed string
  | CallIgnored

datatype coordinator_output =
    PostToPort nat port_reply
  | DisconnectPort nat
  | ToOffscreen offscreen_command
  | DescriptorBound connection_descriptor
  | DescriptorReleased connection_descriptor string
  | ReadinessChanged connection_descriptor bool
  | PageControl page_control
  | SaveCheckpoint host_state
  | Reported string
  | CallSettled nat call_result

datatype coordinator_query =
    LeaseCurrent lease_identity
  | OffscreenReady
  | OffscreenAnswer
  | StoredDescriptors
  | StoredCheckpoint
  | CheckpointSaved
  | BindingPersisted
  | PageControlled
  | TurnOf turn
  | InitializationOf nat
  | WaiterSettled nat

datatype coordinator_answer =
    Done
  | Truth bool
  | Replied offscreen_reply
  | Descriptors "connection_descriptor option list"
  | CheckpointIs "host_state option"
  | CheckpointOther
  | Controlled "jval option"
  | Ready session_snapshot
  | FailedWith string

datatype port_message =
    ConnectMessage "connection_descriptor option"
  | RequestMessage request_envelope
  | OtherRequestMessage jval
  | OtherMessage jval

datatype offscreen_message =
    HostStream stream_envelope
  | Checkpoint host_state
  | ControlMessage page_control
  | OtherOffscreenMessage

datatype coordinator_job =
    InitializeJob nat
  | InitializeCall nat
  | AcceptPort nat string "authority_sender option" authenticated_port "port_message list"
  | PortMessage nat port_message
  | PortMessageJob nat port_message
  | PortDisconnected nat
  | OffscreenMessage nat offscreen_message
  | BindSession nat connection_descriptor
  | ReplaceSession nat connection_descriptor string
  | ReleaseSession nat string int string
  | ReleaseWindow nat int string
  | RequestSession nat connection_descriptor operation "trace_context option"
  | RefreshSnapshot nat connection_descriptor
  | WaitForSessionReady nat connection_descriptor
  | WaiterTimeout string nat string
  | AbortCall nat "string option"
  | RevokeWindowPorts int
  | BreakPort nat
  | Dispose

type_synonym 'a handler =
  "(coordinator, coordinator_output, coordinator_query, coordinator_answer, coordinator_job, string, 'a) process"

record coordinator_config =
  freshRequestId :: "nat \<Rightarrow> string"
  handlesPageControl :: bool

subsection \<open>Connections\<close>

definition no_connection :: port_connection where
  "no_connection = \<lparr>connPort = 0, connClient = [], connWindow = 0, connLease = \<lparr>leaseWindow = 0, leaseDocument =
     \<lparr>idContext = [], idDocument = [], idNonce = []\<rparr>, leaseTransaction = [], leaseLease = []\<rparr>, connDescriptor = None,
     connFingerprint = None, connConnected = False, connClosed = True, connHellos = [], connLastSeq = []\<rparr>"

definition conn :: "coordinator \<Rightarrow> nat \<Rightarrow> port_connection" where
  "conn s c = (case oget (conns s) c of Some x \<Rightarrow> x | None \<Rightarrow> no_connection)"

definition set_conn :: "nat \<Rightarrow> port_connection \<Rightarrow> coordinator \<Rightarrow> coordinator" where
  "set_conn c x s = s\<lparr>conns := oset c x (conns s)\<rparr>"

definition conn_route :: "port_connection \<Rightarrow> string" where
  "conn_route x = runtimeClientRouteKey (connClient x) (connWindow x)"

definition isActive :: "coordinator \<Rightarrow> nat \<Rightarrow> bool" where
  "isActive s c \<longleftrightarrow> oget (activeRoutes s) (conn_route (conn s c)) = Some c"

definition close_connection :: "nat \<Rightarrow> coordinator \<Rightarrow> coordinator" where
  "close_connection c s =
     (let x = conn s c; s1 = set_conn c (x\<lparr>connClosed := True, connConnected := False\<rparr>) s;
          s2 = s1\<lparr>connectionsByPort := odel (connPort x) (connectionsByPort s1)\<rparr> in
      if oget (activeRoutes s2) (conn_route x) = Some c
      then s2\<lparr>activeRoutes := odel (conn_route x) (activeRoutes s2)\<rparr> else s2)"

definition report :: "string \<Rightarrow> unit handler" where
  "report context = emit (Reported context)"

definition skip :: "unit handler" where
  "skip = Ret ()"

definition closeConnection :: "nat \<Rightarrow> bool \<Rightarrow> unit handler" where
  "closeConnection c disconnect = Get (\<lambda>s.
     if connClosed (conn s c) then skip
     else Put (close_connection c s) (if disconnect then emit (DisconnectPort (connPort (conn s c))) else skip))"

definition safePost :: "nat \<Rightarrow> port_reply \<Rightarrow> bool handler" where
  "safePost c m = Get (\<lambda>s.
     if connClosed (conn s c) then Ret False
     else if connPort (conn s c) \<in> set (brokenPorts s)
     then andThen (report ''port-post'') (andThen (closeConnection c False) (Ret False))
     else andThen (emit (PostToPort c m)) (Ret True))"

definition post :: "nat \<Rightarrow> port_reply \<Rightarrow> unit handler" where
  "post c m = after (safePost c m) (\<lambda>_. skip)"

definition rejectRequest :: "nat \<Rightarrow> string \<Rightarrow> string \<Rightarrow> unit handler" where
  "rejectRequest c i err = post c (PortError i err)"

definition lease_current :: "lease_identity \<Rightarrow> bool handler" where
  "lease_current l = after (await (LeaseCurrent l)) (\<lambda>w. case w of Truth b \<Rightarrow> Ret b | FailedWith e \<Rightarrow> Throw e | _ \<Rightarrow> Ret False)"

definition fenceConnection :: "nat \<Rightarrow> bool \<Rightarrow> bool handler" where
  "fenceConnection c disconnect = Get (\<lambda>s.
     if connClosed (conn s c) \<or> disposed s then Ret False
     else after (rescue (lease_current (connLease (conn s c))) (\<lambda>e. andThen (report ''lease-fence'') (Ret False)))
       (\<lambda>current. Get (\<lambda>s.
          if current \<and> \<not> connClosed (conn s c) \<and> \<not> disposed s then Ret True
          else andThen (closeConnection c disconnect) (Ret False))))"

definition restoreActiveRoute :: "string \<Rightarrow> nat option \<Rightarrow> unit handler" where
  "restoreActiveRoute key previous = Get (\<lambda>s.
     after (case previous of Some p \<Rightarrow> if connConnected (conn s p) then fenceConnection p False else Ret False | None \<Rightarrow> Ret False)
       (\<lambda>ok. change (\<lambda>s. if ok then s\<lparr>activeRoutes := oset key (the previous) (activeRoutes s)\<rparr>
                          else s\<lparr>activeRoutes := odel key (activeRoutes s)\<rparr>)))"

subsection \<open>Turns\<close>

definition enqueue :: "turn \<Rightarrow> nat \<Rightarrow> coordinator \<Rightarrow> coordinator" where
  "enqueue t i s = s\<lparr>turns := oset t ((case oget (turns s) t of Some is \<Rightarrow> is | None \<Rightarrow> []) @ [i]) (turns s)\<rparr>"

definition leave_turn :: "turn \<Rightarrow> coordinator \<Rightarrow> coordinator" where
  "leave_turn t s = s\<lparr>turns := (case oget (turns s) t of
     Some (_ # i # is) \<Rightarrow> oset t (i # is) (turns s) | _ \<Rightarrow> odel t (turns s))\<rparr>"

definition turn_owner :: "coordinator \<Rightarrow> turn \<Rightarrow> nat option" where
  "turn_owner s t = (case oget (turns s) t of Some (i # _) \<Rightarrow> Some i | _ \<Rightarrow> None)"

definition take_turn :: "turn \<Rightarrow> 'a handler \<Rightarrow> 'a handler" where
  "take_turn t p = after (await (TurnOf t)) (\<lambda>_. ensuring p (change (leave_turn t)))"

definition withRouteLock :: "nat \<Rightarrow> string \<Rightarrow> 'a handler \<Rightarrow> 'a handler" where
  "withRouteLock me key work = andThen (change (enqueue (RouteTurn key) me)) (take_turn (RouteTurn key) work)"

subsection \<open>Ready sessions\<close>

definition readySnapshot :: "coordinator \<Rightarrow> connection_descriptor \<Rightarrow> session_stream option" where
  "readySnapshot s d = (case (oget (latestHellos s) (descriptor_route d), oget (latestSnapshots s) (snapshotKey d)) of
     (Some h, Some e) \<Rightarrow> if runtimeEpoch e = runtimeEpoch h then Some e else None
   | _ \<Rightarrow> None)"

definition isAcceptedDescriptor :: "coordinator \<Rightarrow> connection_descriptor \<Rightarrow> bool" where
  "isAcceptedDescriptor s d \<longleftrightarrow>
     map_option accFingerprint (oget (acceptedDescriptors s) (descriptor_route d)) = Some (fingerprint_of d)"

fun payload_snapshot :: "stream_payload \<Rightarrow> session_snapshot option" where
  "payload_snapshot (SnapshotPayload x) = Some x"
| "payload_snapshot _ = None"

definition snapshot_of :: "session_stream \<Rightarrow> session_snapshot" where
  "snapshot_of e = the (payload_snapshot (payload e))"

definition settle_waiter :: "string + session_snapshot \<Rightarrow> nat \<Rightarrow> coordinator \<Rightarrow> coordinator" where
  "settle_waiter r w s = (if oget (waiterResults s) w \<noteq> None then s
     else s\<lparr>waiterResults := oset w r (waiterResults s),
            abortListeners := filter (\<lambda>(_, l). case l of AbortWaiter _ v \<Rightarrow> v \<noteq> w | _ \<Rightarrow> True) (abortListeners s)\<rparr>)"

definition resolveSessionReadyWaiters :: "connection_descriptor \<Rightarrow> session_stream \<Rightarrow> coordinator \<Rightarrow> coordinator" where
  "resolveSessionReadyWaiters d e s =
     (case oget (readyWaiters s) (snapshotKey d) of
        None \<Rightarrow> s
      | Some ws \<Rightarrow> fold (settle_waiter (Inr (snapshot_of e))) ws (s\<lparr>readyWaiters := odel (snapshotKey d) (readyWaiters s)\<rparr>))"

definition rejectSessionReadyWaiter :: "string \<Rightarrow> string \<Rightarrow> nat \<Rightarrow> coordinator \<Rightarrow> coordinator" where
  "rejectSessionReadyWaiter key err w s =
     (if oget (waiterResults s) w \<noteq> None then s
      else
        let s1 = settle_waiter (Inl err) w s in
        case oget (readyWaiters s1) key of
          None \<Rightarrow> s1
        | Some ws \<Rightarrow> (case removeAll w ws of
            [] \<Rightarrow> s1\<lparr>readyWaiters := odel key (readyWaiters s1)\<rparr>
          | rest \<Rightarrow> s1\<lparr>readyWaiters := oset key rest (readyWaiters s1)\<rparr>))"

definition rejectSessionReadyWaiters :: "connection_descriptor \<Rightarrow> string \<Rightarrow> coordinator \<Rightarrow> coordinator" where
  "rejectSessionReadyWaiters d err s =
     (case oget (readyWaiters s) (snapshotKey d) of
        None \<Rightarrow> s
      | Some ws \<Rightarrow> fold (rejectSessionReadyWaiter (snapshotKey d) err) ws s)"

definition rejectAllSessionReadyWaiters :: "string \<Rightarrow> coordinator \<Rightarrow> coordinator" where
  "rejectAllSessionReadyWaiters err s =
     fold (\<lambda>(key, ws). fold (rejectSessionReadyWaiter key err) ws) (readyWaiters s) s"

definition notifySessionReadiness :: "connection_descriptor \<Rightarrow> bool \<Rightarrow> unit handler" where
  "notifySessionReadiness d ready = emit (ReadinessChanged d ready)"

subsection \<open>Page authorisations\<close>

definition begin_execution :: "request_envelope \<Rightarrow> coordinator \<Rightarrow> coordinator" where
  "begin_execution q s =
     (case requestExecutionIdentity q of
        None \<Rightarrow> s
      | Some i \<Rightarrow> s\<lparr>executionRequests := oset i (case oget (executionRequests s) i of
            Some (r, n) \<Rightarrow> (r, n + 1) | None \<Rightarrow> (q, 1)) (executionRequests s)\<rparr>)"

definition end_execution :: "request_envelope \<Rightarrow> coordinator \<Rightarrow> coordinator" where
  "end_execution q s =
     (case requestExecutionIdentity q of
        None \<Rightarrow> s
      | Some i \<Rightarrow>
          (case oget (executionRequests s) i of
             None \<Rightarrow> s
           | Some (r, n) \<Rightarrow> if n - 1 = 0 then s\<lparr>executionRequests := odel i (executionRequests s)\<rparr>
               else s\<lparr>executionRequests := oset i (r, n - 1) (executionRequests s)\<rparr>))"

definition clearActivePageAuthorizationForRoute :: "string \<Rightarrow> string option \<Rightarrow> coordinator \<Rightarrow> coordinator" where
  "clearActivePageAuthorizationForRoute route retained s =
     s\<lparr>executionRequests := filter (\<lambda>(_, q, _). \<not> (runtimeClientRouteKey (clientId q) (windowId q) = route
           \<and> retained \<noteq> Some (runtimeEpoch q))) (executionRequests s),
       pageControls := filter (\<lambda>(_, (_, c), _). \<not> (runtimeClientRouteKey (scopeClient (control_scope c)) (scopeWindow (control_scope c)) = route
           \<and> retained \<noteq> Some (scopeEpoch (control_scope c)))) (pageControls s)\<rparr>"

definition begin_control :: "page_control \<Rightarrow> coordinator \<Rightarrow> coordinator" where
  "begin_control c s =
     (let i = scopeOperation (control_scope c) in
      s\<lparr>pageControls := oset i (case oget (pageControls s) i of
          Some (m, n) \<Rightarrow> (m, n + 1) | None \<Rightarrow> ((pageControlOperationFingerprint c, c), 1)) (pageControls s)\<rparr>)"

definition end_control :: "page_control \<Rightarrow> coordinator \<Rightarrow> coordinator" where
  "end_control c s =
     (let i = scopeOperation (control_scope c) in
      case oget (pageControls s) i of
        None \<Rightarrow> s
      | Some (m, n) \<Rightarrow>
          if fst m \<noteq> pageControlOperationFingerprint c then s
          else if n - 1 = 0 then s\<lparr>pageControls := odel i (pageControls s)\<rparr>
          else s\<lparr>pageControls := oset i (m, n - 1) (pageControls s)\<rparr>)"

fun unfinished :: "execution_status \<Rightarrow> bool" where
  "unfinished st \<longleftrightarrow> st \<in> {Queued, Running, CancelRequested}"

definition recovered_execution :: "coordinator \<Rightarrow> connection_descriptor \<Rightarrow> page_scope \<Rightarrow> bool" where
  "recovered_execution s d p =
     (case readySnapshot s d of
        None \<Rightarrow> False
      | Some e \<Rightarrow> list_ex (\<lambda>x. executionId x = scopeExecution p \<and> execRequestId x = scopeRequest p \<and> unfinished (execStatus x))
          (activeExecutions (snapshot_of e)))"

definition pageControlAuthorizationError :: "coordinator \<Rightarrow> page_control \<Rightarrow> string option" where
  "pageControlAuthorizationError s c =
     (let p = control_scope c; route = runtimeClientRouteKey (scopeClient p) (scopeWindow p) in
      case oget (acceptedDescriptors s) route of
        None \<Rightarrow> Some ''Privileged page operation does not match an accepted runtime session''
      | Some a \<Rightarrow>
          if dSession (accDescriptor a) \<noteq> scopeSession p \<or> \<not> same_target (dTarget (accDescriptor a)) (scopeTarget p)
          then Some ''Privileged page operation does not match an accepted runtime session''
          else (case oget (latestHellos s) route of
            None \<Rightarrow> Some ''Privileged page operation targets a stale or unknown runtime epoch''
          | Some h \<Rightarrow>
              if runtimeEpoch h \<noteq> scopeEpoch p \<or> \<not> helloMatchesDescriptor h (accDescriptor a)
              then Some ''Privileged page operation targets a stale or unknown runtime epoch''
              else if oget (executionRequests s) (executionIdentityKey p) \<noteq> None then None
              else if recovered_execution s (accDescriptor a) p then None
              else Some ''Privileged page operation does not match a current parent execution''))"

subsection \<open>Requests of the offscreen runtime\<close>

definition ask_offscreen :: "offscreen_command \<Rightarrow> offscreen_reply handler" where
  "ask_offscreen m = andThen (emit (ToOffscreen m)) (after (await OffscreenAnswer)
     (\<lambda>w. case w of Replied r \<Rightarrow> Ret r | FailedWith e \<Rightarrow> Throw e | _ \<Rightarrow> Ret OtherReply))"

definition fresh_id :: "coordinator_config \<Rightarrow> string handler" where
  "fresh_id cfg = Get (\<lambda>s. Put (s\<lparr>nextRequest := nextRequest s + 1\<rparr>) (Ret (freshRequestId cfg (nextRequest s))))"

definition session_request ::
  "connection_descriptor \<Rightarrow> string \<Rightarrow> string \<Rightarrow> trace_context option \<Rightarrow> operation \<Rightarrow> request_envelope" where
  "session_request d epoch i tr op = \<lparr>protocolVersion = RUNTIME_PROTOCOL_VERSION, runtimeEpoch = epoch, clientId = dClient d,
     windowId = dWindow d, trace = tr, sessionId = dSession d, target = dTarget d, requestId = i, operation = op\<rparr>"

definition mismatch_text :: "mismatch list \<Rightarrow> string" where
  "mismatch_text ms = join '', '' (map (\<lambda>m. case m of MProtocolVersion \<Rightarrow> ''protocolVersion'' | MRuntimeEpoch \<Rightarrow> ''runtimeEpoch''
     | MClientId \<Rightarrow> ''clientId'' | MWindowId \<Rightarrow> ''windowId'' | MSessionId \<Rightarrow> ''sessionId'' | MTarget \<Rightarrow> ''target''
     | MRequestId \<Rightarrow> ''requestId'' | MOperation \<Rightarrow> ''operation'' | MTrace \<Rightarrow> ''trace'') ms)"

text \<open>The checks every response goes through; \<open>malformed\<close> and \<open>mismatched\<close> are the texts of the two errors.\<close>

definition checked_response :: "request_envelope \<Rightarrow> string \<Rightarrow> string \<Rightarrow> offscreen_reply \<Rightarrow> string + response_envelope" where
  "checked_response q malformed mismatched r =
     (case r of
        ResponseReply x \<Rightarrow>
          if \<not> isRuntimeResponseEnvelope (response_json x) then Inl malformed
          else if correlateRuntimeResponse q x \<noteq> [] then Inl (mismatched @ mismatch_text (correlateRuntimeResponse q x))
          else Inr x
      | _ \<Rightarrow> Inl malformed)"

text \<open>The value of a successful response; a failed one throws its message.\<close>

definition response_value :: "string + response_envelope \<Rightarrow> jval handler" where
  "response_value r = (case r of
     Inl e \<Rightarrow> Throw e
   | Inr x \<Rightarrow> (case responseBody x of Success v \<Rightarrow> Ret v | Failure e \<Rightarrow> Throw (errorMessage e)))"

subsection \<open>Streams\<close>

definition known_descriptor :: "coordinator \<Rightarrow> string \<Rightarrow> connection_descriptor option" where
  "known_descriptor s route =
     (case (case oget (activeRoutes s) route of Some c \<Rightarrow> connDescriptor (conn s c) | None \<Rightarrow> None) of
        Some d \<Rightarrow> Some d
      | None \<Rightarrow> map_option accDescriptor (oget (acceptedDescriptors s) route))"

definition learn_hello :: "string \<Rightarrow> connection_descriptor \<Rightarrow> hello_envelope \<Rightarrow> coordinator \<Rightarrow> coordinator" where
  "learn_hello route d h s0 =
     (let s = clearActivePageAuthorizationForRoute route (Some (runtimeEpoch h)) s0;
          s1 = s\<lparr>latestHellos := oset route h (latestHellos s)\<rparr> in
      case oget (latestSnapshots s1) (snapshotKey d) of
        Some e \<Rightarrow> if runtimeEpoch e \<noteq> runtimeEpoch h then s1\<lparr>latestSnapshots := odel (snapshotKey d) (latestSnapshots s1)\<rparr> else s1
      | None \<Rightarrow> s1)"

definition route_hello :: "hello_envelope \<Rightarrow> bool handler" where
  "route_hello h = Get (\<lambda>s.
     let route = runtimeClientRouteKey (clientId h) (windowId h); connection = oget (activeRoutes s) route in
     case known_descriptor s route of
       None \<Rightarrow> Ret False
     | Some d \<Rightarrow>
         if \<not> helloMatchesDescriptor h d then Ret False
         else
           let s1 = learn_hello route d h s;
               lost = isAcceptedDescriptor s d \<and> readySnapshot s d \<noteq> None \<and> readySnapshot s1 d = None in
           Put s1 (andThen (if lost then notifySessionReadiness d False else skip)
             (case connection of
                None \<Rightarrow> Ret False
              | Some c \<Rightarrow> after (fenceConnection c True) (\<lambda>ok. if \<not> ok then Ret False else Get (\<lambda>s.
                  if oget (activeRoutes s) route \<noteq> Some c then Ret False
                  else if runtimeEpoch h \<in> set (connHellos (conn s c)) then Ret False
                  else Put (set_conn c ((conn s c)\<lparr>connHellos := connHellos (conn s c) @ [runtimeEpoch h]\<rparr>) s)
                    (safePost c (PortStream (Hello h))))))))"

definition keep_snapshot :: "connection_descriptor \<Rightarrow> session_stream \<Rightarrow> coordinator \<Rightarrow> coordinator" where
  "keep_snapshot d e s =
     (let key = snapshotKey d in
      if (case oget (latestSnapshots s) key of
            None \<Rightarrow> True | Some p \<Rightarrow> runtimeEpoch p \<noteq> runtimeEpoch e \<or> eventSeq p < eventSeq e)
      then s\<lparr>latestSnapshots := oset key e (latestSnapshots s)\<rparr> else s)"

definition learn_snapshot :: "connection_descriptor \<Rightarrow> session_stream \<Rightarrow> unit handler" where
  "learn_snapshot d e =
     (case payload_snapshot (payload e) of
        None \<Rightarrow> skip
      | Some _ \<Rightarrow> Get (\<lambda>s.
          let s1 = keep_snapshot d e s in
          case readySnapshot s1 d of
            Some ready \<Rightarrow>
              if readySnapshot s d = None \<and> isAcceptedDescriptor s1 d
              then Put (resolveSessionReadyWaiters d ready s1) (notifySessionReadiness d True) else Put s1 skip
          | None \<Rightarrow> Put s1 skip))"

definition deliver_stream :: "nat \<Rightarrow> string \<Rightarrow> session_stream \<Rightarrow> bool handler" where
  "deliver_stream c route e = after (fenceConnection c True) (\<lambda>ok. if \<not> ok then Ret False else Get (\<lambda>s.
     if oget (activeRoutes s) route \<noteq> Some c then Ret False
     else
       let x = conn s c; key = sessionEpochKey e; last = (case oget (connLastSeq x) key of Some n \<Rightarrow> n | None \<Rightarrow> 0) in
       if eventSeq e \<le> last then Ret False
       else Put (set_conn c (x\<lparr>connLastSeq := oset key (eventSeq e) (connLastSeq x)\<rparr>) s)
         (safePost c (PortStream (SessionStream e)))))"

definition route_session_stream :: "session_stream \<Rightarrow> bool handler" where
  "route_session_stream e = Get (\<lambda>s.
     let route = runtimeClientRouteKey (clientId e) (windowId e); connection = oget (activeRoutes s) route in
     case known_descriptor s route of
       None \<Rightarrow> Ret False
     | Some d \<Rightarrow>
         if sessionId e \<noteq> dSession d \<or> \<not> same_target (target e) (dTarget d) then Ret False
         else if map_option runtimeEpoch (oget (latestHellos s) route) \<noteq> Some (runtimeEpoch e) then Ret False
         else andThen (learn_snapshot d e) (Get (\<lambda>s.
           case connection of
             None \<Rightarrow> Ret False
           | Some c \<Rightarrow> if connDescriptor (conn s c) = None then Ret False else deliver_stream c route e)))"

definition routeStream :: "stream_envelope \<Rightarrow> bool handler" where
  "routeStream e = (case e of Hello h \<Rightarrow> route_hello h | SessionStream x \<Rightarrow> route_session_stream x)"

text \<open>A hello that comes as the reply to a connect is routed like any other.\<close>

definition route_reply :: "offscreen_reply \<Rightarrow> unit handler" where
  "route_reply r = (case r of
     StreamReply (Hello h) \<Rightarrow> if isRuntimeStreamEnvelope (hello_json h) then after (routeStream (Hello h)) (\<lambda>_. skip) else skip
   | _ \<Rightarrow> skip)"

subsection \<open>Initialisation\<close>

definition wait_initialized :: "nat \<Rightarrow> unit handler" where
  "wait_initialized n = after (await (InitializationOf n)) (\<lambda>w. case w of FailedWith e \<Rightarrow> Throw e | _ \<Rightarrow> skip)"

definition ensureInitialized :: "unit handler" where
  "ensureInitialized = Get (\<lambda>s.
     case initialization s of
       Some n \<Rightarrow> wait_initialized n
     | None \<Rightarrow> Put (s\<lparr>initialization := Some (nextInit s), nextInit := nextInit s + 1\<rparr>)
         (Spawn (InitializeJob (nextInit s)) (\<lambda>_. wait_initialized (nextInit s))))"

definition recoverAcceptedSession :: "coordinator_config \<Rightarrow> connection_descriptor \<Rightarrow> unit handler" where
  "recoverAcceptedSession cfg d =
     after (ask_offscreen (ConnectOffscreen d)) (\<lambda>_. Get (\<lambda>s.
       case oget (latestHellos s) (descriptor_route d) of
         None \<Rightarrow> Throw ''Offscreen runtime did not provide an authoritative hello for accepted-session recovery''
       | Some h \<Rightarrow>
           if \<not> helloMatchesDescriptor h d
           then Throw ''Offscreen runtime did not provide an authoritative hello for accepted-session recovery''
           else
             let op = (case find (\<lambda>c. cursorSessionId c = dSession d) (recoverySessions h) of
                         Some c \<Rightarrow> Attach None (Some (cursorRevision c)) (Some (cursorEventSeq c)) | None \<Rightarrow> Load) in
             after (fresh_id cfg) (\<lambda>i.
             let q = session_request d (runtimeEpoch h) i None op in
             after (ask_offscreen (RequestOffscreen q)) (\<lambda>r.
             after (response_value (checked_response q
                 ''Offscreen runtime returned a malformed accepted-session recovery response''
                 ''Offscreen runtime recovery response identity mismatch: '' r)) (\<lambda>_. Get (\<lambda>s.
               if readySnapshot s d = None
               then Throw ''Offscreen runtime recovery completed without an exact session snapshot'' else skip))))))"

fun restore_descriptors :: "connection_descriptor option list \<Rightarrow> unit handler" where
  "restore_descriptors [] = skip"
| "restore_descriptors (None # ds) = Throw ''Stored agent runtime connection descriptor is malformed''"
| "restore_descriptors (Some d # ds) =
     (if \<not> validConnectionDescriptor d then Throw ''Stored agent runtime connection descriptor is malformed''
      else Get (\<lambda>s.
        if (case oget (acceptedDescriptors s) (descriptor_route d) of
              Some a \<Rightarrow> accFingerprint a \<noteq> fingerprint_of d | None \<Rightarrow> False)
        then Throw ''Stored agent runtime connection descriptors conflict''
        else Put (s\<lparr>acceptedDescriptors := oset (descriptor_route d)
            \<lparr>accDescriptor = d, accFingerprint = fingerprint_of d\<rparr> (acceptedDescriptors s)\<rparr>) (restore_descriptors ds)))"

definition getAcceptedDescriptors :: "coordinator \<Rightarrow> connection_descriptor list" where
  "getAcceptedDescriptors s = map accDescriptor (ovals (acceptedDescriptors s))"

definition load_checkpoint :: "host_state option handler" where
  "load_checkpoint = after (await StoredCheckpoint) (\<lambda>w. case w of
     CheckpointIs None \<Rightarrow> Ret None
   | CheckpointIs (Some st) \<Rightarrow>
       if validPersistedState st then Ret (Some st) else Throw ''Stored offscreen runtime checkpoint is malformed''
   | FailedWith e \<Rightarrow> Throw e
   | _ \<Rightarrow> Throw ''Stored offscreen runtime checkpoint is malformed'')"

definition initialize_body :: "coordinator_config \<Rightarrow> unit handler" where
  "initialize_body cfg =
     after (await OffscreenReady) (\<lambda>w. case w of FailedWith e \<Rightarrow> Throw e | _ \<Rightarrow>
     after (await StoredDescriptors) (\<lambda>w. case w of FailedWith e \<Rightarrow> Throw e | _ \<Rightarrow>
     andThen (restore_descriptors (case w of Descriptors ds \<Rightarrow> ds | _ \<Rightarrow> []))
     (after load_checkpoint (\<lambda>checkpoint.
      after (ask_offscreen (InitOffscreen checkpoint)) (\<lambda>_. Get (\<lambda>s.
        each (\<lambda>d. rescue (recoverAcceptedSession cfg d) (\<lambda>_. report ''accepted-session-recovery''))
          (getAcceptedDescriptors s)))))))"

text \<open>An initialisation is a promise: it is run once, by the process that claims it.\<close>

definition initialize_job :: "coordinator_config \<Rightarrow> nat \<Rightarrow> nat \<Rightarrow> unit handler" where
  "initialize_job cfg me n = Get (\<lambda>s.
     if initialization s \<noteq> Some n \<or> oget (initClaims s) n \<noteq> None then skip
     else Put (s\<lparr>initClaims := oset n me (initClaims s)\<rparr>) (rescue
       (andThen (initialize_body cfg) (change (\<lambda>s. s\<lparr>initResults := oset n (Inr ()) (initResults s)\<rparr>)))
       (\<lambda>e. change (\<lambda>s. s\<lparr>initResults := oset n (Inl e) (initResults s),
          initialization := (if initialization s = Some n then None else initialization s)\<rparr>))))"

subsection \<open>Binding and releasing sessions\<close>

definition forgetAcceptedDescriptor :: "string \<Rightarrow> connection_descriptor \<Rightarrow> string \<Rightarrow> bool \<Rightarrow> unit handler" where
  "forgetAcceptedDescriptor key d reason disconnect = Get (\<lambda>s0.
     if map_option accFingerprint (oget (acceptedDescriptors s0) key) \<noteq> Some (fingerprint_of d) then skip
     else
       let s1 = rejectSessionReadyWaiters d (''Agent runtime session '' @ dSession d @ '' was released before becoming ready'') s0;
           s2 = s1\<lparr>acceptedDescriptors := odel key (acceptedDescriptors s1), latestHellos := odel key (latestHellos s1),
                   latestSnapshots := odel (snapshotKey d) (latestSnapshots s1)\<rparr>;
           s3 = clearActivePageAuthorizationForRoute key None s2;
           matching = filter (\<lambda>c. conn_route (conn s3 c) = key) (ovals (connectionsByPort s3)) in
       Put (s3\<lparr>activeRoutes := odel key (activeRoutes s3)\<rparr>)
       (andThen (each (\<lambda>c. andThen (change (\<lambda>s. set_conn c ((conn s c)\<lparr>connConnected := False\<rparr>) s))
            (if disconnect then closeConnection c True else skip)) matching)
       (andThen (emit (DescriptorReleased d reason))
         (after (await BindingPersisted) (\<lambda>w. case w of FailedWith e \<Rightarrow> Throw e | _ \<Rightarrow> skip)))))"

definition bind_persisted :: "connection_descriptor \<Rightarrow> unit handler" where
  "bind_persisted d = andThen (emit (DescriptorBound d))
     (after (await BindingPersisted) (\<lambda>w. case w of FailedWith e \<Rightarrow> Throw e | _ \<Rightarrow> skip))"

definition accept_descriptor :: "string \<Rightarrow> connection_descriptor \<Rightarrow> coordinator \<Rightarrow> coordinator" where
  "accept_descriptor key d s =
     s\<lparr>acceptedDescriptors := oset key \<lparr>accDescriptor = d, accFingerprint = fingerprint_of d\<rparr> (acceptedDescriptors s)\<rparr>"

definition bindSessionLocked :: "string \<Rightarrow> connection_descriptor \<Rightarrow> unit handler" where
  "bindSessionLocked key d = Get (\<lambda>s.
     case oget (acceptedDescriptors s) key of
       Some a \<Rightarrow>
         if accFingerprint a \<noteq> fingerprint_of d then Throw ''Browser window is already bound to a different agent session'' else skip
     | None \<Rightarrow>
         andThen (bind_persisted d)
         (andThen (change (accept_descriptor key d))
           (rescue (after (ask_offscreen (ConnectOffscreen d)) route_reply)
             (\<lambda>e. andThen (change (\<lambda>s. let s1 = rejectSessionReadyWaiters d
                    (''Agent runtime session '' @ dSession d @ '' failed to bind before becoming ready'') s in
                    s1\<lparr>acceptedDescriptors := odel key (acceptedDescriptors s1)\<rparr>))
               (andThen (emit (DescriptorReleased d ''bind-failed''))
                 (after (await BindingPersisted) (\<lambda>w. case w of FailedWith e' \<Rightarrow> Throw e' | _ \<Rightarrow> Throw e)))))))"

definition no_release_hello :: string where
  "no_release_hello = ''Offscreen runtime did not provide an authoritative hello for release''"

definition matching_hello :: "coordinator \<Rightarrow> string \<Rightarrow> connection_descriptor \<Rightarrow> hello_envelope option" where
  "matching_hello s key d = (case oget (latestHellos s) key of
     Some h \<Rightarrow> if helloMatchesDescriptor h d then Some h else None | None \<Rightarrow> None)"

definition ensureReleaseHello :: "string \<Rightarrow> connection_descriptor \<Rightarrow> hello_envelope handler" where
  "ensureReleaseHello key d = andThen ensureInitialized (Get (\<lambda>s.
     case matching_hello s key d of
       Some h \<Rightarrow> Ret h
     | None \<Rightarrow> andThen (after (ask_offscreen (ConnectOffscreen d)) route_reply) (Get (\<lambda>s.
         case matching_hello s key d of Some h \<Rightarrow> Ret h | None \<Rightarrow> Throw no_release_hello))))"

definition releaseSessionLocked :: "coordinator_config \<Rightarrow> string \<Rightarrow> connection_descriptor \<Rightarrow> string \<Rightarrow> unit handler" where
  "releaseSessionLocked cfg key d reason = Get (\<lambda>s.
     if map_option accFingerprint (oget (acceptedDescriptors s) key) \<noteq> Some (fingerprint_of d)
     then Throw ''Agent runtime session descriptor changed before release''
     else after (ensureReleaseHello key d) (\<lambda>h. after (fresh_id cfg) (\<lambda>i.
       let q = session_request d (runtimeEpoch h) i None (Release (Some True) (Some reason)) in
       after (ask_offscreen (RequestOffscreen q)) (\<lambda>r.
       after (response_value (checked_response q ''Offscreen runtime returned a malformed release response''
           ''Offscreen runtime release identity mismatch: '' r)) (\<lambda>_.
       forgetAcceptedDescriptor key d reason True)))))"

subsection \<open>Messages of a port\<close>

definition forget_descriptor :: "nat \<Rightarrow> coordinator \<Rightarrow> coordinator" where
  "forget_descriptor c s = set_conn c ((conn s c)\<lparr>connDescriptor := None, connFingerprint := None\<rparr>) s"

definition mark_connected :: "nat \<Rightarrow> coordinator \<Rightarrow> coordinator" where
  "mark_connected c s = set_conn c ((conn s c)\<lparr>connConnected := True\<rparr>) s"

text \<open>The fence after a wait inside \<open>connect\<close>: the lease is current and the route still this connection's.\<close>

definition still_routed :: "nat \<Rightarrow> string \<Rightarrow> nat option \<Rightarrow> bool handler" where
  "still_routed c key previous = after (fenceConnection c True) (\<lambda>ok. Get (\<lambda>s.
     let mine = (oget (activeRoutes s) key = Some c) in
     if ok \<and> mine then Ret True
     else andThen (if mine then restoreActiveRoute key previous else skip) (Ret False)))"

definition close_previous :: "nat \<Rightarrow> nat option \<Rightarrow> unit handler" where
  "close_previous c previous =
     (case previous of Some p \<Rightarrow> if p \<noteq> c then closeConnection p True else skip | None \<Rightarrow> skip)"

text \<open>Connecting to a session that is already bound.\<close>

definition connect_accepted :: "nat \<Rightarrow> string \<Rightarrow> connection_descriptor \<Rightarrow> nat option \<Rightarrow> unit handler" where
  "connect_accepted c key d previous = Get (\<lambda>s.
     after (if oget (latestHellos s) key = None
            then after (ask_offscreen (ConnectOffscreen d)) (\<lambda>_. still_routed c key previous) else Ret True)
     (\<lambda>go. if \<not> go then skip else
       andThen (change (mark_connected c))
       (after (safePost c PortConnected) (\<lambda>posted.
         if \<not> posted then restoreActiveRoute key previous
         else andThen (Get (\<lambda>s. case matching_hello s key d of
             None \<Rightarrow> skip
           | Some h \<Rightarrow> andThen (change (\<lambda>s. set_conn c ((conn s c)\<lparr>connHellos := connHellos (conn s c) @ [runtimeEpoch h]\<rparr>) s))
               (post c (PortStream (Hello h)))))
           (close_previous c previous)))))"

definition announce_ready :: "connection_descriptor \<Rightarrow> unit handler" where
  "announce_ready d = Get (\<lambda>s. case readySnapshot s d of
     None \<Rightarrow> skip
   | Some e \<Rightarrow> Put (resolveSessionReadyWaiters d e s) (notifySessionReadiness d True))"

text \<open>Connecting to a session that no one has bound yet: it is persisted before it is accepted.\<close>

definition connect_new :: "nat \<Rightarrow> string \<Rightarrow> connection_descriptor \<Rightarrow> nat option \<Rightarrow> unit handler" where
  "connect_new c key d previous = rescue
     (after (ask_offscreen (ConnectOffscreen d)) (\<lambda>_.
      after (still_routed c key previous) (\<lambda>go. if \<not> go then skip else
        andThen (bind_persisted d)
        (andThen (change (accept_descriptor key d))
        (andThen (announce_ready d)
        (after (still_routed c key previous) (\<lambda>go. if \<not> go then skip else
          andThen (change (mark_connected c))
          (after (safePost c PortConnected) (\<lambda>posted.
             if \<not> posted then restoreActiveRoute key previous else close_previous c previous)))))))))
     (\<lambda>e. andThen (Get (\<lambda>s. if oget (activeRoutes s) key = Some c then restoreActiveRoute key previous else skip))
       (andThen (change (forget_descriptor c))
         (post c (PortRefused (''Could not connect to the offscreen runtime: '' @ e)))))"

definition connect_locked :: "nat \<Rightarrow> string \<Rightarrow> connection_descriptor \<Rightarrow> unit handler" where
  "connect_locked c key d =
     after (fenceConnection c True) (\<lambda>ok. if \<not> ok then skip else
     after (rescue (andThen ensureInitialized (Ret True))
         (\<lambda>e. andThen (change (forget_descriptor c))
           (andThen (post c (PortRefused (''Could not initialize the offscreen runtime: '' @ e))) (Ret False)))) (\<lambda>ok. if \<not> ok then skip else
     after (fenceConnection c True) (\<lambda>ok. if \<not> ok then skip else Get (\<lambda>s.
       let active = oget (activeRoutes s) key;
           superseded = (case active of Some p \<Rightarrow> p \<noteq> c \<and> leaseLease (connLease (conn s p)) \<noteq> leaseLease (connLease (conn s c)) | None \<Rightarrow> False);
           previous = (if superseded then None else active) in
       andThen (if superseded then closeConnection (the active) True else skip) (Get (\<lambda>s.
         case oget (acceptedDescriptors s) key of
           Some a \<Rightarrow>
             if accFingerprint a \<noteq> fingerprint_of d
             then andThen (change (forget_descriptor c)) (post c (PortRefused ''Runtime route is owned by a different agent session''))
             else Put (s\<lparr>activeRoutes := oset key c (activeRoutes s)\<rparr>) (connect_accepted c key d previous)
         | None \<Rightarrow> Put (s\<lparr>activeRoutes := oset key c (activeRoutes s)\<rparr>) (connect_new c key d previous)))))))"

definition connect :: "nat \<Rightarrow> nat \<Rightarrow> connection_descriptor \<Rightarrow> unit handler" where
  "connect me c d = after (fenceConnection c True) (\<lambda>ok. if \<not> ok then skip else Get (\<lambda>s.
     let x = conn s c in
     if dClient d \<noteq> connClient x \<or> dWindow d \<noteq> connWindow x
     then post c (PortRefused ''Runtime descriptor does not match the port identity'')
     else if connDescriptor x \<noteq> None
     then (if connFingerprint x = Some (fingerprint_of d) \<and> connConnected x \<and> isActive s c then post c PortConnected
           else post c (PortRefused ''Agent runtime port is already bound to a different session''))
     else Put (set_conn c (x\<lparr>connDescriptor := Some d, connFingerprint := Some (fingerprint_of d)\<rparr>) s)
       (withRouteLock me (conn_route x) (connect_locked c (conn_route x) d))))"

definition request_matches :: "request_envelope \<Rightarrow> connection_descriptor \<Rightarrow> bool" where
  "request_matches q d \<longleftrightarrow> clientId q = dClient d \<and> windowId q = dWindow d \<and> sessionId q = dSession d
     \<and> same_target (target q) (dTarget d)"

text \<open>A failed request is answered at once, and nothing more is done with it.\<close>

definition forward_reply :: "nat \<Rightarrow> request_envelope \<Rightarrow> offscreen_reply \<Rightarrow> unit handler" where
  "forward_reply c q r = after (fenceConnection c True) (\<lambda>ok. Get (\<lambda>s. if \<not> ok \<or> \<not> isActive s c then skip else
     (case checked_response q ''Offscreen runtime returned a malformed response'' ''Offscreen runtime response identity mismatch: '' r of
        Inl e \<Rightarrow> rejectRequest c (requestId q) e
      | Inr x \<Rightarrow> andThen (post c (PortResponse x)) (Get (\<lambda>s.
          case (operation q, responseBody x, connDescriptor (conn s c)) of
            (Release force reason, Success v, Some d) \<Rightarrow>
              rescue (forgetAcceptedDescriptor (conn_route (conn s c)) d
                  (case reason of Some t \<Rightarrow> t | None \<Rightarrow> ''client-release'') False)
                (\<lambda>_. report ''descriptor-release'')
          | _ \<Rightarrow> skip)))))"

definition forwardRequest :: "nat \<Rightarrow> request_envelope \<Rightarrow> unit handler" where
  "forwardRequest c q = after (fenceConnection c True) (\<lambda>ok. if \<not> ok then skip else Get (\<lambda>s.
     case connDescriptor (conn s c) of
       None \<Rightarrow> rejectRequest c (requestId q) ''Runtime request does not match the connected session''
     | Some d \<Rightarrow>
         if \<not> request_matches q d then rejectRequest c (requestId q) ''Runtime request does not match the connected session''
         else andThen (change (begin_execution q))
           (after (ensuring
             (rescue (after (fenceConnection c True) (\<lambda>ok. if \<not> ok then Ret None
                  else after (ask_offscreen (RequestOffscreen q)) (\<lambda>r. Ret (Some r))))
                (\<lambda>e. andThen (rejectRequest c (requestId q) (''Offscreen runtime request failed: '' @ e)) (Ret None)))
             (change (end_execution q)))
           (\<lambda>r. case r of None \<Rightarrow> skip | Some x \<Rightarrow> forward_reply c q x))))"

definition text_field :: "string \<Rightarrow> jval \<Rightarrow> string option" where
  "text_field k v = (case v of JObj fs \<Rightarrow> (case jget k fs of JStr s \<Rightarrow> if nonblank s then Some s else None | _ \<Rightarrow> None) | _ \<Rightarrow> None)"

fun requestIdFromUnknown :: "port_message \<Rightarrow> string" where
  "requestIdFromUnknown (RequestMessage q) = (if nonblank (requestId q) then requestId q else ''unidentified-request'')"
| "requestIdFromUnknown (OtherRequestMessage v) = (case text_field ''requestId'' v of Some i \<Rightarrow> i | None \<Rightarrow> ''unidentified-request'')"
| "requestIdFromUnknown (OtherMessage v) =
     (case v of JObj fs \<Rightarrow> (case text_field ''requestId'' (jget ''request'' fs) of Some i \<Rightarrow> i | None \<Rightarrow> ''unidentified-request'')
      | _ \<Rightarrow> ''unidentified-request'')"
| "requestIdFromUnknown (ConnectMessage d) = ''unidentified-request''"

definition handlePortMessage :: "nat \<Rightarrow> nat \<Rightarrow> port_message \<Rightarrow> unit handler" where
  "handlePortMessage me c m = after (fenceConnection c True) (\<lambda>ok. if \<not> ok then skip else Get (\<lambda>s.
     let disconnected = \<not> connConnected (conn s c) \<or> connDescriptor (conn s c) = None \<or> \<not> isActive s c in
     case m of
       ConnectMessage (Some d) \<Rightarrow>
         if validConnectionDescriptor d then connect me c d
         else post c (PortRefused ''Malformed agent runtime connection descriptor'')
     | ConnectMessage None \<Rightarrow> post c (PortRefused ''Malformed agent runtime connection descriptor'')
     | OtherMessage v \<Rightarrow> rejectRequest c (requestIdFromUnknown m) ''Malformed agent runtime port message''
     | OtherRequestMessage v \<Rightarrow>
         if disconnected then rejectRequest c (requestIdFromUnknown m) ''Agent runtime port is not connected''
         else rejectRequest c (requestIdFromUnknown m) ''Malformed runtime request envelope''
     | RequestMessage q \<Rightarrow>
         if disconnected then rejectRequest c (requestIdFromUnknown m) ''Agent runtime port is not connected''
         else if \<not> isRuntimeRequestEnvelope (request_json q)
         then rejectRequest c (requestIdFromUnknown m) ''Malformed runtime request envelope''
         else forwardRequest c q))"

definition port_message_job :: "nat \<Rightarrow> nat \<Rightarrow> port_message \<Rightarrow> unit handler" where
  "port_message_job me c m = take_turn (PortTurn c) (rescue (handlePortMessage me c m) (\<lambda>_. report ''port-message''))"

definition enqueuePortMessage :: "nat \<Rightarrow> port_message \<Rightarrow> unit handler" where
  "enqueuePortMessage c m = Spawn (PortMessageJob c m) (\<lambda>i. change (enqueue (PortTurn c) i))"

definition acceptPort ::
  "nat \<Rightarrow> string \<Rightarrow> authority_sender option \<Rightarrow> authenticated_port \<Rightarrow> port_message list \<Rightarrow> bool handler" where
  "acceptPort port name sender a initial = Get (\<lambda>s.
     if disposed s then Ret False
     else case parseAgentRuntimePortName name of
       None \<Rightarrow> Ret False
     | Some p \<Rightarrow>
         if \<not> authenticationMatchesPort sender p a then Ret False
         else if oget (connectionsByPort s) port \<noteq> None then Ret True
         else
           let c = nextConn s;
               x = \<lparr>connPort = port, connClient = portClientId p, connWindow = portWindowId p, connLease = authLease a,
                 connDescriptor = None, connFingerprint = None, connConnected = False, connClosed = False, connHellos = [],
                 connLastSeq = []\<rparr> in
           Put (s\<lparr>conns := oset c x (conns s), nextConn := c + 1, connectionsByPort := oset port c (connectionsByPort s)\<rparr>)
             (andThen (each (enqueuePortMessage c) initial) (Ret True)))"

definition revokeWindowPorts :: "int \<Rightarrow> unit handler" where
  "revokeWindowPorts w = Get (\<lambda>s. each (\<lambda>c. Get (\<lambda>s. if connWindow (conn s c) = w then closeConnection c True else skip))
     (ovals (connectionsByPort s)))"

subsection \<open>Messages of the offscreen document\<close>

definition handleAuthorizedPageControl :: "coordinator_config \<Rightarrow> page_control \<Rightarrow> call_result handler" where
  "handleAuthorizedPageControl cfg c =
     (if \<not> handlesPageControl cfg then Ret (CallFailed ''Privileged page operation handler is unavailable'')
      else rescue (andThen ensureInitialized (Get (\<lambda>s.
        case pageControlAuthorizationError s c of
          Some e \<Rightarrow> Ret (CallFailed e)
        | None \<Rightarrow>
            let active = oget (pageControls s) (scopeOperation (control_scope c));
                same = (case active of Some (m, n) \<Rightarrow> fst m = pageControlOperationFingerprint c | None \<Rightarrow> False);
                handle = andThen (emit (PageControl c)) (after (await PageControlled)
                  (\<lambda>w. case w of Controlled v \<Rightarrow> Ret (CallControlled v) | FailedWith e \<Rightarrow> Throw e | _ \<Rightarrow> Ret (CallControlled None))) in
            (case c of
               PageCancelMessage p \<Rightarrow>
                 if \<not> same then Ret (CallFailed ''Page cancellation does not match an active authorized operation'') else handle
             | PageOperationMessage p op ps tr \<Rightarrow>
                 if active \<noteq> None \<and> \<not> same then Ret (CallFailed ''Page operation id is active with different correlation data'')
                 else andThen (change (begin_control c)) (ensuring handle (change (end_control c)))))))
        (\<lambda>e. andThen (report ''page-control'') (Ret (CallFailed e))))"

definition saveCheckpoint :: "nat \<Rightarrow> host_state \<Rightarrow> call_result handler" where
  "saveCheckpoint me st = andThen (change (enqueue CheckpointTurn me)) (take_turn CheckpointTurn
     (andThen (emit (SaveCheckpoint st)) (after (await CheckpointSaved) (\<lambda>w. case w of
        FailedWith e \<Rightarrow> andThen (report ''checkpoint-save'') (Ret (CallFailed e)) | _ \<Rightarrow> Ret CallCheckpointed))))"

definition handleOffscreenMessage :: "coordinator_config \<Rightarrow> nat \<Rightarrow> offscreen_message \<Rightarrow> call_result handler" where
  "handleOffscreenMessage cfg me m = Get (\<lambda>s.
     if disposed s then Ret CallIgnored
     else case m of
       HostStream e \<Rightarrow> if checked_stream e then after (routeStream e) (\<lambda>b. Ret (CallRouted b)) else Ret CallIgnored
     | Checkpoint st \<Rightarrow> if validPersistedState st then saveCheckpoint me st else Ret CallIgnored
     | ControlMessage c \<Rightarrow> if pageControlMessage c then handleAuthorizedPageControl cfg c else Ret CallIgnored
     | OtherOffscreenMessage \<Rightarrow> Ret CallIgnored)"

subsection \<open>The calls of the extension\<close>

definition getDescriptor :: "coordinator \<Rightarrow> string \<Rightarrow> int \<Rightarrow> connection_descriptor option" where
  "getDescriptor s c w = map_option accDescriptor (oget (acceptedDescriptors s) (runtimeClientRouteKey c w))"

definition getReadyDescriptors :: "coordinator \<Rightarrow> connection_descriptor list" where
  "getReadyDescriptors s = filter (\<lambda>d. readySnapshot s d \<noteq> None) (getAcceptedDescriptors s)"

definition getDescriptorsForWindow :: "int \<Rightarrow> connection_descriptor list handler" where
  "getDescriptorsForWindow w = andThen ensureInitialized (Get (\<lambda>s. Ret (filter (\<lambda>d. dWindow d = w) (getAcceptedDescriptors s))))"

definition getReadyDescriptorsForWindow :: "int \<Rightarrow> connection_descriptor list handler" where
  "getReadyDescriptorsForWindow w = andThen ensureInitialized (Get (\<lambda>s. Ret (filter (\<lambda>d. dWindow d = w) (getReadyDescriptors s))))"

definition isSessionReady :: "coordinator \<Rightarrow> connection_descriptor \<Rightarrow> bool" where
  "isSessionReady s d \<longleftrightarrow> validConnectionDescriptor d \<and> isAcceptedDescriptor s d \<and> readySnapshot s d \<noteq> None"

definition getLatestSnapshot :: "coordinator \<Rightarrow> string \<Rightarrow> int \<Rightarrow> session_snapshot option" where
  "getLatestSnapshot s c w = (case getDescriptor s c w of
     None \<Rightarrow> None | Some d \<Rightarrow> map_option snapshot_of (oget (latestSnapshots s) (snapshotKey d)))"

definition not_accepted :: string where
  "not_accepted = ''Agent runtime session descriptor is not accepted''"

text \<open>The text of an abort: the signal's reason when it is a text, else a standard one.\<close>

definition abort_text :: "string \<Rightarrow> string option \<Rightarrow> string" where
  "abort_text standard reason = (case reason of Some t \<Rightarrow> if nonblank t then t else standard | None \<Rightarrow> standard)"

definition check_aborted :: "string \<Rightarrow> nat \<Rightarrow> unit handler" where
  "check_aborted standard n = Get (\<lambda>s. case oget (abortedCalls s) n of
     None \<Rightarrow> skip | Some reason \<Rightarrow> Throw (abort_text standard reason))"

definition READY_ABORT :: string where
  "READY_ABORT = ''Session readiness wait was aborted''"

definition REQUEST_ABORT :: string where
  "REQUEST_ABORT = ''Agent runtime request was aborted''"

definition waitForSessionReady :: "nat \<Rightarrow> connection_descriptor \<Rightarrow> session_snapshot handler" where
  "waitForSessionReady n d =
     (if \<not> validConnectionDescriptor d then Throw ''Agent runtime descriptor is malformed''
      else andThen (check_aborted READY_ABORT n) (andThen ensureInitialized (Get (\<lambda>s.
        if \<not> isAcceptedDescriptor s d then Throw not_accepted
        else case readySnapshot s d of
          Some e \<Rightarrow> Ret (snapshot_of e)
        | None \<Rightarrow>
            let w = nextWaiter s; key = snapshotKey d in
            Put (s\<lparr>nextWaiter := w + 1, abortListeners := oset n (AbortWaiter key w) (abortListeners s),
                   readyWaiters := oset key ((case oget (readyWaiters s) key of Some ws \<Rightarrow> ws | None \<Rightarrow> []) @ [w]) (readyWaiters s)\<rparr>)
              (after (await (WaiterSettled w)) (\<lambda>a. case a of
                 Ready x \<Rightarrow> Ret x | FailedWith e \<Rightarrow> Throw e | _ \<Rightarrow> Throw not_accepted))))))"

definition bindSession :: "nat \<Rightarrow> connection_descriptor \<Rightarrow> unit handler" where
  "bindSession me d =
     (if \<not> validConnectionDescriptor d then Throw ''Agent runtime descriptor is malformed''
      else andThen ensureInitialized (withRouteLock me (descriptor_route d) (bindSessionLocked (descriptor_route d) d)))"

definition replaceSession :: "coordinator_config \<Rightarrow> nat \<Rightarrow> connection_descriptor \<Rightarrow> string \<Rightarrow> unit handler" where
  "replaceSession cfg me d reason =
     (if \<not> validConnectionDescriptor d then Throw ''Agent runtime descriptor is malformed''
      else if \<not> nonblank reason then Throw ''Agent runtime replacement reason must be non-empty''
      else let key = descriptor_route d in
        andThen ensureInitialized (withRouteLock me key (Get (\<lambda>s.
          case oget (acceptedDescriptors s) key of
            None \<Rightarrow> bindSessionLocked key d
          | Some a \<Rightarrow>
              if accFingerprint a = fingerprint_of d then skip
              else andThen (releaseSessionLocked cfg key (accDescriptor a) reason) (bindSessionLocked key d)))))"

definition releaseSession :: "coordinator_config \<Rightarrow> nat \<Rightarrow> string \<Rightarrow> int \<Rightarrow> string \<Rightarrow> bool handler" where
  "releaseSession cfg me c w reason =
     (let key = runtimeClientRouteKey c w in
      andThen ensureInitialized (withRouteLock me key (Get (\<lambda>s.
        case oget (acceptedDescriptors s) key of
          None \<Rightarrow> Ret False
        | Some a \<Rightarrow> andThen (releaseSessionLocked cfg key (accDescriptor a) reason) (Ret True)))))"

text \<open>The sessions of a window are released concurrently, each by a call of its own.\<close>

definition release_window :: "nat \<Rightarrow> int \<Rightarrow> string \<Rightarrow> unit handler" where
  "release_window n w reason = andThen ensureInitialized (Get (\<lambda>s.
     each (\<lambda>d. Spawn (ReleaseSession n (dClient d) (dWindow d) reason) (\<lambda>_. skip))
       (filter (\<lambda>d. dWindow d = w) (getAcceptedDescriptors s))))"

definition remove_listener :: "nat \<Rightarrow> coordinator \<Rightarrow> coordinator" where
  "remove_listener n s = s\<lparr>abortListeners := odel n (abortListeners s)\<rparr>"

definition requestSession ::
  "coordinator_config \<Rightarrow> nat \<Rightarrow> connection_descriptor \<Rightarrow> operation \<Rightarrow> trace_context option \<Rightarrow> jval handler" where
  "requestSession cfg n d op tr =
     andThen (check_aborted REQUEST_ABORT n) (andThen ensureInitialized (andThen (check_aborted REQUEST_ABORT n) (Get (\<lambda>s.
       if \<not> isAcceptedDescriptor s d then Throw not_accepted
       else after (ensureReleaseHello (descriptor_route d) d) (\<lambda>h. andThen (check_aborted REQUEST_ABORT n)
         (after (fresh_id cfg) (\<lambda>i.
          let q = session_request d (runtimeEpoch h) i tr op in
          andThen (change (begin_execution q)) (andThen (emit (ToOffscreen (RequestOffscreen q)))
          (andThen (change (\<lambda>s. case cancellable_execution op of
               None \<Rightarrow> s | Some e \<Rightarrow> s\<lparr>abortListeners := oset n (AbortExecution q e) (abortListeners s)\<rparr>))
          (after (ensuring (after (await OffscreenAnswer)
              (\<lambda>w. case w of Replied r \<Rightarrow> Ret r | FailedWith e \<Rightarrow> Throw e | _ \<Rightarrow> Ret OtherReply))
              (change (\<lambda>s. end_execution q (remove_listener n s))))
            (\<lambda>r. response_value (checked_response q ''Offscreen runtime returned a malformed direct response''
              ''Offscreen runtime direct response identity mismatch: '' r))))))))))))"

definition refreshSnapshot :: "coordinator_config \<Rightarrow> nat \<Rightarrow> connection_descriptor \<Rightarrow> session_snapshot handler" where
  "refreshSnapshot cfg n d = andThen ensureInitialized (Get (\<lambda>s.
     let cached = oget (latestSnapshots s) (snapshotKey d) in
     after (requestSession cfg n d (Resync (case cached of Some e \<Rightarrow> revision e | None \<Rightarrow> 0)
         (case cached of Some e \<Rightarrow> eventSeq e | None \<Rightarrow> 0) ''explicit'') None) (\<lambda>_. Get (\<lambda>s.
       case oget (latestSnapshots s) (snapshotKey d) of
         None \<Rightarrow> Throw ''Offscreen runtime did not publish a session snapshot''
       | Some e \<Rightarrow> Ret (snapshot_of e)))))"

text \<open>Aborting the signal of a call runs the listener the call has installed, once.\<close>

definition abort_call :: "coordinator_config \<Rightarrow> nat \<Rightarrow> string option \<Rightarrow> unit handler" where
  "abort_call cfg n reason = Get (\<lambda>s.
     if oget (abortedCalls s) n \<noteq> None then skip
     else
       let s1 = remove_listener n (s\<lparr>abortedCalls := oset n reason (abortedCalls s)\<rparr>) in
       case oget (abortListeners s) n of
         None \<Rightarrow> Put s1 skip
       | Some (AbortWaiter key w) \<Rightarrow> Put (rejectSessionReadyWaiter key (abort_text READY_ABORT reason) w s1) skip
       | Some (AbortExecution q e) \<Rightarrow> Put s1 (after (fresh_id cfg) (\<lambda>i.
           emit (ToOffscreen (RequestOffscreen (q\<lparr>requestId := i, operation := Abort e (requestId q)
             (Some (case reason of Some t \<Rightarrow> t | None \<Rightarrow> ''request-aborted''))\<rparr>))))))"

definition dispose_all :: "unit handler" where
  "dispose_all = Get (\<lambda>s. if disposed s then skip else
     Put (rejectAllSessionReadyWaiters ''Agent runtime coordinator was disposed before session readiness'' (s\<lparr>disposed := True\<rparr>))
     (andThen (each (\<lambda>c. closeConnection c True) (ovals (connectionsByPort s)))
       (change (\<lambda>s. s\<lparr>connectionsByPort := [], activeRoutes := [], acceptedDescriptors := [], latestHellos := [],
          latestSnapshots := [], executionRequests := [], pageControls := [], readyWaiters := []\<rparr>))))"

subsection \<open>The system\<close>

definition settle :: "nat \<Rightarrow> ('a \<Rightarrow> call_result) \<Rightarrow> 'a handler \<Rightarrow> unit handler" where
  "settle n f p = rescue (after p (\<lambda>a. emit (CallSettled n (f a)))) (\<lambda>e. emit (CallSettled n (CallFailed e)))"

fun run_job :: "coordinator_config \<Rightarrow> nat \<Rightarrow> coordinator_job \<Rightarrow> unit handler" where
  "run_job cfg me (InitializeJob n) = initialize_job cfg me n"
| "run_job cfg me (InitializeCall n) = settle n (\<lambda>_. CallDone) ensureInitialized"
| "run_job cfg me (AcceptPort port name sender a ms) = after (acceptPort port name sender a ms) (\<lambda>_. skip)"
| "run_job cfg me (PortMessage c m) = Get (\<lambda>s. if connClosed (conn s c) then skip else enqueuePortMessage c m)"
| "run_job cfg me (PortMessageJob c m) = port_message_job me c m"
| "run_job cfg me (PortDisconnected c) = closeConnection c False"
| "run_job cfg me (OffscreenMessage n m) = settle n id (handleOffscreenMessage cfg me m)"
| "run_job cfg me (BindSession n d) = settle n (\<lambda>_. CallDone) (bindSession me d)"
| "run_job cfg me (ReplaceSession n d r) = settle n (\<lambda>_. CallDone) (replaceSession cfg me d r)"
| "run_job cfg me (ReleaseSession n c w r) = settle n CallTruth (releaseSession cfg me c w r)"
| "run_job cfg me (ReleaseWindow n w r) = rescue (release_window n w r) (\<lambda>e. emit (CallSettled n (CallFailed e)))"
| "run_job cfg me (RequestSession n d p tr) = settle n CallValue (requestSession cfg n d p tr)"
| "run_job cfg me (RefreshSnapshot n d) = settle n CallSnapshot (refreshSnapshot cfg n d)"
| "run_job cfg me (WaitForSessionReady n d) = settle n CallSnapshot (waitForSessionReady n d)"
| "run_job cfg me (WaiterTimeout key w session) = change (rejectSessionReadyWaiter key
     (''Timed out waiting for agent runtime session '' @ session @ '' to become ready'') w)"
| "run_job cfg me (AbortCall n reason) = abort_call cfg n reason"
| "run_job cfg me (RevokeWindowPorts w) = revokeWindowPorts w"
| "run_job cfg me (BreakPort p) = change (\<lambda>s. s\<lparr>brokenPorts := p # brokenPorts s\<rparr>)"
| "run_job cfg me Dispose = dispose_all"

text \<open>
  What a query can be answered with. Outside answers are unconstrained but for their kind; a turn is given
  to the head of its queue, an initialisation and a waiter answer with their recorded result.
\<close>

fun coordinator_answers :: "nat \<Rightarrow> coordinator \<Rightarrow> coordinator_query \<Rightarrow> coordinator_answer \<Rightarrow> bool" where
  "coordinator_answers i s (TurnOf t) w \<longleftrightarrow> w = Done \<and> turn_owner s t = Some i"
| "coordinator_answers i s (InitializationOf n) w \<longleftrightarrow>
     (case oget (initResults s) n of None \<Rightarrow> False | Some (Inl e) \<Rightarrow> w = FailedWith e | Some (Inr u) \<Rightarrow> w = Done)"
| "coordinator_answers i s (WaiterSettled v) w \<longleftrightarrow>
     (case oget (waiterResults s) v of None \<Rightarrow> False | Some (Inl e) \<Rightarrow> w = FailedWith e | Some (Inr x) \<Rightarrow> w = Ready x)"
| "coordinator_answers i s q w \<longleftrightarrow> True"

abbreviation coordinator_run where
  "coordinator_run cfg es \<equiv> system_run (run_job cfg) coordinator_answers es new_coordinator"

end
