(* ===== verification/CoordinatorContract.thy ===== *)
theory CoordinatorContract
  imports RuntimeCoordinator
begin

section \<open>The contract of the coordinator\<close>

text \<open>
  What the coordinator's state always satisfies, what each of its handlers may emit, how a handler may change
  the state and what it relies on while it waits, with the Hoare triples for the pieces the handlers of
  \<open>RuntimeCoordinator\<close> are made of.
\<close>

subsection \<open>The contract\<close>

definition initialised :: "coordinator \<Rightarrow> bool" where
  "initialised s \<longleftrightarrow> (\<exists>n. initialization s = Some n \<and> oget (initResults s) n = Some (Inr ()))"

definition turn_queue :: "coordinator \<Rightarrow> turn \<Rightarrow> nat list" where
  "turn_queue s t = (case oget (turns s) t of Some is \<Rightarrow> is | None \<Rightarrow> [])"

lemma turn_owner_queue: "turn_owner s t = (case turn_queue s t of [] \<Rightarrow> None | i # _ \<Rightarrow> Some i)"
  by (simp add: turn_owner_def turn_queue_def split: option.split list.split)

definition open_on :: "coordinator \<Rightarrow> string \<Rightarrow> nat \<Rightarrow> bool" where
  "open_on s route c \<longleftrightarrow> (\<exists>x. oget (conns s) c = Some x \<and> \<not> connClosed x \<and> conn_route x = route)"

definition bound_well :: "string \<Rightarrow> accepted_descriptor \<Rightarrow> bool" where
  "bound_well route a \<longleftrightarrow> descriptor_route (accDescriptor a) = route \<and> accFingerprint a = fingerprint_of (accDescriptor a)
     \<and> validConnectionDescriptor (accDescriptor a)"

text \<open>The descriptor of a connection names the client and the window the port was authenticated for.\<close>

definition conn_well :: "port_connection \<Rightarrow> bool" where
  "conn_well x \<longleftrightarrow> (\<forall>d. connDescriptor x = Some d \<longrightarrow> dClient d = connClient x \<and> dWindow d = connWindow x \<and> validConnectionDescriptor d)"

definition posted_upto :: "coordinator \<Rightarrow> (coordinator \<times> coordinator_output) list \<Rightarrow> bool" where
  "posted_upto s h \<longleftrightarrow> (\<forall>t c e. (t, PostToPort c (PortStream (SessionStream e))) \<in> set h \<longrightarrow>
     (\<exists>n. oget (connLastSeq (conn s c)) (sessionEpochKey e) = Some n \<and> eventSeq e \<le> n))"

definition coordinator_keeps :: "coordinator \<Rightarrow> (coordinator \<times> coordinator_output) list \<Rightarrow> bool" where
  "coordinator_keeps s h \<longleftrightarrow>
     okeep (\<lambda>c x. c < nextConn s \<and> conn_well x) (conns s)
     \<and> okeep (\<lambda>r c. open_on s r c) (activeRoutes s)
     \<and> (\<forall>c \<in> set (ovals (connectionsByPort s)). oget (conns s) c \<noteq> None)
     \<and> okeep bound_well (acceptedDescriptors s)
     \<and> okeep (\<lambda>n r. oget (initClaims s) n \<noteq> None \<and> (r = Inr () \<longrightarrow> initialization s = Some n)) (initResults s)
     \<and> posted_upto s h"

fun coordinator_permits ::
  "coordinator_config \<Rightarrow> coordinator \<Rightarrow> (coordinator \<times> coordinator_output) list \<Rightarrow> coordinator_output \<Rightarrow> bool" where
  "coordinator_permits cfg s h (PostToPort c m) \<longleftrightarrow>
     oget (conns s) c \<noteq> None \<and> \<not> connClosed (conn s c) \<and> connPort (conn s c) \<notin> set (brokenPorts s)
     \<and> (case m of
          PortRefused e \<Rightarrow> True
        | PortError i e \<Rightarrow> True
        | PortStream (SessionStream e) \<Rightarrow> oget (activeRoutes s) (runtimeClientRouteKey (clientId e) (windowId e)) = Some c
            \<and> conn_route (conn s c) = runtimeClientRouteKey (clientId e) (windowId e)
            \<and> (\<forall>t e'. (t, PostToPort c (PortStream (SessionStream e'))) \<in> set h \<longrightarrow> sessionEpochKey e' = sessionEpochKey e
                 \<longrightarrow> eventSeq e' < eventSeq e)
        | _ \<Rightarrow> isActive s c)"
| "coordinator_permits cfg s h (ToOffscreen (RequestOffscreen q)) \<longleftrightarrow>
     (\<exists>n. requestId q = freshRequestId cfg n)
     \<or> isRuntimeRequestEnvelope (request_json q) \<and> (\<exists>c x d. oget (conns s) c = Some x \<and> \<not> connClosed x
          \<and> connDescriptor x = Some d \<and> request_matches q d \<and> clientId q = connClient x \<and> windowId q = connWindow x)"
| "coordinator_permits cfg s h (DescriptorBound d) \<longleftrightarrow>
     validConnectionDescriptor d \<and> oget (acceptedDescriptors s) (descriptor_route d) = None
     \<and> turn_owner s (RouteTurn (descriptor_route d)) \<noteq> None"
| "coordinator_permits cfg s h (PageControl c) \<longleftrightarrow> pageControlMessage c \<and> pageControlAuthorizationError s c = None
     \<and> (case oget (pageControls s) (scopeOperation (control_scope c)) of
          None \<Rightarrow> False
        | Some (m, n) \<Rightarrow> fst m = pageControlOperationFingerprint c)"
| "coordinator_permits cfg s h x \<longleftrightarrow> True"

text \<open>How the state evolves, whoever moves it.\<close>

definition same_port :: "port_connection \<Rightarrow> port_connection \<Rightarrow> bool" where
  "same_port x y \<longleftrightarrow> connPort y = connPort x \<and> connClient y = connClient x \<and> connWindow y = connWindow x \<and> connLease y = connLease x
     \<and> (connClosed x \<longrightarrow> connClosed y)"

definition evolves :: "coordinator \<Rightarrow> coordinator \<Rightarrow> bool" where
  "evolves s t \<longleftrightarrow> (\<forall>c x. oget (conns s) c = Some x \<longrightarrow> (\<exists>y. oget (conns t) c = Some y \<and> same_port x y))
     \<and> (disposed s \<longrightarrow> disposed t) \<and> (initialised s \<longrightarrow> initialised t)"

definition claimed :: "coordinator \<Rightarrow> nat \<Rightarrow> nat \<Rightarrow> bool" where
  "claimed s n i \<longleftrightarrow> oget (initClaims s) n = Some i \<and> oget (initResults s) n = None \<and> initialization s = Some n"

definition free_route :: "coordinator \<Rightarrow> string \<Rightarrow> bool" where
  "free_route s key \<longleftrightarrow> initialised s \<and> oget (acceptedDescriptors s) key = None"

definition coordinator_relies :: "nat \<Rightarrow> coordinator \<Rightarrow> coordinator \<Rightarrow> bool" where
  "coordinator_relies i s t \<longleftrightarrow> evolves s t
     \<and> (\<forall>q. turn_owner s q = Some i \<longrightarrow> turn_owner t q = Some i)
     \<and> (\<forall>c. turn_owner s (PortTurn c) = Some i \<longrightarrow> connDescriptor (conn t c) = connDescriptor (conn s c))
     \<and> (\<forall>key. turn_owner s (RouteTurn key) = Some i \<longrightarrow> free_route s key \<longrightarrow> free_route t key)
     \<and> (\<forall>n. claimed s n i \<longrightarrow> claimed t n i)"

definition coordinator_guarantees :: "nat \<Rightarrow> coordinator \<Rightarrow> coordinator \<Rightarrow> bool" where
  "coordinator_guarantees i s t \<longleftrightarrow> evolves s t
     \<and> (\<forall>q j. turn_owner s q = Some j \<longrightarrow> j \<noteq> i \<longrightarrow> turn_owner t q = Some j)
     \<and> (\<forall>c j. turn_owner s (PortTurn c) = Some j \<longrightarrow> j \<noteq> i \<longrightarrow> connDescriptor (conn t c) = connDescriptor (conn s c))
     \<and> (\<forall>key j. turn_owner s (RouteTurn key) = Some j \<longrightarrow> j \<noteq> i \<longrightarrow> free_route s key \<longrightarrow> free_route t key)
     \<and> (\<forall>n j. claimed s n j \<longrightarrow> j \<noteq> i \<longrightarrow> claimed t n j)"

definition coordinator_contract ::
  "coordinator_config \<Rightarrow> (coordinator, coordinator_output, coordinator_query, coordinator_answer, coordinator_job) contract" where
  "coordinator_contract cfg = \<lparr>keeps = coordinator_keeps, permits = coordinator_permits cfg, relies = coordinator_relies,
     guarantees = coordinator_guarantees, answered = coordinator_answers, enters = (\<lambda>_ _. True)\<rparr>"

lemma contract_simps [simp]: "keeps (coordinator_contract cfg) = coordinator_keeps"
  "permits (coordinator_contract cfg) = coordinator_permits cfg" "relies (coordinator_contract cfg) = coordinator_relies"
  "guarantees (coordinator_contract cfg) = coordinator_guarantees" "answered (coordinator_contract cfg) = coordinator_answers"
  "enters (coordinator_contract cfg) = (\<lambda>_ _. True)"
  by (simp_all add: coordinator_contract_def)

text \<open>
  What a handler keeps of its own: the turns in \<open>T\<close>. \<open>stays\<close> is what it relies on, which a handler that does
  not touch descriptors or bindings also keeps.
\<close>

definition stays :: "nat \<Rightarrow> turn set \<Rightarrow> coordinator \<Rightarrow> coordinator \<Rightarrow> bool" where
  "stays i T s t \<longleftrightarrow> evolves s t \<and> (\<forall>q \<in> T. turn_owner s q = Some i \<longrightarrow> turn_owner t q = Some i)
     \<and> (\<forall>n. claimed s n i \<longrightarrow> claimed t n i)"

lemma same_port_refl [simp]: "same_port x x"
  by (simp add: same_port_def)

lemma same_port_trans: "same_port x y \<Longrightarrow> same_port y z \<Longrightarrow> same_port x z"
  by (simp add: same_port_def)

lemma evolves_refl [simp]: "evolves s s"
  by (simp add: evolves_def)

lemma evolves_trans: "evolves s t \<Longrightarrow> evolves t u \<Longrightarrow> evolves s u"
  unfolding evolves_def by (meson same_port_trans)

lemma relies_refl [simp]: "coordinator_relies i s s"
  by (simp add: coordinator_relies_def)

lemma relies_trans: "coordinator_relies i s t \<Longrightarrow> coordinator_relies i t u \<Longrightarrow> coordinator_relies i s u"
  unfolding coordinator_relies_def by (metis evolves_trans)

lemma guarantees_relies: "coordinator_guarantees i s t \<Longrightarrow> i \<noteq> j \<Longrightarrow> coordinator_relies j s t"
  unfolding coordinator_relies_def coordinator_guarantees_def by metis

lemma frames_relies: "frames (coordinator_contract cfg) i (coordinator_relies i)"
  by (auto simp: frames_def intro!: reflpI transpI intro: relies_trans)

lemma frames_stays: "frames (coordinator_contract cfg) i (stays i T)"
  unfolding frames_def
  by (auto simp: stays_def coordinator_relies_def intro!: reflpI transpI intro: evolves_trans)

lemma relies_stays: "coordinator_relies i s t \<Longrightarrow> stays i T s t"
  by (simp add: stays_def coordinator_relies_def)

lemma stays_mono: "stays i T s t \<Longrightarrow> T' \<subseteq> T \<Longrightarrow> stays i T' s t"
  by (auto simp: stays_def)

subsection \<open>Steps\<close>

definition quiet :: "coordinator \<Rightarrow> coordinator \<Rightarrow> bool" where
  "quiet s t \<longleftrightarrow> conns t = conns s \<and> nextConn t = nextConn s \<and> activeRoutes t = activeRoutes s
     \<and> acceptedDescriptors t = acceptedDescriptors s \<and> initialization t = initialization s \<and> initResults t = initResults s
     \<and> initClaims t = initClaims s \<and> turns t = turns s \<and> disposed t = disposed s \<and> connectionsByPort t = connectionsByPort s"

definition mild :: "coordinator \<Rightarrow> coordinator \<Rightarrow> bool" where
  "mild s t \<longleftrightarrow> (\<forall>c x. oget (conns s) c = Some x \<longrightarrow> (\<exists>y. oget (conns t) c = Some y \<and> same_port x y))
     \<and> (\<forall>c. connDescriptor (conn t c) = connDescriptor (conn s c))
     \<and> (\<forall>k. oget (acceptedDescriptors s) k = None \<longrightarrow> oget (acceptedDescriptors t) k = None)
     \<and> initialization t = initialization s \<and> initResults t = initResults s \<and> initClaims t = initClaims s
     \<and> turns t = turns s \<and> (disposed s \<longrightarrow> disposed t)"

lemma quiet_mild: "quiet s t \<Longrightarrow> mild s t"
  by (simp add: quiet_def mild_def conn_def)

lemma mild_step: "mild s t \<Longrightarrow> coordinator_guarantees i s t \<and> coordinator_relies i s t"
  unfolding coordinator_guarantees_def coordinator_relies_def mild_def evolves_def initialised_def claimed_def free_route_def
    turn_owner_def by simp

lemma quiet_keeps: "quiet s t \<Longrightarrow> coordinator_keeps s h \<Longrightarrow> coordinator_keeps t h"
  unfolding coordinator_keeps_def quiet_def open_on_def posted_upto_def conn_def by (elim conjE) (simp only: simp_thms)

lemma quiet_step: "quiet s t \<Longrightarrow> coordinator_keeps s h
    \<Longrightarrow> coordinator_keeps t h \<and> coordinator_guarantees i s t \<and> coordinator_relies i s t"
  using quiet_keeps mild_step [OF quiet_mild] by blast

lemma quiet_refl [simp]: "quiet s s"
  by (simp add: quiet_def)

lemma quiet_trans: "quiet s t \<Longrightarrow> quiet t u \<Longrightarrow> quiet s u"
  by (simp add: quiet_def)

lemma quiet_fold: "(\<And>x s. quiet s (f x s)) \<Longrightarrow> quiet s (fold f xs s)"
proof (induction xs arbitrary: s)
  case (Cons x xs)
  from Cons.prems quiet_trans Cons.IH [of "f x s"] show ?case by (metis fold_simps(2))
qed simp

text \<open>The updates that touch nothing the contract speaks of.\<close>

lemma quiet_fields [simp]:
  "quiet s (s\<lparr>nextRequest := n\<rparr>)" "quiet s (s\<lparr>executionRequests := er\<rparr>)" "quiet s (s\<lparr>pageControls := pc\<rparr>)"
  "quiet s (s\<lparr>latestHellos := lh\<rparr>)" "quiet s (s\<lparr>latestSnapshots := ls\<rparr>)" "quiet s (s\<lparr>readyWaiters := rw\<rparr>)"
  "quiet s (s\<lparr>waiterResults := wr\<rparr>)" "quiet s (s\<lparr>abortListeners := al\<rparr>)" "quiet s (s\<lparr>abortedCalls := ac\<rparr>)"
  "quiet s (s\<lparr>brokenPorts := bp\<rparr>)"
  by (simp_all add: quiet_def)

lemma quiet_settle: "quiet s (settle_waiter r w s)"
  by (simp add: settle_waiter_def quiet_def)

lemma quiet_resolve: "quiet s (resolveSessionReadyWaiters d e s)"
  unfolding resolveSessionReadyWaiters_def
  by (auto split: option.split intro: quiet_trans [OF quiet_fields(6)] quiet_fold quiet_settle)

lemma quiet_reject: "quiet s (rejectSessionReadyWaiter key err w s)"
  unfolding rejectSessionReadyWaiter_def Let_def
  by (auto split: option.split list.split intro: quiet_trans [OF quiet_settle quiet_fields(6)] quiet_settle)

lemma quiet_rejects: "quiet s (rejectSessionReadyWaiters d err s)"
  unfolding rejectSessionReadyWaiters_def by (auto split: option.split intro: quiet_fold quiet_reject)

lemma quiet_reject_all: "quiet s (rejectAllSessionReadyWaiters err s)"
  unfolding rejectAllSessionReadyWaiters_def by (rule quiet_fold) (auto split: prod.split intro: quiet_fold quiet_reject)

lemma quiet_begin: "quiet s (begin_execution q s)" "quiet s (end_execution q s)" "quiet s (begin_control c s)" "quiet s (end_control c s)"
  "quiet s (clearActivePageAuthorizationForRoute r e s)" "quiet s (keep_snapshot d x s)" "quiet s (remove_listener n s)"
  by (simp_all add: begin_execution_def end_execution_def begin_control_def end_control_def keep_snapshot_def remove_listener_def
      clearActivePageAuthorizationForRoute_def Let_def quiet_def split: option.split)

lemma quiet_hello: "quiet s (learn_hello r d h s)"
  unfolding learn_hello_def Let_def
  by (auto split: option.split simp: quiet_def clearActivePageAuthorizationForRoute_def)

lemmas quiet_updates = quiet_settle quiet_resolve quiet_reject quiet_rejects quiet_reject_all quiet_begin quiet_hello

text \<open>Changing a connection.\<close>

lemma conn_set_conn [simp]: "conn (set_conn c x s) c' = (if c' = c then x else conn s c')"
  by (simp add: conn_def set_conn_def)

lemma set_conn_simps [simp]: "conns (set_conn c x s) = oset c x (conns s)" "nextConn (set_conn c x s) = nextConn s"
  "activeRoutes (set_conn c x s) = activeRoutes s" "acceptedDescriptors (set_conn c x s) = acceptedDescriptors s"
  "initialization (set_conn c x s) = initialization s" "initResults (set_conn c x s) = initResults s"
  "initClaims (set_conn c x s) = initClaims s" "turns (set_conn c x s) = turns s" "disposed (set_conn c x s) = disposed s"
  "brokenPorts (set_conn c x s) = brokenPorts s" "connectionsByPort (set_conn c x s) = connectionsByPort s"
  "latestHellos (set_conn c x s) = latestHellos s" "latestSnapshots (set_conn c x s) = latestSnapshots s"
  by (simp_all add: set_conn_def)

definition seqs_grow :: "port_connection \<Rightarrow> port_connection \<Rightarrow> bool" where
  "seqs_grow x y \<longleftrightarrow> (\<forall>k n. oget (connLastSeq x) k = Some n \<longrightarrow> (\<exists>m. oget (connLastSeq y) k = Some m \<and> n \<le> m))"

lemma set_conn_keeps:
  assumes s: "coordinator_keeps s h" and c: "oget (conns s) c = Some x" and y: "same_port x y" "seqs_grow x y"
    and op: "connClosed y \<Longrightarrow> connClosed x \<or> oget (activeRoutes s) (conn_route x) \<noteq> Some c"
    and d: "connDescriptor y = connDescriptor x \<or> conn_well y"
  shows "coordinator_keeps (set_conn c y s) h"
proof -
  have r: "conn_route y = conn_route x" using y(1) by (simp add: same_port_def conn_route_def)
  have "posted_upto (set_conn c y s) h"
    unfolding posted_upto_def
  proof (intro allI impI)
    fix t c' e assume p: "(t, PostToPort c' (PortStream (SessionStream e))) \<in> set h"
    with s obtain n where n: "oget (connLastSeq (conn s c')) (sessionEpochKey e) = Some n" "eventSeq e \<le> n"
      unfolding coordinator_keeps_def posted_upto_def by blast
    show "\<exists>n. oget (connLastSeq (conn (set_conn c y s) c')) (sessionEpochKey e) = Some n \<and> eventSeq e \<le> n"
    proof (cases "c' = c")
      case True
      with n c have "oget (connLastSeq x) (sessionEpochKey e) = Some n" by (simp add: conn_def)
      with y(2) n(2) True show ?thesis unfolding seqs_grow_def by fastforce
    qed (use n in simp)
  qed
  moreover have "okeep (\<lambda>r c. open_on (set_conn c0 y s) r c) (activeRoutes (set_conn c0 y s))" if "c0 = c" for c0
    unfolding okeep_def
  proof (intro allI impI)
    fix k c' assume k: "oget (activeRoutes (set_conn c0 y s)) k = Some c'"
    with s have o: "open_on s k c'" unfolding coordinator_keeps_def okeep_def by simp
    show "open_on (set_conn c0 y s) k c'"
    proof (cases "c' = c")
      case True
      with o c have "\<not> connClosed x" "conn_route x = k" by (auto simp: open_on_def)
      with True op k that r show ?thesis by (auto simp: open_on_def)
    qed (use o that in \<open>simp add: open_on_def\<close>)
  qed
  moreover have "\<forall>c' \<in> set (ovals (connectionsByPort s)). oget (conns (set_conn c y s)) c' \<noteq> None"
    using s by (auto simp: coordinator_keeps_def)
  moreover have "c < nextConn s \<and> conn_well x" using s c unfolding coordinator_keeps_def by (auto dest: okeep_get)
  moreover from this d y(1) have "conn_well y" by (auto simp: conn_well_def same_port_def)
  ultimately show ?thesis using s unfolding coordinator_keeps_def by (simp add: okeep_set del: not_None_eq)
qed

lemma set_conn_mild: "oget (conns s) c = Some x \<Longrightarrow> same_port x y \<Longrightarrow> connDescriptor y = connDescriptor x \<Longrightarrow> mild s (set_conn c y s)"
  by (auto simp: mild_def conn_def)

lemma conn_oget: "oget (conns s) c = Some x \<Longrightarrow> conn s c = x"
  by (simp add: conn_def)

lemma open_conn: "\<not> connClosed (conn s c) \<Longrightarrow> oget (conns s) c = Some (conn s c)"
  by (simp add: conn_def no_connection_def split: option.splits)

text \<open>Changing the maps of routes and bindings.\<close>

lemma active_set_keeps: "coordinator_keeps s h \<Longrightarrow> open_on s k c \<Longrightarrow> coordinator_keeps (s\<lparr>activeRoutes := oset k c (activeRoutes s)\<rparr>) h"
  by (auto simp: coordinator_keeps_def okeep_def open_on_def posted_upto_def conn_def)

lemma active_del_keeps: "coordinator_keeps s h \<Longrightarrow> coordinator_keeps (s\<lparr>activeRoutes := odel k (activeRoutes s)\<rparr>) h"
  by (auto simp: coordinator_keeps_def okeep_def open_on_def posted_upto_def conn_def)

lemma accepted_del_keeps: "coordinator_keeps s h \<Longrightarrow> coordinator_keeps (s\<lparr>acceptedDescriptors := odel k (acceptedDescriptors s)\<rparr>) h"
  by (auto simp: coordinator_keeps_def okeep_def open_on_def posted_upto_def conn_def)

lemma ports_keeps: "coordinator_keeps t h
    \<Longrightarrow> coordinator_keeps (t\<lparr>connectionsByPort := odel p (connectionsByPort s)\<rparr>) h" if "connectionsByPort s = connectionsByPort t"
  using that set_delete_subset [of p "connectionsByPort t"] by (auto simp: coordinator_keeps_def okeep_def open_on_def posted_upto_def conn_def)

lemma maps_mild: "mild s (s\<lparr>activeRoutes := m\<rparr>)" "mild s (s\<lparr>acceptedDescriptors := odel k (acceptedDescriptors s)\<rparr>)"
  "mild s (s\<lparr>acceptedDescriptors := []\<rparr>)" "mild s (s\<lparr>disposed := True\<rparr>)" "mild s (s\<lparr>connectionsByPort := cp\<rparr>)"
  by (simp_all add: mild_def conn_def)

lemma mild_trans:
  assumes s: "mild s t" and t: "mild t u"
  shows "mild s u"
proof -
  have "\<exists>z. oget (conns u) c = Some z \<and> same_port x z" if x: "oget (conns s) c = Some x" for c x
  proof -
    from s x obtain y where y: "oget (conns t) c = Some y" "same_port x y" unfolding mild_def by blast
    with t obtain z where "oget (conns u) c = Some z" "same_port y z" unfolding mild_def by blast
    with y same_port_trans show ?thesis by blast
  qed
  with s t show ?thesis unfolding mild_def by simp
qed

lemma conn_fields [simp]: "conn (s\<lparr>activeRoutes := m\<rparr>) c = conn s c" "conn (s\<lparr>connectionsByPort := p\<rparr>) c = conn s c"
  "conn (s\<lparr>acceptedDescriptors := a\<rparr>) c = conn s c" "conn (s\<lparr>nextConn := n\<rparr>) c = conn s c" "conn (s\<lparr>turns := q\<rparr>) c = conn s c"
  by (simp_all add: conn_def)

definition closed_form :: "port_connection \<Rightarrow> port_connection" where
  "closed_form x = x\<lparr>connClosed := True, connConnected := False\<rparr>"

definition drop_route :: "nat \<Rightarrow> coordinator \<Rightarrow> coordinator" where
  "drop_route c s = (if oget (activeRoutes s) (conn_route (conn s c)) = Some c
     then s\<lparr>activeRoutes := odel (conn_route (conn s c)) (activeRoutes s)\<rparr> else s)"

lemma close_connection_eq: "close_connection c s =
    (set_conn c (closed_form (conn s c)) (drop_route c s))\<lparr>connectionsByPort := odel (connPort (conn s c)) (connectionsByPort s)\<rparr>"
  by (simp add: close_connection_def Let_def set_conn_def closed_form_def drop_route_def)

lemma drop_route_step: "coordinator_keeps s h \<Longrightarrow> coordinator_keeps (drop_route c s) h \<and> mild s (drop_route c s)"
  by (simp add: drop_route_def active_del_keeps maps_mild quiet_mild)

lemma drop_route_simps [simp]: "conn (drop_route c s) = conn s" "conns (drop_route c s) = conns s"
  "acceptedDescriptors (drop_route c s) = acceptedDescriptors s" "brokenPorts (drop_route c s) = brokenPorts s"
  "connectionsByPort (drop_route c s) = connectionsByPort s" "initialization (drop_route c s) = initialization s" "initResults (drop_route c s) = initResults s"
  by (simp_all add: drop_route_def fun_eq_iff)

lemma drop_route_active: "oget (activeRoutes (drop_route c s)) k =
    (if k = conn_route (conn s c) \<and> oget (activeRoutes s) k = Some c then None else oget (activeRoutes s) k)"
  by (auto simp: drop_route_def)

lemma active_route: "coordinator_keeps s h \<Longrightarrow> oget (activeRoutes s) k = Some c \<Longrightarrow>
    k = conn_route (conn s c) \<and> \<not> connClosed (conn s c) \<and> oget (conns s) c = Some (conn s c)"
  by (auto simp: coordinator_keeps_def open_on_def conn_def dest!: okeep_get [of _ "activeRoutes s"])

lemma closed_form_same [simp]: "same_port x (closed_form x)" "seqs_grow x (closed_form x)" "connDescriptor (closed_form x) = connDescriptor x"
  "connClosed (closed_form x)"
  by (simp_all add: closed_form_def same_port_def seqs_grow_def)

lemma close_step:
  assumes s: "coordinator_keeps s h" and o: "\<not> connClosed (conn s c)"
  shows "coordinator_keeps (close_connection c s) h \<and> mild s (close_connection c s)"
proof -
  note r = drop_route_step [OF s, of c]
  have c: "oget (conns (drop_route c s)) c = Some (conn s c)" using open_conn [OF o] by simp
  have "oget (activeRoutes (drop_route c s)) (conn_route (conn s c)) \<noteq> Some c" by (simp add: drop_route_active)
  then have "coordinator_keeps (set_conn c (closed_form (conn s c)) (drop_route c s)) h"
    using set_conn_keeps [OF conjunct1 [OF r] c closed_form_same(1,2)] by simp
  moreover have "mild s (set_conn c (closed_form (conn s c)) (drop_route c s))"
    by (rule mild_trans [OF conjunct2 [OF r] set_conn_mild [OF c]]) simp_all
  ultimately show ?thesis
    unfolding close_connection_eq
    using ports_keeps [of s "set_conn c (closed_form (conn s c)) (drop_route c s)"] mild_trans [OF _ maps_mild(5)] by simp
qed

lemma close_conn: "conn (close_connection c s) c' = (if c' = c then closed_form (conn s c) else conn s c')"
  by (simp add: close_connection_eq)

lemma close_active:
  "coordinator_keeps s h \<Longrightarrow> oget (activeRoutes (close_connection c s)) k = (if oget (activeRoutes s) k = Some c then None else oget (activeRoutes s) k)"
  using active_route [of s h k c] by (auto simp: close_connection_eq drop_route_active)

lemma close_others [simp]: "acceptedDescriptors (close_connection c s) = acceptedDescriptors s" "brokenPorts (close_connection c s) = brokenPorts s"
  by (simp_all add: close_connection_eq)

text \<open>Steps that only the owner of a turn takes, and the turns themselves.\<close>

lemma turns_only:
  assumes "t = s\<lparr>turns := q\<rparr>"
  shows "coordinator_keeps s h \<Longrightarrow> coordinator_keeps t h" "evolves s t" "claimed t = claimed s" "free_route t = free_route s" "conn t = conn s"
  by (auto simp: assms coordinator_keeps_def open_on_def posted_upto_def evolves_def initialised_def claimed_def free_route_def
      conn_def fun_eq_iff)

lemma owner_enqueue: "turn_owner s q = Some j \<Longrightarrow> turn_owner (enqueue t i s) q = Some j"
  by (auto simp: turn_owner_def enqueue_def split: option.splits list.splits)

lemma enqueue_step:
  assumes "coordinator_keeps s h"
  shows "coordinator_keeps (enqueue t j s) h \<and> coordinator_guarantees i s (enqueue t j s) \<and> coordinator_relies i s (enqueue t j s)"
proof -
  have e: "enqueue t j s = s\<lparr>turns := turns (enqueue t j s)\<rparr>" by (simp add: enqueue_def)
  note f = turns_only [OF e]
  have "coordinator_guarantees i s (enqueue t j s)" "coordinator_relies i s (enqueue t j s)"
    unfolding coordinator_guarantees_def coordinator_relies_def f(3-5) by (simp_all add: f(2) owner_enqueue)
  with f(1) [OF assms] show ?thesis by blast
qed

lemma owner_leave: "turn_owner (leave_turn t s) q = (if q = t then (case tl (turn_queue s t) of [] \<Rightarrow> None | i # _ \<Rightarrow> Some i) else turn_owner s q)"
  by (auto simp: turn_owner_def leave_turn_def turn_queue_def split: option.splits list.splits)

lemma leave_step:
  assumes s: "coordinator_keeps s h" and o: "turn_owner s t = Some i" and T: "t \<notin> T"
  shows "coordinator_keeps (leave_turn t s) h \<and> coordinator_guarantees i s (leave_turn t s) \<and> stays i T s (leave_turn t s)"
proof -
  have e: "leave_turn t s = s\<lparr>turns := turns (leave_turn t s)\<rparr>" by (simp add: leave_turn_def)
  note f = turns_only [OF e]
  have q: "turn_owner s q = Some j \<Longrightarrow> j \<noteq> i \<or> q \<noteq> t \<Longrightarrow> turn_owner (leave_turn t s) q = Some j" for q j
    using o by (auto simp: owner_leave)
  have "coordinator_guarantees i s (leave_turn t s)" unfolding coordinator_guarantees_def f(3-5) using f(2) q by simp
  moreover have "stays i T s (leave_turn t s)" unfolding stays_def f(3) using f(2) q T by blast
  ultimately show ?thesis using f(1) [OF s] by blast
qed

lemma descriptor_step:
  assumes s: "coordinator_keeps s h" and o: "turn_owner s (PortTurn c) = Some i" and c: "oget (conns s) c = Some x"
    and y: "y = x\<lparr>connDescriptor := d, connFingerprint := f\<rparr>" and d: "conn_well y"
  shows "coordinator_keeps (set_conn c y s) h \<and> coordinator_guarantees i s (set_conn c y s) \<and> stays i UNIV s (set_conn c y s)"
proof -
  have p: "same_port x y" "seqs_grow x y" using y by (simp_all add: same_port_def seqs_grow_def)
  have "coordinator_keeps (set_conn c y s) h"
    by (rule set_conn_keeps [OF s c p]) (use y active_route [OF s] c d in \<open>auto simp: conn_oget\<close>)
  moreover have "evolves s (set_conn c y s)" using c p(1) by (auto simp: evolves_def initialised_def)
  ultimately show ?thesis
    using o by (auto simp: coordinator_guarantees_def stays_def turn_owner_def free_route_def initialised_def claimed_def)
qed

lemma accept_step:
  assumes s: "coordinator_keeps s h" and d: "bound_well k \<lparr>accDescriptor = d, accFingerprint = fingerprint_of d\<rparr>"
    and own: "turn_owner s (RouteTurn k) = Some i \<or> \<not> initialised s"
  shows "coordinator_keeps (accept_descriptor k d s) h \<and> coordinator_guarantees i s (accept_descriptor k d s)
    \<and> stays i UNIV s (accept_descriptor k d s)"
proof -
  have "coordinator_keeps (accept_descriptor k d s) h"
    using s d by (auto simp: coordinator_keeps_def accept_descriptor_def okeep_def open_on_def posted_upto_def conn_def)
  then show ?thesis
    using own by (auto simp: coordinator_guarantees_def stays_def turn_owner_def free_route_def initialised_def claimed_def
        evolves_def accept_descriptor_def conn_def)
qed

lemma begin_init_step:
  assumes s: "coordinator_keeps s h" and n: "initialization s = None"
  shows "coordinator_keeps (s\<lparr>initialization := Some n, nextInit := m\<rparr>) h
    \<and> coordinator_guarantees i s (s\<lparr>initialization := Some n, nextInit := m\<rparr>)
    \<and> coordinator_relies i s (s\<lparr>initialization := Some n, nextInit := m\<rparr>)"
  using s n by (auto simp: coordinator_keeps_def okeep_def open_on_def posted_upto_def conn_def coordinator_guarantees_def
      coordinator_relies_def evolves_def initialised_def claimed_def free_route_def turn_owner_def)

lemma claim_step:
  assumes s: "coordinator_keeps s h" and n: "initialization s = Some n" "oget (initClaims s) n = None" and t: "t = s\<lparr>initClaims := oset n i (initClaims s)\<rparr>"
  shows "coordinator_keeps t h \<and> coordinator_guarantees i s t \<and> coordinator_relies i s t \<and> claimed t n i"
proof -
  have r: "oget (initResults s) n = None"
    using s n okeep_get [of "\<lambda>n r. oget (initClaims s) n \<noteq> None \<and> (r = Inr () \<longrightarrow> initialization s = Some n)" "initResults s" n]
    unfolding coordinator_keeps_def by (cases "oget (initResults s) n") auto
  have "coordinator_keeps t h" using s by (auto simp: t coordinator_keeps_def okeep_def open_on_def posted_upto_def conn_def)
  then show ?thesis
    using n r by (auto simp: t coordinator_guarantees_def coordinator_relies_def evolves_def initialised_def claimed_def free_route_def
        turn_owner_def conn_def)
qed

lemma settle_init_step:
  assumes s: "coordinator_keeps s h" and c: "claimed s n i"
    and t: "t = s\<lparr>initResults := oset n r (initResults s), initialization := (if r = Inr () then Some n else None)\<rparr>"
  shows "coordinator_keeps t h \<and> coordinator_guarantees i s t"
  using s c by (auto simp: t coordinator_keeps_def okeep_def open_on_def posted_upto_def conn_def coordinator_guarantees_def
      evolves_def initialised_def claimed_def free_route_def turn_owner_def)

subsection \<open>Triples of the coordinator\<close>

abbreviation hoare where
  "hoare cfg i \<equiv> triple (coordinator_contract cfg) i"

lemmas hoare_frame = triple_frames and hoare_keep = triple_keep and hoare_weak = triple_weak and hoare_pre = triple_pre
  and hoare_get = triple_get_any and hoare_true = triple_true and hoare_ret_true = triple_ret_true

lemma lasting_relies: "lasting (stays i T) P \<Longrightarrow> lasting (coordinator_relies i) P"
  unfolding lasting_def using relies_stays by blast

lemma hoare_lift: "hoare cfg i (coordinator_relies i) P p Q \<Longrightarrow> hoare cfg i (stays i T) P p Q"
  by (erule triple_conseq) (auto intro: relies_stays)

lemmas frs = frames_relies frames_stays

text \<open>Outputs.\<close>

fun harmless :: "coordinator_output \<Rightarrow> bool" where
  "harmless (PostToPort c m) = False"
| "harmless (ToOffscreen (RequestOffscreen q)) = False"
| "harmless (DescriptorBound d) = False"
| "harmless (PageControl c) = False"
| "harmless _ = True"

fun session_post :: "coordinator_output \<Rightarrow> bool" where
  "session_post (PostToPort c (PortStream (SessionStream e))) = True"
| "session_post _ = False"

lemma keeps_snoc: "\<not> session_post x \<Longrightarrow> coordinator_keeps s h \<Longrightarrow> coordinator_keeps s (h @ [(t, x)])"
  by (auto simp: coordinator_keeps_def posted_upto_def)

lemma harmless_permits: "harmless x \<Longrightarrow> coordinator_permits cfg s h x \<and> \<not> session_post x"
  by (cases x rule: harmless.cases) simp_all

lemma hoare_emit: "frames (coordinator_contract cfg) i R \<Longrightarrow> harmless x \<Longrightarrow> hoare cfg i R P (emit x) (\<lambda>_. P)"
  by (rule triple_emit) (simp_all add: harmless_permits keeps_snoc)

lemma hoare_emit_if: "frames (coordinator_contract cfg) i R \<Longrightarrow> (\<And>s h. P s \<Longrightarrow> coordinator_permits cfg s h x) \<Longrightarrow> (\<And>s. P s \<Longrightarrow> \<not> session_post x)
    \<Longrightarrow> hoare cfg i R P (emit x) (\<lambda>_. P)"
  by (rule triple_emit) (simp_all add: keeps_snoc)

lemma hoare_report: "frames (coordinator_contract cfg) i R \<Longrightarrow> hoare cfg i R P (report x) (\<lambda>_. P)"
  unfolding report_def by (rule hoare_emit) simp_all

lemma hoare_notify: "frames (coordinator_contract cfg) i R \<Longrightarrow> hoare cfg i R P (notifySessionReadiness d b) (\<lambda>_. P)"
  unfolding notifySessionReadiness_def by (rule hoare_emit) simp_all

lemma hoare_skip: "frames (coordinator_contract cfg) i R \<Longrightarrow> hoare cfg i R P skip (\<lambda>_. P)"
  unfolding skip_def by (rule triple_ret)

lemma hoare_quiet: "(\<And>s. P s \<Longrightarrow> quiet s (f s)) \<Longrightarrow> (\<And>s. P s \<Longrightarrow> Q (f s)) \<Longrightarrow> hoare cfg i (coordinator_relies i) P (change f) (\<lambda>_. Q)"
  by (rule triple_change) (simp, metis quiet_step)

lemma hoare_put_quiet: "quiet s t \<Longrightarrow> hoare cfg i (coordinator_relies i) (\<lambda>u. u = t) p Q
    \<Longrightarrow> hoare cfg i (coordinator_relies i) (\<lambda>u. u = s) (Put t p) Q"
  by (rule triple_put [OF frames_relies]) (auto dest: quiet_step)

text \<open>Waiting for an answer from outside.\<close>

lemma hoare_await: "frames (coordinator_contract cfg) i R \<Longrightarrow> (\<And>w. hoare cfg i R P (k w) Q) \<Longrightarrow> lasting (coordinator_relies i) P
    \<Longrightarrow> hoare cfg i R P (after (await q) k) Q"
  unfolding await_def after.simps
  by (rule triple_await [where P' = P]) (auto dest: lastingD intro: triple_conseq)

lemma hoare_lease_current: "hoare cfg i (coordinator_relies i) (\<lambda>s. True) (lease_current l) (\<lambda>_ _. True)"
  unfolding lease_current_def
  by (rule hoare_await [OF frames_relies]) (auto split: coordinator_answer.split intro!: triple_ret triple_throw frames_relies)

lemma hoare_close:
  assumes "\<And>s. P s \<Longrightarrow> connClosed (conn s c) \<Longrightarrow> P' s" and "\<And>s h. P s \<Longrightarrow> \<not> connClosed (conn s c) \<Longrightarrow> coordinator_keeps s h \<Longrightarrow> P' (close_connection c s)"
  shows "hoare cfg i (coordinator_relies i) P (closeConnection c b) (\<lambda>_. P')"
  unfolding closeConnection_def
proof (rule triple_get)
  fix s
  show "hoare cfg i (coordinator_relies i) (\<lambda>t. t = s \<and> P t) (if connClosed (conn s c) then skip
      else Put (close_connection c s) (if b then emit (DisconnectPort (connPort (conn s c))) else skip)) (\<lambda>_. P')"
  proof (rule triple_if)
    assume "connClosed (conn s c)"
    with assms(1) show "hoare cfg i (coordinator_relies i) (\<lambda>t. t = s \<and> P t) skip (\<lambda>_. P')"
      by (intro triple_conseq [OF hoare_skip [OF frames_relies]]) auto
  next
    assume o: "\<not> connClosed (conn s c)"
    show "hoare cfg i (coordinator_relies i) (\<lambda>t. t = s \<and> P t)
        (Put (close_connection c s) (if b then emit (DisconnectPort (connPort (conn s c))) else skip)) (\<lambda>_. P')"
      by (rule triple_put [OF frames_relies, where P' = P'])
        (use o close_step mild_step assms(2) in \<open>auto intro!: hoare_emit hoare_skip frames_relies\<close>)
  qed
qed

lemma hoare_close_any: "hoare cfg i (coordinator_relies i) (\<lambda>s. True) (closeConnection c b) (\<lambda>_ s. connClosed (conn s c))"
  by (rule hoare_close) (simp_all add: close_conn)

definition reaches :: "coordinator \<Rightarrow> nat \<Rightarrow> port_reply \<Rightarrow> bool" where
  "reaches s c m \<longleftrightarrow> (case m of PortRefused e \<Rightarrow> True | PortError j e \<Rightarrow> True | PortStream (SessionStream e) \<Rightarrow> False | _ \<Rightarrow> isActive s c)"

lemma hoare_post:
  assumes "\<And>s. P s \<Longrightarrow> reaches s c m"
  shows "hoare cfg i (coordinator_relies i) P (safePost c m) (\<lambda>b s. b \<longrightarrow> P s)"
  unfolding safePost_def
proof (rule triple_get)
  fix s
  have "hoare cfg i (coordinator_relies i) (\<lambda>t. t = s \<and> P t)
      (andThen (report ''port-post'') (andThen (closeConnection c False) (Ret False))) (\<lambda>b s. b \<longrightarrow> P s)"
    by (rule triple_andThen [OF frames_relies hoare_report [OF frames_relies]],
        rule triple_andThen [OF frames_relies triple_conseq [OF hoare_close_any]]) (auto intro: triple_ret [OF frames_relies])
  moreover have "hoare cfg i (coordinator_relies i) (\<lambda>t. t = s \<and> P t) (andThen (emit (PostToPort c m)) (Ret True)) (\<lambda>b s. b \<longrightarrow> P s)"
    if "\<not> connClosed (conn s c)" "connPort (conn s c) \<notin> set (brokenPorts s)"
  proof (rule triple_andThen [OF frames_relies hoare_emit_if [OF frames_relies]])
    fix t h assume t: "t = s \<and> P t"
    then show "coordinator_permits cfg t h (PostToPort c m)"
      using that assms [of s] open_conn [OF that(1)]
      by (cases m) (auto simp: reaches_def split: stream_envelope.splits)
  next
    fix t assume "t = s \<and> P t"
    then show "\<not> session_post (PostToPort c m)" using assms [of s] by (auto simp: reaches_def split: port_reply.splits stream_envelope.splits)
  qed (auto intro: triple_ret [OF frames_relies])
  ultimately show "hoare cfg i (coordinator_relies i) (\<lambda>t. t = s \<and> P t) (if connClosed (conn s c) then Ret False
      else if connPort (conn s c) \<in> set (brokenPorts s)
      then andThen (report ''port-post'') (andThen (closeConnection c False) (Ret False))
      else andThen (emit (PostToPort c m)) (Ret True)) (\<lambda>b s. b \<longrightarrow> P s)"
    by (auto intro: triple_ret [OF frames_relies])
qed

definition open_conn_at :: "nat \<Rightarrow> coordinator \<Rightarrow> bool" where
  "open_conn_at c s \<longleftrightarrow> \<not> connClosed (conn s c) \<and> \<not> disposed s"

lemma hoare_fence: "hoare cfg i (coordinator_relies i) (\<lambda>_. True) (fenceConnection c b) (\<lambda>ok s. ok \<longrightarrow> open_conn_at c s)"
  unfolding fenceConnection_def
proof (rule hoare_get, rule triple_if)
  fix s
  let ?K = "\<lambda>current. Get (\<lambda>s. if current \<and> \<not> connClosed (conn s c) \<and> \<not> disposed s then Ret True
    else andThen (closeConnection c b) (Ret False))"
  show "hoare cfg i (coordinator_relies i) (\<lambda>_. True) (Ret False) (\<lambda>ok s. ok \<longrightarrow> open_conn_at c s)"
    by (rule triple_ret [OF frames_relies]) simp
  have "hoare cfg i (coordinator_relies i) (\<lambda>_. True) (?K current) (\<lambda>ok s. ok \<longrightarrow> open_conn_at c s)" for current
    by (rule triple_get)
      (auto simp: open_conn_at_def intro!: triple_ret [OF frames_relies]
        triple_andThen [OF frames_relies hoare_true [OF hoare_weak [OF hoare_close_any]]])
  then show "hoare cfg i (coordinator_relies i) (\<lambda>_. True)
      (after (rescue (lease_current (connLease (conn s c))) (\<lambda>e. andThen (report ''lease-fence'') (Ret False))) ?K)
      (\<lambda>ok s. ok \<longrightarrow> open_conn_at c s)"
    by (rule triple_after [OF frames_relies, rotated])
      (auto intro!: triple_rescue [OF frames_relies hoare_lease_current] triple_andThen [OF frames_relies hoare_report [OF frames_relies]]
        hoare_ret_true frames_relies)
qed

lemma hoare_fenced:
  assumes "lasting (coordinator_relies i) P" and "\<And>ok. hoare cfg i (coordinator_relies i) (\<lambda>s. P s \<and> (ok \<longrightarrow> open_conn_at c s)) (k ok) Q"
  shows "hoare cfg i (coordinator_relies i) P (after (fenceConnection c b) k) Q"
  by (rule triple_after [OF frames_relies, where M = "\<lambda>ok s. (ok \<longrightarrow> open_conn_at c s) \<and> P s"])
    (rule hoare_pre [OF hoare_frame [OF hoare_fence assms(1)]], simp, rule hoare_pre [OF assms(2)], simp)

text \<open>What is known of a connection stays known.\<close>

definition known_conn :: "nat \<Rightarrow> string \<Rightarrow> coordinator \<Rightarrow> bool" where
  "known_conn c key s \<longleftrightarrow> oget (conns s) c \<noteq> None \<and> conn_route (conn s c) = key"

lemma known_evolves: "known_conn c key s \<Longrightarrow> evolves s t \<Longrightarrow> known_conn c key t"
  unfolding known_conn_def evolves_def conn_def by (fastforce simp: same_port_def conn_route_def)

lemma known_lasting [stables, simp]: "lasting (coordinator_relies i) (known_conn c key)" "lasting (stays i T) (known_conn c key)"
  by (auto simp: lasting_def coordinator_relies_def stays_def intro: known_evolves)

lemma open_known: "open_conn_at c s \<Longrightarrow> known_conn c key s \<Longrightarrow> open_on s key c"
  unfolding open_conn_at_def known_conn_def open_on_def using open_conn by auto

lemma active_known: "coordinator_keeps s h \<Longrightarrow> oget (activeRoutes s) key = Some c \<Longrightarrow> known_conn c key s"
  using active_route [of s h key c] by (simp add: known_conn_def)

definition known_option :: "nat option \<Rightarrow> string \<Rightarrow> coordinator \<Rightarrow> bool" where
  "known_option previous key s \<longleftrightarrow> (\<forall>p. previous = Some p \<longrightarrow> known_conn p key s)"

lemma known_option_lasting [stables, simp]: "lasting (coordinator_relies i) (known_option p key)" "lasting (stays i T) (known_option p key)"
  using known_lasting unfolding known_option_def lasting_def by blast+

lemma hoare_set_active: "hoare cfg i (coordinator_relies i) (open_on' key c) (change (\<lambda>s. s\<lparr>activeRoutes := oset key c (activeRoutes s)\<rparr>)) (\<lambda>_ _. True)"
  if "\<And>s. open_on' key c s \<Longrightarrow> open_on s key c"
  using that by (auto intro!: triple_change simp: active_set_keeps mild_step [OF maps_mild(1)])

lemma hoare_restore: "hoare cfg i (coordinator_relies i) (known_option previous key) (restoreActiveRoute key previous) (\<lambda>_ _. True)"
  unfolding restoreActiveRoute_def
proof (rule hoare_get)
  fix s
  let ?f = "case previous of Some p \<Rightarrow> if connConnected (conn s p) then fenceConnection p False else Ret False | None \<Rightarrow> Ret False"
  have f: "hoare cfg i (coordinator_relies i) (known_option previous key) ?f (\<lambda>ok s. ok \<longrightarrow> (\<exists>p. previous = Some p \<and> open_on s key p))"
  proof (cases previous)
    case (Some p)
    have "hoare cfg i (coordinator_relies i) (known_option previous key) (fenceConnection p False)
        (\<lambda>ok s. ok \<longrightarrow> (\<exists>p. previous = Some p \<and> open_on s key p))"
      by (rule triple_conseq [OF hoare_frame [OF hoare_fence known_lasting(1)], of _ p key])
        (auto simp: Some known_option_def intro: open_known)
    with Some show ?thesis by (auto intro: triple_ret [OF frames_relies])
  qed (auto intro: triple_ret [OF frames_relies])
  show "hoare cfg i (coordinator_relies i) (known_option previous key) (after ?f (\<lambda>ok. change (\<lambda>s.
      if ok then s\<lparr>activeRoutes := oset key (the previous) (activeRoutes s)\<rparr> else s\<lparr>activeRoutes := odel key (activeRoutes s)\<rparr>))) (\<lambda>_ _. True)"
    by (rule triple_after [OF frames_relies f], rule triple_change)
      (auto simp: active_set_keeps active_del_keeps mild_step [OF maps_mild(1)])
qed

text \<open>Requests of the offscreen runtime.\<close>

definition may_ask :: "coordinator_config \<Rightarrow> coordinator \<Rightarrow> offscreen_command \<Rightarrow> bool" where
  "may_ask cfg s m \<longleftrightarrow> coordinator_permits cfg s [] (ToOffscreen m)"

lemma may_ask_permits: "may_ask cfg s m \<Longrightarrow> coordinator_permits cfg s h (ToOffscreen m)"
  by (cases m) (simp_all add: may_ask_def)

lemma may_ask_simps [simp]: "may_ask cfg s (InitOffscreen x)" "may_ask cfg s (ConnectOffscreen d)"
  "requestId q = freshRequestId cfg n \<Longrightarrow> may_ask cfg s (RequestOffscreen q)"
  by (auto simp: may_ask_def)

lemma hoare_ask_out: "frames (coordinator_contract cfg) i R \<Longrightarrow> (\<And>s. P s \<Longrightarrow> may_ask cfg s m) \<Longrightarrow> hoare cfg i R P (emit (ToOffscreen m)) (\<lambda>_. P)"
  by (rule hoare_emit_if) (simp_all add: may_ask_permits)

lemma hoare_ask: "(\<And>s. P s \<Longrightarrow> may_ask cfg s m) \<Longrightarrow> hoare cfg i (coordinator_relies i) P (ask_offscreen m) (\<lambda>_ _. True)"
  unfolding ask_offscreen_def
  by (rule triple_andThen [OF frames_relies hoare_ask_out [OF frames_relies]], assumption, rule hoare_true,
      rule hoare_await [OF frames_relies])
    (auto split: coordinator_answer.split intro!: hoare_ret_true triple_throw frames_relies)

lemma hoare_asked: "lasting (coordinator_relies i) P \<Longrightarrow> (\<And>s. P s \<Longrightarrow> may_ask cfg s m) \<Longrightarrow> hoare cfg i (coordinator_relies i) P (ask_offscreen m) (\<lambda>_. P)"
  using hoare_frame [OF hoare_ask [of P cfg m i], of P] by simp

lemma hoare_fresh: "hoare cfg i (coordinator_relies i) (\<lambda>_. True) (fresh_id cfg) (\<lambda>a _. \<exists>n. a = freshRequestId cfg n)"
  unfolding fresh_id_def
  by (rule triple_get, simp, rule hoare_put_quiet) (auto intro: triple_ret [OF frames_relies])

lemma hoare_response: "frames (coordinator_contract cfg) i R \<Longrightarrow> hoare cfg i R P (response_value r) (\<lambda>_ _. True)"
  unfolding response_value_def
  by (auto split: sum.split response_body.split intro!: triple_ret triple_throw)

end
