(* ===== verification/CoordinatorGuarantees.thy ===== *)
theory CoordinatorGuarantees
  imports CoordinatorContract
begin

section \<open>What the coordinator guarantees\<close>

text \<open>
  Every handler of \<open>RuntimeCoordinator\<close> respects the contract of \<open>CoordinatorContract\<close>, in the order of the
  source, and what follows for every run: which port a stream reaches, whose requests reach the offscreen
  runtime, when a binding is persisted and which page operations are carried out.
\<close>

subsection \<open>Streams respect the contract\<close>

lemma hoare_mild_conn:
  assumes "oget (conns s) c = Some x" and "same_port x y" and "seqs_grow x y" and "connDescriptor y = connDescriptor x" and "\<not> connClosed y"
    and "hoare cfg i (coordinator_relies i) (\<lambda>t. t = set_conn c y s) p Q"
  shows "hoare cfg i (coordinator_relies i) (\<lambda>t. t = s) (Put (set_conn c y s) p) Q"
proof (rule triple_put [OF frames_relies _ assms(6)])
  fix t h assume "keeps (coordinator_contract cfg) t h" "t = s"
  then have "coordinator_keeps (set_conn c y s) h" using set_conn_keeps [OF _ assms(1-3)] assms(4,5) by simp
  with \<open>t = s\<close> mild_step [OF set_conn_mild [OF assms(1,2,4)]]
  show "keeps (coordinator_contract cfg) (set_conn c y s) h \<and> guarantees (coordinator_contract cfg) i t (set_conn c y s)
    \<and> coordinator_relies i t (set_conn c y s) \<and> set_conn c y s = set_conn c y s" by simp
qed

lemma isActive_set_conn: "conn_route y = conn_route (conn s c) \<Longrightarrow> isActive (set_conn c y s) c = isActive s c"
  by (simp add: isActive_def)

lemma hoare_post_true: "(\<And>s. P s \<Longrightarrow> reaches s c m) \<Longrightarrow> hoare cfg i (coordinator_relies i) P (safePost c m) (\<lambda>_ _. True)"
  by (rule hoare_weak [OF hoare_post])

lemma route_hello_ok: "hoare cfg i (coordinator_relies i) (\<lambda>_. True) (route_hello h) (\<lambda>_ _. True)"
proof -
  let ?key = "runtimeClientRouteKey (clientId h) (windowId h)"
  have tail: "hoare cfg i (coordinator_relies i) (\<lambda>s. ok \<longrightarrow> open_conn_at c s) (if \<not> ok then Ret False else Get (\<lambda>s.
        if oget (activeRoutes s) ?key \<noteq> Some c then Ret False
        else if runtimeEpoch h \<in> set (connHellos (conn s c)) then Ret False
        else Put (set_conn c ((conn s c)\<lparr>connHellos := connHellos (conn s c) @ [runtimeEpoch h]\<rparr>) s) (safePost c (PortStream (Hello h)))))
      (\<lambda>_ _. True)" for ok c
  proof (rule triple_if [OF hoare_ret_true [OF frames_relies]], rule triple_get, rule triple_if [OF hoare_ret_true [OF frames_relies]],
      rule triple_if [OF hoare_ret_true [OF frames_relies]])
    fix s
    let ?y = "(conn s c)\<lparr>connHellos := connHellos (conn s c) @ [runtimeEpoch h]\<rparr>"
    assume "\<not> oget (activeRoutes s) ?key \<noteq> Some c"
    then have a: "oget (activeRoutes s) ?key = Some c" by simp
    show "hoare cfg i (coordinator_relies i) (\<lambda>t. t = s \<and> (ok \<longrightarrow> open_conn_at c t)) (Put (set_conn c ?y s) (safePost c (PortStream (Hello h)))) (\<lambda>_ _. True)"
    proof (rule tripleI)
      fix t k assume k: "keeps (coordinator_contract cfg) t k" "t = s \<and> (ok \<longrightarrow> open_conn_at c t)"
      with a active_route [of s k ?key c] have o: "oget (conns s) c = Some (conn s c)" "?key = conn_route (conn s c)" "\<not> connClosed (conn s c)" by auto
      have "hoare cfg i (coordinator_relies i) (\<lambda>t. t = s) (Put (set_conn c ?y s) (safePost c (PortStream (Hello h)))) (\<lambda>_ _. True)"
        by (rule hoare_mild_conn [OF o(1)])
          (use o a in \<open>auto simp: same_port_def seqs_grow_def reaches_def isActive_def conn_route_def intro!: hoare_post_true\<close>)
      from tripleD [OF this k(1)] k(2) show "sat (coordinator_contract cfg) i (Put (set_conn c ?y s) (safePost c (PortStream (Hello h))))
        (\<lambda>_ s' h'. keeps (coordinator_contract cfg) s' h' \<and> coordinator_relies i t s' \<and> True)
        (\<lambda>_ s' h'. keeps (coordinator_contract cfg) s' h' \<and> coordinator_relies i t s') t k" by blast
    qed
  qed
  have rest: "hoare cfg i (coordinator_relies i) (\<lambda>_. True) (case connection of
        None \<Rightarrow> Ret False
      | Some c \<Rightarrow> after (fenceConnection c True) (\<lambda>ok. if \<not> ok then Ret False else Get (\<lambda>s.
          if oget (activeRoutes s) ?key \<noteq> Some c then Ret False
          else if runtimeEpoch h \<in> set (connHellos (conn s c)) then Ret False
          else Put (set_conn c ((conn s c)\<lparr>connHellos := connHellos (conn s c) @ [runtimeEpoch h]\<rparr>) s)
            (safePost c (PortStream (Hello h)))))) (\<lambda>_ _. True)" for connection
    by (cases connection) (auto intro!: hoare_ret_true frames_relies hoare_fenced hoare_pre [OF tail])
  have learned: "hoare cfg i (coordinator_relies i) (\<lambda>t. t = s) (Put (learn_hello ?key d h s)
        (andThen (if lost then notifySessionReadiness d False else skip)
          (case connection of
            None \<Rightarrow> Ret False
          | Some c \<Rightarrow> after (fenceConnection c True) (\<lambda>ok. if \<not> ok then Ret False else Get (\<lambda>s.
              if oget (activeRoutes s) ?key \<noteq> Some c then Ret False
              else if runtimeEpoch h \<in> set (connHellos (conn s c)) then Ret False
              else Put (set_conn c ((conn s c)\<lparr>connHellos := connHellos (conn s c) @ [runtimeEpoch h]\<rparr>) s)
                (safePost c (PortStream (Hello h)))))))) (\<lambda>_ _. True)" for s d lost connection
    by (rule hoare_put_quiet [OF quiet_hello], rule triple_andThen [OF frames_relies, where M = "\<lambda>_. True"])
      (auto intro!: rest hoare_true [OF hoare_weak [OF hoare_notify]] hoare_true [OF hoare_weak [OF hoare_skip]] frames_relies)
  show ?thesis
    unfolding route_hello_def Let_def
    by (rule triple_get, case_tac "known_descriptor s ?key"; simp only: option.case;
        (rule hoare_ret_true [OF frames_relies] | rule triple_if, rule hoare_ret_true [OF frames_relies], rule hoare_pre [OF learned], simp))
qed

lemma learn_snapshot_ok: "hoare cfg i (coordinator_relies i) (\<lambda>_. True) (learn_snapshot d e) (\<lambda>_ _. True)"
  unfolding learn_snapshot_def Let_def
proof (split option.split, intro conjI impI allI)
  show "hoare cfg i (coordinator_relies i) (\<lambda>_. True) skip (\<lambda>_ _. True)" by (rule hoare_skip [OF frames_relies])
  have k: "hoare cfg i (coordinator_relies i) (\<lambda>u. u = s) (Put (keep_snapshot d e s) skip) (\<lambda>_ _. True)" for s
    by (rule hoare_put_quiet [OF quiet_begin(6)], rule hoare_weak, rule hoare_skip [OF frames_relies])
  have r: "hoare cfg i (coordinator_relies i) (\<lambda>u. u = s)
      (Put (resolveSessionReadyWaiters d x (keep_snapshot d e s)) (notifySessionReadiness d True)) (\<lambda>_ _. True)" for s x
    by (rule hoare_put_quiet [OF quiet_trans [OF quiet_begin(6) quiet_resolve]], rule hoare_weak, rule hoare_notify [OF frames_relies])
  show "hoare cfg i (coordinator_relies i) (\<lambda>_. True) (Get (\<lambda>s. case readySnapshot (keep_snapshot d e s) d of
      None \<Rightarrow> Put (keep_snapshot d e s) skip
    | Some ready \<Rightarrow> if readySnapshot s d = None \<and> isAcceptedDescriptor (keep_snapshot d e s) d
        then Put (resolveSessionReadyWaiters d ready (keep_snapshot d e s)) (notifySessionReadiness d True)
        else Put (keep_snapshot d e s) skip)) (\<lambda>_ _. True)"
    by (rule triple_get) (auto split: option.split intro: k r)
qed

text \<open>A session stream is posted only beyond what the port has had of its session epoch.\<close>

lemma deliver_ok: "hoare cfg i (coordinator_relies i) (\<lambda>_. True) (deliver_stream c (runtimeClientRouteKey (clientId e) (windowId e)) e) (\<lambda>_ _. True)"
  unfolding deliver_stream_def
proof (rule hoare_fenced, simp, rule triple_if [OF hoare_ret_true [OF frames_relies]], rule tripleI)
  fix ok s h
  let ?C = "coordinator_contract cfg" and ?key = "runtimeClientRouteKey (clientId e) (windowId e)"
  assume k0: "keeps (coordinator_contract cfg) s h"
  then have k: "coordinator_keeps s h" by simp
  define x where "x = conn s c"
  define last where "last = (case oget (connLastSeq x) (sessionEpochKey e) of Some n \<Rightarrow> n | None \<Rightarrow> 0)"
  define y where "y = x\<lparr>connLastSeq := oset (sessionEpochKey e) (eventSeq e) (connLastSeq x)\<rparr>"
  let ?s = "set_conn c y s"
  let ?G = "\<lambda>(_ :: bool) s' h'. keeps ?C s' h' \<and> coordinator_relies i s s' \<and> True"
  have post: "sat ?C i (safePost c (PortStream (SessionStream e))) ?G (\<lambda>_ s' h'. keeps ?C s' h' \<and> coordinator_relies i s s') ?s h
      \<and> coordinator_guarantees i s ?s"
    if a: "oget (activeRoutes s) ?key = Some c" and l: "last < eventSeq e"
  proof -
    from active_route [OF k a] have o: "?key = conn_route x" "\<not> connClosed x" "oget (conns s) c = Some x" by (simp_all add: x_def)
    have g: "seqs_grow x y" using l by (auto simp: seqs_grow_def y_def last_def)
    have y: "same_port x y" "connDescriptor y = connDescriptor x" "\<not> connClosed y" "conn_route y = conn_route x" "connPort y = connPort x"
      using o(2) by (simp_all add: y_def same_port_def conn_route_def)
    have ks: "coordinator_keeps ?s h" by (rule set_conn_keeps [OF k o(3) y(1) g]) (simp_all add: y(2,3))
    have m: "coordinator_guarantees i s ?s \<and> coordinator_relies i s ?s" by (rule mild_step [OF set_conn_mild [OF o(3) y(1,2)]])
    have lt: "eventSeq e' < eventSeq e"
      if "(t, PostToPort c (PortStream (SessionStream e'))) \<in> set h" "sessionEpochKey e' = sessionEpochKey e" for t e'
    proof -
      from k that(1) obtain n where "oget (connLastSeq (conn s c)) (sessionEpochKey e') = Some n" "eventSeq e' \<le> n"
        unfolding coordinator_keeps_def posted_upto_def by blast
      with l that(2) show ?thesis by (simp add: last_def x_def)
    qed
    have kp: "coordinator_keeps ?s (h @ [(?s, PostToPort c (PortStream (SessionStream e)))])"
      using ks by (auto simp: coordinator_keeps_def posted_upto_def y_def)
    show ?thesis
    proof (cases "connPort x \<in> set (brokenPorts s)")
      case True
      have cs: "coordinator_keeps (close_connection c ?s) h" "mild ?s (close_connection c ?s)"
        using close_step [OF ks] y(3) by simp_all
      have cm: "coordinator_guarantees i ?s (close_connection c ?s)" "coordinator_relies i s (close_connection c ?s)"
        using mild_step [OF cs(2)] mild_step [OF mild_trans [OF set_conn_mild [OF o(3) y(1,2)] cs(2)]] by blast+
      with True m ks cs y show ?thesis
        by (simp add: safePost_def closeConnection_def report_def skip_def sat_simps keeps_snoc)
    next
      case False
      with m kp y o(1) a lt o(3) show ?thesis by (simp add: safePost_def sat_simps)
    qed
  qed
  show "sat ?C i (Get (\<lambda>s. if oget (activeRoutes s) ?key \<noteq> Some c then Ret False
     else let x = conn s c; key = sessionEpochKey e; last = (case oget (connLastSeq x) key of Some n \<Rightarrow> n | None \<Rightarrow> 0) in
       if eventSeq e \<le> last then Ret False
       else Put (set_conn c (x\<lparr>connLastSeq := oset key (eventSeq e) (connLastSeq x)\<rparr>) s)
         (safePost c (PortStream (SessionStream e))))) ?G (\<lambda>_ s' h'. keeps ?C s' h' \<and> coordinator_relies i s s') s h"
    using k0 post unfolding x_def [symmetric] Let_def by (simp add: x_def [symmetric] last_def [symmetric] y_def [symmetric])
qed

lemma route_session_stream_ok: "hoare cfg i (coordinator_relies i) (\<lambda>_. True) (route_session_stream e) (\<lambda>_ _. True)"
proof -
  let ?key = "runtimeClientRouteKey (clientId e) (windowId e)"
  have deliver: "hoare cfg i (coordinator_relies i) (\<lambda>_. True) (Get (\<lambda>s. case connection of
             None \<Rightarrow> Ret False
           | Some c \<Rightarrow> if connDescriptor (conn s c) = None then Ret False else deliver_stream c ?key e)) (\<lambda>_ _. True)" for connection
    by (rule hoare_get, cases connection) (auto intro!: hoare_ret_true frames_relies deliver_ok)
  have learn: "hoare cfg i (coordinator_relies i) (\<lambda>_. True) (andThen (learn_snapshot d e) (Get (\<lambda>s. case connection of
             None \<Rightarrow> Ret False
           | Some c \<Rightarrow> if connDescriptor (conn s c) = None then Ret False else deliver_stream c ?key e))) (\<lambda>_ _. True)" for connection d
    by (rule triple_andThen [OF frames_relies learn_snapshot_ok deliver])
  show ?thesis
    unfolding route_session_stream_def Let_def
    by (rule hoare_get, case_tac "known_descriptor s ?key"; simp only: option.case;
        (rule hoare_ret_true [OF frames_relies] | rule triple_if, rule hoare_ret_true [OF frames_relies],
          rule triple_if, rule hoare_ret_true [OF frames_relies], rule learn))
qed

lemma routeStream_ok: "hoare cfg i (coordinator_relies i) (\<lambda>_. True) (routeStream e) (\<lambda>_ _. True)"
  unfolding routeStream_def by (cases e) (simp_all add: route_hello_ok route_session_stream_ok)

lemma route_reply_ok: "hoare cfg i (coordinator_relies i) (\<lambda>_. True) (route_reply r) (\<lambda>_ _. True)"
  unfolding route_reply_def
  by (auto split: offscreen_reply.split stream_envelope.split
      intro!: hoare_skip frames_relies triple_after [OF frames_relies routeStream_ok])

subsection \<open>Initialisation is run once\<close>

lemma initialised_result:
  assumes "coordinator_keeps s h" and "coordinator_answers i s (InitializationOf n) w" and "\<And>e. w \<noteq> FailedWith e"
  shows "initialised s"
proof -
  from assms(2,3) have "oget (initResults s) n = Some (Inr ())" by (auto split: option.splits sum.splits)
  moreover with assms(1) have "initialization s = Some n" unfolding coordinator_keeps_def by (auto dest: okeep_get)
  ultimately show ?thesis by (simp add: initialised_def)
qed

lemma wait_initialized_ok: "hoare cfg i (coordinator_relies i) (\<lambda>_. True) (wait_initialized n) (\<lambda>_. initialised)"
proof (rule tripleI)
  fix s h assume k: "keeps (coordinator_contract cfg) s h"
  have "sat (coordinator_contract cfg) i (case w of FailedWith e \<Rightarrow> Throw e | _ \<Rightarrow> skip)
      (\<lambda>_ s' h'. keeps (coordinator_contract cfg) s' h' \<and> coordinator_relies i s s' \<and> initialised s')
      (\<lambda>_ s' h'. keeps (coordinator_contract cfg) s' h' \<and> coordinator_relies i s s') t g"
    if "coordinator_keeps t g" "coordinator_relies i s t" "coordinator_answers i t (InitializationOf n) w" for w t g
    using that initialised_result [OF that(1,3)] by (cases w) (simp_all add: skip_def)
  with k show "sat (coordinator_contract cfg) i (wait_initialized n)
      (\<lambda>_ s' h'. keeps (coordinator_contract cfg) s' h' \<and> coordinator_relies i s s' \<and> initialised s')
      (\<lambda>_ s' h'. keeps (coordinator_contract cfg) s' h' \<and> coordinator_relies i s s') s h"
    by (simp add: wait_initialized_def await_def)
qed

lemma ensureInitialized_ok: "hoare cfg i (coordinator_relies i) (\<lambda>_. True) ensureInitialized (\<lambda>_. initialised)"
  unfolding ensureInitialized_def
proof (rule triple_get)
  fix s
  show "hoare cfg i (coordinator_relies i) (\<lambda>t. t = s \<and> True) (case initialization s of
       Some n \<Rightarrow> wait_initialized n
     | None \<Rightarrow> Put (s\<lparr>initialization := Some (nextInit s), nextInit := nextInit s + 1\<rparr>)
         (Spawn (InitializeJob (nextInit s)) (\<lambda>_. wait_initialized (nextInit s)))) (\<lambda>_. initialised)"
  proof (cases "initialization s")
    case None
    then have b: "coordinator_keeps t h \<Longrightarrow> t = s \<and> True \<Longrightarrow> keeps (coordinator_contract cfg) (s\<lparr>initialization := Some (nextInit s), nextInit := nextInit s + 1\<rparr>) h
        \<and> guarantees (coordinator_contract cfg) i t (s\<lparr>initialization := Some (nextInit s), nextInit := nextInit s + 1\<rparr>)
        \<and> coordinator_relies i t (s\<lparr>initialization := Some (nextInit s), nextInit := nextInit s + 1\<rparr>) \<and> True" for t h
      by (auto simp: begin_init_step)
    from None show ?thesis
      by (simp only: option.case) (rule triple_put [OF frames_relies b], simp, simp, rule triple_spawn, simp, rule wait_initialized_ok)
  qed (auto intro: hoare_pre [OF wait_initialized_ok])
qed

lemma recoverAcceptedSession_ok: "hoare cfg i (coordinator_relies i) (\<lambda>_. True) (recoverAcceptedSession cfg d) (\<lambda>_ _. True)"
proof -
  have tail: "hoare cfg i (coordinator_relies i) (\<lambda>_. True) (after (fresh_id cfg) (\<lambda>i.
      let q = session_request d e i None op in
      after (ask_offscreen (RequestOffscreen q)) (\<lambda>r. after (response_value (checked_response q m1 m2 r)) (\<lambda>_. Get (\<lambda>s.
               if readySnapshot s d = None then Throw m3 else skip))))) (\<lambda>_ _. True)" for e op m1 m2 m3
    unfolding Let_def
  proof (rule triple_after [OF frames_relies hoare_fresh], rule triple_after [OF frames_relies hoare_ask])
    fix a s assume "\<exists>n. a = freshRequestId cfg n"
    then show "may_ask cfg s (RequestOffscreen (session_request d e a None op))" by (auto simp: session_request_def)
  next
    show "hoare cfg i (coordinator_relies i) (\<lambda>_. True) (after (response_value (checked_response q m1 m2 r)) (\<lambda>_. Get (\<lambda>s.
               if readySnapshot s d = None then Throw m3 else skip))) (\<lambda>_ _. True)" for q r
      by (rule triple_after [OF frames_relies hoare_response [OF frames_relies]], rule hoare_get)
        (auto intro!: triple_throw hoare_skip frames_relies)
  qed
  show ?thesis
    unfolding recoverAcceptedSession_def
  proof (rule triple_after [OF frames_relies hoare_ask], simp, rule hoare_get)
    fix s
    show "hoare cfg i (coordinator_relies i) (\<lambda>_. True) (case oget (latestHellos s) (descriptor_route d) of
         None \<Rightarrow> Throw ''Offscreen runtime did not provide an authoritative hello for accepted-session recovery''
       | Some h \<Rightarrow>
           if \<not> helloMatchesDescriptor h d
           then Throw ''Offscreen runtime did not provide an authoritative hello for accepted-session recovery''
           else
             let op = (case find (\<lambda>c. cursorSessionId c = dSession d) (recoverySessions h) of
                         Some c \<Rightarrow> Attach None (Some (cursorRevision c)) (Some (cursorEventSeq c)) | None \<Rightarrow> Load) in
             after (fresh_id cfg) (\<lambda>i.
             let q = session_request d (runtimeEpoch h) i None op in
             after (ask_offscreen (RequestOffscreen q)) (\<lambda>r.
             after (response_value (checked_response q
                 ''Offscreen runtime returned a malformed accepted-session recovery response''
                 ''Offscreen runtime recovery response identity mismatch: '' r)) (\<lambda>_. Get (\<lambda>s.
               if readySnapshot s d = None
               then Throw ''Offscreen runtime recovery completed without an exact session snapshot'' else skip))))) (\<lambda>_ _. True)"
      unfolding Let_def [of "case find _ _ of Some c \<Rightarrow> _ c | None \<Rightarrow> _"]
      by (cases "oget (latestHellos s) (descriptor_route d)") (simp_all only: option.case, rule triple_throw [OF frames_relies],
          rule triple_if, rule triple_throw [OF frames_relies], rule tail)
  qed
qed


lemma claimed_lasting [stables, simp]: "lasting (stays i T) (\<lambda>s. claimed s n i)" "lasting (coordinator_relies i) (\<lambda>s. claimed s n i)"
  by (auto simp: lasting_def stays_def coordinator_relies_def)

lemma initialised_lasting [stables, simp]: "lasting (stays i T) initialised" "lasting (coordinator_relies i) initialised"
  by (auto simp: lasting_def stays_def coordinator_relies_def evolves_def)

lemma claimed_not_initialised: "claimed s n i \<Longrightarrow> \<not> initialised s"
  by (auto simp: claimed_def initialised_def)

lemma bound_well_new: "validConnectionDescriptor d \<Longrightarrow> bound_well (descriptor_route d) \<lparr>accDescriptor = d, accFingerprint = fingerprint_of d\<rparr>"
  by (simp add: bound_well_def)

lemma hoare_keep_stays: "hoare cfg i (coordinator_relies i) (\<lambda>_. True) p Q \<Longrightarrow> lasting (stays i T) P \<Longrightarrow> hoare cfg i (stays i T) P p (\<lambda>_. P)"
  by (rule hoare_lift, rule hoare_keep [OF hoare_weak]) (simp_all add: lasting_relies)

lemma restore_descriptors_ok: "hoare cfg i (stays i UNIV) (\<lambda>s. claimed s n i) (restore_descriptors ds) (\<lambda>_ s. claimed s n i)"
proof (induction ds rule: restore_descriptors.induct)
  case (3 d ds)
  have put: "hoare cfg i (stays i UNIV) (\<lambda>t. t = s \<and> claimed t n i) (Put (accept_descriptor (descriptor_route d) d s) (restore_descriptors ds))
      (\<lambda>_ s. claimed s n i)" if "validConnectionDescriptor d" "IH" "IH \<Longrightarrow> hoare cfg i (stays i UNIV) (\<lambda>s. claimed s n i) (restore_descriptors ds) (\<lambda>_ s. claimed s n i)" for s IH
  proof (rule triple_put [OF frames_stays _ that(3) [OF that(2)]])
    fix t h assume "keeps (coordinator_contract cfg) t h" "t = s \<and> claimed t n i"
    then show "keeps (coordinator_contract cfg) (accept_descriptor (descriptor_route d) d s) h
        \<and> guarantees (coordinator_contract cfg) i t (accept_descriptor (descriptor_route d) d s)
        \<and> stays i UNIV t (accept_descriptor (descriptor_route d) d s) \<and> claimed (accept_descriptor (descriptor_route d) d s) n i"
      using accept_step [of s h "descriptor_route d" d i] bound_well_new [OF that(1)] claimed_not_initialised [of s n i]
      by (auto simp: stays_def)
  qed
  show ?case
    by (simp only: restore_descriptors.simps, rule triple_if, rule triple_throw [OF frames_stays], rule triple_get, rule triple_if,
        rule triple_throw [OF frames_stays], unfold accept_descriptor_def [symmetric], rule put [where IH = True])
      (use 3 in \<open>simp_all add: accept_descriptor_def\<close>)
qed (auto simp: skip_def intro: triple_ret [OF frames_stays] triple_throw [OF frames_stays])

lemma load_checkpoint_ok: "hoare cfg i (coordinator_relies i) (\<lambda>_. True) load_checkpoint (\<lambda>_ _. True)"
  unfolding load_checkpoint_def
  by (rule hoare_await [OF frames_relies]) (auto split: coordinator_answer.split option.split intro!: triple_ret triple_throw frames_relies)

lemma initialize_body_ok: "hoare cfg i (stays i UNIV) (\<lambda>s. claimed s n i) (initialize_body cfg) (\<lambda>_ s. claimed s n i)"
proof -
  let ?P = "\<lambda>s. claimed s n i"
  have recover: "hoare cfg i (stays i UNIV) ?P (each (\<lambda>d. rescue (recoverAcceptedSession cfg d) (\<lambda>_. report ''accepted-session-recovery''))
          ds) (\<lambda>_. ?P)" for ds
    by (rule triple_each [OF frames_stays], rule hoare_keep_stays [where Q = "\<lambda>_ _. True"],
        rule triple_rescue [OF frames_relies recoverAcceptedSession_ok])
      (simp_all add: hoare_weak [OF hoare_report [OF frames_relies]])
  have tail: "hoare cfg i (stays i UNIV) ?P (after load_checkpoint (\<lambda>checkpoint. after (ask_offscreen (InitOffscreen checkpoint)) (\<lambda>_. Get (\<lambda>s.
        each (\<lambda>d. rescue (recoverAcceptedSession cfg d) (\<lambda>_. report ''accepted-session-recovery'')) (getAcceptedDescriptors s))))) (\<lambda>_. ?P)"
    by (rule triple_after [OF frames_stays hoare_keep_stays [OF load_checkpoint_ok]], simp,
        rule triple_after [OF frames_stays hoare_keep_stays [OF hoare_ask]], simp, simp, rule hoare_get, rule recover)
  have rest: "hoare cfg i (stays i UNIV) ?P (andThen (restore_descriptors ds) (after load_checkpoint (\<lambda>checkpoint. after (ask_offscreen (InitOffscreen checkpoint)) (\<lambda>_. Get (\<lambda>s.
        each (\<lambda>d. rescue (recoverAcceptedSession cfg d) (\<lambda>_. report ''accepted-session-recovery'')) (getAcceptedDescriptors s)))))) (\<lambda>_. ?P)" for ds
    by (rule triple_andThen [OF frames_stays restore_descriptors_ok tail])
  have mid: "hoare cfg i (stays i UNIV) ?P (case w of FailedWith e \<Rightarrow> Throw e | _ \<Rightarrow> andThen (restore_descriptors (case w of Descriptors ds \<Rightarrow> ds | _ \<Rightarrow> []))
     (after load_checkpoint (\<lambda>checkpoint. after (ask_offscreen (InitOffscreen checkpoint)) (\<lambda>_. Get (\<lambda>s.
        each (\<lambda>d. rescue (recoverAcceptedSession cfg d) (\<lambda>_. report ''accepted-session-recovery'')) (getAcceptedDescriptors s)))))) (\<lambda>_. ?P)" for w
    by (cases w) (simp_all only: coordinator_answer.case rest triple_throw [OF frames_stays])
  have start: "hoare cfg i (stays i UNIV) ?P (case v of FailedWith e \<Rightarrow> Throw e | _ \<Rightarrow> after (await StoredDescriptors) (\<lambda>w. case w of FailedWith e \<Rightarrow> Throw e
     | _ \<Rightarrow> andThen (restore_descriptors (case w of Descriptors ds \<Rightarrow> ds | _ \<Rightarrow> []))
     (after load_checkpoint (\<lambda>checkpoint. after (ask_offscreen (InitOffscreen checkpoint)) (\<lambda>_. Get (\<lambda>s.
        each (\<lambda>d. rescue (recoverAcceptedSession cfg d) (\<lambda>_. report ''accepted-session-recovery'')) (getAcceptedDescriptors s))))))) (\<lambda>_. ?P)" for v
    by (cases v; simp only: coordinator_answer.case, rule hoare_await [OF frames_stays mid] triple_throw [OF frames_stays]) simp_all
  show ?thesis
    unfolding initialize_body_def by (rule hoare_await [OF frames_stays start]) simp
qed

text \<open>The frame of a whole job.\<close>

definition any_frame :: "coordinator \<Rightarrow> coordinator \<Rightarrow> bool" where
  "any_frame s t \<longleftrightarrow> True"

lemma frames_any: "frames (coordinator_contract cfg) i any_frame"
  by (auto simp: frames_def any_frame_def intro!: reflpI transpI)

lemma hoare_any: "hoare cfg i R P p Q \<Longrightarrow> hoare cfg i any_frame P p (\<lambda>_ _. True)"
  by (erule triple_conseq) (simp_all add: any_frame_def)

lemma hoare_job: "hoare cfg i any_frame (\<lambda>_. True) p Q \<Longrightarrow> coordinator_keeps s h
    \<Longrightarrow> sat (coordinator_contract cfg) i p (\<lambda>_. coordinator_keeps) (\<lambda>_. coordinator_keeps) s h"
  by (drule tripleD [where s = s and h = h]) (auto elim: sat_mono)

lemma initialize_job_ok: "hoare cfg i any_frame (\<lambda>_. True) (initialize_job cfg i n) (\<lambda>_ _. True)"
proof (rule tripleI)
  fix s h assume k: "keeps (coordinator_contract cfg) s h"
  let ?C = "coordinator_contract cfg"
  let ?K = "\<lambda>_ s' h'. coordinator_keeps s' h'"
  define t where "t = s\<lparr>initClaims := oset n i (initClaims s)\<rparr>"
  have claimed: "sat ?C i (rescue (andThen (initialize_body cfg) (change (\<lambda>s. s\<lparr>initResults := oset n (Inr ()) (initResults s)\<rparr>)))
       (\<lambda>e. change (\<lambda>s. s\<lparr>initResults := oset n (Inl e) (initResults s),
          initialization := (if initialization s = Some n then None else initialization s)\<rparr>))) ?K ?K t h" if "claimed t n i" "coordinator_keeps t h"
    unfolding sat_simps
  proof (rule sat_mono [OF tripleD [OF initialize_body_ok [where n = n]]])
    show "keeps ?C t h" "claimed t n i" using that by simp_all
    fix u g assume u: "keeps ?C u g \<and> stays i UNIV t u \<and> claimed u n i"
    then have "u\<lparr>initResults := oset n (Inr ()) (initResults u)\<rparr> = u\<lparr>initResults := oset n (Inr ()) (initResults u), initialization := Some n\<rparr>"
      by (cases u) (simp add: claimed_def)
    then show "guarantees ?C i u (u\<lparr>initResults := oset n (Inr ()) (initResults u)\<rparr>) \<and> coordinator_keeps (u\<lparr>initResults := oset n (Inr ()) (initResults u)\<rparr>) g"
      using settle_init_step [of u g n i _ "Inr ()"] u by simp
  next
    fix e u g assume "keeps ?C u g \<and> stays i UNIV t u"
    moreover from this that(1) have "claimed u n i" by (simp add: stays_def)
    ultimately show "guarantees ?C i u (u\<lparr>initResults := oset n (Inl e) (initResults u), initialization := (if initialization u = Some n then None else initialization u)\<rparr>)
      \<and> coordinator_keeps (u\<lparr>initResults := oset n (Inl e) (initResults u), initialization := (if initialization u = Some n then None else initialization u)\<rparr>) g"
      using settle_init_step [of u g n i _ "Inl e"] by (simp add: claimed_def)
  qed
  have "sat ?C i (initialize_job cfg i n) ?K ?K s h"
    using k claimed claim_step [OF _ _ _ t_def, of h] by (auto simp: initialize_job_def skip_def t_def [symmetric])
  then show "sat ?C i (initialize_job cfg i n) (\<lambda>_ s' h'. keeps ?C s' h' \<and> any_frame s s' \<and> True) (\<lambda>_ s' h'. keeps ?C s' h' \<and> any_frame s s') s h"
    by (simp add: any_frame_def)
qed

subsection \<open>Bindings are made and dropped under the lock of their route\<close>

lemma hoare_turn:
  assumes p: "hoare cfg i (stays i U) (\<lambda>s. P s \<and> turn_owner s t = Some i) p Q" and l: "lasting (coordinator_relies i) P"
    and U: "t \<in> U" "T \<subseteq> U" and T: "t \<notin> T"
  shows "hoare cfg i (stays i T) P (take_turn t p) (\<lambda>_ _. True)"
proof (rule tripleI)
  fix s h assume k: "keeps (coordinator_contract cfg) s h" "P s"
  let ?C = "coordinator_contract cfg"
  let ?G = "\<lambda>_ u' g'. keeps ?C u' g' \<and> stays i T s u'"
  have "sat ?C i (ensuring p (change (leave_turn t))) ?G ?G u g" if u: "keeps ?C u g" "coordinator_relies i s u" "turn_owner u t = Some i" for u g
  proof -
    from l k(2) u(2) have "P u" by (rule lastingD)
    have leave: "sat ?C i (change (leave_turn t)) ?G ?G v f" if "keeps ?C v f \<and> stays i U u v" for v f
    proof -
      have o: "turn_owner v t = Some i" using that u(3) U(1) by (simp add: stays_def)
      from that have v: "coordinator_keeps v f" by simp
      have "stays i T s u" by (rule relies_stays [OF u(2)])
      moreover have "stays i T u v" using that stays_mono U(2) by blast
      ultimately have "stays i T s v" by (rule framesD(2) [OF frames_stays])
      then show ?thesis using leave_step [OF v o T] framesD(2) [OF frames_stays] by (auto simp: sat_change)
    qed
    show ?thesis
      unfolding sat_ensuring by (rule sat_mono [OF tripleD [OF p u(1)]]) (use \<open>P u\<close> u(3) leave in auto)
  qed
  with k show "sat ?C i (take_turn t p) (\<lambda>a u' g'. keeps ?C u' g' \<and> stays i T s u' \<and> True) ?G s h"
    by (simp add: take_turn_def await_def)
qed

lemma hoare_enqueue: "lasting (coordinator_relies i) P \<Longrightarrow> hoare cfg i (coordinator_relies i) P (change (enqueue t j)) (\<lambda>_. P)"
  by (rule triple_change) (simp, metis lastingD enqueue_step)

lemma hoare_route_lock:
  assumes "hoare cfg i (stays i UNIV) (\<lambda>s. P s \<and> turn_owner s (RouteTurn key) = Some i) p Q" and "lasting (coordinator_relies i) P" and "RouteTurn key \<notin> T"
  shows "hoare cfg i (stays i T) P (withRouteLock i key p) (\<lambda>_ _. True)"
  unfolding withRouteLock_def
  by (rule triple_andThen [OF frames_stays hoare_lift [OF hoare_enqueue [OF assms(2)]] hoare_turn [OF assms(1,2) UNIV_I subset_UNIV assms(3)]])

lemma owner_lasting [stables, simp]: "lasting (coordinator_relies i) (\<lambda>s. turn_owner s t = Some i)" "lasting (stays i UNIV) (\<lambda>s. turn_owner s t = Some i)"
  by (auto simp: lasting_def coordinator_relies_def stays_def)

definition route_free :: "nat \<Rightarrow> string \<Rightarrow> coordinator \<Rightarrow> bool" where
  "route_free i key s \<longleftrightarrow> turn_owner s (RouteTurn key) = Some i \<and> free_route s key"

lemma route_free_lasting [stables, simp]: "lasting (coordinator_relies i) (route_free i key)"
  by (auto simp: lasting_def route_free_def coordinator_relies_def)

text \<open>A chain of updates that keeps the invariant and changes nothing another process relies on.\<close>

definition fine :: "coordinator \<Rightarrow> (coordinator \<times> coordinator_output) list \<Rightarrow> coordinator \<Rightarrow> bool" where
  "fine s h t \<longleftrightarrow> coordinator_keeps t h \<and> mild s t"

lemma fine_intros: "coordinator_keeps s h \<Longrightarrow> fine s h s" "fine s h t \<Longrightarrow> quiet t u \<Longrightarrow> fine s h u"
  "fine s h t \<Longrightarrow> fine s h (t\<lparr>acceptedDescriptors := odel k (acceptedDescriptors t)\<rparr>)"
  "fine s h t \<Longrightarrow> fine s h (t\<lparr>activeRoutes := odel k (activeRoutes t)\<rparr>)"
  unfolding fine_def using mild_trans [OF _ maps_mild(1)] mild_trans [OF _ maps_mild(2)] mild_trans [OF _ quiet_mild]
  by (auto simp: accepted_del_keeps active_del_keeps quiet_mild intro: quiet_keeps)

lemma hoare_fine: "(\<And>s h. coordinator_keeps s h \<Longrightarrow> P s \<Longrightarrow> fine s h (f s) \<and> Q (f s)) \<Longrightarrow> hoare cfg i (coordinator_relies i) P (change f) (\<lambda>_. Q)"
  by (rule triple_change) (simp add: fine_def mild_step)

lemma hoare_put_fine: "(\<And>h. coordinator_keeps s h \<Longrightarrow> fine s h t \<and> P t) \<Longrightarrow> hoare cfg i (coordinator_relies i) P p Q
    \<Longrightarrow> hoare cfg i (coordinator_relies i) (\<lambda>u. u = s) (Put t p) Q"
  by (rule triple_put [OF frames_relies, where P' = P]) (auto simp: fine_def dest: mild_step)

lemma drop_binding_fine: "coordinator_keeps s h \<Longrightarrow> fine s h ((rejectSessionReadyWaiters d err s)\<lparr>acceptedDescriptors :=
     odel key (acceptedDescriptors (rejectSessionReadyWaiters d err s))\<rparr>)"
  by (intro fine_intros(3) fine_intros(2) [OF fine_intros(1)] quiet_rejects)

definition forgotten :: "string \<Rightarrow> connection_descriptor \<Rightarrow> coordinator \<Rightarrow> coordinator" where
  "forgotten key d s0 = (let s1 = rejectSessionReadyWaiters d (''Agent runtime session '' @ dSession d @ '' was released before becoming ready'') s0;
           s2 = s1\<lparr>acceptedDescriptors := odel key (acceptedDescriptors s1), latestHellos := odel key (latestHellos s1),
                   latestSnapshots := odel (snapshotKey d) (latestSnapshots s1)\<rparr> in clearActivePageAuthorizationForRoute key None s2)"

lemma quiet_three: "quiet s (s\<lparr>latestHellos := a, latestSnapshots := b\<rparr>)"
  by (simp add: quiet_def)

lemma forgotten_fine: "coordinator_keeps s h \<Longrightarrow> fine s h (forgotten key d s)"
  unfolding forgotten_def Let_def
  by (rule fine_intros(2) [OF _ quiet_begin(5)], rule fine_intros(2) [OF drop_binding_fine quiet_three]) simp

lemma set_flag_fine:
  assumes k: "coordinator_keeps s h" and c: "oget (conns s) c \<noteq> None"
    and y: "y = (conn s c)\<lparr>connConnected := b\<rparr> \<or> y = (conn s c)\<lparr>connHellos := hs\<rparr>"
  shows "fine s h (set_conn c y s)"
proof -
  from c have o: "oget (conns s) c = Some (conn s c)" by (auto simp: conn_def)
  from y have f: "same_port (conn s c) y" "seqs_grow (conn s c) y" "connDescriptor y = connDescriptor (conn s c)" "connClosed y \<Longrightarrow> connClosed (conn s c)"
    by (auto simp: same_port_def seqs_grow_def)
  from set_conn_keeps [OF k o f(1,2)] f(3,4) set_conn_mild [OF o f(1,3)] show ?thesis unfolding fine_def by blast
qed

definition known_at :: "nat \<Rightarrow> coordinator \<Rightarrow> bool" where
  "known_at c s \<longleftrightarrow> oget (conns s) c \<noteq> None"

lemma known_at_lasting [stables, simp]: "lasting (coordinator_relies i) (known_at c)" "lasting (stays i T) (known_at c)"
  unfolding lasting_def known_at_def coordinator_relies_def stays_def evolves_def by (fastforce, fastforce)

lemma hoare_flag: "hoare cfg i (coordinator_relies i) (known_at c) (change (\<lambda>s. set_conn c ((conn s c)\<lparr>connConnected := b\<rparr>) s)) (\<lambda>_. known_at c)"
  by (rule hoare_fine) (auto simp: known_at_def intro!: set_flag_fine)

lemma hoare_close_true: "hoare cfg i (coordinator_relies i) P (closeConnection c b) (\<lambda>_ _. True)"
  by (rule hoare_true [OF hoare_weak [OF hoare_close_any]])


definition all_known :: "nat list \<Rightarrow> coordinator \<Rightarrow> bool" where
  "all_known cs s \<longleftrightarrow> (\<forall>c \<in> set cs. known_at c s)"

lemma all_known_lasting [stables, simp]: "lasting (coordinator_relies i) (all_known cs)"
  using known_at_lasting(1) unfolding all_known_def lasting_def by blast

lemma hoare_each_known:
  assumes "\<And>c. c \<in> set cs \<Longrightarrow> hoare cfg i (coordinator_relies i) (known_at c) (f c) (\<lambda>_ _. True)"
  shows "hoare cfg i (coordinator_relies i) (all_known cs) (each f cs) (\<lambda>_. all_known cs)"
proof (rule triple_each [OF frames_relies])
  fix c assume c: "c \<in> set cs"
  show "hoare cfg i (coordinator_relies i) (all_known cs) (f c) (\<lambda>_. all_known cs)"
    by (rule triple_conseq [OF hoare_frame [OF assms [OF c] all_known_lasting [where cs = cs]]]) (use c in \<open>auto simp: all_known_def\<close>)
qed

lemma ports_known: "coordinator_keeps s h \<Longrightarrow> set cs \<subseteq> set (ovals (connectionsByPort s)) \<Longrightarrow> all_known cs s"
  unfolding coordinator_keeps_def all_known_def known_at_def by blast

lemma hoare_binding_kept: "hoare cfg i (coordinator_relies i) P (after (await BindingPersisted) (\<lambda>w. case w of FailedWith e \<Rightarrow> Throw e | _ \<Rightarrow> skip)) (\<lambda>_ _. True)"
  by (rule hoare_true, rule hoare_await [OF frames_relies])
    (auto split: coordinator_answer.split simp: skip_def intro!: triple_ret triple_throw frames_relies)

lemma hoare_released: "hoare cfg i (coordinator_relies i) P (andThen (emit (DescriptorReleased d r)) p) Q"
  if "hoare cfg i (coordinator_relies i) P p Q"
  by (rule triple_andThen [OF frames_relies hoare_emit [OF frames_relies] that]) simp

lemma forget_eq: "forgetAcceptedDescriptor key d reason disconnect = Get (\<lambda>s0.
     if map_option accFingerprint (oget (acceptedDescriptors s0) key) \<noteq> Some (fingerprint_of d) then skip
     else Put ((forgotten key d s0)\<lparr>activeRoutes := odel key (activeRoutes (forgotten key d s0))\<rparr>)
       (andThen (each (\<lambda>c. andThen (change (\<lambda>s. set_conn c ((conn s c)\<lparr>connConnected := False\<rparr>) s))
            (if disconnect then closeConnection c True else skip))
            (filter (\<lambda>c. conn_route (conn (forgotten key d s0) c) = key) (ovals (connectionsByPort (forgotten key d s0)))))
       (andThen (emit (DescriptorReleased d reason))
         (after (await BindingPersisted) (\<lambda>w. case w of FailedWith e \<Rightarrow> Throw e | _ \<Rightarrow> skip)))))"
  unfolding forgetAcceptedDescriptor_def forgotten_def Let_def ..

lemma forgetAcceptedDescriptor_ok: "hoare cfg i (coordinator_relies i) (\<lambda>_. True) (forgetAcceptedDescriptor key d reason disconnect) (\<lambda>_ _. True)"
  unfolding forget_eq
proof (rule triple_get, rule triple_if)
  show "hoare cfg i (coordinator_relies i) (\<lambda>t. t = s \<and> True) skip (\<lambda>_ _. True)" for s
    by (rule hoare_weak [OF hoare_skip [OF frames_relies]])
next
  fix s
  define cs where "cs = filter (\<lambda>c. conn_route (conn (forgotten key d s) c) = key) (ovals (connectionsByPort (forgotten key d s)))"
  let ?f = "\<lambda>c. andThen (change (\<lambda>s. set_conn c ((conn s c)\<lparr>connConnected := False\<rparr>) s)) (if disconnect then closeConnection c True else skip)"
  have f: "hoare cfg i (coordinator_relies i) (known_at c) (?f c) (\<lambda>_ _. True)" for c
    by (rule triple_andThen [OF frames_relies hoare_flag])
      (auto intro: hoare_close_true hoare_weak [OF hoare_skip [OF frames_relies]])
  have k: "fine s h ((forgotten key d s)\<lparr>activeRoutes := odel key (activeRoutes (forgotten key d s))\<rparr>)
      \<and> all_known cs ((forgotten key d s)\<lparr>activeRoutes := odel key (activeRoutes (forgotten key d s))\<rparr>)" if "coordinator_keeps s h" for h
  proof
    show f: "fine s h ((forgotten key d s)\<lparr>activeRoutes := odel key (activeRoutes (forgotten key d s))\<rparr>)"
      by (rule fine_intros(4) [OF forgotten_fine [OF that]])
    show "all_known cs ((forgotten key d s)\<lparr>activeRoutes := odel key (activeRoutes (forgotten key d s))\<rparr>)"
      by (rule ports_known) (use f in \<open>auto simp: fine_def cs_def\<close>)
  qed
  show "hoare cfg i (coordinator_relies i) (\<lambda>t. t = s \<and> True) (Put ((forgotten key d s)\<lparr>activeRoutes := odel key (activeRoutes (forgotten key d s))\<rparr>)
       (andThen (each ?f (filter (\<lambda>c. conn_route (conn (forgotten key d s) c) = key) (ovals (connectionsByPort (forgotten key d s)))))
       (andThen (emit (DescriptorReleased d reason))
         (after (await BindingPersisted) (\<lambda>w. case w of FailedWith e \<Rightarrow> Throw e | _ \<Rightarrow> skip))))) (\<lambda>_ _. True)"
    unfolding cs_def [symmetric] simp_thms
    by (rule hoare_put_fine [where P = "all_known cs", OF k], assumption, rule triple_andThen [OF frames_relies hoare_each_known [OF f]],
        rule hoare_released, rule hoare_binding_kept)
qed

lemma hoare_bound: "(\<And>s. P s \<Longrightarrow> validConnectionDescriptor d \<and> route_free i (descriptor_route d) s) \<Longrightarrow> lasting (coordinator_relies i) P
    \<Longrightarrow> hoare cfg i (coordinator_relies i) P (bind_persisted d) (\<lambda>_. P)"
  unfolding bind_persisted_def
  by (rule triple_andThen [OF frames_relies hoare_emit_if [OF frames_relies]])
    (auto simp: route_free_def free_route_def skip_def split: coordinator_answer.split
      intro!: hoare_await triple_ret triple_throw frames_relies)

lemma hoare_accept: "hoare cfg i (stays i UNIV) (\<lambda>s. validConnectionDescriptor d \<and> turn_owner s (RouteTurn (descriptor_route d)) = Some i)
    (change (accept_descriptor (descriptor_route d) d)) (\<lambda>_ _. True)"
  by (rule triple_change) (simp, metis accept_step bound_well_new)

lemma bindSessionLocked_ok: "hoare cfg i (stays i UNIV) (\<lambda>s. (validConnectionDescriptor d \<and> initialised s) \<and> turn_owner s (RouteTurn (descriptor_route d)) = Some i)
    (bindSessionLocked (descriptor_route d) d) (\<lambda>_ _. True)"
  unfolding bindSessionLocked_def
proof (rule triple_get)
  fix s
  let ?key = "descriptor_route d"
  let ?P = "\<lambda>s. validConnectionDescriptor d \<and> route_free i ?key s"
  let ?undo = "\<lambda>e. andThen (change (\<lambda>s. let s1 = rejectSessionReadyWaiters d
                    (''Agent runtime session '' @ dSession d @ '' failed to bind before becoming ready'') s in
                    s1\<lparr>acceptedDescriptors := odel ?key (acceptedDescriptors s1)\<rparr>))
               (andThen (emit (DescriptorReleased d ''bind-failed''))
                 (after (await BindingPersisted) (\<lambda>w. case w of FailedWith e' \<Rightarrow> Throw e' | _ \<Rightarrow> Throw e)))"
  have undo: "hoare cfg i (coordinator_relies i) (\<lambda>_. True) (?undo e) (\<lambda>_ _. True)" for e
    unfolding Let_def
    by (rule triple_andThen [OF frames_relies hoare_fine [where Q = "\<lambda>_. True"]], simp add: drop_binding_fine, rule hoare_released,
        rule hoare_await [OF frames_relies]) (auto split: coordinator_answer.split intro: triple_throw frames_relies)
  have ask: "hoare cfg i (coordinator_relies i) (\<lambda>_. True) (rescue (after (ask_offscreen (ConnectOffscreen d)) route_reply) ?undo) (\<lambda>_ _. True)"
    by (rule triple_rescue [OF frames_relies triple_after [OF frames_relies hoare_ask route_reply_ok] _ undo]) simp_all
  have new: "hoare cfg i (stays i UNIV) ?P (andThen (bind_persisted d) (andThen (change (accept_descriptor ?key d))
      (rescue (after (ask_offscreen (ConnectOffscreen d)) route_reply) ?undo))) (\<lambda>_ _. True)"
    by (rule triple_andThen [OF frames_stays hoare_lift [OF hoare_bound]], simp, simp add: stables,
        rule triple_andThen [OF frames_stays hoare_pre [OF hoare_accept]], simp add: route_free_def, rule hoare_lift [OF ask])
  have pre: "?P t" if "oget (acceptedDescriptors s) ?key = None" "t = s \<and> (validConnectionDescriptor d \<and> initialised t) \<and> turn_owner t (RouteTurn ?key) = Some i" for t
    using that by (auto simp: route_free_def free_route_def)
  show "hoare cfg i (stays i UNIV) (\<lambda>t. t = s \<and> (validConnectionDescriptor d \<and> initialised t) \<and> turn_owner t (RouteTurn ?key) = Some i)
      (case oget (acceptedDescriptors s) ?key of
       Some a \<Rightarrow> if accFingerprint a \<noteq> fingerprint_of d then Throw ''Browser window is already bound to a different agent session'' else skip
     | None \<Rightarrow> andThen (bind_persisted d) (andThen (change (accept_descriptor ?key d))
         (rescue (after (ask_offscreen (ConnectOffscreen d)) route_reply) ?undo))) (\<lambda>_ _. True)"
  proof (cases "oget (acceptedDescriptors s) ?key")
    case None
    show ?thesis unfolding None option.case by (rule hoare_pre [OF new], rule pre [OF None])
  next
    case (Some a)
    show ?thesis unfolding Some option.case
      by (rule triple_if, rule triple_throw [OF frames_stays], rule hoare_weak [OF hoare_skip [OF frames_stays]])
  qed
qed

lemma ensureReleaseHello_ok: "hoare cfg i (coordinator_relies i) (\<lambda>_. True) (ensureReleaseHello key d) (\<lambda>_ _. True)"
  unfolding ensureReleaseHello_def
proof (rule triple_andThen [OF frames_relies hoare_weak [OF ensureInitialized_ok]], rule hoare_get)
  fix s
  have "hoare cfg i (coordinator_relies i) (\<lambda>_. True) (andThen (after (ask_offscreen (ConnectOffscreen d)) route_reply) (Get (\<lambda>s.
         case matching_hello s key d of Some h \<Rightarrow> Ret h | None \<Rightarrow> Throw no_release_hello))) (\<lambda>_ _. True)"
    by (rule triple_andThen [OF frames_relies triple_after [OF frames_relies hoare_ask route_reply_ok]], simp, rule hoare_get)
      (auto split: option.split intro: triple_ret triple_throw frames_relies)
  then show "hoare cfg i (coordinator_relies i) (\<lambda>_. True) (case matching_hello s key d of
       Some h \<Rightarrow> Ret h
     | None \<Rightarrow> andThen (after (ask_offscreen (ConnectOffscreen d)) route_reply) (Get (\<lambda>s.
         case matching_hello s key d of Some h \<Rightarrow> Ret h | None \<Rightarrow> Throw no_release_hello))) (\<lambda>_ _. True)"
    by (cases "matching_hello s key d") (simp_all add: hoare_ret_true [OF frames_relies])
qed

lemma releaseSessionLocked_ok: "hoare cfg i (coordinator_relies i) (\<lambda>_. True) (releaseSessionLocked cfg key d reason) (\<lambda>_ _. True)"
proof -
  have tail: "hoare cfg i (coordinator_relies i) (\<lambda>_. True) (after (fresh_id cfg) (\<lambda>i.
       let q = session_request d (runtimeEpoch h) i None (Release (Some True) (Some reason)) in
       after (ask_offscreen (RequestOffscreen q)) (\<lambda>r. after (response_value (checked_response q m1 m2 r)) (\<lambda>_.
       forgetAcceptedDescriptor key d reason True)))) (\<lambda>_ _. True)" for h :: hello_envelope and m1 m2
    unfolding Let_def
  proof (rule triple_after [OF frames_relies hoare_fresh], rule triple_after [OF frames_relies hoare_ask])
    fix a s assume "\<exists>n. a = freshRequestId cfg n"
    then show "may_ask cfg s (RequestOffscreen (session_request d (runtimeEpoch h) a None (Release (Some True) (Some reason))))"
      by (auto simp: session_request_def)
  next
    show "hoare cfg i (coordinator_relies i) (\<lambda>_. True) (after (response_value (checked_response q m1 m2 r)) (\<lambda>_.
       forgetAcceptedDescriptor key d reason True)) (\<lambda>_ _. True)" for q r
      by (rule triple_after [OF frames_relies hoare_response [OF frames_relies] forgetAcceptedDescriptor_ok])
  qed
  show ?thesis
    unfolding releaseSessionLocked_def
    by (rule hoare_get, rule triple_if, rule triple_throw [OF frames_relies], rule triple_after [OF frames_relies ensureReleaseHello_ok tail])
qed

subsection \<open>Messages of a port respect the contract\<close>

lemma hoare_get_keeps:
  assumes "\<And>s h. coordinator_keeps s h \<Longrightarrow> P s \<Longrightarrow> hoare cfg i R (\<lambda>t. t = s \<and> P t) (k s) Q"
  shows "hoare cfg i R P (Get k) Q"
proof (rule tripleI)
  fix s h assume k: "keeps (coordinator_contract cfg) s h" "P s"
  then have "hoare cfg i R (\<lambda>t. t = s \<and> P t) (k s) Q" by (intro assms [of s h]) simp_all
  from tripleD [OF this k(1)] k(2) show "sat (coordinator_contract cfg) i (Get k)
      (\<lambda>a s' h'. keeps (coordinator_contract cfg) s' h' \<and> R s s' \<and> Q a s') (\<lambda>_ s' h'. keeps (coordinator_contract cfg) s' h' \<and> R s s') s h"
    by simp
qed

definition routed :: "nat \<Rightarrow> string \<Rightarrow> coordinator \<Rightarrow> bool" where
  "routed c key s \<longleftrightarrow> known_conn c key s \<and> oget (activeRoutes s) key = Some c"

lemma routed_active: "routed c key s \<Longrightarrow> isActive s c"
  by (simp add: routed_def known_conn_def isActive_def)

lemma known_conn_at: "known_conn c key s \<Longrightarrow> known_at c s"
  by (simp add: known_conn_def known_at_def)

lemma hoare_post_any: "hoare cfg i (coordinator_relies i) P (post c (PortRefused e)) (\<lambda>_ _. True)"
  "hoare cfg i (coordinator_relies i) P (rejectRequest c q e) (\<lambda>_ _. True)"
  unfolding post_def rejectRequest_def
  by (rule triple_after [OF frames_relies hoare_post]; simp add: reaches_def skip_def triple_ret [OF frames_relies])+

lemma hoare_post_active: "(\<And>s. P s \<Longrightarrow> isActive s c) \<Longrightarrow> (\<And>e. m \<noteq> PortStream (SessionStream e)) \<Longrightarrow> hoare cfg i (coordinator_relies i) P (post c m) (\<lambda>_ _. True)"
  unfolding post_def
  by (rule triple_after [OF frames_relies hoare_post]; auto simp: reaches_def skip_def split: port_reply.split stream_envelope.split
      intro: triple_ret [OF frames_relies])

lemma still_routed_ok: "hoare cfg i (coordinator_relies i) (\<lambda>s. known_conn c key s \<and> known_option previous key s) (still_routed c key previous)
    (\<lambda>go s. (go \<longrightarrow> routed c key s) \<and> known_option previous key s)"
  unfolding still_routed_def Let_def
proof (rule hoare_fenced, simp add: stables, rule triple_get, rule triple_if)
  fix ok s
  let ?Q = "\<lambda>go s. (go \<longrightarrow> routed c key s) \<and> known_option previous key s"
  let ?P = "\<lambda>t. t = s \<and> (known_conn c key t \<and> known_option previous key t) \<and> (ok \<longrightarrow> open_conn_at c t)"
  show "hoare cfg i (coordinator_relies i) ?P (Ret True) ?Q" if "ok \<and> oget (activeRoutes s) key = Some c"
    by (rule triple_ret [OF frames_relies]) (use that in \<open>auto simp: routed_def\<close>)
  have f: "hoare cfg i (coordinator_relies i) (\<lambda>s. known_option previous key s \<and> known_option previous key s) (restoreActiveRoute key previous)
      (\<lambda>_ s. True \<and> known_option previous key s)"
    by (rule hoare_frame [OF hoare_restore]) simp
  have r: "hoare cfg i (coordinator_relies i) (known_option previous key) (if oget (activeRoutes s) key = Some c then restoreActiveRoute key previous else skip)
      (\<lambda>_. known_option previous key)"
    by (rule triple_if, rule triple_conseq [OF f]) (auto intro: hoare_skip [OF frames_relies])
  show "hoare cfg i (coordinator_relies i) ?P (andThen (if oget (activeRoutes s) key = Some c then restoreActiveRoute key previous else skip) (Ret False)) ?Q"
    by (rule triple_andThen [OF frames_relies hoare_pre [OF r]]) (auto intro: triple_ret [OF frames_relies])
qed

lemma mark_ok: "hoare cfg i (coordinator_relies i) (routed c key) (change (mark_connected c)) (\<lambda>_. routed c key)"
  by (rule hoare_fine) (auto simp: mark_connected_def routed_def known_conn_def conn_route_def intro!: set_flag_fine)

lemma hoare_connected:
  assumes "hoare cfg i (coordinator_relies i) (routed c key) p Q"
  shows "hoare cfg i (coordinator_relies i) (\<lambda>s. routed c key s \<and> known_option previous key s)
    (andThen (change (mark_connected c)) (after (safePost c PortConnected) (\<lambda>posted. if \<not> posted then restoreActiveRoute key previous else p))) (\<lambda>_ _. True)"
proof (rule triple_andThen [OF frames_relies hoare_frame [OF mark_ok known_option_lasting(1)]],
    rule triple_after [OF frames_relies hoare_frame [OF hoare_post known_option_lasting(1)]])
  show "reaches s c PortConnected" if "routed c key s" for s
    using routed_active [OF that] by (simp add: reaches_def)
  show "hoare cfg i (coordinator_relies i) (\<lambda>s. (posted \<longrightarrow> routed c key s) \<and> known_option previous key s)
      (if \<not> posted then restoreActiveRoute key previous else p) (\<lambda>_ _. True)" for posted
    by (cases posted) (auto intro: hoare_pre [OF hoare_restore] hoare_pre [OF hoare_weak [OF assms]])
qed

lemma close_previous_ok: "hoare cfg i (coordinator_relies i) P (close_previous c previous) (\<lambda>_ _. True)"
  unfolding close_previous_def by (cases previous) (auto intro: hoare_close_true hoare_weak [OF hoare_skip [OF frames_relies]])

lemma connect_accepted_ok: "hoare cfg i (coordinator_relies i) (\<lambda>s. routed c key s \<and> known_option previous key s)
    (connect_accepted c key d previous) (\<lambda>_ _. True)"
  unfolding connect_accepted_def
proof (rule hoare_get)
  fix s
  let ?P = "\<lambda>s. routed c key s \<and> known_option previous key s"
  let ?M = "\<lambda>go s. (go \<longrightarrow> routed c key s) \<and> known_option previous key s"
  let ?hello = "Get (\<lambda>s. case matching_hello s key d of None \<Rightarrow> skip
           | Some h \<Rightarrow> andThen (change (\<lambda>s. set_conn c ((conn s c)\<lparr>connHellos := connHellos (conn s c) @ [runtimeEpoch h]\<rparr>) s))
               (post c (PortStream (Hello h))))"
  have k: "lasting (coordinator_relies i) (\<lambda>s. known_conn c key s \<and> known_option previous key s)" by (simp add: stables)
  have first: "hoare cfg i (coordinator_relies i) ?P (if oget (latestHellos s) key = None
            then after (ask_offscreen (ConnectOffscreen d)) (\<lambda>_. still_routed c key previous) else Ret True) ?M"
    by (rule triple_if, rule hoare_pre [OF triple_after [OF frames_relies hoare_asked [OF k] still_routed_ok]])
      (auto simp: routed_def intro: triple_ret [OF frames_relies])
  have h: "hoare cfg i (coordinator_relies i) (routed c key) (change (\<lambda>s. set_conn c ((conn s c)\<lparr>connHellos := f s\<rparr>) s)) (\<lambda>_. routed c key)" for f
    by (rule hoare_fine) (auto simp: routed_def known_conn_def conn_route_def intro!: set_flag_fine)
  have hello: "hoare cfg i (coordinator_relies i) (routed c key) ?hello (\<lambda>_ _. True)"
    by (rule hoare_get) (auto split: option.split intro: routed_active
        intro!: hoare_weak [OF hoare_skip [OF frames_relies]] triple_andThen [OF frames_relies h] hoare_post_active)
  have rest: "hoare cfg i (coordinator_relies i) (?M go) (if \<not> go then skip else
       andThen (change (mark_connected c)) (after (safePost c PortConnected) (\<lambda>posted.
         if \<not> posted then restoreActiveRoute key previous else andThen ?hello (close_previous c previous)))) (\<lambda>_ _. True)" for go
  proof (cases go)
    case True
    from hoare_connected [OF triple_andThen [OF frames_relies hello close_previous_ok]] show ?thesis by (simp add: True)
  qed (simp add: hoare_weak [OF hoare_skip [OF frames_relies]])
  show "hoare cfg i (coordinator_relies i) ?P (after (if oget (latestHellos s) key = None
            then after (ask_offscreen (ConnectOffscreen d)) (\<lambda>_. still_routed c key previous) else Ret True)
     (\<lambda>go. if \<not> go then skip else
       andThen (change (mark_connected c)) (after (safePost c PortConnected) (\<lambda>posted.
         if \<not> posted then restoreActiveRoute key previous else andThen ?hello (close_previous c previous))))) (\<lambda>_ _. True)"
    by (rule triple_after [OF frames_relies first rest])
qed


lemma hoare_keeping: "hoare cfg i R P p Q \<Longrightarrow> lasting R F \<Longrightarrow> (\<And>s. P' s \<Longrightarrow> P s \<and> F s) \<Longrightarrow> hoare cfg i R P' p (\<lambda>_. F)"
  by (rule triple_conseq [OF hoare_frame [of "coordinator_contract cfg" i R P p Q F]]) auto

lemma conn_well_None: "conn_well (x\<lparr>connDescriptor := None, connFingerprint := f\<rparr>)"
  by (simp add: conn_well_def)

lemma forget_descriptor_ok: "hoare cfg i (stays i UNIV) (\<lambda>s. known_at c s \<and> turn_owner s (PortTurn c) = Some i) (change (forget_descriptor c)) (\<lambda>_ _. True)"
proof (rule triple_change)
  fix s h assume k: "keeps (coordinator_contract cfg) s h" and p: "known_at c s \<and> turn_owner s (PortTurn c) = Some i"
  from p have "oget (conns s) c = Some (conn s c)" by (auto simp: known_at_def conn_def)
  with k p descriptor_step [of s h c i _ _ None None, OF _ _ _ refl] conn_well_None
  show "keeps (coordinator_contract cfg) (forget_descriptor c s) h \<and> guarantees (coordinator_contract cfg) i s (forget_descriptor c s)
      \<and> stays i UNIV s (forget_descriptor c s) \<and> True" by (simp add: forget_descriptor_def)
qed

lemma refuse_ok: "hoare cfg i (stays i UNIV) (\<lambda>s. known_at c s \<and> turn_owner s (PortTurn c) = Some i)
    (andThen (change (forget_descriptor c)) (post c (PortRefused e))) (\<lambda>_ _. True)"
  by (rule triple_andThen [OF frames_stays forget_descriptor_ok hoare_lift [OF hoare_post_any(1)]])

lemma announce_ready_ok: "hoare cfg i (coordinator_relies i) P (announce_ready d) (\<lambda>_ _. True)"
proof (rule hoare_true)
  have "hoare cfg i (coordinator_relies i) (\<lambda>t. t = s) (Put (resolveSessionReadyWaiters d e s) (notifySessionReadiness d True)) (\<lambda>_ _. True)" for s e
    by (rule hoare_put_quiet [OF quiet_resolve hoare_weak [OF hoare_notify [OF frames_relies]]])
  then show "hoare cfg i (coordinator_relies i) (\<lambda>_. True) (announce_ready d) (\<lambda>_ _. True)"
    unfolding announce_ready_def by (intro triple_get) (auto split: option.split intro: hoare_weak [OF hoare_skip [OF frames_relies]])
qed

lemma connect_new_ok:
  assumes d: "validConnectionDescriptor d" and key: "key = descriptor_route d"
  shows "hoare cfg i (stays i UNIV) (\<lambda>s. (known_conn c key s \<and> known_option previous key s) \<and> turn_owner s (PortTurn c) = Some i \<and> route_free i key s)
    (connect_new c key d previous) (\<lambda>_ _. True)"
  unfolding connect_new_def
proof (rule triple_rescue [OF frames_stays])
  let ?K = "\<lambda>s. known_conn c key s \<and> known_option previous key s"
  let ?P = "\<lambda>s. ?K s \<and> route_free i key s"
  let ?finish = "andThen (change (mark_connected c)) (after (safePost c PortConnected) (\<lambda>posted.
             if \<not> posted then restoreActiveRoute key previous else close_previous c previous))"
  have kl: "lasting (coordinator_relies i) ?K" "lasting (stays i UNIV) ?K" by (simp_all add: stables)
  have last: "hoare cfg i (stays i UNIV) ?K (after (still_routed c key previous) (\<lambda>go. if \<not> go then skip else ?finish)) (\<lambda>_ _. True)"
  proof (rule hoare_lift, rule triple_after [OF frames_relies still_routed_ok])
    show "hoare cfg i (coordinator_relies i) (\<lambda>s. (go \<longrightarrow> routed c key s) \<and> known_option previous key s) (if \<not> go then skip else ?finish) (\<lambda>_ _. True)" for go
      using hoare_connected [OF close_previous_ok] by (cases go) (simp_all add: hoare_weak [OF hoare_skip [OF frames_relies]])
  qed
  have accepted: "hoare cfg i (stays i UNIV) ?P (andThen (change (accept_descriptor key d)) (andThen (announce_ready d)
      (after (still_routed c key previous) (\<lambda>go. if \<not> go then skip else ?finish)))) (\<lambda>_ _. True)"
  proof (rule triple_andThen [OF frames_stays hoare_keeping [OF hoare_accept [of cfg i d, folded key] kl(2)]])
    show "(validConnectionDescriptor d \<and> turn_owner s (RouteTurn key) = Some i) \<and> ?K s" if "?P s" for s
      using that d by (simp add: route_free_def)
    show "hoare cfg i (stays i UNIV) ?K (andThen (announce_ready d) (after (still_routed c key previous) (\<lambda>go. if \<not> go then skip else ?finish))) (\<lambda>_ _. True)"
      by (rule triple_andThen [OF frames_stays hoare_keep_stays [OF announce_ready_ok kl(2)] last])
  qed
  have routed: "hoare cfg i (stays i UNIV) ?P (after (still_routed c key previous) (\<lambda>go. if \<not> go then skip else
      andThen (bind_persisted d) (andThen (change (accept_descriptor key d)) (andThen (announce_ready d)
        (after (still_routed c key previous) (\<lambda>go. if \<not> go then skip else ?finish)))))) (\<lambda>_ _. True)"
  proof (rule triple_after [OF frames_stays hoare_lift [OF hoare_keeping [OF still_routed_ok]]])
    show "lasting (coordinator_relies i) ?P" by (simp add: stables)
    show "hoare cfg i (stays i UNIV) ?P (if \<not> go then skip else andThen (bind_persisted d) (andThen (change (accept_descriptor key d))
        (andThen (announce_ready d) (after (still_routed c key previous) (\<lambda>go. if \<not> go then skip else ?finish))))) (\<lambda>_ _. True)" for go
      by (rule triple_if, rule hoare_weak [OF hoare_skip [OF frames_stays]],
          rule triple_andThen [OF frames_stays hoare_lift [OF hoare_bound] accepted]) (use d key in \<open>simp_all add: stables\<close>)
  qed simp_all
  show "hoare cfg i (stays i UNIV) (\<lambda>s. ?K s \<and> turn_owner s (PortTurn c) = Some i \<and> route_free i key s)
      (after (ask_offscreen (ConnectOffscreen d)) (\<lambda>_. after (still_routed c key previous) (\<lambda>go. if \<not> go then skip else
        andThen (bind_persisted d) (andThen (change (accept_descriptor key d)) (andThen (announce_ready d)
        (after (still_routed c key previous) (\<lambda>go. if \<not> go then skip else ?finish))))))) (\<lambda>_ _. True)"
  proof (rule triple_after [OF frames_stays hoare_lift [OF hoare_pre [OF hoare_asked [of i ?P]]] routed])
    show "lasting (coordinator_relies i) ?P" by (simp add: stables)
  qed simp_all
  let ?H = "\<lambda>s. ?K s \<and> turn_owner s (PortTurn c) = Some i"
  have hl: "lasting (stays i UNIV) ?H" by (simp add: stables)
  show "?H t" if "?K s \<and> turn_owner s (PortTurn c) = Some i \<and> route_free i key s" "stays i UNIV s t" for s t
    using lastingD [OF hl _ that(2)] that(1) by blast
  have restore: "hoare cfg i (coordinator_relies i) (known_option previous key) (Get (\<lambda>s. if oget (activeRoutes s) key = Some c then restoreActiveRoute key previous else skip)) (\<lambda>_ _. True)"
    by (rule hoare_get, rule triple_if [OF hoare_restore hoare_weak [OF hoare_skip [OF frames_relies]]])
  show "hoare cfg i (stays i UNIV) ?H (andThen (Get (\<lambda>s. if oget (activeRoutes s) key = Some c then restoreActiveRoute key previous else skip))
       (andThen (change (forget_descriptor c)) (post c (PortRefused (''Could not connect to the offscreen runtime: '' @ e))))) (\<lambda>_ _. True)" for e
  proof (rule triple_andThen [OF frames_stays hoare_keeping [OF hoare_lift [OF restore] hl]])
    show "hoare cfg i (stays i UNIV) ?H (andThen (change (forget_descriptor c)) (post c (PortRefused (''Could not connect to the offscreen runtime: '' @ e)))) (\<lambda>_ _. True)"
      by (rule hoare_pre [OF refuse_ok]) (auto intro: known_conn_at)
  qed simp_all
qed


definition superseded :: "coordinator \<Rightarrow> nat \<Rightarrow> nat option \<Rightarrow> bool" where
  "superseded s c active \<longleftrightarrow> (case active of Some p \<Rightarrow> p \<noteq> c \<and> leaseLease (connLease (conn s p)) \<noteq> leaseLease (connLease (conn s c)) | None \<Rightarrow> False)"

lemma connect_locked_ok:
  assumes d: "validConnectionDescriptor d" and key: "key = descriptor_route d"
  shows "hoare cfg i (stays i UNIV) (\<lambda>s. (known_conn c key s \<and> turn_owner s (PortTurn c) = Some i) \<and> turn_owner s (RouteTurn key) = Some i)
    (connect_locked c key d) (\<lambda>_ _. True)"
proof -
  let ?P = "\<lambda>s. (known_conn c key s \<and> turn_owner s (PortTurn c) = Some i) \<and> turn_owner s (RouteTurn key) = Some i"
  let ?I = "\<lambda>s. ?P s \<and> initialised s"
  let ?O = "\<lambda>s. ?I s \<and> open_conn_at c s"
  have pl: "lasting (coordinator_relies i) ?P" "lasting (stays i UNIV) ?P" "lasting (coordinator_relies i) ?I" by (simp_all add: stables)
  let ?bind = "\<lambda>previous. Get (\<lambda>s. case oget (acceptedDescriptors s) key of
           Some a \<Rightarrow>
             if accFingerprint a \<noteq> fingerprint_of d
             then andThen (change (forget_descriptor c)) (post c (PortRefused ''Runtime route is owned by a different agent session''))
             else Put (s\<lparr>activeRoutes := oset key c (activeRoutes s)\<rparr>) (connect_accepted c key d previous)
         | None \<Rightarrow> Put (s\<lparr>activeRoutes := oset key c (activeRoutes s)\<rparr>) (connect_new c key d previous))"
  have route: "hoare cfg i (stays i UNIV) (\<lambda>t. t = s \<and> (?O t \<and> known_option previous key t)) (Put (s\<lparr>activeRoutes := oset key c (activeRoutes s)\<rparr>) p) (\<lambda>_ _. True)"
    if p: "hoare cfg i (stays i UNIV) (\<lambda>s. (routed c key s \<and> known_option previous key s) \<and> turn_owner s (PortTurn c) = Some i
        \<and> turn_owner s (RouteTurn key) = Some i \<and> initialised s \<and> acceptedDescriptors s = a) p (\<lambda>_ _. True)"
      and a: "acceptedDescriptors s = a" for s p a previous
  proof (rule triple_put [OF frames_stays _ p])
    let ?t = "s\<lparr>activeRoutes := oset key c (activeRoutes s)\<rparr>"
    fix t h assume k: "keeps (coordinator_contract cfg) t h" and t: "t = s \<and> (?O t \<and> known_option previous key t)"
    then have o: "open_on s key c" using open_known by blast
    have m: "coordinator_guarantees i s ?t" "coordinator_relies i s ?t" using mild_step [OF maps_mild(1)] by blast+
    have "turn_owner ?t q = turn_owner s q" for q by (simp add: turn_owner_def)
    with k t a o m show "keeps (coordinator_contract cfg) ?t h \<and> guarantees (coordinator_contract cfg) i t ?t \<and> stays i UNIV t ?t
      \<and> (routed c key ?t \<and> known_option previous key ?t) \<and> turn_owner ?t (PortTurn c) = Some i
        \<and> turn_owner ?t (RouteTurn key) = Some i \<and> initialised ?t \<and> acceptedDescriptors ?t = a"
      by (auto simp: active_set_keeps routed_def known_conn_def known_option_def initialised_def intro: relies_stays)
  qed
  have bind: "hoare cfg i (stays i UNIV) (\<lambda>s. ?O s \<and> known_option previous key s) (?bind previous) (\<lambda>_ _. True)" for previous
  proof (rule triple_get)
    fix s
    let ?pre = "\<lambda>t. t = s \<and> (?O t \<and> known_option previous key t)"
    show "hoare cfg i (stays i UNIV) ?pre (case oget (acceptedDescriptors s) key of
           Some a \<Rightarrow>
             if accFingerprint a \<noteq> fingerprint_of d
             then andThen (change (forget_descriptor c)) (post c (PortRefused ''Runtime route is owned by a different agent session''))
             else Put (s\<lparr>activeRoutes := oset key c (activeRoutes s)\<rparr>) (connect_accepted c key d previous)
         | None \<Rightarrow> Put (s\<lparr>activeRoutes := oset key c (activeRoutes s)\<rparr>) (connect_new c key d previous)) (\<lambda>_ _. True)"
    proof (cases "oget (acceptedDescriptors s) key")
      case (Some a)
      show ?thesis unfolding Some option.case
        by (rule triple_if, rule hoare_pre [OF refuse_ok], use known_conn_at in blast, rule route [OF hoare_lift [OF hoare_pre [OF connect_accepted_ok]] refl]) simp
    next
      case None
      show ?thesis unfolding None option.case
        by (rule route [OF hoare_pre [OF connect_new_ok [OF d key]] refl])
          (use None in \<open>auto simp: routed_def route_free_def free_route_def\<close>)
    qed
  qed
  have fenced: "hoare cfg i (stays i UNIV) ?O (Get (\<lambda>s.
       let active = oget (activeRoutes s) key;
           superseded = (case active of Some p \<Rightarrow> p \<noteq> c \<and> leaseLease (connLease (conn s p)) \<noteq> leaseLease (connLease (conn s c)) | None \<Rightarrow> False);
           previous = (if superseded then None else active) in
       andThen (if superseded then closeConnection (the active) True else skip) (?bind previous))) (\<lambda>_ _. True)"
    unfolding superseded_def [symmetric] Let_def
  proof (rule hoare_get_keeps)
    fix s h assume k: "coordinator_keeps s h" and p: "?O s"
    let ?a = "oget (activeRoutes s) key"
    let ?previous = "if superseded s c ?a then None else ?a"
    have prev: "known_option ?previous key s" using active_known [OF k] by (simp add: known_option_def)
    have close: "hoare cfg i (coordinator_relies i) ?O (closeConnection q b) (\<lambda>_. ?O)" if "q \<noteq> c" for q b
    proof (rule hoare_close)
      fix t g assume t: "?O t" "\<not> connClosed (conn t q)" "coordinator_keeps t g"
      have "?I (close_connection q t)"
        using lastingD [OF pl(3) _ conjunct2 [OF mild_step [OF conjunct2 [OF close_step [OF t(3,2)]]]]] t(1) by blast
      moreover have "disposed (close_connection q t) = disposed t" by (simp add: close_connection_eq drop_route_def)
      ultimately show "?O (close_connection q t)" using t(1) that by (simp add: open_conn_at_def close_conn)
    qed simp
    have first: "hoare cfg i (coordinator_relies i) (\<lambda>t. t = s \<and> ?O t) (if superseded s c ?a then closeConnection (the ?a) True else skip)
        (\<lambda>_ t. ?O t \<and> known_option ?previous key t)"
    proof (rule triple_if)
      assume a: "superseded s c ?a"
      then have "the ?a \<noteq> c" by (auto simp: superseded_def split: option.splits)
      note q = this
      show "hoare cfg i (coordinator_relies i) (\<lambda>t. t = s \<and> ?O t) (closeConnection (the ?a) True)
        (\<lambda>_ t. ?O t \<and> known_option ?previous key t)"
        by (rule triple_conseq [OF close [OF q]]) (use a in \<open>auto simp: known_option_def\<close>)
    next
      show "hoare cfg i (coordinator_relies i) (\<lambda>t. t = s \<and> ?O t) skip (\<lambda>_ t. ?O t \<and> known_option ?previous key t)"
        by (rule hoare_skip [OF frames_relies, THEN triple_conseq]) (use prev in auto)
    qed
    show "hoare cfg i (stays i UNIV) (\<lambda>t. t = s \<and> ?O t) (andThen (if superseded s c ?a then closeConnection (the ?a) True else skip) (?bind ?previous)) (\<lambda>_ _. True)"
      by (rule triple_andThen [OF frames_stays hoare_lift [OF first] bind])
  qed
  have gate: "hoare cfg i (stays i UNIV) F (after (fenceConnection c True) k) (\<lambda>_ _. True)"
    if "lasting (coordinator_relies i) F" "\<And>ok. hoare cfg i (stays i UNIV) (\<lambda>s. F s \<and> (ok \<longrightarrow> open_conn_at c s)) (k ok) (\<lambda>_ _. True)" for F k
    by (rule triple_after [OF frames_stays hoare_lift [OF hoare_pre [OF hoare_frame [OF hoare_fence that(1)]]]], simp)
      (rule hoare_pre [OF that(2)], simp)
  let ?init = "rescue (andThen ensureInitialized (Ret True))
         (\<lambda>e. andThen (change (forget_descriptor c)) (andThen (post c (PortRefused (''Could not initialize the offscreen runtime: '' @ e))) (Ret False)))"
  have init: "hoare cfg i (stays i UNIV) ?P ?init (\<lambda>ok s. ?P s \<and> (ok \<longrightarrow> initialised s))"
  proof (rule triple_rescue [OF frames_stays])
    show "hoare cfg i (stays i UNIV) ?P (andThen ensureInitialized (Ret True)) (\<lambda>ok s. ?P s \<and> (ok \<longrightarrow> initialised s))"
      by (rule triple_andThen [OF frames_stays hoare_lift [OF hoare_pre [OF hoare_frame [OF ensureInitialized_ok pl(1)]]] triple_ret [OF frames_stays]]) simp_all
    show "?P t" if "?P s" "stays i UNIV s t" for s t using lastingD [OF pl(2) that] .
    show "hoare cfg i (stays i UNIV) ?P (andThen (change (forget_descriptor c)) (andThen (post c (PortRefused (''Could not initialize the offscreen runtime: '' @ e))) (Ret False)))
        (\<lambda>ok s. ?P s \<and> (ok \<longrightarrow> initialised s))" for e
      by (rule triple_andThen [OF frames_stays hoare_keeping [OF forget_descriptor_ok pl(2)]], use known_conn_at in blast,
          rule triple_andThen [OF frames_stays hoare_lift [OF hoare_keeping [OF hoare_post_any(1) [where P = "\<lambda>_. True"] pl(1)]] triple_ret [OF frames_stays]]) simp_all
  qed
  show ?thesis
    unfolding connect_locked_def
  proof (rule gate [OF pl(1)], rule triple_if)
    show "hoare cfg i (stays i UNIV) F skip (\<lambda>_ _. True)" for F by (rule hoare_weak [OF hoare_skip [OF frames_stays]])
    then show "hoare cfg i (stays i UNIV) (\<lambda>s. ?P s \<and> (ok \<longrightarrow> open_conn_at c s)) (after ?init (\<lambda>ok. if \<not> ok then skip else
      after (fenceConnection c True) (\<lambda>ok. if \<not> ok then skip else Get (\<lambda>s.
       let active = oget (activeRoutes s) key;
           superseded = (case active of Some p \<Rightarrow> p \<noteq> c \<and> leaseLease (connLease (conn s p)) \<noteq> leaseLease (connLease (conn s c)) | None \<Rightarrow> False);
           previous = (if superseded then None else active) in
       andThen (if superseded then closeConnection (the active) True else skip) (?bind previous))))) (\<lambda>_ _. True)" for ok
      by (intro triple_after [OF frames_stays hoare_pre [OF init]] triple_if hoare_pre [OF gate [OF pl(3)]] hoare_pre [OF fenced]) simp_all
  qed
qed

lemma hoare_gate:
  assumes "lasting (coordinator_relies i) F" and "\<And>ok. hoare cfg i (stays i T) (\<lambda>s. F s \<and> (ok \<longrightarrow> open_conn_at c s)) (k ok) (\<lambda>_ _. True)"
  shows "hoare cfg i (stays i T) F (after (fenceConnection c b) k) (\<lambda>_ _. True)"
  by (rule triple_after [OF frames_stays hoare_lift [OF hoare_pre [OF hoare_frame [OF hoare_fence assms(1)]]]], simp)
    (rule hoare_pre [OF assms(2)], simp)

abbreviation port_turn :: "nat \<Rightarrow> nat \<Rightarrow> coordinator \<Rightarrow> bool" where
  "port_turn i c s \<equiv> turn_owner s (PortTurn c) = Some i"

lemma connect_ok:
  assumes d: "validConnectionDescriptor d"
  shows "hoare cfg i (stays i {PortTurn c}) (port_turn i c) (connect i c d) (\<lambda>_ _. True)"
  unfolding connect_def
proof (rule hoare_gate, simp add: stables, rule triple_if, rule hoare_weak [OF hoare_skip [OF frames_stays]], rule triple_get)
  fix ok s
  let ?x = "conn s c"
  let ?y = "?x\<lparr>connDescriptor := Some d, connFingerprint := Some (fingerprint_of d)\<rparr>"
  let ?pre = "\<lambda>t. t = s \<and> port_turn i c t \<and> (ok \<longrightarrow> open_conn_at c t)"
  let ?R = "stays i {PortTurn c}"
  assume ok: "\<not> \<not> ok"
  have refused: "hoare cfg i ?R ?pre (post c (PortRefused e)) (\<lambda>_ _. True)" for e by (rule hoare_lift [OF hoare_post_any(1)])
  have bound: "hoare cfg i ?R ?pre (post c PortConnected) (\<lambda>_ _. True)" if "isActive s c"
    by (rule hoare_lift [OF hoare_post_active]) (use that in auto)
  have new: "hoare cfg i ?R ?pre (Put (set_conn c ?y s) (withRouteLock i (conn_route ?x) (connect_locked c (conn_route ?x) d))) (\<lambda>_ _. True)"
    if m: "dClient d = connClient ?x" "dWindow d = connWindow ?x"
  proof (rule triple_put [OF frames_stays])
    let ?P = "\<lambda>s. known_conn c (conn_route ?x) s \<and> port_turn i c s"
    have key: "conn_route ?x = descriptor_route d" using m by (simp add: conn_route_def descriptor_route_def)
    show "hoare cfg i ?R ?P (withRouteLock i (conn_route ?x) (connect_locked c (conn_route ?x) d)) (\<lambda>_ _. True)"
      by (rule hoare_route_lock [OF connect_locked_ok [OF d key]]) (simp_all add: stables)
    fix t h assume k: "keeps (coordinator_contract cfg) t h" and t: "?pre t"
    then have o: "oget (conns s) c = Some ?x" using ok open_conn by (auto simp: open_conn_at_def)
    from k t have "coordinator_keeps s h" "port_turn i c s" by auto
    from descriptor_step [OF this o refl, where d = "Some d" and f = "Some (fingerprint_of d)"] m d t have
      "keeps (coordinator_contract cfg) (set_conn c ?y s) h \<and> coordinator_guarantees i t (set_conn c ?y s) \<and> stays i UNIV t (set_conn c ?y s)" by (auto simp: conn_well_def)
    moreover have "?P (set_conn c ?y s)" using t by (auto simp: known_conn_def conn_route_def turn_owner_def)
    ultimately show "keeps (coordinator_contract cfg) (set_conn c ?y s) h \<and> guarantees (coordinator_contract cfg) i t (set_conn c ?y s)
        \<and> ?R t (set_conn c ?y s) \<and> ?P (set_conn c ?y s)" by (auto intro: stays_mono)
  qed
  show "hoare cfg i ?R ?pre (let x = conn s c in
     if dClient d \<noteq> connClient x \<or> dWindow d \<noteq> connWindow x
     then post c (PortRefused ''Runtime descriptor does not match the port identity'')
     else if connDescriptor x \<noteq> None
     then (if connFingerprint x = Some (fingerprint_of d) \<and> connConnected x \<and> isActive s c then post c PortConnected
           else post c (PortRefused ''Agent runtime port is already bound to a different session''))
     else Put (set_conn c (x\<lparr>connDescriptor := Some d, connFingerprint := Some (fingerprint_of d)\<rparr>) s)
       (withRouteLock i (conn_route x) (connect_locked c (conn_route x) d))) (\<lambda>_ _. True)"
    unfolding Let_def by (intro triple_if refused bound new) auto
qed

definition port_holds :: "nat \<Rightarrow> nat \<Rightarrow> connection_descriptor \<Rightarrow> coordinator \<Rightarrow> bool" where
  "port_holds i c d s \<longleftrightarrow> port_turn i c s \<and> connDescriptor (conn s c) = Some d \<and> dClient d = connClient (conn s c)
     \<and> dWindow d = connWindow (conn s c)"

lemma conn_evolves:
  assumes "evolves s t" and "connDescriptor (conn s c) \<noteq> None"
  shows "connClient (conn t c) = connClient (conn s c) \<and> connWindow (conn t c) = connWindow (conn s c)"
proof -
  from assms(2) obtain x where x: "oget (conns s) c = Some x"
    by (cases "oget (conns s) c") (simp_all add: conn_def no_connection_def)
  with assms(1) obtain y where "oget (conns t) c = Some y" "same_port x y" unfolding evolves_def by blast
  with x show ?thesis by (simp add: conn_def same_port_def)
qed

lemma port_holds_lasting [stables, simp]: "lasting (coordinator_relies i) (port_holds i c d)"
  using conn_evolves by (auto simp: lasting_def port_holds_def coordinator_relies_def)

lemma conn_described: "coordinator_keeps s h \<Longrightarrow> connDescriptor (conn s c) = Some d
    \<Longrightarrow> dClient d = connClient (conn s c) \<and> dWindow d = connWindow (conn s c)"
  unfolding coordinator_keeps_def by (cases "oget (conns s) c") (auto simp: conn_def no_connection_def conn_well_def dest!: okeep_get)

lemma forward_reply_ok: "hoare cfg i (coordinator_relies i) (\<lambda>_. True) (forward_reply c q r) (\<lambda>_ _. True)"
  unfolding forward_reply_def
proof (rule hoare_fenced, simp, rule triple_get, rule triple_if, rule hoare_weak [OF hoare_skip [OF frames_relies]])
  fix ok s
  assume a: "\<not> (\<not> ok \<or> \<not> isActive s c)"
  have release: "hoare cfg i (coordinator_relies i) (\<lambda>_. True) (case (op, b, x) of
            (Release force reason, Success v, Some d) \<Rightarrow>
              rescue (forgetAcceptedDescriptor (key s) d (case reason of Some t \<Rightarrow> t | None \<Rightarrow> ''client-release'') False)
                (\<lambda>_. report ''descriptor-release'')
          | _ \<Rightarrow> skip) (\<lambda>_ _. True)" for op b x key and s :: coordinator
    by (auto split: operation.split response_body.split option.split intro!: hoare_weak [OF hoare_skip [OF frames_relies]]
        triple_rescue [OF frames_relies forgetAcceptedDescriptor_ok] hoare_weak [OF hoare_report [OF frames_relies]])
  have answer: "hoare cfg i (coordinator_relies i) (\<lambda>t. t = s) (andThen (post c (PortResponse x)) (Get (\<lambda>s. case (operation q, responseBody x, connDescriptor (conn s c)) of
            (Release force reason, Success v, Some d) \<Rightarrow>
              rescue (forgetAcceptedDescriptor (conn_route (conn s c)) d (case reason of Some t \<Rightarrow> t | None \<Rightarrow> ''client-release'') False)
                (\<lambda>_. report ''descriptor-release'')
          | _ \<Rightarrow> skip))) (\<lambda>_ _. True)" for x
    by (rule triple_andThen [OF frames_relies hoare_post_active], use a in simp, simp, rule hoare_get, rule release)
  show "hoare cfg i (coordinator_relies i) (\<lambda>t. t = s \<and> True \<and> (ok \<longrightarrow> open_conn_at c t))
     (case checked_response q ''Offscreen runtime returned a malformed response'' ''Offscreen runtime response identity mismatch: '' r of
        Inl e \<Rightarrow> rejectRequest c (requestId q) e
      | Inr x \<Rightarrow> andThen (post c (PortResponse x)) (Get (\<lambda>s. case (operation q, responseBody x, connDescriptor (conn s c)) of
            (Release force reason, Success v, Some d) \<Rightarrow>
              rescue (forgetAcceptedDescriptor (conn_route (conn s c)) d (case reason of Some t \<Rightarrow> t | None \<Rightarrow> ''client-release'') False)
                (\<lambda>_. report ''descriptor-release'')
          | _ \<Rightarrow> skip))) (\<lambda>_ _. True)"
    by (split sum.split) (intro conjI allI impI hoare_post_any(2) hoare_pre [OF answer]; simp)
qed

lemma forwardRequest_ok:
  assumes q: "isRuntimeRequestEnvelope (request_json q)"
  shows "hoare cfg i (coordinator_relies i) (port_turn i c) (forwardRequest c q) (\<lambda>_ _. True)"
  unfolding forwardRequest_def
proof (rule hoare_fenced, simp add: stables, rule triple_if, rule hoare_weak [OF hoare_skip [OF frames_relies]], rule hoare_get_keeps)
  fix ok s h
  assume k: "coordinator_keeps s h"
  let ?send = "\<lambda>ok. if \<not> ok then Ret None else after (ask_offscreen (RequestOffscreen q)) (\<lambda>r. Ret (Some r))"
  let ?fail = "\<lambda>e. andThen (rejectRequest c (requestId q) (''Offscreen runtime request failed: '' @ e)) (Ret None)"
  let ?forward = "andThen (change (begin_execution q)) (after (ensuring (rescue (after (fenceConnection c True) ?send) ?fail) (change (end_execution q)))
           (\<lambda>r. case r of None \<Rightarrow> skip | Some x \<Rightarrow> forward_reply c q x))"
  have fail: "hoare cfg i (coordinator_relies i) (\<lambda>_. True) (?fail e) (\<lambda>_ _. True)" for e
    by (rule triple_andThen [OF frames_relies hoare_post_any(2) hoare_ret_true [OF frames_relies]])
  have over: "hoare cfg i (coordinator_relies i) P (change (end_execution q)) (\<lambda>_ _. True)" for P
    by (rule hoare_quiet) (simp_all add: quiet_begin)
  have forward: "hoare cfg i (coordinator_relies i) (port_holds i c d) ?forward (\<lambda>_ _. True)" if m: "request_matches q d" for d
  proof -
    let ?P = "port_holds i c d"
    have "may_ask cfg s (RequestOffscreen q)" if "?P s \<and> open_conn_at c s" for s
      unfolding may_ask_def coordinator_permits.simps
      by (rule disjI2, rule conjI [OF q], rule exI [of _ c], rule exI [of _ "conn s c"], rule exI [of _ d])
        (use that m open_conn [of s c] in \<open>simp add: port_holds_def open_conn_at_def request_matches_def\<close>)
    then have "hoare cfg i (coordinator_relies i) (\<lambda>s. ?P s \<and> (ok \<longrightarrow> open_conn_at c s)) (?send ok) (\<lambda>_ _. True)" for ok
      by (intro triple_if hoare_ret_true [OF frames_relies] triple_after [OF frames_relies hoare_ask] hoare_ret_true [OF frames_relies]) simp
    from hoare_fenced [OF port_holds_lasting this]
    have "hoare cfg i (coordinator_relies i) ?P (rescue (after (fenceConnection c True) ?send) ?fail) (\<lambda>_ _. True)"
      by (rule triple_rescue [OF frames_relies _ _ fail]) simp
    then have ens: "hoare cfg i (coordinator_relies i) ?P (ensuring (rescue (after (fenceConnection c True) ?send) ?fail) (change (end_execution q))) (\<lambda>_ _. True)"
      by (rule triple_ensuring [OF frames_relies _ _ over over]) simp
    have began: "hoare cfg i (coordinator_relies i) ?P (change (begin_execution q)) (\<lambda>_. ?P)"
      by (rule hoare_quiet [OF quiet_begin(1)]) (rule lastingD [OF port_holds_lasting _ conjunct2 [OF mild_step [OF quiet_mild [OF quiet_begin(1)]]]])
    have reply: "hoare cfg i (coordinator_relies i) (\<lambda>_. True) (case r of None \<Rightarrow> skip | Some x \<Rightarrow> forward_reply c q x) (\<lambda>_ _. True)" for r
      by (cases r) (simp_all add: forward_reply_ok hoare_weak [OF hoare_skip [OF frames_relies]])
    show ?thesis by (rule triple_andThen [OF frames_relies began triple_after [OF frames_relies ens reply]])
  qed
  show "hoare cfg i (coordinator_relies i) (\<lambda>t. t = s \<and> port_turn i c t \<and> (ok \<longrightarrow> open_conn_at c t)) (case connDescriptor (conn s c) of
       None \<Rightarrow> rejectRequest c (requestId q) ''Runtime request does not match the connected session''
     | Some d \<Rightarrow>
         if \<not> request_matches q d then rejectRequest c (requestId q) ''Runtime request does not match the connected session''
         else ?forward) (\<lambda>_ _. True)"
  proof (cases "connDescriptor (conn s c)")
    case (Some d)
    show ?thesis unfolding Some option.case
      by (rule triple_if [OF hoare_post_any(2)], rule hoare_pre [OF forward]) (use Some conn_described [OF k Some] in \<open>auto simp: port_holds_def\<close>)
  qed (simp add: hoare_post_any(2))
qed


lemma handlePortMessage_ok: "hoare cfg i (stays i {PortTurn c}) (port_turn i c) (handlePortMessage i c m) (\<lambda>_ _. True)"
  unfolding handlePortMessage_def
proof (rule hoare_gate, simp add: stables, rule triple_if, rule hoare_weak [OF hoare_skip [OF frames_stays]], rule hoare_get)
  fix ok s
  let ?P = "\<lambda>s. port_turn i c s \<and> (ok \<longrightarrow> open_conn_at c s)"
  note post = hoare_lift [OF hoare_post_any(1)] hoare_lift [OF hoare_post_any(2)]
  show "hoare cfg i (stays i {PortTurn c}) ?P (let disconnected = \<not> connConnected (conn s c) \<or> connDescriptor (conn s c) = None \<or> \<not> isActive s c in
     case m of
       ConnectMessage (Some d) \<Rightarrow>
         if validConnectionDescriptor d then connect i c d
         else post c (PortRefused ''Malformed agent runtime connection descriptor'')
     | ConnectMessage None \<Rightarrow> post c (PortRefused ''Malformed agent runtime connection descriptor'')
     | OtherMessage v \<Rightarrow> rejectRequest c (requestIdFromUnknown m) ''Malformed agent runtime port message''
     | OtherRequestMessage v \<Rightarrow>
         if disconnected then rejectRequest c (requestIdFromUnknown m) ''Agent runtime port is not connected''
         else rejectRequest c (requestIdFromUnknown m) ''Malformed runtime request envelope''
     | RequestMessage q \<Rightarrow>
         if disconnected then rejectRequest c (requestIdFromUnknown m) ''Agent runtime port is not connected''
         else if \<not> isRuntimeRequestEnvelope (request_json q)
         then rejectRequest c (requestIdFromUnknown m) ''Malformed runtime request envelope''
         else forwardRequest c q) (\<lambda>_ _. True)"
    unfolding Let_def
    by (split port_message.split, split option.split)
      (intro conjI allI impI triple_if post hoare_pre [OF connect_ok] hoare_pre [OF hoare_lift [OF forwardRequest_ok]]; simp)
qed

lemma port_message_job_ok: "hoare cfg i (stays i {}) (\<lambda>_. True) (port_message_job i c m) (\<lambda>_ _. True)"
  unfolding port_message_job_def
proof (rule hoare_turn [where U = "{PortTurn c}"])
  show "hoare cfg i (stays i {PortTurn c}) (\<lambda>s. True \<and> port_turn i c s) (rescue (handlePortMessage i c m) (\<lambda>_. report ''port-message'')) (\<lambda>_ _. True)"
    unfolding simp_thms
    by (rule triple_rescue [OF frames_stays handlePortMessage_ok, where P' = "\<lambda>_. True"]) (simp_all add: hoare_weak [OF hoare_report [OF frames_stays]])
qed simp_all

lemma enqueuePortMessage_ok: "hoare cfg i (coordinator_relies i) (\<lambda>_. True) (enqueuePortMessage c m) (\<lambda>_ _. True)"
  unfolding enqueuePortMessage_def by (rule triple_spawn, simp, rule hoare_enqueue) simp

lemma accept_port_step:
  assumes k: "coordinator_keeps s h" and x: "connClosed x = False" "connLastSeq x = []"
    and t: "t = s\<lparr>conns := oset (nextConn s) x (conns s), nextConn := nextConn s + 1, connectionsByPort := oset port (nextConn s) (connectionsByPort s)\<rparr>"
    and d: "connDescriptor x = None"
  shows "coordinator_keeps t h \<and> mild s t"
proof -
  from k have n: "oget (conns s) (nextConn s) = None"
    unfolding coordinator_keeps_def by (cases "oget (conns s) (nextConn s)") (auto dest: okeep_get)
  then have c: "conn s (nextConn s) = no_connection" by (simp add: conn_def)
  have o: "oget (conns t) c = (if c = nextConn s then Some x else oget (conns s) c)" for c by (simp add: t)
  have old: "oget (conns s) c = Some y \<Longrightarrow> c \<noteq> nextConn s" for c y using n by auto
  have "mild s t" using n c d by (auto simp: mild_def t conn_def no_connection_def)
  moreover have "posted_upto t h"
    unfolding posted_upto_def
  proof (intro allI impI)
    fix u c e assume "(u, PostToPort c (PortStream (SessionStream e))) \<in> set h"
    with k obtain m where m: "oget (connLastSeq (conn s c)) (sessionEpochKey e) = Some m" "eventSeq e \<le> m"
      unfolding coordinator_keeps_def posted_upto_def by blast
    then have "c \<noteq> nextConn s" using c by (auto simp: no_connection_def)
    with m o show "\<exists>n. oget (connLastSeq (conn t c)) (sessionEpochKey e) = Some n \<and> eventSeq e \<le> n" by (auto simp: conn_def)
  qed
  moreover have "open_on t r c" if "open_on s r c" for r c
    using that old by (auto simp: open_on_def o)
  moreover have "okeep (\<lambda>c x. c < nextConn t \<and> conn_well x) (conns t)"
    using k d by (auto simp: coordinator_keeps_def okeep_def t less_Suc_eq conn_well_def)
  moreover have "\<forall>c \<in> set (ovals (connectionsByPort t)). oget (conns t) c \<noteq> None"
    using k set_update_subset [of port "nextConn s" "connectionsByPort s"] by (auto simp: coordinator_keeps_def t)
  moreover have "activeRoutes t = activeRoutes s" "acceptedDescriptors t = acceptedDescriptors s" "initResults t = initResults s"
    "initClaims t = initClaims s" "initialization t = initialization s" by (simp_all add: t)
  ultimately show ?thesis using k unfolding coordinator_keeps_def okeep_def by auto
qed

lemma acceptPort_ok: "hoare cfg i (coordinator_relies i) (\<lambda>_. True) (acceptPort port name sender a ms) (\<lambda>_ _. True)"
  unfolding acceptPort_def
proof (rule triple_get, rule triple_if, rule hoare_ret_true [OF frames_relies])
  fix s :: coordinator
  let ?x = "\<lambda>p. \<lparr>connPort = port, connClient = portClientId p, connWindow = portWindowId p, connLease = authLease a,
                 connDescriptor = None, connFingerprint = None, connConnected = False, connClosed = False, connHellos = [],
                 connLastSeq = []\<rparr>"
  let ?t = "\<lambda>p. s\<lparr>conns := oset (nextConn s) (?x p) (conns s), nextConn := nextConn s + 1, connectionsByPort := oset port (nextConn s) (connectionsByPort s)\<rparr>"
  have new: "hoare cfg i (coordinator_relies i) (\<lambda>t. t = s \<and> True) (Put (?t p) (andThen (each (enqueuePortMessage (nextConn s)) ms) (Ret True))) (\<lambda>_ _. True)" for p
  proof (rule triple_put [OF frames_relies, where P' = "\<lambda>_. True"])
    fix t h assume "keeps (coordinator_contract cfg) t h" "t = s \<and> True"
    then have "coordinator_keeps (?t p) h" "mild t (?t p)" using accept_port_step [of s h "?x p" "?t p" port] by auto
    with mild_step show "keeps (coordinator_contract cfg) (?t p) h \<and> guarantees (coordinator_contract cfg) i t (?t p)
        \<and> coordinator_relies i t (?t p) \<and> True" by simp
  next
    show "hoare cfg i (coordinator_relies i) (\<lambda>_. True) (andThen (each (enqueuePortMessage (nextConn s)) ms) (Ret True)) (\<lambda>_ _. True)"
      by (rule triple_andThen [OF frames_relies triple_each [OF frames_relies enqueuePortMessage_ok] hoare_ret_true [OF frames_relies]])
  qed
  show "hoare cfg i (coordinator_relies i) (\<lambda>t. t = s \<and> True) (case parseAgentRuntimePortName name of
       None \<Rightarrow> Ret False
     | Some p \<Rightarrow>
         if \<not> authenticationMatchesPort sender p a then Ret False
         else if oget (connectionsByPort s) port \<noteq> None then Ret True
         else let c = nextConn s; x = ?x p in
           Put (s\<lparr>conns := oset c x (conns s), nextConn := c + 1, connectionsByPort := oset port c (connectionsByPort s)\<rparr>)
             (andThen (each (enqueuePortMessage c) ms) (Ret True))) (\<lambda>_ _. True)"
    unfolding Let_def by (cases "parseAgentRuntimePortName name") (simp_all only: option.case, (intro triple_if hoare_ret_true [OF frames_relies] new)+)
qed

lemma revokeWindowPorts_ok: "hoare cfg i (coordinator_relies i) (\<lambda>_. True) (revokeWindowPorts w) (\<lambda>_ _. True)"
  unfolding revokeWindowPorts_def
  by (intro hoare_get triple_each [OF frames_relies] triple_if hoare_close_true hoare_weak [OF hoare_skip [OF frames_relies]])

subsection \<open>Page operations and checkpoints\<close>

lemma hoare_put_at: "hoare cfg i R (\<lambda>t. t = s) (Put u p) Q \<Longrightarrow> hoare cfg i R (\<lambda>t. t = s \<and> P t) (Put u p) Q"
  by (erule hoare_pre) simp

lemma handleAuthorizedPageControl_ok:
  assumes c: "pageControlMessage c"
  shows "hoare cfg i (coordinator_relies i) (\<lambda>_. True) (handleAuthorizedPageControl cfg c) (\<lambda>_ _. True)"
  unfolding handleAuthorizedPageControl_def
proof (rule triple_if, rule hoare_ret_true [OF frames_relies], rule triple_rescue [OF frames_relies, where P' = "\<lambda>_. True"])
  show "hoare cfg i (coordinator_relies i) (\<lambda>_. True) (andThen (report ''page-control'') (Ret (CallFailed e))) (\<lambda>_ _. True)" for e
    by (rule triple_andThen [OF frames_relies hoare_report [OF frames_relies] hoare_ret_true [OF frames_relies]])
  let ?handle = "andThen (emit (PageControl c)) (after (await PageControlled)
                  (\<lambda>w. case w of Controlled v \<Rightarrow> Ret (CallControlled v) | FailedWith e \<Rightarrow> Throw e | _ \<Rightarrow> Ret (CallControlled None)))"
  let ?i = "scopeOperation (control_scope c)"
  let ?same = "\<lambda>active. (case active of Some (m, n) \<Rightarrow> fst m = pageControlOperationFingerprint c | None \<Rightarrow> False)"
  let ?P = "\<lambda>s :: coordinator. pageControlAuthorizationError s c = None \<and> ?same (oget (pageControls s) ?i)"
  have handle: "hoare cfg i (coordinator_relies i) ?P ?handle (\<lambda>_ _. True)"
    by (rule triple_andThen [OF frames_relies hoare_emit_if [OF frames_relies] hoare_true [OF hoare_await [OF frames_relies]]])
      (auto simp: c split: option.splits coordinator_answer.split intro!: triple_ret triple_throw frames_relies)
  have over: "hoare cfg i (coordinator_relies i) P (change (end_control c)) (\<lambda>_ _. True)" for P
    by (rule hoare_quiet) (simp_all add: quiet_begin)
  have auth: "pageControlAuthorizationError (begin_control c s) c = pageControlAuthorizationError s c" for s
    by (simp add: pageControlAuthorizationError_def begin_control_def Let_def recovered_execution_def readySnapshot_def cong: option.case_cong if_cong)
  have begun: "hoare cfg i (coordinator_relies i) (\<lambda>s. pageControlAuthorizationError s c = None \<and> (oget (pageControls s) ?i = None \<or> ?same (oget (pageControls s) ?i)))
      (change (begin_control c)) (\<lambda>_. ?P)"
    by (rule hoare_quiet) (auto simp: quiet_begin auth, auto simp: begin_control_def Let_def split: option.splits)
  have run: "hoare cfg i (coordinator_relies i) (\<lambda>s. pageControlAuthorizationError s c = None \<and> (oget (pageControls s) ?i = None \<or> ?same (oget (pageControls s) ?i)))
      (andThen (change (begin_control c)) (ensuring ?handle (change (end_control c)))) (\<lambda>_ _. True)"
    by (rule triple_andThen [OF frames_relies begun triple_ensuring [OF frames_relies handle _ over over]]) simp
  show "hoare cfg i (coordinator_relies i) (\<lambda>_. True) (andThen ensureInitialized (Get (\<lambda>s.
        case pageControlAuthorizationError s c of
          Some e \<Rightarrow> Ret (CallFailed e)
        | None \<Rightarrow>
            let active = oget (pageControls s) ?i; same = ?same active; handle = ?handle in
            (case c of
               PageCancelMessage p \<Rightarrow>
                 if \<not> same then Ret (CallFailed ''Page cancellation does not match an active authorized operation'') else handle
             | PageOperationMessage p op ps tr \<Rightarrow>
                 if active \<noteq> None \<and> \<not> same then Ret (CallFailed ''Page operation id is active with different correlation data'')
                 else andThen (change (begin_control c)) (ensuring handle (change (end_control c))))))) (\<lambda>_ _. True)"
  proof (rule triple_andThen [OF frames_relies hoare_weak [OF ensureInitialized_ok]], rule triple_get)
    fix s :: coordinator
    let ?same_s = "?same (oget (pageControls s) ?i)"
    have cancel: "hoare cfg i (coordinator_relies i) (\<lambda>t. t = s \<and> True) (if \<not> ?same_s then Ret (CallFailed e) else ?handle) (\<lambda>_ _. True)"
      if "pageControlAuthorizationError s c = None" for e
      by (rule triple_if, rule hoare_ret_true [OF frames_relies], rule hoare_pre [OF handle]) (use that in auto)
    have operate: "hoare cfg i (coordinator_relies i) (\<lambda>t. t = s \<and> True) (if oget (pageControls s) ?i \<noteq> None \<and> \<not> ?same_s then Ret (CallFailed e)
        else andThen (change (begin_control c)) (ensuring ?handle (change (end_control c)))) (\<lambda>_ _. True)"
      if "pageControlAuthorizationError s c = None" for e
      by (rule triple_if, rule hoare_ret_true [OF frames_relies], rule hoare_pre [OF run]) (use that in blast)
    show "hoare cfg i (coordinator_relies i) (\<lambda>t. t = s \<and> True) (case pageControlAuthorizationError s c of
          Some e \<Rightarrow> Ret (CallFailed e)
        | None \<Rightarrow>
            let active = oget (pageControls s) ?i; same = ?same active; handle = ?handle in
            (case c of
               PageCancelMessage p \<Rightarrow>
                 if \<not> same then Ret (CallFailed ''Page cancellation does not match an active authorized operation'') else handle
             | PageOperationMessage p op ps tr \<Rightarrow>
                 if active \<noteq> None \<and> \<not> same then Ret (CallFailed ''Page operation id is active with different correlation data'')
                 else andThen (change (begin_control c)) (ensuring handle (change (end_control c))))) (\<lambda>_ _. True)"
    proof (cases "pageControlAuthorizationError s c")
      case None
      show ?thesis unfolding None option.case Let_def
        by (split page_control.split) (intro conjI allI impI operate [OF None] cancel [OF None])
    qed (simp add: hoare_ret_true [OF frames_relies])
  qed
qed simp_all

lemma saveCheckpoint_ok: "hoare cfg i (stays i {}) (\<lambda>_. True) (saveCheckpoint i st) (\<lambda>_ _. True)"
  unfolding saveCheckpoint_def
proof (rule triple_andThen [OF frames_stays hoare_lift [OF hoare_enqueue] hoare_turn [where U = UNIV]])
  show "hoare cfg i (stays i UNIV) (\<lambda>s. True \<and> turn_owner s CheckpointTurn = Some i) (andThen (emit (SaveCheckpoint st)) (after (await CheckpointSaved) (\<lambda>w. case w of
        FailedWith e \<Rightarrow> andThen (report ''checkpoint-save'') (Ret (CallFailed e)) | _ \<Rightarrow> Ret CallCheckpointed))) (\<lambda>_ _. True)"
    by (rule hoare_true, rule triple_andThen [OF frames_stays hoare_emit [OF frames_stays] hoare_await [OF frames_stays]])
      (auto split: coordinator_answer.split intro!: hoare_ret_true frames_stays triple_andThen [OF frames_stays hoare_report [OF frames_stays]])
qed simp_all

lemma handleOffscreenMessage_ok: "hoare cfg i (stays i {}) (\<lambda>_. True) (handleOffscreenMessage cfg i m) (\<lambda>_ _. True)"
  unfolding handleOffscreenMessage_def
proof (rule hoare_get, rule triple_if, rule hoare_ret_true [OF frames_stays])
  have route: "hoare cfg i (stays i {}) (\<lambda>_. True) (after (routeStream e) (\<lambda>b. Ret (CallRouted b))) (\<lambda>_ _. True)" for e
    by (rule hoare_lift [OF triple_after [OF frames_relies routeStream_ok hoare_ret_true [OF frames_relies]]])
  show "hoare cfg i (stays i {}) (\<lambda>_. True) (case m of
       HostStream e \<Rightarrow> if checked_stream e then after (routeStream e) (\<lambda>b. Ret (CallRouted b)) else Ret CallIgnored
     | Checkpoint st \<Rightarrow> if validPersistedState st then saveCheckpoint i st else Ret CallIgnored
     | ControlMessage c \<Rightarrow> if pageControlMessage c then handleAuthorizedPageControl cfg c else Ret CallIgnored
     | OtherOffscreenMessage \<Rightarrow> Ret CallIgnored) (\<lambda>_ _. True)"
    by (cases m; simp only: offscreen_message.case)
      (intro triple_if route saveCheckpoint_ok hoare_ret_true frames_stays hoare_lift [OF handleAuthorizedPageControl_ok]; assumption)+
qed

subsection \<open>The calls of the extension respect the contract\<close>

lemma settle_ok: "hoare cfg i (stays i T) (\<lambda>_. True) p (\<lambda>_ _. True) \<Longrightarrow> hoare cfg i (stays i T) (\<lambda>_. True) (settle n f p) (\<lambda>_ _. True)"
  unfolding settle_def
  by (rule triple_rescue [OF frames_stays triple_after [OF frames_stays], where P' = "\<lambda>_. True"], assumption)
    (simp_all add: hoare_weak [OF hoare_emit [OF frames_stays]])

lemma hoare_ready: "hoare cfg i (coordinator_relies i) initialised p (\<lambda>_ _. True)
    \<Longrightarrow> hoare cfg i (coordinator_relies i) (\<lambda>_. True) (andThen ensureInitialized p) (\<lambda>_ _. True)"
  by (rule triple_andThen [OF frames_relies ensureInitialized_ok])

lemma hoare_ready_stays: "hoare cfg i (stays i T) initialised p (\<lambda>_ _. True)
    \<Longrightarrow> hoare cfg i (stays i T) (\<lambda>_. True) (andThen ensureInitialized p) (\<lambda>_ _. True)"
  by (rule triple_andThen [OF frames_stays hoare_lift [OF ensureInitialized_ok]])

lemma locked_ok: "hoare cfg i (stays i {}) initialised (withRouteLock i key p) (\<lambda>_ _. True)"
  if "hoare cfg i (stays i UNIV) (\<lambda>s. initialised s \<and> turn_owner s (RouteTurn key) = Some i) p (\<lambda>_ _. True)"
  by (rule hoare_route_lock [OF that]) simp_all

lemma bindSession_ok: "hoare cfg i (stays i {}) (\<lambda>_. True) (bindSession i d) (\<lambda>_ _. True)"
  unfolding bindSession_def
  by (rule triple_if, rule triple_throw [OF frames_stays], rule hoare_ready_stays, rule locked_ok, rule hoare_pre [OF bindSessionLocked_ok]) simp

lemma replaceSession_ok: "hoare cfg i (stays i {}) (\<lambda>_. True) (replaceSession cfg i d reason) (\<lambda>_ _. True)"
  unfolding replaceSession_def Let_def
proof (rule triple_if, rule triple_throw [OF frames_stays], rule triple_if, rule triple_throw [OF frames_stays], rule hoare_ready_stays, rule locked_ok, rule hoare_get)
  fix s
  let ?key = "descriptor_route d"
  let ?P = "\<lambda>s. initialised s \<and> turn_owner s (RouteTurn ?key) = Some i"
  assume d: "\<not> \<not> validConnectionDescriptor d"
  have pl: "lasting (coordinator_relies i) ?P" by (simp add: stables)
  have bind: "hoare cfg i (stays i UNIV) ?P (bindSessionLocked ?key d) (\<lambda>_ _. True)"
    by (rule hoare_pre [OF bindSessionLocked_ok]) (use d in simp)
  show "hoare cfg i (stays i UNIV) ?P (case oget (acceptedDescriptors s) ?key of
            None \<Rightarrow> bindSessionLocked ?key d
          | Some a \<Rightarrow> if accFingerprint a = fingerprint_of d then skip
              else andThen (releaseSessionLocked cfg ?key (accDescriptor a) reason) (bindSessionLocked ?key d)) (\<lambda>_ _. True)"
    by (split option.split) (intro conjI allI impI bind triple_if hoare_weak [OF hoare_skip [OF frames_stays]]
        triple_andThen [OF frames_stays hoare_lift [OF hoare_keeping [OF releaseSessionLocked_ok pl]] bind]; simp)
qed

lemma releaseSession_ok: "hoare cfg i (stays i {}) (\<lambda>_. True) (releaseSession cfg i c w reason) (\<lambda>_ _. True)"
  unfolding releaseSession_def Let_def
  by (rule hoare_ready_stays, rule locked_ok, rule hoare_get, split option.split)
    (intro conjI allI impI hoare_ret_true [OF frames_stays]
      triple_andThen [OF frames_stays hoare_lift [OF hoare_true [OF releaseSessionLocked_ok]] hoare_ret_true [OF frames_stays]])

lemma releaseWindow_ok: "hoare cfg i (coordinator_relies i) (\<lambda>_. True) (release_window n w reason) (\<lambda>_ _. True)"
  unfolding release_window_def
  by (rule hoare_ready, rule hoare_get, rule hoare_true, rule triple_each [OF frames_relies], rule triple_spawn, simp, rule hoare_skip [OF frames_relies])

lemma check_aborted_ok: "hoare cfg i (coordinator_relies i) P (check_aborted t n) (\<lambda>_ _. True)"
  unfolding check_aborted_def
  by (rule hoare_true, rule hoare_get, split option.split)
    (intro conjI allI impI hoare_weak [OF hoare_skip [OF frames_relies]] triple_throw [OF frames_relies])

lemma waitForSessionReady_ok: "hoare cfg i (coordinator_relies i) (\<lambda>_. True) (waitForSessionReady n d) (\<lambda>_ _. True)"
  unfolding waitForSessionReady_def
proof (rule triple_if, rule triple_throw [OF frames_relies], rule triple_andThen [OF frames_relies check_aborted_ok], rule hoare_ready,
    rule triple_get, rule triple_if, rule triple_throw [OF frames_relies])
  fix s
  let ?wait = "\<lambda>w. after (await (WaiterSettled w)) (\<lambda>a. case a of Ready x \<Rightarrow> Ret x | FailedWith e \<Rightarrow> Throw e | _ \<Rightarrow> Throw not_accepted)"
  have wait: "hoare cfg i (coordinator_relies i) (\<lambda>_. True) (?wait w) (\<lambda>_ _. True)" for w
    by (rule hoare_await [OF frames_relies]) (auto split: coordinator_answer.split intro!: hoare_ret_true triple_throw frames_relies)
  have put: "hoare cfg i (coordinator_relies i) (\<lambda>t. t = s \<and> initialised t) (Put (s\<lparr>nextWaiter := a, abortListeners := l, readyWaiters := r\<rparr>) (?wait w)) (\<lambda>_ _. True)" for a l r w
    by (rule hoare_pre, rule hoare_put_quiet [OF _ hoare_true [OF wait]]) (simp_all add: quiet_def)
  show "hoare cfg i (coordinator_relies i) (\<lambda>t. t = s \<and> initialised t) (case readySnapshot s d of
          Some e \<Rightarrow> Ret (snapshot_of e)
        | None \<Rightarrow>
            let w = nextWaiter s; key = snapshotKey d in
            Put (s\<lparr>nextWaiter := w + 1, abortListeners := oset n (AbortWaiter key w) (abortListeners s),
                   readyWaiters := oset key ((case oget (readyWaiters s) key of Some ws \<Rightarrow> ws | None \<Rightarrow> []) @ [w]) (readyWaiters s)\<rparr>)
              (?wait w)) (\<lambda>_ _. True)"
    unfolding Let_def by (split option.split) (intro conjI allI impI put hoare_ret_true [OF frames_relies])
qed

lemma requestSession_ok: "hoare cfg i (coordinator_relies i) (\<lambda>_. True) (requestSession cfg n d p tr) (\<lambda>_ _. True)"
  unfolding requestSession_def
proof (rule triple_andThen [OF frames_relies check_aborted_ok], rule hoare_ready, rule triple_andThen [OF frames_relies check_aborted_ok],
    rule hoare_get, rule triple_if, rule triple_throw [OF frames_relies], rule triple_after [OF frames_relies ensureReleaseHello_ok],
    rule triple_andThen [OF frames_relies check_aborted_ok], rule triple_after [OF frames_relies hoare_fresh])
  fix h :: hello_envelope and a
  define q where "q = session_request d (runtimeEpoch h) a tr p"
  let ?P = "\<lambda>_ :: coordinator. \<exists>n. a = freshRequestId cfg n"
  let ?ask = "after (await OffscreenAnswer) (\<lambda>w. case w of Replied r \<Rightarrow> Ret r | FailedWith e \<Rightarrow> Throw e | _ \<Rightarrow> Ret OtherReply)"
  have ask: "hoare cfg i (coordinator_relies i) (\<lambda>_. True) ?ask (\<lambda>_ _. True)"
    by (rule hoare_await [OF frames_relies]) (auto split: coordinator_answer.split intro!: hoare_ret_true triple_throw frames_relies)
  have ended: "hoare cfg i (coordinator_relies i) P (change (\<lambda>s. end_execution q (remove_listener n s))) (\<lambda>_ _. True)" for P
    by (rule hoare_quiet) (auto intro: quiet_trans [OF quiet_begin(7) quiet_begin(2)])
  have listen: "hoare cfg i (coordinator_relies i) ?P (change (\<lambda>s. case cancellable_execution p of
               None \<Rightarrow> s | Some e \<Rightarrow> s\<lparr>abortListeners := oset n (AbortExecution q e) (abortListeners s)\<rparr>)) (\<lambda>_ _. True)"
    by (rule hoare_quiet) (auto split: option.split)
  have began: "hoare cfg i (coordinator_relies i) ?P (change (begin_execution q)) (\<lambda>_. ?P)"
    by (rule hoare_quiet) (simp_all add: quiet_begin)
  have sent: "hoare cfg i (coordinator_relies i) ?P (emit (ToOffscreen (RequestOffscreen q))) (\<lambda>_. ?P)"
    by (rule hoare_ask_out [OF frames_relies]) (auto simp: q_def session_request_def)
  have "hoare cfg i (coordinator_relies i) ?P (andThen (change (begin_execution q)) (andThen (emit (ToOffscreen (RequestOffscreen q)))
          (andThen (change (\<lambda>s. case cancellable_execution p of
               None \<Rightarrow> s | Some e \<Rightarrow> s\<lparr>abortListeners := oset n (AbortExecution q e) (abortListeners s)\<rparr>))
          (after (ensuring ?ask (change (\<lambda>s. end_execution q (remove_listener n s))))
            (\<lambda>r. response_value (checked_response q ''Offscreen runtime returned a malformed direct response''
              ''Offscreen runtime direct response identity mismatch: '' r)))))) (\<lambda>_ _. True)"
    by (rule triple_andThen [OF frames_relies began], rule triple_andThen [OF frames_relies sent], rule triple_andThen [OF frames_relies listen],
        rule triple_after [OF frames_relies triple_ensuring [OF frames_relies ask _ ended ended] hoare_response [OF frames_relies]]) simp
  then show "hoare cfg i (coordinator_relies i) ?P (let q = session_request d (runtimeEpoch h) a tr p in andThen (change (begin_execution q)) (andThen (emit (ToOffscreen (RequestOffscreen q)))
          (andThen (change (\<lambda>s. case cancellable_execution p of
               None \<Rightarrow> s | Some e \<Rightarrow> s\<lparr>abortListeners := oset n (AbortExecution q e) (abortListeners s)\<rparr>))
          (after (ensuring ?ask (change (\<lambda>s. end_execution q (remove_listener n s))))
            (\<lambda>r. response_value (checked_response q ''Offscreen runtime returned a malformed direct response''
              ''Offscreen runtime direct response identity mismatch: '' r)))))) (\<lambda>_ _. True)"
    unfolding Let_def q_def .
qed

lemma refreshSnapshot_ok: "hoare cfg i (coordinator_relies i) (\<lambda>_. True) (refreshSnapshot cfg n d) (\<lambda>_ _. True)"
  unfolding refreshSnapshot_def Let_def
  by (rule hoare_ready, rule hoare_get, rule hoare_true, rule triple_after [OF frames_relies requestSession_ok], rule hoare_get, split option.split)
    (intro conjI allI impI hoare_ret_true [OF frames_relies] triple_throw [OF frames_relies])

lemma abort_call_ok: "hoare cfg i (coordinator_relies i) (\<lambda>_. True) (abort_call cfg n reason) (\<lambda>_ _. True)"
  unfolding abort_call_def Let_def
proof (rule triple_get, rule triple_if, rule hoare_weak [OF hoare_skip [OF frames_relies]])
  fix s :: coordinator
  let ?s1 = "remove_listener n (s\<lparr>abortedCalls := oset n reason (abortedCalls s)\<rparr>)"
  let ?abort = "\<lambda>q e. after (fresh_id cfg) (\<lambda>i. emit (ToOffscreen (RequestOffscreen (q\<lparr>requestId := i, operation := Abort e (requestId q)
             (Some (case reason of Some t \<Rightarrow> t | None \<Rightarrow> ''request-aborted''))\<rparr>))))"
  have s1: "quiet s ?s1" by (rule quiet_trans [OF quiet_fields(9) quiet_begin(7)])
  have abort: "hoare cfg i (coordinator_relies i) (\<lambda>_. True) (?abort q e) (\<lambda>_ _. True)" for q e
    by (rule triple_after [OF frames_relies hoare_fresh], rule hoare_weak, rule hoare_ask_out [OF frames_relies]) auto
  have skip: "hoare cfg i (coordinator_relies i) P skip (\<lambda>_ _. True)" for P by (rule hoare_weak [OF hoare_skip [OF frames_relies]])
  have put: "hoare cfg i (coordinator_relies i) (\<lambda>t. t = s \<and> True) (Put u p) (\<lambda>_ _. True)"
    if "quiet s u" "hoare cfg i (coordinator_relies i) (\<lambda>_. True) p (\<lambda>_ _. True)" for u p
    using hoare_put_quiet [OF that(1) hoare_true [OF that(2)]] by simp
  show "hoare cfg i (coordinator_relies i) (\<lambda>t. t = s \<and> True) (case oget (abortListeners s) n of
         None \<Rightarrow> Put ?s1 skip
       | Some (AbortWaiter key w) \<Rightarrow> Put (rejectSessionReadyWaiter key (abort_text READY_ABORT reason) w ?s1) skip
       | Some (AbortExecution q e) \<Rightarrow> Put ?s1 (?abort q e)) (\<lambda>_ _. True)"
    by (split option.split, split abort_listener.split)
      (intro conjI allI impI put s1 quiet_trans [OF s1 quiet_reject] skip abort)
qed

lemma disposed_keeps: "coordinator_keeps s h \<Longrightarrow> coordinator_keeps (s\<lparr>disposed := True\<rparr>) h"
  by (auto simp: coordinator_keeps_def okeep_def open_on_def posted_upto_def conn_def)

lemma dispose_all_ok: "hoare cfg i (coordinator_relies i) (\<lambda>_. True) dispose_all (\<lambda>_ _. True)"
  unfolding dispose_all_def
proof (rule triple_get, rule triple_if, rule hoare_weak [OF hoare_skip [OF frames_relies]])
  fix s
  let ?t = "rejectAllSessionReadyWaiters ''Agent runtime coordinator was disposed before session readiness'' (s\<lparr>disposed := True\<rparr>)"
  have t: "fine s h ?t \<and> True" if "coordinator_keeps s h" for h
    using fine_intros(2) [OF _ quiet_reject_all] that maps_mild(4) disposed_keeps unfolding fine_def by blast
  have clear: "hoare cfg i (coordinator_relies i) (\<lambda>_. True) (change (\<lambda>s. s\<lparr>connectionsByPort := [], activeRoutes := [], acceptedDescriptors := [], latestHellos := [],
          latestSnapshots := [], executionRequests := [], pageControls := [], readyWaiters := []\<rparr>)) (\<lambda>_ _. True)"
    by (rule hoare_fine) (auto simp: fine_def mild_def coordinator_keeps_def posted_upto_def conn_def)
  have "hoare cfg i (coordinator_relies i) (\<lambda>u. u = s) (Put ?t
     (andThen (each (\<lambda>c. closeConnection c True) cs) (change (\<lambda>s. s\<lparr>connectionsByPort := [], activeRoutes := [], acceptedDescriptors := [], latestHellos := [],
          latestSnapshots := [], executionRequests := [], pageControls := [], readyWaiters := []\<rparr>)))) (\<lambda>_ _. True)" for cs
    by (rule hoare_put_fine [where P = "\<lambda>_. True", OF t], assumption,
        rule triple_andThen [OF frames_relies triple_each [OF frames_relies hoare_close_true] clear])
  then show "hoare cfg i (coordinator_relies i) (\<lambda>t. t = s \<and> True) (Put ?t
     (andThen (each (\<lambda>c. closeConnection c True) (ovals (connectionsByPort s)))
       (change (\<lambda>s. s\<lparr>connectionsByPort := [], activeRoutes := [], acceptedDescriptors := [], latestHellos := [],
          latestSnapshots := [], executionRequests := [], pageControls := [], readyWaiters := []\<rparr>)))) (\<lambda>_ _. True)"
    by simp
qed

lemma run_job_ok: "hoare cfg i any_frame (\<lambda>_. True) (run_job cfg i x) (\<lambda>_ _. True)"
proof -
  note st = hoare_any [OF settle_ok] and rel = hoare_any and up = hoare_lift [where T = "{}"]
  show ?thesis
  proof (cases x)
    case (InitializeJob n) then show ?thesis by (simp add: initialize_job_ok)
  next
    case (InitializeCall n) then show ?thesis using st [OF up [OF hoare_weak [OF ensureInitialized_ok]]] by simp
  next
    case (AcceptPort port name sender a ms)
    then show ?thesis using rel [OF triple_after [OF frames_relies acceptPort_ok hoare_weak [OF hoare_skip [OF frames_relies]]]] by simp
  next
    case (PortMessage c m)
    have "hoare cfg i (coordinator_relies i) (\<lambda>_. True) (Get (\<lambda>s. if connClosed (conn s c) then skip else enqueuePortMessage c m)) (\<lambda>_ _. True)"
      by (rule hoare_get, rule triple_if, rule hoare_weak [OF hoare_skip [OF frames_relies]], rule enqueuePortMessage_ok)
    with PortMessage show ?thesis using rel by simp
  next
    case (PortMessageJob c m) then show ?thesis using rel [OF port_message_job_ok] by simp
  next
    case (PortDisconnected c) then show ?thesis using rel [OF hoare_close_true] by simp
  next
    case (OffscreenMessage n m) then show ?thesis using st [OF handleOffscreenMessage_ok] by simp
  next
    case (BindSession n d) then show ?thesis using st [OF bindSession_ok] by simp
  next
    case (ReplaceSession n d r) then show ?thesis using st [OF replaceSession_ok] by simp
  next
    case (ReleaseSession n c w r) then show ?thesis using st [OF releaseSession_ok] by simp
  next
    case (ReleaseWindow n w r)
    have "hoare cfg i (coordinator_relies i) (\<lambda>_. True) (rescue (release_window n w r) (\<lambda>e. emit (CallSettled n (CallFailed e)))) (\<lambda>_ _. True)"
      by (rule triple_rescue [OF frames_relies releaseWindow_ok, where P' = "\<lambda>_. True"]) (simp_all add: hoare_weak [OF hoare_emit [OF frames_relies]])
    with ReleaseWindow show ?thesis using rel by simp
  next
    case (RequestSession n d p tr) then show ?thesis using st [OF up [OF requestSession_ok]] by simp
  next
    case (RefreshSnapshot n d) then show ?thesis using st [OF up [OF refreshSnapshot_ok]] by simp
  next
    case (WaitForSessionReady n d) then show ?thesis using st [OF up [OF waitForSessionReady_ok]] by simp
  next
    case (WaiterTimeout key w session)
    have "hoare cfg i (coordinator_relies i) (\<lambda>_. True) (change (rejectSessionReadyWaiter key e w)) (\<lambda>_ _. True)" for e
      by (rule hoare_quiet) (simp_all add: quiet_reject)
    then show ?thesis unfolding WaiterTimeout run_job.simps by (rule hoare_any)
  next
    case (AbortCall n reason) then show ?thesis using rel [OF abort_call_ok] by simp
  next
    case (RevokeWindowPorts w) then show ?thesis using rel [OF revokeWindowPorts_ok] by simp
  next
    case (BreakPort p)
    have "hoare cfg i (coordinator_relies i) (\<lambda>_. True) (change (\<lambda>s. s\<lparr>brokenPorts := p # brokenPorts s\<rparr>)) (\<lambda>_ _. True)"
      by (rule hoare_quiet) simp_all
    with BreakPort show ?thesis using rel by simp
  next
    case Dispose then show ?thesis using rel [OF dispose_all_ok] by simp
  qed
qed

interpretation coordinator: respected "coordinator_contract cfg" "run_job cfg" for cfg
  by unfold_locales (auto intro: relies_trans guarantees_relies hoare_job [OF run_job_ok])

lemma new_keeps: "coordinator_keeps new_coordinator []"
  by (simp add: coordinator_keeps_def new_coordinator_def posted_upto_def)

definition demo_descriptor :: connection_descriptor where
  "demo_descriptor = \<lparr>dClient = ''client'', dWindow = 1, dSession = ''session'', dTarget = ChromeTab None (Some 3) None,
     dMode = CreateMode, dPrompt = ''help'', dModel = None, dThinking = None, dMessages = None\<rparr>"

definition demo_auth :: authenticated_port where
  "demo_auth = \<lparr>authClient = ''client'', authWindow = 1, authExtension = ''h'', authDocument = ''d'', authUrl = ''s'',
     authOrigin = ''chrome-extension://h'', authContext = ''c'', authContextType = ''SIDE_PANEL'', authNonce = sample_nonce,
     authLease = \<lparr>leaseWindow = 1, leaseDocument = \<lparr>idContext = ''c'', idDocument = ''d'', idNonce = sample_nonce\<rparr>,
       leaseTransaction = transactionId sample_raw, leaseLease = leaseId sample_raw\<rparr>\<rparr>"

definition demo_hello :: hello_envelope where
  "demo_hello = \<lparr>protocolVersion = 1, runtimeEpoch = ''e'', clientId = ''client'', windowId = 1, trace = None,
     recoveryMode = Fresh, previousRuntimeEpoch = None, recoverySessions = []\<rparr>"

definition demo_stream :: session_stream where
  "demo_stream = \<lparr>protocolVersion = 1, runtimeEpoch = ''e'', clientId = ''client'', windowId = 1, trace = None,
     sessionId = ''session'', target = ChromeTab None (Some 3) None, revision = 0, eventSeq = 1,
     payload = AgentEventPayload (JObj [(''type'', JStr ''agent_start'')])\<rparr>"

definition demo_request :: request_envelope where
  "demo_request = \<lparr>protocolVersion = 1, runtimeEpoch = ''e'', clientId = ''client'', windowId = 1, trace = None,
     sessionId = ''session'', target = ChromeTab None (Some 3) None, requestId = ''r'',
     operation = Prompt ''x'' (JObj [(''role'', JStr ''user''), (''content'', JStr ''hi''), (''timestamp'', jint 1)])\<rparr>"

definition demo_scope :: page_scope where
  "demo_scope = \<lparr>scopeOperation = ''o'', scopeEpoch = ''e'', scopeClient = ''client'', scopeWindow = 1, scopeSession = ''session'',
     scopeTarget = ChromeTab None (Some 3) None, scopeExecution = ''x'', scopeRequest = ''r''\<rparr>"

definition demo_control :: page_control where
  "demo_control = PageOperationMessage demo_scope ''screenshot'' [] None"

definition demo_cfg :: coordinator_config where
  "demo_cfg = \<lparr>freshRequestId = (\<lambda>n. ''fresh''), handlesPageControl = True\<rparr>"

text \<open>
  A port connects to a new session, which initialises the coordinator and persists the binding; the offscreen
  runtime sends its hello and an event, the port sends a request, and the runtime takes a screenshot for it.
\<close>

definition demo_events :: "(coordinator_job, coordinator_answer) event list" where
  "demo_events = [Start (AcceptPort 5 sample_port_name (Some sample_sender) demo_auth [ConnectMessage (Some demo_descriptor)]),
     Resume 1 Done, Resume 1 Done, Resume 1 (Truth True), Resume 1 (Truth True), Resume 1 Done, Resume 1 (Truth True),
     Resume 2 Done, Resume 2 Done, Resume 2 (Descriptors []), Resume 2 (CheckpointIs None), Resume 2 (Replied OtherReply),
     Resume 1 Done, Resume 1 (Truth True), Resume 1 (Replied OtherReply), Resume 1 (Truth True), Resume 1 Done, Resume 1 (Truth True),
     Start (OffscreenMessage 1 (HostStream (Hello demo_hello))), Resume 3 (Truth True),
     Start (OffscreenMessage 2 (HostStream (SessionStream demo_stream))), Resume 4 (Truth True),
     Start (PortMessage 0 (RequestMessage demo_request)), Resume 6 Done, Resume 6 Done, Resume 6 (Truth True), Resume 6 (Truth True),
     Resume 6 (Truth True),
     Start (OffscreenMessage 3 (ControlMessage demo_control)), Resume 7 Done]"

lemma demo_checks: "validConnectionDescriptor demo_descriptor" "checked_stream (Hello demo_hello)" "checked_stream (SessionStream demo_stream)"
  "isRuntimeRequestEnvelope (request_json demo_request)" "pageControlMessage demo_control"
  by code_simp+


lemma demo_route: "conn_route \<lparr>connPort = p, connClient = ''client'', connWindow = 1, connLease = l, connDescriptor = d, connFingerprint = f,
    connConnected = b, connClosed = b', connHellos = hs, connLastSeq = q\<rparr> = runtimeClientRouteKey ''client'' 1"
  "descriptor_route demo_descriptor = runtimeClientRouteKey ''client'' 1"
  by (simp_all add: conn_route_def descriptor_route_def demo_descriptor_def)

lemma demo_fields [simp]: "dClient demo_descriptor = ''client''" "dWindow demo_descriptor = 1" "dSession demo_descriptor = ''session''"
  "dTarget demo_descriptor = ChromeTab None (Some 3) None" "clientId demo_hello = ''client''" "windowId demo_hello = 1"
  "runtimeEpoch demo_hello = ''e''" "recoverySessions demo_hello = []" "clientId demo_stream = ''client''" "windowId demo_stream = 1"
  "sessionId demo_stream = ''session''" "target demo_stream = ChromeTab None (Some 3) None" "runtimeEpoch demo_stream = ''e''"
  "eventSeq demo_stream = 1" "payload_snapshot (payload demo_stream) = None" "clientId demo_request = ''client''" "windowId demo_request = 1"
  "sessionId demo_request = ''session''" "target demo_request = ChromeTab None (Some 3) None"
  "control_scope demo_control = demo_scope" "scopeOperation demo_scope = ''o''" "scopeEpoch demo_scope = ''e''" "scopeClient demo_scope = ''client''"
  "scopeWindow demo_scope = 1" "scopeSession demo_scope = ''session''" "scopeTarget demo_scope = ChromeTab None (Some 3) None"
  "handlesPageControl demo_cfg = True" "case_page_control f g demo_control = f demo_scope ''screenshot'' [] None"
  by (simp_all add: demo_descriptor_def demo_hello_def demo_stream_def demo_request_def demo_control_def demo_scope_def demo_cfg_def)

lemma demo_identity: "requestExecutionIdentity demo_request = Some (executionIdentityKey demo_scope)"
  by (simp add: requestExecutionIdentity_def executionIdentityKey_def demo_request_def demo_scope_def)

lemma demo_match: "authenticationMatchesPort (Some sample_sender) \<lparr>continuationToken = continuationToken sample_raw,
     transactionId = transactionId sample_raw, leaseId = leaseId sample_raw, portWindowId = 1, documentNonce = sample_nonce,
     portClientId = ''client''\<rparr> demo_auth"
  by code_simp

lemma lazy_process: "p = p' \<Longrightarrow> after p f = after p' f" "p = p' \<Longrightarrow> rescue p g = rescue p' g" "Get k = Get k" "Await q w = Await q w"
  "Waiting q w = Waiting q w" "xs = ys \<Longrightarrow> each h xs = each h ys" "Spawn j r = Spawn j r"
  by simp_all

lemmas demo_simps = system_step_def run_stretch_def system_start_def Let_def andThen_def ensuring_def change_def emit_def await_def
  acceptPort_def sample_port_lookup demo_match enqueuePortMessage_def enqueue_def port_message_job_def take_turn_def handlePortMessage_def
  fenceConnection_def lease_current_def conn_def demo_checks connect_def set_conn_def withRouteLock_def demo_route
  connect_locked_def ensureInitialized_def wait_initialized_def skip_def initialize_job_def initialize_body_def load_checkpoint_def
  ask_offscreen_def getAcceptedDescriptors_def connect_new_def still_routed_def bind_persisted_def accept_descriptor_def announce_ready_def
  readySnapshot_def mark_connected_def safePost_def close_previous_def leave_turn_def turn_owner_def
  settle_def handleOffscreenMessage_def routeStream_def route_hello_def known_descriptor_def helloMatchesDescriptor_def learn_hello_def
  clearActivePageAuthorizationForRoute_def isAcceptedDescriptor_def isActive_def route_session_stream_def same_target_iff learn_snapshot_def
  deliver_stream_def post_def forwardRequest_def request_matches_def begin_execution_def demo_identity handleAuthorizedPageControl_def
  pageControlAuthorizationError_def begin_control_def

lemma demo_outputs: "map snd (sysHistory (coordinator_run demo_cfg demo_events)) =
    [ToOffscreen (InitOffscreen None), ToOffscreen (ConnectOffscreen demo_descriptor), DescriptorBound demo_descriptor, PostToPort 0 PortConnected,
     PostToPort 0 (PortStream (Hello demo_hello)), CallSettled 1 (CallRouted True), PostToPort 0 (PortStream (SessionStream demo_stream)),
     CallSettled 2 (CallRouted True), ToOffscreen (RequestOffscreen demo_request), PageControl demo_control]"
  by (simp add: demo_events_def new_coordinator_def demo_simps del: checked_stream.simps cong: lazy_process let_weak_cong)

subsection \<open>What holds of every run\<close>

lemma run_permitted: "sysHistory (coordinator_run cfg es) = h @ (s, x) # h' \<Longrightarrow> coordinator_permits cfg s h x"
  using coordinator.permits_run [of cfg new_coordinator es h s x h'] new_keeps by simp

lemma run_kept: "coordinator_keeps (sysState (coordinator_run cfg es)) (sysHistory (coordinator_run cfg es))"
  using coordinator.keeps_run [of cfg new_coordinator es] new_keeps by simp

lemma demo_posted: "x \<in> set (map snd (sysHistory (coordinator_run demo_cfg demo_events)))
    \<Longrightarrow> \<exists>h s h'. sysHistory (coordinator_run demo_cfg demo_events) = h @ (s, x) # h'"
  using split_list by fastforce

text \<open>
  C3. A session stream event reaches a port only while that port is open, is the active one of the event's
  client and window and was opened for them, and only if the port has had no event of the same session and
  epoch with this or a later sequence number: a panel sees each event at most once, in increasing order.
\<close>
theorem stream_reaches_active_port_in_order:
  assumes "sysHistory (coordinator_run cfg es) = h @ (s, PostToPort c (PortStream (SessionStream e))) # h'"
  shows "\<not> connClosed (conn s c) \<and> conn_route (conn s c) = runtimeClientRouteKey (clientId e) (windowId e)
    \<and> oget (activeRoutes s) (runtimeClientRouteKey (clientId e) (windowId e)) = Some c
    \<and> (\<forall>t e'. (t, PostToPort c (PortStream (SessionStream e'))) \<in> set h \<and> sessionEpochKey e' = sessionEpochKey e \<longrightarrow> eventSeq e' < eventSeq e)"
  using run_permitted [OF assms] by auto

lemma stream_reaches_active_port_in_order_witness:
  "\<exists>h s h'. sysHistory (coordinator_run demo_cfg demo_events) = h @ (s, PostToPort 0 (PortStream (SessionStream demo_stream))) # h'
     \<and> oget (activeRoutes s) (runtimeClientRouteKey ''client'' 1) = Some 0"
proof -
  obtain h s h' where e: "sysHistory (coordinator_run demo_cfg demo_events) = h @ (s, PostToPort 0 (PortStream (SessionStream demo_stream))) # h'"
    using demo_posted unfolding demo_outputs by fastforce
  with stream_reaches_active_port_in_order [OF e] show ?thesis by auto
qed

text \<open>
  C2. Every request the coordinator sends to the offscreen runtime either carries an id it generated itself, or
  is a valid request of an open port: it names the client and window that port was authenticated for and the
  session and target the port is bound to. No panel can speak for another.
\<close>
theorem forwarded_request_is_the_ports_own:
  assumes "sysHistory (coordinator_run cfg es) = h @ (s, ToOffscreen (RequestOffscreen q)) # h'" and "\<And>n. requestId q \<noteq> freshRequestId cfg n"
  shows "isRuntimeRequestEnvelope (request_json q) \<and> (\<exists>c x d. oget (conns s) c = Some x \<and> \<not> connClosed x \<and> clientId q = connClient x
    \<and> windowId q = connWindow x \<and> connDescriptor x = Some d \<and> sessionId q = dSession d \<and> target q = dTarget d)"
  using run_permitted [OF assms(1)] assms(2) by (auto simp: request_matches_def same_target_iff)

lemma forwarded_request_is_the_ports_own_witness:
  "\<exists>h s h'. sysHistory (coordinator_run demo_cfg demo_events) = h @ (s, ToOffscreen (RequestOffscreen demo_request)) # h'
     \<and> (\<exists>c x. oget (conns s) c = Some x \<and> connClient x = ''client'')"
proof -
  obtain h s h' where e: "sysHistory (coordinator_run demo_cfg demo_events) = h @ (s, ToOffscreen (RequestOffscreen demo_request)) # h'"
    using demo_posted unfolding demo_outputs by fastforce
  have "requestId demo_request \<noteq> freshRequestId demo_cfg n" for n by (simp add: demo_request_def demo_cfg_def)
  from forwarded_request_is_the_ports_own [OF e this] obtain c x where "oget (conns s) c = Some x" "connClient x = ''client''"
    by auto
  with e show ?thesis by blast
qed



text \<open>
  C1. A page operation or its cancellation is handed to the page only if it is well formed and names the
  accepted session and target of its window and the runtime's current epoch, and its parent execution is one
  the coordinator forwarded and that has not ended, or one the runtime's current snapshot reports unfinished.
\<close>
theorem page_operation_is_authorised:
  assumes "sysHistory (coordinator_run cfg es) = h @ (s, PageControl c) # h'"
  shows "pageControlMessage c \<and> (\<exists>a d. let p = control_scope c; route = runtimeClientRouteKey (scopeClient p) (scopeWindow p) in
    oget (acceptedDescriptors s) route = Some a \<and> d = accDescriptor a \<and> dSession d = scopeSession p \<and> dTarget d = scopeTarget p
    \<and> map_option runtimeEpoch (oget (latestHellos s) route) = Some (scopeEpoch p)
    \<and> (oget (executionRequests s) (executionIdentityKey p) \<noteq> None \<or> recovered_execution s d p))"
  using run_permitted [OF assms]
  by (auto simp: pageControlAuthorizationError_def Let_def same_target_iff split: option.splits if_splits)

lemma page_operation_is_authorised_witness:
  "\<exists>h s h' a. sysHistory (coordinator_run demo_cfg demo_events) = h @ (s, PageControl demo_control) # h'
     \<and> oget (acceptedDescriptors s) (runtimeClientRouteKey ''client'' 1) = Some a \<and> dSession (accDescriptor a) = ''session''"
proof -
  obtain h s h' where e: "sysHistory (coordinator_run demo_cfg demo_events) = h @ (s, PageControl demo_control) # h'"
    using demo_posted unfolding demo_outputs by fastforce
  with page_operation_is_authorised [OF e] show ?thesis by (auto simp: Let_def)
qed

lemma kept_consistent:
  assumes "coordinator_keeps s h"
  shows "okeep (\<lambda>route c. \<exists>x. oget (conns s) c = Some x \<and> \<not> connClosed x \<and> conn_route x = route) (activeRoutes s)
     \<and> okeep (\<lambda>route a. descriptor_route (accDescriptor a) = route \<and> accFingerprint a = fingerprint_of (accDescriptor a)
         \<and> validConnectionDescriptor (accDescriptor a)) (acceptedDescriptors s)
     \<and> okeep (\<lambda>c x. connDescriptor x \<in> {None} \<union> {Some d |d. dClient d = connClient x \<and> dWindow d = connWindow x
         \<and> validConnectionDescriptor d}) (conns s)"
proof -
  from assms have a: "okeep (open_on s) (activeRoutes s)" and b: "okeep bound_well (acceptedDescriptors s)"
    and c: "okeep (\<lambda>c x. c < nextConn s \<and> conn_well x) (conns s)" unfolding coordinator_keeps_def by blast+
  have "okeep (\<lambda>c x. connDescriptor x \<in> {None} \<union> {Some d |d. dClient d = connClient x \<and> dWindow d = connWindow x
         \<and> validConnectionDescriptor d}) (conns s)"
    by (rule okeep_mono [OF c], rename_tac k x, case_tac "connDescriptor x") (simp_all add: conn_well_def)
  with okeep_mono [OF a] okeep_mono [OF b] show ?thesis by (simp add: open_on_def bound_well_def)
qed

text \<open>
  C11. In every reachable state the active port of a route is an open connection of that route, every accepted
  binding is a valid descriptor of its own route with its fingerprint, and a connection's descriptor is valid and
  names the client and window of its port.
\<close>
theorem coordinator_state_consistent:
  "let s = sysState (coordinator_run cfg es) in
     okeep (\<lambda>route c. \<exists>x. oget (conns s) c = Some x \<and> \<not> connClosed x \<and> conn_route x = route) (activeRoutes s)
     \<and> okeep (\<lambda>route a. descriptor_route (accDescriptor a) = route \<and> accFingerprint a = fingerprint_of (accDescriptor a)
         \<and> validConnectionDescriptor (accDescriptor a)) (acceptedDescriptors s)
     \<and> okeep (\<lambda>c x. connDescriptor x \<in> {None} \<union> {Some d |d. dClient d = connClient x \<and> dWindow d = connWindow x
         \<and> validConnectionDescriptor d}) (conns s)"
  unfolding Let_def by (rule kept_consistent [OF run_kept])

text \<open>
  No page operation for a human handoff is ever handed to the page: the guard on messages of the offscreen
  document does not know the operation, so the handler the extension has for it is never reached.
\<close>
theorem human_handoff_never_reaches_page:
  "(s, PageControl (PageOperationMessage p ''human-handoff'' ps tr)) \<notin> set (sysHistory (coordinator_run cfg es))"
proof
  assume "(s, PageControl (PageOperationMessage p ''human-handoff'' ps tr)) \<in> set (sysHistory (coordinator_run cfg es))"
  then obtain h h' where "sysHistory (coordinator_run cfg es) = h @ (s, PageControl (PageOperationMessage p ''human-handoff'' ps tr)) # h'"
    by (blast dest: split_list)
  from run_permitted [OF this] have "''human-handoff'' \<in> set PAGE_CONTROL_OPERATIONS"
    by (simp only: coordinator_permits.simps pageControlMessage.simps)
  then show False by (simp add: PAGE_CONTROL_OPERATIONS_def)
qed

end
