(* ===== verification/RuntimeHost.thy ===== *)
theory RuntimeHost
  imports Async HostState
begin

section \<open>The offscreen runtime host\<close>

text \<open>
  \<open>OffscreenRuntimeHost\<close> (\<open>packages/extension/src/agent/offscreen-runtime-host.ts\<close>) owns the agent
  sessions of the extension: it answers the requests of the side panels, streams what happens in the
  sessions, cancels executions and survives restarts.

  Every method is a process of \<open>Async\<close>; \<open>awaited\<close> stands for \<open>await\<close> on a call of the host's own. Objects
  with an identity are numbers: session records, ledgers, abort controllers, adapters, promises; the promise
  of a response is entered in \<open>hPromises\<close> with the request it answers. \<open>hRestoring\<close> is the process that restores. Session
  adapters, the session factory and the delegates are the environment: a call is an output, its result the
  answer to a query, \<open>getState\<close> reads the view the environment last set. \<open>emit\<close>, \<open>onStateChanged\<close> and
  \<open>subscribe\<close> do not throw and do not call the host back before they return. A value that passes an envelope
  check is a typed record of \<open>RuntimeTypes\<close>, so a clone of it is the value itself.
\<close>

subsection \<open>State\<close>

datatype host_error = HostError error_descriptor | OtherError string bool

record active_execution =
  axDescriptor :: execution_descriptor
  axController :: nat
  axTrace :: "trace_context option"

record host_session =
  hsClient :: string
  hsWindow :: int
  hsSession :: string
  hsTarget :: target_identity
  hsAdapter :: nat
  hsRevision :: int
  hsEventSeq :: int
  hsActive :: "(string, active_execution) omap"
  hsPrompt :: "string option"
  hsQueue :: "(nat \<times> nat) list"
  hsPending :: nat
  hsInitializing :: bool
  hsSubscribed :: bool

record tool_descriptor =
  toolName :: string
  toolLabel :: string
  toolDescription :: "string option"

record artifact_descriptor =
  artifactFilename :: string
  artifactMimeType :: "string option"
  artifactSize :: "int option"
  artifactCreatedAt :: "string option"
  artifactUpdatedAt :: "string option"

record adapter_state =
  asPrompt :: string
  asModel :: "jval option"
  asThinking :: string
  asMessages :: "jval list"
  asTools :: "tool_descriptor list"
  asPendingCalls :: "string list"
  asStreaming :: bool
  asStreamingMessage :: "jval option"
  asArtifacts :: "artifact_descriptor list"
  asError :: "string option"

record host =
  hRecords :: "(nat, host_session) omap"
  hSessions :: "(string, nat) omap"
  hAdapters :: "(nat, string + adapter_state) omap"
  hLedgerStore :: "(nat, ledger) omap"
  hLedgers :: "(string, nat) omap"
  hInFlight :: "(string, nat) omap"
  hPromises :: "(nat, request_envelope \<times> response_envelope option) omap"
  hCache :: "(string, response_envelope) omap"
  hHistory :: "(string, request_envelope) omap"
  hControllers :: "(string, nat) omap"
  hAborted :: "nat list"
  hCompleted :: "string list"
  hAcquisitions :: "(string, nat) omap"
  hOpenTurns :: "nat list"
  hRestoreControllers :: "nat list"
  hRestoreTasks :: "nat list"
  hDirty :: "nat list"
  hBuffer :: "(nat option \<times> stream_envelope) list option"
  hRestoredFrom :: "string option"
  hRestoring :: "nat option"
  hDisposed :: bool
  hDisposeDone :: bool
  hClock :: string
  hNext :: nat

record host_config =
  cfgEpoch :: string
  maxCompletedRequests :: nat
  hasArtifacts :: bool
  hasRepl :: bool
  hasPromptPreparation :: bool
  hasPageOperations :: bool
  hasRestore :: bool

definition empty_host :: host where
  "empty_host = \<lparr>hRecords = [], hSessions = [], hAdapters = [], hLedgerStore = [], hLedgers = [], hInFlight = [], hPromises = [],
     hCache = [], hHistory = [], hControllers = [], hAborted = [], hCompleted = [], hAcquisitions = [], hOpenTurns = [],
     hRestoreControllers = [], hRestoreTasks = [], hDirty = [], hBuffer = None, hRestoredFrom = None,
     hRestoring = None, hDisposed = False, hDisposeDone = False, hClock = [], hNext = 0\<rparr>"

definition MAX_SAFE_COUNT :: nat where
  "MAX_SAFE_COUNT = 9007199254740991"

definition new_host :: "host_config \<Rightarrow> string + host" where
  "new_host cfg =
     (if \<not> nonblank (cfgEpoch cfg) then Inl ''runtimeEpoch must be non-empty''
      else if MAX_SAFE_COUNT < maxCompletedRequests cfg \<or> maxCompletedRequests cfg < 1
      then Inl ''maxCompletedRequests must be a positive safe integer''
      else Inr empty_host)"

subsection \<open>Outputs, queries, jobs\<close>

record operation_context =
  ctxRequest :: request_envelope
  ctxExecution :: "string option"
  ctxController :: nat
  ctxSession :: nat

datatype mutation = SetModelTo jval | SetThinkingTo string | SteerWith jval | PutMessage jval "int option"

datatype response_source = Refused | Processed | Joined | Cached

datatype call_end =
    HelloSaid hello_envelope
  | Exported host_state
  | Restored
  | HostGone
  | CallThrew host_error

datatype host_output =
    Responded nat request_envelope response_source response_envelope
  | CallRejected nat request_envelope
  | CallEnded nat call_end
  | Streamed "nat option" stream_envelope
  | StateChanged
  | SignalAborted nat string
  | FactoryCreate request_envelope nat
  | FactoryLoad request_envelope nat
  | FactoryRestore persisted_session session_snapshot nat
  | AdapterSubscribe nat nat
  | AdapterUnsubscribe nat nat
  | AdapterDispose nat
  | AdapterAbort nat string
  | Mutate nat nat nat operation_context mutation
  | PreparePrompt operation_context
  | AdapterPrompt nat jval operation_context
  | ExecuteArtifacts "nat option" jval operation_context
  | ExecuteRepl string operation_context
  | ExecutePage string "(string \<times> jval) list" operation_context

datatype host_query =
    Tick
  | FactoryAnswer
  | AdapterAnswer
  | DelegateAnswer
  | PrepareAnswer
  | CleanedUp
  | MutationTurn nat nat
  | TailOf nat "nat option"
  | AcquisitionTurn nat
  | PromiseOf nat
  | AllSettled "nat list" "nat list"
  | DisposeFinished

datatype host_answer =
    Done
  | GotAdapter nat
  | GotValue jval
  | GotMessage "jval option"
  | GotResponse response_envelope
  | Rejected string bool

datatype host_job =
    HandleCall request_envelope
  | ProcessRequest request_envelope nat nat nat nat
  | ProcessAbort request_envelope nat nat cancel_result
  | EmitHello string int recovery_mode "string option" "trace_context option"
  | ExportState
  | RestoreState host_state
  | DisposeHost
  | AgentEvent nat jval
  | EventMutation nat nat jval
  | AdapterShows nat "string + adapter_state"
  | ClockTick string

type_synonym 'a step = "(host, host_output, host_query, host_answer, host_job, host_error, 'a) process"

subsection \<open>Keys, errors, responses\<close>

definition host_key :: "string \<Rightarrow> int \<Rightarrow> string \<Rightarrow> string" where
  "host_key c w s = ''['' @ quote c @ '','' @ int_text w @ '','' @ quote s @ '']''"

definition request_scope_key :: "request_envelope \<Rightarrow> string" where
  "request_scope_key q = host_key (clientId q) (windowId q) (sessionId q)"

definition record_key :: "host_session \<Rightarrow> string" where
  "record_key x = host_key (hsClient x) (hsWindow x) (hsSession x)"

definition described :: "string \<Rightarrow> string \<Rightarrow> bool \<Rightarrow> error_descriptor" where
  "described code msg retry = \<lparr>errorCode = code, errorMessage = msg, retryable = retry, errorDetails = None\<rparr>"

definition coded_error :: "string \<Rightarrow> string \<Rightarrow> host_error" where
  "coded_error code msg = HostError (described code msg False)"

definition plain_error :: "string \<Rightarrow> host_error" where
  "plain_error msg = OtherError msg False"

definition aborted_error :: host_error where
  "aborted_error = coded_error ''ABORTED'' ''Runtime operation was aborted''"

definition disposed_error :: host_error where
  "disposed_error = coded_error ''HOST_DISPOSED'' ''Runtime host is disposed''"

definition error_text :: "string \<Rightarrow> string" where
  "error_text m = (if nonblank m then m else ''Unknown runtime error'')"

fun serializeError :: "host_error \<Rightarrow> string \<Rightarrow> error_descriptor" where
  "serializeError (HostError d) fallback = d"
| "serializeError (OtherError m named_abort) fallback = described fallback (error_text m) False"

fun is_abort_named :: "host_error \<Rightarrow> bool" where
  "is_abort_named (OtherError m named_abort) = named_abort"
| "is_abort_named (HostError d) = False"

definition host_response :: "request_envelope \<Rightarrow> response_body \<Rightarrow> response_envelope" where
  "host_response q b = \<lparr>protocolVersion = RUNTIME_PROTOCOL_VERSION, runtimeEpoch = runtimeEpoch q, clientId = clientId q,
     windowId = windowId q, trace = trace q, sessionId = sessionId q, target = target q, responseRequestId = requestId q,
     responseOperation = operation_type (operation q), responseBody = b\<rparr>"

definition errorResponse :: "request_envelope \<Rightarrow> error_descriptor \<Rightarrow> response_envelope" where
  "errorResponse q d = host_response q (Failure d)"

definition refusal :: "request_envelope \<Rightarrow> string \<Rightarrow> string \<Rightarrow> response_envelope" where
  "refusal q code msg = errorResponse q (described code msg False)"

definition successResponse :: "request_envelope \<Rightarrow> jval \<Rightarrow> response_envelope" where
  "successResponse q v =
     (if \<not> isRuntimeWireValue v
      then refusal q ''NON_SERIALIZABLE_RESULT'' ''Runtime operation returned data that cannot cross the transport boundary''
      else if \<not> isRuntimeResponseEnvelope (response_json (host_response q (Success v)))
      then refusal q ''MALFORMED_RESPONSE'' ''Runtime operation produced a malformed response''
      else host_response q (Success v))"

definition errorFromUnknown :: "request_envelope \<Rightarrow> host_error \<Rightarrow> response_envelope" where
  "errorFromUnknown q e = errorResponse q (serializeError e ''RUNTIME_OPERATION_FAILED'')"

subsection \<open>Records\<close>

definition no_record :: host_session where
  "no_record = \<lparr>hsClient = [], hsWindow = 0, hsSession = [], hsTarget = ChromeTab None None None, hsAdapter = 0, hsRevision = 0,
     hsEventSeq = 0, hsActive = [], hsPrompt = None, hsQueue = [], hsPending = 0, hsInitializing = False, hsSubscribed = False\<rparr>"

definition hrec :: "host \<Rightarrow> nat \<Rightarrow> host_session" where
  "hrec s r = (case oget (hRecords s) r of Some x \<Rightarrow> x | None \<Rightarrow> no_record)"

definition set_record :: "nat \<Rightarrow> host_session \<Rightarrow> host \<Rightarrow> host" where
  "set_record r x s = s\<lparr>hRecords := oset r x (hRecords s)\<rparr>"

definition update_record :: "nat \<Rightarrow> (host_session \<Rightarrow> host_session) \<Rightarrow> host \<Rightarrow> host" where
  "update_record r f s = set_record r (f (hrec s r)) s"

definition published :: "host \<Rightarrow> nat \<Rightarrow> bool" where
  "published s r \<longleftrightarrow> oget (hSessions s) (record_key (hrec s r)) = Some r"

definition proceed :: "unit step" where
  "proceed = Ret ()"

definition fresh_number :: "(nat \<Rightarrow> 'a step) \<Rightarrow> 'a step" where
  "fresh_number k = Get (\<lambda>s. Put (s\<lparr>hNext := Suc (hNext s)\<rparr>) (k (hNext s)))"

definition pause :: "unit step" where
  "pause = after (await Tick) (\<lambda>_. Ret ())"

definition awaited :: "'a step \<Rightarrow> 'a step" where
  "awaited p = ensuring p pause"

definition notifyStateChanged :: "unit step" where
  "notifyStateChanged = emit StateChanged"

subsection \<open>Signals\<close>

definition abort_signal :: "string \<Rightarrow> nat \<Rightarrow> unit step" where
  "abort_signal reason ctl = Get (\<lambda>s.
     if ctl \<in> set (hAborted s) then proceed
     else Put (s\<lparr>hAborted := ctl # hAborted s\<rparr>) (emit (SignalAborted ctl reason)))"

definition assertAcquisitionActive :: "nat \<Rightarrow> unit step" where
  "assertAcquisitionActive ctl = Get (\<lambda>s.
     if hDisposed s then Throw disposed_error else if ctl \<in> set (hAborted s) then Throw aborted_error else proceed)"

definition assertRequestActive :: "nat \<Rightarrow> unit step" where
  "assertRequestActive ctl = Get (\<lambda>s.
     if ctl \<in> set (hAborted s) then Throw aborted_error else if hDisposed s then Throw disposed_error else proceed)"

definition assertSessionPublished :: "nat \<Rightarrow> unit step" where
  "assertSessionPublished r = Get (\<lambda>s.
     if published s r then proceed else Throw (coded_error ''SESSION_NOT_FOUND'' ''Session is no longer published''))"

definition assert_usable :: "nat \<Rightarrow> nat \<Rightarrow> unit step" where
  "assert_usable ctl r = andThen (assertRequestActive ctl) (assertSessionPublished r)"

definition isAbortError :: "host \<Rightarrow> nat \<Rightarrow> host_error \<Rightarrow> bool" where
  "isAbortError s ctl e \<longleftrightarrow> ctl \<in> set (hAborted s) \<or> is_abort_named e"

subsection \<open>Snapshots and streams\<close>

definition cloned :: "string \<Rightarrow> jval \<Rightarrow> host_error + jval" where
  "cloned label v = (if isRuntimeWireValue v then Inr v
     else Inl (coded_error ''NON_SERIALIZABLE_STATE'' (label @ '' is not plain runtime data'')))"

definition tool_json :: "tool_descriptor \<Rightarrow> jval" where
  "tool_json t = JObj ([(''name'', JStr (toolName t)), (''label'', JStr (toolLabel t))] @ optf ''description'' JStr (toolDescription t))"

definition artifact_json :: "artifact_descriptor \<Rightarrow> jval" where
  "artifact_json a = JObj ((''filename'', JStr (artifactFilename a)) # optf ''mimeType'' JStr (artifactMimeType a)
     @ optf ''size'' jint (artifactSize a) @ optf ''createdAt'' JStr (artifactCreatedAt a) @ optf ''updatedAt'' JStr (artifactUpdatedAt a))"

definition host_stream :: "string \<Rightarrow> string \<Rightarrow> int \<Rightarrow> string \<Rightarrow> target_identity \<Rightarrow> int \<Rightarrow> int \<Rightarrow> trace_context option \<Rightarrow> stream_payload
    \<Rightarrow> session_stream" where
  "host_stream epoch c w i t rv n tr p = \<lparr>protocolVersion = RUNTIME_PROTOCOL_VERSION, runtimeEpoch = epoch, clientId = c, windowId = w,
     trace = tr, sessionId = i, target = t, revision = rv, eventSeq = n, payload = p\<rparr>"

definition record_stream :: "host_config \<Rightarrow> host_session \<Rightarrow> int \<Rightarrow> trace_context option \<Rightarrow> stream_payload \<Rightarrow> session_stream" where
  "record_stream cfg x n tr p = host_stream (cfgEpoch cfg) (hsClient x) (hsWindow x) (hsSession x) (hsTarget x) (hsRevision x) n tr p"

definition assertSnapshotProtocol ::
  "string \<Rightarrow> string \<Rightarrow> int \<Rightarrow> string \<Rightarrow> target_identity \<Rightarrow> int \<Rightarrow> session_snapshot \<Rightarrow> host_error + unit" where
  "assertSnapshotProtocol epoch c w i t n x =
     (if \<not> checked_stream (SessionStream (host_stream epoch c w i t (snapRevision x) (max 1 n) None (SnapshotPayload x)))
         \<or> \<not> same_target t (snapTarget x)
      then Inl (coded_error ''INVALID_SESSION_STATE'' ''Session snapshot violates the runtime protocol'') else Inr ())"

definition make_snapshot :: "host_session \<Rightarrow> adapter_state \<Rightarrow> session_snapshot" where
  "make_snapshot x a = \<lparr>snapSessionId = hsSession x, snapTarget = hsTarget x, snapRevision = hsRevision x, systemPrompt = asPrompt a,
     model = asModel a, thinkingLevel = asThinking a, messages = asMessages a, tools = map tool_json (asTools a),
     pendingToolCallIds = asPendingCalls a, isStreaming = asStreaming a, streamingMessage = asStreamingMessage a,
     activeExecutions = map axDescriptor (ovals (hsActive x)), artifacts = map artifact_json (asArtifacts a),
     snapErrorMessage = (case asError a of Some m \<Rightarrow> if m = [] then None else Some m | None \<Rightarrow> None)\<rparr>"

definition snapshot :: "host_config \<Rightarrow> host \<Rightarrow> host_session \<Rightarrow> host_error + session_snapshot" where
  "snapshot cfg s x =
     (case oget (hAdapters s) (hsAdapter x) of
        None \<Rightarrow> Inl (plain_error ''adapter has no state'')
      | Some (Inl e) \<Rightarrow> Inl (plain_error e)
      | Some (Inr a) \<Rightarrow>
          seq (case asModel a of None \<Rightarrow> Inr JNull | Some m \<Rightarrow> cloned ''Session model'' m) (\<lambda>_.
          seq (cloned ''Session messages'' (JArr (asMessages a))) (\<lambda>_.
          seq (case asStreamingMessage a of None \<Rightarrow> Inr JNull | Some m \<Rightarrow> cloned ''Streaming message'' m) (\<lambda>_.
          seq (cloned ''Session snapshot'' (snapshot_json (make_snapshot x a))) (\<lambda>_.
          seq (assertSnapshotProtocol (cfgEpoch cfg) (hsClient x) (hsWindow x) (hsSession x) (hsTarget x) (hsEventSeq x + 1)
                 (make_snapshot x a)) (\<lambda>_. Inr (make_snapshot x a)))))))"

definition emit_stream :: "nat option \<Rightarrow> stream_envelope \<Rightarrow> unit step" where
  "emit_stream r e = Get (\<lambda>s.
     if hDisposed s then proceed
     else if \<not> checked_stream e then Throw (plain_error ''Runtime host attempted to emit a malformed envelope'')
     else if hRestoring s \<noteq> None then Put (s\<lparr>hBuffer := map_option (\<lambda>b. b @ [(r, e)]) (hBuffer s)\<rparr>) proceed
     else emit (Streamed r e))"

definition emitSession :: "host_config \<Rightarrow> nat \<Rightarrow> stream_payload \<Rightarrow> trace_context option \<Rightarrow> unit step" where
  "emitSession cfg r p tr = andThen (change (update_record r (\<lambda>x. x\<lparr>hsEventSeq := hsEventSeq x + 1\<rparr>)))
     (Get (\<lambda>s. andThen (emit_stream (Some r) (SessionStream (record_stream cfg (hrec s r) (hsEventSeq (hrec s r)) tr p)))
        notifyStateChanged))"

definition emitSnapshot :: "host_config \<Rightarrow> nat \<Rightarrow> trace_context option \<Rightarrow> unit step" where
  "emitSnapshot cfg r tr = Get (\<lambda>s. case snapshot cfg s (hrec s r) of
     Inl e \<Rightarrow> Throw e | Inr x \<Rightarrow> emitSession cfg r (SnapshotPayload x) tr)"

definition emitExecution :: "host_config \<Rightarrow> nat \<Rightarrow> execution_descriptor \<Rightarrow> trace_context option \<Rightarrow> unit step" where
  "emitExecution cfg r d tr = emitSession cfg r (ExecutionPayload d) tr"

definition bump_revision :: "nat \<Rightarrow> unit step" where
  "bump_revision r = change (update_record r (\<lambda>x. x\<lparr>hsRevision := hsRevision x + 1\<rparr>))"

subsection \<open>Mutations and acquisitions, one at a time\<close>

definition join_queue :: "nat \<Rightarrow> nat \<Rightarrow> nat \<Rightarrow> host \<Rightarrow> host" where
  "join_queue r t me = update_record r (\<lambda>x. x\<lparr>hsPending := hsPending x + 1, hsQueue := hsQueue x @ [(t, me)]\<rparr>)"

definition leave_queue :: "nat \<Rightarrow> nat \<Rightarrow> host \<Rightarrow> host" where
  "leave_queue r t = update_record r (\<lambda>x. x\<lparr>hsPending := hsPending x - 1, hsQueue := filter (\<lambda>p. fst p \<noteq> t) (hsQueue x)\<rparr>)"

definition run_mutation :: "nat \<Rightarrow> nat \<Rightarrow> 'a step \<Rightarrow> 'a step" where
  "run_mutation r t body = after (await (MutationTurn r t)) (\<lambda>_. ensuring body (change (leave_queue r t)))"

definition withSessionMutation :: "nat \<Rightarrow> nat \<Rightarrow> (nat \<Rightarrow> 'a step) \<Rightarrow> 'a step" where
  "withSessionMutation me r body = fresh_number (\<lambda>t. andThen (change (join_queue r t me)) (run_mutation r t (body t)))"

definition await_tail :: "nat \<Rightarrow> unit step" where
  "await_tail r = Get (\<lambda>s. after (await (TailOf r (if hsQueue (hrec s r) = [] then None else Some (fst (last (hsQueue (hrec s r)))))))
     (\<lambda>_. Ret ()))"

definition release_turn :: "string \<Rightarrow> nat \<Rightarrow> host \<Rightarrow> host" where
  "release_turn key t s = s\<lparr>hOpenTurns := removeAll t (hOpenTurns s),
     hAcquisitions := (if oget (hAcquisitions s) key = Some t then odel key (hAcquisitions s) else hAcquisitions s)\<rparr>"

definition withSessionAcquisition :: "string \<Rightarrow> 'a step \<Rightarrow> 'a step" where
  "withSessionAcquisition key acquire = fresh_number (\<lambda>t. Get (\<lambda>s.
     Put (s\<lparr>hAcquisitions := oset key t (hAcquisitions s), hOpenTurns := t # hOpenTurns s\<rparr>)
       (andThen (case oget (hAcquisitions s) key of None \<Rightarrow> proceed | Some p \<Rightarrow> after (await (AcquisitionTurn p)) (\<lambda>_. Ret ()))
          (ensuring (awaited acquire) (change (release_turn key t))))))"

subsection \<open>Adding and removing sessions\<close>

definition dispose_adapter :: "nat \<Rightarrow> unit step" where
  "dispose_adapter a = emit (AdapterDispose a)"

definition begin_cleanup :: "nat \<Rightarrow> unit step" where
  "begin_cleanup r = Get (\<lambda>s. andThen (if hsSubscribed (hrec s r) then emit (AdapterUnsubscribe (hsAdapter (hrec s r)) r) else proceed)
     (dispose_adapter (hsAdapter (hrec s r))))"

definition all_cleaned :: "unit step" where
  "all_cleaned = after (await CleanedUp) (\<lambda>_. Ret ())"

definition detach_session :: "nat \<Rightarrow> unit step" where
  "detach_session r = andThen
     (change (\<lambda>s. if published s r then s\<lparr>hSessions := odel (record_key (hrec s r)) (hSessions s)\<rparr> else s))
     (Get (\<lambda>s. andThen (each (abort_signal ''runtime-session-removed'') (map axController (ovals (hsActive (hrec s r)))))
       (andThen (change (update_record r (\<lambda>x. x\<lparr>hsActive := []\<rparr>))) (begin_cleanup r))))"

definition removeSession :: "nat \<Rightarrow> unit step" where
  "removeSession r = andThen (detach_session r) all_cleaned"

definition assertAdapterAcquisitionActive :: "nat \<Rightarrow> nat \<Rightarrow> unit step" where
  "assertAdapterAcquisitionActive a ctl = Get (\<lambda>s.
     if \<not> hDisposed s \<and> ctl \<notin> set (hAborted s) then proceed
     else andThen (dispose_adapter a) (after (await AdapterAnswer) (\<lambda>w. case w of
       Rejected m n \<Rightarrow> Throw (OtherError m n) | _ \<Rightarrow> assertAcquisitionActive ctl)))"

definition new_record :: "string \<Rightarrow> int \<Rightarrow> string \<Rightarrow> target_identity \<Rightarrow> nat \<Rightarrow> int \<Rightarrow> int \<Rightarrow> host_session" where
  "new_record c w i t a rv n = \<lparr>hsClient = c, hsWindow = w, hsSession = i, hsTarget = t, hsAdapter = a, hsRevision = rv,
     hsEventSeq = n, hsActive = [], hsPrompt = None, hsQueue = [], hsPending = 0, hsInitializing = True, hsSubscribed = False\<rparr>"

definition initialised_record :: "nat \<Rightarrow> host \<Rightarrow> host" where
  "initialised_record r = update_record r (\<lambda>x. x\<lparr>hsInitializing := False\<rparr>)"

definition addSession :: "host_config \<Rightarrow> host_session \<Rightarrow> nat \<Rightarrow> nat step" where
  "addSession cfg x ctl = Get (\<lambda>s.
     if oget (hSessions s) (record_key x) \<noteq> None
     then andThen (dispose_adapter (hsAdapter x)) (Throw (coded_error ''SESSION_EXISTS'' ''Session already exists''))
     else fresh_number (\<lambda>r. andThen (change (set_record r x))
       (andThen
         (rescue
           (Get (\<lambda>s. case snapshot cfg s x of
              Inl e \<Rightarrow> Throw e
            | Inr _ \<Rightarrow> andThen (emit (AdapterSubscribe (hsAdapter x) r))
                (andThen (change (update_record r (\<lambda>y. y\<lparr>hsSubscribed := True\<rparr>))) (assertAcquisitionActive ctl))))
           (\<lambda>e. andThen (change (initialised_record r)) (andThen (begin_cleanup r) (andThen all_cleaned (Throw e)))))
         (andThen (change (\<lambda>s. s\<lparr>hSessions := oset (record_key x) r (hSessions s)\<rparr>))
           (andThen (change (initialised_record r))
             (Get (\<lambda>s. if hDisposed s \<or> ctl \<in> set (hAborted s)
                then andThen (awaited (removeSession r)) (andThen (assertAcquisitionActive ctl) (Ret r)) else Ret r)))))))"

subsection \<open>Ledgers and the completed requests\<close>

definition ledger_at :: "host \<Rightarrow> nat \<Rightarrow> ledger" where
  "ledger_at s n = (case oget (hLedgerStore s) n of Some l \<Rightarrow> l
     | None \<Rightarrow> \<lparr>currentRuntimeEpoch = [], requests = [], executions = [], entries = (\<lambda>_. None), nextEntry = 0\<rparr>)"

definition entry_at :: "host \<Rightarrow> nat \<Rightarrow> nat \<Rightarrow> ledger_entry option" where
  "entry_at s n a = entries (ledger_at s n) a"

definition set_ledger :: "nat \<Rightarrow> ledger \<Rightarrow> host \<Rightarrow> host" where
  "set_ledger n l s = s\<lparr>hLedgerStore := oset n l (hLedgerStore s)\<rparr>"

text \<open>\<open>ledgerFor\<close>, and what its caller goes on with.\<close>

definition ledgerFor :: "host_config \<Rightarrow> string \<Rightarrow> (nat \<Rightarrow> 'a step) \<Rightarrow> 'a step" where
  "ledgerFor cfg key k = Get (\<lambda>s. case oget (hLedgers s) key of
     Some n \<Rightarrow> k n
   | None \<Rightarrow> (case new_ledger (cfgEpoch cfg) of
        Inl e \<Rightarrow> Throw (plain_error e)
      | Inr l \<Rightarrow> fresh_number (\<lambda>n. andThen (change (\<lambda>s. set_ledger n l (s\<lparr>hLedgers := oset key n (hLedgers s)\<rparr>))) (k n))))"

definition mark_terminal :: "host_config \<Rightarrow> request_envelope \<Rightarrow> execution_reference \<Rightarrow> terminal_status \<Rightarrow> unit step" where
  "mark_terminal cfg q ref st = ledgerFor cfg (request_scope_key q) (\<lambda>n.
     change (\<lambda>s. set_ledger n (fst (markTerminal ref st (ledger_at s n))) s))"

definition reference_at :: "host \<Rightarrow> nat \<Rightarrow> nat \<Rightarrow> execution_reference option" where
  "reference_at s n a = (case entry_at s n a of None \<Rightarrow> None | Some e \<Rightarrow> executionReferenceFor e)"

definition entry_kind :: "ledger_entry \<Rightarrow> execution_kind" where
  "entry_kind e = (case entryExecutionKind e of Some k \<Rightarrow> k | None \<Rightarrow> KPrompt)"

definition prune_key :: "string \<Rightarrow> host \<Rightarrow> host" where
  "prune_key key s = (case oget (hHistory s) key of
     None \<Rightarrow> s
   | Some q \<Rightarrow>
       let s1 = s\<lparr>hHistory := odel key (hHistory s), hCache := odel key (hCache s)\<rparr>;
           s2 = (case oget (hLedgers s1) (request_scope_key q) of
                   None \<Rightarrow> s1
                 | Some n \<Rightarrow> set_ledger n (fst (forget (clientId q) (windowId q) (sessionId q) (requestId q) (ledger_at s1 n))) s1) in
       if \<not> list_ex (\<lambda>c. request_scope_key c = request_scope_key q) (ovals (hHistory s2))
          \<and> oget (hSessions s2) (request_scope_key q) = None
       then s2\<lparr>hLedgers := odel (request_scope_key q) (hLedgers s2)\<rparr> else s2)"

definition pruneCompletedRequests :: "host_config \<Rightarrow> host \<Rightarrow> host" where
  "pruneCompletedRequests cfg s =
     (let k = length (hCompleted s) - maxCompletedRequests cfg in
      fold prune_key (take k (hCompleted s)) (s\<lparr>hCompleted := drop k (hCompleted s)\<rparr>))"

definition remember_key :: "string \<Rightarrow> host \<Rightarrow> host" where
  "remember_key key s = s\<lparr>hCompleted := remove1 key (hCompleted s) @ [key]\<rparr>"

definition is_completed :: "string \<Rightarrow> host \<Rightarrow> bool" where
  "is_completed key s \<longleftrightarrow> oget (hHistory s) key \<noteq> None \<and> oget (hCache s) key \<noteq> None"

definition rememberCompletedRequest :: "host_config \<Rightarrow> string \<Rightarrow> bool \<Rightarrow> unit step" where
  "rememberCompletedRequest cfg key prune = Get (\<lambda>s.
     if \<not> is_completed key s then proceed
     else andThen (change (\<lambda>s. if prune then pruneCompletedRequests cfg (remember_key key s) else remember_key key s)) notifyStateChanged)"

subsection \<open>Executions\<close>

definition terminal_execution ::
  "execution_reference \<Rightarrow> execution_kind \<Rightarrow> execution_status \<Rightarrow> string option \<Rightarrow> string \<Rightarrow> error_descriptor option \<Rightarrow> execution_descriptor" where
  "terminal_execution ref kind st started finished err = \<lparr>executionId = refExecutionId ref, execRequestId = refRequestId ref,
     execKind = kind, execStatus = st, startedAt = started, finishedAt = Some finished, execError = err\<rparr>"

definition clear_prompt :: "string \<Rightarrow> host_session \<Rightarrow> host_session" where
  "clear_prompt e x = (if hsPrompt x = Some e then x\<lparr>hsPrompt := None\<rparr> else x)"

definition drop_execution :: "nat \<Rightarrow> string \<Rightarrow> unit step" where
  "drop_execution r e = change (update_record r (\<lambda>x. (clear_prompt e x)\<lparr>hsActive := odel e (hsActive x)\<rparr>))"

definition report_execution ::
  "host_config \<Rightarrow> nat \<Rightarrow> execution_reference \<Rightarrow> execution_kind \<Rightarrow> execution_status \<Rightarrow> string option \<Rightarrow> error_descriptor option
     \<Rightarrow> trace_context option \<Rightarrow> unit step" where
  "report_execution cfg r ref kind st started err tr =
     Get (\<lambda>s. emitExecution cfg r (terminal_execution ref kind st started (hClock s) err) tr)"

definition cancelled_descriptor :: error_descriptor where
  "cancelled_descriptor = described ''ABORTED'' ''Execution was cancelled before it started'' False"

text \<open>The session an execution of \<open>q\<close> reports to, if it is published for the same target.\<close>

definition reporting_session :: "host \<Rightarrow> request_envelope \<Rightarrow> nat option" where
  "reporting_session s q = (case oget (hSessions s) (request_scope_key q) of
     Some r \<Rightarrow> if same_target (hsTarget (hrec s r)) (target q) then Some r else None | None \<Rightarrow> None)"

definition report_if_known ::
  "host_config \<Rightarrow> request_envelope \<Rightarrow> execution_reference \<Rightarrow> execution_kind \<Rightarrow> execution_status \<Rightarrow> error_descriptor \<Rightarrow> unit step" where
  "report_if_known cfg q ref kind st d = Get (\<lambda>s. case reporting_session s q of
     None \<Rightarrow> proceed
   | Some r \<Rightarrow> andThen (drop_execution r (refExecutionId ref)) (report_execution cfg r ref kind st None (Some d) (trace q)))"

definition cancelledBeforePreflight :: "host_config \<Rightarrow> request_envelope \<Rightarrow> nat \<Rightarrow> nat \<Rightarrow> response_envelope option step" where
  "cancelledBeforePreflight cfg q n a = Get (\<lambda>s. case entry_at s n a of
     None \<Rightarrow> Ret None
   | Some e \<Rightarrow> (case executionReferenceFor e of
        None \<Rightarrow> Ret None
      | Some ref \<Rightarrow>
          if entryStatus e \<noteq> Cancelled then Ret None
          else andThen (report_if_known cfg q ref (entry_kind e) Cancelled cancelled_descriptor)
            (Ret (Some (errorResponse q cancelled_descriptor)))))"

definition failAcceptedRequest :: "host_config \<Rightarrow> request_envelope \<Rightarrow> nat \<Rightarrow> nat \<Rightarrow> host_error \<Rightarrow> response_envelope step" where
  "failAcceptedRequest cfg q n a err = Get (\<lambda>s.
     let d = serializeError err ''RUNTIME_OPERATION_FAILED'' in
     andThen (case entry_at s n a of
        None \<Rightarrow> proceed
      | Some e \<Rightarrow> (case executionReferenceFor e of
           None \<Rightarrow> proceed
         | Some ref \<Rightarrow> andThen (mark_terminal cfg q ref TFailed) (report_if_known cfg q ref (entry_kind e) Failed d)))
       (Ret (errorResponse q d)))"

definition rejectExecution :: "host_config \<Rightarrow> request_envelope \<Rightarrow> nat \<Rightarrow> nat \<Rightarrow> nat \<Rightarrow> string \<Rightarrow> string \<Rightarrow> response_envelope step" where
  "rejectExecution cfg q n a r code msg = Get (\<lambda>s.
     let d = described code msg True;
         i = (case entry_at s n a of Some e \<Rightarrow> (case entryExecutionId e of Some x \<Rightarrow> x | None \<Rightarrow> ''missing'') | None \<Rightarrow> ''missing'');
         k = (case entry_at s n a of Some e \<Rightarrow> entry_kind e | None \<Rightarrow> KPrompt) in
     andThen (case reference_at s n a of None \<Rightarrow> proceed | Some ref \<Rightarrow> mark_terminal cfg q ref TFailed)
       (Get (\<lambda>s. andThen
         (emitExecution cfg r \<lparr>executionId = i, execRequestId = requestId q, execKind = k, execStatus = Failed, startedAt = None,
            finishedAt = Some (hClock s), execError = Some d\<rparr> (trace q))
         (Ret (errorResponse q d)))))"

definition requireSession :: "request_envelope \<Rightarrow> nat step" where
  "requireSession q = Get (\<lambda>s. case oget (hSessions s) (request_scope_key q) of
     None \<Rightarrow> Throw (coded_error ''SESSION_NOT_FOUND'' ''Session was not found'')
   | Some r \<Rightarrow> if same_target (hsTarget (hrec s r)) (target q) then Ret r
       else Throw (coded_error ''TARGET_MISMATCH'' ''Session target does not match''))"

fun cancelled_start :: "start_result \<Rightarrow> bool" where
  "cancelled_start (CancelledBeforeStart a) = True"
| "cancelled_start _ = False"

text \<open>
  \<open>executeLongRequest\<close> answers with the rest of the execution: the source returns its promise without
  awaiting it, so what it throws later is not caught by its caller.
\<close>

definition finish_execution ::
  "host_config \<Rightarrow> request_envelope \<Rightarrow> nat \<Rightarrow> execution_reference \<Rightarrow> execution_kind \<Rightarrow> string \<Rightarrow> execution_status \<Rightarrow> error_descriptor option
     \<Rightarrow> unit step" where
  "finish_execution cfg q r ref kind started st err = andThen (drop_execution r (refExecutionId ref))
     (andThen (report_execution cfg r ref kind st (Some started) err (trace q)) (emitSnapshot cfg r (trace q)))"

definition run_execution ::
  "host_config \<Rightarrow> request_envelope \<Rightarrow> nat \<Rightarrow> execution_reference \<Rightarrow> nat \<Rightarrow> execution_kind \<Rightarrow> nat \<Rightarrow> string \<Rightarrow> jval step
     \<Rightarrow> response_envelope step" where
  "run_execution cfg q r ref ctl kind n started execute =
     ensuring
       (rescue
         (andThen (assert_usable ctl r)
           (after (awaited execute) (\<lambda>v.
             if \<not> isRuntimeWireValue v
             then Throw (coded_error ''NON_SERIALIZABLE_RESULT''
               ''Runtime operation returned data that cannot cross the transport boundary'')
             else Get (\<lambda>s.
               if ctl \<in> set (hAborted s) then Throw (OtherError ''Execution aborted'' True)
               else andThen (finish_execution cfg q r ref kind started Succeeded None)
                 (andThen (assert_usable ctl r)
                   (andThen (change (\<lambda>s. set_ledger n (fst (markTerminal ref TSucceeded (ledger_at s n))) s))
                     (Ret (successResponse q v))))))))
         (\<lambda>e. Get (\<lambda>s.
            let cancelled = isAbortError s ctl e;
                d = serializeError e (if cancelled then ''ABORTED'' else ''EXECUTION_FAILED'') in
            andThen (change (\<lambda>s. set_ledger n (fst (markTerminal ref (if cancelled then TCancelled else TFailed) (ledger_at s n))) s))
              (andThen (finish_execution cfg q r ref kind started (if cancelled then Cancelled else Failed) (Some d))
                (Ret (errorResponse q d))))))
       (change (update_record r (clear_prompt (refExecutionId ref))))"

definition executeLongRequest ::
  "host_config \<Rightarrow> request_envelope \<Rightarrow> nat \<Rightarrow> nat \<Rightarrow> nat \<Rightarrow> nat \<Rightarrow> execution_kind \<Rightarrow> (operation_context \<Rightarrow> jval step)
     \<Rightarrow> response_envelope step step" where
  "executeLongRequest cfg q n0 a r ctl kind execute = Get (\<lambda>s. case reference_at s n0 a of
     None \<Rightarrow> Ret (Ret (refusal q ''INTERNAL'' ''Execution identity is missing''))
   | Some ref \<Rightarrow> ledgerFor cfg (request_scope_key q) (\<lambda>n. Get (\<lambda>s.
       let (l, start) = markStarted ref (ledger_at s n) in
       Put (set_ledger n l s)
         (if cancelled_start start \<or> ctl \<in> set (hAborted s)
          then andThen (drop_execution r (refExecutionId ref))
            (andThen (report_execution cfg r ref kind Cancelled None (Some cancelled_descriptor) (trace q))
              (andThen (emitSnapshot cfg r (trace q)) (Ret (Ret (errorResponse q cancelled_descriptor)))))
          else
            let d = \<lparr>executionId = refExecutionId ref, execRequestId = refRequestId ref, execKind = kind, execStatus = Running,
                  startedAt = Some (hClock s), finishedAt = None, execError = None\<rparr> in
            andThen (change (update_record r (\<lambda>x. x\<lparr>hsActive := oset (refExecutionId ref)
                \<lparr>axDescriptor = d, axController = ctl, axTrace = trace q\<rparr> (hsActive x)\<rparr>)))
              (andThen (emitExecution cfg r d (trace q))
                (Ret (run_execution cfg q r ref ctl kind n (hClock s)
                  (execute \<lparr>ctxRequest = q, ctxExecution = Some (refExecutionId ref), ctxController = ctl, ctxSession = r\<rparr>))))))))"

subsection \<open>The operations\<close>

definition adapter_done :: "unit step" where
  "adapter_done = after (await AdapterAnswer) (\<lambda>w. case w of Rejected m n \<Rightarrow> Throw (OtherError m n) | _ \<Rightarrow> proceed)"

definition delegate_value :: "jval step" where
  "delegate_value = after (await DelegateAnswer) (\<lambda>w. case w of
     GotValue v \<Rightarrow> Ret v | Rejected m n \<Rightarrow> Throw (OtherError m n) | _ \<Rightarrow> Ret JUndef)"

definition factory_adapter :: "nat step" where
  "factory_adapter = after (await FactoryAnswer) (\<lambda>w. case w of
     GotAdapter a \<Rightarrow> Ret a | Rejected m n \<Rightarrow> Throw (OtherError m n) | _ \<Rightarrow> Throw (plain_error ''no adapter''))"

definition succeed_with :: "request_envelope \<Rightarrow> nat \<Rightarrow> (host_session \<Rightarrow> (string \<times> jval) list) \<Rightarrow> response_envelope step" where
  "succeed_with q r fs = Get (\<lambda>s. Ret (successResponse q (JObj (fs (hrec s r)))))"

definition number :: "string \<Rightarrow> int \<Rightarrow> (string \<times> jval) list" where
  "number k n = [(k, jint n)]"

definition acquired_record :: "request_envelope \<Rightarrow> nat \<Rightarrow> int \<Rightarrow> host_session" where
  "acquired_record q a rv = new_record (clientId q) (windowId q) (sessionId q) (target q) a rv 0"

definition handle_attach :: "host_config \<Rightarrow> request_envelope \<Rightarrow> nat \<Rightarrow> response_envelope step" where
  "handle_attach cfg q ctl = after (requireSession q) (\<lambda>r. andThen (await_tail r) (andThen (assert_usable ctl r)
     (andThen (emitSnapshot cfg r (trace q)) (andThen (assertRequestActive ctl)
       (succeed_with q r (\<lambda>x. (''attached'', JBool True) # number ''revision'' (hsRevision x)))))))"

definition acquire_created :: "host_config \<Rightarrow> request_envelope \<Rightarrow> nat \<Rightarrow> nat step" where
  "acquire_created cfg q ctl = andThen (assertAcquisitionActive ctl) (Get (\<lambda>s.
     if oget (hSessions s) (request_scope_key q) \<noteq> None then Throw (coded_error ''SESSION_EXISTS'' ''Session already exists'')
     else andThen (emit (FactoryCreate q ctl)) (after factory_adapter (\<lambda>a.
       andThen (awaited (assertAdapterAcquisitionActive a ctl)) (addSession cfg (acquired_record q a 1) ctl)))))"

definition handle_create :: "host_config \<Rightarrow> request_envelope \<Rightarrow> nat \<Rightarrow> response_envelope step" where
  "handle_create cfg q ctl = after (awaited (withSessionAcquisition (request_scope_key q) (acquire_created cfg q ctl))) (\<lambda>r.
     andThen (assert_usable ctl r)
       (andThen (rescue (emitSnapshot cfg r (trace q)) (\<lambda>e. andThen (awaited (removeSession r)) (Throw e)))
         (andThen (assert_usable ctl r)
           (succeed_with q r (\<lambda>x. (''created'', JBool True) # number ''revision'' (hsRevision x))))))"

definition acquire_loaded :: "host_config \<Rightarrow> request_envelope \<Rightarrow> nat \<Rightarrow> (nat \<times> bool) step" where
  "acquire_loaded cfg q ctl = andThen (assertAcquisitionActive ctl) (Get (\<lambda>s.
     case oget (hSessions s) (request_scope_key q) of
       Some r \<Rightarrow> if same_target (hsTarget (hrec s r)) (target q) then Ret (r, False)
         else Throw (coded_error ''TARGET_MISMATCH'' ''Session target does not match'')
     | None \<Rightarrow> andThen (emit (FactoryLoad q ctl)) (after factory_adapter (\<lambda>a.
         andThen (awaited (assertAdapterAcquisitionActive a ctl))
           (after (awaited (addSession cfg (acquired_record q a 0) ctl)) (\<lambda>r. Ret (r, True)))))))"

definition handle_load :: "host_config \<Rightarrow> request_envelope \<Rightarrow> nat \<Rightarrow> response_envelope step" where
  "handle_load cfg q ctl = after (awaited (withSessionAcquisition (request_scope_key q) (acquire_loaded cfg q ctl))) (\<lambda>(r, acquired).
     andThen (await_tail r) (andThen (assert_usable ctl r)
       (andThen (rescue (emitSnapshot cfg r (trace q)) (\<lambda>e.
            andThen (if acquired then awaited (removeSession r) else proceed) (Throw e)))
         (andThen (assert_usable ctl r)
           (succeed_with q r (\<lambda>x. (''loaded'', JBool True) # number ''revision'' (hsRevision x)))))))"

text \<open>A mutation of the adapter: what \<open>set-model\<close>, \<open>set-thinking\<close>, \<open>steer\<close> and the message operations do in their turn.\<close>

definition mutate_adapter :: "nat \<Rightarrow> nat \<Rightarrow> operation_context \<Rightarrow> mutation \<Rightarrow> unit step" where
  "mutate_adapter r t ctx m = Get (\<lambda>s. andThen (emit (Mutate r t (hsAdapter (hrec s r)) ctx m)) adapter_done)"

definition mutation_turn ::
  "host_config \<Rightarrow> nat \<Rightarrow> nat \<Rightarrow> unit step \<Rightarrow> operation_context \<Rightarrow> mutation \<Rightarrow> trace_context option \<Rightarrow> unit step" where
  "mutation_turn cfg r t check ctx m tr = andThen (assert_usable (ctxController ctx) r) (andThen check
     (andThen (mutate_adapter r t ctx m) (andThen (assert_usable (ctxController ctx) r)
       (andThen (bump_revision r) (emitSnapshot cfg r tr)))))"

definition request_context :: "request_envelope \<Rightarrow> nat \<Rightarrow> nat \<Rightarrow> operation_context" where
  "request_context q ctl r = \<lparr>ctxRequest = q, ctxExecution = None, ctxController = ctl, ctxSession = r\<rparr>"

definition mutate_session :: "host_config \<Rightarrow> nat \<Rightarrow> request_envelope \<Rightarrow> nat \<Rightarrow> nat \<Rightarrow> (nat \<Rightarrow> unit step) \<Rightarrow> mutation \<Rightarrow> unit step" where
  "mutate_session cfg me q ctl r check m = awaited (withSessionMutation me r (\<lambda>t.
     andThen (mutation_turn cfg r t (check r) (request_context q ctl r) m (trace q)) (assert_usable ctl r)))"

definition handle_mutation ::
  "host_config \<Rightarrow> nat \<Rightarrow> request_envelope \<Rightarrow> nat \<Rightarrow> (nat \<Rightarrow> unit step) \<Rightarrow> mutation \<Rightarrow> (host_session \<Rightarrow> (string \<times> jval) list)
     \<Rightarrow> response_envelope step" where
  "handle_mutation cfg me q ctl check m fs = after (requireSession q) (\<lambda>r.
     andThen (mutate_session cfg me q ctl r check m) (succeed_with q r fs))"

definition expect_revision :: "int \<Rightarrow> nat \<Rightarrow> unit step" where
  "expect_revision n r = Get (\<lambda>s. if n = hsRevision (hrec s r) then proceed
     else Throw (HostError \<lparr>errorCode = ''REVISION_CONFLICT'', errorMessage = ''Session revision changed'', retryable = True,
       errorDetails = Some (JObj [(''expectedRevision'', jint n), (''actualRevision'', jint (hsRevision (hrec s r)))])\<rparr>))"

definition prepare_prompt :: "host_config \<Rightarrow> nat \<Rightarrow> request_envelope \<Rightarrow> nat \<Rightarrow> operation_context \<Rightarrow> unit step" where
  "prepare_prompt cfg me q r ctx = andThen (emit (PreparePrompt ctx)) (after (await PrepareAnswer) (\<lambda>w. case w of
     Rejected m n \<Rightarrow> Throw (OtherError m n)
   | GotMessage (Some m) \<Rightarrow> awaited (withSessionMutation me r (\<lambda>t.
       mutation_turn cfg r t (case cloned ''Prepared prompt context'' m of Inl e \<Rightarrow> Throw e | Inr _ \<Rightarrow> proceed) ctx
         (PutMessage m None) (trace q)))
   | _ \<Rightarrow> proceed))"

definition run_prompt :: "host_config \<Rightarrow> nat \<Rightarrow> request_envelope \<Rightarrow> nat \<Rightarrow> string \<Rightarrow> jval \<Rightarrow> operation_context \<Rightarrow> jval step" where
  "run_prompt cfg me q r e m ctx = andThen (if hasPromptPreparation cfg then prepare_prompt cfg me q r ctx else proceed)
     (Get (\<lambda>s. andThen (emit (AdapterPrompt (hsAdapter (hrec s r)) m ctx))
       (andThen adapter_done
         (andThen (awaited (withSessionMutation me r (\<lambda>t. andThen (assert_usable (ctxController ctx) r) (bump_revision r))))
           (Ret (JObj [(''completed'', JBool True), (''executionId'', JStr e)]))))))"

definition handle_prompt ::
  "host_config \<Rightarrow> nat \<Rightarrow> request_envelope \<Rightarrow> nat \<Rightarrow> nat \<Rightarrow> nat \<Rightarrow> string \<Rightarrow> jval \<Rightarrow> response_envelope step step" where
  "handle_prompt cfg me q n a ctl e m = after (requireSession q) (\<lambda>r. Get (\<lambda>s.
     if hsPrompt (hrec s r) \<noteq> None
     then after (rejectExecution cfg q n a r ''SESSION_BUSY'' ''A prompt is already active'') (\<lambda>x. Ret (Ret x))
     else andThen (change (update_record r (\<lambda>x. x\<lparr>hsPrompt := Some e\<rparr>)))
       (executeLongRequest cfg q n a r ctl KPrompt (run_prompt cfg me q r e m))))"

definition artifacts_mutate :: "jval \<Rightarrow> bool" where
  "artifacts_mutate p = (case p of JObj fs \<Rightarrow> jget ''action'' fs = JStr ''put'' \<or> jget ''action'' fs = JStr ''delete'' | _ \<Rightarrow> False)"

definition execute_artifacts :: "host_config \<Rightarrow> request_envelope \<Rightarrow> nat \<Rightarrow> nat \<Rightarrow> jval \<Rightarrow> nat option \<Rightarrow> jval step" where
  "execute_artifacts cfg q ctl r p t = andThen (assert_usable ctl r)
     (andThen (emit (ExecuteArtifacts t p (request_context q ctl r)))
       (after delegate_value (\<lambda>v. andThen (assert_usable ctl r)
         (if v = JUndef then Throw (coded_error ''UNSUPPORTED'' ''Artifacts delegate is unavailable'')
          else andThen (if t = None then proceed else andThen (bump_revision r) (andThen (emitSnapshot cfg r (trace q)) (assert_usable ctl r)))
            (Ret v)))))"

definition handle_artifacts :: "host_config \<Rightarrow> nat \<Rightarrow> request_envelope \<Rightarrow> nat \<Rightarrow> jval \<Rightarrow> response_envelope step" where
  "handle_artifacts cfg me q ctl p = after (requireSession q) (\<lambda>r.
     if \<not> hasArtifacts cfg then Throw (coded_error ''UNSUPPORTED'' ''Artifacts delegate is unavailable'')
     else after (awaited (if artifacts_mutate p then withSessionMutation me r (\<lambda>t. execute_artifacts cfg q ctl r p (Some t))
                          else execute_artifacts cfg q ctl r p None))
       (\<lambda>v. Ret (successResponse q v)))"

definition handle_release :: "request_envelope \<Rightarrow> nat \<Rightarrow> bool option \<Rightarrow> string option \<Rightarrow> response_envelope step" where
  "handle_release q ctl force reason = after (requireSession q) (\<lambda>r. Get (\<lambda>s.
     if hsActive (hrec s r) \<noteq> [] \<and> force \<noteq> Some True
     then Throw (HostError (described ''SESSION_BUSY'' ''Session still owns active executions'' True))
     else andThen (await_tail r) (andThen (assert_usable ctl r) (andThen (awaited (removeSession r))
       (Ret (successResponse q (JObj ((''released'', JBool True) # (case reason of Some m \<Rightarrow> if m = [] then [] else [(''reason'', JStr m)] | None \<Rightarrow> [])))))))))"

definition handle_resync :: "host_config \<Rightarrow> request_envelope \<Rightarrow> nat \<Rightarrow> response_envelope step" where
  "handle_resync cfg q ctl = after (requireSession q) (\<lambda>r. andThen (await_tail r) (andThen (assert_usable ctl r)
     (andThen (emitSnapshot cfg r (trace q)) (andThen (assert_usable ctl r)
       (succeed_with q r (\<lambda>x. (''resynced'', JBool True) # number ''revision'' (hsRevision x) @ number ''eventSeq'' (hsEventSeq x)))))))"

definition at_once :: "response_envelope step \<Rightarrow> response_envelope step step" where
  "at_once p = after p (\<lambda>x. Ret (Ret x))"

definition no_check :: "nat \<Rightarrow> unit step" where
  "no_check r = proceed"

fun process_operation ::
  "host_config \<Rightarrow> nat \<Rightarrow> request_envelope \<Rightarrow> nat \<Rightarrow> nat \<Rightarrow> nat \<Rightarrow> operation \<Rightarrow> response_envelope step step" where
  "process_operation cfg me q n a ctl (Attach e v i) = at_once (handle_attach cfg q ctl)"
| "process_operation cfg me q n a ctl (Create p m th ms) = at_once (handle_create cfg q ctl)"
| "process_operation cfg me q n a ctl Load = at_once (handle_load cfg q ctl)"
| "process_operation cfg me q n a ctl (Prompt e m) = handle_prompt cfg me q n a ctl e m"
| "process_operation cfg me q n a ctl (SetModel m) =
     at_once (handle_mutation cfg me q ctl no_check (SetModelTo m) (\<lambda>x. [(''updated'', JBool True)]))"
| "process_operation cfg me q n a ctl (SetThinking th) =
     at_once (handle_mutation cfg me q ctl no_check (SetThinkingTo th) (\<lambda>x. [(''thinkingLevel'', JStr th)]))"
| "process_operation cfg me q n a ctl (Steer m) =
     at_once (handle_mutation cfg me q ctl no_check (SteerWith m) (\<lambda>x. (''queued'', JBool True) # number ''revision'' (hsRevision x)))"
| "process_operation cfg me q n a ctl (ReplaceOrAppendMessage m i v) =
     at_once (handle_mutation cfg me q ctl (expect_revision v) (PutMessage m i) (\<lambda>x. number ''revision'' (hsRevision x)))"
| "process_operation cfg me q n a ctl (Artifacts p) = at_once (handle_artifacts cfg me q ctl p)"
| "process_operation cfg me q n a ctl (Release f m) = at_once (handle_release q ctl f m)"
| "process_operation cfg me q n a ctl (ReplExecute e c js) = after (requireSession q) (\<lambda>r.
     if \<not> hasRepl cfg then Throw (coded_error ''UNSUPPORTED'' ''REPL delegate is unavailable'')
     else executeLongRequest cfg q n a r ctl KRepl (\<lambda>ctx. andThen (emit (ExecuteRepl c ctx)) delegate_value))"
| "process_operation cfg me q n a ctl (PageOperation e p ps) = after (requireSession q) (\<lambda>r.
     if \<not> hasPageOperations cfg then Throw (coded_error ''UNSUPPORTED'' ''Privileged page operation transport is unavailable'')
     else executeLongRequest cfg q n a r ctl KPageOperation (\<lambda>ctx. andThen (emit (ExecutePage p ps ctx)) delegate_value))"
| "process_operation cfg me q n a ctl (Resync v i m) = at_once (handle_resync cfg q ctl)"
| "process_operation cfg me q n a ctl (Abort e i m) = Throw (coded_error ''INTERNAL'' ''Abort must use the cancellation path'')"

definition processAccepted :: "host_config \<Rightarrow> nat \<Rightarrow> request_envelope \<Rightarrow> nat \<Rightarrow> nat \<Rightarrow> nat \<Rightarrow> response_envelope step" where
  "processAccepted cfg me q n a ctl = after (cancelledBeforePreflight cfg q n a) (\<lambda>early. case early of
     Some x \<Rightarrow> Ret x
   | None \<Rightarrow> after (rescue (andThen (assertRequestActive ctl) (process_operation cfg me q n a ctl (operation q)))
       (\<lambda>e. Get (\<lambda>s. at_once (failAcceptedRequest cfg q n a (if isAbortError s ctl e then aborted_error else e)))))
       (\<lambda>p. p))"

subsection \<open>Accepting requests\<close>

definition settle_request :: "host_config \<Rightarrow> nat \<Rightarrow> request_envelope \<Rightarrow> bool \<Rightarrow> response_envelope step \<Rightarrow> unit step" where
  "settle_request cfg i q controlled p = after (awaited (rescue (awaited p) (\<lambda>e. Ret (errorFromUnknown q e)))) (\<lambda>x.
     andThen (change (\<lambda>s. if hDisposed s then s else s\<lparr>hCache := oset (requestKey q) x (hCache s)\<rparr>))
       (andThen pause
         (andThen (change (\<lambda>s. s\<lparr>hInFlight := odel (requestKey q) (hInFlight s),
             hControllers := (if controlled then odel (requestKey q) (hControllers s) else hControllers s),
             hPromises := oset i (q, Some x) (hPromises s)\<rparr>))
           (rememberCompletedRequest cfg (requestKey q) True))))"

definition respond :: "nat \<Rightarrow> request_envelope \<Rightarrow> response_source \<Rightarrow> response_envelope \<Rightarrow> unit step" where
  "respond me q src x = emit (Responded me q src x)"

definition join_promise :: "nat \<Rightarrow> request_envelope \<Rightarrow> response_source \<Rightarrow> nat \<Rightarrow> unit step" where
  "join_promise me q src p = after (await (PromiseOf p)) (\<lambda>w. case w of GotResponse x \<Rightarrow> respond me q src x | _ \<Rightarrow> proceed)"

definition launch :: "nat \<Rightarrow> request_envelope \<Rightarrow> (nat \<Rightarrow> host_job) \<Rightarrow> unit step" where
  "launch me q j = fresh_number (\<lambda>p. andThen
     (change (\<lambda>s. s\<lparr>hInFlight := oset (requestKey q) p (hInFlight s), hPromises := oset p (q, None) (hPromises s)\<rparr>))
     (Spawn (j p) (\<lambda>_. join_promise me q Processed p)))"

text \<open>A request that repeats an earlier one: its promise, else its recorded response, else \<open>otherwise\<close>.\<close>

definition repeat_answer :: "nat \<Rightarrow> request_envelope \<Rightarrow> unit step \<Rightarrow> unit step" where
  "repeat_answer me q otherwise = Get (\<lambda>s. case oget (hInFlight s) (requestKey q) of
     Some p \<Rightarrow> join_promise me q Joined p
   | None \<Rightarrow> (case oget (hCache s) (requestKey q) of Some x \<Rightarrow> respond me q Cached x | None \<Rightarrow> otherwise))"

definition begin_failure :: "request_envelope \<Rightarrow> begin_result \<Rightarrow> response_envelope" where
  "begin_failure q b = (case b of
     BeginStaleEpoch expected received \<Rightarrow> errorResponse q \<lparr>errorCode = ''STALE_RUNTIME_EPOCH'',
       errorMessage = ''Request targets a stale runtime epoch'', retryable = False,
       errorDetails = Some (JObj [(''expectedRuntimeEpoch'', JStr expected), (''receivedRuntimeEpoch'', JStr received)])\<rparr>
   | RequestConflict a \<Rightarrow> refusal q ''REQUEST_ID_CONFLICT'' ''Request id was reused with different data''
   | _ \<Rightarrow> refusal q ''EXECUTION_ID_CONFLICT'' ''Execution id is already owned by another request'')"

definition handle_request :: "host_config \<Rightarrow> nat \<Rightarrow> request_envelope \<Rightarrow> unit step" where
  "handle_request cfg me q = ledgerFor cfg (request_scope_key q) (\<lambda>n. Get (\<lambda>s.
     let (l, b) = begin_request q (ledger_at s n) in
     Put (set_ledger n l s) (case b of
       Duplicate a \<Rightarrow> repeat_answer me q (respond me q Refused (refusal q ''DUPLICATE_INCOMPLETE'' ''Duplicate request has no result''))
     | Accepted a \<Rightarrow> fresh_number (\<lambda>ctl. andThen
         (change (\<lambda>s. s\<lparr>hHistory := oset (requestKey q) q (hHistory s), hControllers := oset (requestKey q) ctl (hControllers s)\<rparr>))
         (launch me q (\<lambda>p. ProcessRequest q p n a ctl)))
     | _ \<Rightarrow> respond me q Refused (begin_failure q b))))"

subsection \<open>Aborts\<close>

definition active_of :: "host \<Rightarrow> nat \<Rightarrow> string \<Rightarrow> string \<Rightarrow> active_execution option" where
  "active_of s r e i = (case oget (hsActive (hrec s r)) e of
     Some x \<Rightarrow> if execRequestId (axDescriptor x) = i then Some x else None | None \<Rightarrow> None)"

definition reason_or :: "string \<Rightarrow> string option \<Rightarrow> string" where
  "reason_or d m = (case m of Some x \<Rightarrow> x | None \<Rightarrow> d)"

fun unrecorded :: "cancel_result \<Rightarrow> bool" where
  "unrecorded (CancelStaleEpoch e g) = True"
| "unrecorded (CancelRequestConflict a) = True"
| "unrecorded (CancelExecutionConflict a) = True"
| "unrecorded (DuplicateAbort a) = True"
| "unrecorded _ = False"

fun is_duplicate :: "cancel_result \<Rightarrow> bool" where
  "is_duplicate (DuplicateAbort a) = True"
| "is_duplicate _ = False"

fun is_cancel_request :: "cancel_result \<Rightarrow> bool" where
  "is_cancel_request (CancelRequest a t) = True"
| "is_cancel_request _ = False"

definition signal_execution :: "request_envelope \<Rightarrow> string \<Rightarrow> string \<Rightarrow> string option \<Rightarrow> unit step" where
  "signal_execution q e i m = Get (\<lambda>s. case oget (hSessions s) (request_scope_key q) of
     None \<Rightarrow> proceed
   | Some r \<Rightarrow> (case active_of s r e i of None \<Rightarrow> proceed | Some x \<Rightarrow> abort_signal (reason_or ''runtime-abort'' m) (axController x)))"

definition handleAbort :: "host_config \<Rightarrow> nat \<Rightarrow> request_envelope \<Rightarrow> string \<Rightarrow> string \<Rightarrow> string option \<Rightarrow> unit step" where
  "handleAbort cfg me q e i m = ledgerFor cfg (request_scope_key q) (\<lambda>n. Get (\<lambda>s.
     let (l, c) = cancel_with q e i (ledger_at s n);
         start = andThen (change (\<lambda>s. if unrecorded c then s else s\<lparr>hHistory := oset (requestKey q) q (hHistory s)\<rparr>))
           (launch me q (\<lambda>p. ProcessAbort q p n c)) in
     Put (set_ledger n l s) (andThen (if is_cancel_request c then signal_execution q e i m else proceed)
       (if is_duplicate c then repeat_answer me q start else start))))"

definition status_success :: "request_envelope \<Rightarrow> string \<Rightarrow> response_envelope" where
  "status_success q st = successResponse q (JObj [(''status'', JStr st)])"

definition target_terminal :: "host \<Rightarrow> nat \<Rightarrow> nat \<Rightarrow> bool" where
  "target_terminal s n t = (case entry_at s n t of Some x \<Rightarrow> isTerminal (entryStatus x) | None \<Rightarrow> False)"

definition abort_before_start :: "nat \<Rightarrow> nat \<Rightarrow> string option \<Rightarrow> unit step" where
  "abort_before_start n t m = Get (\<lambda>s. case entry_at s n t of
     None \<Rightarrow> proceed
   | Some x \<Rightarrow> (case oget (hControllers s) (requestKey (entryRequest x)) of
        None \<Rightarrow> proceed | Some ctl \<Rightarrow> abort_signal (reason_or ''runtime-abort-before-start'' m) ctl))"

text \<open>What is left to do for an execution that was running when the abort arrived.\<close>

definition cancel_running ::
  "host_config \<Rightarrow> request_envelope \<Rightarrow> string \<Rightarrow> string \<Rightarrow> string option \<Rightarrow> nat \<Rightarrow> nat \<Rightarrow> bool \<Rightarrow> response_envelope step" where
  "cancel_running cfg q e i m n t first = Get (\<lambda>s.
     if target_terminal s n t then Ret (status_success q ''already-terminal'')
     else if hDisposed s then Ret (refusal q ''HOST_DISPOSED'' ''Runtime host is disposed'')
     else after (requireSession q) (\<lambda>r. Get (\<lambda>s. case active_of s r e i of
       None \<Rightarrow> Ret (refusal q ''EXECUTION_NOT_FOUND'' ''Active execution was not found'')
     | Some x \<Rightarrow>
         if \<not> first then Ret (status_success q ''already-cancel-requested'')
         else
           let d = (axDescriptor x)\<lparr>execStatus := CancelRequested\<rparr> in
           andThen (change (update_record r (\<lambda>y. y\<lparr>hsActive := oset e (x\<lparr>axDescriptor := d\<rparr>) (hsActive y)\<rparr>)))
             (andThen (emitExecution cfg r d (trace q)) (Get (\<lambda>s.
               if hDisposed s then Ret (refusal q ''HOST_DISPOSED'' ''Runtime host is disposed'')
               else andThen (abort_signal (reason_or ''runtime-abort'' m) (axController x))
                 (andThen (if execKind d = KPrompt then andThen (emit (AdapterAbort (hsAdapter (hrec s r)) (executionId d))) adapter_done else proceed)
                   (Get (\<lambda>s. Ret (if hDisposed s then refusal q ''HOST_DISPOSED'' ''Runtime host is disposed''
                      else status_success q ''cancel-requested''))))))))))"

fun processCancellation ::
  "host_config \<Rightarrow> request_envelope \<Rightarrow> string \<Rightarrow> string \<Rightarrow> string option \<Rightarrow> nat \<Rightarrow> cancel_result \<Rightarrow> response_envelope step" where
  "processCancellation cfg q e i m n (CancelStaleEpoch x g) = Ret (refusal q ''STALE_RUNTIME_EPOCH'' ''Abort targets a stale runtime epoch'')"
| "processCancellation cfg q e i m n (CancelRequestConflict a) = Ret (refusal q ''REQUEST_ID_CONFLICT'' ''Abort request identity conflicts'')"
| "processCancellation cfg q e i m n (CancelExecutionConflict a) = Ret (refusal q ''REQUEST_ID_CONFLICT'' ''Abort request identity conflicts'')"
| "processCancellation cfg q e i m n (DuplicateAbort a) = Ret (status_success q ''duplicate'')"
| "processCancellation cfg q e i m n (CancelNotFound a) = Ret (refusal q ''EXECUTION_NOT_FOUND'' ''Execution was not found'')"
| "processCancellation cfg q e i m n (CancelMismatch a t) =
     Ret (refusal q ''EXECUTION_IDENTITY_MISMATCH'' ''Abort did not exactly match the execution'')"
| "processCancellation cfg q e i m n (CancelBeforeStart a t) = andThen (abort_before_start n t m) (Ret (status_success q ''cancelled-before-start''))"
| "processCancellation cfg q e i m n (CancelTerminal a t) = Ret (status_success q ''already-terminal'')"
| "processCancellation cfg q e i m n (CancelRequest a t) = cancel_running cfg q e i m n t True"
| "processCancellation cfg q e i m n (AlreadyCancelRequested a t) = cancel_running cfg q e i m n t False"

definition process_abort :: "host_config \<Rightarrow> request_envelope \<Rightarrow> nat \<Rightarrow> nat \<Rightarrow> cancel_result \<Rightarrow> unit step" where
  "process_abort cfg q p n c = (case operation q of
     Abort e i m \<Rightarrow> settle_request cfg p q False (processCancellation cfg q e i m n c)
   | _ \<Rightarrow> proceed)"

definition handle :: "host_config \<Rightarrow> nat \<Rightarrow> request_envelope \<Rightarrow> unit step" where
  "handle cfg me q = Get (\<lambda>s.
     if \<not> isRuntimeRequestEnvelope (request_json q) then
       (let x = refusal q ''MALFORMED_REQUEST'' ''Runtime request is not valid plain wire data'' in
        if isRuntimeResponseEnvelope (response_json x) then respond me q Refused x else emit (CallRejected me q))
     else if hDisposed s then respond me q Refused (refusal q ''HOST_DISPOSED'' ''Runtime host is disposed'')
     else if hRestoring s \<noteq> None then
       (case (oget (hHistory s) (requestKey q), oget (hCache s) (requestKey q)) of
          (Some q', Some x) \<Rightarrow>
            if canonicalEnvelope q' = canonicalEnvelope q then respond me q Cached x
            else respond me q Refused (errorResponse q (described ''HOST_RESTORING'' ''Runtime host is restoring persisted state'' True))
        | _ \<Rightarrow> respond me q Refused (errorResponse q (described ''HOST_RESTORING'' ''Runtime host is restoring persisted state'' True)))
     else (case operation q of Abort e i m \<Rightarrow> handleAbort cfg me q e i m | _ \<Rightarrow> handle_request cfg me q))"

subsection \<open>Hello, export, agent events\<close>

definition scope_cursors :: "host \<Rightarrow> string \<Rightarrow> int \<Rightarrow> recovery_cursor list" where
  "scope_cursors s c w = map (\<lambda>x. \<lparr>cursorSessionId = hsSession x, cursorTarget = hsTarget x, cursorRevision = hsRevision x,
     cursorEventSeq = hsEventSeq x\<rparr>) (filter (\<lambda>x. hsClient x = c \<and> hsWindow x = w) (map (hrec s) (ovals (hSessions s))))"

definition emitHello :: "host_config \<Rightarrow> string \<Rightarrow> int \<Rightarrow> recovery_mode \<Rightarrow> string option \<Rightarrow> trace_context option \<Rightarrow> hello_envelope step" where
  "emitHello cfg c w mode prev tr = Get (\<lambda>s.
     let previous = (case orElse prev (hRestoredFrom s) of Some p \<Rightarrow> if p = [] then None else Some p | None \<Rightarrow> None);
         h = \<lparr>protocolVersion = RUNTIME_PROTOCOL_VERSION, runtimeEpoch = cfgEpoch cfg, clientId = c, windowId = w, trace = tr,
              recoveryMode = mode, previousRuntimeEpoch = previous, recoverySessions = scope_cursors s c w\<rparr> in
     if hRestoring s \<noteq> None then Throw (plain_error ''Runtime hello cannot be emitted while state is restoring'')
     else if mode = Restarted \<and> previous = None then Throw (plain_error ''A restarted hello requires the previous runtime epoch'')
     else andThen (emit_stream None (Hello h)) (Ret h))"

definition export_session :: "host_config \<Rightarrow> host \<Rightarrow> host_session \<Rightarrow> host_error + persisted_session" where
  "export_session cfg s x = seq (snapshot cfg s x) (\<lambda>v. Inr \<lparr>perClient = hsClient x, perWindow = hsWindow x, perSession = hsSession x,
     perTarget = hsTarget x, perRevision = hsRevision x, perEventSeq = hsEventSeq x, perSnapshot = v\<rparr>)"

fun seq_map :: "('x \<Rightarrow> host_error + 'y) \<Rightarrow> 'x list \<Rightarrow> host_error + 'y list" where
  "seq_map f [] = Inr []"
| "seq_map f (x # xs) = seq (f x) (\<lambda>y. seq (seq_map f xs) (\<lambda>ys. Inr (y # ys)))"

definition exportState :: "host_config \<Rightarrow> host_state step" where
  "exportState cfg = Get (\<lambda>s.
     if hRestoring s \<noteq> None then Throw (plain_error ''Runtime state cannot be exported while restoration is in progress'')
     else if list_ex (\<lambda>r. 0 < hsPending (hrec s r)) (ovals (hSessions s))
     then Throw (plain_error ''Runtime state cannot be exported while a session mutation is pending'')
     else case seq_map (export_session cfg s) (map (hrec s) (ovals (hSessions s))) of
       Inl e \<Rightarrow> Throw e
     | Inr ps \<Rightarrow> Ret \<lparr>hostEpoch = cfgEpoch cfg, hostSessions = ps,
         hostRequests = map (\<lambda>(k, q). (q, oget (hCache s) k)) (hHistory s)\<rparr>)"

definition agent_event_valid :: "host_config \<Rightarrow> host_session \<Rightarrow> jval \<Rightarrow> bool" where
  "agent_event_valid cfg x v \<longleftrightarrow> isRuntimeWireValue v
     \<and> checked_stream (SessionStream (record_stream cfg x (max 1 (hsEventSeq x + 1)) None (AgentEventPayload v)))"

definition onAgentEvent :: "host_config \<Rightarrow> nat \<Rightarrow> jval \<Rightarrow> unit step" where
  "onAgentEvent cfg r v = Get (\<lambda>s.
     if hDisposed s \<or> \<not> published s r \<and> \<not> (hRestoring s \<noteq> None \<and> hsInitializing (hrec s r)) \<or> \<not> agent_event_valid cfg (hrec s r) v then proceed
     else if hRestoring s \<noteq> None then change (\<lambda>s. if r \<in> set (hDirty s) then s else s\<lparr>hDirty := hDirty s @ [r]\<rparr>)
     else fresh_number (\<lambda>t. Spawn (EventMutation r t v) (\<lambda>p. change (join_queue r t p))))"

definition active_prompt_trace :: "host_session \<Rightarrow> trace_context option" where
  "active_prompt_trace x = (case hsPrompt x of
     None \<Rightarrow> None | Some e \<Rightarrow> (case oget (hsActive x) e of Some a \<Rightarrow> axTrace a | None \<Rightarrow> None))"

definition event_mutation :: "host_config \<Rightarrow> nat \<Rightarrow> nat \<Rightarrow> jval \<Rightarrow> unit step" where
  "event_mutation cfg r t v = run_mutation r t (Get (\<lambda>s.
     if hDisposed s \<or> \<not> published s r then proceed
     else andThen (bump_revision r) (Get (\<lambda>s. emitSession cfg r (AgentEventPayload v) (active_prompt_trace (hrec s r))))))"

subsection \<open>Checking persisted state\<close>

fun all_pass :: "('x \<Rightarrow> host_error + unit) \<Rightarrow> 'x list \<Rightarrow> host_error + unit" where
  "all_pass f [] = Inr ()"
| "all_pass f (x # xs) = seq (f x) (\<lambda>_. all_pass f xs)"

definition fails_when :: "bool \<Rightarrow> string \<Rightarrow> host_error + unit" where
  "fails_when b msg = (if b then Inl (plain_error msg) else Inr ())"

fun mismatch_text :: "mismatch \<Rightarrow> string" where
  "mismatch_text MProtocolVersion = ''protocolVersion''"
| "mismatch_text MRuntimeEpoch = ''runtimeEpoch''"
| "mismatch_text MClientId = ''clientId''"
| "mismatch_text MWindowId = ''windowId''"
| "mismatch_text MSessionId = ''sessionId''"
| "mismatch_text MTarget = ''target''"
| "mismatch_text MRequestId = ''requestId''"
| "mismatch_text MOperation = ''operation''"
| "mismatch_text MTrace = ''trace''"

fun begin_text :: "begin_result \<Rightarrow> string" where
  "begin_text (Accepted a) = ''accepted''"
| "begin_text (Duplicate a) = ''duplicate''"
| "begin_text (RequestConflict a) = ''request-conflict''"
| "begin_text (ExecutionConflict a) = ''execution-conflict''"
| "begin_text (BeginStaleEpoch e g) = ''stale-epoch''"

fun is_abort_operation :: "operation \<Rightarrow> bool" where
  "is_abort_operation (Abort e i m) = True"
| "is_abort_operation _ = False"

text \<open>The comparison puts aborts last; two aborts compare inconsistently and keep their order.\<close>

definition orderedRequestHistory ::
  "(request_envelope \<times> response_envelope option) list \<Rightarrow> (request_envelope \<times> response_envelope option) list" where
  "orderedRequestHistory rs = filter (\<lambda>p. \<not> is_abort_operation (operation (fst p))) rs
     @ filter (\<lambda>p. is_abort_operation (operation (fst p))) rs"

definition response_recorded :: "request_envelope \<Rightarrow> response_envelope option \<Rightarrow> host_error + unit" where
  "response_recorded q x = (case x of
     None \<Rightarrow> Inr ()
   | Some x \<Rightarrow> seq (fails_when (\<not> isRuntimeResponseEnvelope (response_json x)) ''Persisted runtime response is malformed'') (\<lambda>_.
       fails_when (correlateRuntimeResponse q x \<noteq> [])
         (''Persisted response is not correlated: '' @ join '', '' (map mismatch_text (correlateRuntimeResponse q x)))))"

fun validate_requests :: "string \<Rightarrow> ledger \<Rightarrow> (request_envelope \<times> response_envelope option) list \<Rightarrow> host_error + unit" where
  "validate_requests epoch l [] = Inr ()"
| "validate_requests epoch l ((q, x) # rs) =
     seq (fails_when (\<not> isRuntimeRequestEnvelope (request_json q)) ''Persisted runtime request is malformed'') (\<lambda>_.
     seq (fails_when (runtimeEpoch q \<noteq> epoch) ''Persisted request targets another runtime epoch'') (\<lambda>_.
     seq (response_recorded q x) (\<lambda>_.
     (let (l', b) = begin_request q l in
      case b of Accepted a \<Rightarrow> validate_requests epoch l' rs
      | _ \<Rightarrow> Inl (plain_error (''Persisted request ledger is invalid: '' @ begin_text b))))))"

definition validateRequestHistory :: "(request_envelope \<times> response_envelope option) list \<Rightarrow> string \<Rightarrow> host_error + unit" where
  "validateRequestHistory rs epoch = (case new_ledger epoch of
     Inl e \<Rightarrow> Inl (plain_error e) | Inr l \<Rightarrow> validate_requests epoch l (orderedRequestHistory rs))"

definition owns_execution :: "persisted_session \<Rightarrow> execution_descriptor \<Rightarrow> request_envelope \<times> response_envelope option \<Rightarrow> bool" where
  "owns_execution p x rec \<longleftrightarrow> clientId (fst rec) = perClient p \<and> windowId (fst rec) = perWindow p \<and> sessionId (fst rec) = perSession p
     \<and> requestId (fst rec) = execRequestId x \<and> same_target (target (fst rec)) (perTarget p) \<and> snd rec = None
     \<and> operationExecution (operation (fst rec)) = Some (executionId x, execKind x)"

fun is_live :: "execution_status \<Rightarrow> bool" where
  "is_live Queued = True"
| "is_live Running = True"
| "is_live CancelRequested = True"
| "is_live _ = False"

fun validate_executions ::
  "host_state \<Rightarrow> persisted_session \<Rightarrow> string list \<Rightarrow> string list \<Rightarrow> execution_descriptor list \<Rightarrow> host_error + unit" where
  "validate_executions st p es is [] = Inr ()"
| "validate_executions st p es is (x # xs) =
     seq (fails_when (executionId x \<in> set es \<or> execRequestId x \<in> set is) ''Persisted active execution identity is duplicated'') (\<lambda>_.
     seq (fails_when (\<not> is_live (execStatus x)) ''Persisted active execution is already terminal'') (\<lambda>_.
     seq (fails_when (\<not> list_ex (owns_execution p x) (hostRequests st)) ''Persisted active execution has no unfinished request owner'') (\<lambda>_.
     validate_executions st p (executionId x # es) (execRequestId x # is) xs)))"

definition validateActiveExecutionHistory :: "host_state \<Rightarrow> host_error + unit" where
  "validateActiveExecutionHistory st =
     all_pass (\<lambda>p. validate_executions st p [] [] (activeExecutions (perSnapshot p))) (hostSessions st)"

definition persisted_key :: "persisted_session \<Rightarrow> string" where
  "persisted_key p = host_key (perClient p) (perWindow p) (perSession p)"

definition snapshot_protocol :: "host_config \<Rightarrow> persisted_session \<Rightarrow> session_snapshot \<Rightarrow> host_error + unit" where
  "snapshot_protocol cfg p x = assertSnapshotProtocol (cfgEpoch cfg) (perClient p) (perWindow p) (perSession p) (perTarget p)
     (perEventSeq p + 1) x"

fun validate_sessions :: "host_config \<Rightarrow> string list \<Rightarrow> persisted_session list \<Rightarrow> host_error + unit" where
  "validate_sessions cfg ks [] = Inr ()"
| "validate_sessions cfg ks (p # ps) =
     seq (fails_when (perRevision p < 0) ''Persisted session revision must be a non-negative integer'') (\<lambda>_.
     seq (fails_when (perEventSeq p < 0) ''Persisted session event sequence must be a non-negative integer'') (\<lambda>_.
     seq (fails_when (perRevision p \<noteq> snapRevision (perSnapshot p)) ''Persisted session revision does not match its snapshot'') (\<lambda>_.
     seq (fails_when (persisted_key p \<in> set ks) ''Persisted runtime state contains duplicate sessions'') (\<lambda>_.
     seq (snapshot_protocol cfg p (perSnapshot p)) (\<lambda>_.
     validate_sessions cfg (persisted_key p # ks) ps)))))"

definition validateRestoreState :: "host_config \<Rightarrow> host_state \<Rightarrow> host_error + unit" where
  "validateRestoreState cfg st =
     seq (fails_when (\<not> nonblank (hostEpoch st)) ''Persisted runtime epoch must be non-empty'') (\<lambda>_.
     seq (validate_sessions cfg [] (hostSessions st)) (\<lambda>_.
     seq (validateRequestHistory (hostRequests st) (hostEpoch st)) (\<lambda>_.
     validateActiveExecutionHistory st)))"

subsection \<open>Restoring\<close>

definition orphaned_executions :: "session_snapshot \<Rightarrow> execution_descriptor list" where
  "orphaned_executions x = filter (\<lambda>d. is_live (execStatus d)) (activeExecutions x)"

definition restored_snapshot :: "session_snapshot \<Rightarrow> session_snapshot" where
  "restored_snapshot x = (if orphaned_executions x = [] then x
     else x\<lparr>activeExecutions := [], pendingToolCallIds := [], isStreaming := False, streamingMessage := None,
       snapErrorMessage := Some ''Runtime resumed after active execution state was lost''\<rparr>)"

definition restored_record :: "bool \<Rightarrow> persisted_session \<Rightarrow> nat \<Rightarrow> host_session" where
  "restored_record preserve p a = new_record (perClient p) (perWindow p) (perSession p) (perTarget p) a (perRevision p)
     (if preserve then perEventSeq p else 0)"

definition restoreSession :: "host_config \<Rightarrow> bool \<Rightarrow> persisted_session \<Rightarrow> nat \<Rightarrow> nat step" where
  "restoreSession cfg preserve p ctl =
     (if \<not> hasRestore cfg then Throw (plain_error ''Session factory does not support restore'')
      else andThen (assertAcquisitionActive ctl)
        (case snapshot_protocol cfg p (perSnapshot p) of
           Inl e \<Rightarrow> Throw e
         | Inr _ \<Rightarrow> andThen (emit (FactoryRestore p (restored_snapshot (perSnapshot p)) ctl)) (after factory_adapter (\<lambda>a.
             andThen (awaited (assertAdapterAcquisitionActive a ctl))
               (awaited (addSession cfg (restored_record preserve p a) ctl))))))"

definition restore_one :: "host_config \<Rightarrow> bool \<Rightarrow> persisted_session \<Rightarrow> nat step" where
  "restore_one cfg preserve p = fresh_number (\<lambda>ctl. fresh_number (\<lambda>task.
     andThen (change (\<lambda>s. s\<lparr>hRestoreControllers := ctl # hRestoreControllers s, hRestoreTasks := task # hRestoreTasks s\<rparr>))
       (ensuring (awaited (restoreSession cfg preserve p ctl))
         (change (\<lambda>s. s\<lparr>hRestoreControllers := removeAll ctl (hRestoreControllers s), hRestoreTasks := removeAll task (hRestoreTasks s)\<rparr>)))))"

fun restore_all :: "host_config \<Rightarrow> bool \<Rightarrow> persisted_session list \<Rightarrow> (nat \<times> execution_descriptor list) list step" where
  "restore_all cfg preserve [] = Ret []"
| "restore_all cfg preserve (p # ps) = after (restore_one cfg preserve p) (\<lambda>r. after (restore_all cfg preserve ps) (\<lambda>rs.
     Ret ((r, orphaned_executions (perSnapshot p)) # rs)))"

definition settle_orphan :: "host_config \<Rightarrow> nat \<Rightarrow> execution_descriptor \<Rightarrow> unit step" where
  "settle_orphan cfg r d = Get (\<lambda>s. emitExecution cfg r (d\<lparr>execStatus := Cancelled, finishedAt := Some (hClock s),
     execError := Some (described ''RUNTIME_RESTORED'' ''Execution could not continue after runtime restoration'' True)\<rparr>) None)"

definition settleRestoredExecutions :: "host_config \<Rightarrow> nat \<times> execution_descriptor list \<Rightarrow> unit step" where
  "settleRestoredExecutions cfg result = (case result of (r, orphaned) \<Rightarrow>
     if orphaned = [] then proceed
     else andThen (bump_revision r) (andThen (each (settle_orphan cfg r) orphaned) (emitSnapshot cfg r None)))"

definition restored_status :: "response_envelope option \<Rightarrow> terminal_status" where
  "restored_status x = (case x of
     None \<Rightarrow> TCancelled
   | Some x \<Rightarrow> (case responseBody x of
        Success v \<Rightarrow> TSucceeded
      | Failure d \<Rightarrow> if errorCode d = ''ABORTED'' \<or> errorCode d = ''RUNTIME_RESTORED'' then TCancelled else TFailed))"

definition restored_response :: "request_envelope \<Rightarrow> response_envelope option \<Rightarrow> response_envelope" where
  "restored_response q x = (case x of Some x \<Rightarrow> x
     | None \<Rightarrow> errorResponse q (described ''RUNTIME_RESTORED'' ''Request was interrupted by runtime restoration'' True))"

definition restore_ledger :: "request_envelope \<Rightarrow> response_envelope option \<Rightarrow> nat \<Rightarrow> ledger \<Rightarrow> ledger" where
  "restore_ledger q x a l = (case entries l a of
     None \<Rightarrow> l
   | Some e \<Rightarrow> (case executionReferenceFor e of
        None \<Rightarrow> l
      | Some ref \<Rightarrow> fst (markTerminal ref (restored_status x) (fst (markStarted ref l)))))"

definition restore_request :: "host_config \<Rightarrow> request_envelope \<times> response_envelope option \<Rightarrow> unit step" where
  "restore_request cfg rec = (case rec of (q, x) \<Rightarrow>
     if \<not> isRuntimeRequestEnvelope (request_json q) then Throw (plain_error ''Persisted runtime request is malformed'')
     else case response_recorded q x of
       Inl e \<Rightarrow> Throw e
     | Inr _ \<Rightarrow>
         if runtimeEpoch q \<noteq> cfgEpoch cfg then Throw (plain_error ''Same-epoch runtime state contains a request for another epoch'')
         else ledgerFor cfg (request_scope_key q) (\<lambda>n. Get (\<lambda>s.
           let (l, b) = begin_request q (ledger_at s n) in
           Put (set_ledger n l s) (case b of
             Accepted a \<Rightarrow> change (\<lambda>s. set_ledger n (restore_ledger q x a (ledger_at s n))
               (s\<lparr>hHistory := oset (requestKey q) q (hHistory s), hCache := oset (requestKey q) (restored_response q x) (hCache s)\<rparr>))
           | _ \<Rightarrow> Throw (plain_error (''Could not restore request ledger entry: '' @ begin_text b))))))"

definition restoreRequestHistory :: "host_config \<Rightarrow> (request_envelope \<times> response_envelope option) list \<Rightarrow> unit step" where
  "restoreRequestHistory cfg rs = andThen (each (restore_request cfg) (orderedRequestHistory rs))
     (andThen (each (\<lambda>p. rememberCompletedRequest cfg (requestKey (fst p)) False) rs) (change (pruneCompletedRequests cfg)))"

definition clear_history :: "host \<Rightarrow> host" where
  "clear_history s = s\<lparr>hCache := [], hHistory := [], hLedgers := [], hCompleted := []\<rparr>"

definition emit_dirty :: "host_config \<Rightarrow> nat \<Rightarrow> unit step" where
  "emit_dirty cfg r = Get (\<lambda>s. if published s r then andThen (bump_revision r) (emitSnapshot cfg r None) else proceed)"

text \<open>The body answers with the emissions to make when the restoration is over.\<close>

definition restore_body :: "host_config \<Rightarrow> host_state \<Rightarrow> (nat option \<times> stream_envelope) list step" where
  "restore_body cfg st =
     (if \<not> isRuntimeWireValue (host_state_json st)
      then Throw (coded_error ''NON_SERIALIZABLE_STATE'' ''Runtime host state is not plain runtime data'')
      else case validateRestoreState cfg st of
        Inl e \<Rightarrow> Throw e
      | Inr _ \<Rightarrow> andThen (change clear_history)
          (after (restore_all cfg (hostEpoch st = cfgEpoch cfg) (hostSessions st)) (\<lambda>restored.
            andThen (if hostEpoch st = cfgEpoch cfg then restoreRequestHistory cfg (hostRequests st) else proceed)
              (andThen (each (settleRestoredExecutions cfg) restored)
                (andThen (Get (\<lambda>s. each (emit_dirty cfg) (hDirty s)))
                  (andThen (change (\<lambda>s. s\<lparr>hRestoredFrom := Some (hostEpoch st)\<rparr>))
                    (Get (\<lambda>s. Ret (case hBuffer s of Some b \<Rightarrow> b | None \<Rightarrow> []))))))))) "

definition rollbackRestoredState :: "unit step" where
  "rollbackRestoredState = Get (\<lambda>s. andThen (each detach_session (ovals (hSessions s))) (andThen all_cleaned
     (change (\<lambda>s. clear_history (s\<lparr>hSessions := [], hRestoredFrom := None\<rparr>)))))"

text \<open>What was there before the restoration, put back after a rollback.\<close>

definition reinstate :: "host \<Rightarrow> host \<Rightarrow> host" where
  "reinstate s0 s = (if hDisposed s then s
     else s\<lparr>hHistory := fold (\<lambda>(k, v). oset k v) (hHistory s0) (hHistory s), hCache := fold (\<lambda>(k, v). oset k v) (hCache s0) (hCache s),
       hLedgers := fold (\<lambda>(k, v). oset k v) (hLedgers s0) (hLedgers s), hCompleted := hCompleted s @ hCompleted s0,
       hRestoredFrom := hRestoredFrom s0\<rparr>)"

definition flush_one :: "nat option \<times> stream_envelope \<Rightarrow> unit step" where
  "flush_one p = emit_stream (fst p) (snd p)"

definition restore_safely :: "host_config \<Rightarrow> host_state \<Rightarrow> host \<Rightarrow> (nat option \<times> stream_envelope) list step" where
  "restore_safely cfg st s0 = ensuring
     (rescue (restore_body cfg st) (\<lambda>e. andThen (awaited rollbackRestoredState) (andThen (change (reinstate s0)) (Throw e))))
     (change (\<lambda>s. s\<lparr>hRestoring := None, hBuffer := None, hDirty := []\<rparr>))"

definition restoreState :: "host_config \<Rightarrow> nat \<Rightarrow> host_state \<Rightarrow> unit step" where
  "restoreState cfg me st = Get (\<lambda>s0.
     if hDisposed s0 then Throw (plain_error ''Runtime host is disposed'')
     else if hRestoring s0 \<noteq> None then Throw (plain_error ''Runtime state restoration is already in progress'')
     else if hInFlight s0 \<noteq> [] \<or> hAcquisitions s0 \<noteq> [] then Throw (plain_error ''Runtime state cannot be restored while requests are active'')
     else if hSessions s0 \<noteq> [] then Throw (plain_error ''Runtime state can only be restored into an empty host'')
     else if \<not> hasRestore cfg then Throw (plain_error ''Session factory does not support restore'')
     else Put (s0\<lparr>hBuffer := Some [], hDirty := [], hRestoring := Some me\<rparr>)
       (after (restore_safely cfg st s0) (\<lambda>committed. andThen (each flush_one committed) notifyStateChanged)))"

subsection \<open>Disposal\<close>

definition close_session :: "nat \<Rightarrow> unit step" where
  "close_session r = Get (\<lambda>s.
     andThen (if hsSubscribed (hrec s r) then emit (AdapterUnsubscribe (hsAdapter (hrec s r)) r) else proceed)
       (andThen (each (abort_signal ''runtime-host-disposed'') (map axController (ovals (hsActive (hrec s r)))))
         (dispose_adapter (hsAdapter (hrec s r)))))"

definition close_sessions :: "unit step" where
  "close_sessions = Get (\<lambda>s. andThen (each close_session (ovals (hSessions s))) (change (\<lambda>s. s\<lparr>hSessions := []\<rparr>)))"

definition performDispose :: "unit step" where
  "performDispose = andThen (change (\<lambda>s. s\<lparr>hDisposed := True\<rparr>))
     (andThen (Get (\<lambda>s. each (abort_signal ''runtime-host-disposed'') (ovals (hControllers s) @ hRestoreControllers s)))
       (andThen close_sessions
         (andThen (change (\<lambda>s. s\<lparr>hControllers := [], hInFlight := [], hCache := [], hHistory := [], hCompleted := []\<rparr>))
           (Get (\<lambda>s. andThen (after (await (AllSettled (ovals (hAcquisitions s)) (hRestoreTasks s))) (\<lambda>_. Ret ()))
             (andThen close_sessions
               (andThen (change (\<lambda>s. s\<lparr>hAcquisitions := [], hRestoreControllers := [], hRestoreTasks := []\<rparr>))
                 (andThen all_cleaned (change (\<lambda>s. s\<lparr>hDisposeDone := True\<rparr>))))))))))"

definition dispose_host :: "unit step" where
  "dispose_host = Get (\<lambda>s. if hDisposed s then after (await DisposeFinished) (\<lambda>_. Ret ()) else performDispose)"

subsection \<open>The system\<close>

definition report_call :: "nat \<Rightarrow> ('a \<Rightarrow> call_end) \<Rightarrow> 'a step \<Rightarrow> unit step" where
  "report_call me f p = rescue (after p (\<lambda>a. emit (CallEnded me (f a)))) (\<lambda>e. emit (CallEnded me (CallThrew e)))"

fun run_host_job :: "host_config \<Rightarrow> nat \<Rightarrow> host_job \<Rightarrow> unit step" where
  "run_host_job cfg me (HandleCall q) = handle cfg me q"
| "run_host_job cfg me (ProcessRequest q p n a ctl) = settle_request cfg p q True (processAccepted cfg me q n a ctl)"
| "run_host_job cfg me (ProcessAbort q p n c) = process_abort cfg q p n c"
| "run_host_job cfg me (EmitHello c w mode prev tr) = report_call me HelloSaid (emitHello cfg c w mode prev tr)"
| "run_host_job cfg me ExportState = report_call me Exported (exportState cfg)"
| "run_host_job cfg me (RestoreState st) = report_call me (\<lambda>_. Restored) (restoreState cfg me st)"
| "run_host_job cfg me DisposeHost = report_call me (\<lambda>_. HostGone) dispose_host"
| "run_host_job cfg me (AgentEvent r v) = onAgentEvent cfg r v"
| "run_host_job cfg me (EventMutation r t v) = event_mutation cfg r t v"
| "run_host_job cfg me (AdapterShows a v) = change (\<lambda>s. s\<lparr>hAdapters := oset a v (hAdapters s)\<rparr>)"
| "run_host_job cfg me (ClockTick now) = change (\<lambda>s. s\<lparr>hClock := now\<rparr>)"

text \<open>
  What a query can be answered with: turns and promises by the state, the environment freely within the kind
  of its answer.
\<close>

fun host_answers :: "nat \<Rightarrow> host \<Rightarrow> host_query \<Rightarrow> host_answer \<Rightarrow> bool" where
  "host_answers i s (MutationTurn r t) w \<longleftrightarrow> w = Done \<and> hsQueue (hrec s r) \<noteq> [] \<and> hd (hsQueue (hrec s r)) = (t, i)"
| "host_answers i s (TailOf r None) w \<longleftrightarrow> w = Done"
| "host_answers i s (TailOf r (Some t)) w \<longleftrightarrow> w = Done \<and> t \<notin> fst ` set (hsQueue (hrec s r))"
| "host_answers i s (AcquisitionTurn t) w \<longleftrightarrow> w = Done \<and> t \<notin> set (hOpenTurns s)"
| "host_answers i s (PromiseOf p) w \<longleftrightarrow> (case oget (hPromises s) p of Some (q, Some x) \<Rightarrow> w = GotResponse x | _ \<Rightarrow> False)"
| "host_answers i s (AllSettled ts ks) w \<longleftrightarrow> w = Done \<and> set ts \<inter> set (hOpenTurns s) = {} \<and> set ks \<inter> set (hRestoreTasks s) = {}"
| "host_answers i s DisposeFinished w \<longleftrightarrow> w = Done \<and> hDisposeDone s"
| "host_answers i s Tick w \<longleftrightarrow> w = Done"
| "host_answers i s CleanedUp w \<longleftrightarrow> w = Done"
| "host_answers i s q w \<longleftrightarrow> (case w of GotResponse x \<Rightarrow> False | _ \<Rightarrow> True)"

abbreviation host_run where
  "host_run cfg es \<equiv> system_run (run_host_job cfg) host_answers es empty_host"

end
