(* ===== verification/HostContract.thy ===== *)
theory HostContract
  imports RuntimeHost
begin

section \<open>The contract of the runtime host\<close>

text \<open>
  What the state of \<open>RuntimeHost\<close> always satisfies, what its processes may emit, how they may change the state
  and what they rely on while they wait, with the triples for the pieces its operations are made of.
\<close>

subsection \<open>The contract\<close>

definition known :: "host \<Rightarrow> nat \<Rightarrow> bool" where
  "known s r \<longleftrightarrow> oget (hRecords s) r \<noteq> None"

definition holds :: "host \<Rightarrow> nat \<Rightarrow> nat \<Rightarrow> nat \<Rightarrow> bool" where
  "holds s r k i \<longleftrightarrow> hsQueue (hrec s r) \<noteq> [] \<and> hd (hsQueue (hrec s r)) = (k, i)"

definition tickets :: "host \<Rightarrow> nat \<Rightarrow> nat list" where
  "tickets s r = map fst (hsQueue (hrec s r))"

fun session_items :: "(nat option \<times> stream_envelope) list \<Rightarrow> (nat \<times> session_stream) list" where
  "session_items [] = []"
| "session_items ((Some r, SessionStream e) # xs) = (r, e) # session_items xs"
| "session_items (_ # xs) = session_items xs"

fun streamed :: "(host \<times> host_output) list \<Rightarrow> (nat option \<times> stream_envelope) list" where
  "streamed [] = []"
| "streamed ((t, Streamed r e) # h) = (r, e) # streamed h"
| "streamed (_ # h) = streamed h"

definition buffered :: "host \<Rightarrow> (nat option \<times> stream_envelope) list" where
  "buffered s = (case hBuffer s of Some b \<Rightarrow> b | None \<Rightarrow> [])"

text \<open>The session streams emitted so far and those a restoration holds back.\<close>

definition session_trace :: "host \<Rightarrow> (host \<times> host_output) list \<Rightarrow> (nat \<times> session_stream) list" where
  "session_trace s h = session_items (streamed h @ buffered s)"

definition before :: "nat \<times> session_stream \<Rightarrow> nat \<times> session_stream \<Rightarrow> bool" where
  "before p q \<longleftrightarrow> (fst p = fst q \<longrightarrow> eventSeq (snd p) < eventSeq (snd q) \<and> revision (snd p) \<le> revision (snd q))"

definition accounted :: "host_config \<Rightarrow> host \<Rightarrow> nat \<times> session_stream \<Rightarrow> bool" where
  "accounted cfg s p \<longleftrightarrow> (case p of (r, e) \<Rightarrow> known s r \<and> eventSeq e \<le> hsEventSeq (hrec s r) \<and> revision e \<le> hsRevision (hrec s r)
     \<and> clientId e = hsClient (hrec s r) \<and> windowId e = hsWindow (hrec s r) \<and> sessionId e = hsSession (hrec s r)
     \<and> target e = hsTarget (hrec s r) \<and> runtimeEpoch e = cfgEpoch cfg \<and> checked_stream (SessionStream e))"

fun mutating :: "host_output \<Rightarrow> (nat \<times> nat) option" where
  "mutating (Mutate r k a ctx m) = Some (r, k)"
| "mutating (ExecuteArtifacts (Some k) p ctx) = Some (ctxSession ctx, k)"
| "mutating _ = None"

definition queue_ok :: "nat \<Rightarrow> host_session \<Rightarrow> bool" where
  "queue_ok n x \<longleftrightarrow> sorted_wrt (<) (map fst (hsQueue x)) \<and> (\<forall>p \<in> set (hsQueue x). fst p < n) \<and> hsPending x = length (hsQueue x)"

definition response_key :: "response_envelope \<Rightarrow> string" where
  "response_key x = scope_key (clientId x) (windowId x) (sessionId x) (responseRequestId x)"

definition history_ok :: "host \<Rightarrow> bool" where
  "history_ok s \<longleftrightarrow> omap_wf (hHistory s) \<and> omap_wf (hCache s) \<and> okeep (\<lambda>k q. requestKey q = k) (hHistory s)
     \<and> okeep (\<lambda>k x. response_key x = k) (hCache s) \<and> distinct (hCompleted s) \<and> (\<forall>k \<in> set (hCompleted s). is_completed k s)"

definition bounded :: "host_config \<Rightarrow> host \<Rightarrow> bool" where
  "bounded cfg s \<longleftrightarrow> length (hCompleted s) \<le> maxCompletedRequests cfg"

definition answers :: "request_envelope \<Rightarrow> response_envelope \<Rightarrow> bool" where
  "answers q x \<longleftrightarrow> correlateRuntimeResponse q x = []"

definition host_well :: "host \<Rightarrow> bool" where
  "host_well s \<longleftrightarrow> okeep (\<lambda>r x. r < hNext s \<and> queue_ok (hNext s) x) (hRecords s)
     \<and> omap_wf (hSessions s) \<and> okeep (\<lambda>k r. known s r \<and> record_key (hrec s r) = k) (hSessions s)
     \<and> (hRestoring s = None \<longleftrightarrow> hBuffer s = None) \<and> (\<forall>p \<in> set (buffered s). \<exists>r e. p = (Some r, SessionStream e))
     \<and> okeep (\<lambda>p v. p < hNext s \<and> isRuntimeRequestEnvelope (request_json (fst v)) \<and> (\<forall>x. snd v = Some x \<longrightarrow> answers (fst v) x)) (hPromises s)
     \<and> okeep (\<lambda>k p. \<exists>v. oget (hPromises s) p = Some v \<and> requestKey (fst v) = k) (hInFlight s)"

definition mutated_ok :: "host \<Rightarrow> (host \<times> host_output) list \<Rightarrow> bool" where
  "mutated_ok s h \<longleftrightarrow> (\<forall>t x r k. (t, x) \<in> set h \<longrightarrow> mutating x = Some (r, k) \<longrightarrow> k < hNext s \<and> (\<forall>k' \<in> set (tickets s r). k \<le> k'))"

definition trace_ok :: "host_config \<Rightarrow> host \<Rightarrow> (host \<times> host_output) list \<Rightarrow> bool" where
  "trace_ok cfg s h \<longleftrightarrow> sorted_wrt before (session_trace s h) \<and> (\<forall>p \<in> set (session_trace s h). accounted cfg s p)"

definition host_keeps :: "host_config \<Rightarrow> host \<Rightarrow> (host \<times> host_output) list \<Rightarrow> bool" where
  "host_keeps cfg s h \<longleftrightarrow> host_well s \<and> trace_ok cfg s h \<and> mutated_ok s h \<and> history_ok s \<and> bounded cfg s"

definition usable :: "host \<Rightarrow> nat \<Rightarrow> nat \<Rightarrow> bool" where
  "usable s ctl r \<longleftrightarrow> ctl \<notin> set (hAborted s) \<and> \<not> hDisposed s \<and> published s r"

definition executing :: "host \<Rightarrow> operation_context \<Rightarrow> bool" where
  "executing s ctx \<longleftrightarrow> usable s (ctxController ctx) (ctxSession ctx)
     \<and> (\<exists>e x. ctxExecution ctx = Some e \<and> oget (hsActive (hrec s (ctxSession ctx))) e = Some x \<and> axController x = ctxController ctx
          \<and> executionId (axDescriptor x) = e \<and> execStatus (axDescriptor x) = Running)"

definition in_turn :: "host \<Rightarrow> (host \<times> host_output) list \<Rightarrow> nat \<Rightarrow> nat \<Rightarrow> bool" where
  "in_turn s h r k \<longleftrightarrow> (\<exists>j. holds s r k j)
     \<and> (\<forall>t x k'. (t, x) \<in> set h \<longrightarrow> mutating x = Some (r, k') \<longrightarrow> k' \<noteq> k \<longrightarrow> k' \<notin> set (tickets s r))"

definition stream_permitted :: "host_config \<Rightarrow> host \<Rightarrow> (host \<times> host_output) list \<Rightarrow> nat option \<Rightarrow> stream_envelope \<Rightarrow> bool" where
  "stream_permitted cfg s h r e \<longleftrightarrow> \<not> hDisposed s \<and> hRestoring s = None \<and> checked_stream e \<and> (case e of
       Hello v \<Rightarrow> runtimeEpoch v = cfgEpoch cfg
     | SessionStream v \<Rightarrow> \<exists>n. r = Some n \<and> known s n \<and> runtimeEpoch v = cfgEpoch cfg \<and> clientId v = hsClient (hrec s n)
         \<and> windowId v = hsWindow (hrec s n) \<and> sessionId v = hsSession (hrec s n) \<and> target v = hsTarget (hrec s n)
         \<and> (\<forall>t v'. (t, Streamed r (SessionStream v')) \<in> set h \<longrightarrow> eventSeq v' < eventSeq v \<and> revision v' \<le> revision v))"

fun host_permits :: "host_config \<Rightarrow> host \<Rightarrow> (host \<times> host_output) list \<Rightarrow> host_output \<Rightarrow> bool" where
  "host_permits cfg s h (Streamed r e) \<longleftrightarrow> stream_permitted cfg s h r e"
| "host_permits cfg s h (Mutate r k a ctx m) \<longleftrightarrow> usable s (ctxController ctx) r \<and> ctxSession ctx = r \<and> a = hsAdapter (hrec s r)
     \<and> in_turn s h r k"
| "host_permits cfg s h (ExecuteArtifacts t p ctx) \<longleftrightarrow> usable s (ctxController ctx) (ctxSession ctx)
     \<and> (\<forall>k. t = Some k \<longrightarrow> in_turn s h (ctxSession ctx) k)"
| "host_permits cfg s h (ExecuteRepl c ctx) \<longleftrightarrow> executing s ctx"
| "host_permits cfg s h (ExecutePage p ps ctx) \<longleftrightarrow> executing s ctx"
| "host_permits cfg s h (PreparePrompt ctx) \<longleftrightarrow> executing s ctx"
| "host_permits cfg s h (AdapterPrompt a m ctx) \<longleftrightarrow> hasPromptPreparation cfg \<or> executing s ctx"
| "host_permits cfg s h (Responded me q src x) \<longleftrightarrow> (if src = Refused \<or> src = Processed
     then isRuntimeRequestEnvelope (request_json q) \<longrightarrow> answers q x else response_key x = requestKey q)"
| "host_permits cfg s h x \<longleftrightarrow> True"

text \<open>How the state grows, whoever moves it.\<close>

definition same_session :: "host_session \<Rightarrow> host_session \<Rightarrow> bool" where
  "same_session x y \<longleftrightarrow> hsClient y = hsClient x \<and> hsWindow y = hsWindow x \<and> hsSession y = hsSession x \<and> hsTarget y = hsTarget x
     \<and> hsAdapter y = hsAdapter x \<and> hsRevision x \<le> hsRevision y \<and> hsEventSeq x \<le> hsEventSeq y"

definition grows :: "host \<Rightarrow> host \<Rightarrow> bool" where
  "grows s t \<longleftrightarrow> (\<forall>r x. oget (hRecords s) r = Some x \<longrightarrow> (\<exists>y. oget (hRecords t) r = Some y \<and> same_session x y))
     \<and> (hDisposed s \<longrightarrow> hDisposed t) \<and> set (hAborted s) \<subseteq> set (hAborted t) \<and> hNext s \<le> hNext t
     \<and> (\<forall>p v. oget (hPromises s) p = Some v \<longrightarrow> (\<exists>v'. oget (hPromises t) p = Some v' \<and> fst v' = fst v))"

definition restores :: "host \<Rightarrow> nat \<Rightarrow> host \<Rightarrow> bool" where
  "restores s i t \<longleftrightarrow> (hRestoring s = Some i \<longrightarrow> hRestoring t = Some i \<and> (hHistory s = [] \<longrightarrow> hHistory t = []))"

definition host_relies :: "nat \<Rightarrow> host \<Rightarrow> host \<Rightarrow> bool" where
  "host_relies i s t \<longleftrightarrow> grows s t \<and> (\<forall>r k. holds s r k i \<longrightarrow> holds t r k i) \<and> restores s i t"

definition host_guarantees :: "nat \<Rightarrow> host \<Rightarrow> host \<Rightarrow> bool" where
  "host_guarantees i s t \<longleftrightarrow> grows s t \<and> (\<forall>r k j. holds s r k j \<longrightarrow> j \<noteq> i \<longrightarrow> holds t r k j) \<and> (\<forall>j. j \<noteq> i \<longrightarrow> restores s j t)"

definition promised :: "host \<Rightarrow> nat \<Rightarrow> request_envelope \<Rightarrow> bool" where
  "promised s p q \<longleftrightarrow> (\<exists>y. oget (hPromises s) p = Some (q, y))"

fun host_enters :: "host \<Rightarrow> host_job \<Rightarrow> bool" where
  "host_enters s (ProcessRequest q p n a ctl) \<longleftrightarrow> promised s p q"
| "host_enters s (ProcessAbort q p n c) \<longleftrightarrow> promised s p q"
| "host_enters s (EventMutation r t v) \<longleftrightarrow> known s r"
| "host_enters s j \<longleftrightarrow> True"

definition host_contract :: "host_config \<Rightarrow> (host, host_output, host_query, host_answer, host_job) contract" where
  "host_contract cfg = \<lparr>keeps = host_keeps cfg, permits = host_permits cfg, relies = host_relies, guarantees = host_guarantees,
     answered = host_answers, enters = host_enters\<rparr>"

lemma host_contract_simps [simp]: "keeps (host_contract cfg) = host_keeps cfg" "permits (host_contract cfg) = host_permits cfg"
  "relies (host_contract cfg) = host_relies" "guarantees (host_contract cfg) = host_guarantees"
  "answered (host_contract cfg) = host_answers" "enters (host_contract cfg) = host_enters"
  by (simp_all add: host_contract_def)

lemma same_session_refl [simp]: "same_session x x"
  by (simp add: same_session_def)

lemma same_session_trans: "same_session x y \<Longrightarrow> same_session y z \<Longrightarrow> same_session x z"
  by (simp add: same_session_def)

lemma grows_refl [simp]: "grows s s"
  by (simp add: grows_def)

lemma grows_trans:
  assumes s: "grows s t" and t: "grows t u"
  shows "grows s u"
proof -
  have "\<exists>z. oget (hRecords u) r = Some z \<and> same_session x z" if x: "oget (hRecords s) r = Some x" for r x
  proof -
    from s x obtain y where y: "oget (hRecords t) r = Some y" "same_session x y" unfolding grows_def by blast
    with t obtain z where "oget (hRecords u) r = Some z" "same_session y z" unfolding grows_def by blast
    with y same_session_trans show ?thesis by blast
  qed
  moreover have "\<exists>w. oget (hPromises u) p = Some w \<and> fst w = fst v" if v: "oget (hPromises s) p = Some v" for p v
  proof -
    from s v obtain v' where y: "oget (hPromises t) p = Some v'" "fst v' = fst v" unfolding grows_def by blast
    with t obtain w where "oget (hPromises u) p = Some w" "fst w = fst v'" unfolding grows_def by blast
    with y show ?thesis by auto
  qed
  moreover have "hDisposed s \<Longrightarrow> hDisposed u" "set (hAborted s) \<subseteq> set (hAborted u)" "hNext s \<le> hNext u"
    using s t unfolding grows_def by auto
  ultimately show ?thesis unfolding grows_def by blast
qed

lemma restores_trans: "restores s i t \<Longrightarrow> restores t i u \<Longrightarrow> restores s i u"
  by (simp add: restores_def)

lemma host_relies_refl [simp]: "host_relies i s s"
  by (simp add: host_relies_def restores_def)

lemma host_relies_trans: "host_relies i s t \<Longrightarrow> host_relies i t u \<Longrightarrow> host_relies i s u"
  unfolding host_relies_def by (blast intro: grows_trans restores_trans)

lemma host_guarantees_relies: "host_guarantees i s t \<Longrightarrow> i \<noteq> j \<Longrightarrow> host_relies j s t"
  by (simp add: host_relies_def host_guarantees_def)

lemma frames_host [simp]: "frames (host_contract cfg) i (host_relies i)"
  by (auto simp: frames_def intro!: reflpI transpI intro: host_relies_trans)

lemma frames_grows [simp]: "frames (host_contract cfg) i grows"
  by (auto simp: frames_def host_relies_def intro!: reflpI transpI intro: grows_trans)

lemma relies_grows: "host_relies i s t \<Longrightarrow> grows s t"
  by (simp add: host_relies_def)

abbreviation tight where
  "tight cfg i \<equiv> triple (host_contract cfg) i (host_relies i)"

abbreviation loose where
  "loose cfg i \<equiv> triple (host_contract cfg) i grows"

lemma loosen: "tight cfg i P p Q \<Longrightarrow> loose cfg i P p Q"
  by (erule triple_conseq) (auto intro: relies_grows)

lemma lasting_host: "lasting grows P \<Longrightarrow> lasting (host_relies i) P"
  unfolding lasting_def using relies_grows by blast

subsection \<open>Steps\<close>

definition tame :: "host \<Rightarrow> host \<Rightarrow> bool" where
  "tame s t \<longleftrightarrow> hRecords t = hRecords s \<and> (\<forall>k r. oget (hSessions t) k = Some r \<longrightarrow> oget (hSessions s) k = Some r)
     \<and> (omap_wf (hSessions s) \<longrightarrow> omap_wf (hSessions t))
     \<and> hPromises t = hPromises s \<and> (\<forall>k p. oget (hInFlight t) k = Some p \<longrightarrow> oget (hInFlight s) k = Some p)
     \<and> hCache t = hCache s \<and> hHistory t = hHistory s \<and> hCompleted t = hCompleted s \<and> hBuffer t = hBuffer s
     \<and> hRestoring t = hRestoring s \<and> hNext s \<le> hNext t \<and> set (hAborted s) \<subseteq> set (hAborted t) \<and> (hDisposed s \<longrightarrow> hDisposed t)"

lemma same_records:
  assumes "hRecords t = hRecords s"
  shows "hrec t = hrec s" "known t = known s" "holds t = holds s" "tickets t = tickets s" "accounted cfg t = accounted cfg s"
  using assms by (simp_all add: fun_eq_iff hrec_def known_def holds_def tickets_def accounted_def split: prod.split)

lemma queue_ok_mono: "queue_ok n x \<Longrightarrow> n \<le> m \<Longrightarrow> queue_ok m x"
  by (auto simp: queue_ok_def)

lemma tame_grows: "tame s t \<Longrightarrow> grows s t"
  by (simp add: tame_def grows_def)

lemma tame_well:
  assumes t: "tame s t" and s: "host_well s"
  shows "host_well t"
proof -
  from t have r: "hRecords t = hRecords s" and n: "hNext s \<le> hNext t" and p: "hPromises t = hPromises s"
    and b: "hRestoring t = hRestoring s" "hBuffer t = hBuffer s" "omap_wf (hSessions s) \<longrightarrow> omap_wf (hSessions t)" by (simp_all add: tame_def)
  have "okeep (\<lambda>r x. r < hNext t \<and> queue_ok (hNext t) x) (hRecords t)"
    unfolding r by (rule okeep_mono [of "\<lambda>r x. r < hNext s \<and> queue_ok (hNext s) x"]) (use s n queue_ok_mono [OF _ n] in \<open>auto simp: host_well_def\<close>)
  moreover have "okeep (\<lambda>k r. known t r \<and> record_key (hrec t r) = k) (hSessions t)"
    using s t unfolding host_well_def tame_def okeep_def same_records [OF r] by blast
  moreover have "okeep (\<lambda>p v. p < hNext t \<and> isRuntimeRequestEnvelope (request_json (fst v)) \<and> (\<forall>x. snd v = Some x \<longrightarrow> answers (fst v) x)) (hPromises t)"
    unfolding p by (rule okeep_mono [of "\<lambda>p v. p < hNext s \<and> isRuntimeRequestEnvelope (request_json (fst v)) \<and> (\<forall>x. snd v = Some x \<longrightarrow> answers (fst v) x)"])
      (use s n in \<open>simp_all add: host_well_def\<close>)
  moreover have "okeep (\<lambda>k p. \<exists>v. oget (hPromises t) p = Some v \<and> requestKey (fst v) = k) (hInFlight t)"
    using s t unfolding host_well_def tame_def okeep_def p by blast
  ultimately show ?thesis using s b by (simp add: host_well_def buffered_def)
qed

lemma tame_keeps: "tame s t \<Longrightarrow> host_keeps cfg s h \<Longrightarrow> host_keeps cfg t h"
  unfolding host_keeps_def
proof (elim conjE, intro conjI)
  assume t: "tame s t" and m: "mutated_ok s h" "trace_ok cfg s h" "history_ok s" "bounded cfg s"
  from t have r: "hRecords t = hRecords s" by (simp add: tame_def)
  from t m show "trace_ok cfg t h" "history_ok t" "bounded cfg t"
    by (simp_all add: trace_ok_def session_trace_def buffered_def same_records [OF r] history_ok_def bounded_def is_completed_def tame_def)
  from t m(1) show "mutated_ok t h"
    unfolding mutated_ok_def same_records [OF r] by (meson tame_def order_less_le_trans)
qed (rule tame_well)

lemma tame_moves: "tame s t \<Longrightarrow> host_guarantees i s t \<and> host_relies i s t"
  using tame_grows [of s t] by (simp add: host_guarantees_def host_relies_def restores_def tame_def same_records [of t s])

lemma tame_step: "tame s t \<Longrightarrow> host_keeps cfg s h \<Longrightarrow> host_keeps cfg t h \<and> host_guarantees i s t \<and> host_relies i s t"
  using tame_keeps tame_moves by blast

lemma tame_refl [simp]: "tame s s"
  by (simp add: tame_def)

lemma tame_trans: "tame s t \<Longrightarrow> tame t u \<Longrightarrow> tame s u"
  by (auto simp: tame_def)

lemma tame_fields [simp]:
  "tame s (s\<lparr>hAdapters := a\<rparr>)" "tame s (s\<lparr>hLedgerStore := l\<rparr>)" "tame s (s\<lparr>hLedgers := m\<rparr>)" "tame s (s\<lparr>hControllers := c\<rparr>)"
  "tame s (s\<lparr>hAborted := x # hAborted s\<rparr>)" "tame s (s\<lparr>hAcquisitions := aq\<rparr>)" "tame s (s\<lparr>hOpenTurns := ot\<rparr>)"
  "tame s (s\<lparr>hRestoreControllers := rc\<rparr>)" "tame s (s\<lparr>hRestoreTasks := rt\<rparr>)" "tame s (s\<lparr>hDirty := d\<rparr>)"
  "tame s (s\<lparr>hRestoredFrom := rf\<rparr>)" "tame s (s\<lparr>hDisposed := True\<rparr>)" "tame s (s\<lparr>hDisposeDone := dd\<rparr>)" "tame s (s\<lparr>hClock := now\<rparr>)"
  "tame s (s\<lparr>hNext := Suc (hNext s)\<rparr>)" "tame s (s\<lparr>hSessions := []\<rparr>)" "tame s (s\<lparr>hSessions := odel k (hSessions s)\<rparr>)"
  "tame s (s\<lparr>hInFlight := []\<rparr>)" "tame s (s\<lparr>hInFlight := odel k (hInFlight s)\<rparr>)" "tame s (set_ledger n l' s)"
  by (auto simp: tame_def set_ledger_def split: if_splits)

text \<open>Changing a record.\<close>

definition steady :: "host_session \<Rightarrow> host_session \<Rightarrow> bool" where
  "steady x y \<longleftrightarrow> same_session x y \<and> hsQueue y = hsQueue x \<and> hsPending y = hsPending x"

lemma set_record_simps [simp]: "hrec (set_record r y s) r' = (if r' = r then y else hrec s r')"
  "known (set_record r y s) r' \<longleftrightarrow> r' = r \<or> known s r'" "hSessions (set_record r y s) = hSessions s"
  "hPromises (set_record r y s) = hPromises s" "hInFlight (set_record r y s) = hInFlight s" "hCache (set_record r y s) = hCache s"
  "hHistory (set_record r y s) = hHistory s" "hCompleted (set_record r y s) = hCompleted s" "hBuffer (set_record r y s) = hBuffer s"
  "hRestoring (set_record r y s) = hRestoring s" "hNext (set_record r y s) = hNext s" "hAborted (set_record r y s) = hAborted s"
  "hDisposed (set_record r y s) = hDisposed s" "hRecords (set_record r y s) = oset r y (hRecords s)" "hClock (set_record r y s) = hClock s"
  by (auto simp: hrec_def known_def set_record_def)

lemma known_record: "known s r \<Longrightarrow> oget (hRecords s) r = Some (hrec s r)"
  by (auto simp: known_def hrec_def)

lemma set_record_parts:
  assumes "host_keeps cfg s h" and "known s r" and "same_session (hrec s r) y"
  shows "trace_ok cfg (set_record r y s) h" "history_ok (set_record r y s)" "bounded cfg (set_record r y s)" "grows s (set_record r y s)"
proof -
  have "accounted cfg (set_record r y s) p" if "accounted cfg s p" for p
    using that assms(2,3) by (auto simp: accounted_def same_session_def split: prod.splits)
  moreover have "session_trace (set_record r y s) h = session_trace s h" by (simp add: session_trace_def buffered_def)
  ultimately show "trace_ok cfg (set_record r y s) h" using assms(1) by (auto simp: host_keeps_def trace_ok_def)
  show "history_ok (set_record r y s)" "bounded cfg (set_record r y s)"
    using assms(1) by (simp_all add: host_keeps_def history_ok_def bounded_def is_completed_def)
  show "grows s (set_record r y s)" using assms(2,3) known_record [OF assms(2)] by (auto simp: grows_def)
qed

lemma set_record_well:
  assumes "host_well s" and "known s r" and "same_session (hrec s r) y" and "queue_ok (hNext s) y"
  shows "host_well (set_record r y s)"
proof -
  have "okeep (\<lambda>r' x. r' < hNext s \<and> queue_ok (hNext s) x) (oset r y (hRecords s))"
    by (rule okeep_set) (use assms known_record [OF assms(2)] in \<open>auto simp: host_well_def dest: okeep_get\<close>)
  moreover have "record_key y = record_key (hrec s r)" using assms(3) by (simp add: record_key_def same_session_def)
  ultimately show ?thesis using assms(1) by (auto simp: host_well_def okeep_def buffered_def)
qed

lemma record_step:
  assumes s: "host_keeps cfg s h" and r: "known s r" and y: "steady (hrec s r) y"
  shows "host_keeps cfg (set_record r y s) h \<and> host_guarantees i s (set_record r y s) \<and> host_relies i s (set_record r y s)"
proof -
  from y have e: "same_session (hrec s r) y" "hsQueue y = hsQueue (hrec s r)" "hsPending y = hsPending (hrec s r)" by (simp_all add: steady_def)
  note f = set_record_parts [OF s r e(1)]
  have "queue_ok (hNext s) (hrec s r)" using s known_record [OF r] by (auto simp: host_keeps_def host_well_def dest: okeep_get)
  then have "queue_ok (hNext s) y" using e(2,3) by (simp add: queue_ok_def)
  then have w: "host_well (set_record r y s)" using set_record_well [OF _ r e(1)] s by (simp add: host_keeps_def)
  have h: "holds (set_record r y s) = holds s" "tickets (set_record r y s) = tickets s"
    using e(2) by (auto simp: holds_def tickets_def fun_eq_iff)
  then have "mutated_ok (set_record r y s) h" using s by (simp add: host_keeps_def mutated_ok_def)
  with w f s show ?thesis by (simp add: host_keeps_def host_guarantees_def host_relies_def restores_def h)
qed

lemma update_record_step:
  "host_keeps cfg s h \<Longrightarrow> known s r \<Longrightarrow> (\<And>x. steady x (f x))
    \<Longrightarrow> host_keeps cfg (update_record r f s) h \<and> host_guarantees i s (update_record r f s) \<and> host_relies i s (update_record r f s)"
  unfolding update_record_def by (rule record_step)

lemma steady_fields [simp]:
  "steady x (x\<lparr>hsRevision := hsRevision x + 1\<rparr>)" "steady x (x\<lparr>hsEventSeq := hsEventSeq x + 1\<rparr>)" "steady x (x\<lparr>hsActive := a\<rparr>)"
  "steady x (x\<lparr>hsPrompt := p\<rparr>)" "steady x (x\<lparr>hsInitializing := b\<rparr>)" "steady x (x\<lparr>hsSubscribed := b\<rparr>)" "steady x (clear_prompt e x)"
  "steady x ((clear_prompt e x)\<lparr>hsActive := a\<rparr>)" "steady x x"
  by (simp_all add: steady_def same_session_def clear_prompt_def)

subsection \<open>Outputs\<close>

definition plain :: "host_output \<Rightarrow> bool" where
  "plain x \<longleftrightarrow> mutating x = None \<and> streamed [(undefined, x)] = []"

lemma session_items_append [simp]: "session_items (xs @ ys) = session_items xs @ session_items ys"
  by (induction xs rule: session_items.induct) simp_all

lemma streamed_append [simp]: "streamed (h @ g) = streamed h @ streamed g"
  by (induction h rule: streamed.induct) simp_all

lemma streamed_plain: "plain x \<Longrightarrow> streamed [(t, x)] = []"
  by (cases x) (simp_all add: plain_def)

lemma session_items_iff: "(r, e) \<in> set (session_items xs) \<longleftrightarrow> (Some r, SessionStream e) \<in> set xs"
  by (induction xs rule: session_items.induct) auto

lemma streamed_iff: "(r, e) \<in> set (streamed h) \<longleftrightarrow> (\<exists>t. (t, Streamed r e) \<in> set h)"
  by (induction h rule: streamed.induct) auto

lemma host_keeps_snoc:
  assumes x: "plain x" and s: "host_keeps cfg s h"
  shows "host_keeps cfg s (h @ [(t, x)])"
proof -
  have "session_trace s (h @ [(t, x)]) = session_trace s h" by (simp add: session_trace_def streamed_plain [OF x])
  moreover have "mutated_ok s (h @ [(t, x)])"
    using x s unfolding host_keeps_def mutated_ok_def plain_def by (auto simp del: mutating.simps)
  ultimately show ?thesis using s by (simp add: host_keeps_def trace_ok_def)
qed

fun harmless_output :: "host_output \<Rightarrow> bool" where
  "harmless_output (Streamed r e) = False"
| "harmless_output (Mutate r k a ctx m) = False"
| "harmless_output (ExecuteArtifacts t p ctx) = False"
| "harmless_output (ExecuteRepl c ctx) = False"
| "harmless_output (ExecutePage p ps ctx) = False"
| "harmless_output (PreparePrompt ctx) = False"
| "harmless_output (AdapterPrompt a m ctx) = False"
| "harmless_output (Responded me q src x) = False"
| "harmless_output _ = True"

lemma harmless_output_permits: "harmless_output x \<Longrightarrow> host_permits cfg s h x \<and> plain x"
  by (cases x) (simp_all add: plain_def)

lemma harmless_simps [simp]: "harmless_output StateChanged" "harmless_output (SignalAborted n m)" "harmless_output (AdapterDispose a)"
  "harmless_output (CallEnded me v)"
  by simp_all

subsection \<open>Basic triples\<close>

lemma emit_if: "frames (host_contract cfg) i R \<Longrightarrow> (\<And>s h. P s \<Longrightarrow> host_keeps cfg s h \<Longrightarrow> host_permits cfg s h x) \<Longrightarrow> plain x
    \<Longrightarrow> triple (host_contract cfg) i R P (emit x) (\<lambda>_. P)"
  by (rule triple_emit) (simp_all add: host_keeps_snoc)

lemma emit_harmless: "frames (host_contract cfg) i R \<Longrightarrow> harmless_output x \<Longrightarrow> triple (host_contract cfg) i R P (emit x) (\<lambda>_. P)"
  by (rule emit_if) (simp_all add: harmless_output_permits)

lemma proceed_ok: "frames (host_contract cfg) i R \<Longrightarrow> triple (host_contract cfg) i R P proceed (\<lambda>_. P)"
  unfolding proceed_def by (rule triple_ret)

lemma tight_change:
  "(\<And>s h. P s \<Longrightarrow> host_keeps cfg s h \<Longrightarrow> host_keeps cfg (f s) h \<and> host_guarantees i s (f s) \<and> host_relies i s (f s)) \<Longrightarrow> (\<And>s. P s \<Longrightarrow> Q (f s))
    \<Longrightarrow> tight cfg i P (change f) (\<lambda>_. Q)"
  by (rule triple_change) simp

lemma tight_tame: "(\<And>s. P s \<Longrightarrow> tame s (f s)) \<Longrightarrow> (\<And>s. P s \<Longrightarrow> Q (f s)) \<Longrightarrow> tight cfg i P (change f) (\<lambda>_. Q)"
  by (rule tight_change) (use tame_step in blast, simp)

lemma tight_update: "(\<And>s. P s \<Longrightarrow> known s r) \<Longrightarrow> (\<And>x. steady x (f x)) \<Longrightarrow> (\<And>s. P s \<Longrightarrow> Q (update_record r f s))
    \<Longrightarrow> tight cfg i P (change (update_record r f)) (\<lambda>_. Q)"
  by (rule tight_change) (simp_all add: update_record_step)

lemma tight_put: "(\<And>h. host_keeps cfg s h \<Longrightarrow> host_keeps cfg t h \<and> host_guarantees i s t \<and> host_relies i s t)
    \<Longrightarrow> tight cfg i (\<lambda>u. u = t) p Q \<Longrightarrow> tight cfg i (\<lambda>u. u = s \<and> P u) (Put t p) Q"
  by (rule triple_put [OF frames_host, where P' = "\<lambda>u. u = t"]) auto

lemma tight_put_tame: "tame s t \<Longrightarrow> tight cfg i (\<lambda>u. u = t) p Q \<Longrightarrow> tight cfg i (\<lambda>u. u = s \<and> P u) (Put t p) Q"
  by (rule tight_put) (simp add: tame_step)

lemma tight_get: "(\<And>s. P s \<Longrightarrow> tight cfg i (\<lambda>u. u = s \<and> P u) (k s) Q) \<Longrightarrow> tight cfg i P (Get k) Q"
proof (rule triple_get, rule tripleI)
  fix s u h assume k: "\<And>s. P s \<Longrightarrow> tight cfg i (\<lambda>u. u = s \<and> P u) (k s) Q" and u: "keeps (host_contract cfg) u h" "u = s \<and> P u"
  from u(2) have "P s" by auto
  from tripleD [OF k [OF this] u(1) u(2)] show "sat (host_contract cfg) i (k s)
     (\<lambda>a s' h'. keeps (host_contract cfg) s' h' \<and> host_relies i u s' \<and> Q a s') (\<lambda>_ s' h'. keeps (host_contract cfg) s' h' \<and> host_relies i u s') u h" .
qed

lemma await_ok: "frames (host_contract cfg) i R \<Longrightarrow> (\<And>w. triple (host_contract cfg) i R (\<lambda>s. P s \<and> host_answers i s q w) (k w) Q)
    \<Longrightarrow> lasting (host_relies i) P \<Longrightarrow> triple (host_contract cfg) i R P (after (await q) k) Q"
  unfolding await_def after.simps
  by (rule triple_await [where P' = P]) (auto dest: lastingD)

lemma await_any: "frames (host_contract cfg) i R \<Longrightarrow> (\<And>w. triple (host_contract cfg) i R P (k w) Q)
    \<Longrightarrow> lasting (host_relies i) P \<Longrightarrow> triple (host_contract cfg) i R P (after (await q) k) Q"
  by (rule await_ok) (auto intro: triple_pre)

lemma pause_ok: "frames (host_contract cfg) i R \<Longrightarrow> lasting (host_relies i) P \<Longrightarrow> triple (host_contract cfg) i R P pause (\<lambda>_. P)"
  unfolding pause_def by (rule await_any) (auto intro: triple_ret)

lemma awaited_ok:
  assumes f: "frames (host_contract cfg) i R" and p: "triple (host_contract cfg) i R P p Q" and q: "\<And>a. lasting (host_relies i) (Q a)"
  shows "triple (host_contract cfg) i R P (awaited p) Q"
  unfolding awaited_def
  by (rule triple_ensuring [OF f p, where P' = "\<lambda>_. True"])
    (auto intro!: triple_pre [OF pause_ok [OF f q]] triple_pre [OF pause_ok [OF f lasting_const]])

lemma fresh_ok: "(\<And>n. tight cfg i P (k n) Q) \<Longrightarrow> (\<And>s. P s \<Longrightarrow> P (s\<lparr>hNext := Suc (hNext s)\<rparr>)) \<Longrightarrow> tight cfg i P (fresh_number k) Q"
  unfolding fresh_number_def
  by (rule tight_get, rule tight_put_tame) (auto intro: triple_pre)

text \<open>What is known of a record or a promise stays known.\<close>

lemma known_grows: "known s r \<Longrightarrow> grows s t \<Longrightarrow> known t r"
  unfolding known_def grows_def by fastforce

lemma known_stays [stables, simp]: "lasting grows (\<lambda>s. known s r)" "lasting (host_relies i) (\<lambda>s. known s r)"
  by (auto simp: lasting_def intro: known_grows relies_grows)

lemma promised_lasting [stables, simp]: "lasting grows (\<lambda>s. promised s p q)" "lasting (host_relies i) (\<lambda>s. promised s p q)"
  by (fastforce simp: lasting_def promised_def grows_def host_relies_def)+

lemma holds_lasting [stables, simp]: "lasting (host_relies i) (\<lambda>s. holds s r k i)"
  by (auto simp: lasting_def host_relies_def)

lemma published_known: "host_keeps cfg s h \<Longrightarrow> oget (hSessions s) k = Some r \<Longrightarrow> known s r \<and> record_key (hrec s r) = k"
  by (auto simp: host_keeps_def host_well_def dest: okeep_get)

lemma known_tame [simp]: "known (s\<lparr>hNext := n\<rparr>) r = known s r" "known (s\<lparr>hAborted := ab\<rparr>) r = known s r"
  "known (s\<lparr>hSessions := ss\<rparr>) r = known s r" "known (update_record r' f s) r \<longleftrightarrow> r = r' \<or> known s r"
  "promised (s\<lparr>hNext := n\<rparr>) p q = promised s p q"
  by (auto simp: known_def update_record_def promised_def)

subsection \<open>Streams\<close>

definition next_seq :: "nat \<Rightarrow> host \<Rightarrow> host" where
  "next_seq r = update_record r (\<lambda>x. x\<lparr>hsEventSeq := hsEventSeq x + 1\<rparr>)"

text \<open>Facts that emitting a stream of a session does not touch.\<close>

definition unmoved :: "nat \<Rightarrow> (host \<Rightarrow> bool) \<Rightarrow> bool" where
  "unmoved r F \<longleftrightarrow> (\<forall>s. F s \<longrightarrow> F (next_seq r s)) \<and> (\<forall>s b. F s \<longrightarrow> F (s\<lparr>hBuffer := b\<rparr>))"

lemma unmoved_const [simp]: "unmoved r (\<lambda>s. b)"
  by (simp add: unmoved_def)

lemma buffer_simps [simp]: "hrec (s\<lparr>hBuffer := b\<rparr>) = hrec s" "known (s\<lparr>hBuffer := b\<rparr>) = known s" "holds (s\<lparr>hBuffer := b\<rparr>) = holds s"
  "tickets (s\<lparr>hBuffer := b\<rparr>) = tickets s" "accounted cfg (s\<lparr>hBuffer := b\<rparr>) = accounted cfg s" "published (s\<lparr>hBuffer := b\<rparr>) = published s"
  "history_ok (s\<lparr>hBuffer := b\<rparr>) = history_ok s" "bounded cfg (s\<lparr>hBuffer := b\<rparr>) = bounded cfg s"
  using same_records [of "s\<lparr>hBuffer := b\<rparr>" s] by (simp_all add: published_def fun_eq_iff history_ok_def bounded_def is_completed_def)

lemma trace_snoc:
  assumes "trace_ok cfg s h" and "session_trace s' h' = session_trace s h @ [(r, e)]" and "accounted cfg s' = accounted cfg s"
    and "accounted cfg s (r, e)" and "\<And>e'. (r, e') \<in> set (session_trace s h) \<Longrightarrow> eventSeq e' < eventSeq e \<and> revision e' \<le> revision e"
  shows "trace_ok cfg s' h'"
proof -
  have "before p (r, e)" if "p \<in> set (session_trace s h)" for p
    using that assms(5) [of "snd p"] by (cases p) (auto simp: before_def)
  with assms(1-4) show ?thesis by (simp add: trace_ok_def sorted_wrt_append)
qed

lemma buffer_step:
  assumes s: "host_keeps cfg s h" and b: "hRestoring s \<noteq> None" "hBuffer s = Some b" and e: "accounted cfg s (r, e)"
    and n: "\<And>e'. (r, e') \<in> set (session_trace s h) \<Longrightarrow> eventSeq e' < eventSeq e \<and> revision e' \<le> revision e"
  shows "host_keeps cfg (s\<lparr>hBuffer := Some (b @ [(Some r, SessionStream e)])\<rparr>) h
    \<and> host_guarantees i s (s\<lparr>hBuffer := Some (b @ [(Some r, SessionStream e)])\<rparr>)
    \<and> host_relies i s (s\<lparr>hBuffer := Some (b @ [(Some r, SessionStream e)])\<rparr>)"
proof -
  let ?t = "s\<lparr>hBuffer := Some (b @ [(Some r, SessionStream e)])\<rparr>"
  have "trace_ok cfg ?t h"
    by (rule trace_snoc [where s = s and h = h, OF _ _ _ e n]) (use s b in \<open>simp_all add: host_keeps_def session_trace_def buffered_def\<close>)
  moreover have "host_well ?t" using s b by (auto simp: host_keeps_def host_well_def buffered_def)
  moreover have "mutated_ok ?t h" using s by (simp add: host_keeps_def mutated_ok_def)
  ultimately show ?thesis using s
    by (simp add: host_keeps_def host_guarantees_def host_relies_def restores_def grows_def)
qed

lemma stream_step:
  assumes s: "host_keeps cfg s h" and b: "hRestoring s = None" "\<not> hDisposed s" and e: "accounted cfg s (r, e)"
    and n: "\<And>e'. (r, e') \<in> set (session_trace s h) \<Longrightarrow> eventSeq e' < eventSeq e \<and> revision e' \<le> revision e"
  shows "host_permits cfg s h (Streamed (Some r) (SessionStream e)) \<and> host_keeps cfg s (h @ [(s, Streamed (Some r) (SessionStream e))])"
proof -
  have nb: "buffered s = []" using s b by (simp add: host_keeps_def host_well_def buffered_def)
  have "trace_ok cfg s (h @ [(s, Streamed (Some r) (SessionStream e))])"
    by (rule trace_snoc [where s = s and h = h, OF _ _ _ e n]) (use s nb in \<open>simp_all add: host_keeps_def session_trace_def\<close>)
  moreover have "mutated_ok s (h @ [(s, Streamed (Some r) (SessionStream e))])" using s by (auto simp: host_keeps_def mutated_ok_def)
  moreover have "eventSeq v < eventSeq e \<and> revision v \<le> revision e" if "(t, Streamed (Some r) (SessionStream v)) \<in> set h" for t v
    by (rule n) (use that nb in \<open>auto simp: session_trace_def session_items_iff streamed_iff\<close>)
  ultimately show ?thesis using s b e by (auto simp: host_keeps_def stream_permitted_def accounted_def)
qed

lemma emitSession_ok:
  assumes F: "unmoved r F"
  shows "tight cfg i (\<lambda>s. known s r \<and> F s) (emitSession cfg r p tr) (\<lambda>_ s. known s r \<and> F s)"
proof (rule tripleI)
  fix s h assume k: "keeps (host_contract cfg) s h" and P: "known s r \<and> F s"
  define t where "t = next_seq r s"
  define e where "e = record_stream cfg (hrec t r) (hsEventSeq (hrec t r)) tr p"
  from k have s: "host_keeps cfg s h" by simp
  have t: "host_keeps cfg t h \<and> host_guarantees i s t \<and> host_relies i s t"
    unfolding t_def next_seq_def by (rule update_record_step) (use s P in simp_all)
  have Ft: "known t r" "F t" using P F by (simp_all add: t_def unmoved_def next_seq_def)
  have rt: "hrec t r = (hrec s r)\<lparr>hsEventSeq := hsEventSeq (hrec s r) + 1\<rparr>" "hDisposed t = hDisposed s" "hRestoring t = hRestoring s"
    "session_trace t h = session_trace s h"
    by (simp_all add: t_def next_seq_def update_record_def session_trace_def buffered_def)
  have n: "eventSeq e' < eventSeq e \<and> revision e' \<le> revision e" if "(r, e') \<in> set (session_trace t h)" for e'
  proof -
    have "accounted cfg s (r, e')" using s that by (simp add: host_keeps_def trace_ok_def rt(4))
    then show ?thesis by (simp add: accounted_def e_def record_stream_def host_stream_def rt(1))
  qed
  have a: "accounted cfg t (r, e)" if "checked_stream (SessionStream e)"
    using that Ft(1) by (simp add: accounted_def e_def record_stream_def host_stream_def)
  have b: "\<exists>b. hBuffer t = Some b" if "hRestoring t \<noteq> None" using t that by (auto simp: host_keeps_def host_well_def)
  have Fb: "F (t\<lparr>hBuffer := bb\<rparr>)" for bb using F Ft(2) by (simp add: unmoved_def)
  let ?G = "\<lambda>(_ :: unit) s' h'. host_keeps cfg s' h' \<and> host_relies i s s' \<and> known s' r \<and> F s'"
  have fin: "sat (host_contract cfg) i notifyStateChanged ?G (\<lambda>_ s' h'. host_keeps cfg s' h' \<and> host_relies i s s') u g"
    if "host_keeps cfg u g" "host_relies i s u" "known u r" "F u" for u g
    using that by (simp add: notifyStateChanged_def sat_emit host_keeps_snoc plain_def)
  have "sat (host_contract cfg) i (andThen (emit_stream (Some r) (SessionStream e)) notifyStateChanged) ?G
      (\<lambda>_ s' h'. host_keeps cfg s' h' \<and> host_relies i s s') t h"
  proof (cases "hDisposed t")
    case True
    then show ?thesis using t Ft by (simp add: emit_stream_def sat_andThen proceed_def fin)
  next
    case nd: False
    show ?thesis
    proof (cases "checked_stream (SessionStream e)")
      case False
      then show ?thesis using nd t by (simp add: emit_stream_def sat_andThen del: checked_stream.simps)
    next
      case c: True
      show ?thesis
      proof (cases "hRestoring t = None")
        case True
        from stream_step [OF conjunct1 [OF t] True nd a [OF c] n] t Ft fin nd c True show ?thesis
          by (simp add: emit_stream_def sat_andThen sat_emit del: checked_stream.simps host_permits.simps)
      next
        case r: False
        from b [OF r] obtain bb where bb: "hBuffer t = Some bb" by blast
        note st = buffer_step [OF conjunct1 [OF t] r bb a [OF c] n, of i]
        have "host_relies i s (t\<lparr>hBuffer := Some (bb @ [(Some r, SessionStream e)])\<rparr>)"
          using st t host_relies_trans by blast
        with st fin [of "t\<lparr>hBuffer := Some (bb @ [(Some r, SessionStream e)])\<rparr>" h] Fb Ft nd c r bb show ?thesis
          by (simp add: emit_stream_def sat_andThen proceed_def del: checked_stream.simps)
      qed
    qed
  qed
  with t show "sat (host_contract cfg) i (emitSession cfg r p tr)
      (\<lambda>_ s' h'. keeps (host_contract cfg) s' h' \<and> host_relies i s s' \<and> known s' r \<and> F s')
      (\<lambda>_ s' h'. keeps (host_contract cfg) s' h' \<and> host_relies i s s') s h"
    unfolding emitSession_def next_seq_def [symmetric] sat_andThen sat_change by (simp add: t_def e_def sat_andThen)
qed

lemmas tight_andThen = triple_andThen [OF frames_host] and tight_after = triple_after [OF frames_host]
  and tight_ret = triple_ret [OF frames_host] and tight_throw = triple_throw [OF frames_host] and tight_each = triple_each [OF frames_host]
lemmas loose_andThen = triple_andThen [OF frames_grows] and loose_after = triple_after [OF frames_grows]
  and loose_ret = triple_ret [OF frames_grows] and loose_throw = triple_throw [OF frames_grows] and loose_each = triple_each [OF frames_grows]

lemma tight_with: "tight cfg i (\<lambda>s. known s r) p (\<lambda>_ _. True) \<Longrightarrow> lasting (host_relies i) F
    \<Longrightarrow> tight cfg i (\<lambda>s. known s r \<and> F s) p (\<lambda>_ s. known s r \<and> F s)"
proof -
  assume p: "tight cfg i (\<lambda>s. known s r) p (\<lambda>_ _. True)" and F: "lasting (host_relies i) F"
  have "lasting (host_relies i) (\<lambda>s. known s r \<and> F s)" by (rule lasting_conj [OF known_stays(2) F])
  from triple_frames [OF p this] show ?thesis by (rule triple_conseq) auto
qed

lemma tight_known: "tight cfg i (\<lambda>s. known s r) p (\<lambda>_ _. True) \<Longrightarrow> tight cfg i (\<lambda>s. known s r) p (\<lambda>_ s. known s r)"
  using tight_with [of cfg i r p "\<lambda>_. True"] by simp

text \<open>Signals and checks.\<close>

lemma abort_signal_ok: "tight cfg i (\<lambda>_. True) (abort_signal m n) (\<lambda>_ _. True)"
  unfolding abort_signal_def
  by (rule tight_get, rule triple_if, rule triple_weak [OF proceed_ok], simp, rule tight_put_tame)
    (auto intro!: triple_weak [OF emit_harmless])

lemma abort_signals_ok: "tight cfg i (\<lambda>_. True) (each (abort_signal m) ns) (\<lambda>_ _. True)"
  by (rule tight_each) (rule abort_signal_ok)

lemma request_active_ok: "frames (host_contract cfg) i R
    \<Longrightarrow> triple (host_contract cfg) i R P (assertRequestActive n) (\<lambda>_ s. P s \<and> n \<notin> set (hAborted s) \<and> \<not> hDisposed s)"
  unfolding assertRequestActive_def by (rule triple_get) (auto intro!: triple_throw triple_ret simp: proceed_def)

lemma acquisition_active_ok: "frames (host_contract cfg) i R \<Longrightarrow> triple (host_contract cfg) i R P (assertAcquisitionActive n) (\<lambda>_. P)"
  unfolding assertAcquisitionActive_def by (rule triple_get) (auto intro!: triple_throw triple_ret simp: proceed_def)

lemma session_published_ok: "frames (host_contract cfg) i R
    \<Longrightarrow> triple (host_contract cfg) i R P (assertSessionPublished r) (\<lambda>_ s. P s \<and> published s r)"
  unfolding assertSessionPublished_def by (rule triple_get) (auto intro!: triple_throw triple_ret simp: proceed_def)

lemma usable_ok: "frames (host_contract cfg) i R
    \<Longrightarrow> triple (host_contract cfg) i R P (assert_usable n r) (\<lambda>_ s. P s \<and> usable s n r)"
proof -
  assume f: "frames (host_contract cfg) i R"
  show ?thesis
    unfolding assert_usable_def
    by (rule triple_andThen [OF f request_active_ok [OF f]], rule triple_post [OF session_published_ok [OF f]]) (simp add: usable_def)
qed

text \<open>Streams of a session.\<close>

lemma emitSnapshot_ok: "unmoved r F \<Longrightarrow> tight cfg i (\<lambda>s. known s r \<and> F s) (emitSnapshot cfg r tr) (\<lambda>_ s. known s r \<and> F s)"
  unfolding emitSnapshot_def
  by (rule triple_get_any) (auto split: sum.split intro: tight_throw emitSession_ok)

lemma emitExecution_ok: "unmoved r F \<Longrightarrow> tight cfg i (\<lambda>s. known s r \<and> F s) (emitExecution cfg r d tr) (\<lambda>_ s. known s r \<and> F s)"
  unfolding emitExecution_def by (rule emitSession_ok)

lemma stream_ok: "tight cfg i (\<lambda>s. known s r) (emitSnapshot cfg r tr) (\<lambda>_ s. known s r)"
  "tight cfg i (\<lambda>s. known s r) (emitExecution cfg r d tr) (\<lambda>_ s. known s r)"
  "tight cfg i (\<lambda>s. known s r) (emitSession cfg r p tr) (\<lambda>_ s. known s r)"
  using emitSnapshot_ok [of r "\<lambda>_. True"] emitExecution_ok [of r "\<lambda>_. True"] emitSession_ok [of r "\<lambda>_. True"] by simp_all

lemma bump_ok: "tight cfg i (\<lambda>s. known s r) (bump_revision r) (\<lambda>_ s. known s r)"
  unfolding bump_revision_def by (rule tight_update) simp_all

text \<open>Turns of a session.\<close>

lemma queue_of: "host_keeps cfg s h \<Longrightarrow> known s r \<Longrightarrow> queue_ok (hNext s) (hrec s r)"
  using known_record by (fastforce simp: host_keeps_def host_well_def dest: okeep_get)

lemma join_step:
  assumes s: "host_keeps cfg s h" and r: "known s r" and u: "u = s\<lparr>hNext := Suc (hNext s)\<rparr>" and t: "t = join_queue r (hNext s) j u"
  shows "host_keeps cfg t h \<and> host_guarantees i u t \<and> host_relies i u t \<and> known t r"
proof -
  note q = queue_of [OF s r]
  define y where "y = (hrec s r)\<lparr>hsPending := hsPending (hrec s r) + 1, hsQueue := hsQueue (hrec s r) @ [(hNext s, j)]\<rparr>"
  have su: "tame s u" by (simp add: u)
  note ku = tame_keeps [OF su s]
  have uf: "hrec u = hrec s" "known u r" "hNext u = Suc (hNext s)" using r by (simp_all add: u hrec_def known_def fun_eq_iff)
  have ty: "t = set_record r y u" by (simp add: t join_queue_def update_record_def y_def uf)
  have ss: "same_session (hrec u r) y" by (simp add: y_def uf same_session_def)
  have "sorted_wrt (<) (map fst (hsQueue (hrec s r)) @ [hNext s])"
    using q by (auto simp: queue_ok_def sorted_wrt_append)
  then have qy: "queue_ok (hNext u) y" using q by (auto simp: queue_ok_def y_def uf less_Suc_eq)
  note p = set_record_parts [OF ku uf(2) ss]
  have w: "host_well t" unfolding ty by (rule set_record_well [OF _ uf(2) ss qy]) (use ku in \<open>simp add: host_keeps_def\<close>)
  have tk: "tickets t r' = (if r' = r then tickets s r @ [hNext s] else tickets s r')" for r' by (simp add: tickets_def ty y_def uf)
  have nt: "hNext t = Suc (hNext s)" by (simp add: ty uf)
  have "mutated_ok t h"
    using s nt unfolding host_keeps_def mutated_ok_def by (auto simp: tk less_Suc_eq intro: less_imp_le)
  moreover have "holds u r' k l \<Longrightarrow> holds t r' k l" for r' k l by (auto simp: holds_def ty y_def uf hd_append)
  ultimately show ?thesis using p w uf(2) by (simp add: host_keeps_def host_guarantees_def host_relies_def restores_def ty)
qed

lemma leave_queue_step:
  assumes s: "host_keeps cfg s h" and r: "known s r" and o: "holds s r k i"
  shows "host_keeps cfg (leave_queue r k s) h \<and> host_guarantees i s (leave_queue r k s) \<and> grows s (leave_queue r k s)"
proof -
  note q = queue_of [OF s r]
  from o obtain rest where e: "hsQueue (hrec s r) = (k, i) # rest" by (cases "hsQueue (hrec s r)") (auto simp: holds_def)
  have fl: "filter (\<lambda>p. fst p \<noteq> k) (hsQueue (hrec s r)) = rest"
    using q by (auto simp: e queue_ok_def filter_id_conv)
  define y where "y = (hrec s r)\<lparr>hsPending := hsPending (hrec s r) - 1, hsQueue := rest\<rparr>"
  have ty: "leave_queue r k s = set_record r y s" by (simp add: leave_queue_def update_record_def y_def fl)
  have ss: "same_session (hrec s r) y" by (simp add: y_def same_session_def)
  have qy: "queue_ok (hNext s) y" using q by (simp add: queue_ok_def y_def e)
  note p = set_record_parts [OF s r ss]
  have w: "host_well (leave_queue r k s)" unfolding ty by (rule set_record_well [OF _ r ss qy]) (use s in \<open>simp add: host_keeps_def\<close>)
  have tk: "set (tickets (leave_queue r k s) r') \<subseteq> set (tickets s r')" for r' by (auto simp: tickets_def ty y_def e)
  have "mutated_ok (leave_queue r k s) h"
    using s unfolding host_keeps_def mutated_ok_def by (auto simp: ty dest: subsetD [OF tk [unfolded ty]])
  moreover have "holds s r' k' l \<Longrightarrow> l \<noteq> i \<Longrightarrow> holds (leave_queue r k s) r' k' l" for r' k' l
    by (auto simp: holds_def ty y_def e)
  ultimately show ?thesis using p w s
    by (auto simp: host_keeps_def host_guarantees_def restores_def ty)
qed

lemma run_mutation_ok:
  assumes P: "lasting (host_relies i) P" "\<And>s. P s \<Longrightarrow> known s r"
    and body: "tight cfg i (\<lambda>s. P s \<and> holds s r k i) body Q" and Q: "\<And>a s. Q a s \<Longrightarrow> Q a (leave_queue r k s)"
  shows "loose cfg i P (run_mutation r k body) Q"
  unfolding run_mutation_def
proof (rule triple_conseq [OF await_ok [where R = grows and P = P]])
  show "triple (host_contract cfg) i grows (\<lambda>s. P s \<and> host_answers i s (MutationTurn r k) w) (ensuring body (change (leave_queue r k))) Q" for w
  proof (rule tripleI)
    fix s h assume k: "keeps (host_contract cfg) s h" and w: "P s \<and> host_answers i s (MutationTurn r k) w"
    from w have o: "P s \<and> holds s r k i" by (simp add: holds_def)
    have lv: "host_keeps cfg (leave_queue r k t) g \<and> host_guarantees i t (leave_queue r k t) \<and> grows s (leave_queue r k t)"
      if "keeps (host_contract cfg) t g" "host_relies i s t" for t g
    proof -
      have "holds t r k i" "known t r"
        using o that(2) P(2) lastingD [OF holds_lasting] lastingD [OF known_stays(2)] by blast+
      with leave_queue_step [of cfg t g r k i] that relies_grows grows_trans show ?thesis by simp blast
    qed
    show "sat (host_contract cfg) i (ensuring body (change (leave_queue r k)))
        (\<lambda>a s' h'. keeps (host_contract cfg) s' h' \<and> grows s s' \<and> Q a s') (\<lambda>_ s' h'. keeps (host_contract cfg) s' h' \<and> grows s s') s h"
      unfolding sat_ensuring sat_change
      by (rule sat_mono [OF tripleD [OF body k o]]) (use lv Q in \<open>auto simp: conj_comms\<close>)
  qed
qed (use P(1) in simp_all)

lemma withSessionMutation_ok:
  assumes P: "lasting (host_relies i) P" "\<And>s. P s \<Longrightarrow> known s r"
    and body: "\<And>k. tight cfg i (\<lambda>s. P s \<and> holds s r k i) (body k) Q" and Q: "\<And>a s k. Q a s \<Longrightarrow> Q a (leave_queue r k s)"
  shows "loose cfg i P (withSessionMutation i r body) Q"
proof (rule tripleI)
  fix s h assume k: "keeps (host_contract cfg) s h" and Ps: "P s"
  define u where "u = s\<lparr>hNext := Suc (hNext s)\<rparr>"
  define t where "t = join_queue r (hNext s) i u"
  have su: "host_keeps cfg u h \<and> host_guarantees i s u \<and> host_relies i s u"
    by (rule tame_step) (use k in \<open>simp_all add: u_def\<close>)
  have ut: "host_keeps cfg t h \<and> host_guarantees i u t \<and> host_relies i u t \<and> known t r"
    by (rule join_step [OF _ _ u_def t_def]) (use k P(2) [OF Ps] in simp_all)
  then have st: "host_relies i s t" "grows s t" using su host_relies_trans relies_grows by blast+
  have "P t" by (rule lastingD [OF P(1) Ps st(1)])
  from tripleD [OF run_mutation_ok [OF P body [of "hNext s"] Q] _ this]
  have "sat (host_contract cfg) i (run_mutation r (hNext s) (body (hNext s)))
        (\<lambda>a s' h'. keeps (host_contract cfg) s' h' \<and> grows s s' \<and> Q a s') (\<lambda>_ s' h'. keeps (host_contract cfg) s' h' \<and> grows s s') t h"
    by (rule sat_mono) (use ut st grows_trans in \<open>auto 0 3\<close>)
  with su ut show "sat (host_contract cfg) i (withSessionMutation i r body)
        (\<lambda>a s' h'. keeps (host_contract cfg) s' h' \<and> grows s s' \<and> Q a s') (\<lambda>_ s' h'. keeps (host_contract cfg) s' h' \<and> grows s s') s h"
    by (simp add: withSessionMutation_def fresh_number_def sat_andThen sat_change u_def t_def)
qed

lemma await_tail_ok: "frames (host_contract cfg) i R \<Longrightarrow> lasting (host_relies i) P \<Longrightarrow> triple (host_contract cfg) i R P (await_tail r) (\<lambda>_. P)"
  unfolding await_tail_def by (rule triple_get_any, rule await_any) (auto intro: triple_ret)

lemma acquisition_ok:
  assumes acquire: "tight cfg i P acquire Q" and P: "lasting (host_relies i) P" and Q: "\<And>a. lasting (host_relies i) (Q a)"
  shows "tight cfg i P (withSessionAcquisition key acquire) Q"
  unfolding withSessionAcquisition_def
proof (rule fresh_ok)
  fix n
  have rel: "tight cfg i (\<lambda>_. True) (change (release_turn key n)) (\<lambda>_ _. True)"
    by (rule tight_tame) (auto simp: release_turn_def tame_def)
  have run: "tight cfg i P (ensuring (awaited acquire) (change (release_turn key n))) Q"
    by (rule triple_ensuring [OF frames_host awaited_ok [OF frames_host acquire Q], where P' = "\<lambda>_. True"])
      (use triple_keep [OF rel Q] rel in auto)
  have wait: "tight cfg i P (andThen (case p of None \<Rightarrow> proceed | Some q \<Rightarrow> after (await (AcquisitionTurn q)) (\<lambda>_. Ret ()))
      (ensuring (awaited acquire) (change (release_turn key n)))) Q" for p
    by (rule tight_andThen [OF _ run], cases p) (auto intro!: proceed_ok await_any P tight_ret)
  have st: "tame s (s\<lparr>hAcquisitions := oset key n (hAcquisitions s), hOpenTurns := n # hOpenTurns s\<rparr>)" for s :: host
    by (simp add: tame_def)
  have "P (s\<lparr>hAcquisitions := oset key n (hAcquisitions s), hOpenTurns := n # hOpenTurns s\<rparr>)" if "P s" for s
    by (rule lastingD [OF P that]) (use tame_moves [OF st] in blast)
  then show "tight cfg i P (Get (\<lambda>s. Put (s\<lparr>hAcquisitions := oset key n (hAcquisitions s), hOpenTurns := n # hOpenTurns s\<rparr>)
       (andThen (case oget (hAcquisitions s) key of None \<Rightarrow> proceed | Some p \<Rightarrow> after (await (AcquisitionTurn p)) (\<lambda>_. Ret ()))
          (ensuring (awaited acquire) (change (release_turn key n)))))) Q"
    by (intro tight_get tight_put_tame st) (rule triple_pre [OF wait], blast)
next
  fix s assume "P s"
  then show "P (s\<lparr>hNext := Suc (hNext s)\<rparr>)" by (rule lastingD [OF P]) (use tame_moves [OF tame_fields(15)] in blast)
qed

text \<open>Adding and removing sessions.\<close>

lemma cleanup_ok: "tight cfg i P (begin_cleanup r) (\<lambda>_. P)" "tight cfg i P (dispose_adapter a) (\<lambda>_. P)" "tight cfg i P notifyStateChanged (\<lambda>_. P)"
  unfolding begin_cleanup_def dispose_adapter_def notifyStateChanged_def
  by (rule triple_get_any, rule tight_andThen, rule triple_if)
    (auto intro!: emit_harmless proceed_ok)

lemma all_cleaned_ok: "frames (host_contract cfg) i R \<Longrightarrow> lasting (host_relies i) P \<Longrightarrow> triple (host_contract cfg) i R P all_cleaned (\<lambda>_. P)"
  unfolding all_cleaned_def by (rule await_any) (auto intro: triple_ret)

lemma detach_ok: "tight cfg i (\<lambda>s. known s r) (detach_session r) (\<lambda>_ s. known s r)"
  unfolding detach_session_def
proof (rule tight_andThen [where M = "\<lambda>s. known s r"])
  show "tight cfg i (\<lambda>s. known s r) (change (\<lambda>s. if published s r then s\<lparr>hSessions := odel (record_key (hrec s r)) (hSessions s)\<rparr> else s))
      (\<lambda>_ s. known s r)"
    by (rule tight_tame) auto
  have a: "tight cfg i (\<lambda>s. known s r) (each (abort_signal m) ns) (\<lambda>_ s. known s r)" for m ns
    by (rule triple_keep [OF abort_signals_ok known_stays(2)])
  show "tight cfg i (\<lambda>s. known s r) (Get (\<lambda>s. andThen (each (abort_signal ''runtime-session-removed'') (map axController (ovals (hsActive (hrec s r)))))
       (andThen (change (update_record r (\<lambda>x. x\<lparr>hsActive := []\<rparr>))) (begin_cleanup r)))) (\<lambda>_ s. known s r)"
    by (rule triple_get_any, rule tight_andThen [OF a], rule tight_andThen [OF tight_update cleanup_ok(1)]) simp_all
qed

lemma removeSession_ok: "tight cfg i (\<lambda>s. known s r) (removeSession r) (\<lambda>_ s. known s r)"
  unfolding removeSession_def by (rule tight_andThen [OF detach_ok]) (simp add: all_cleaned_ok)

lemma adapter_active_ok: "tight cfg i (\<lambda>_. True) (assertAdapterAcquisitionActive a n) (\<lambda>_ _. True)"
  unfolding assertAdapterAcquisitionActive_def
  by (rule triple_get_any, rule triple_if, rule proceed_ok [OF frames_host], rule tight_andThen [OF cleanup_ok(2)], rule await_any)
    (auto split: host_answer.split intro: tight_throw acquisition_active_ok)

lemma new_record_step:
  assumes s: "host_keeps cfg s h" and n: "r = hNext s" and u: "u = s\<lparr>hNext := Suc (hNext s)\<rparr>" and x: "hsQueue x = []" "hsPending x = 0"
  shows "host_keeps cfg (set_record r x u) h \<and> host_guarantees i u (set_record r x u) \<and> host_relies i u (set_record r x u)"
proof -
  have tu: "tame s u" by (simp add: u)
  note ku = tame_keeps [OF tu s]
  have no: "oget (hRecords u) r = None"
  proof (cases "oget (hRecords s) r")
    case (Some y)
    with s have "r < hNext s" unfolding host_keeps_def host_well_def by (blast dest: okeep_get)
    with n show ?thesis by simp
  qed (simp add: u)
  let ?t = "set_record r x u"
  have nk: "\<not> known u r" using no by (simp add: known_def)
  have q: "queue_ok (hNext u) x" using x by (simp add: queue_ok_def)
  have "okeep (\<lambda>r' y. r' < hNext u \<and> queue_ok (hNext u) y) (oset r x (hRecords u))"
    by (rule okeep_set) (use ku q n u in \<open>auto simp: host_keeps_def host_well_def\<close>)
  moreover have "okeep (\<lambda>k r'. known ?t r' \<and> record_key (hrec ?t r') = k) (hSessions u)"
    using ku nk unfolding host_keeps_def host_well_def okeep_def by auto
  ultimately have w: "host_well ?t" using ku by (simp add: host_keeps_def host_well_def buffered_def)
  have "accounted cfg ?t p" if "accounted cfg u p" for p using that nk by (auto simp: accounted_def split: prod.splits)
  moreover have "session_trace ?t h = session_trace u h" by (simp add: session_trace_def buffered_def)
  ultimately have tr: "trace_ok cfg ?t h" using ku by (simp add: host_keeps_def trace_ok_def)
  have "mutated_ok ?t h" using ku x by (simp add: host_keeps_def mutated_ok_def tickets_def)
  with w tr ku show ?thesis
    using no x(1) nk by (auto simp: host_keeps_def history_ok_def bounded_def is_completed_def host_guarantees_def host_relies_def restores_def
        grows_def holds_def hrec_def no_record_def)
qed

definition keyed :: "string \<Rightarrow> host \<Rightarrow> nat \<Rightarrow> bool" where
  "keyed key s r \<longleftrightarrow> known s r \<and> record_key (hrec s r) = key"

lemma keyed_known: "keyed key s r \<Longrightarrow> known s r"
  by (simp add: keyed_def)

lemma keyed_lasting [stables, simp]: "lasting grows (\<lambda>s. keyed key s r)" "lasting (host_relies i) (\<lambda>s. keyed key s r)"
proof -
  show "lasting grows (\<lambda>s. keyed key s r)"
    unfolding lasting_def
  proof (intro allI impI)
    fix s t assume k: "keyed key s r" and g: "grows s t"
    then obtain y where "oget (hRecords t) r = Some y" "same_session (hrec s r) y"
      using known_record [OF keyed_known [OF k]] unfolding grows_def by blast
    with k show "keyed key t r" by (simp add: keyed_def known_def hrec_def record_key_def same_session_def)
  qed
  then show "lasting (host_relies i) (\<lambda>s. keyed key s r)" by (rule lasting_host)
qed

lemma tight_keyed: "tight cfg i (\<lambda>s. known s r) p (\<lambda>_ _. True) \<Longrightarrow> tight cfg i (\<lambda>s. keyed key s r) p (\<lambda>_ s. keyed key s r)"
proof -
  assume p: "tight cfg i (\<lambda>s. known s r) p (\<lambda>_ _. True)"
  from triple_frames [OF p keyed_lasting(2)] show ?thesis by (rule triple_conseq) (auto dest: keyed_known)
qed

lemma publish_step:
  assumes s: "host_keeps cfg s h" and k: "keyed key s r"
  shows "host_keeps cfg (s\<lparr>hSessions := oset key r (hSessions s)\<rparr>) h \<and> host_guarantees i s (s\<lparr>hSessions := oset key r (hSessions s)\<rparr>)
    \<and> host_relies i s (s\<lparr>hSessions := oset key r (hSessions s)\<rparr>)"
proof -
  let ?t = "s\<lparr>hSessions := oset key r (hSessions s)\<rparr>"
  have e: "hrec ?t = hrec s" "known ?t = known s" "holds ?t = holds s" "tickets ?t = tickets s" "accounted cfg ?t = accounted cfg s"
    using same_records [of ?t s] by simp_all
  have "okeep (\<lambda>k r. known s r \<and> record_key (hrec s r) = k) (oset key r (hSessions s))"
    by (rule okeep_set) (use s k in \<open>auto simp: host_keeps_def host_well_def keyed_def\<close>)
  then have "host_well ?t" using s by (simp add: host_keeps_def host_well_def e buffered_def)
  moreover have "trace_ok cfg ?t h" "mutated_ok ?t h" "history_ok ?t" "bounded cfg ?t"
    using s by (simp_all add: host_keeps_def trace_ok_def session_trace_def buffered_def mutated_ok_def history_ok_def bounded_def is_completed_def e)
  ultimately show ?thesis by (simp add: host_keeps_def host_guarantees_def host_relies_def restores_def grows_def e)
qed

lemma fresh_record_ok:
  assumes x: "hsQueue x = []" "hsPending x = 0" and k: "\<And>r. tight cfg i (\<lambda>s. keyed (record_key x) s r) (k r) Q"
  shows "tight cfg i P (fresh_number (\<lambda>r. andThen (change (set_record r x)) (k r))) Q"
proof (rule tripleI)
  fix s h assume a: "keeps (host_contract cfg) s h" "P s"
  define u where "u = s\<lparr>hNext := Suc (hNext s)\<rparr>"
  have su: "host_keeps cfg u h \<and> host_guarantees i s u \<and> host_relies i s u" by (rule tame_step) (use a in \<open>simp_all add: u_def\<close>)
  have ut: "host_keeps cfg (set_record (hNext s) x u) h \<and> host_guarantees i u (set_record (hNext s) x u) \<and> host_relies i u (set_record (hNext s) x u)"
    by (rule new_record_step [OF _ refl u_def x]) (use a in simp)
  have st: "host_relies i s (set_record (hNext s) x u)" using su ut host_relies_trans by blast
  have "sat (host_contract cfg) i (k (hNext s)) (\<lambda>a s' h'. keeps (host_contract cfg) s' h' \<and> host_relies i s s' \<and> Q a s')
      (\<lambda>_ s' h'. keeps (host_contract cfg) s' h' \<and> host_relies i s s') (set_record (hNext s) x u) h"
    by (rule sat_mono [OF tripleD [OF k]]) (use ut st host_relies_trans in \<open>auto simp: keyed_def\<close>)
  with su ut show "sat (host_contract cfg) i (fresh_number (\<lambda>r. andThen (change (set_record r x)) (k r)))
      (\<lambda>a s' h'. keeps (host_contract cfg) s' h' \<and> host_relies i s s' \<and> Q a s') (\<lambda>_ s' h'. keeps (host_contract cfg) s' h' \<and> host_relies i s s') s h"
    by (simp add: fresh_number_def sat_andThen sat_change u_def)
qed

lemma addSession_ok:
  assumes x: "hsQueue x = []" "hsPending x = 0"
  shows "tight cfg i (\<lambda>_. True) (addSession cfg x ctl) (\<lambda>r s. known s r)"
  unfolding addSession_def
proof (rule triple_get_any, rule triple_if)
  show "tight cfg i (\<lambda>_. True) (andThen (dispose_adapter (hsAdapter x)) (Throw (coded_error ''SESSION_EXISTS'' ''Session already exists''))) (\<lambda>r s. known s r)"
    by (rule tight_andThen [OF cleanup_ok(2) tight_throw])
  show "tight cfg i (\<lambda>_. True)
     (fresh_number (\<lambda>r. andThen (change (set_record r x))
       (andThen
         (rescue
           (Get (\<lambda>s. case snapshot cfg s x of
              Inl e \<Rightarrow> Throw e
            | Inr _ \<Rightarrow> andThen (emit (AdapterSubscribe (hsAdapter x) r))
                (andThen (change (update_record r (\<lambda>y. y\<lparr>hsSubscribed := True\<rparr>))) (assertAcquisitionActive ctl))))
           (\<lambda>e. andThen (change (initialised_record r)) (andThen (begin_cleanup r) (andThen all_cleaned (Throw e)))))
         (andThen (change (\<lambda>s. s\<lparr>hSessions := oset (record_key x) r (hSessions s)\<rparr>))
           (andThen (change (initialised_record r))
             (Get (\<lambda>s. if hDisposed s \<or> ctl \<in> set (hAborted s)
                then andThen (awaited (removeSession r)) (andThen (assertAcquisitionActive ctl) (Ret r)) else Ret r))))))) (\<lambda>r s. known s r)"
  proof (rule fresh_record_ok [OF x])
    fix r
    let ?K = "\<lambda>s. keyed (record_key x) s r"
    have upd: "tight cfg i ?K (change (update_record r f)) (\<lambda>_. ?K)" if "\<And>y. steady y (f y)" for f
      by (rule tight_keyed, rule tight_update) (simp_all add: that)
    have ini: "tight cfg i ?K (change (initialised_record r)) (\<lambda>_. ?K)" unfolding initialised_record_def by (rule upd) simp
    have sub: "tight cfg i ?K (andThen (emit (AdapterSubscribe (hsAdapter x) r))
        (andThen (change (update_record r (\<lambda>y. y\<lparr>hsSubscribed := True\<rparr>))) (assertAcquisitionActive ctl))) (\<lambda>_. ?K)"
      by (rule tight_andThen [OF emit_harmless], simp, simp, rule tight_andThen [OF upd acquisition_active_ok]) simp_all
    have catch: "tight cfg i ?K (andThen (change (initialised_record r)) (andThen (begin_cleanup r) (andThen all_cleaned (Throw e)))) (\<lambda>_. ?K)" for e
      by (rule tight_andThen [OF ini], rule tight_andThen [OF cleanup_ok(1)], rule tight_andThen [OF all_cleaned_ok tight_throw]) simp_all
    have first: "tight cfg i ?K (rescue
           (Get (\<lambda>s. case snapshot cfg s x of Inl e \<Rightarrow> Throw e
            | Inr _ \<Rightarrow> andThen (emit (AdapterSubscribe (hsAdapter x) r))
                (andThen (change (update_record r (\<lambda>y. y\<lparr>hsSubscribed := True\<rparr>))) (assertAcquisitionActive ctl))))
           (\<lambda>e. andThen (change (initialised_record r)) (andThen (begin_cleanup r) (andThen all_cleaned (Throw e))))) (\<lambda>_. ?K)"
      by (rule triple_rescue [OF frames_host _ _ catch], rule triple_get_any)
        (auto split: sum.split intro: tight_throw sub lastingD [OF keyed_lasting(2)])
    have pub: "tight cfg i ?K (change (\<lambda>s. s\<lparr>hSessions := oset (record_key x) r (hSessions s)\<rparr>)) (\<lambda>_. ?K)"
    proof (rule tight_change [OF publish_step])
      fix s assume "?K s"
      then show "?K (s\<lparr>hSessions := oset (record_key x) r (hSessions s)\<rparr>)" by (simp add: keyed_def hrec_def known_def)
    qed
    have gone: "tight cfg i ?K (andThen (awaited (removeSession r)) (andThen (assertAcquisitionActive ctl) (Ret r))) (\<lambda>r s. known s r)"
      by (rule tight_andThen [where M = "\<lambda>s. known s r"], rule triple_pre [OF awaited_ok [OF frames_host removeSession_ok]])
        (auto intro: keyed_known tight_andThen [OF acquisition_active_ok] tight_ret)
    show "tight cfg i ?K (andThen (rescue
           (Get (\<lambda>s. case snapshot cfg s x of Inl e \<Rightarrow> Throw e
            | Inr _ \<Rightarrow> andThen (emit (AdapterSubscribe (hsAdapter x) r))
                (andThen (change (update_record r (\<lambda>y. y\<lparr>hsSubscribed := True\<rparr>))) (assertAcquisitionActive ctl))))
           (\<lambda>e. andThen (change (initialised_record r)) (andThen (begin_cleanup r) (andThen all_cleaned (Throw e)))))
         (andThen (change (\<lambda>s. s\<lparr>hSessions := oset (record_key x) r (hSessions s)\<rparr>))
           (andThen (change (initialised_record r))
             (Get (\<lambda>s. if hDisposed s \<or> ctl \<in> set (hAborted s)
                then andThen (awaited (removeSession r)) (andThen (assertAcquisitionActive ctl) (Ret r)) else Ret r))))) (\<lambda>r s. known s r)"
      by (rule tight_andThen [OF first], rule tight_andThen [OF pub], rule tight_andThen [OF ini], rule triple_get_any, rule triple_if [OF gone])
        (auto intro: tight_ret keyed_known)
  qed
qed

end
