(* ===== verification/HostOperations.thy ===== *)
theory HostOperations
  imports HostContract RuntimeTyping
begin

section \<open>The operations of the runtime host keep its contract\<close>

text \<open>
  For every operation of \<open>RuntimeHost\<close>, the triple that says under which condition it respects the
  contract of \<open>HostContract\<close> and what holds when it returns.
\<close>

subsection \<open>Responses\<close>

definition replies :: "request_envelope \<Rightarrow> response_envelope \<Rightarrow> bool" where
  "replies q x \<longleftrightarrow> (isRuntimeRequestEnvelope (request_json q) \<longrightarrow> answers q x)"

lemma host_response_answers: "isRuntimeRequestEnvelope (request_json q) \<Longrightarrow> answers q (host_response q b)"
  by (simp add: answers_def correlateRuntimeResponse_def mismatch_when_def same_target_iff sameTrace_iff host_response_def
      request_json_accepted valid_request_def)

lemma replies_simps [simp]: "replies q (errorResponse q d)" "replies q (refusal q code msg)" "replies q (successResponse q v)"
  "replies q (errorFromUnknown q e)" "replies q (status_success q st)" "replies q (begin_failure q b)" "replies q (host_response q b')"
  by (auto simp: replies_def host_response_answers errorResponse_def refusal_def successResponse_def errorFromUnknown_def status_success_def
      begin_failure_def split: begin_result.split)

lemma answers_key: "answers q x \<Longrightarrow> response_key x = requestKey q"
  by (simp add: answers_def correlateRuntimeResponse_def mismatch_when_def response_key_def requestKey_def split: if_splits)

subsection \<open>More basic triples\<close>

lemma get_keeps:
  assumes "\<And>s h. P s \<Longrightarrow> host_keeps cfg s h \<Longrightarrow> triple (host_contract cfg) i R (\<lambda>t. t = s \<and> P t) (k s) Q"
  shows "triple (host_contract cfg) i R P (Get k) Q"
proof (rule tripleI)
  fix s h assume s: "keeps (host_contract cfg) s h" "P s"
  then have "host_keeps cfg s h" by simp
  from tripleD [OF assms [OF s(2) this] s(1)] s(2)
  show "sat (host_contract cfg) i (Get k) (\<lambda>a s' h'. keeps (host_contract cfg) s' h' \<and> R s s' \<and> Q a s') (\<lambda>_ s' h'. keeps (host_contract cfg) s' h' \<and> R s s') s h"
    by simp
qed

lemma lasting_tame: "lasting (host_relies i) P \<Longrightarrow> lasting tame P"
  unfolding lasting_def using tame_moves by blast

lemma not_restoring_tame [simp]: "lasting tame (\<lambda>s. hRestoring s = None)"
  by (auto simp: lasting_def tame_def)

lemma tame_change_in: "frames (host_contract cfg) i R \<Longrightarrow> (\<And>s. tame s (f s)) \<Longrightarrow> lasting tame P
    \<Longrightarrow> triple (host_contract cfg) i R P (change f) (\<lambda>_. P)"
proof (rule triple_change)
  fix s h assume R: "frames (host_contract cfg) i R" and f: "\<And>s. tame s (f s)" and P: "lasting tame P" and s: "keeps (host_contract cfg) s h" "P s"
  have "host_keeps cfg (f s) h \<and> host_guarantees i s (f s) \<and> host_relies i s (f s)" by (rule tame_step [OF f]) (use s in simp)
  moreover have "host_relies i s (f s) \<Longrightarrow> R s (f s)" using framesD(3) [OF R] by simp
  ultimately show "keeps (host_contract cfg) (f s) h \<and> guarantees (host_contract cfg) i s (f s) \<and> R s (f s) \<and> P (f s)"
    using lastingD [OF P s(2) f] by simp
qed

lemma tame_put_in: "frames (host_contract cfg) i R \<Longrightarrow> tame s t \<Longrightarrow> lasting tame P \<Longrightarrow> triple (host_contract cfg) i R P p Q
    \<Longrightarrow> triple (host_contract cfg) i R (\<lambda>u. u = s \<and> P u) (Put t p) Q"
  by (rule triple_put [where P' = P]) (use tame_step [of s t cfg _ i] framesD(3) [of "host_contract cfg" i R s t] in \<open>auto dest: lastingD\<close>)

lemma tame_fresh_in: "frames (host_contract cfg) i R \<Longrightarrow> lasting tame P \<Longrightarrow> (\<And>n. triple (host_contract cfg) i R P (k n) Q)
    \<Longrightarrow> triple (host_contract cfg) i R P (fresh_number k) Q"
  unfolding fresh_number_def by (rule triple_get, rule tame_put_in) simp_all

lemmas tame_change = tame_change_in [OF frames_host] and tame_put = tame_put_in [OF frames_host] and tame_fresh = tame_fresh_in [OF frames_host]

lemma abort_signal_tame: "lasting tame P \<Longrightarrow> tight cfg i P (abort_signal m n) (\<lambda>_. P)"
  unfolding abort_signal_def
  by (rule tight_get, rule triple_if) (auto intro!: triple_pre [OF proceed_ok [OF frames_host]] tame_put emit_harmless)

lemma tame_ledger [simp]: "tame s (set_ledger n l (s\<lparr>hLedgers := m\<rparr>))"
  by (simp add: tame_def set_ledger_def)

lemma ledgerFor_in:
  assumes R: "frames (host_contract cfg) i R" and P: "lasting tame P" and k: "\<And>n. triple (host_contract cfg) i R P (k n) Q"
  shows "triple (host_contract cfg) i R P (ledgerFor cfg key k) Q"
proof -
  have "triple (host_contract cfg) i R P (fresh_number (\<lambda>n. andThen (change (\<lambda>s. set_ledger n l (s\<lparr>hLedgers := oset key n (hLedgers s)\<rparr>))) (k n))) Q" for l
    by (rule tame_fresh_in [OF R P triple_andThen [OF R tame_change_in [OF R _ P] k]]) simp
  then show ?thesis
    unfolding ledgerFor_def by (intro triple_get_any) (auto split: option.split sum.split intro: k triple_throw [OF R])
qed

lemmas ledgerFor_ok = ledgerFor_in [OF frames_host]

lemma ledger_change: "lasting tame P \<Longrightarrow> tight cfg i P (change (\<lambda>s. set_ledger n (f s) s)) (\<lambda>_. P)"
  by (rule tame_change) simp_all

lemma mark_terminal_ok: "lasting tame P \<Longrightarrow> tight cfg i P (mark_terminal cfg q ref st) (\<lambda>_. P)"
  unfolding mark_terminal_def by (rule ledgerFor_ok) (simp_all add: ledger_change)

lemma known_tame_lasting [simp]: "lasting tame (\<lambda>s. known s r)"
  by (rule lasting_tame) simp

lemma promised_tame [simp]: "lasting tame (\<lambda>s. promised s p q)"
  by (rule lasting_tame) simp

lemma requireSession_ok: "frames (host_contract cfg) i R
    \<Longrightarrow> triple (host_contract cfg) i R (\<lambda>_. True) (requireSession q) (\<lambda>r s. known s r)"
  unfolding requireSession_def
  by (rule get_keeps) (auto split: option.split intro!: triple_throw triple_ret dest: published_known)

lemma succeed_ok: "frames (host_contract cfg) i R \<Longrightarrow> triple (host_contract cfg) i R P (succeed_with q r fs) (\<lambda>x _. replies q x)"
  unfolding succeed_with_def by (rule triple_get_any, rule triple_ret) simp_all

lemma replies_ok: "frames (host_contract cfg) i R \<Longrightarrow> replies q x \<Longrightarrow> triple (host_contract cfg) i R P (Ret x) (\<lambda>x _. replies q x)"
  by (rule triple_ret)

lemma adapter_done_ok: "frames (host_contract cfg) i R \<Longrightarrow> lasting (host_relies i) P \<Longrightarrow> triple (host_contract cfg) i R P adapter_done (\<lambda>_. P)"
  unfolding adapter_done_def by (rule await_any) (auto split: host_answer.split intro: triple_throw proceed_ok)

lemma delegate_ok: "frames (host_contract cfg) i R \<Longrightarrow> lasting (host_relies i) P \<Longrightarrow> triple (host_contract cfg) i R P delegate_value (\<lambda>_. P)"
  unfolding delegate_value_def by (rule await_any) (auto split: host_answer.split intro: triple_throw triple_ret)

lemma factory_ok: "frames (host_contract cfg) i R \<Longrightarrow> lasting (host_relies i) P \<Longrightarrow> triple (host_contract cfg) i R P factory_adapter (\<lambda>_. P)"
  unfolding factory_adapter_def by (rule await_any) (auto split: host_answer.split intro: triple_throw triple_ret)

subsection \<open>Sessions\<close>

lemma handle_attach_ok: "tight cfg i (\<lambda>_. True) (handle_attach cfg q ctl) (\<lambda>x _. replies q x)"
  unfolding handle_attach_def
proof (rule tight_after [OF requireSession_ok [OF frames_host]])
  fix r
  show "tight cfg i (\<lambda>s. known s r) (andThen (await_tail r) (andThen (assert_usable ctl r)
     (andThen (emitSnapshot cfg r (trace q)) (andThen (assertRequestActive ctl)
       (succeed_with q r (\<lambda>x. (''attached'', JBool True) # number ''revision'' (hsRevision x))))))) (\<lambda>x _. replies q x)"
    by (rule tight_andThen [OF await_tail_ok [OF frames_host known_stays(2)]],
        rule tight_andThen [OF triple_post [OF usable_ok [OF frames_host]]], erule conjunct1,
        rule tight_andThen [OF stream_ok(1)], rule tight_andThen [OF request_active_ok [OF frames_host]], rule succeed_ok [OF frames_host])
qed

lemma handle_resync_ok: "tight cfg i (\<lambda>_. True) (handle_resync cfg q ctl) (\<lambda>x _. replies q x)"
  unfolding handle_resync_def
proof (rule tight_after [OF requireSession_ok [OF frames_host]])
  fix r
  show "tight cfg i (\<lambda>s. known s r) (andThen (await_tail r) (andThen (assert_usable ctl r)
     (andThen (emitSnapshot cfg r (trace q)) (andThen (assert_usable ctl r)
       (succeed_with q r (\<lambda>x. (''resynced'', JBool True) # number ''revision'' (hsRevision x) @ number ''eventSeq'' (hsEventSeq x))))))) (\<lambda>x _. replies q x)"
    by (rule tight_andThen [OF await_tail_ok [OF frames_host known_stays(2)]],
        rule tight_andThen [OF triple_post [OF usable_ok [OF frames_host]]], erule conjunct1,
        rule tight_andThen [OF stream_ok(1)], rule tight_andThen [OF usable_ok [OF frames_host]], rule succeed_ok [OF frames_host])
qed

lemma handle_release_ok: "tight cfg i (\<lambda>_. True) (handle_release q ctl f m) (\<lambda>x _. replies q x)"
  unfolding handle_release_def
proof (rule tight_after [OF requireSession_ok [OF frames_host]], rule triple_get_any, rule triple_if [OF tight_throw])
  fix r
  have rm: "tight cfg i (\<lambda>s. known s r \<and> usable s ctl r) (awaited (removeSession r)) (\<lambda>_ s. known s r)"
    by (rule triple_pre [OF awaited_ok [OF frames_host removeSession_ok]]) simp_all
  show "tight cfg i (\<lambda>s. known s r) (andThen (await_tail r) (andThen (assert_usable ctl r) (andThen (awaited (removeSession r))
       (Ret (successResponse q (JObj ((''released'', JBool True) # (case m of Some m \<Rightarrow> if m = [] then [] else [(''reason'', JStr m)] | None \<Rightarrow> [])))))))) (\<lambda>x _. replies q x)"
    by (rule tight_andThen [OF await_tail_ok [OF frames_host known_stays(2)]],
        rule tight_andThen [OF usable_ok [OF frames_host]], rule tight_andThen [OF rm], rule replies_ok [OF frames_host]) simp
qed

text \<open>A session that could not be shown is removed again.\<close>

lemma shown_or_removed_ok:
  "tight cfg i (\<lambda>s. known s r \<and> F s) (rescue (emitSnapshot cfg r tr) (\<lambda>e. andThen (if b then awaited (removeSession r) else proceed) (Throw e)))
     (\<lambda>_ s. known s r)"
proof (rule triple_rescue [OF frames_host, where P' = "\<lambda>s. known s r"])
  show "tight cfg i (\<lambda>s. known s r \<and> F s) (emitSnapshot cfg r tr) (\<lambda>_ s. known s r)"
    by (rule triple_pre [OF stream_ok(1)]) simp
  show "tight cfg i (\<lambda>s. known s r) (andThen (if b then awaited (removeSession r) else proceed) (Throw e)) (\<lambda>_ s. known s r)" for e
    by (rule tight_andThen [OF triple_if tight_throw, where M = "\<lambda>s. known s r"]) (simp_all add: proceed_ok awaited_ok [OF frames_host removeSession_ok])
qed (auto intro: lastingD [OF known_stays(2)])

lemma acquire_created_ok: "tight cfg i (\<lambda>_. True) (acquire_created cfg q ctl) (\<lambda>r s. known s r)"
  unfolding acquire_created_def
proof (rule tight_andThen [OF acquisition_active_ok [OF frames_host]], rule triple_get_any, rule triple_if [OF tight_throw],
    rule tight_andThen [OF emit_harmless [OF frames_host]])
  have "tight cfg i (\<lambda>_. True) (andThen (awaited (assertAdapterAcquisitionActive a ctl)) (addSession cfg (acquired_record q a 1) ctl))
      (\<lambda>r s. known s r)" for a
    by (rule tight_andThen [OF awaited_ok [OF frames_host adapter_active_ok]], simp, rule addSession_ok)
      (simp_all add: acquired_record_def new_record_def)
  then show "tight cfg i (\<lambda>_. True) (after factory_adapter (\<lambda>a. andThen (awaited (assertAdapterAcquisitionActive a ctl))
      (addSession cfg (acquired_record q a 1) ctl))) (\<lambda>r s. known s r)"
    by (intro tight_after [OF factory_ok [OF frames_host]]) simp_all
qed simp

lemma handle_create_ok: "tight cfg i (\<lambda>_. True) (handle_create cfg q ctl) (\<lambda>x _. replies q x)"
  unfolding handle_create_def
proof (rule tight_after)
  show "tight cfg i (\<lambda>_. True) (awaited (withSessionAcquisition (request_scope_key q) (acquire_created cfg q ctl))) (\<lambda>r s. known s r)"
    by (rule awaited_ok [OF frames_host acquisition_ok [OF acquire_created_ok]]) simp_all
  fix r
  note shown = shown_or_removed_ok [of cfg i r "\<lambda>s. usable s ctl r" "trace q" True, unfolded if_True]
  show "tight cfg i (\<lambda>s. known s r) (andThen (assert_usable ctl r)
       (andThen (rescue (emitSnapshot cfg r (trace q)) (\<lambda>e. andThen (awaited (removeSession r)) (Throw e)))
         (andThen (assert_usable ctl r)
           (succeed_with q r (\<lambda>x. (''created'', JBool True) # number ''revision'' (hsRevision x)))))) (\<lambda>x _. replies q x)"
    by (rule tight_andThen [OF usable_ok [OF frames_host]], rule tight_andThen [OF shown],
        rule tight_andThen [OF usable_ok [OF frames_host]], rule succeed_ok [OF frames_host])
qed

lemma acquire_loaded_ok: "tight cfg i (\<lambda>_. True) (acquire_loaded cfg q ctl) (\<lambda>p s. known s (fst p))"
  unfolding acquire_loaded_def
proof (rule tight_andThen [OF acquisition_active_ok [OF frames_host]], rule get_keeps)
  fix s h assume s: "host_keeps cfg s h"
  have add: "tight cfg i (\<lambda>_. True) (andThen (awaited (assertAdapterAcquisitionActive a ctl))
      (after (awaited (addSession cfg (acquired_record q a 0) ctl)) (\<lambda>r. Ret (r, True)))) (\<lambda>p s. known s (fst p))" for a
  proof (rule tight_andThen [OF awaited_ok [OF frames_host adapter_active_ok]], simp, rule tight_after)
    show "tight cfg i (\<lambda>_. True) (awaited (addSession cfg (acquired_record q a 0) ctl)) (\<lambda>r s. known s r)"
      by (rule awaited_ok [OF frames_host addSession_ok]) (simp_all add: acquired_record_def new_record_def)
  qed (rule tight_ret, simp)
  have load: "tight cfg i (\<lambda>_. True) (andThen (emit (FactoryLoad q ctl)) (after factory_adapter (\<lambda>a.
         andThen (awaited (assertAdapterAcquisitionActive a ctl))
           (after (awaited (addSession cfg (acquired_record q a 0) ctl)) (\<lambda>r. Ret (r, True)))))) (\<lambda>p s. known s (fst p))"
    by (rule tight_andThen [OF emit_harmless [OF frames_host]], simp, rule tight_after [OF factory_ok [OF frames_host] add]) simp
  have "tight cfg i (\<lambda>t. t = s \<and> True) (Ret (r, False)) (\<lambda>p s. known s (fst p))" if "oget (hSessions s) (request_scope_key q) = Some r" for r
    by (rule tight_ret) (use published_known [OF s that] in simp)
  then show "tight cfg i (\<lambda>t. t = s \<and> True) (case oget (hSessions s) (request_scope_key q) of
       Some r \<Rightarrow> if same_target (hsTarget (hrec s r)) (target q) then Ret (r, False)
         else Throw (coded_error ''TARGET_MISMATCH'' ''Session target does not match'')
     | None \<Rightarrow> andThen (emit (FactoryLoad q ctl)) (after factory_adapter (\<lambda>a.
         andThen (awaited (assertAdapterAcquisitionActive a ctl))
           (after (awaited (addSession cfg (acquired_record q a 0) ctl)) (\<lambda>r. Ret (r, True)))))) (\<lambda>p s. known s (fst p))"
    using triple_pre [OF load, of "\<lambda>t. t = s \<and> True"] by (auto split: option.split intro: tight_throw)
qed

lemma handle_load_ok: "tight cfg i (\<lambda>_. True) (handle_load cfg q ctl) (\<lambda>x _. replies q x)"
  unfolding handle_load_def
proof (rule tight_after)
  show "tight cfg i (\<lambda>_. True) (awaited (withSessionAcquisition (request_scope_key q) (acquire_loaded cfg q ctl))) (\<lambda>p s. known s (fst p))"
    by (rule awaited_ok [OF frames_host acquisition_ok [OF acquire_loaded_ok]]) simp_all
  fix p :: "nat \<times> bool"
  obtain r b where p: "p = (r, b)" by (cases p)
  note shown = shown_or_removed_ok [of cfg i r "\<lambda>s. usable s ctl r" "trace q" b]
  have "tight cfg i (\<lambda>s. known s r) (andThen (await_tail r) (andThen (assert_usable ctl r)
       (andThen (rescue (emitSnapshot cfg r (trace q)) (\<lambda>e. andThen (if b then awaited (removeSession r) else proceed) (Throw e)))
         (andThen (assert_usable ctl r)
           (succeed_with q r (\<lambda>x. (''loaded'', JBool True) # number ''revision'' (hsRevision x))))))) (\<lambda>x _. replies q x)"
    by (rule tight_andThen [OF await_tail_ok [OF frames_host known_stays(2)]],
        rule tight_andThen [OF usable_ok [OF frames_host]], rule tight_andThen [OF shown],
        rule tight_andThen [OF usable_ok [OF frames_host]], rule succeed_ok [OF frames_host])
  then show "tight cfg i (\<lambda>s. known s (fst p)) (case p of (r, acquired) \<Rightarrow>
     andThen (await_tail r) (andThen (assert_usable ctl r)
       (andThen (rescue (emitSnapshot cfg r (trace q)) (\<lambda>e. andThen (if acquired then awaited (removeSession r) else proceed) (Throw e)))
         (andThen (assert_usable ctl r)
           (succeed_with q r (\<lambda>x. (''loaded'', JBool True) # number ''revision'' (hsRevision x))))))) (\<lambda>x _. replies q x)"
    by (simp add: p)
qed

subsection \<open>Mutations\<close>

lemma turn_step:
  assumes s: "host_keeps cfg s h" and r: "known s r" and o: "holds s r k i" and m: "mutating x = Some (r, k)"
  shows "in_turn s h r k \<and> host_keeps cfg s (h @ [(t, x)])"
proof -
  note q = queue_of [OF s r]
  from o obtain rest where e: "hsQueue (hrec s r) = (k, i) # rest" by (cases "hsQueue (hrec s r)") (auto simp: holds_def)
  have tk: "tickets s r = k # map fst rest" by (simp add: tickets_def e)
  have lo: "\<forall>k' \<in> set (tickets s r). k \<le> k'" "k < hNext s" using q by (auto simp: queue_ok_def e tk less_imp_le)
  have old: "k' \<notin> set (tickets s r)" if "(u, y) \<in> set h" "mutating y = Some (r, k')" "k' \<noteq> k" for u y k'
  proof
    assume "k' \<in> set (tickets s r)"
    moreover have "mutated_ok s h" using s by (simp add: host_keeps_def)
    then have "\<forall>k'' \<in> set (tickets s r). k' \<le> k''" using that(1,2) unfolding mutated_ok_def by blast
    then have "k' \<le> k" by (simp add: tk)
    ultimately show False using lo(1) that(3) by force
  qed
  have st: "streamed [(t, x)] = []" using m by (cases x) simp_all
  have "mutated_ok s (h @ [(t, x)])" using s lo m unfolding host_keeps_def mutated_ok_def by auto
  with s st have "host_keeps cfg s (h @ [(t, x)])" by (simp add: host_keeps_def trace_ok_def session_trace_def)
  moreover have "in_turn s h r k" unfolding in_turn_def using o old by blast
  ultimately show ?thesis by blast
qed

lemma mutate_ok:
  assumes "ctxSession ctx = r"
  shows "tight cfg i (\<lambda>s. (known s r \<and> holds s r k i) \<and> usable s (ctxController ctx) r) (mutate_adapter r k ctx m) (\<lambda>_ s. known s r \<and> holds s r k i)"
  unfolding mutate_adapter_def
proof (rule tight_get)
  fix s
  have "tight cfg i (\<lambda>u. u = s \<and> (known u r \<and> holds u r k i) \<and> usable u (ctxController ctx) r) (emit (Mutate r k (hsAdapter (hrec s r)) ctx m))
      (\<lambda>_ u. u = s \<and> (known u r \<and> holds u r k i) \<and> usable u (ctxController ctx) r)"
    by (rule triple_emit [OF frames_host])
      (use turn_step [of cfg s _ r k i "Mutate r k (hsAdapter (hrec s r)) ctx m" s] assms in auto)
  then show "tight cfg i (\<lambda>u. u = s \<and> (known u r \<and> holds u r k i) \<and> usable u (ctxController ctx) r)
      (andThen (emit (Mutate r k (hsAdapter (hrec s r)) ctx m)) adapter_done) (\<lambda>_ s. known s r \<and> holds s r k i)"
    by (rule tight_andThen) (rule triple_pre [OF adapter_done_ok [OF frames_host lasting_conj [OF known_stays(2) holds_lasting]]], blast)
qed

lemma bump_snapshot_ok: "tight cfg i (\<lambda>s. known s r) (andThen (bump_revision r) (emitSnapshot cfg r tr)) (\<lambda>_ s. known s r)"
  by (rule tight_andThen [OF bump_ok stream_ok(1)])

lemma mutation_turn_ok:
  assumes c: "\<And>P. tight cfg i P check (\<lambda>_. P)" and ctx: "ctxSession ctx = r"
  shows "tight cfg i (\<lambda>s. known s r \<and> holds s r k i) (mutation_turn cfg r k check ctx m tr) (\<lambda>_ s. known s r)"
  unfolding mutation_turn_def
  by (rule tight_andThen [OF usable_ok [OF frames_host]], rule tight_andThen [OF c], rule tight_andThen [OF mutate_ok [OF ctx]],
      rule tight_andThen [OF triple_post [OF usable_ok [OF frames_host]] bump_snapshot_ok], blast)

lemma known_leave [simp]: "known (leave_queue r' k s) r \<longleftrightarrow> r = r' \<or> known s r"
  by (simp add: leave_queue_def)

lemma session_turn_ok:
  assumes "\<And>k. tight cfg i (\<lambda>s. known s r \<and> holds s r k i) (body k) Q" and "\<And>a s k. Q a s \<Longrightarrow> Q a (leave_queue r k s)"
    and "\<And>a. lasting (host_relies i) (Q a)"
  shows "loose cfg i (\<lambda>s. known s r) (awaited (withSessionMutation i r body)) Q"
  by (rule awaited_ok [OF frames_grows withSessionMutation_ok]) (use assms in simp_all)

lemma mutate_session_ok:
  assumes "\<And>r P. tight cfg i P (check r) (\<lambda>_. P)"
  shows "loose cfg i (\<lambda>s. known s r) (mutate_session cfg i q ctl r check m) (\<lambda>_ s. known s r)"
  unfolding mutate_session_def
  by (rule session_turn_ok, rule tight_andThen [OF mutation_turn_ok [OF assms]])
    (auto simp: request_context_def intro!: triple_post [OF usable_ok [OF frames_host]])

lemma handle_mutation_ok:
  assumes "\<And>r P. tight cfg i P (check r) (\<lambda>_. P)"
  shows "loose cfg i (\<lambda>_. True) (handle_mutation cfg i q ctl check m fs) (\<lambda>x _. replies q x)"
  unfolding handle_mutation_def
  by (rule loose_after [OF requireSession_ok [OF frames_grows]], rule loose_andThen [OF mutate_session_ok [OF assms] succeed_ok [OF frames_grows]])

lemma checks_ok: "tight cfg i P (no_check r) (\<lambda>_. P)" "tight cfg i P (expect_revision n r) (\<lambda>_. P)"
  "tight cfg i P (case cloned t v of Inl e \<Rightarrow> Throw e | Inr _ \<Rightarrow> proceed) (\<lambda>_. P)"
proof -
  show "tight cfg i P (no_check r) (\<lambda>_. P)" unfolding no_check_def by (rule proceed_ok) simp
  show "tight cfg i P (expect_revision n r) (\<lambda>_. P)"
    unfolding expect_revision_def by (rule triple_get) (auto intro: tight_throw simp: proceed_def intro!: tight_ret)
  show "tight cfg i P (case cloned t v of Inl e \<Rightarrow> Throw e | Inr _ \<Rightarrow> proceed) (\<lambda>_. P)"
    by (auto split: sum.split intro: tight_throw proceed_ok)
qed

lemma artifacts_ok:
  assumes t: "\<And>k. t = Some k \<Longrightarrow> F = (\<lambda>s. holds s r k i)" and F: "lasting (host_relies i) F"
  shows "tight cfg i (\<lambda>s. known s r \<and> F s) (execute_artifacts cfg q ctl r p t) (\<lambda>_ s. known s r)"
proof -
  let ?ctx = "request_context q ctl r"
  have ctx: "ctxController ?ctx = ctl" "ctxSession ?ctx = r" by (simp_all add: request_context_def)
  have out: "tight cfg i (\<lambda>s. (known s r \<and> F s) \<and> usable s ctl r) (emit (ExecuteArtifacts t p ?ctx)) (\<lambda>_ s. (known s r \<and> F s) \<and> usable s ctl r)"
  proof (cases t)
    case None
    then show ?thesis by (intro emit_if) (simp_all add: ctx plain_def)
  next
    case (Some k)
    have "host_permits cfg s h (ExecuteArtifacts t p ?ctx) \<and> host_keeps cfg s (h @ [(s, ExecuteArtifacts t p ?ctx)])"
      if "host_keeps cfg s h" "(known s r \<and> F s) \<and> usable s ctl r" for s h
      using turn_step [OF that(1), of r k i "ExecuteArtifacts t p ?ctx" s] that(2) t [OF Some] Some ctx by simp
    then show ?thesis by (intro triple_emit [OF frames_host]) simp
  qed
  have change: "tight cfg i (\<lambda>s. known s r) (if t = None then proceed
      else andThen (bump_revision r) (andThen (emitSnapshot cfg r (trace q)) (assert_usable ctl r))) (\<lambda>_ s. known s r)"
    by (rule triple_if [OF proceed_ok [OF frames_host]], rule tight_andThen [OF bump_ok tight_andThen [OF stream_ok(1)]],
        rule triple_post [OF usable_ok [OF frames_host]], blast)
  show ?thesis
    unfolding execute_artifacts_def
    by (rule tight_andThen [OF usable_ok [OF frames_host]], rule tight_andThen [OF out],
        rule tight_after [OF triple_pre [OF delegate_ok [OF frames_host known_stays(2)]]], blast,
        rule tight_andThen [OF triple_post [OF usable_ok [OF frames_host]]], erule conjunct1,
        rule triple_if [OF tight_throw], rule tight_andThen [OF change tight_ret])
qed

lemma handle_artifacts_ok: "loose cfg i (\<lambda>_. True) (handle_artifacts cfg i q ctl p) (\<lambda>x _. replies q x)"
  unfolding handle_artifacts_def
proof (rule loose_after [OF requireSession_ok [OF frames_grows]], rule triple_if [OF loose_throw], rule loose_after)
  fix r
  have a: "loose cfg i (\<lambda>s. known s r) (awaited (withSessionMutation i r (\<lambda>t. execute_artifacts cfg q ctl r p (Some t)))) (\<lambda>_ s. known s r)"
    by (rule session_turn_ok, rule artifacts_ok) auto
  have "tight cfg i (\<lambda>s. known s r \<and> True) (execute_artifacts cfg q ctl r p None) (\<lambda>_ s. known s r)"
    by (rule artifacts_ok) simp_all
  then have b: "loose cfg i (\<lambda>s. known s r) (awaited (execute_artifacts cfg q ctl r p None)) (\<lambda>_ s. known s r)"
    by (intro awaited_ok [OF frames_grows]) (auto intro: loosen)
  show "loose cfg i (\<lambda>s. known s r) (awaited (if artifacts_mutate p then withSessionMutation i r (\<lambda>t. execute_artifacts cfg q ctl r p (Some t))
      else execute_artifacts cfg q ctl r p None)) (\<lambda>_ s. known s r)"
    using a b by simp
qed (rule replies_ok, simp_all)

subsection \<open>Executions\<close>

text \<open>The execution of a context is registered with its controller and runs.\<close>

definition registered :: "host \<Rightarrow> operation_context \<Rightarrow> bool" where
  "registered s ctx \<longleftrightarrow> (\<exists>e x. ctxExecution ctx = Some e \<and> oget (hsActive (hrec s (ctxSession ctx))) e = Some x
     \<and> axController x = ctxController ctx \<and> executionId (axDescriptor x) = e \<and> execStatus (axDescriptor x) = Running)"

lemma registered_unmoved: "unmoved r (\<lambda>s. registered s ctx)"
  by (auto simp: unmoved_def registered_def next_seq_def update_record_def)

lemma registered_executing: "registered s ctx \<Longrightarrow> usable s (ctxController ctx) (ctxSession ctx) \<Longrightarrow> executing s ctx"
  by (auto simp: registered_def executing_def)

lemma drop_ok: "tight cfg i (\<lambda>s. known s r) (drop_execution r e) (\<lambda>_ s. known s r)"
  unfolding drop_execution_def by (rule tight_update) simp_all

lemma report_ok: "tight cfg i (\<lambda>s. known s r) (report_execution cfg r ref kind st started err tr) (\<lambda>_ s. known s r)"
  unfolding report_execution_def by (rule triple_get_any) (rule stream_ok(2))

lemma report_if_known_ok: "tight cfg i (\<lambda>_. True) (report_if_known cfg q ref kind st d) (\<lambda>_ _. True)"
  unfolding report_if_known_def
proof (rule get_keeps)
  fix s h assume s: "host_keeps cfg s h"
  have "known s r" if "reporting_session s q = Some r" for r
    using that published_known [OF s] by (auto simp: reporting_session_def split: option.splits if_splits)
  then show "tight cfg i (\<lambda>t. t = s \<and> True) (case reporting_session s q of None \<Rightarrow> proceed
     | Some r \<Rightarrow> andThen (drop_execution r (refExecutionId ref)) (report_execution cfg r ref kind st None (Some d) (trace q))) (\<lambda>_ _. True)"
    by (auto split: option.split intro!: triple_weak [OF proceed_ok] triple_pre [OF tight_andThen [OF drop_ok triple_weak [OF report_ok]]])
qed

lemma cancelledBeforePreflight_ok:
  "tight cfg i (\<lambda>_. True) (cancelledBeforePreflight cfg q n a) (\<lambda>x _. \<forall>y. x = Some y \<longrightarrow> replies q y)"
proof -
  have r: "tight cfg i (\<lambda>_. True) (andThen (report_if_known cfg q ref kind Cancelled cancelled_descriptor)
      (Ret (Some (errorResponse q cancelled_descriptor)))) (\<lambda>x _. \<forall>y. x = Some y \<longrightarrow> replies q y)" for ref kind
    by (rule tight_andThen [OF report_if_known_ok tight_ret]) simp
  show ?thesis
    unfolding cancelledBeforePreflight_def
    by (rule triple_get_any) (auto split: option.split intro!: tight_ret r)
qed

lemma failAcceptedRequest_ok: "tight cfg i (\<lambda>_. True) (failAcceptedRequest cfg q n a err) (\<lambda>x _. replies q x)"
proof -
  have m: "tight cfg i (\<lambda>_. True) (andThen (mark_terminal cfg q ref TFailed) (report_if_known cfg q ref kind Failed d)) (\<lambda>_ _. True)" for ref kind d
    by (rule tight_andThen [OF mark_terminal_ok report_if_known_ok]) simp
  show ?thesis
    unfolding failAcceptedRequest_def Let_def
    by (rule triple_get_any, rule tight_andThen [OF _ replies_ok [OF frames_host]])
      (auto split: option.split intro!: m triple_weak [OF proceed_ok])
qed

lemma rejectExecution_ok: "tight cfg i (\<lambda>s. known s r) (rejectExecution cfg q n a r code msg) (\<lambda>x _. replies q x)"
proof -
  have m: "tight cfg i (\<lambda>s. known s r) (case ref of None \<Rightarrow> proceed | Some ref \<Rightarrow> mark_terminal cfg q ref TFailed) (\<lambda>_ s. known s r)" for ref
    by (auto split: option.split intro: mark_terminal_ok proceed_ok)
  show ?thesis
    unfolding rejectExecution_def Let_def
    by (rule triple_get_any, rule tight_andThen [OF m], rule triple_get_any, rule tight_andThen [OF stream_ok(2)], rule replies_ok) simp_all
qed

lemma finish_ok: "tight cfg i (\<lambda>s. known s r) (finish_execution cfg q r ref kind started st err) (\<lambda>_ s. known s r)"
  unfolding finish_execution_def by (rule tight_andThen [OF drop_ok tight_andThen [OF report_ok stream_ok(1)]])

lemma set_ledger_ok: "tight cfg i (\<lambda>s. known s r) (change (\<lambda>s. set_ledger n (f s) s)) (\<lambda>_ s. known s r)"
  by (rule ledger_change) simp

lemma run_execution_ok:
  assumes F: "\<And>s. F s \<Longrightarrow> known s r" and x: "loose cfg i (\<lambda>s. F s \<and> usable s ctl r) execute (\<lambda>_ s. known s r)"
  shows "loose cfg i F (run_execution cfg q r ref ctl kind n started execute) (\<lambda>x _. replies q x)"
  unfolding run_execution_def
proof (rule triple_ensuring [OF frames_grows, where P' = "\<lambda>s. known s r"])
  have clr: "loose cfg i (\<lambda>s. known s r) (change (update_record r (clear_prompt (refExecutionId ref)))) (\<lambda>_ s. known s r)"
    by (rule loosen, rule tight_update) simp_all
  show "loose cfg i (\<lambda>s. replies q a \<and> known s r) (change (update_record r (clear_prompt (refExecutionId ref)))) (\<lambda>_ _. replies q a)" for a
    using triple_frames [OF clr lasting_const, of "replies q a"] by (rule triple_conseq) auto
  show "loose cfg i (\<lambda>s. known s r) (change (update_record r (clear_prompt (refExecutionId ref)))) (\<lambda>_ _. True)"
    by (rule triple_weak [OF clr])
  have good: "loose cfg i (\<lambda>s. known s r) (andThen (finish_execution cfg q r ref kind started Succeeded None)
       (andThen (assert_usable ctl r)
         (andThen (change (\<lambda>s. set_ledger n (fst (markTerminal ref TSucceeded (ledger_at s n))) s))
           (Ret (successResponse q v))))) (\<lambda>x _. replies q x)" for v
    by (rule loose_andThen [OF loosen [OF finish_ok]], rule loose_andThen [OF triple_post [OF usable_ok [OF frames_grows]]], erule conjunct1,
        rule loose_andThen [OF loosen [OF set_ledger_ok] replies_ok]) simp_all
  have bad: "loose cfg i (\<lambda>s. known s r)
      (andThen (change (\<lambda>s. set_ledger n (fst (markTerminal ref st (ledger_at s n))) s))
         (andThen (finish_execution cfg q r ref kind started st' err) (Ret (errorResponse q d)))) (\<lambda>x _. replies q x)" for st st' err d
    by (rule loose_andThen [OF loosen [OF set_ledger_ok]], rule loose_andThen [OF loosen [OF finish_ok] replies_ok]) simp_all
  show "loose cfg i F
     (rescue
       (andThen (assert_usable ctl r)
         (after (awaited execute) (\<lambda>v.
           if \<not> isRuntimeWireValue v
           then Throw (coded_error ''NON_SERIALIZABLE_RESULT''
             ''Runtime operation returned data that cannot cross the transport boundary'')
           else Get (\<lambda>s.
             if ctl \<in> set (hAborted s) then Throw (OtherError ''Execution aborted'' True)
             else andThen (finish_execution cfg q r ref kind started Succeeded None)
               (andThen (assert_usable ctl r)
                 (andThen (change (\<lambda>s. set_ledger n (fst (markTerminal ref TSucceeded (ledger_at s n))) s))
                   (Ret (successResponse q v))))))))
       (\<lambda>e. Get (\<lambda>s.
          let cancelled = isAbortError s ctl e;
              d = serializeError e (if cancelled then ''ABORTED'' else ''EXECUTION_FAILED'') in
          andThen (change (\<lambda>s. set_ledger n (fst (markTerminal ref (if cancelled then TCancelled else TFailed) (ledger_at s n))) s))
            (andThen (finish_execution cfg q r ref kind started (if cancelled then Cancelled else Failed) (Some d))
              (Ret (errorResponse q d)))))) (\<lambda>x _. replies q x)"
  proof (rule triple_rescue [OF frames_grows, where P' = "\<lambda>s. known s r"])
    show "loose cfg i F (andThen (assert_usable ctl r)
         (after (awaited execute) (\<lambda>v.
           if \<not> isRuntimeWireValue v
           then Throw (coded_error ''NON_SERIALIZABLE_RESULT''
             ''Runtime operation returned data that cannot cross the transport boundary'')
           else Get (\<lambda>s.
             if ctl \<in> set (hAborted s) then Throw (OtherError ''Execution aborted'' True)
             else andThen (finish_execution cfg q r ref kind started Succeeded None)
               (andThen (assert_usable ctl r)
                 (andThen (change (\<lambda>s. set_ledger n (fst (markTerminal ref TSucceeded (ledger_at s n))) s))
                   (Ret (successResponse q v)))))))) (\<lambda>x _. replies q x)"
      by (rule loose_andThen [OF usable_ok [OF frames_grows]], rule loose_after [OF awaited_ok [OF frames_grows x]], simp,
          rule triple_if [OF loose_throw], rule triple_get_any, rule triple_if [OF loose_throw good])
  next
    show "known t r" if "F s" "grows s t" for s t using F known_grows that by blast
  qed (rule triple_get_any, unfold Let_def, rule bad)
qed (use F known_grows in blast)

definition runs :: "nat \<Rightarrow> host_config \<Rightarrow> request_envelope \<Rightarrow> response_envelope step \<Rightarrow> host \<Rightarrow> bool" where
  "runs i cfg q p s \<longleftrightarrow> (\<exists>P. P s \<and> loose cfg i P p (\<lambda>x _. replies q x))"

lemma runs_ret [simp]: "replies q x \<Longrightarrow> runs i cfg q (Ret x) s"
  unfolding runs_def by (rule exI [of _ "\<lambda>_. True"]) (simp add: replies_ok)

lemma runs_now: "loose cfg i P p (\<lambda>x _. replies q x) \<Longrightarrow> loose cfg i P (at_once p) (runs i cfg q)"
  unfolding at_once_def by (rule loose_after, assumption) (rule loose_ret, simp)

lemma runs_end: "loose cfg i P p (runs i cfg q) \<Longrightarrow> loose cfg i P (after p (\<lambda>p. p)) (\<lambda>x _. replies q x)"
proof (rule loose_after, assumption)
  fix a
  show "loose cfg i (runs i cfg q a) a (\<lambda>x _. replies q x)"
    by (rule tripleI) (auto simp: runs_def dest: tripleD)
qed

lemma executeLongRequest_ok:
  assumes x: "\<And>ctx. ctxSession ctx = r \<Longrightarrow> ctxController ctx = ctl \<Longrightarrow>
    loose cfg i (\<lambda>s. (known s r \<and> registered s ctx) \<and> usable s ctl r) (execute ctx) (\<lambda>_ s. known s r)"
  shows "tight cfg i (\<lambda>s. known s r) (executeLongRequest cfg q n a r ctl kind execute) (runs i cfg q)"
proof -
  have c: "tight cfg i (\<lambda>s. known s r) (andThen (drop_execution r e) (andThen (report_execution cfg r ref kind Cancelled None d tr)
      (andThen (emitSnapshot cfg r tr) (Ret (Ret (errorResponse q cancelled_descriptor)))))) (runs i cfg q)" for e ref d tr
    by (rule tight_andThen [OF drop_ok], rule tight_andThen [OF report_ok], rule tight_andThen [OF stream_ok(1)], rule tight_ret) simp
  have g: "tight cfg i (\<lambda>s. known s r)
     (andThen (change (update_record r (\<lambda>x. x\<lparr>hsActive := oset e \<lparr>axDescriptor = d, axController = ctl, axTrace = tr\<rparr> (hsActive x)\<rparr>)))
        (andThen (emitExecution cfg r d tr) (Ret (run_execution cfg q r ref ctl kind m now
          (execute \<lparr>ctxRequest = q, ctxExecution = Some e, ctxController = ctl, ctxSession = r\<rparr>))))) (runs i cfg q)"
    if d: "executionId d = e" "execStatus d = Running" for e d tr m now ref
  proof (rule tight_andThen)
    let ?ctx = "\<lparr>ctxRequest = q, ctxExecution = Some e, ctxController = ctl, ctxSession = r\<rparr>"
    let ?P = "\<lambda>s. known s r \<and> registered s ?ctx"
    show "tight cfg i (\<lambda>s. known s r) (change (update_record r (\<lambda>x. x\<lparr>hsActive := oset e \<lparr>axDescriptor = d, axController = ctl, axTrace = tr\<rparr> (hsActive x)\<rparr>))) (\<lambda>_. ?P)"
      by (rule tight_update) (use d in \<open>simp_all add: registered_def update_record_def\<close>)
    have run: "loose cfg i ?P (run_execution cfg q r ref ctl kind m now (execute ?ctx)) (\<lambda>x _. replies q x)"
      by (rule run_execution_ok) (use x [of ?ctx] in simp_all)
    show "tight cfg i ?P (andThen (emitExecution cfg r d tr) (Ret (run_execution cfg q r ref ctl kind m now (execute ?ctx)))) (runs i cfg q)"
      by (rule tight_andThen [OF emitExecution_ok [OF registered_unmoved]], rule tight_ret) (unfold runs_def, rule exI, rule conjI [OF _ run])
  qed
  have s: "tight cfg i (\<lambda>s. known s r) (ledgerFor cfg (request_scope_key q) (\<lambda>n. Get (\<lambda>s.
       let (l, start) = markStarted ref (ledger_at s n) in
       Put (set_ledger n l s)
         (if cancelled_start start \<or> ctl \<in> set (hAborted s)
          then andThen (drop_execution r (refExecutionId ref))
            (andThen (report_execution cfg r ref kind Cancelled None (Some cancelled_descriptor) (trace q))
              (andThen (emitSnapshot cfg r (trace q)) (Ret (Ret (errorResponse q cancelled_descriptor)))))
          else
            let d = \<lparr>executionId = refExecutionId ref, execRequestId = refRequestId ref, execKind = kind, execStatus = Running,
                  startedAt = Some (hClock s), finishedAt = None, execError = None\<rparr> in
            andThen (change (update_record r (\<lambda>x. x\<lparr>hsActive := oset (refExecutionId ref)
                \<lparr>axDescriptor = d, axController = ctl, axTrace = trace q\<rparr> (hsActive x)\<rparr>)))
              (andThen (emitExecution cfg r d (trace q))
                (Ret (run_execution cfg q r ref ctl kind n (hClock s)
                  (execute \<lparr>ctxRequest = q, ctxExecution = Some (refExecutionId ref), ctxController = ctl, ctxSession = r\<rparr>)))))))) (runs i cfg q)" for ref
  proof (rule ledgerFor_ok [OF known_tame_lasting], rule tight_get)
    fix m s
    show "tight cfg i (\<lambda>u. u = s \<and> known u r) (let (l, start) = markStarted ref (ledger_at s m) in
       Put (set_ledger m l s)
         (if cancelled_start start \<or> ctl \<in> set (hAborted s)
          then andThen (drop_execution r (refExecutionId ref))
            (andThen (report_execution cfg r ref kind Cancelled None (Some cancelled_descriptor) (trace q))
              (andThen (emitSnapshot cfg r (trace q)) (Ret (Ret (errorResponse q cancelled_descriptor)))))
          else
            let d = \<lparr>executionId = refExecutionId ref, execRequestId = refRequestId ref, execKind = kind, execStatus = Running,
                  startedAt = Some (hClock s), finishedAt = None, execError = None\<rparr> in
            andThen (change (update_record r (\<lambda>x. x\<lparr>hsActive := oset (refExecutionId ref)
                \<lparr>axDescriptor = d, axController = ctl, axTrace = trace q\<rparr> (hsActive x)\<rparr>)))
              (andThen (emitExecution cfg r d (trace q))
                (Ret (run_execution cfg q r ref ctl kind m (hClock s)
                  (execute \<lparr>ctxRequest = q, ctxExecution = Some (refExecutionId ref), ctxController = ctl, ctxSession = r\<rparr>)))))) (runs i cfg q)"
      unfolding Let_def case_prod_beta
      by (rule tame_put [OF tame_fields(20) known_tame_lasting], rule triple_if [OF c g]) simp_all
  qed
  show ?thesis
    unfolding executeLongRequest_def
    by (rule triple_get_any, split option.split, intro conjI allI impI, rule tight_ret, simp, rule s)
qed

lemma prepare_prompt_ok:
  assumes ctx: "ctxSession ctx = r" "ctxController ctx = ctl"
  shows "loose cfg i (\<lambda>s. (known s r \<and> registered s ctx) \<and> usable s ctl r) (prepare_prompt cfg i q r ctx) (\<lambda>_ s. known s r)"
proof -
  have e: "loose cfg i (\<lambda>s. (known s r \<and> registered s ctx) \<and> usable s ctl r) (emit (PreparePrompt ctx)) (\<lambda>_ s. known s r)"
    by (rule triple_post [OF emit_if [OF frames_grows]]) (use ctx registered_executing in \<open>auto simp: plain_def\<close>)
  have m: "loose cfg i (\<lambda>s. known s r) (awaited (withSessionMutation i r (\<lambda>t.
      mutation_turn cfg r t (case cloned ''Prepared prompt context'' v of Inl e \<Rightarrow> Throw e | Inr _ \<Rightarrow> proceed) ctx (PutMessage v None) (trace q))))
      (\<lambda>_ s. known s r)" for v
    by (rule session_turn_ok, rule mutation_turn_ok [OF checks_ok(3) ctx(1)]) simp_all
  show ?thesis
    unfolding prepare_prompt_def
    by (rule loose_andThen [OF e], rule await_any [OF frames_grows _ known_stays(2)])
      (auto split: host_answer.split option.split intro: loose_throw proceed_ok [OF frames_grows] m)
qed

lemma run_prompt_ok:
  assumes ctx: "ctxSession ctx = r" "ctxController ctx = ctl"
  shows "loose cfg i (\<lambda>s. (known s r \<and> registered s ctx) \<and> usable s ctl r) (run_prompt cfg i q r e m ctx) (\<lambda>_ s. known s r)"
proof -
  let ?M = "\<lambda>s. known s r \<and> (hasPromptPreparation cfg \<or> executing s ctx)"
  have first: "loose cfg i (\<lambda>s. (known s r \<and> registered s ctx) \<and> usable s ctl r)
      (if hasPromptPreparation cfg then prepare_prompt cfg i q r ctx else proceed) (\<lambda>_. ?M)"
  proof (cases "hasPromptPreparation cfg")
    case True
    then show ?thesis using triple_post [OF prepare_prompt_ok [OF ctx], where Q' = "\<lambda>_. ?M"] by simp
  next
    case False
    then show ?thesis
      using triple_post [OF proceed_ok [OF frames_grows], where P = "\<lambda>s. (known s r \<and> registered s ctx) \<and> usable s ctl r" and Q' = "\<lambda>_. ?M"] ctx registered_executing
      by simp
  qed
  have out: "loose cfg i ?M (emit (AdapterPrompt a m ctx)) (\<lambda>_. ?M)" for a
    by (rule emit_if) (simp_all add: plain_def)
  have done_ok: "loose cfg i ?M adapter_done (\<lambda>_ s. known s r)"
    by (rule triple_pre [OF adapter_done_ok [OF frames_grows known_stays(2)]]) simp
  have bump: "loose cfg i (\<lambda>s. known s r) (awaited (withSessionMutation i r (\<lambda>t. andThen (assert_usable (ctxController ctx) r) (bump_revision r))))
      (\<lambda>_ s. known s r)"
    by (rule session_turn_ok, rule tight_andThen [OF usable_ok [OF frames_host]], rule triple_pre [OF bump_ok]) simp_all
  have fin: "loose cfg i (\<lambda>s. known s r) (Ret v) (\<lambda>_ s. known s r)" for v
    by (rule loose_ret)
  show ?thesis
    unfolding run_prompt_def
    by (rule loose_andThen [OF first], rule triple_get_any, rule loose_andThen [OF out], rule loose_andThen [OF done_ok],
        rule loose_andThen [OF bump fin])
qed

lemma handle_prompt_ok: "tight cfg i (\<lambda>_. True) (handle_prompt cfg i q n a ctl e m) (runs i cfg q)"
  unfolding handle_prompt_def
proof (rule tight_after [OF requireSession_ok [OF frames_host]], rule triple_get_any, rule triple_if)
  fix r
  show "tight cfg i (\<lambda>s. known s r) (after (rejectExecution cfg q n a r ''SESSION_BUSY'' ''A prompt is already active'') (\<lambda>x. Ret (Ret x))) (runs i cfg q)"
    by (rule tight_after [OF rejectExecution_ok tight_ret]) simp
  show "tight cfg i (\<lambda>s. known s r) (andThen (change (update_record r (\<lambda>x. x\<lparr>hsPrompt := Some e\<rparr>)))
       (executeLongRequest cfg q n a r ctl KPrompt (run_prompt cfg i q r e m))) (runs i cfg q)"
    by (rule tight_andThen [OF tight_update executeLongRequest_ok [OF run_prompt_ok]]) simp_all
qed

text \<open>The delegates of the REPL and of page operations.\<close>

lemma delegated_ok:
  assumes "ctxSession ctx = r" "ctxController ctx = ctl" and x: "x = ExecuteRepl c ctx \<or> x = ExecutePage p ps ctx"
  shows "loose cfg i (\<lambda>s. (known s r \<and> registered s ctx) \<and> usable s ctl r) (andThen (emit x) delegate_value) (\<lambda>_ s. known s r)"
proof (rule loose_andThen [OF triple_post [OF emit_if [OF frames_grows]] delegate_ok [OF frames_grows known_stays(2)]])
  fix s h assume "(known s r \<and> registered s ctx) \<and> usable s ctl r"
  then show "host_permits cfg s h x" using x registered_executing assms(1,2) by auto
qed (use x in \<open>auto simp: plain_def\<close>)

lemma process_operation_ok: "loose cfg i (\<lambda>_. True) (process_operation cfg i q n a ctl p) (runs i cfg q)"
proof (cases p)
  case (Prompt e m)
  then show ?thesis by (simp add: loosen [OF handle_prompt_ok])
next
  case (ReplExecute e c js)
  have "tight cfg i (\<lambda>_. True) (process_operation cfg i q n a ctl p) (runs i cfg q)"
    unfolding ReplExecute process_operation.simps
    by (rule tight_after [OF requireSession_ok [OF frames_host]], rule triple_if [OF tight_throw],
        rule executeLongRequest_ok [OF delegated_ok]) simp_all
  then show ?thesis by (rule loosen)
next
  case (PageOperation e o' ps)
  have "tight cfg i (\<lambda>_. True) (process_operation cfg i q n a ctl p) (runs i cfg q)"
    unfolding PageOperation process_operation.simps
    by (rule tight_after [OF requireSession_ok [OF frames_host]], rule triple_if [OF tight_throw],
        rule executeLongRequest_ok [OF delegated_ok]) simp_all
  then show ?thesis by (rule loosen)
qed (auto intro!: runs_now handle_mutation_ok checks_ok handle_artifacts_ok loose_throw
      loosen [OF handle_attach_ok] loosen [OF handle_create_ok] loosen [OF handle_load_ok] loosen [OF handle_release_ok] loosen [OF handle_resync_ok])

lemma processAccepted_ok: "loose cfg i (\<lambda>_. True) (processAccepted cfg i q n a ctl) (\<lambda>x _. replies q x)"
proof -
  have p: "loose cfg i (\<lambda>_. True) (rescue (andThen (assertRequestActive ctl) (process_operation cfg i q n a ctl (operation q)))
       (\<lambda>e. Get (\<lambda>s. at_once (failAcceptedRequest cfg q n a (if isAbortError s ctl e then aborted_error else e))))) (runs i cfg q)"
    by (rule triple_rescue [OF frames_grows, where P' = "\<lambda>_. True"],
        rule loose_andThen [OF request_active_ok [OF frames_grows] triple_pre [OF process_operation_ok]])
      (auto intro!: triple_get_any runs_now loosen [OF failAcceptedRequest_ok])
  have r: "loose cfg i (\<lambda>s. \<forall>y. early = Some y \<longrightarrow> replies q y) (case early of Some x \<Rightarrow> Ret x
     | None \<Rightarrow> after (rescue (andThen (assertRequestActive ctl) (process_operation cfg i q n a ctl (operation q)))
       (\<lambda>e. Get (\<lambda>s. at_once (failAcceptedRequest cfg q n a (if isAbortError s ctl e then aborted_error else e))))) (\<lambda>p. p)) (\<lambda>x _. replies q x)" for early
    by (cases early) (auto intro!: loose_ret triple_pre [OF runs_end [OF p]])
  show ?thesis unfolding processAccepted_def by (rule loose_after [OF loosen [OF cancelledBeforePreflight_ok] r])
qed

subsection \<open>The recorded requests\<close>

text \<open>Steps that change nothing but what is recorded of requests.\<close>

definition recording :: "host \<Rightarrow> host \<Rightarrow> bool" where
  "recording s t \<longleftrightarrow> hRecords t = hRecords s \<and> hSessions t = hSessions s \<and> hPromises t = hPromises s \<and> hInFlight t = hInFlight s
     \<and> hBuffer t = hBuffer s \<and> hRestoring t = hRestoring s \<and> hNext t = hNext s \<and> hAborted t = hAborted s \<and> hDisposed t = hDisposed s"

lemma recording_refl [simp]: "recording s s"
  by (simp add: recording_def)

lemma recording_trans: "recording s t \<Longrightarrow> recording t u \<Longrightarrow> recording s u"
  by (simp add: recording_def)

lemma recording_fields [simp]: "recording s (s\<lparr>hHistory := a\<rparr>)" "recording s (s\<lparr>hCache := b\<rparr>)" "recording s (s\<lparr>hCompleted := c\<rparr>)"
  "recording s (s\<lparr>hHistory := a, hCache := b\<rparr>)" "recording s (s\<lparr>hHistory := a, hControllers := d\<rparr>)" "recording s (remember_key k s)"
  "recording s (set_ledger n l (s\<lparr>hHistory := a, hCache := b\<rparr>))" "recording s (s\<lparr>hLedgers := m\<rparr>)" "recording s (set_ledger n l s)"
  by (simp_all add: recording_def remember_key_def set_ledger_def)

text \<open>What is left of the contract when the number of completed requests is put aside.\<close>

definition roughly :: "host_config \<Rightarrow> host \<Rightarrow> (host \<times> host_output) list \<Rightarrow> bool" where
  "roughly cfg s h \<longleftrightarrow> host_well s \<and> trace_ok cfg s h \<and> mutated_ok s h \<and> history_ok s"

lemma host_keeps_roughly: "host_keeps cfg s h \<longleftrightarrow> roughly cfg s h \<and> bounded cfg s"
  by (auto simp: host_keeps_def roughly_def)

lemma recording_keeps:
  assumes r: "recording s t" and s: "roughly cfg s h" and t: "history_ok t"
  shows "roughly cfg t h \<and> grows s t \<and> holds t = holds s"
proof -
  note e = same_records [of t s]
  have "host_well t" using r s e by (simp add: recording_def roughly_def host_well_def buffered_def)
  moreover have "trace_ok cfg t h" "mutated_ok t h"
    using r s e by (simp_all add: recording_def roughly_def trace_ok_def session_trace_def buffered_def mutated_ok_def)
  ultimately show ?thesis using r t e by (simp add: roughly_def grows_def recording_def)
qed

lemma recording_moves:
  assumes r: "recording s t" and g: "grows s t \<and> holds t = holds s" and e: "hRestoring s = None \<or> (hHistory s = [] \<longrightarrow> hHistory t = [])"
  shows "host_guarantees i s t \<and> host_relies i s t"
  using r g e by (auto simp: host_guarantees_def host_relies_def restores_def recording_def)

lemma recording_step:
  assumes "recording s t" and "host_keeps cfg s h" and "history_ok t" and "bounded cfg t" and "hRestoring s = None \<or> (hHistory s = [] \<longrightarrow> hHistory t = [])"
  shows "host_keeps cfg t h \<and> host_guarantees i s t \<and> host_relies i s t"
  using recording_keeps [of s t cfg h] recording_moves [of s t i] assms by (simp add: host_keeps_roughly)

lemma history_ok_request:
  assumes "history_ok s"
  shows "history_ok (s\<lparr>hHistory := oset (requestKey q) q (hHistory s), hControllers := c\<rparr>)" "history_ok (s\<lparr>hHistory := oset (requestKey q) q (hHistory s)\<rparr>)"
  using assms by (auto simp: history_ok_def is_completed_def intro: okeep_set)

lemma history_ok_response:
  assumes "history_ok s" and "response_key x = requestKey q"
  shows "history_ok (s\<lparr>hCache := oset (requestKey q) x (hCache s)\<rparr>)"
  using assms by (auto simp: history_ok_def is_completed_def intro: okeep_set)

lemma remember_ok:
  assumes "history_ok s" and "is_completed k s"
  shows "history_ok (remember_key k s)" "hHistory (remember_key k s) = hHistory s"
  using assms by (auto simp: history_ok_def is_completed_def remember_key_def dest: subsetD [OF set_remove1_subset])

lemma remember_length: "is_completed k s \<Longrightarrow> length (hCompleted (remember_key k s)) \<le> Suc (length (hCompleted s))"
  by (simp add: remember_key_def length_remove1)

lemma prune_key_ok:
  assumes "history_ok s" and "k \<notin> set (hCompleted s)"
  shows "history_ok (prune_key k s) \<and> hCompleted (prune_key k s) = hCompleted s \<and> recording s (prune_key k s)
    \<and> (hHistory s = [] \<longrightarrow> hHistory (prune_key k s) = [])"
proof (cases "oget (hHistory s) k")
  case (Some q)
  define s1 where "s1 = s\<lparr>hHistory := odel k (hHistory s), hCache := odel k (hCache s)\<rparr>"
  define s2 where "s2 = (case oget (hLedgers s1) (request_scope_key q) of None \<Rightarrow> s1
     | Some n \<Rightarrow> set_ledger n (fst (forget (clientId q) (windowId q) (sessionId q) (requestId q) (ledger_at s1 n))) s1)"
  have p: "prune_key k s = (if \<not> list_ex (\<lambda>c. request_scope_key c = request_scope_key q) (ovals (hHistory s2))
          \<and> oget (hSessions s2) (request_scope_key q) = None
       then s2\<lparr>hLedgers := odel (request_scope_key q) (hLedgers s2)\<rparr> else s2)"
    unfolding prune_key_def by (simp only: Some option.case Let_def s1_def [symmetric] s2_def [symmetric])
  have c1: "is_completed c s1" if "c \<in> set (hCompleted s)" for c
    using assms that by (auto simp: history_ok_def is_completed_def s1_def)
  have h1: "history_ok s1 \<and> hCompleted s1 = hCompleted s \<and> recording s s1 \<and> (hHistory s = [] \<longrightarrow> hHistory s1 = [])"
    using assms c1 by (auto simp: history_ok_def s1_def intro: okeep_del)
  have keep: "history_ok (u\<lparr>hLedgers := m\<rparr>) = history_ok u" "history_ok (set_ledger n l u) = history_ok u"
    "hHistory (set_ledger n l u) = hHistory u" "hCompleted (set_ledger n l u) = hCompleted u" for u m n l
    by (simp_all add: history_ok_def is_completed_def set_ledger_def)
  have h2: "history_ok s2 \<and> hCompleted s2 = hCompleted s \<and> recording s s2 \<and> (hHistory s = [] \<longrightarrow> hHistory s2 = [])"
    unfolding s2_def using h1 recording_trans [OF _ recording_fields(9)] by (auto split: option.split simp: keep)
  then show ?thesis unfolding p using recording_trans [OF _ recording_fields(8)] by (auto simp: keep)
qed (use assms in \<open>simp add: prune_key_def\<close>)

lemma prune_keys_ok:
  assumes "history_ok s" and "set ks \<inter> set (hCompleted s) = {}"
  shows "history_ok (fold prune_key ks s) \<and> hCompleted (fold prune_key ks s) = hCompleted s \<and> recording s (fold prune_key ks s)
    \<and> (hHistory s = [] \<longrightarrow> hHistory (fold prune_key ks s) = [])"
  using assms
proof (induction ks arbitrary: s)
  case (Cons k ks)
  then have k: "history_ok (prune_key k s) \<and> hCompleted (prune_key k s) = hCompleted s \<and> recording s (prune_key k s)
      \<and> (hHistory s = [] \<longrightarrow> hHistory (prune_key k s) = [])"
    by (intro prune_key_ok) auto
  with Cons.IH [of "prune_key k s"] Cons.prems(2) recording_trans [of s "prune_key k s"] show ?case by auto
qed simp

lemma prune_ok:
  assumes "history_ok s"
  shows "history_ok (pruneCompletedRequests cfg s) \<and> bounded cfg (pruneCompletedRequests cfg s) \<and> recording s (pruneCompletedRequests cfg s)
    \<and> (hHistory s = [] \<longrightarrow> hHistory (pruneCompletedRequests cfg s) = [])"
proof -
  define k where "k = length (hCompleted s) - maxCompletedRequests cfg"
  define u where "u = s\<lparr>hCompleted := drop k (hCompleted s)\<rparr>"
  have p: "pruneCompletedRequests cfg s = fold prune_key (take k (hCompleted s)) u" by (simp add: pruneCompletedRequests_def Let_def k_def u_def)
  have "distinct (take k (hCompleted s) @ drop k (hCompleted s))" using assms by (simp add: history_ok_def)
  then have d: "set (take k (hCompleted s)) \<inter> set (hCompleted u) = {}" by (simp only: distinct_append) (simp add: u_def)
  have "history_ok u" using assms by (auto simp: history_ok_def is_completed_def u_def dest: in_set_dropD)
  note f = prune_keys_ok [OF this d]
  have "recording s u" by (simp add: u_def)
  with f have "recording s (fold prune_key (take k (hCompleted s)) u)" using recording_trans by blast
  moreover have "length (drop k (hCompleted s)) \<le> maxCompletedRequests cfg" by (simp add: k_def)
  ultimately show ?thesis using f by (simp add: p bounded_def u_def)
qed

lemma remember_request_ok: "lasting (host_relies i) P \<Longrightarrow> tight cfg i P (rememberCompletedRequest cfg k True) (\<lambda>_. P)"
proof -
  assume P: "lasting (host_relies i) P"
  have st: "host_keeps cfg (pruneCompletedRequests cfg (remember_key k s)) h \<and> host_guarantees i s (pruneCompletedRequests cfg (remember_key k s))
      \<and> host_relies i s (pruneCompletedRequests cfg (remember_key k s))" if "is_completed k s" "host_keeps cfg s h" for s h
  proof -
    have "history_ok s" using that by (simp add: host_keeps_def)
    note r = remember_ok [OF this that(1)]
    note p = prune_ok [OF r(1), of cfg]
    have "recording s (pruneCompletedRequests cfg (remember_key k s))" using p recording_fields(6) recording_trans by blast
    then show ?thesis by (rule recording_step) (use that p r(2) in simp_all)
  qed
  show ?thesis
    unfolding rememberCompletedRequest_def if_True
  proof (rule tight_get)
    fix s assume Ps: "P s"
    have c: "tight cfg i (\<lambda>u. u = s \<and> P u) (change (\<lambda>s. pruneCompletedRequests cfg (remember_key k s))) (\<lambda>_. P)" if "is_completed k s"
      by (rule triple_change) (use st that lastingD [OF P] in auto)
    show "tight cfg i (\<lambda>u. u = s \<and> P u) (if \<not> is_completed k s then proceed
        else andThen (change (\<lambda>s. pruneCompletedRequests cfg (remember_key k s))) notifyStateChanged) (\<lambda>_. P)"
      by (rule triple_if) (auto intro: triple_pre [OF proceed_ok] tight_andThen [OF c cleanup_ok(3)])
  qed
qed

subsection \<open>Promises\<close>

lemma promise_facts: "host_keeps cfg s h \<Longrightarrow> promised s p q \<Longrightarrow> p < hNext s \<and> isRuntimeRequestEnvelope (request_json q)"
  by (auto simp: host_keeps_def host_well_def promised_def dest: okeep_get)

text \<open>Changing a promise, with the request it stands for or a new one.\<close>

lemma promise_step:
  assumes s: "host_keeps cfg s h" and t: "t = s\<lparr>hInFlight := fl, hControllers := c, hPromises := oset p (q, y) (hPromises s)\<rparr>"
    and p: "promised s p q \<or> oget (hPromises s) p = None \<and> p < hNext s \<and> isRuntimeRequestEnvelope (request_json q)"
    and y: "\<And>x. y = Some x \<Longrightarrow> answers q x" and fl: "\<And>k m. oget fl k = Some m \<Longrightarrow> oget (hInFlight s) k = Some m \<or> k = requestKey q \<and> m = p"
  shows "host_keeps cfg t h \<and> host_guarantees i s t \<and> host_relies i s t \<and> promised t p q"
proof -
  note e = same_records [of t s]
  have r: "hRecords t = hRecords s" by (simp add: t)
  have pq: "p < hNext s" "isRuntimeRequestEnvelope (request_json q)" using p promise_facts [OF s] by auto
  have old: "fst v = q" if "oget (hPromises s) p = Some v" for v using p that by (auto simp: promised_def)
  have "okeep (\<lambda>p v. p < hNext s \<and> isRuntimeRequestEnvelope (request_json (fst v)) \<and> (\<forall>x. snd v = Some x \<longrightarrow> answers (fst v) x)) (oset p (q, y) (hPromises s))"
    by (rule okeep_set) (use s pq y in \<open>auto simp: host_keeps_def host_well_def\<close>)
  moreover have "\<exists>v. oget (oset p (q, y) (hPromises s)) m = Some v \<and> requestKey (fst v) = k" if "oget fl k = Some m" for k m
  proof (cases "oget (hInFlight s) k = Some m")
    case True
    with s obtain v where "oget (hPromises s) m = Some v" "requestKey (fst v) = k" unfolding host_keeps_def host_well_def by (blast dest: okeep_get)
    then show ?thesis using old [of v] by (cases "m = p"; cases v) auto
  qed (use fl [OF that] in simp)
  ultimately have "host_well t" using s e [OF r] by (simp add: host_keeps_def host_well_def t buffered_def okeep_def)
  moreover have "trace_ok cfg t h" "mutated_ok t h" "history_ok t" "bounded cfg t"
    using s e [OF r] by (simp_all add: host_keeps_def trace_ok_def session_trace_def buffered_def mutated_ok_def history_ok_def bounded_def is_completed_def t)
  moreover have "grows s t" using old by (auto simp: grows_def t)
  ultimately show ?thesis using e [OF r]
    by (simp add: host_keeps_def host_guarantees_def host_relies_def restores_def promised_def t)
qed

lemma launch_ok:
  assumes v: "isRuntimeRequestEnvelope (request_json q)" and j: "\<And>p s. promised s p q \<Longrightarrow> host_enters s (j p)"
    and w: "\<And>p. tight cfg i (\<lambda>s. promised s p q) (join_promise me q Processed p) (\<lambda>_ _. True)"
  shows "tight cfg i (\<lambda>_. True) (launch me q j) (\<lambda>_ _. True)"
proof (rule tripleI)
  fix s h assume a: "keeps (host_contract cfg) s h" "True"
  define u where "u = s\<lparr>hNext := Suc (hNext s)\<rparr>"
  define t where "t = u\<lparr>hInFlight := oset (requestKey q) (hNext s) (hInFlight u), hPromises := oset (hNext s) (q, None) (hPromises u)\<rparr>"
  have su: "host_keeps cfg u h \<and> host_guarantees i s u \<and> host_relies i s u" by (rule tame_step) (use a in \<open>simp_all add: u_def\<close>)
  have "oget (hPromises u) (hNext s) = None"
  proof (rule ccontr)
    assume "oget (hPromises u) (hNext s) \<noteq> None"
    then obtain v where "oget (hPromises s) (hNext s) = Some v" by (auto simp: u_def)
    with a have "hNext s < hNext s" unfolding host_contract_simps host_keeps_def host_well_def by (blast dest: okeep_get)
    then show False by simp
  qed
  then have ut: "host_keeps cfg t h \<and> host_guarantees i u t \<and> host_relies i u t \<and> promised t (hNext s) q"
    by (intro promise_step [where c = "hControllers u"]) (use su v in \<open>auto simp: t_def u_def split: if_splits\<close>)
  then have st: "host_relies i s t" using su host_relies_trans by blast
  have "sat (host_contract cfg) i (join_promise me q Processed (hNext s)) (\<lambda>a s' h'. keeps (host_contract cfg) s' h' \<and> host_relies i s s')
      (\<lambda>_ s' h'. keeps (host_contract cfg) s' h' \<and> host_relies i s s') t h"
    by (rule sat_mono [OF tripleD [OF w]]) (use ut st host_relies_trans in auto)
  with su ut j show "sat (host_contract cfg) i (launch me q j)
      (\<lambda>a s' h'. keeps (host_contract cfg) s' h' \<and> host_relies i s s' \<and> True) (\<lambda>_ s' h'. keeps (host_contract cfg) s' h' \<and> host_relies i s s') s h"
    by (simp add: launch_def fresh_number_def sat_andThen sat_change u_def t_def)
qed

lemma respond_ok: "(\<And>s h. P s \<Longrightarrow> host_keeps cfg s h \<Longrightarrow> host_permits cfg s h (Responded me q src x)) \<Longrightarrow> tight cfg i P (respond me q src x) (\<lambda>_ _. True)"
  unfolding respond_def by (rule triple_weak [OF emit_if]) (simp_all add: plain_def)

lemma refusal_ok: "replies q x \<Longrightarrow> tight cfg i P (respond me q Refused x) (\<lambda>_ _. True)"
  by (rule respond_ok) (simp add: replies_def)

lemma promise_answered: "host_keeps cfg s h \<Longrightarrow> promised s p q \<Longrightarrow> host_answers i s (PromiseOf p) w \<Longrightarrow> \<exists>x. w = GotResponse x \<and> answers q x"
  by (auto simp: host_keeps_def host_well_def promised_def split: option.splits dest: okeep_get)

lemma join_ok:
  assumes "\<And>x. answers q' x \<Longrightarrow> host_permits cfg undefined [] (Responded me q src x)"
  shows "tight cfg i (\<lambda>s. promised s p q') (join_promise me q src p) (\<lambda>_ _. True)"
  unfolding join_promise_def
proof (rule await_ok [OF frames_host _ promised_lasting(2)])
  fix w
  have "host_permits cfg s h (Responded me q src x)"
    if "promised s p q' \<and> host_answers i s (PromiseOf p) (GotResponse x)" "host_keeps cfg s h" for s h x
    using promise_answered [OF that(2)] that(1) assms [of x] by fastforce
  then show "tight cfg i (\<lambda>s. promised s p q' \<and> host_answers i s (PromiseOf p) w)
      (case w of GotResponse x \<Rightarrow> respond me q src x | _ \<Rightarrow> proceed) (\<lambda>_ _. True)"
    by (auto split: host_answer.split intro!: triple_weak [OF proceed_ok] respond_ok simp del: host_permits.simps host_answers.simps)
qed

lemma join_processed_ok: "tight cfg i (\<lambda>s. promised s p q) (join_promise me q Processed p) (\<lambda>_ _. True)"
  by (rule join_ok) simp

lemma join_joined_ok: "requestKey q' = requestKey q \<Longrightarrow> tight cfg i (\<lambda>s. promised s p q') (join_promise me q Joined p) (\<lambda>_ _. True)"
  by (rule join_ok) (simp add: answers_key)

lemma repeat_answer_ok:
  assumes P: "\<And>s h. P s \<Longrightarrow> host_keeps cfg s h \<Longrightarrow> tight cfg i (\<lambda>t. t = s \<and> P t) p (\<lambda>_ _. True)"
  shows "tight cfg i P (repeat_answer me q p) (\<lambda>_ _. True)"
  unfolding repeat_answer_def
proof (rule get_keeps)
  fix s h assume s: "P s" "host_keeps cfg s h"
  show "tight cfg i (\<lambda>t. t = s \<and> P t) (case oget (hInFlight s) (requestKey q) of
     Some p \<Rightarrow> join_promise me q Joined p
   | None \<Rightarrow> (case oget (hCache s) (requestKey q) of Some x \<Rightarrow> respond me q Cached x | None \<Rightarrow> p)) (\<lambda>_ _. True)"
  proof (cases "oget (hInFlight s) (requestKey q)")
    case (Some m)
    then obtain v where v: "oget (hPromises s) m = Some v" "requestKey (fst v) = requestKey q"
      using s(2) unfolding host_keeps_def host_well_def by (blast dest: okeep_get)
    then have "promised s m (fst v)" by (cases v) (simp add: promised_def)
    with Some show ?thesis using triple_pre [OF join_joined_ok [OF v(2)], where P' = "\<lambda>t. t = s \<and> P t"] by simp
  next
    case None
    show ?thesis
    proof (cases "oget (hCache s) (requestKey q)")
      case (Some x)
      then have "response_key x = requestKey q" using s(2) unfolding host_keeps_def history_ok_def by (blast dest: okeep_get)
      then show ?thesis using None Some by (simp add: respond_ok)
    qed (use None P [OF s] in simp)
  qed
qed

lemma settle_request_ok:
  assumes "loose cfg i (\<lambda>_. True) p (\<lambda>x _. replies q x)"
  shows "loose cfg i (\<lambda>s. promised s m q) (settle_request cfg m q b p) (\<lambda>_ _. True)"
proof -
  have body: "loose cfg i (\<lambda>s. promised s m q) (awaited (rescue (awaited p) (\<lambda>e. Ret (errorFromUnknown q e)))) (\<lambda>x s. replies q x \<and> promised s m q)"
  proof -
    have "loose cfg i (\<lambda>_. True) (awaited (rescue (awaited p) (\<lambda>e. Ret (errorFromUnknown q e)))) (\<lambda>x _. replies q x)"
      by (rule awaited_ok [OF frames_grows], rule triple_rescue [OF frames_grows awaited_ok [OF frames_grows assms], where P' = "\<lambda>_. True"])
        (simp_all add: replies_ok)
    from triple_frames [OF this promised_lasting(1)] show ?thesis by (rule triple_conseq) auto
  qed
  have cache: "tight cfg i (\<lambda>s. replies q x \<and> promised s m q) (change (\<lambda>s. if hDisposed s then s else s\<lparr>hCache := oset (requestKey q) x (hCache s)\<rparr>))
      (\<lambda>_ s. replies q x \<and> promised s m q)" for x
  proof (rule tight_change)
    fix s h assume P: "replies q x \<and> promised s m q" and s: "host_keeps cfg s h"
    let ?t = "s\<lparr>hCache := oset (requestKey q) x (hCache s)\<rparr>"
    have "answers q x" using P promise_facts [OF s, of m q] by (auto simp: replies_def)
    then have "history_ok ?t" using s by (intro history_ok_response answers_key) (simp_all add: host_keeps_def)
    then have "host_keeps cfg ?t h \<and> host_guarantees i s ?t \<and> host_relies i s ?t"
      by (intro recording_step) (use s in \<open>simp_all add: host_keeps_def bounded_def\<close>)
    then show "host_keeps cfg (if hDisposed s then s else ?t) h \<and> host_guarantees i s (if hDisposed s then s else ?t) \<and> host_relies i s (if hDisposed s then s else ?t)"
      using tame_step [OF tame_refl s, of i] by simp
  qed (simp add: promised_def)
  have wait: "tight cfg i (\<lambda>s. replies q x \<and> promised s m q) pause (\<lambda>_ s. replies q x \<and> promised s m q)" for x
    by (rule pause_ok [OF frames_host lasting_conj [OF lasting_const promised_lasting(2)]])
  have settle: "tight cfg i (\<lambda>s. replies q x \<and> promised s m q) (change (\<lambda>s. s\<lparr>hInFlight := odel (requestKey q) (hInFlight s),
             hControllers := (if b then odel (requestKey q) (hControllers s) else hControllers s),
             hPromises := oset m (q, Some x) (hPromises s)\<rparr>)) (\<lambda>_ s. True)" for x
  proof (rule tight_change)
    fix s h assume P: "replies q x \<and> promised s m q" and s: "host_keeps cfg s h"
    have "answers q x" using P promise_facts [OF s, of m q] by (auto simp: replies_def)
    then have y: "\<And>x'. Some x = Some x' \<Longrightarrow> answers q x'" by simp
    have fl: "oget (odel (requestKey q) (hInFlight s)) k = Some m' \<Longrightarrow> oget (hInFlight s) k = Some m' \<or> k = requestKey q \<and> m' = m" for k m'
      by (simp split: if_splits)
    show "host_keeps cfg (s\<lparr>hInFlight := odel (requestKey q) (hInFlight s),
             hControllers := (if b then odel (requestKey q) (hControllers s) else hControllers s), hPromises := oset m (q, Some x) (hPromises s)\<rparr>) h
        \<and> host_guarantees i s (s\<lparr>hInFlight := odel (requestKey q) (hInFlight s),
             hControllers := (if b then odel (requestKey q) (hControllers s) else hControllers s), hPromises := oset m (q, Some x) (hPromises s)\<rparr>)
        \<and> host_relies i s (s\<lparr>hInFlight := odel (requestKey q) (hInFlight s),
             hControllers := (if b then odel (requestKey q) (hControllers s) else hControllers s), hPromises := oset m (q, Some x) (hPromises s)\<rparr>)"
      using promise_step [OF s refl disjI1 [OF conjunct2 [OF P]] y fl] by blast
  qed simp
  show ?thesis
    unfolding settle_request_def
    by (rule loose_after [OF body], rule loosen, rule tight_andThen [OF cache], rule tight_andThen [OF wait], rule tight_andThen [OF settle],
        rule triple_weak [OF remember_request_ok]) simp
qed

subsection \<open>Accepting requests and aborts\<close>

lemma launched_ok: "isRuntimeRequestEnvelope (request_json q) \<Longrightarrow> (\<And>p s. promised s p q \<Longrightarrow> host_enters s (j p))
    \<Longrightarrow> tight cfg i P (launch me q j) (\<lambda>_ _. True)"
  by (rule triple_true, rule launch_ok) (simp_all add: join_processed_ok)

text \<open>A request enters the history while no restoration runs.\<close>

lemma enter_history_ok:
  "tight cfg i (\<lambda>s. hRestoring s = None) (change (\<lambda>s. s\<lparr>hHistory := oset (requestKey q) q (hHistory s), hControllers := oset k ctl (hControllers s)\<rparr>))
     (\<lambda>_ _. True)"
  "tight cfg i (\<lambda>s. hRestoring s = None) (change (\<lambda>s. if b then s else s\<lparr>hHistory := oset (requestKey q) q (hHistory s)\<rparr>)) (\<lambda>_ _. True)"
proof -
  have a: "host_keeps cfg t h \<and> host_guarantees i s t \<and> host_relies i s t"
    if "hRestoring s = None" "host_keeps cfg s h" "t = s\<lparr>hHistory := oset (requestKey q) q (hHistory s), hControllers := c\<rparr>" for s h t c
    by (rule recording_step [OF _ that(2)]) (use that history_ok_request(1) in \<open>simp_all add: host_keeps_def bounded_def\<close>)
  show "tight cfg i (\<lambda>s. hRestoring s = None) (change (\<lambda>s. s\<lparr>hHistory := oset (requestKey q) q (hHistory s), hControllers := oset k ctl (hControllers s)\<rparr>)) (\<lambda>_ _. True)"
    by (rule tight_change) (use a in simp_all)
  have n: "s\<lparr>hHistory := m\<rparr> = s\<lparr>hHistory := m, hControllers := hControllers s\<rparr>" for s :: host and m by simp
  show "tight cfg i (\<lambda>s. hRestoring s = None) (change (\<lambda>s. if b then s else s\<lparr>hHistory := oset (requestKey q) q (hHistory s)\<rparr>)) (\<lambda>_ _. True)"
    by (rule tight_change) (use a [OF _ _ n] tame_step [OF tame_refl] in auto)
qed

lemma handle_request_ok:
  assumes v: "isRuntimeRequestEnvelope (request_json q)"
  shows "tight cfg i (\<lambda>s. hRestoring s = None) (handle_request cfg me q) (\<lambda>_ _. True)"
proof -
  let ?N = "\<lambda>s. hRestoring s = None"
  have acc: "tight cfg i ?N (fresh_number (\<lambda>ctl. andThen
         (change (\<lambda>s. s\<lparr>hHistory := oset (requestKey q) q (hHistory s), hControllers := oset (requestKey q) ctl (hControllers s)\<rparr>))
         (launch me q (\<lambda>p. ProcessRequest q p n a ctl)))) (\<lambda>_ _. True)" for n a
    by (rule tame_fresh [OF not_restoring_tame], rule tight_andThen [OF enter_history_ok(1) launched_ok [OF v]]) simp
  have dup: "tight cfg i ?N (repeat_answer me q (respond me q Refused (refusal q ''DUPLICATE_INCOMPLETE'' ''Duplicate request has no result''))) (\<lambda>_ _. True)"
    by (rule repeat_answer_ok, rule refusal_ok) simp
  have ref: "tight cfg i ?N (respond me q Refused (begin_failure q b)) (\<lambda>_ _. True)" for b
    by (rule refusal_ok) simp
  show ?thesis
    unfolding handle_request_def
  proof (rule ledgerFor_ok [OF not_restoring_tame], rule tight_get)
    fix n s
    show "tight cfg i (\<lambda>u. u = s \<and> ?N u) (let (l, b) = begin_request q (ledger_at s n) in
     Put (set_ledger n l s) (case b of
       Duplicate a \<Rightarrow> repeat_answer me q (respond me q Refused (refusal q ''DUPLICATE_INCOMPLETE'' ''Duplicate request has no result''))
     | Accepted a \<Rightarrow> fresh_number (\<lambda>ctl. andThen
         (change (\<lambda>s. s\<lparr>hHistory := oset (requestKey q) q (hHistory s), hControllers := oset (requestKey q) ctl (hControllers s)\<rparr>))
         (launch me q (\<lambda>p. ProcessRequest q p n a ctl)))
     | _ \<Rightarrow> respond me q Refused (begin_failure q b))) (\<lambda>_ _. True)"
      unfolding Let_def case_prod_beta
      by (rule tame_put [OF tame_fields(20) not_restoring_tame], split begin_result.split) (intro conjI allI impI acc dup ref)
  qed
qed

lemma signal_execution_ok: "lasting tame P \<Longrightarrow> tight cfg i P (signal_execution q e n m) (\<lambda>_. P)"
  unfolding signal_execution_def
  by (rule triple_get_any) (auto split: option.split intro: proceed_ok abort_signal_tame)

lemma handleAbort_ok:
  assumes v: "isRuntimeRequestEnvelope (request_json q)" and o: "operation q = Abort e n m"
  shows "tight cfg i (\<lambda>s. hRestoring s = None) (handleAbort cfg me q e n m) (\<lambda>_ _. True)"
proof -
  let ?N = "\<lambda>s. hRestoring s = None"
  have start: "tight cfg i ?N (andThen (change (\<lambda>s. if b then s else s\<lparr>hHistory := oset (requestKey q) q (hHistory s)\<rparr>))
      (launch me q (\<lambda>p. ProcessAbort q p l c))) (\<lambda>_ _. True)" for b l c
    by (rule tight_andThen [OF enter_history_ok(2) launched_ok [OF v]]) simp
  have go: "tight cfg i ?N (andThen (if is_cancel_request c then signal_execution q e n m else proceed) (if is_duplicate c then repeat_answer me q st else st)) (\<lambda>_ _. True)"
    if st: "tight cfg i ?N st (\<lambda>_ _. True)" for c st
  proof (rule tight_andThen)
    show "tight cfg i ?N (if is_cancel_request c then signal_execution q e n m else proceed) (\<lambda>_. ?N)"
      by (simp add: signal_execution_ok proceed_ok)
    show "tight cfg i ?N (if is_duplicate c then repeat_answer me q st else st) (\<lambda>_ _. True)"
      by (rule triple_if [OF repeat_answer_ok st]) (rule triple_pre [OF st], simp)
  qed
  show ?thesis
    unfolding handleAbort_def
  proof (rule ledgerFor_ok [OF not_restoring_tame], rule tight_get)
    fix l s
    show "tight cfg i (\<lambda>u. u = s \<and> ?N u) (let (l', c) = cancel_with q e n (ledger_at s l);
         start = andThen (change (\<lambda>s. if unrecorded c then s else s\<lparr>hHistory := oset (requestKey q) q (hHistory s)\<rparr>))
           (launch me q (\<lambda>p. ProcessAbort q p l c)) in
     Put (set_ledger l l' s) (andThen (if is_cancel_request c then signal_execution q e n m else proceed)
       (if is_duplicate c then repeat_answer me q start else start))) (\<lambda>_ _. True)"
      unfolding Let_def case_prod_beta by (rule tame_put [OF tame_fields(20) not_restoring_tame], rule go, rule start)
  qed
qed

lemma abort_before_ok: "lasting tame P \<Longrightarrow> tight cfg i P (abort_before_start n t m) (\<lambda>_. P)"
  unfolding abort_before_start_def
  by (rule triple_get_any) (auto split: option.split intro: proceed_ok abort_signal_tame)

lemma cancel_running_ok: "tight cfg i (\<lambda>_. True) (cancel_running cfg q e n m l t first) (\<lambda>x _. replies q x)"
proof -
  have go: "tight cfg i (\<lambda>s. known s r) (andThen (change (update_record r (\<lambda>y. y\<lparr>hsActive := oset e (x\<lparr>axDescriptor := d\<rparr>) (hsActive y)\<rparr>)))
             (andThen (emitExecution cfg r d (trace q)) (Get (\<lambda>s.
               if hDisposed s then Ret (refusal q ''HOST_DISPOSED'' ''Runtime host is disposed'')
               else andThen (abort_signal (reason_or ''runtime-abort'' m) (axController x))
                 (andThen (if execKind d = KPrompt then andThen (emit (AdapterAbort (hsAdapter (hrec s r)) (executionId d))) adapter_done else proceed)
                   (Get (\<lambda>s. Ret (if hDisposed s then refusal q ''HOST_DISPOSED'' ''Runtime host is disposed''
                      else status_success q ''cancel-requested'')))))))) (\<lambda>x _. replies q x)" for r x d
  proof (rule tight_andThen [OF tight_update tight_andThen [OF stream_ok(2)]])
    have abort: "tight cfg i (\<lambda>s. known s r) (if b then andThen (emit (AdapterAbort a k)) adapter_done else proceed) (\<lambda>_ s. known s r)" for b a k
      by (rule triple_if [OF tight_andThen [OF emit_harmless [OF frames_host] adapter_done_ok [OF frames_host]]]) (simp_all add: proceed_ok)
    show "tight cfg i (\<lambda>s. known s r) (Get (\<lambda>s.
               if hDisposed s then Ret (refusal q ''HOST_DISPOSED'' ''Runtime host is disposed'')
               else andThen (abort_signal (reason_or ''runtime-abort'' m) (axController x))
                 (andThen (if execKind d = KPrompt then andThen (emit (AdapterAbort (hsAdapter (hrec s r)) (executionId d))) adapter_done else proceed)
                   (Get (\<lambda>s. Ret (if hDisposed s then refusal q ''HOST_DISPOSED'' ''Runtime host is disposed''
                      else status_success q ''cancel-requested'')))))) (\<lambda>x _. replies q x)"
      by (rule triple_get_any, rule triple_if [OF replies_ok [OF frames_host]], simp,
          rule tight_andThen [OF abort_signal_tame [OF known_tame_lasting]], rule tight_andThen [OF abort],
          rule triple_get_any, rule replies_ok [OF frames_host]) simp
  qed simp_all
  show ?thesis
    unfolding cancel_running_def Let_def
  proof (rule triple_get_any, rule triple_if [OF replies_ok [OF frames_host]], simp, rule triple_if [OF replies_ok [OF frames_host]], simp,
      rule tight_after [OF requireSession_ok [OF frames_host]], rule triple_get_any)
    fix s r
    have "tight cfg i (\<lambda>s. known s r) (if \<not> first then Ret (status_success q ''already-cancel-requested'') else
       andThen (change (update_record r (\<lambda>y. y\<lparr>hsActive := oset e (x\<lparr>axDescriptor := (axDescriptor x)\<lparr>execStatus := CancelRequested\<rparr>\<rparr>) (hsActive y)\<rparr>)))
             (andThen (emitExecution cfg r ((axDescriptor x)\<lparr>execStatus := CancelRequested\<rparr>) (trace q)) (Get (\<lambda>s.
               if hDisposed s then Ret (refusal q ''HOST_DISPOSED'' ''Runtime host is disposed'')
               else andThen (abort_signal (reason_or ''runtime-abort'' m) (axController x))
                 (andThen (if execKind ((axDescriptor x)\<lparr>execStatus := CancelRequested\<rparr>) = KPrompt
                     then andThen (emit (AdapterAbort (hsAdapter (hrec s r)) (executionId ((axDescriptor x)\<lparr>execStatus := CancelRequested\<rparr>)))) adapter_done else proceed)
                   (Get (\<lambda>s. Ret (if hDisposed s then refusal q ''HOST_DISPOSED'' ''Runtime host is disposed''
                      else status_success q ''cancel-requested'')))))))) (\<lambda>x _. replies q x)" for x
      by (rule triple_if [OF replies_ok [OF frames_host] go]) simp
    then show "tight cfg i (\<lambda>s. known s r) (case active_of s r e n of
       None \<Rightarrow> Ret (refusal q ''EXECUTION_NOT_FOUND'' ''Active execution was not found'')
     | Some x \<Rightarrow> if \<not> first then Ret (status_success q ''already-cancel-requested'') else
       andThen (change (update_record r (\<lambda>y. y\<lparr>hsActive := oset e (x\<lparr>axDescriptor := (axDescriptor x)\<lparr>execStatus := CancelRequested\<rparr>\<rparr>) (hsActive y)\<rparr>)))
             (andThen (emitExecution cfg r ((axDescriptor x)\<lparr>execStatus := CancelRequested\<rparr>) (trace q)) (Get (\<lambda>s.
               if hDisposed s then Ret (refusal q ''HOST_DISPOSED'' ''Runtime host is disposed'')
               else andThen (abort_signal (reason_or ''runtime-abort'' m) (axController x))
                 (andThen (if execKind ((axDescriptor x)\<lparr>execStatus := CancelRequested\<rparr>) = KPrompt
                     then andThen (emit (AdapterAbort (hsAdapter (hrec s r)) (executionId ((axDescriptor x)\<lparr>execStatus := CancelRequested\<rparr>)))) adapter_done else proceed)
                   (Get (\<lambda>s. Ret (if hDisposed s then refusal q ''HOST_DISPOSED'' ''Runtime host is disposed''
                      else status_success q ''cancel-requested'')))))))) (\<lambda>x _. replies q x)"
      by (split option.split, intro conjI impI allI) (rule replies_ok, simp_all)
  qed
qed

lemma processCancellation_ok: "tight cfg i (\<lambda>_. True) (processCancellation cfg q e n m l c) (\<lambda>x _. replies q x)"
  by (cases c) (auto intro!: replies_ok cancel_running_ok tight_andThen [OF abort_before_ok])

lemma process_abort_ok: "loose cfg i (\<lambda>s. promised s p q) (process_abort cfg q p n c) (\<lambda>_ _. True)"
  unfolding process_abort_def
  by (cases "operation q") (auto intro: settle_request_ok loosen [OF processCancellation_ok] triple_weak [OF proceed_ok])

lemma handle_ok: "tight cfg i (\<lambda>_. True) (handle cfg me q) (\<lambda>_ _. True)"
  unfolding handle_def
proof (rule get_keeps)
  fix s h assume s: "host_keeps cfg s h"
  let ?P = "\<lambda>t. t = s \<and> True" and ?R = "errorResponse q (described ''HOST_RESTORING'' ''Runtime host is restoring persisted state'' True)"
  have refuse: "tight cfg i ?P (respond me q Refused x) (\<lambda>_ _. True)" if "replies q x" for x by (rule refusal_ok [OF that])
  have reject: "tight cfg i ?P (emit (CallRejected me q) :: unit step) (\<lambda>_ _. True)" by (rule triple_weak [OF emit_harmless]) simp_all
  have cached: "tight cfg i ?P (respond me q Cached x) (\<lambda>_ _. True)" if "oget (hCache s) (requestKey q) = Some x" for x
  proof -
    have "response_key x = requestKey q" using s that unfolding host_keeps_def history_ok_def by (blast dest: okeep_get)
    then show ?thesis by (simp add: respond_ok)
  qed
  have rest: "tight cfg i ?P (case (oget (hHistory s) (requestKey q), oget (hCache s) (requestKey q)) of
          (Some q', Some x) \<Rightarrow> if canonicalEnvelope q' = canonicalEnvelope q then respond me q Cached x else respond me q Refused ?R
        | _ \<Rightarrow> respond me q Refused ?R) (\<lambda>_ _. True)"
    using refuse [of ?R] cached by (auto split: option.split)
  have accept: "tight cfg i ?P (case operation q of Abort e n m \<Rightarrow> handleAbort cfg me q e n m | _ \<Rightarrow> handle_request cfg me q) (\<lambda>_ _. True)"
    if "isRuntimeRequestEnvelope (request_json q)" "hRestoring s = None"
    using triple_pre [OF handle_request_ok [OF that(1)], of ?P] triple_pre [OF handleAbort_ok [OF that(1)], of _ _ _ ?P] that(2)
    by (cases "operation q") simp_all
  show "tight cfg i ?P (if \<not> isRuntimeRequestEnvelope (request_json q) then
       (let x = refusal q ''MALFORMED_REQUEST'' ''Runtime request is not valid plain wire data'' in
        if isRuntimeResponseEnvelope (response_json x) then respond me q Refused x else emit (CallRejected me q))
     else if hDisposed s then respond me q Refused (refusal q ''HOST_DISPOSED'' ''Runtime host is disposed'')
     else if hRestoring s \<noteq> None then
       (case (oget (hHistory s) (requestKey q), oget (hCache s) (requestKey q)) of
          (Some q', Some x) \<Rightarrow>
            if canonicalEnvelope q' = canonicalEnvelope q then respond me q Cached x else respond me q Refused ?R
        | _ \<Rightarrow> respond me q Refused ?R)
     else (case operation q of Abort e i m \<Rightarrow> handleAbort cfg me q e i m | _ \<Rightarrow> handle_request cfg me q)) (\<lambda>_ _. True)"
    unfolding Let_def using refuse reject rest accept by simp
qed

subsection \<open>Hello, export, agent events\<close>

lemma emitHello_ok: "tight cfg i (\<lambda>_. True) (emitHello cfg c w mode prev tr) (\<lambda>_ _. True)"
proof -
  let ?hello = "\<lambda>s p. \<lparr>protocolVersion = RUNTIME_PROTOCOL_VERSION, runtimeEpoch = cfgEpoch cfg, clientId = c, windowId = w, trace = tr,
              recoveryMode = mode, previousRuntimeEpoch = p, recoverySessions = scope_cursors s c w\<rparr>"
  have e: "tight cfg i (\<lambda>s. hRestoring s = None) (emit_stream None (Hello v)) (\<lambda>_ _. True)" if v: "runtimeEpoch v = cfgEpoch cfg" for v
  proof -
    have out: "tight cfg i (\<lambda>s. hRestoring s = None \<and> \<not> hDisposed s) (emit (Streamed None (Hello v))) (\<lambda>_ _. True)" if "checked_stream (Hello v)"
    proof (rule triple_weak [OF triple_emit [OF frames_host]])
      fix s h assume k: "keeps (host_contract cfg) s h" and P: "hRestoring s = None \<and> \<not> hDisposed s"
      have "session_trace s (h @ [(s, Streamed None (Hello v))]) = session_items (streamed h @ (None, Hello v) # buffered s)"
        by (simp add: session_trace_def)
      then have "session_trace s (h @ [(s, Streamed None (Hello v))]) = session_trace s h" by (simp add: session_trace_def)
      then have "host_keeps cfg s (h @ [(s, Streamed None (Hello v))])" using k by (auto simp: host_keeps_def trace_ok_def mutated_ok_def)
      then show "permits (host_contract cfg) s h (Streamed None (Hello v)) \<and> keeps (host_contract cfg) s (h @ [(s, Streamed None (Hello v))])"
        using P that v by (simp add: stream_permitted_def)
    qed
    show ?thesis
      unfolding emit_stream_def
    proof (rule tight_get)
      fix s :: host assume n: "hRestoring s = None"
      show "tight cfg i (\<lambda>u. u = s \<and> hRestoring u = None) (if hDisposed s then proceed
         else if \<not> checked_stream (Hello v) then Throw (plain_error ''Runtime host attempted to emit a malformed envelope'')
         else if hRestoring s \<noteq> None then Put (s\<lparr>hBuffer := map_option (\<lambda>b. b @ [(None, Hello v)]) (hBuffer s)\<rparr>) proceed
         else emit (Streamed None (Hello v))) (\<lambda>_ _. True)"
        by (rule triple_if [OF triple_weak [OF proceed_ok [OF frames_host]]], rule triple_if [OF tight_throw], rule triple_if)
          (use n in \<open>auto intro: triple_pre [OF out] simp del: checked_stream.simps\<close>)
    qed
  qed
  show ?thesis
    unfolding emitHello_def Let_def
    by (rule tight_get, rule triple_if [OF tight_throw], rule triple_if [OF tight_throw], rule tight_andThen [OF triple_pre [OF e] tight_ret])
      auto
qed

lemma exportState_ok: "tight cfg i (\<lambda>_. True) (exportState cfg) (\<lambda>_ _. True)"
  unfolding exportState_def
  by (rule triple_get_any) (auto split: sum.split intro: tight_throw triple_ret_true)

lemma onAgentEvent_ok: "tight cfg i (\<lambda>_. True) (onAgentEvent cfg r v) (\<lambda>_ _. True)"
  unfolding onAgentEvent_def
proof (rule get_keeps)
  fix s h assume s: "host_keeps cfg s h"
  have queue: "tight cfg i (\<lambda>t. t = s \<and> True) (fresh_number (\<lambda>t. Spawn (EventMutation r t v) (\<lambda>p. change (join_queue r t p)))) (\<lambda>_ _. True)"
    if "\<not> (hDisposed s \<or> \<not> published s r \<and> \<not> (hRestoring s \<noteq> None \<and> hsInitializing (hrec s r)) \<or> \<not> agent_event_valid cfg (hrec s r) v)"
      "hRestoring s = None"
  proof (rule tripleI)
    fix u h' assume a: "keeps (host_contract cfg) u h'" "u = s \<and> True"
    from that have "published s r" by blast
    then have k: "known s r" using published_known [OF s] unfolding published_def by blast
    define w where "w = s\<lparr>hNext := Suc (hNext s)\<rparr>"
    have sw: "host_keeps cfg w h' \<and> host_guarantees i s w \<and> host_relies i s w" by (rule tame_step) (use a in \<open>simp_all add: w_def\<close>)
    have j: "host_keeps cfg (join_queue r (hNext s) p w) h' \<and> host_guarantees i w (join_queue r (hNext s) p w)
        \<and> host_relies i s (join_queue r (hNext s) p w)" for p
      using join_step [OF _ k w_def refl, of cfg h' p i] a sw host_relies_trans by auto
    show "sat (host_contract cfg) i (fresh_number (\<lambda>t. Spawn (EventMutation r t v) (\<lambda>p. change (join_queue r t p))))
        (\<lambda>a s' h'. keeps (host_contract cfg) s' h' \<and> host_relies i u s' \<and> True) (\<lambda>_ s' h'. keeps (host_contract cfg) s' h' \<and> host_relies i u s') u h'"
      using a(2) sw j k by (simp add: fresh_number_def sat_change w_def)
  qed
  have dirty: "tight cfg i (\<lambda>t. t = s \<and> True) (change (\<lambda>s. if r \<in> set (hDirty s) then s else s\<lparr>hDirty := hDirty s @ [r]\<rparr>)) (\<lambda>_ _. True)"
    by (rule tight_tame) simp_all
  show "tight cfg i (\<lambda>t. t = s \<and> True) (if hDisposed s \<or> \<not> published s r \<and> \<not> (hRestoring s \<noteq> None \<and> hsInitializing (hrec s r)) \<or> \<not> agent_event_valid cfg (hrec s r) v then proceed
     else if hRestoring s \<noteq> None then change (\<lambda>s. if r \<in> set (hDirty s) then s else s\<lparr>hDirty := hDirty s @ [r]\<rparr>)
     else fresh_number (\<lambda>t. Spawn (EventMutation r t v) (\<lambda>p. change (join_queue r t p)))) (\<lambda>_ _. True)"
    by (rule triple_if [OF triple_weak [OF proceed_ok [OF frames_host]]], rule triple_if [OF dirty]) (use queue in blast)
qed

lemma event_mutation_ok: "loose cfg i (\<lambda>s. known s r) (event_mutation cfg r t v) (\<lambda>_ _. True)"
  unfolding event_mutation_def
proof (rule run_mutation_ok [OF known_stays(2)])
  have e: "tight cfg i (\<lambda>s. known s r) (andThen (bump_revision r) (Get (\<lambda>s. emitSession cfg r (AgentEventPayload v) (active_prompt_trace (hrec s r))))) (\<lambda>_ _. True)"
    by (rule tight_andThen [OF bump_ok], rule triple_get_any, rule triple_weak [OF stream_ok(3)])
  show "tight cfg i (\<lambda>s. known s r \<and> holds s r t i) (Get (\<lambda>s. if hDisposed s \<or> \<not> published s r then proceed
     else andThen (bump_revision r) (Get (\<lambda>s. emitSession cfg r (AgentEventPayload v) (active_prompt_trace (hrec s r)))))) (\<lambda>_ _. True)"
    by (rule triple_get_any, rule triple_if [OF triple_weak [OF proceed_ok]]) (auto intro: triple_pre [OF e])
qed simp_all

subsection \<open>Disposal\<close>

lemma close_session_ok: "tight cfg i (\<lambda>_. True) (close_session r) (\<lambda>_ _. True)"
proof -
  have u: "tight cfg i (\<lambda>_. True) (if b then emit (AdapterUnsubscribe a r) else proceed) (\<lambda>_ _. True)" for b a
    by (rule triple_if) (simp_all add: emit_harmless proceed_ok)
  show ?thesis
    unfolding close_session_def
    by (rule triple_get_any, rule tight_andThen [OF u], rule tight_andThen [OF abort_signals_ok cleanup_ok(2)])
qed

lemma close_sessions_ok: "tight cfg i (\<lambda>_. True) close_sessions (\<lambda>_ _. True)"
  unfolding close_sessions_def
  by (rule triple_get_any, rule tight_andThen [OF tight_each [OF close_session_ok] tight_tame]) simp_all

lemma forget_requests_ok: "tight cfg i (\<lambda>_. True) (change (\<lambda>s. s\<lparr>hControllers := [], hInFlight := [], hCache := [], hHistory := [], hCompleted := []\<rparr>)) (\<lambda>_ _. True)"
proof (rule tight_change)
  fix s h assume s: "host_keeps cfg s h"
  define u where "u = s\<lparr>hControllers := [], hInFlight := []\<rparr>"
  have su: "host_keeps cfg u h \<and> host_guarantees i s u \<and> host_relies i s u"
    by (rule tame_step [OF _ s]) (simp add: tame_def u_def)
  define t where "t = u\<lparr>hCache := [], hHistory := [], hCompleted := []\<rparr>"
  have ut: "host_keeps cfg t h \<and> host_guarantees i u t \<and> host_relies i u t"
    by (rule recording_step) (use su in \<open>simp_all add: t_def recording_def history_ok_def bounded_def\<close>)
  have "host_guarantees i s t" using su ut unfolding host_guarantees_def by (blast intro: grows_trans restores_trans)
  with su ut have "host_keeps cfg t h \<and> host_guarantees i s t \<and> host_relies i s t" using host_relies_trans by blast
  then show "host_keeps cfg (s\<lparr>hControllers := [], hInFlight := [], hCache := [], hHistory := [], hCompleted := []\<rparr>) h
      \<and> host_guarantees i s (s\<lparr>hControllers := [], hInFlight := [], hCache := [], hHistory := [], hCompleted := []\<rparr>)
      \<and> host_relies i s (s\<lparr>hControllers := [], hInFlight := [], hCache := [], hHistory := [], hCompleted := []\<rparr>)"
    by (simp add: t_def u_def)
qed simp

lemma dispose_host_ok: "tight cfg i (\<lambda>_. True) dispose_host (\<lambda>_ _. True)"
proof -
  have wait: "tight cfg i (\<lambda>_. True) (after (await x) (\<lambda>_. Ret ())) (\<lambda>_ _. True)" for x
    by (rule await_any) (simp_all add: triple_ret_true)
  have p: "tight cfg i (\<lambda>_. True) performDispose (\<lambda>_ _. True)"
    unfolding performDispose_def
    by (rule tight_andThen [OF tight_tame], simp_all, rule tight_andThen, rule triple_get_any, rule abort_signals_ok,
        rule tight_andThen [OF close_sessions_ok], rule tight_andThen [OF forget_requests_ok], rule triple_get_any,
        rule tight_andThen [OF wait], rule tight_andThen [OF close_sessions_ok], rule tight_andThen [OF tight_tame])
      (auto simp: tame_def intro!: tight_andThen [OF all_cleaned_ok] tight_tame)
  show ?thesis unfolding dispose_host_def by (rule triple_get_any, rule triple_if [OF wait p])
qed

end
