(* ===== verification/HostRestore.thy ===== *)
theory HostRestore
  imports HostOperations
begin

section \<open>Restoring keeps the contract\<close>

text \<open>
  \<open>restoreState\<close> of \<open>RuntimeHost\<close>: while a process restores nobody else changes the recorded requests, the
  streams it causes are held back, a failed restoration puts the recorded requests back, and a completed one
  emits the streams in their order.
\<close>

subsection \<open>While a process restores\<close>

definition mine :: "nat \<Rightarrow> host \<Rightarrow> bool" where
  "mine i s \<longleftrightarrow> hRestoring s = Some i"

definition blank :: "nat \<Rightarrow> host \<Rightarrow> bool" where
  "blank i s \<longleftrightarrow> mine i s \<and> hHistory s = []"

definition holding :: "nat \<Rightarrow> host \<Rightarrow> host \<Rightarrow> bool" where
  "holding i s t \<longleftrightarrow> grows s t \<and> (mine i s \<longrightarrow> mine i t)"

abbreviation held where
  "held cfg i \<equiv> triple (host_contract cfg) i (holding i)"

lemma relies_holding: "host_relies i s t \<Longrightarrow> holding i s t"
  by (simp add: host_relies_def holding_def restores_def mine_def)

lemma frames_holding [simp]: "frames (host_contract cfg) i (holding i)"
  using relies_holding by (auto simp: frames_def holding_def intro!: reflpI transpI intro: grows_trans)

lemma mine_lasting [simp]: "lasting (host_relies i) (mine i)" "lasting (holding i) (mine i)" "lasting (host_relies i) (blank i)"
  by (auto simp: lasting_def mine_def blank_def holding_def host_relies_def restores_def)

lemma known_holding [simp]: "lasting (holding i) (\<lambda>s. known s r)"
  by (auto simp: lasting_def holding_def intro: known_grows)

lemma hold: "tight cfg i P p Q \<Longrightarrow> held cfg i P p Q"
  by (erule triple_conseq) (auto intro: relies_holding)

lemmas held_andThen = triple_andThen [OF frames_holding] and held_after = triple_after [OF frames_holding]
  and held_ret = triple_ret [OF frames_holding] and held_throw = triple_throw [OF frames_holding] and held_each = triple_each [OF frames_holding]

text \<open>A step of the restoring process that changes only what is recorded of requests.\<close>

lemma mine_step:
  assumes r: "recording s t" and s: "host_keeps cfg s h" and m: "mine i s" and t: "history_ok t" "bounded cfg t"
  shows "host_keeps cfg t h \<and> host_guarantees i s t \<and> holding i s t \<and> mine i t"
proof -
  have k: "roughly cfg t h \<and> grows s t \<and> holds t = holds s" by (rule recording_keeps [OF r _ t(1)]) (use s in \<open>simp add: host_keeps_roughly\<close>)
  moreover have "mine i t" using r m by (simp add: recording_def mine_def)
  moreover have "host_guarantees i s t" using k m by (simp add: host_guarantees_def restores_def mine_def)
  ultimately show ?thesis using t by (simp add: host_keeps_roughly holding_def)
qed

lemma clear_history_facts: "recording s (clear_history s)" "history_ok (clear_history s)" "bounded cfg (clear_history s)" "hHistory (clear_history s) = []"
  by (simp_all add: clear_history_def recording_def history_ok_def bounded_def)

lemma clear_history_ok: "held cfg i (mine i) (change clear_history) (\<lambda>_. blank i)"
proof (rule triple_change)
  fix s h assume "keeps (host_contract cfg) s h" "mine i s"
  then show "keeps (host_contract cfg) (clear_history s) h \<and> guarantees (host_contract cfg) i s (clear_history s)
      \<and> holding i s (clear_history s) \<and> blank i (clear_history s)"
    using mine_step [OF clear_history_facts(1) _ _ clear_history_facts(2,3), of cfg s h i] by (simp add: blank_def clear_history_facts(4))
qed

subsection \<open>Sessions\<close>

lemma restoreSession_ok: "tight cfg i (\<lambda>_. True) (restoreSession cfg b p ctl) (\<lambda>r s. known s r)"
proof -
  have add: "tight cfg i (\<lambda>_. True) (andThen (awaited (assertAdapterAcquisitionActive a ctl)) (awaited (addSession cfg (restored_record b p a) ctl)))
      (\<lambda>r s. known s r)" for a
    by (rule tight_andThen [OF awaited_ok [OF frames_host adapter_active_ok] awaited_ok [OF frames_host addSession_ok]])
      (simp_all add: restored_record_def new_record_def)
  have make: "tight cfg i (\<lambda>_. True) (andThen (emit (FactoryRestore p (restored_snapshot (perSnapshot p)) ctl)) (after factory_adapter (\<lambda>a.
      andThen (awaited (assertAdapterAcquisitionActive a ctl)) (awaited (addSession cfg (restored_record b p a) ctl))))) (\<lambda>r s. known s r)"
    by (rule tight_andThen [OF emit_harmless [OF frames_host]], simp, rule tight_after [OF factory_ok [OF frames_host] add]) simp
  show ?thesis
    unfolding restoreSession_def
    by (rule triple_if [OF tight_throw], rule tight_andThen [OF acquisition_active_ok [OF frames_host]])
      (auto split: sum.split intro: tight_throw make)
qed

lemma restore_one_ok: "tight cfg i (\<lambda>_. True) (restore_one cfg b p) (\<lambda>r s. known s r)"
  unfolding restore_one_def
proof (rule tame_fresh, simp, rule tame_fresh, simp, rule tight_andThen)
  fix ctl task
  show "tight cfg i (\<lambda>_. True) (change (\<lambda>s. s\<lparr>hRestoreControllers := ctl # hRestoreControllers s, hRestoreTasks := task # hRestoreTasks s\<rparr>)) (\<lambda>_ _. True)"
    by (rule tight_tame) (simp_all add: tame_def)
  have fin: "tight cfg i P (change (\<lambda>s. s\<lparr>hRestoreControllers := removeAll ctl (hRestoreControllers s), hRestoreTasks := removeAll task (hRestoreTasks s)\<rparr>)) (\<lambda>_. P)"
    if "lasting tame P" for P by (rule tame_change [OF _ that]) (simp add: tame_def)
  show "tight cfg i (\<lambda>_. True) (ensuring (awaited (restoreSession cfg b p ctl))
     (change (\<lambda>s. s\<lparr>hRestoreControllers := removeAll ctl (hRestoreControllers s), hRestoreTasks := removeAll task (hRestoreTasks s)\<rparr>))) (\<lambda>r s. known s r)"
    by (rule triple_ensuring [OF frames_host awaited_ok [OF frames_host restoreSession_ok], where P' = "\<lambda>_. True"])
      (auto intro: triple_pre [OF fin] triple_post [OF fin])
qed

lemma restore_all_ok: "tight cfg i (\<lambda>_. True) (restore_all cfg b ps) (\<lambda>rs s. \<forall>p \<in> set rs. known s (fst p))"
proof (induction ps)
  case (Cons p ps)
  have "tight cfg i (\<lambda>s. known s r) (after (restore_all cfg b ps) (\<lambda>rs. Ret ((r, orphaned_executions (perSnapshot p)) # rs)))
      (\<lambda>rs s. \<forall>p \<in> set rs. known s (fst p))" for r
  proof (rule tight_after)
    show "tight cfg i (\<lambda>s. known s r) (restore_all cfg b ps) (\<lambda>rs s. (\<forall>p \<in> set rs. known s (fst p)) \<and> known s r)"
      using triple_frames [OF Cons.IH known_stays(2)] by (rule triple_pre) simp
  qed (rule tight_ret, auto)
  then show ?case by (simp add: tight_after [OF restore_one_ok])
qed (simp add: tight_ret)

lemma settle_orphan_ok: "tight cfg i (\<lambda>s. known s r) (settle_orphan cfg r d) (\<lambda>_ s. known s r)"
  unfolding settle_orphan_def by (rule triple_get_any) (rule stream_ok(2))

lemma settleRestoredExecutions_ok: "tight cfg i (\<lambda>s. known s (fst p)) (settleRestoredExecutions cfg p) (\<lambda>_ _. True)"
proof (cases p)
  case (Pair r ds)
  have "tight cfg i (\<lambda>s. known s r) (andThen (bump_revision r) (andThen (each (settle_orphan cfg r) ds) (emitSnapshot cfg r None))) (\<lambda>_ _. True)"
    by (rule tight_andThen [OF bump_ok tight_andThen [OF tight_each [OF settle_orphan_ok] triple_weak [OF stream_ok(1)]]])
  then show ?thesis
    unfolding settleRestoredExecutions_def Pair prod.case fst_conv by (intro triple_if [OF triple_weak [OF proceed_ok]]) simp_all
qed

lemma emit_dirty_ok: "tight cfg i (\<lambda>_. True) (emit_dirty cfg r) (\<lambda>_ _. True)"
  unfolding emit_dirty_def
proof (rule get_keeps)
  fix s h assume s: "host_keeps cfg s h"
  have "known s r" if "published s r" using that published_known [OF s] unfolding published_def by blast
  then show "tight cfg i (\<lambda>t. t = s \<and> True) (if published s r then andThen (bump_revision r) (emitSnapshot cfg r None) else proceed) (\<lambda>_ _. True)"
    by (intro triple_if triple_pre [OF triple_weak [OF bump_snapshot_ok]] triple_weak [OF proceed_ok]) auto
qed

subsection \<open>Recorded requests\<close>

lemma restored_key: "isRuntimeRequestEnvelope (request_json q) \<Longrightarrow> response_recorded q x = Inr () \<Longrightarrow> response_key (restored_response q x) = requestKey q"
proof (cases x)
  case None
  moreover assume "isRuntimeRequestEnvelope (request_json q)"
  then have "answers q (errorResponse q d)" for d using replies_simps(1) unfolding replies_def by blast
  ultimately show ?thesis by (simp add: restored_response_def answers_key)
next
  case (Some y)
  moreover assume "response_recorded q x = Inr ()"
  ultimately have "answers q y" by (auto simp: response_recorded_def answers_def fails_when_def split: if_splits)
  then show ?thesis by (simp add: Some restored_response_def answers_key)
qed

lemma record_request_step:
  assumes s: "host_keeps cfg s h" and m: "mine i s" and x: "response_key x = requestKey q"
    and t: "t = set_ledger n l (s\<lparr>hHistory := oset (requestKey q) q (hHistory s), hCache := oset (requestKey q) x (hCache s)\<rparr>)"
  shows "host_keeps cfg t h \<and> host_guarantees i s t \<and> holding i s t \<and> mine i t"
proof (rule mine_step [OF _ s m])
  have "history_ok s" using s by (simp add: host_keeps_def)
  then show "history_ok t" using x by (auto simp: t set_ledger_def history_ok_def is_completed_def intro: okeep_set)
qed (use s in \<open>simp_all add: t set_ledger_def recording_def host_keeps_def bounded_def\<close>)

lemma restore_request_ok: "held cfg i (mine i) (restore_request cfg p) (\<lambda>_. mine i)"
proof (cases p)
  case (Pair q x)
  have m: "lasting tame (mine i)" by (rule lasting_tame [OF mine_lasting(1)])
  have rec: "held cfg i (mine i) (change (\<lambda>s. set_ledger n (restore_ledger q x a (ledger_at s n))
               (s\<lparr>hHistory := oset (requestKey q) q (hHistory s), hCache := oset (requestKey q) (restored_response q x) (hCache s)\<rparr>))) (\<lambda>_. mine i)"
    if "isRuntimeRequestEnvelope (request_json q)" "response_recorded q x = Inr ()" for n a
    by (rule triple_change) (use record_request_step [OF _ _ restored_key [OF that] refl] in simp)
  have enter: "held cfg i (mine i) (Get (\<lambda>s.
           let (l, b) = begin_request q (ledger_at s n) in
           Put (set_ledger n l s) (case b of
             Accepted a \<Rightarrow> change (\<lambda>s. set_ledger n (restore_ledger q x a (ledger_at s n))
               (s\<lparr>hHistory := oset (requestKey q) q (hHistory s), hCache := oset (requestKey q) (restored_response q x) (hCache s)\<rparr>))
           | _ \<Rightarrow> Throw (plain_error (''Could not restore request ledger entry: '' @ begin_text b))))) (\<lambda>_. mine i)"
    if "isRuntimeRequestEnvelope (request_json q)" "response_recorded q x = Inr ()" for n
  proof (rule triple_get, unfold Let_def case_prod_beta, rule tame_put_in [OF frames_holding tame_fields(20) m])
    fix s
    show "held cfg i (mine i) (case snd (begin_request q (ledger_at s n)) of
             Accepted a \<Rightarrow> change (\<lambda>s. set_ledger n (restore_ledger q x a (ledger_at s n))
               (s\<lparr>hHistory := oset (requestKey q) q (hHistory s), hCache := oset (requestKey q) (restored_response q x) (hCache s)\<rparr>))
           | _ \<Rightarrow> Throw (plain_error (''Could not restore request ledger entry: '' @ begin_text (snd (begin_request q (ledger_at s n)))))) (\<lambda>_. mine i)"
      by (split begin_result.split) (intro conjI allI impI rec [OF that] held_throw)
  qed
  show ?thesis
    unfolding restore_request_def Pair prod.case
  proof (rule triple_if [OF held_throw])
    assume v: "\<not> \<not> isRuntimeRequestEnvelope (request_json q)"
    show "held cfg i (mine i) (case response_recorded q x of Inl e \<Rightarrow> Throw e | Inr _ \<Rightarrow>
         if runtimeEpoch q \<noteq> cfgEpoch cfg then Throw (plain_error ''Same-epoch runtime state contains a request for another epoch'')
         else ledgerFor cfg (request_scope_key q) (\<lambda>n. Get (\<lambda>s.
           let (l, b) = begin_request q (ledger_at s n) in
           Put (set_ledger n l s) (case b of
             Accepted a \<Rightarrow> change (\<lambda>s. set_ledger n (restore_ledger q x a (ledger_at s n))
               (s\<lparr>hHistory := oset (requestKey q) q (hHistory s), hCache := oset (requestKey q) (restored_response q x) (hCache s)\<rparr>))
           | _ \<Rightarrow> Throw (plain_error (''Could not restore request ledger entry: '' @ begin_text b)))))) (\<lambda>_. mine i)"
    proof (cases "response_recorded q x")
      case (Inr u)
      then have rr: "response_recorded q x = Inr ()" by simp
      show ?thesis unfolding Inr sum.case
        by (rule triple_if [OF held_throw ledgerFor_in [OF frames_holding m enter]]) (use v rr in simp_all)
    qed (simp add: held_throw)
  qed
qed

lemma roughly_snoc: "roughly cfg s h \<Longrightarrow> roughly cfg s (h @ [(t, StateChanged)])"
  by (auto simp: roughly_def trace_ok_def session_trace_def mutated_ok_def)

lemma remember_all_ok:
  assumes "roughly cfg s h" and "\<And>s' h'. roughly cfg s' h' \<Longrightarrow> recording s s' \<Longrightarrow> Q () s' h'" and "mine i s"
  shows "sat (host_contract cfg) i (each (\<lambda>p. rememberCompletedRequest cfg (requestKey (fst p)) False) rs) Q E s h"
  using assms
proof (induction rs arbitrary: s h)
  case (Cons p rs)
  let ?k = "requestKey (fst p)"
  have next_ok: "sat (host_contract cfg) i (each (\<lambda>p. rememberCompletedRequest cfg (requestKey (fst p)) False) rs) Q E s' h'"
    if "roughly cfg s' h'" "recording s s'" for s' h'
    by (rule Cons.IH [OF that(1)]) (use Cons.prems that(2) recording_trans in \<open>auto simp: mine_def recording_def\<close>)
  show ?case
  proof (cases "is_completed ?k s")
    case True
    have "roughly cfg (remember_key ?k s) h \<and> grows s (remember_key ?k s) \<and> holds (remember_key ?k s) = holds s"
      by (rule recording_keeps [OF recording_fields(6) Cons.prems(1)]) (use remember_ok [OF _ True] Cons.prems(1) in \<open>simp add: roughly_def\<close>)
    moreover from this Cons.prems(3) have "host_guarantees i s (remember_key ?k s)"
      by (simp add: host_guarantees_def restores_def mine_def)
    ultimately show ?thesis
      using True next_ok [OF roughly_snoc recording_fields(6)]
      by (simp add: rememberCompletedRequest_def notifyStateChanged_def sat_andThen sat_change sat_emit)
  next
    case False
    with next_ok [OF Cons.prems(1) recording_refl] show ?thesis by (simp add: rememberCompletedRequest_def proceed_def sat_andThen)
  qed
qed simp

lemma restoreRequestHistory_ok: "held cfg i (mine i) (restoreRequestHistory cfg rs) (\<lambda>_. mine i)"
  unfolding restoreRequestHistory_def
proof (rule held_andThen [OF held_each [OF restore_request_ok]], rule tripleI)
  fix s h assume s: "keeps (host_contract cfg) s h" "mine i s"
  let ?E = "\<lambda>_ s' h'. keeps (host_contract cfg) s' h' \<and> holding i s s'"
  show "sat (host_contract cfg) i (andThen (each (\<lambda>p. rememberCompletedRequest cfg (requestKey (fst p)) False) rs) (change (pruneCompletedRequests cfg)))
      (\<lambda>a s' h'. keeps (host_contract cfg) s' h' \<and> holding i s s' \<and> mine i s') ?E s h"
    unfolding sat_andThen
  proof (rule remember_all_ok [OF _ _ s(2)])
    fix s' h' assume r: "roughly cfg s' h'" and rc: "recording s s'"
    let ?t = "pruneCompletedRequests cfg s'"
    have "history_ok s'" using r by (simp add: roughly_def)
    note p = prune_ok [OF this, of cfg]
    have k: "roughly cfg ?t h' \<and> grows s' ?t \<and> holds ?t = holds s'" by (rule recording_keeps [OF _ r]) (use p in simp_all)
    have m: "mine i s'" "mine i ?t" using s(2) rc p by (simp_all add: mine_def recording_def)
    have "grows s s'" using rc same_records [of s' s] by (simp add: grows_def recording_def)
    with k m have "holding i s ?t" by (simp add: holding_def) (blast intro: grows_trans)
    moreover have "host_guarantees i s' ?t" using k m by (simp add: host_guarantees_def restores_def mine_def)
    ultimately show "sat (host_contract cfg) i (change (pruneCompletedRequests cfg))
       (\<lambda>a s' h'. keeps (host_contract cfg) s' h' \<and> holding i s s' \<and> mine i s') ?E s' h'"
      using k p m by (simp add: sat_change host_keeps_roughly)
  qed (use s(1) in \<open>simp add: host_keeps_roughly\<close>)
qed

subsection \<open>The body of a restoration\<close>

lemma restore_body_ok: "held cfg i (mine i) (restore_body cfg st) (\<lambda>b s. mine i s \<and> hBuffer s = Some b)"
proof -
  let ?K = "\<lambda>rs s. mine i s \<and> (\<forall>p \<in> set rs. known s (fst p))"
  have lastK: "lasting (host_relies i) (?K rs)" for rs
    by (auto simp: lasting_def intro: lastingD [OF mine_lasting(1)] lastingD [OF known_stays(2)])
  have all: "held cfg i (blank i) (restore_all cfg b ps) (\<lambda>rs. ?K rs)" for b ps
    using triple_frames [OF restore_all_ok mine_lasting(1)] by (rule triple_conseq) (auto simp: blank_def intro: relies_holding)
  have recs: "held cfg i (?K rs) (if b then restoreRequestHistory cfg qs else proceed) (\<lambda>_. ?K rs)" for rs b qs
  proof (rule triple_if [OF _ proceed_ok [OF frames_holding]])
    have "lasting (holding i) (\<lambda>s. \<forall>p \<in> set rs. known s (fst p))" by (auto simp: lasting_def intro: lastingD [OF known_holding])
    from triple_frames [OF restoreRequestHistory_ok this] show "held cfg i (?K rs) (restoreRequestHistory cfg qs) (\<lambda>_. ?K rs)" .
  qed
  have settle: "held cfg i (?K rs) (each (settleRestoredExecutions cfg) rs) (\<lambda>_. mine i)" for rs
  proof (rule triple_post [OF held_each])
    fix p assume "p \<in> set rs"
    with triple_frames [OF settleRestoredExecutions_ok lastK, of cfg p rs] have "tight cfg i (?K rs) (settleRestoredExecutions cfg p) (\<lambda>_. ?K rs)"
      by (elim triple_conseq) auto
    then show "held cfg i (?K rs) (settleRestoredExecutions cfg p) (\<lambda>_. ?K rs)" by (rule hold)
  qed simp
  have dirty: "held cfg i (mine i) (Get (\<lambda>s. each (emit_dirty cfg) (hDirty s))) (\<lambda>_. mine i)"
    by (rule triple_get_any, rule held_each, rule hold, rule triple_keep [OF emit_dirty_ok mine_lasting(1)])
  have from_ok: "held cfg i (mine i) (change (\<lambda>s. s\<lparr>hRestoredFrom := v\<rparr>)) (\<lambda>_. mine i)" for v
    by (rule hold, rule tight_tame) (simp_all add: mine_def)
  have fin: "held cfg i (mine i) (Get (\<lambda>s. Ret (case hBuffer s of Some b \<Rightarrow> b | None \<Rightarrow> []))) (\<lambda>b s. mine i s \<and> hBuffer s = Some b)"
    by (rule get_keeps, rule held_ret) (auto simp: host_keeps_def host_well_def mine_def split: option.split)
  have body: "held cfg i (mine i) (andThen (change clear_history)
          (after (restore_all cfg (hostEpoch st = cfgEpoch cfg) (hostSessions st)) (\<lambda>restored.
            andThen (if hostEpoch st = cfgEpoch cfg then restoreRequestHistory cfg (hostRequests st) else proceed)
              (andThen (each (settleRestoredExecutions cfg) restored)
                (andThen (Get (\<lambda>s. each (emit_dirty cfg) (hDirty s)))
                  (andThen (change (\<lambda>s. s\<lparr>hRestoredFrom := Some (hostEpoch st)\<rparr>))
                    (Get (\<lambda>s. Ret (case hBuffer s of Some b \<Rightarrow> b | None \<Rightarrow> []))))))))) (\<lambda>b s. mine i s \<and> hBuffer s = Some b)"
    by (rule held_andThen [OF clear_history_ok], rule held_after [OF all], rule held_andThen [OF recs], rule held_andThen [OF settle],
        rule held_andThen [OF dirty], rule held_andThen [OF from_ok fin])
  show ?thesis
    unfolding restore_body_def
    by (rule triple_if [OF held_throw], split sum.split) (intro conjI allI impI held_throw body)
qed

subsection \<open>Failing and finishing\<close>

lemma rollback_ok: "held cfg i (mine i) rollbackRestoredState (\<lambda>_. blank i)"
  unfolding rollbackRestoredState_def
proof (rule get_keeps)
  fix s h assume s: "host_keeps cfg s h"
  let ?f = "\<lambda>s. clear_history (s\<lparr>hSessions := [], hRestoredFrom := None\<rparr>)"
  let ?K = "\<lambda>t. mine i t \<and> (\<forall>r \<in> set (ovals (hSessions s)). known t r)"
  have lastK: "lasting (host_relies i) ?K"
    by (auto simp: lasting_def intro: lastingD [OF mine_lasting(1)] lastingD [OF known_stays(2)])
  have start: "?K t" if "t = s \<and> mine i t" for t
  proof -
    have "known s r" if "r \<in> set (ovals (hSessions s))" for r
    proof -
      from that obtain k where "(k, r) \<in> set (hSessions s)" by auto
      then have "oget (hSessions s) k = Some r" using s by (simp add: host_keeps_def host_well_def oget_iff)
      then show ?thesis using published_known [OF s] by blast
    qed
    with that show ?thesis by auto
  qed
  have detach: "tight cfg i ?K (each detach_session (ovals (hSessions s))) (\<lambda>_. ?K)"
  proof (rule tight_each)
    fix r assume "r \<in> set (ovals (hSessions s))"
    with triple_frames [OF detach_ok lastK, of cfg r] show "tight cfg i ?K (detach_session r) (\<lambda>_. ?K)" by (elim triple_conseq) auto
  qed
  have clear: "held cfg i (mine i) (change ?f) (\<lambda>_. blank i)"
  proof (rule triple_change)
    fix u g assume k: "keeps (host_contract cfg) u g" and m: "mine i u"
    define w where "w = u\<lparr>hSessions := [], hRestoredFrom := None\<rparr>"
    have uw: "host_keeps cfg w g \<and> host_guarantees i u w \<and> host_relies i u w"
      by (rule tame_step) (use k in \<open>simp_all add: w_def tame_def\<close>)
    have wt: "host_keeps cfg (clear_history w) g \<and> host_guarantees i w (clear_history w) \<and> holding i w (clear_history w) \<and> mine i (clear_history w)"
      by (rule mine_step [OF clear_history_facts(1) _ _ clear_history_facts(2,3)]) (use uw m in \<open>simp_all add: mine_def w_def\<close>)
    have "host_guarantees i u (clear_history w)" using uw wt unfolding host_guarantees_def by (blast intro: grows_trans restores_trans)
    moreover have "holding i u (clear_history w)" using uw wt framesD(2) [OF frames_holding] relies_holding by blast
    ultimately show "keeps (host_contract cfg) (?f u) g \<and> guarantees (host_contract cfg) i u (?f u) \<and> holding i u (?f u) \<and> blank i (?f u)"
      using wt by (simp add: blank_def clear_history_facts(4) w_def)
  qed
  have wait: "held cfg i ?K all_cleaned (\<lambda>_. mine i)"
    by (rule triple_post [OF all_cleaned_ok [OF frames_holding lastK]]) simp
  show "held cfg i (\<lambda>t. t = s \<and> mine i t) (andThen (each detach_session (ovals (hSessions s))) (andThen all_cleaned (change ?f))) (\<lambda>_. blank i)"
    by (rule triple_pre [OF held_andThen [OF hold [OF detach] held_andThen [OF wait clear]] start])
qed

lemma oget_merge: "omap_wf xs \<Longrightarrow> oget (fold (\<lambda>(k, v). oset k v) xs m) k = (case oget xs k of Some v \<Rightarrow> Some v | None \<Rightarrow> oget m k)"
proof (induction xs arbitrary: m)
  case (Cons p xs)
  obtain a b where p: "p = (a, b)" by (cases p)
  with Cons.prems have w: "omap_wf xs" "a \<notin> fst ` set xs" by (auto simp: omap_wf_def)
  then have "oget xs a = None" by (simp add: map_of_eq_None_iff)
  with Cons.IH [OF w(1), of "oset a b m"] show ?case by (auto simp: p split: option.split)
qed simp

lemma okeep_merge: "omap_wf xs \<Longrightarrow> okeep P xs \<Longrightarrow> okeep P m \<Longrightarrow> okeep P (fold (\<lambda>(k, v). oset k v) xs m)"
  by (auto simp: okeep_def oget_merge split: option.splits)

lemma omap_wf_merge: "omap_wf m \<Longrightarrow> omap_wf (fold (\<lambda>(k, v). oset k v) xs m)"
  by (rule omap_wf_fold) auto

lemma reinstate_history:
  assumes s: "history_ok s" "hHistory s = []" and s0: "history_ok s0" "bounded cfg s0" and d: "\<not> hDisposed s"
  shows "history_ok (reinstate s0 s)" "bounded cfg (reinstate s0 s)"
proof -
  have c: "hCompleted s = []" using s by (cases "hCompleted s") (auto simp: history_ok_def is_completed_def)
  have "is_completed k (reinstate s0 s)" if "k \<in> set (hCompleted s0)" for k
  proof -
    have "is_completed k s0" using s0 that by (simp add: history_ok_def)
    then show ?thesis using s0 d by (auto simp: is_completed_def reinstate_def history_ok_def oget_merge)
  qed
  then show "history_ok (reinstate s0 s)"
    using s s0 d c by (simp add: history_ok_def reinstate_def okeep_merge omap_wf_merge)
  show "bounded cfg (reinstate s0 s)" using s0 d c by (simp add: bounded_def reinstate_def)
qed

lemma reinstate_ok:
  assumes s0: "history_ok s0" "bounded cfg s0"
  shows "held cfg i (blank i) (change (reinstate s0)) (\<lambda>_. mine i)"
proof (rule triple_change)
  fix s h assume s: "keeps (host_contract cfg) s h" "blank i s"
  have h: "history_ok (reinstate s0 s) \<and> bounded cfg (reinstate s0 s)"
  proof (cases "hDisposed s")
    case True
    then show ?thesis using s(1) by (simp add: reinstate_def host_keeps_def)
  next
    case False
    then show ?thesis using reinstate_history [OF _ _ s0] s by (simp add: host_keeps_def blank_def)
  qed
  have "recording s (reinstate s0 s)" by (simp add: recording_def reinstate_def)
  from mine_step [OF this _ _ conjunct1 [OF h] conjunct2 [OF h], of h i] s
  show "keeps (host_contract cfg) (reinstate s0 s) h \<and> guarantees (host_contract cfg) i s (reinstate s0 s) \<and> holding i s (reinstate s0 s)
      \<and> mine i (reinstate s0 s)" by (simp add: blank_def)
qed

text \<open>What is still to be emitted when a restoration has released the host.\<close>

definition pending_ok :: "host_config \<Rightarrow> host \<Rightarrow> (host \<times> host_output) list \<Rightarrow> (nat option \<times> stream_envelope) list \<Rightarrow> bool" where
  "pending_ok cfg s h b \<longleftrightarrow> sorted_wrt before (session_items (streamed h @ b)) \<and> (\<forall>p \<in> set b. \<exists>r e. p = (Some r, SessionStream e) \<and> accounted cfg s (r, e))"

definition release_host :: "host \<Rightarrow> host" where
  "release_host s = s\<lparr>hRestoring := None, hBuffer := None, hDirty := []\<rparr>"

lemma release_step:
  assumes s: "host_keeps cfg s h" and m: "mine i s"
  shows "host_keeps cfg (release_host s) h \<and> host_guarantees i s (release_host s) \<and> grows s (release_host s) \<and> pending_ok cfg (release_host s) h (buffered s)"
proof -
  let ?t = "release_host s"
  have e: "hrec ?t = hrec s" "known ?t = known s" "holds ?t = holds s" "tickets ?t = tickets s" "accounted cfg ?t = accounted cfg s"
    using same_records [of ?t s] by (simp_all add: release_host_def)
  have p: "pending_ok cfg ?t h (buffered s)"
    using s by (fastforce simp: pending_ok_def e host_keeps_def host_well_def trace_ok_def session_trace_def session_items_iff)
  have "host_well ?t" using s unfolding host_keeps_def host_well_def e by (simp add: release_host_def buffered_def)
  moreover have "trace_ok cfg ?t h" using s by (simp add: host_keeps_def trace_ok_def session_trace_def e sorted_wrt_append) (simp add: release_host_def buffered_def)
  moreover have "mutated_ok ?t h" "history_ok ?t" "bounded cfg ?t"
    using s unfolding host_keeps_def mutated_ok_def e by (simp_all add: release_host_def history_ok_def bounded_def is_completed_def)
  moreover have "grows s ?t" by (simp add: grows_def release_host_def)
  moreover from this have "host_guarantees i s ?t" using m by (simp add: host_guarantees_def e restores_def mine_def)
  ultimately show ?thesis using p by (simp add: host_keeps_def)
qed

lemma flush_ok:
  assumes "host_keeps cfg s h" and "hRestoring s = None" and "pending_ok cfg s h b" and "\<And>h'. host_keeps cfg s h' \<Longrightarrow> Q () s h'"
  shows "sat (host_contract cfg) i (each flush_one b) Q E s h"
  using assms(1,3)
proof (induction b arbitrary: h)
  case (Cons p b)
  then obtain r e where p: "p = (Some r, SessionStream e)" and a: "accounted cfg s (r, e)" by (auto simp: pending_ok_def)
  have nb: "buffered s = []" using Cons.prems(1) assms(2) by (simp add: host_keeps_def host_well_def buffered_def)
  have later: "pending_ok cfg s h b" using Cons.prems(2) by (auto simp: pending_ok_def p sorted_wrt_append)
  have c: "checked_stream (SessionStream e)" using a by (simp add: accounted_def)
  show ?case
  proof (cases "hDisposed s")
    case True
    with Cons.IH [OF Cons.prems(1) later] show ?thesis by (simp add: flush_one_def emit_stream_def sat_andThen proceed_def p)
  next
    case False
    have n: "eventSeq e' < eventSeq e \<and> revision e' \<le> revision e" if "(r, e') \<in> set (session_trace s h)" for e'
      using Cons.prems(2) that by (auto simp: pending_ok_def p sorted_wrt_append session_trace_def nb before_def)
    note st = stream_step [OF Cons.prems(1) assms(2) False a n]
    have "pending_ok cfg s (h @ [(s, Streamed (Some r) (SessionStream e))]) b" using Cons.prems(2) by (simp add: pending_ok_def p)
    with st Cons.IH [OF conjunct2 [OF st]] False c assms(2) show ?thesis
      by (simp add: flush_one_def emit_stream_def sat_andThen sat_emit p del: checked_stream.simps host_permits.simps)
  qed
qed (simp add: assms(4))

text \<open>A restoration begins.\<close>

lemma begin_restore_step:
  assumes s: "host_keeps cfg s h" and n: "hRestoring s = None" and t: "t = s\<lparr>hBuffer := Some [], hDirty := [], hRestoring := Some i\<rparr>"
  shows "host_keeps cfg t h \<and> host_guarantees i s t \<and> grows s t \<and> mine i t"
proof -
  have e: "hrec t = hrec s" "known t = known s" "holds t = holds s" "tickets t = tickets s" "accounted cfg t = accounted cfg s"
    using same_records [of t s] by (simp_all add: t)
  have nb: "buffered s = []" "buffered t = []" using s n by (simp_all add: host_keeps_def host_well_def buffered_def t)
  have "host_well t" using s unfolding host_keeps_def host_well_def e nb by (simp add: t)
  moreover have "trace_ok cfg t h" "mutated_ok t h" "history_ok t" "bounded cfg t"
    using s unfolding host_keeps_def trace_ok_def session_trace_def mutated_ok_def e nb by (simp_all add: t history_ok_def bounded_def is_completed_def)
  moreover have "grows s t" by (simp add: grows_def t)
  moreover from this have "host_guarantees i s t" using n by (simp add: host_guarantees_def e restores_def)
  ultimately show ?thesis by (simp add: host_keeps_def mine_def t)
qed

lemma restore_safely_ok:
  assumes s: "host_keeps cfg s h" "mine i s" and s0: "history_ok s0" "bounded cfg s0"
  shows "sat (host_contract cfg) i (restore_safely cfg st s0)
    (\<lambda>b s' h'. host_keeps cfg s' h' \<and> grows s s' \<and> hRestoring s' = None \<and> pending_ok cfg s' h' b) (\<lambda>_ s' h'. host_keeps cfg s' h' \<and> grows s s') s h"
proof -
  let ?C = "host_contract cfg"
  have fin: "host_guarantees i s' (release_host s') \<and> host_keeps cfg (release_host s') h' \<and> grows s (release_host s')
      \<and> hRestoring (release_host s') = None \<and> pending_ok cfg (release_host s') h' (buffered s')"
    if "host_keeps cfg s' h' \<and> grows s s' \<and> mine i s'" for s' h'
    using release_step [of cfg s' h' i] that grows_trans by (auto simp: release_host_def)
  have undo: "held cfg i (mine i) (andThen (awaited rollbackRestoredState) (andThen (change (reinstate s0)) (Throw e))) (\<lambda>_ _. False)" for e :: host_error
    by (rule held_andThen [OF awaited_ok [OF frames_holding rollback_ok]], simp, rule held_andThen [OF reinstate_ok [OF s0] held_throw])
  have caught: "sat ?C i (andThen (awaited rollbackRestoredState) (andThen (change (reinstate s0)) (Throw e)))
      (\<lambda>a s' h'. host_guarantees i s' (release_host s') \<and> host_keeps cfg (release_host s') h' \<and> grows s (release_host s')
        \<and> hRestoring (release_host s') = None \<and> pending_ok cfg (release_host s') h' a)
      (\<lambda>e s' h'. host_guarantees i s' (release_host s') \<and> host_keeps cfg (release_host s') h' \<and> grows s (release_host s')) s' h'"
    if a: "host_keeps cfg s' h' \<and> grows s s' \<and> mine i s'" for e s' h'
  proof -
    have on: "host_keeps cfg u g \<Longrightarrow> holding i s' u \<Longrightarrow> host_keeps cfg u g \<and> grows s u \<and> mine i u" for u g
      using a grows_trans [of s s' u] by (simp add: holding_def)
    show ?thesis
      by (rule sat_mono [OF tripleD [OF undo]], use a in simp, use a in simp, simp, unfold host_contract_simps, use fin [OF on] in blast)
  qed
  have left: "pending_ok cfg (release_host s') h' b" if "host_keeps cfg s' h'" "grows s s'" "mine i s'" "hBuffer s' = Some b" for s' h' b
    using fin [of s' h'] that by (simp add: buffered_def)
  show ?thesis
    unfolding restore_safely_def release_host_def [symmetric] sat_ensuring sat_rescue sat_change
    by (rule sat_mono [OF tripleD [OF restore_body_ok]]) (use s fin caught left in \<open>auto simp: holding_def\<close>)
qed

lemma restoreState_ok: "loose cfg i (\<lambda>_. True) (restoreState cfg i st) (\<lambda>_ _. True)"
  unfolding restoreState_def
proof (rule tripleI)
  fix s h assume k: "keeps (host_contract cfg) s h" and "True"
  let ?t = "s\<lparr>hBuffer := Some [], hDirty := [], hRestoring := Some i\<rparr>"
  let ?Q = "\<lambda>(_ :: unit) s' h'. keeps (host_contract cfg) s' h' \<and> grows s s' \<and> True" and ?E = "\<lambda>_ s' h'. keeps (host_contract cfg) s' h' \<and> grows s s'"
  have go: "sat (host_contract cfg) i (Put ?t (after (restore_safely cfg st s) (\<lambda>committed. andThen (each flush_one committed) notifyStateChanged))) ?Q ?E s h"
    if n: "hRestoring s = None"
  proof -
    have t: "host_keeps cfg ?t h \<and> host_guarantees i s ?t \<and> grows s ?t \<and> mine i ?t"
      by (rule begin_restore_step [OF _ n refl]) (use k in simp)
    have flush: "sat (host_contract cfg) i (andThen (each flush_one b) notifyStateChanged) ?Q ?E s' h'"
      if "host_keeps cfg s' h' \<and> grows ?t s' \<and> hRestoring s' = None \<and> pending_ok cfg s' h' b" for b s' h'
      unfolding sat_andThen
      by (rule flush_ok) (use that t grows_trans [of s ?t s'] in \<open>auto simp: notifyStateChanged_def sat_emit host_keeps_snoc plain_def\<close>)
    have "sat (host_contract cfg) i (after (restore_safely cfg st s) (\<lambda>committed. andThen (each flush_one committed) notifyStateChanged)) ?Q ?E ?t h"
      unfolding sat_after
      by (rule sat_mono [OF restore_safely_ok]) (use k t flush grows_trans [of s ?t] in \<open>auto simp: host_keeps_def\<close>)
    with t show ?thesis by simp
  qed
  then show "sat (host_contract cfg) i (Get (\<lambda>s0.
     if hDisposed s0 then Throw (plain_error ''Runtime host is disposed'')
     else if hRestoring s0 \<noteq> None then Throw (plain_error ''Runtime state restoration is already in progress'')
     else if hInFlight s0 \<noteq> [] \<or> hAcquisitions s0 \<noteq> [] then Throw (plain_error ''Runtime state cannot be restored while requests are active'')
     else if hSessions s0 \<noteq> [] then Throw (plain_error ''Runtime state can only be restored into an empty host'')
     else if \<not> hasRestore cfg then Throw (plain_error ''Session factory does not support restore'')
     else Put (s0\<lparr>hBuffer := Some [], hDirty := [], hRestoring := Some i\<rparr>)
       (after (restore_safely cfg st s0) (\<lambda>committed. andThen (each flush_one committed) notifyStateChanged)))) ?Q ?E s h"
    using k by simp
qed

subsection \<open>The system\<close>

lemma report_call_ok: "loose cfg i (\<lambda>_. True) p (\<lambda>_ _. True) \<Longrightarrow> loose cfg i (\<lambda>_. True) (report_call me f p) (\<lambda>_ _. True)"
  unfolding report_call_def
  by (rule triple_rescue [OF frames_grows loose_after, where P' = "\<lambda>_. True"]) (auto intro: emit_harmless)

lemma host_job_ok: "loose cfg i (\<lambda>s. host_enters s j) (run_host_job cfg i j) (\<lambda>_ _. True)"
proof (cases j)
  case (ProcessRequest q p n a ctl)
  then show ?thesis by (simp add: settle_request_ok [OF processAccepted_ok])
next
  case (ProcessAbort q p n c)
  then show ?thesis by (simp add: process_abort_ok)
next
  case (EventMutation r t v)
  then show ?thesis by (simp add: event_mutation_ok)
next
  case (AdapterShows a v)
  have "tight cfg i (\<lambda>_. True) (change (\<lambda>s. s\<lparr>hAdapters := oset a v (hAdapters s)\<rparr>) :: unit step) (\<lambda>_ _. True)" by (rule tight_tame) simp_all
  with AdapterShows show ?thesis by (simp add: loosen)
next
  case (ClockTick now)
  have "tight cfg i (\<lambda>_. True) (change (\<lambda>s. s\<lparr>hClock := now\<rparr>) :: unit step) (\<lambda>_ _. True)" by (rule tight_tame) simp_all
  with ClockTick show ?thesis by (simp add: loosen)
qed (auto intro: report_call_ok loosen [OF handle_ok] loosen [OF emitHello_ok] loosen [OF exportState_ok] restoreState_ok
    loosen [OF dispose_host_ok] loosen [OF onAgentEvent_ok])

lemma host_enters_later: "host_enters s j \<Longrightarrow> host_relies i s t \<Longrightarrow> host_enters t j"
  by (cases j) (auto intro: lastingD [OF known_stays(2)] lastingD [OF promised_lasting(2)])

interpretation host: respected "host_contract cfg" "run_host_job cfg"
proof
  show "sat (host_contract cfg) i (run_host_job cfg i x) (\<lambda>_. keeps (host_contract cfg)) (\<lambda>_. keeps (host_contract cfg)) s h"
    if "keeps (host_contract cfg) s h" "enters (host_contract cfg) s x" for s h x i
    by (rule sat_mono [OF tripleD [OF host_job_ok]]) (use that in simp_all)
qed (auto intro: host_relies_trans host_guarantees_relies host_enters_later)

text \<open>The jobs that come from outside; the host itself starts the others.\<close>

fun external :: "host_job \<Rightarrow> bool" where
  "external (ProcessRequest q p n a ctl) = False"
| "external (ProcessAbort q p n c) = False"
| "external (EventMutation r t v) = False"
| "external _ = True"

definition outside :: "(host_job, host_answer) event list \<Rightarrow> bool" where
  "outside es \<longleftrightarrow> list_all (\<lambda>e. case e of Start j \<Rightarrow> external j | Resume i w \<Rightarrow> True) es"

lemma external_enters: "external j \<Longrightarrow> host_enters s j"
  by (cases j) simp_all

lemma outside_enters: "outside es \<Longrightarrow> Start j \<in> set es \<Longrightarrow> enters (host_contract cfg) t j"
  by (auto simp: outside_def list_all_iff external_enters)

lemma empty_keeps: "keeps (host_contract cfg) empty_host []"
  by (simp add: host_keeps_def host_well_def trace_ok_def session_trace_def buffered_def mutated_ok_def history_ok_def bounded_def empty_host_def)

lemma host_run_keeps: "outside es \<Longrightarrow> host_keeps cfg (sysState (host_run cfg es)) (sysHistory (host_run cfg es))"
  using host.keeps_run [OF empty_keeps outside_enters, of es] unfolding host_contract_simps .

lemma host_run_permits: "outside es \<Longrightarrow> sysHistory (host_run cfg es) = h @ (t, x) # g \<Longrightarrow> host_permits cfg t h x"
  using host.permits_run [OF empty_keeps outside_enters, of es] unfolding host_contract_simps .

end
