(* ===== verification/HostGuarantees.thy ===== *)
theory HostGuarantees
  imports HostRestore
begin

section \<open>What the runtime host guarantees\<close>

text \<open>
  The properties of every run of the runtime host that starts with no session and is driven from outside:
  what it streams and answers, when it mutates a session or starts an execution, and how many requests it
  remembers. The runs at the end of the first part apply them.
\<close>

subsection \<open>Example runs\<close>

definition demo_host :: host_config where
  "demo_host = \<lparr>cfgEpoch = ''e'', maxCompletedRequests = 1, hasArtifacts = True, hasRepl = True, hasPromptPreparation = False,
     hasPageOperations = True, hasRestore = True\<rparr>"

definition demo_call :: "string \<Rightarrow> operation \<Rightarrow> request_envelope" where
  "demo_call i p = \<lparr>protocolVersion = RUNTIME_PROTOCOL_VERSION, runtimeEpoch = ''e'', clientId = ''c'', windowId = 7, trace = None,
     sessionId = ''s'', target = ChromeTab None (Some 1) None, requestId = i, operation = p\<rparr>"

definition demo_view :: adapter_state where
  "demo_view = \<lparr>asPrompt = [], asModel = None, asThinking = ''off'', asMessages = [], asTools = [], asPendingCalls = [], asStreaming = False,
     asStreamingMessage = None, asArtifacts = [], asError = None\<rparr>"

definition demo_create :: request_envelope where
  "demo_create = demo_call ''r1'' (Create [] None None None)"

definition demo_thinking :: request_envelope where
  "demo_thinking = demo_call ''r2'' (SetThinking ''high'')"

definition demo_repl :: request_envelope where
  "demo_repl = demo_call ''r3'' (ReplExecute ''x'' ''1+1'' False)"

definition demo_created :: response_envelope where
  "demo_created = host_response demo_create (Success (JObj [(''created'', JBool True), (''revision'', jint 1)]))"

definition demo_snapshot :: session_stream where
  "demo_snapshot = host_stream ''e'' ''c'' 7 ''s'' (ChromeTab None (Some 1) None) 1 1 None (SnapshotPayload
     (make_snapshot (new_record ''c'' 7 ''s'' (ChromeTab None (Some 1) None) 5 1 1) demo_view))"

definition demo_context :: "request_envelope \<Rightarrow> string option \<Rightarrow> operation_context" where
  "demo_context q e = \<lparr>ctxRequest = q, ctxExecution = e, ctxController = 5, ctxSession = 4\<rparr>"

text \<open>A session is created and answered for, its thinking level set, and, in the other run, a REPL execution started.\<close>

definition demo_start :: "(host_job, host_answer) event list" where
  "demo_start = [Start (ClockTick ''2026-01-01T00:00:00.000Z''), Start (AdapterShows 5 (Inr demo_view)), Start (HandleCall demo_create),
     Resume 3 Done, Resume 3 (GotAdapter 5)] @ replicate 7 (Resume 3 Done) @ [Resume 2 (GotResponse demo_created)]"

definition demo_mutating :: "(host_job, host_answer) event list" where
  "demo_mutating = demo_start @ [Start (HandleCall demo_thinking), Resume 5 Done, Resume 5 Done]"

definition demo_executing :: "(host_job, host_answer) event list" where
  "demo_executing = demo_start @ [Start (HandleCall demo_repl), Resume 5 Done]"

lemma demo_mutating_run:
  "let y = host_run demo_host demo_mutating; xs = map snd (sysHistory y) in
     Streamed (Some 4) (SessionStream demo_snapshot) \<in> set xs \<and> Responded 2 demo_create Processed demo_created \<in> set xs
     \<and> Mutate 4 7 5 (demo_context demo_thinking None) (SetThinkingTo ''high'') \<in> set xs \<and> length (hCompleted (sysState y)) = 1"
  by code_simp

lemma demo_executing_run:
  "ExecuteRepl ''1+1'' (demo_context demo_repl (Some ''x'')) \<in> set (map snd (sysHistory (host_run demo_host demo_executing)))"
  by code_simp

lemma demo_outside: "outside demo_mutating" "outside demo_executing"
  by code_simp+

lemma output_split: "x \<in> set (map snd hs) \<Longrightarrow> \<exists>h s g. hs = h @ (s, x) # g"
  using split_list by fastforce

lemma demo_shown:
  "\<exists>h s g. sysHistory (host_run demo_host demo_mutating) = h @ (s, Streamed (Some 4) (SessionStream demo_snapshot)) # g"
  "\<exists>h s g. sysHistory (host_run demo_host demo_mutating) = h @ (s, Responded 2 demo_create Processed demo_created) # g"
  "\<exists>h s g. sysHistory (host_run demo_host demo_mutating) = h @ (s, Mutate 4 7 5 (demo_context demo_thinking None) (SetThinkingTo ''high'')) # g"
  "\<exists>h s g. sysHistory (host_run demo_host demo_executing) = h @ (s, ExecuteRepl ''1+1'' (demo_context demo_repl (Some ''x''))) # g"
proof -
  note m = demo_mutating_run [unfolded Let_def]
  show "\<exists>h s g. sysHistory (host_run demo_host demo_mutating) = h @ (s, Streamed (Some 4) (SessionStream demo_snapshot)) # g"
    by (rule output_split [OF conjunct1 [OF m]])
  show "\<exists>h s g. sysHistory (host_run demo_host demo_mutating) = h @ (s, Responded 2 demo_create Processed demo_created) # g"
    by (rule output_split [OF conjunct1 [OF conjunct2 [OF m]]])
  show "\<exists>h s g. sysHistory (host_run demo_host demo_mutating) = h @ (s, Mutate 4 7 5 (demo_context demo_thinking None) (SetThinkingTo ''high'')) # g"
    by (rule output_split [OF conjunct1 [OF conjunct2 [OF conjunct2 [OF m]]]])
qed (rule output_split [OF demo_executing_run])

subsection \<open>Every run\<close>

text \<open>
  C5. Whatever the runtime host streams is a valid envelope of its own epoch, sent while it is neither disposed
  nor restoring. A session stream carries the client, window, session and target of the session it comes from,
  a sequence number above every earlier one of that session and a revision that is not below them.
\<close>

theorem host_streams_in_order:
  assumes "outside es" and "sysHistory (host_run cfg es) = h @ (s, Streamed r e) # g"
  shows "\<not> hDisposed s \<and> hRestoring s = None \<and> checked_stream e
    \<and> (case e of Hello v \<Rightarrow> runtimeEpoch v = cfgEpoch cfg
       | SessionStream v \<Rightarrow> \<exists>n x. r = Some n \<and> oget (hRecords s) n = Some x \<and> runtimeEpoch v = cfgEpoch cfg
           \<and> clientId v = hsClient x \<and> windowId v = hsWindow x \<and> sessionId v = hsSession x \<and> target v = hsTarget x
           \<and> (\<forall>t w. (t, Streamed r (SessionStream w)) \<in> set h \<longrightarrow> eventSeq w < eventSeq v \<and> revision w \<le> revision v))"
  using host_run_permits [OF assms] known_record by (auto simp: stream_permitted_def split: stream_envelope.splits simp del: checked_stream.simps)

theorem host_streams_in_order_witness:
  "\<exists>h s g. sysHistory (host_run demo_host demo_mutating) = h @ (s, Streamed (Some 4) (SessionStream demo_snapshot)) # g
     \<and> hRestoring s = None \<and> checked_stream (SessionStream demo_snapshot)"
proof -
  obtain h s g where e: "sysHistory (host_run demo_host demo_mutating) = h @ (s, Streamed (Some 4) (SessionStream demo_snapshot)) # g"
    using demo_shown by blast
  with host_streams_in_order [OF demo_outside(1) e] show ?thesis by blast
qed

text \<open>
  C8. A request is answered for itself: a response the host computed for it, or refused it with, correlates with
  it in every field, and one it took from a promise or from its cache has its client, window, session and id.
\<close>

theorem host_answers_for_the_request:
  assumes "outside es" and "sysHistory (host_run cfg es) = h @ (s, Responded me q src x) # g"
  shows "if src = Refused \<or> src = Processed then isRuntimeRequestEnvelope (request_json q) \<longrightarrow> correlateRuntimeResponse q x = []
    else clientId x = clientId q \<and> windowId x = windowId q \<and> sessionId x = sessionId q \<and> responseRequestId x = requestId q"
  using host_run_permits [OF assms] by (auto simp: answers_def response_key_def requestKey_def split: if_splits)

theorem host_answers_for_the_request_witness:
  "\<exists>h s g. sysHistory (host_run demo_host demo_mutating) = h @ (s, Responded 2 demo_create Processed demo_created) # g
     \<and> correlateRuntimeResponse demo_create demo_created = []"
proof -
  obtain h s g where e: "sysHistory (host_run demo_host demo_mutating) = h @ (s, Responded 2 demo_create Processed demo_created) # g"
    using demo_shown by blast
  have "isRuntimeRequestEnvelope (request_json demo_create)" by code_simp
  with e host_answers_for_the_request [OF demo_outside(1) e] show ?thesis by auto
qed

text \<open>
  C6. The adapter of a session is mutated only for a request that was not aborted, while the host is not disposed
  and the session is published, by the mutation at the head of the session's queue, and only when no other
  mutation that reached the adapter before is still in the queue: mutations of a session never overlap.
\<close>

theorem session_mutations_exclusive:
  assumes "outside es" and "sysHistory (host_run cfg es) = h @ (s, Mutate r k a ctx m) # g"
  shows "ctxController ctx \<notin> set (hAborted s) \<and> \<not> hDisposed s \<and> published s r \<and> a = hsAdapter (hrec s r)
    \<and> (\<exists>j rest. hsQueue (hrec s r) = (k, j) # rest)
    \<and> (\<forall>t x k'. (t, x) \<in> set h \<longrightarrow> mutating x = Some (r, k') \<longrightarrow> k' \<noteq> k \<longrightarrow> k' \<notin> fst ` set (hsQueue (hrec s r)))"
proof -
  from host_run_permits [OF assms] have p: "usable s (ctxController ctx) r" "a = hsAdapter (hrec s r)" "in_turn s h r k" by simp_all
  then obtain j where j: "holds s r k j" unfolding in_turn_def by blast
  then have "hsQueue (hrec s r) = (k, j) # tl (hsQueue (hrec s r))" by (cases "hsQueue (hrec s r)") (auto simp: holds_def)
  moreover have "\<forall>t x k'. (t, x) \<in> set h \<longrightarrow> mutating x = Some (r, k') \<longrightarrow> k' \<noteq> k \<longrightarrow> k' \<notin> fst ` set (hsQueue (hrec s r))"
    using p(3) unfolding in_turn_def tickets_def by simp
  ultimately show ?thesis using p(1,2) unfolding usable_def by blast
qed

theorem session_mutations_exclusive_witness:
  "\<exists>h s g j rest. sysHistory (host_run demo_host demo_mutating) = h @ (s, Mutate 4 7 5 (demo_context demo_thinking None) (SetThinkingTo ''high'')) # g
     \<and> published s 4 \<and> hsQueue (hrec s 4) = (7, j) # rest"
proof -
  obtain h s g where e: "sysHistory (host_run demo_host demo_mutating) = h @ (s, Mutate 4 7 5 (demo_context demo_thinking None) (SetThinkingTo ''high'')) # g"
    using demo_shown by blast
  with session_mutations_exclusive [OF demo_outside(1) e] show ?thesis by blast
qed

text \<open>
  C7. The REPL and the page are asked to execute only for an execution that is registered with its session as
  running under the controller it was started with, while that controller is not aborted, the session is
  published and the host is not disposed: nothing starts after it was cancelled.
\<close>

theorem execution_starts_registered:
  assumes "outside es" and "sysHistory (host_run cfg es) = h @ (s, x) # g"
    and "x = ExecuteRepl c ctx \<or> x = ExecutePage p ps ctx"
  shows "ctxController ctx \<notin> set (hAborted s) \<and> \<not> hDisposed s \<and> published s (ctxSession ctx)
    \<and> (\<exists>e y. ctxExecution ctx = Some e \<and> oget (hsActive (hrec s (ctxSession ctx))) e = Some y \<and> axController y = ctxController ctx
         \<and> executionId (axDescriptor y) = e \<and> execStatus (axDescriptor y) = Running)"
proof -
  from host_run_permits [OF assms(1,2)] assms(3) have "executing s ctx" by auto
  then show ?thesis unfolding executing_def usable_def by blast
qed

theorem execution_starts_registered_witness:
  "\<exists>h s g y. sysHistory (host_run demo_host demo_executing) = h @ (s, ExecuteRepl ''1+1'' (demo_context demo_repl (Some ''x''))) # g
     \<and> oget (hsActive (hrec s 4)) ''x'' = Some y \<and> execStatus (axDescriptor y) = Running"
proof -
  obtain h s g where e: "sysHistory (host_run demo_host demo_executing) = h @ (s, ExecuteRepl ''1+1'' (demo_context demo_repl (Some ''x''))) # g"
    using demo_shown(4) by blast
  from execution_starts_registered [OF demo_outside(2) e disjI1 [OF refl]] e
  show ?thesis by (auto simp: demo_context_def)
qed

text \<open>
  C9. The host remembers at most \<open>maxCompletedRequests\<close> completed requests, none twice, and each of them with the
  request it accepted under that key and a response with that key, so that it can answer a replay.
\<close>

theorem completed_requests_bounded:
  assumes "outside es"
  shows "let s = sysState (host_run cfg es) in length (hCompleted s) \<le> maxCompletedRequests cfg \<and> distinct (hCompleted s)
    \<and> list_all (\<lambda>k. \<exists>q x. oget (hHistory s) k = Some q \<and> requestKey q = k \<and> oget (hCache s) k = Some x
         \<and> scope_key (clientId x) (windowId x) (sessionId x) (responseRequestId x) = k) (hCompleted s)"
proof -
  have k: "history_ok (sysState (host_run cfg es))" "bounded cfg (sysState (host_run cfg es))"
    using host_run_keeps [OF assms] by (simp_all add: host_keeps_def)
  then show ?thesis
    unfolding Let_def history_ok_def bounded_def is_completed_def response_key_def list_all_iff okeep_def by blast
qed

theorem completed_requests_bounded_witness:
  "length (hCompleted (sysState (host_run demo_host demo_mutating))) = 1
   \<and> length (hCompleted (sysState (host_run demo_host demo_mutating))) \<le> maxCompletedRequests demo_host"
  using completed_requests_bounded [OF demo_outside(1), of demo_host] demo_mutating_run unfolding Let_def by blast

subsection \<open>An abort under a taken request id\<close>






end
