(* ===== verification/Spec2Isabelle.thy ===== *)
theory Spec2Isabelle
  imports RuntimeStream WindowAuthority BridgeGuarantees WorkflowEngine TaskRegistry PageSnapshots CoordinatorGuarantees HostGuarantees
begin

text \<open>
  A verification library for shuvgeist, a browser-agent extension with a local bridge server and a
  command-line client. This theory imports the library; it holds no definitions of its own.

  \<^bold>\<open>The program.\<close> The extension (\<open>packages/extension\<close>) runs an agent in an offscreen document; side panel
  documents are clients of that runtime, connected over ports by the background worker. The bridge
  server (\<open>packages/server\<close>) connects command-line clients and MCP to the extension over WebSockets.
  Six parts of this are modelled, from the leaves to the handlers:

  \<^item> The runtime channel (\<open>packages/extension/src/agent/runtime-protocol.ts\<close>, \<open>runtime-channel.ts\<close>,
    \<open>runtime-identity.ts\<close>). \<open>Json\<close> and \<open>JsonCanonical\<close>: wire values and the canonical text that
    fingerprints them, shown to identify them up to key order. \<open>RuntimeProtocol\<close>: the run-time checks
    of untrusted envelopes; \<open>RuntimeTypes\<close>, \<open>RuntimeTyping\<close>: the typed envelopes, their JSON form and
    that the checks accept exactly the valid ones. \<open>RuntimeLedger\<close>: the request ledger, which gives
    replay protection and at most one start of an execution. \<open>RuntimeStream\<close>: correlation of
    responses and the reducer of the stream, with its sequence and epoch discipline.
  \<^item> Window identity (\<open>sidepanel-context-identity.ts\<close>, \<open>sidepanel-window-authority.ts\<close>).
    \<open>SidepanelIdentity\<close>: capability material, port names, sender URLs and the client side of the
    handshake. \<open>WindowAuthority\<close>: the authority of the background worker, its stored form, and that a
    lease belongs to one window, is activated only by its confirmation and ends with its window.
  \<^item> The coordinator of the background worker (\<open>bridge/agent-runtime-coordinator.ts\<close>). \<open>Async\<close>: handlers
    as processes of an event loop, their interleaved runs, and a rely-guarantee calculus for them.
    \<open>PortAdmission\<close>: who gets a port, and that admission loses no message. \<open>RuntimeCoordinator\<close>: every
    method of the coordinator. \<open>CoordinatorContract\<close>, \<open>CoordinatorGuarantees\<close>: its invariant and what holds
    of every run: page operations are authorised, requests are the port's own, streams reach the active
    port in order, bindings are made under the lock of their route.
  \<^item> The offscreen runtime host (\<open>packages/extension/src/agent/offscreen-runtime-host.ts\<close>), which owns the
    sessions: \<open>HostState\<close>: what it persists. \<open>RuntimeHost\<close>: every method, as processes over one state;
    the numbers that identify records, ledgers, controllers and promises stand for object identity.
    \<open>HostContract\<close>: its rely-guarantee contract (records grow, the head of a queue keeps its turn, nobody
    else touches what a restoration records) and the triples of the pieces; \<open>HostOperations\<close>,
    \<open>HostRestore\<close>: a triple for every operation, restoration with its rollback, and the interpretation.
    \<open>HostGuarantees\<close>: streams are valid and in order, responses belong to their requests, mutations of a
    session do not overlap, executions start registered, the remembered requests are bounded, and a run
    in which an abort under a taken request id answers the replay of another request.
  \<^item> The bridge server (\<open>packages/server/src/server.ts\<close>, \<open>request-handler.ts\<close>, \<open>session-registry.ts\<close>,
    \<open>per-handle-write-lock.ts\<close>, \<open>target-execution.ts\<close>; \<open>packages/protocol/src/command-catalog.ts\<close>,
    \<open>command-schemas.ts\<close>, \<open>target.ts\<close>). \<open>BridgeCatalog\<close>: the command table, targets, routing.
    \<open>BridgeSessions\<close>: the registry of browser windows with their writer leases, and the session locks
    of \<open>background-state.ts\<close>. \<open>BridgeServer\<close>: the message handling and its invariant.
    \<open>BridgeGuarantees\<close>: what happens to every relayed request, what it must pass, who holds the lease.
    \<open>TaskRegistry\<close> (\<open>task-registry.ts\<close>) and \<open>PageSnapshots\<close> (\<open>page-snapshot-store.ts\<close>,
    \<open>page-snapshot-diff.ts\<close>): the lifecycle of tasks, and the exactness of a diff of snapshots.
  \<^item> Workflows (\<open>packages/extension/src/tools/workflow-engine.ts\<close>). \<open>WorkflowData\<close>: token substitution,
    bounded values. \<open>WorkflowEngine\<close>: the engine, its budget, its permissions and its verdict.

  \<^bold>\<open>How the code is modelled.\<close> A class is a record of its state and one definition per method, which
  returns the new state and what it sends or answers; a handler is the whole handler. Machines take
  their operations as a datatype (\<open>ledger_op\<close>, \<open>authority_op\<close>, \<open>server_op\<close>); a run is the fold of a
  list of operations, so every interleaving of handlers is a list. An asynchronous section that the code
  serialises is one operation, and what it reads from the browser while it runs is an argument
  (\<open>exclusive_env\<close>). Where handlers interleave at their awaits (the coordinator, the host), a handler is a process
  with an \<open>Await\<close> at each, a run is a list of starts and resumptions, and a chain of promises is a queue
  of process identities; timeouts and aborts are events. A \<open>Map\<close> is an insertion-ordered association list (\<open>omap\<close> of \<open>Prelude\<close>) with the
  invariant \<open>omap_wf\<close>. Strings are lists of Latin-1 code units. JSON values are \<open>jval\<close>; a number is a
  decimal, and the integers of typed records are \<open>int\<close>. A thrown error is \<open>Inl\<close> of a sum. Browser and
  Node interfaces, JSON and URL parsing, hashing, identity generators and the schema library are
  parameters or arguments.

  \<^bold>\<open>Interfaces.\<close> \<open>Prelude\<close> states the contracts the components share: \<open>invariant_machine\<close> and
  \<open>monotone_machine\<close> for the ledger, the stream, the authority and the server; \<open>codec\<close> for the port
  names; \<open>exclusive_lease\<close> (in \<open>BridgeSessions\<close>) for writer leases and session locks; \<open>run_law\<close> (in
  \<open>WorkflowEngine\<close>) for what holds of every part of a workflow run; \<open>respected\<close> (in \<open>Async\<close>) for handlers that
  keep a rely-guarantee contract. Each is interpreted on the model's
  definitions where they are declared.

  \<^bold>\<open>Bounds.\<close> No definition takes fuel: every recursion is structural or has a measure. The loops of the
  workflow engine end because its steps do; its execution ceiling is \<open>maxTotalStepExecutions\<close>. The host
  remembers at most \<open>maxCompletedRequests\<close> completed requests.

  \<^bold>\<open>Not modelled.\<close> The agent itself (an external library) and the session adapter around it, the page
  controller and the background glue around the modelled state, the remote session client, the execution of single
  browser commands, Electron sessions, the page driver, files and HTTP endpoints of the server, the
  command line, speech, sign-in and the user interface. Of the server: telemetry, logs, the journal
  aftermath of responses, server-local and Electron commands (outputs of the model) and the snapshot
  methods of MCP. Objects with cycles and numbers that print with an exponent are not values of the
  model.
\<close>

end
